(* ===== verification/Prelude.thy ===== *)
theory Prelude
  imports Complex_Main "HOL-Library.AList" "HOL-Library.Char_ord" "HOL-Library.List_Lexorder"
begin

text \<open>
  Shared vocabulary of the daari development: the Python values the components exchange
  (strings, floats, ordered dictionaries, exceptions as values), the string methods the
  source calls, and the generic lemmas every component uses.

  Conventions. A Python \<open>str\<close> is a list of \<open>char\<close>, read as the code points
  U+0000 to U+00FF (text outside Latin-1 is not represented). A Python \<open>int\<close> is
  \<open>int\<close>. A finite Python \<open>float\<close> is the rational number it denotes (type
  \<open>pyfloat\<close>); the rounding of a float operation is not modelled. A \<open>dict\<close> whose
  order can be observed is an association list in insertion order, updated with the
  library's \<open>AList.update\<close>, which replaces in place or appends, as Python does. A
  clock read is an argument (\<open>now\<close>), so each read of the source is visible in the type.
\<close>

section \<open>Python values\<close>

type_synonym pystr = string
type_synonym pyfloat = rat

named_theorems py_simps \<open>evaluation and algebra of the Python string helpers\<close>
named_theorems inv_intros \<open>one-step preservation of component invariants\<close>

text \<open>Python truthiness of an optional string, and \<open>x or d\<close> on one.\<close>

definition str_or :: "pystr option \<Rightarrow> pystr \<Rightarrow> pystr" where
  "str_or x d = (case x of None \<Rightarrow> d | Some s \<Rightarrow> (if s = '''' then d else s))"

text \<open>\<open>x or d\<close> on an optional number: zero is falsy too.\<close>

definition num_or :: "'a::zero option \<Rightarrow> 'a \<Rightarrow> 'a" where
  "num_or x d = (case x of None \<Rightarrow> d | Some v \<Rightarrow> (if v = 0 then d else v))"

lemma str_or_simps [simp, py_simps]:
  "str_or None d = d"
  "str_or (Some '''') d = d"
  "s \<noteq> '''' \<Longrightarrow> str_or (Some s) d = s"
  by (simp_all add: str_or_def)

lemma num_or_simps [simp, py_simps]:
  "num_or None d = d"
  "num_or (Some 0) d = d"
  "v \<noteq> 0 \<Longrightarrow> num_or (Some v) d = v"
  by (simp_all add: num_or_def)

subsection \<open>String methods\<close>

text \<open>
  \<open>str.isspace\<close> on the Latin-1 code points: tab to carriage return, the four
  information separators, space, next line and no-break space.
\<close>

definition is_space :: "char \<Rightarrow> bool" where
  "is_space c = (let n = (of_char c :: nat) in
     (9 \<le> n \<and> n \<le> 13) \<or> (28 \<le> n \<and> n \<le> 32) \<or> n = 133 \<or> n = 160)"

definition py_lstrip :: "pystr \<Rightarrow> pystr" where
  "py_lstrip s = dropWhile is_space s"

definition py_rstrip :: "pystr \<Rightarrow> pystr" where
  "py_rstrip s = rev (dropWhile is_space (rev s))"

definition py_strip :: "pystr \<Rightarrow> pystr" where
  "py_strip s = py_rstrip (py_lstrip s)"

text \<open>\<open>str.strip(chars)\<close> and \<open>str.rstrip(chars)\<close> for an explicit character set.\<close>

definition py_strip_chars :: "char list \<Rightarrow> pystr \<Rightarrow> pystr" where
  "py_strip_chars cs s =
     rev (dropWhile (\<lambda>c. c \<in> set cs) (rev (dropWhile (\<lambda>c. c \<in> set cs) s)))"

definition py_rstrip_chars :: "char list \<Rightarrow> pystr \<Rightarrow> pystr" where
  "py_rstrip_chars cs s = rev (dropWhile (\<lambda>c. c \<in> set cs) (rev s))"

text \<open>\<open>str.lower\<close>: the ASCII capitals and the Latin-1 capitals (without U+00D7).\<close>

definition lower_char :: "char \<Rightarrow> char" where
  "lower_char c = (let n = (of_char c :: nat) in
     if (65 \<le> n \<and> n \<le> 90) \<or> (192 \<le> n \<and> n \<le> 222 \<and> n \<noteq> 215)
     then char_of (n + 32) else c)"

definition py_lower :: "pystr \<Rightarrow> pystr" where
  "py_lower = map lower_char"

definition starts_with :: "pystr \<Rightarrow> pystr \<Rightarrow> bool" where
  "starts_with s p = (take (length p) s = p)"

definition ends_with :: "pystr \<Rightarrow> pystr \<Rightarrow> bool" where
  "ends_with s p = (length p \<le> length s \<and> drop (length s - length p) s = p)"

text \<open>\<open>needle in text\<close>.\<close>

fun contains :: "pystr \<Rightarrow> pystr \<Rightarrow> bool" where
  "contains [] p = (p = [])"
| "contains (c # s) p = (starts_with (c # s) p \<or> contains s p)"

text \<open>\<open>s.split(c, 1)\<close> as the text before and after the first separator.\<close>

fun split_first :: "char \<Rightarrow> pystr \<Rightarrow> (pystr \<times> pystr) option" where
  "split_first c [] = None"
| "split_first c (x # s) =
     (if x = c then Some ([], s)
      else map_option (\<lambda>(a, b). (x # a, b)) (split_first c s))"

text \<open>\<open>s.rsplit(c, 1)[-1]\<close>: the text after the last separator.\<close>

definition after_last :: "char \<Rightarrow> pystr \<Rightarrow> pystr" where
  "after_last c s = rev (takeWhile (\<lambda>x. x \<noteq> c) (rev s))"

subsection \<open>Decimal numbers in text\<close>

fun digits_of :: "nat \<Rightarrow> pystr" where
  "digits_of n = (if n < 10 then [char_of (48 + n)]
                  else digits_of (n div 10) @ [char_of (48 + n mod 10)])"

declare digits_of.simps [simp del]

definition str_of_int :: "int \<Rightarrow> pystr" where
  "str_of_int i = (if i < 0 then CHR ''-'' # digits_of (nat (- i)) else digits_of (nat i))"

definition is_digit :: "char \<Rightarrow> bool" where
  "is_digit c = (let n = (of_char c :: nat) in 48 \<le> n \<and> n \<le> 57)"

definition digit_val :: "char \<Rightarrow> int" where
  "digit_val c = int (of_char c) - 48"

text \<open>The digits of \<open>int(text)\<close>: at least one, single underscores between digits.\<close>

fun parse_digits :: "int \<Rightarrow> pystr \<Rightarrow> int option" where
  "parse_digits acc [] = Some acc"
| "parse_digits acc (c # s) =
     (if is_digit c then parse_digits (acc * 10 + digit_val c) s
      else if c = CHR ''_'' then
        (case s of d # s' \<Rightarrow>
           (if is_digit d then parse_digits (acc * 10 + digit_val d) s' else None)
         | [] \<Rightarrow> None)
      else None)"

definition parse_nat_text :: "pystr \<Rightarrow> int option" where
  "parse_nat_text s = (case s of [] \<Rightarrow> None
     | c # s' \<Rightarrow> (if is_digit c then parse_digits (digit_val c) s' else None))"

text \<open>\<open>int(text)\<close>; \<open>None\<close> is \<open>ValueError\<close>.\<close>

definition py_int :: "pystr \<Rightarrow> int option" where
  "py_int s = (case py_strip s of
       [] \<Rightarrow> None
     | c # s' \<Rightarrow> (if c = CHR ''-'' then map_option uminus (parse_nat_text s')
                 else if c = CHR ''+'' then parse_nat_text s'
                 else parse_nat_text (c # s')))"

text \<open>\<open>int(x)\<close> of a float: towards zero.\<close>

definition py_trunc :: "pyfloat \<Rightarrow> int" where
  "py_trunc x = (if x < 0 then - \<lfloor>- x\<rfloor> else \<lfloor>x\<rfloor>)"

section \<open>Lemmas the components share\<close>

lemma lower_char_idem [simp, py_simps]: "lower_char (lower_char c) = lower_char c"
proof -
  have "(of_char c :: nat) < 256" by simp
  then show ?thesis by (auto simp: lower_char_def Let_def)
qed

lemma py_lower_idem [simp, py_simps]: "py_lower (py_lower s) = py_lower s"
  by (simp add: py_lower_def)

lemma py_lower_Nil [simp, py_simps]: "py_lower [] = []" "(py_lower s = []) = (s = [])"
  by (simp_all add: py_lower_def)

lemma length_py_lower [simp, py_simps]: "length (py_lower s) = length s"
  by (simp add: py_lower_def)

lemma is_space_lower [simp, py_simps]: "is_space (lower_char c) = is_space c"
proof -
  have "(of_char c :: nat) < 256" by simp
  then show ?thesis by (auto simp: lower_char_def is_space_def Let_def)
qed

lemma dropWhile_lower: "dropWhile is_space (py_lower s) = py_lower (dropWhile is_space s)"
  by (simp add: py_lower_def dropWhile_map comp_def)

lemma rev_lower: "rev (py_lower s) = py_lower (rev s)"
  by (simp add: py_lower_def rev_map)

lemma strip_lower: "py_strip (py_lower s) = py_lower (py_strip s)"
  by (simp add: py_strip_def py_lstrip_def py_rstrip_def dropWhile_lower rev_lower)

lemma py_strip_Nil [simp, py_simps]: "py_strip [] = []"
  by (simp add: py_strip_def py_lstrip_def py_rstrip_def)

lemma py_rstrip_idem: "py_rstrip (py_rstrip s) = py_rstrip s"
  by (simp add: py_rstrip_def)

lemma dropWhile_suffix_hd: "dropWhile P xs \<noteq> [] \<Longrightarrow> \<not> P (hd (dropWhile P xs))"
  by (rule hd_dropWhile)

lemma rstrip_keeps_hd:
  assumes "xs \<noteq> []" "\<not> P (hd xs)"
  shows "rev (dropWhile P (rev xs)) \<noteq> [] \<and> hd (rev (dropWhile P (rev xs))) = hd xs"
proof -
  obtain x ys where xs: "xs = x # ys" using assms(1) by (cases xs) auto
  have "dropWhile P (rev ys @ [x]) = dropWhile P (rev ys) @ [x]"
    using assms(2) by (simp add: xs dropWhile_append3 dropWhile_append)
  then show ?thesis by (simp add: xs)
qed

lemma py_strip_idem [simp, py_simps]: "py_strip (py_strip s) = py_strip s"
proof (cases "py_lstrip s = []")
  case True
  then show ?thesis by (simp add: py_strip_def py_rstrip_def, simp add: py_lstrip_def)
next
  case False
  let ?t = "py_lstrip s"
  have hd: "\<not> is_space (hd ?t)" using False by (simp add: py_lstrip_def hd_dropWhile)
  have r: "py_rstrip ?t \<noteq> [] \<and> hd (py_rstrip ?t) = hd ?t"
    using rstrip_keeps_hd [where P = is_space, OF False hd] by (simp add: py_rstrip_def)
  then have "\<not> is_space (hd (py_rstrip ?t))" using hd by simp
  then have "py_lstrip (py_rstrip ?t) = py_rstrip ?t"
    using r by (cases "py_rstrip ?t") (auto simp: py_lstrip_def)
  then show ?thesis by (simp add: py_strip_def py_rstrip_idem)
qed

lemma starts_with_iff: "starts_with s p = (\<exists>t. s = p @ t)"
proof
  assume "starts_with s p"
  then have "s = p @ drop (length p) s"
    by (metis append_take_drop_id starts_with_def)
  then show "\<exists>t. s = p @ t" by blast
qed (auto simp: starts_with_def)

lemma starts_with_refl [simp, py_simps]: "starts_with s s" "starts_with s []"
  by (simp_all add: starts_with_def)

lemma starts_with_append [simp, py_simps]: "starts_with (p @ t) p"
  by (simp add: starts_with_def)

lemma starts_with_length: "starts_with s p \<Longrightarrow> length p \<le> length s"
  by (auto simp: starts_with_iff)

lemma ends_with_iff: "ends_with s p = (\<exists>t. s = t @ p)"
proof
  assume "ends_with s p"
  then have "s = take (length s - length p) s @ p"
    by (metis append_take_drop_id ends_with_def)
  then show "\<exists>t. s = t @ p" by blast
qed (auto simp: ends_with_def)

lemma split_first_None: "split_first c s = None \<longleftrightarrow> c \<notin> set s"
  by (induction s) (auto split: option.splits)

lemma split_first_Some:
  "split_first c s = Some (a, b) \<longleftrightarrow> s = a @ c # b \<and> c \<notin> set a"
proof (induction s arbitrary: a)
  case Nil
  then show ?case by simp
next
  case (Cons x s)
  show ?case
  proof (cases "x = c")
    case True
    then show ?thesis by (cases a) auto
  next
    case False
    then show ?thesis by (cases a) (auto simp: Cons.IH)
  qed
qed

subsection \<open>Decimal text round trip\<close>

lemma is_digit_char_of [simp]: "n < (10::nat) \<Longrightarrow> is_digit (char_of (48 + n))"
  by (simp add: is_digit_def)

lemma digit_val_char_of [simp]: "n < (10::nat) \<Longrightarrow> digit_val (char_of (48 + n)) = int n"
  by (simp add: digit_val_def)

lemma digits_of_all_digits: "list_all is_digit (digits_of n)"
proof (induction n rule: digits_of.induct)
  case (1 n)
  then show ?case by (simp add: digits_of.simps [of n])
qed

lemma digits_of_nonempty [simp]: "digits_of n \<noteq> []"
  by (simp add: digits_of.simps [of n])

fun digits_value :: "int \<Rightarrow> pystr \<Rightarrow> int" where
  "digits_value acc [] = acc"
| "digits_value acc (c # s) = digits_value (acc * 10 + digit_val c) s"

lemma parse_digits_all: "list_all is_digit s \<Longrightarrow> parse_digits acc s = Some (digits_value acc s)"
  by (induction s arbitrary: acc) auto

lemma digits_value_append: "digits_value acc (s @ t) = digits_value (digits_value acc s) t"
  by (induction s arbitrary: acc) auto

lemma digits_value_digits_of: "digits_value 0 (digits_of n) = int n"
proof (induction n rule: digits_of.induct)
  case (1 n)
  show ?case
  proof (cases "n < 10")
    case True
    then show ?thesis by (simp add: digits_of.simps [of n])
  next
    case False
    then have "digits_value 0 (digits_of n) = int (n div 10) * 10 + int (n mod 10)"
      using 1 by (simp add: digits_of.simps [of n] digits_value_append)
    then show ?thesis by (metis of_nat_add of_nat_mult of_nat_numeral div_mult_mod_eq)
  qed
qed

lemma parse_nat_text_digits: "parse_nat_text (digits_of n) = Some (int n)"
proof -
  obtain c s where cs: "digits_of n = c # s" by (cases "digits_of n") auto
  have all: "is_digit c" "list_all is_digit s"
    using digits_of_all_digits [of n] by (simp_all add: cs)
  have "digits_value 0 (c # s) = int n" using digits_value_digits_of [of n] by (simp add: cs)
  then show ?thesis using all by (simp add: parse_nat_text_def cs parse_digits_all)
qed

lemma digit_not_space: "is_digit c \<Longrightarrow> \<not> is_space c"
  by (auto simp: is_digit_def is_space_def Let_def)

lemma dropWhile_none: "list_all (\<lambda>c. \<not> P c) s \<Longrightarrow> dropWhile P s = s"
  by (cases s) auto

lemma strip_no_space: "list_all (\<lambda>c. \<not> is_space c) s \<Longrightarrow> py_strip s = s"
  by (simp add: py_strip_def py_lstrip_def py_rstrip_def dropWhile_none)

lemma digits_no_space: "list_all is_digit s \<Longrightarrow> list_all (\<lambda>c. \<not> is_space c) s"
  by (induction s) (auto simp: digit_not_space)

text \<open>\<open>int(str(i)) = i\<close>.\<close>

lemma py_int_str_of_int: "py_int (str_of_int i) = Some i"
proof (cases "i < 0")
  case True
  let ?d = "digits_of (nat (- i))"
  have ns: "\<not> is_space (CHR ''-'')" by (simp add: is_space_def)
  have "py_strip (CHR ''-'' # ?d) = CHR ''-'' # ?d"
    using digits_no_space [OF digits_of_all_digits [of "nat (- i)"]] ns
    by (intro strip_no_space) simp
  then show ?thesis using True
    by (simp add: py_int_def str_of_int_def parse_nat_text_digits)
next
  case False
  let ?d = "digits_of (nat i)"
  have st: "py_strip ?d = ?d"
    by (intro strip_no_space digits_no_space digits_of_all_digits)
  obtain c s where cs: "?d = c # s" by (cases ?d) auto
  have "is_digit c" using digits_of_all_digits [of "nat i"] by (simp add: cs)
  then have "c \<noteq> CHR ''-''" "c \<noteq> CHR ''+''" by (auto simp: is_digit_def)
  then show ?thesis using False st parse_nat_text_digits [of "nat i"]
    by (simp add: py_int_def str_of_int_def cs)
qed

subsection \<open>Order of strings\<close>

text \<open>\<open>s < t\<close> in Python and in SQLite's binary collation: by code points.\<close>

fun str_less :: "pystr \<Rightarrow> pystr \<Rightarrow> bool" where
  "str_less [] [] = False"
| "str_less [] (d # t) = True"
| "str_less (c # s) [] = False"
| "str_less (c # s) (d # t) = (if c = d then str_less s t else (of_char c :: nat) < of_char d)"

lemma str_less_irrefl [simp]: "\<not> str_less s s"
  by (induction s) auto

lemma str_less_trans: "str_less s t \<Longrightarrow> str_less t u \<Longrightarrow> str_less s u"
proof (induction s t arbitrary: u rule: str_less.induct)
  case (2 d t)
  then show ?case by (cases u) auto
next
  case (4 c s d t)
  then show ?case by (cases u) (auto split: if_splits)
qed auto

lemma str_less_total: "str_less s t \<or> s = t \<or> str_less t s"
proof (induction s t rule: str_less.induct)
  case (4 c s d t)
  have "(of_char c :: nat) \<noteq> of_char d" if "c \<noteq> d" using that by (metis char_of_char)
  then show ?case using 4 by (auto simp: neq_iff)
qed auto

subsection \<open>Lists and ordered dictionaries\<close>

lemma map_of_filter_key: "map_of (filter (\<lambda>(k, v). P k) al) k = (if P k then map_of al k else None)"
  by (induction al) auto

lemma map_of_al_update [simp]: "map_of (AList.update k v al) = (map_of al)(k \<mapsto> v)"
  by (rule ext) (simp add: update_conv')

lemma map_of_al_delete [simp]: "map_of (AList.delete k al) = (map_of al)(k := None)"
  by (rule ext) (simp add: delete_conv')

text \<open>Python's \<open>min(xs, key=f)\<close>: the first minimal element (\<open>arg_min_list\<close>).\<close>

lemma arg_min_list_min: "xs \<noteq> [] \<Longrightarrow> x \<in> set xs \<Longrightarrow> f (arg_min_list f xs) \<le> (f x :: 'b::linorder)"
  by (simp add: f_arg_min_list_f)

lemma count_list_distinct: "distinct xs \<Longrightarrow> count_list xs x = (if x \<in> set xs then 1 else 0)"
  by (induction xs) auto

end
