(* ===== verification/CircuitBreaker.thy ===== *)
theory CircuitBreaker
  imports Prelude
begin

text \<open>
  The circuit breaker of the L6 and local pools (\<open>daari/router/circuit_breaker.py\<close>) and
  its fleet-shared state in Redis (\<open>daari/router/breaker_redis.py\<close>).

  Redis is a service: what it answers is an argument. A \<open>breaker_env\<close> holds the clock
  readings of one call and the reply of each Redis call the operation may make (\<open>None\<close>
  where the client raises); the commands sent to Redis are returned as a list. The gateway
  events logged on a Redis error are not modelled.

  The lemmas show the breaker's invariant, that the state after any history of outcomes is
  determined by the run of failures since the last success, that Redis errors fall back to
  the process-local breaker, and what a half-open breaker admits.
\<close>

section \<open>Redis-shared state (breaker_redis.py)\<close>

text \<open>
  The open snapshot stored under \<open>daari:breaker:{share_key}\<close>: the JSON fields
  \<open>opened_at\<close> and \<open>cooldown_seconds\<close>, each possibly absent.
\<close>

record snapshot =
  snap_opened_at :: "pyfloat option"
  snap_cooldown :: "pyfloat option"

datatype redis_cmd =
    RSetOpen pystr pyfloat pyfloat int int  \<comment> \<open>key, opened_at, cooldown_seconds, failures, ex\<close>
  | RDelete "pystr list"
  | RIncr pystr
  | RExpire pystr int

record breaker_env =
  be_now :: pyfloat                          \<comment> \<open>time.monotonic()\<close>
  be_wall :: pyfloat                         \<comment> \<open>time.time()\<close>
  be_client :: bool                          \<comment> \<open>a Redis client is installed\<close>
  be_state :: "snapshot option option"       \<comment> \<open>get(state key), decoded; None: raised\<close>
  be_incr :: "int option"                    \<comment> \<open>incr(rejects key)\<close>
  be_expire_ok :: bool                       \<comment> \<open>expire did not raise\<close>
  be_rejects :: "int option option"          \<comment> \<open>get(rejects key)\<close>

definition state_key :: "pystr \<Rightarrow> pystr" where
  "state_key share_key = ''daari:breaker:'' @ share_key"

definition rejects_key :: "pystr \<Rightarrow> pystr" where
  "rejects_key share_key = ''daari:breaker_rejects:'' @ share_key"

definition share_key_for :: "pystr \<Rightarrow> pystr \<Rightarrow> pystr" where
  "share_key_for family identity =
     (let fam = (let f = py_lower (py_strip family) in if f = '''' then ''pool'' else f);
          ident = (let i = py_strip identity in if i = '''' then ''default'' else i)
      in fam @ '':'' @ ident)"

definition load_shared_open :: "breaker_env \<Rightarrow> pystr \<Rightarrow> pyfloat \<Rightarrow> bool option" where
  "load_shared_open env share_key cooldown_seconds =
     (if \<not> be_client env \<or> share_key = '''' then None
      else (case be_state env of
          None \<Rightarrow> None
        | Some None \<Rightarrow> Some False
        | Some (Some data) \<Rightarrow>
            (let opened_at = num_or (snap_opened_at data) 0;
                 cooldown = num_or (snap_cooldown data) (num_or (Some cooldown_seconds) 30)
             in if opened_at \<le> 0 then Some False
                else Some (be_wall env - opened_at < cooldown))))"

definition publish_shared_open ::
    "breaker_env \<Rightarrow> pystr \<Rightarrow> pyfloat \<Rightarrow> int \<Rightarrow> redis_cmd list" where
  "publish_shared_open env share_key cooldown_seconds failures =
     (if \<not> be_client env \<or> share_key = '''' then []
      else (let cooldown = max 1 (num_or (Some cooldown_seconds) 30)
            in [RSetOpen (state_key share_key) (be_wall env) cooldown failures
                  (\<lfloor>cooldown\<rfloor> + 30)]))"

definition clear_shared_breaker :: "breaker_env \<Rightarrow> pystr \<Rightarrow> redis_cmd list" where
  "clear_shared_breaker env share_key =
     (if \<not> be_client env then []
      else [RDelete [state_key share_key, rejects_key share_key]])"

text \<open>
  \<open>incr\<close>, and on the first reject \<open>expire\<close>; either raising makes the call return
  \<open>None\<close> although the counter may already have been incremented.
\<close>

definition incr_shared_rejects ::
    "breaker_env \<Rightarrow> pystr \<Rightarrow> pyfloat \<Rightarrow> int option \<times> redis_cmd list" where
  "incr_shared_rejects env share_key cooldown_seconds =
     (if \<not> be_client env \<or> share_key = '''' then (None, [])
      else (let key = rejects_key share_key in
        (case be_incr env of
           None \<Rightarrow> (None, [RIncr key])
         | Some count \<Rightarrow>
             (if count = 1
              then (let cooldown = max 1 (num_or (Some cooldown_seconds) 30) in
                    (if be_expire_ok env then Some count else None,
                     [RIncr key, RExpire key (\<lfloor>cooldown\<rfloor> + 30)]))
              else (Some count, [RIncr key])))))"

definition load_shared_rejects :: "breaker_env \<Rightarrow> pystr \<Rightarrow> int option" where
  "load_shared_rejects env share_key =
     (if \<not> be_client env \<or> share_key = '''' then None
      else (case be_rejects env of
          None \<Rightarrow> None
        | Some None \<Rightarrow> Some 0
        | Some (Some n) \<Rightarrow> Some n))"

section \<open>The breaker (circuit_breaker.py)\<close>

record breaker =
  cb_threshold :: int
  cb_cooldown :: pyfloat
  cb_failures :: int
  cb_opened_at :: "pyfloat option"
  cb_opened_wall :: "pyfloat option"
  cb_share_key :: "pystr option"
  cb_rejects :: int

definition new_breaker :: "int \<Rightarrow> pyfloat \<Rightarrow> pystr option \<Rightarrow> breaker" where
  "new_breaker threshold cooldown key =
     \<lparr>cb_threshold = threshold, cb_cooldown = cooldown, cb_failures = 0, cb_opened_at = None,
      cb_opened_wall = None, cb_share_key = key, cb_rejects = 0\<rparr>"

text \<open>\<open>429\<close> and \<open>529\<close> are transient overloads; \<open>None\<close> is an error without a status.\<close>

definition counts_as_hard_provider_failure :: "int option \<Rightarrow> bool" where
  "counts_as_hard_provider_failure status = (status \<notin> {Some 429, Some 529})"

text \<open>\<open>if self.share_key\<close>: a non-empty key.\<close>

definition shared_with :: "breaker \<Rightarrow> pystr option" where
  "shared_with b = (case cb_share_key b of None \<Rightarrow> None
     | Some k \<Rightarrow> (if k = '''' then None else Some k))"

definition note_reject :: "breaker_env \<Rightarrow> breaker \<Rightarrow> breaker \<times> redis_cmd list" where
  "note_reject env b =
     (case incr_shared_rejects env (str_or (cb_share_key b) '''') (num_or (Some (cb_cooldown b)) 30)
      of (shared, cmds) \<Rightarrow>
        (case shared of
           None \<Rightarrow> (b\<lparr>cb_rejects := cb_rejects b + 1\<rparr>, cmds)
         | Some n \<Rightarrow> (b\<lparr>cb_rejects := n\<rparr>, cmds)))"

definition shared_open :: "breaker_env \<Rightarrow> breaker \<Rightarrow> bool option" where
  "shared_open env b = (case shared_with b of None \<Rightarrow> None
     | Some k \<Rightarrow> load_shared_open env k (num_or (Some (cb_cooldown b)) 30))"

definition breaker_allow :: "breaker_env \<Rightarrow> breaker \<Rightarrow> bool \<times> breaker \<times> redis_cmd list" where
  "breaker_allow env b =
     (if shared_open env b = Some True then (False, note_reject env b)
      else if shared_open env b = Some False \<and> be_client env then (True, b, [])
      else (case cb_opened_at b of
          None \<Rightarrow> (True, b, [])
        | Some opened \<Rightarrow>
            (if be_now env - opened \<ge> cb_cooldown b then (True, b, [])
             else (False, note_reject env b))))"

definition breaker_record_success :: "breaker_env \<Rightarrow> breaker \<Rightarrow> breaker \<times> redis_cmd list" where
  "breaker_record_success env b =
     (b\<lparr>cb_failures := 0, cb_opened_at := None, cb_opened_wall := None\<rparr>,
      case shared_with b of None \<Rightarrow> [] | Some k \<Rightarrow> clear_shared_breaker env k)"

definition breaker_record_failure :: "breaker_env \<Rightarrow> breaker \<Rightarrow> breaker \<times> redis_cmd list" where
  "breaker_record_failure env b =
     (let b1 = b\<lparr>cb_failures := cb_failures b + 1\<rparr> in
      if cb_failures b1 \<ge> cb_threshold b1
      then (b1\<lparr>cb_opened_at := Some (be_now env), cb_opened_wall := Some (be_wall env)\<rparr>,
            case shared_with b1 of None \<Rightarrow> []
            | Some k \<Rightarrow> publish_shared_open env k (num_or (Some (cb_cooldown b1)) 30)
                         (cb_failures b1))
      else (b1, []))"

definition breaker_reject_count :: "breaker_env \<Rightarrow> breaker \<Rightarrow> int" where
  "breaker_reject_count env b =
     (case shared_with b of None \<Rightarrow> cb_rejects b
      | Some k \<Rightarrow> (case load_shared_rejects env k of None \<Rightarrow> cb_rejects b | Some n \<Rightarrow> n))"

datatype breaker_state = Closed | HalfOpen | Open

definition breaker_state :: "breaker_env \<Rightarrow> breaker \<Rightarrow> breaker_state" where
  "breaker_state env b =
     (if shared_open env b = Some True then Open
      else if shared_open env b = Some False \<and> be_client env then Closed
      else (case cb_opened_at b of
          None \<Rightarrow> Closed
        | Some opened \<Rightarrow> (if be_now env - opened \<ge> cb_cooldown b then HalfOpen else Open)))"

section \<open>Invariant\<close>

text \<open>
  The failure count is never negative and the breaker is open exactly when it reached the
  threshold; both open stamps are set and cleared together.
\<close>

definition breaker_inv :: "breaker \<Rightarrow> bool" where
  "breaker_inv b \<longleftrightarrow> 0 \<le> cb_failures b
     \<and> (cb_opened_at b \<noteq> None \<longleftrightarrow> cb_failures b \<ge> max 1 (cb_threshold b))
     \<and> (cb_opened_at b = None \<longleftrightarrow> cb_opened_wall b = None)"

lemmas breaker_defs = breaker_allow_def breaker_record_success_def breaker_record_failure_def
  note_reject_def new_breaker_def

lemma note_reject_fields [simp]:
  "cb_failures (fst (note_reject env b)) = cb_failures b"
  "cb_opened_at (fst (note_reject env b)) = cb_opened_at b"
  "cb_opened_wall (fst (note_reject env b)) = cb_opened_wall b"
  "cb_threshold (fst (note_reject env b)) = cb_threshold b"
  "cb_cooldown (fst (note_reject env b)) = cb_cooldown b"
  "cb_share_key (fst (note_reject env b)) = cb_share_key b"
  by (simp_all add: note_reject_def split: prod.split option.split)

lemma breaker_allow_fields [simp]:
  "cb_failures (fst (snd (breaker_allow env b))) = cb_failures b"
  "cb_opened_at (fst (snd (breaker_allow env b))) = cb_opened_at b"
  "cb_opened_wall (fst (snd (breaker_allow env b))) = cb_opened_wall b"
  "cb_threshold (fst (snd (breaker_allow env b))) = cb_threshold b"
  "cb_cooldown (fst (snd (breaker_allow env b))) = cb_cooldown b"
  "cb_share_key (fst (snd (breaker_allow env b))) = cb_share_key b"
  by (simp_all add: breaker_allow_def split: option.split)

lemma breaker_inv_new [inv_intros]: "breaker_inv (new_breaker t c k)"
  by (simp add: breaker_inv_def new_breaker_def)

lemma breaker_inv_allow [inv_intros]:
  "breaker_inv b \<Longrightarrow> breaker_inv (fst (snd (breaker_allow env b)))"
  unfolding breaker_inv_def breaker_allow_fields by assumption

lemma breaker_inv_success [inv_intros]: "breaker_inv (fst (breaker_record_success env b))"
  by (simp add: breaker_inv_def breaker_record_success_def)

lemma breaker_inv_failure [inv_intros]:
  "breaker_inv b \<Longrightarrow> breaker_inv (fst (breaker_record_failure env b))"
  by (auto simp: breaker_inv_def breaker_record_failure_def Let_def)


section \<open>Histories\<close>

text \<open>
  The calls a pool makes on a breaker, as a deterministic machine. A history of calls is
  summarised by the number of failures since the last success and the clock readings of
  the last failure.
\<close>

datatype breaker_call = CallAllow breaker_env | CallSuccess breaker_env | CallFailure breaker_env

fun breaker_step :: "breaker \<Rightarrow> breaker_call \<Rightarrow> breaker" where
  "breaker_step b (CallAllow env) = fst (snd (breaker_allow env b))"
| "breaker_step b (CallSuccess env) = fst (breaker_record_success env b)"
| "breaker_step b (CallFailure env) = fst (breaker_record_failure env b)"

definition breaker_run :: "breaker \<Rightarrow> breaker_call list \<Rightarrow> breaker" where
  "breaker_run = foldl breaker_step"

fun failures_since :: "int \<Rightarrow> breaker_call list \<Rightarrow> int" where
  "failures_since n [] = n"
| "failures_since n (CallAllow env # cs) = failures_since n cs"
| "failures_since n (CallSuccess env # cs) = failures_since 0 cs"
| "failures_since n (CallFailure env # cs) = failures_since (n + 1) cs"

fun last_failure :: "pyfloat option \<Rightarrow> breaker_call list \<Rightarrow> pyfloat option" where
  "last_failure t [] = t"
| "last_failure t (CallFailure env # cs) = last_failure (Some (be_now env)) cs"
| "last_failure t (c # cs) = last_failure t cs"

lemma breaker_step_inv [inv_intros]: "breaker_inv b \<Longrightarrow> breaker_inv (breaker_step b c)"
  by (cases c) (auto intro: inv_intros)

lemma breaker_run_inv: "breaker_inv b \<Longrightarrow> breaker_inv (breaker_run b cs)"
  unfolding breaker_run_def by (induction cs arbitrary: b) (auto intro: inv_intros)

lemma breaker_step_config [simp]:
  "cb_threshold (breaker_step b c) = cb_threshold b"
  "cb_cooldown (breaker_step b c) = cb_cooldown b"
  "cb_share_key (breaker_step b c) = cb_share_key b"
  by (cases c; simp add: breaker_record_success_def breaker_record_failure_def Let_def)+

lemma breaker_run_config [simp]:
  "cb_threshold (breaker_run b cs) = cb_threshold b"
  "cb_cooldown (breaker_run b cs) = cb_cooldown b"
  "cb_share_key (breaker_run b cs) = cb_share_key b"
  unfolding breaker_run_def by (induction cs arbitrary: b) simp_all

lemma breaker_run_failures: "cb_failures (breaker_run b cs) = failures_since (cb_failures b) cs"
  unfolding breaker_run_def
proof (induction cs arbitrary: b)
  case Nil
  then show ?case by simp
next
  case (Cons c cs)
  then show ?case
    by (cases c) (simp_all add: breaker_record_success_def breaker_record_failure_def Let_def)
qed

lemma breaker_failure_opened:
  assumes "breaker_inv b"
  shows "cb_opened_at (fst (breaker_record_failure env b)) \<in> {None, Some (be_now env)}"
  using assms by (auto simp: breaker_inv_def breaker_record_failure_def Let_def)

lemma breaker_opened_value:
  "breaker_inv b \<Longrightarrow> cb_opened_at b \<in> {None, t} \<Longrightarrow>
   cb_opened_at (breaker_run b cs) \<in> {None, last_failure t cs}"
  unfolding breaker_run_def
proof (induction cs arbitrary: b t)
  case Nil
  then show ?case by simp
next
  case (Cons c cs)
  have inv: "breaker_inv (breaker_step b c)" using Cons.prems(1) by (rule breaker_step_inv)
  show ?case
  proof (cases c)
    case (CallAllow env)
    with Cons inv show ?thesis by simp
  next
    case (CallSuccess env)
    with Cons.IH [OF inv, of t] show ?thesis by (simp add: breaker_record_success_def)
  next
    case (CallFailure env)
    with Cons.IH [OF inv, of "Some (be_now env)"] breaker_failure_opened [OF Cons.prems(1)]
    show ?thesis by simp
  qed
qed

lemma breaker_opened_history:
  "cb_opened_at (breaker_run (new_breaker thr cd key) cs)
     = (if max 1 thr \<le> failures_since 0 cs then last_failure None cs else None)"
proof -
  let ?b = "breaker_run (new_breaker thr cd key) cs"
  have inv: "breaker_inv ?b" by (intro breaker_run_inv inv_intros)
  have f: "cb_failures ?b = failures_since 0 cs" "cb_threshold ?b = thr"
    by (simp_all add: breaker_run_failures) (simp_all add: new_breaker_def)
  have "cb_opened_at ?b \<in> {None, last_failure None cs}"
    by (rule breaker_opened_value [OF breaker_inv_new]) (simp add: new_breaker_def)
  then show ?thesis using inv f by (auto simp: breaker_inv_def)
qed

lemma shared_open_local [simp]: "cb_share_key b = None \<Longrightarrow> shared_open env b = None"
  by (simp add: shared_open_def shared_with_def)

text \<open>
  C26. A process-local breaker's answer after any sequence of calls. It admits a request and
  reports closed while fewer than the threshold failures (at least one) were recorded since
  the last success; from then on it refuses and reports open until the cooldown has passed
  since the most recent failure, and after that it admits and reports half-open.
\<close>

theorem breaker_decision_after_history:
  fixes thr :: int
  shows "(fst (breaker_allow env (breaker_run (new_breaker thr cd None) cs)),
          breaker_state env (breaker_run (new_breaker thr cd None) cs)) =
    (case last_failure None cs of
       None \<Rightarrow> (True, Closed)
     | Some t \<Rightarrow>
         (if failures_since 0 cs < max 1 thr then (True, Closed)
          else if be_now env - t \<ge> cd then (True, HalfOpen) else (False, Open)))"
proof -
  let ?b = "breaker_run (new_breaker thr cd None) cs"
  have "cb_share_key ?b = None" "cb_cooldown ?b = cd"
    by (simp_all add: new_breaker_def)
  then show ?thesis
    using breaker_opened_history [of thr cd None cs]
    by (auto simp: breaker_allow_def breaker_state_def not_le split: option.split)
qed

section \<open>Falling back when Redis does not answer\<close>

text \<open>
  Redis errors fail open to the process-local breaker: when no client is installed or the
  read of the shared state raises, a shared breaker takes exactly the decision of an unshared
  one with the same fields, and reports the same state.
\<close>

theorem breaker_redis_fail_open:
  assumes "\<not> be_client env \<or> be_state env = None"
  shows "fst (breaker_allow env b) = fst (breaker_allow env (b\<lparr>cb_share_key := None\<rparr>))
       \<and> breaker_state env b = breaker_state env (b\<lparr>cb_share_key := None\<rparr>)"
proof -
  have "shared_open env b = None"
    using assms by (auto simp: shared_open_def load_shared_open_def split: option.split)
  then show ?thesis
    by (auto simp: breaker_allow_def breaker_state_def split: option.split)
qed

definition demo_env :: "pyfloat \<Rightarrow> breaker_env" where
  "demo_env t = \<lparr>be_now = t, be_wall = 1000 + t, be_client = False, be_state = None,
     be_incr = None, be_expire_ok = True, be_rejects = None\<rparr>"

definition demo_open :: breaker where
  "demo_open = \<lparr>cb_threshold = 3, cb_cooldown = 30, cb_failures = 3, cb_opened_at = Some 0,
      cb_opened_wall = Some 1000, cb_share_key = None, cb_rejects = 0\<rparr>"

theorem breaker_redis_fail_open_witness:
  "\<not> fst (breaker_allow (demo_env 10) (demo_open\<lparr>cb_share_key := Some ''local:gpu''\<rparr>))"
proof -
  have "\<not> be_client (demo_env 10) \<or> be_state (demo_env 10) = None" by (simp add: demo_env_def)
  from breaker_redis_fail_open [OF this, of "demo_open\<lparr>cb_share_key := Some ''local:gpu''\<rparr>"]
  show ?thesis by (simp add: breaker_allow_def demo_open_def) (simp add: demo_env_def)
qed

text \<open>
  C27. Replicas agree through Redis: the snapshot one replica publishes when its breaker trips
  makes every replica that reads it refuse until the published cooldown has passed, and the
  key outlives that cooldown.
\<close>

theorem published_breaker_refuses_elsewhere:
  assumes pub: "publish_shared_open env k cd n = [RSetOpen key t c m ex]"
    and reads: "be_client env'" "be_state env' = Some (Some \<lparr>snap_opened_at = Some t, snap_cooldown = Some c\<rparr>)"
    and key: "cb_share_key b = Some k"
    and clock: "0 < be_wall env" "be_wall env' < be_wall env + max 1 (if cd = 0 then 30 else cd)"
  shows "\<not> fst (breaker_allow env' b) \<and> breaker_state env' b = Open \<and> c < of_int ex"
proof -
  have k: "k \<noteq> ''''" using pub by (auto simp: publish_shared_open_def)
  have vals: "t = be_wall env" "c = max 1 (if cd = 0 then 30 else cd)" "ex = \<lfloor>c\<rfloor> + 30"
    using pub by (auto simp: publish_shared_open_def num_or_def Let_def split: if_splits)
  then have c: "1 \<le> c" "be_wall env' - t < c" "0 < t" using clock by simp_all
  then have "shared_open env' b = Some True"
    using reads key k
    by (simp add: shared_open_def shared_with_def load_shared_open_def num_or_def Let_def)
  moreover have "c < of_int ex" unfolding vals(3) by linarith
  ultimately show ?thesis by (simp add: breaker_allow_def breaker_state_def)
qed

theorem published_breaker_refuses_elsewhere_witness:
  "\<not> fst (breaker_allow
      ((demo_env 12)\<lparr>be_client := True,
         be_state := Some (Some \<lparr>snap_opened_at = Some 1000, snap_cooldown = Some 30\<rparr>)\<rparr>)
      (new_breaker 3 30 (Some ''local:gpu'')))"
proof -
  let ?env = "(demo_env 0)\<lparr>be_client := True\<rparr>"
  let ?env' = "(demo_env 12)\<lparr>be_client := True,
         be_state := Some (Some \<lparr>snap_opened_at = Some 1000, snap_cooldown = Some 30\<rparr>)\<rparr>"
  have pub: "publish_shared_open ?env ''local:gpu'' 30 3
        = [RSetOpen (state_key ''local:gpu'') 1000 30 3 60]"
    by (simp add: publish_shared_open_def demo_env_def)
  show ?thesis
    using published_breaker_refuses_elsewhere [OF pub, of ?env' "new_breaker 3 30 (Some ''local:gpu'')"]
    by (simp add: demo_env_def new_breaker_def)
qed

section \<open>The half-open state\<close>

text \<open>
  The source's comment says that a half-open breaker allows a single probe. \<open>allow\<close> changes
  nothing in that state, so every request that arrives before the first outcome is recorded
  is admitted.
\<close>

fun allow_many :: "breaker_env list \<Rightarrow> breaker \<Rightarrow> bool list \<times> breaker" where
  "allow_many [] b = ([], b)"
| "allow_many (env # envs) b =
     (let (ok, b', cmds) = breaker_allow env b; (oks, b'') = allow_many envs b'
      in (ok # oks, b''))"

lemma breaker_allow_half_open:
  assumes "cb_share_key b = None" "cb_opened_at b = Some t" "be_now env - t \<ge> cb_cooldown b"
  shows "breaker_allow env b = (True, b, [])"
  using assms by (simp add: breaker_allow_def)

text \<open>
  A half-open breaker does not limit its probes: any number of requests that ask before an
  outcome is recorded are all admitted, and none of them changes the breaker. A failed probe
  opens it again for a full cooldown.
\<close>

theorem half_open_admits_every_probe:
  assumes inv: "breaker_inv b" and loc: "cb_share_key b = None"
    and half: "breaker_state env0 b = HalfOpen"
    and mono: "\<forall>env \<in> set envs. be_now env0 \<le> be_now env"
    and within: "be_now env2 < be_now env1 + cb_cooldown b"
  shows "allow_many envs b = (replicate (length envs) True, b)
       \<and> breaker_state env2 (fst (breaker_record_failure env1 b)) = Open"
proof
  obtain t where t: "cb_opened_at b = Some t" "be_now env0 - t \<ge> cb_cooldown b"
    using half loc by (auto simp: breaker_state_def split: option.splits if_splits)
  show "allow_many envs b = (replicate (length envs) True, b)"
    using mono
  proof (induction envs)
    case Nil
    then show ?case by simp
  next
    case (Cons env envs)
    then have "be_now env - t \<ge> cb_cooldown b" using t(2) by simp
    from breaker_allow_half_open [OF loc t(1) this] Cons show ?case by simp
  qed
  have "cb_opened_at (fst (breaker_record_failure env1 b)) = Some (be_now env1)"
    using inv t(1) by (auto simp: breaker_inv_def breaker_record_failure_def Let_def)
  then show "breaker_state env2 (fst (breaker_record_failure env1 b)) = Open"
    using loc within by (auto simp: breaker_state_def breaker_record_failure_def shared_open_def
        shared_with_def Let_def)
qed

theorem half_open_admits_every_probe_witness:
  "allow_many [demo_env 40, demo_env 40, demo_env 41] demo_open = ([True, True, True], demo_open)"
proof -
  have "breaker_inv demo_open" "cb_share_key demo_open = None"
    by (simp_all add: demo_open_def breaker_inv_def)
  moreover have "breaker_state (demo_env 40) demo_open = HalfOpen"
    by (simp add: breaker_state_def demo_open_def) (simp add: demo_env_def)
  ultimately show ?thesis
    using half_open_admits_every_probe [of demo_open "demo_env 40"
        "[demo_env 40, demo_env 40, demo_env 41]" "demo_env 42" "demo_env 41"]
    by (simp add: demo_env_def numeral_3_eq_3) (simp add: demo_open_def)
qed

end
