(* ===== verification/Retry.thy ===== *)
theory Retry
  imports Prelude
begin

text \<open>
  Bounded retries with backoff for upstream calls (\<open>daari/router/retry.py\<close>): the retry
  policy, which failures are retried, the delay before a retry, the deadline arithmetic that
  \<open>Deadline\<close> shares, and the retry loop \<open>with_retries\<close> with its reporting wrapper
  \<open>run_upstream\<close>.

  An upstream operation is an oracle: a function from the attempt number to what that attempt
  did, together with the clock and random readings the loop takes after it. The lemmas show
  the range of a backoff, that the loop always ends in the outcome of its last attempt, never
  in \<open>RetryBudgetExhausted\<close>, and that a retry is never started past the deadline.
\<close>

section \<open>Upstream failures\<close>

text \<open>
  What \<open>float\<close> and \<open>parsedate_to_datetime\<close> make of a \<open>Retry-After\<close> header: a
  number of seconds, an instant (epoch seconds, UTC when the date carries no zone), or text
  neither accepts.
\<close>

datatype retry_after = RASeconds pyfloat | RADate pyfloat | RAUnusable

record response =
  resp_status :: "int option"               \<comment> \<open>status_code, when the object has one\<close>
  resp_headers :: "(pystr \<times> pystr) list"
  resp_retry_after :: "retry_after option"  \<comment> \<open>the Retry-After header, when present\<close>

text \<open>An exception as the retry logic sees it.\<close>

record exn =
  ex_type :: pystr
  ex_text :: pystr
  ex_response :: "response option"
  ex_status_code :: "int option"            \<comment> \<open>an integer status_code attribute\<close>
  ex_transport :: bool                      \<comment> \<open>an instance of RETRYABLE_EXCEPTIONS\<close>

definition RETRYABLE_STATUS :: "int list" where
  "RETRYABLE_STATUS = [408, 429, 500, 502, 503, 504, 529]"

definition PROVIDER_REQUEST_ID_HEADERS :: "pystr list" where
  "PROVIDER_REQUEST_ID_HEADERS = [''request-id'', ''x-request-id'', ''anthropic-request-id'']"

definition header_text :: "(pystr \<times> pystr) list \<Rightarrow> pystr \<Rightarrow> pystr option" where
  "header_text headers name =
     (case map_of headers name of
        Some raw \<Rightarrow>
          (if py_strip raw \<noteq> '''' then Some (py_strip raw)
           else map_option (\<lambda>(k, v). py_strip v)
             (List.find (\<lambda>(k, v). py_lower k = name \<and> py_strip v \<noteq> '''') headers))
      | None \<Rightarrow> map_option (\<lambda>(k, v). py_strip v)
             (List.find (\<lambda>(k, v). py_lower k = name \<and> py_strip v \<noteq> '''') headers))"

fun first_header :: "(pystr \<times> pystr) list \<Rightarrow> pystr list \<Rightarrow> pystr option" where
  "first_header headers [] = None"
| "first_header headers (n # ns) =
     (case header_text headers n of Some t \<Rightarrow> Some t | None \<Rightarrow> first_header headers ns)"

definition provider_request_id :: "(pystr \<times> pystr) list option \<Rightarrow> pystr option" where
  "provider_request_id headers = (case headers of None \<Rightarrow> None
     | Some hs \<Rightarrow> first_header hs PROVIDER_REQUEST_ID_HEADERS)"

definition status_of :: "exn \<Rightarrow> int option" where
  "status_of e = (case ex_response e of
       Some r \<Rightarrow> (case resp_status r of Some s \<Rightarrow> Some s | None \<Rightarrow> ex_status_code e)
     | None \<Rightarrow> ex_status_code e)"

definition is_retryable :: "exn \<Rightarrow> bool" where
  "is_retryable e = (case status_of e of
       Some status \<Rightarrow> status \<in> set RETRYABLE_STATUS
     | None \<Rightarrow> ex_transport e)"

definition retry_after_seconds :: "pyfloat \<Rightarrow> exn \<Rightarrow> pyfloat option" where
  "retry_after_seconds utc_now e =
     (case ex_response e of None \<Rightarrow> None
      | Some r \<Rightarrow> (case resp_retry_after r of
            None \<Rightarrow> None
          | Some (RASeconds s) \<Rightarrow> Some (max 0 s)
          | Some (RADate w) \<Rightarrow> Some (max 0 (w - utc_now))
          | Some RAUnusable \<Rightarrow> None))"

section \<open>The policy\<close>

record retry_policy =
  rp_attempts :: int
  rp_base_delay :: pyfloat
  rp_max_delay :: pyfloat
  rp_jitter :: pyfloat

text \<open>\<open>__post_init__\<close> clamps every field.\<close>

definition mk_policy :: "int \<Rightarrow> pyfloat \<Rightarrow> pyfloat \<Rightarrow> pyfloat \<Rightarrow> retry_policy" where
  "mk_policy attempts base_delay max_delay jitter =
     \<lparr>rp_attempts = max 1 attempts, rp_base_delay = max 0 base_delay,
      rp_max_delay = max 0 max_delay, rp_jitter = min 1 (max 0 jitter)\<rparr>"

definition default_policy :: retry_policy where
  "default_policy = mk_policy 3 (2/10) 5 (5/10)"

definition policy_enabled :: "retry_policy \<Rightarrow> bool" where
  "policy_enabled p = (rp_attempts p > 1)"

text \<open>The retry block of the settings; \<open>None\<close> is an attribute the object lacks.\<close>

record retry_settings =
  rs_attempts :: "int option"
  rs_base_delay_ms :: "pyfloat option"
  rs_max_delay_ms :: "pyfloat option"
  rs_jitter :: "pyfloat option"

definition get_attr :: "'a option \<Rightarrow> 'a \<Rightarrow> 'a" where
  "get_attr x d = (case x of None \<Rightarrow> d | Some v \<Rightarrow> v)"

definition policy_from_settings :: "retry_settings \<Rightarrow> retry_policy" where
  "policy_from_settings s = mk_policy (get_attr (rs_attempts s) 3)
     (get_attr (rs_base_delay_ms s) 200 / 1000)
     (get_attr (rs_max_delay_ms s) 5000 / 1000)
     (get_attr (rs_jitter s) (5/10))"

text \<open>\<open>snapshot\<close>: \<open>retry_attempts\<close> and \<open>retry_backoff_s\<close>.\<close>

definition policy_snapshot_fields :: "retry_policy \<Rightarrow> int \<times> pyfloat" where
  "policy_snapshot_fields p = (rp_attempts p, rp_base_delay p)"

definition delay_for :: "retry_policy \<Rightarrow> nat \<Rightarrow> pyfloat \<Rightarrow> pyfloat" where
  "delay_for p retry_index rnd =
     (let capped = min (rp_base_delay p * 2 ^ retry_index) (rp_max_delay p) in
      if rp_jitter p = 0 \<or> capped \<le> 0 then capped
      else (let flr = capped * (1 - rp_jitter p) in flr + rnd * (capped - flr)))"

definition resolve_upstream_policy ::
    "retry_settings option \<Rightarrow> pyfloat \<Rightarrow> pyfloat option \<Rightarrow> int option \<Rightarrow> pyfloat option
     \<Rightarrow> pyfloat \<times> retry_policy" where
  "resolve_upstream_policy settings default_timeout timeout_s retry_attempts retry_backoff_s =
     (get_attr timeout_s default_timeout,
      case settings of
        None \<Rightarrow> mk_policy (get_attr retry_attempts 3) (get_attr retry_backoff_s (2/10)) 5 (5/10)
      | Some s \<Rightarrow> mk_policy
          (case retry_attempts of None \<Rightarrow> get_attr (rs_attempts s) 3 | Some a \<Rightarrow> a)
          (case retry_backoff_s of None \<Rightarrow> get_attr (rs_base_delay_ms s) 200 / 1000 | Some b \<Rightarrow> b)
          (get_attr (rs_max_delay_ms s) 5000 / 1000)
          (get_attr (rs_jitter s) (5/10)))"

definition policy_snapshot :: "pyfloat \<Rightarrow> retry_policy option \<Rightarrow> pyfloat \<times> int \<times> pyfloat" where
  "policy_snapshot timeout retry =
     (timeout, policy_snapshot_fields (case retry of None \<Rightarrow> default_policy | Some p \<Rightarrow> p))"

section \<open>Deadline arithmetic\<close>

definition absolute_deadline :: "pyfloat \<Rightarrow> pyfloat option \<Rightarrow> pyfloat option" where
  "absolute_deadline started timeout =
     (case timeout of None \<Rightarrow> None | Some t \<Rightarrow> (if t = 0 then None else Some (started + t)))"

definition exceeds_deadline :: "pyfloat option \<Rightarrow> pyfloat \<Rightarrow> pyfloat \<Rightarrow> bool" where
  "exceeds_deadline deadline now extra =
     (case deadline of None \<Rightarrow> False | Some d \<Rightarrow> now + extra \<ge> d)"

definition remaining_seconds :: "pyfloat option \<Rightarrow> pyfloat \<Rightarrow> pyfloat option" where
  "remaining_seconds deadline now =
     (case deadline of None \<Rightarrow> None | Some d \<Rightarrow> Some (d - now))"

section \<open>The retry loop\<close>

text \<open>What attempt number \<open>n\<close> did, and the readings the loop takes when it failed.\<close>

record 'a attempt =
  at_result :: "exn + 'a"
  at_now :: pyfloat       \<comment> \<open>monotonic() in the handler\<close>
  at_utc :: pyfloat       \<comment> \<open>datetime.now(timezone.utc)\<close>
  at_random :: pyfloat    \<comment> \<open>random(), in [0, 1)\<close>

datatype retry_error = Raised exn | RetryBudgetExhausted int "exn option"

text \<open>One entry per retry, as passed to \<open>on_retry\<close>: attempt, exception, delay.\<close>

type_synonym retry_log = "(nat \<times> exn \<times> pyfloat) list"

definition retry_delay :: "retry_policy \<Rightarrow> nat \<Rightarrow> 'a attempt \<Rightarrow> exn \<Rightarrow> pyfloat" where
  "retry_delay p attempt a e =
     (case retry_after_seconds (at_utc a) e of
        Some d \<Rightarrow> d
      | None \<Rightarrow> delay_for p (attempt - 1) (at_random a))"

text \<open>
  \<open>for attempt in range(1, policy.attempts + 1)\<close>: \<open>left\<close> counts the iterations that remain.
\<close>

fun retry_loop ::
    "retry_policy \<Rightarrow> pyfloat option \<Rightarrow> (nat \<Rightarrow> 'a attempt) \<Rightarrow> nat \<Rightarrow> nat \<Rightarrow> exn option \<Rightarrow> retry_log
     \<Rightarrow> (retry_error + 'a) \<times> retry_log" where
  "retry_loop p deadline ops attempt 0 prev hist =
     (Inl (RetryBudgetExhausted (rp_attempts p) prev), hist)"
| "retry_loop p deadline ops attempt (Suc left) prev hist =
     (case at_result (ops attempt) of
        Inr v \<Rightarrow> (Inr v, hist)
      | Inl e \<Rightarrow>
          (if \<not> is_retryable e \<or> int attempt \<ge> rp_attempts p then (Inl (Raised e), hist)
           else (let delay = retry_delay p attempt (ops attempt) e in
                 if exceeds_deadline deadline (at_now (ops attempt)) delay
                 then (Inl (Raised e), hist)
                 else retry_loop p deadline ops (attempt + 1) left (Some e)
                        (hist @ [(attempt, e, delay)]))))"

definition with_retries ::
    "retry_policy option \<Rightarrow> pyfloat option \<Rightarrow> pyfloat \<Rightarrow> (nat \<Rightarrow> 'a attempt)
     \<Rightarrow> (retry_error + 'a) \<times> retry_log" where
  "with_retries policy timeout started ops =
     (let p = (case policy of None \<Rightarrow> default_policy | Some q \<Rightarrow> q);
          deadline = absolute_deadline started timeout
      in retry_loop p deadline ops 1 (nat (rp_attempts p)) None [])"

text \<open>The trace step \<open>run_upstream\<close> adds for each retry.\<close>

record retry_step =
  rt_upstream :: pystr
  rt_attempt :: nat
  rt_error_type :: pystr
  rt_status :: "int option"
  rt_delay_ms :: int
  rt_request_id :: "pystr option"

definition report_step :: "pystr \<Rightarrow> nat \<times> exn \<times> pyfloat \<Rightarrow> retry_step" where
  "report_step upstream entry =
     (case entry of (attempt, e, delay) \<Rightarrow>
       \<lparr>rt_upstream = upstream, rt_attempt = attempt, rt_error_type = ex_type e,
        rt_status = status_of e, rt_delay_ms = \<lfloor>delay * 1000\<rfloor>,
        rt_request_id = provider_request_id (map_option resp_headers (ex_response e))\<rparr>)"

text \<open>Result, trace steps, and increments of the retry metric when metrics are configured.\<close>

definition run_upstream ::
    "pystr \<Rightarrow> retry_policy option \<Rightarrow> pyfloat option \<Rightarrow> bool \<Rightarrow> pyfloat \<Rightarrow> (nat \<Rightarrow> 'a attempt)
     \<Rightarrow> (retry_error + 'a) \<times> retry_step list \<times> nat" where
  "run_upstream upstream policy timeout metrics started ops =
     (let (res, hist) = with_retries policy timeout started ops
      in (res, map (report_step upstream) hist, if metrics then length hist else 0))"

section \<open>Backoff\<close>

lemma mk_policy_fields [simp]:
  "rp_attempts (mk_policy a b m j) = max 1 a"
  "rp_base_delay (mk_policy a b m j) = max 0 b"
  "rp_max_delay (mk_policy a b m j) = max 0 m"
  "rp_jitter (mk_policy a b m j) = min 1 (max 0 j)"
  by (simp_all add: mk_policy_def)

text \<open>What \<open>__post_init__\<close> establishes.\<close>

definition policy_ok :: "retry_policy \<Rightarrow> bool" where
  "policy_ok p \<longleftrightarrow> 1 \<le> rp_attempts p \<and> 0 \<le> rp_base_delay p \<and> 0 \<le> rp_max_delay p
     \<and> 0 \<le> rp_jitter p \<and> rp_jitter p \<le> 1"

lemma policy_ok_mk [simp, intro]: "policy_ok (mk_policy a b m j)"
  by (simp add: policy_ok_def)

lemma policy_ok_resolved [simp]:
  "policy_ok default_policy" "policy_ok (policy_from_settings s)"
  "policy_ok (snd (resolve_upstream_policy rs t ts ra rb))"
  by (auto simp: default_policy_def policy_from_settings_def resolve_upstream_policy_def
      split: option.split)

lemma delay_for_range:
  fixes i :: nat
  assumes "policy_ok p" "0 \<le> rnd" "rnd \<le> 1"
  defines "capped \<equiv> min (rp_base_delay p * 2 ^ i) (rp_max_delay p)"
  shows "capped * (1 - rp_jitter p) \<le> delay_for p i rnd \<and> delay_for p i rnd \<le> capped"
proof -
  have pos: "0 \<le> capped" "0 \<le> rp_jitter p" "rp_jitter p \<le> 1"
    using assms(1) by (auto simp: capped_def policy_ok_def)
  show ?thesis
  proof (cases "rp_jitter p = 0 \<or> capped \<le> 0")
    case True
    then show ?thesis using pos by (auto simp: delay_for_def capped_def [symmetric] Let_def)
  next
    case False
    let ?f = "capped * (1 - rp_jitter p)"
    have "?f \<le> capped" using pos by (simp add: algebra_simps)
    then have "0 \<le> rnd * (capped - ?f)" "rnd * (capped - ?f) \<le> capped - ?f"
      using assms(2,3) by (simp_all add: mult_left_le_one_le)
    moreover have "delay_for p i rnd = ?f + rnd * (capped - ?f)"
      using False by (simp add: delay_for_def capped_def [symmetric] Let_def)
    ultimately show ?thesis by simp
  qed
qed

text \<open>
  Every backoff of a policy built by the constructor lies between the jittered floor and the
  cap: at least \<open>(1 - jitter)\<close> times the capped exponential delay, at most that delay, never
  negative and never above the configured maximum.
\<close>

theorem backoff_within_cap:
  assumes "0 \<le> rnd" "rnd < 1"
  shows "let p = mk_policy a b m j; d = delay_for p i rnd;
             capped = min (rp_base_delay p * 2 ^ i) (rp_max_delay p)
         in capped * (1 - rp_jitter p) \<le> d \<and> d \<le> capped \<and> 0 \<le> d \<and> d \<le> rp_max_delay p"
proof -
  let ?p = "mk_policy a b m j"
  let ?c = "min (rp_base_delay ?p * 2 ^ i) (rp_max_delay ?p)"
  have r: "?c * (1 - rp_jitter ?p) \<le> delay_for ?p i rnd" "delay_for ?p i rnd \<le> ?c"
    using delay_for_range [of ?p rnd i] assms by auto
  have "0 \<le> ?c * (1 - rp_jitter ?p)" by simp
  then show ?thesis using r unfolding Let_def by (meson min.bounded_iff order_trans)
qed

theorem backoff_within_cap_witness:
  "delay_for (mk_policy 3 (2/10) 5 (5/10)) 2 (1/4) = 1/2
   \<and> delay_for (mk_policy 3 (2/10) 5 (5/10)) 2 (1/4) \<le> 5"
  using backoff_within_cap [of "1/4" 3 "2/10" 5 "5/10" 2]
  by (simp add: delay_for_def Let_def min_def)

section \<open>What the loop does\<close>

definition outcome_of :: "exn + 'a \<Rightarrow> retry_error + 'a" where
  "outcome_of r = (case r of Inl e \<Rightarrow> Inl (Raised e) | Inr v \<Rightarrow> Inr v)"

text \<open>Why attempt \<open>i\<close> may be followed by another one.\<close>

definition retries_after :: "retry_policy \<Rightarrow> pyfloat option \<Rightarrow> (nat \<Rightarrow> 'a attempt) \<Rightarrow> nat \<Rightarrow> bool" where
  "retries_after p deadline ops i =
     (case at_result (ops i) of
        Inr v \<Rightarrow> False
      | Inl e \<Rightarrow> is_retryable e \<and> int i < rp_attempts p
               \<and> \<not> exceeds_deadline deadline (at_now (ops i)) (retry_delay p i (ops i) e))"

definition retry_entry :: "retry_policy \<Rightarrow> (nat \<Rightarrow> 'a attempt) \<Rightarrow> nat \<Rightarrow> nat \<times> exn \<times> pyfloat" where
  "retry_entry p ops i =
     (case at_result (ops i) of Inl e \<Rightarrow> (i, e, retry_delay p i (ops i) e)
      | Inr v \<Rightarrow> (i, undefined, 0))"

declare retry_loop.simps(2) [simp del]

lemma retry_loop_stop:
  "\<not> retries_after p deadline ops k \<Longrightarrow>
   retry_loop p deadline ops k (Suc left) prev hist = (outcome_of (at_result (ops k)), hist)"
  by (auto simp: retry_loop.simps(2) retries_after_def outcome_of_def Let_def split: sum.split)

lemma retry_loop_again:
  "retries_after p deadline ops k \<Longrightarrow>
   \<exists>e. retry_loop p deadline ops k (Suc left) prev hist
     = retry_loop p deadline ops (Suc k) left (Some e) (hist @ [retry_entry p ops k])"
  by (auto simp: retry_loop.simps(2) retries_after_def retry_entry_def Let_def split: sum.splits)

lemma retry_loop_result:
  "int k + int left = rp_attempts p \<Longrightarrow>
   \<exists>n \<le> left. retry_loop p deadline ops k (Suc left) prev hist
            = (outcome_of (at_result (ops (k + n))), hist @ map (retry_entry p ops) [k..<k + n])
          \<and> (\<forall>i. k \<le> i \<longrightarrow> i < k + n \<longrightarrow> retries_after p deadline ops i)
          \<and> \<not> retries_after p deadline ops (k + n)"
proof (induction left arbitrary: k prev hist)
  case 0
  then have "\<not> retries_after p deadline ops k"
    by (auto simp: retries_after_def split: sum.split)
  then show ?case by (simp add: retry_loop_stop)
next
  case (Suc left)
  show ?case
  proof (cases "retries_after p deadline ops k")
    case False
    then show ?thesis by (intro exI [of _ 0]) (simp add: retry_loop_stop)
  next
    case True
    then obtain e where go: "retry_loop p deadline ops k (Suc (Suc left)) prev hist
        = retry_loop p deadline ops (Suc k) (Suc left) (Some e) (hist @ [retry_entry p ops k])"
      using retry_loop_again by blast
    obtain n where n: "n \<le> left"
      "retry_loop p deadline ops (Suc k) (Suc left) (Some e) (hist @ [retry_entry p ops k])
        = (outcome_of (at_result (ops (Suc k + n))),
           (hist @ [retry_entry p ops k]) @ map (retry_entry p ops) [Suc k..<Suc k + n])"
      "\<forall>i. Suc k \<le> i \<longrightarrow> i < Suc k + n \<longrightarrow> retries_after p deadline ops i"
      "\<not> retries_after p deadline ops (Suc k + n)"
      using Suc.IH [of "Suc k" "Some e" "hist @ [retry_entry p ops k]"] Suc.prems by auto
    have "[k..<k + Suc n] = k # [Suc k..<Suc k + n]" by (simp add: upt_conv_Cons del: upt_Suc)
    then have "retry_loop p deadline ops k (Suc (Suc left)) prev hist
        = (outcome_of (at_result (ops (k + Suc n))), hist @ map (retry_entry p ops) [k..<k + Suc n])"
      unfolding go n(2) by simp
    moreover have "\<forall>i. k \<le> i \<longrightarrow> i < k + Suc n \<longrightarrow> retries_after p deadline ops i"
      using n(3) True by (metis add_Suc add_Suc_right le_antisym not_less_eq_eq)
    ultimately show ?thesis using n(1,4) by (intro exI [of _ "Suc n"]) simp
  qed
qed

lemma with_retries_result:
  assumes "policy_ok p"
  obtains n where "n < nat (rp_attempts p)"
    "with_retries (Some p) timeout started ops
        = (outcome_of (at_result (ops (Suc n))), map (retry_entry p ops) [1..<Suc n])"
    "\<And>i. 1 \<le> i \<Longrightarrow> i \<le> n \<Longrightarrow> retries_after p (absolute_deadline started timeout) ops i"
    "\<not> retries_after p (absolute_deadline started timeout) ops (Suc n)"
proof -
  obtain left where left: "nat (rp_attempts p) = Suc left"
    using assms by (cases "nat (rp_attempts p)") (auto simp: policy_ok_def)
  then have "int 1 + int left = rp_attempts p" using assms by (auto simp: policy_ok_def)
  from retry_loop_result [OF this, of "absolute_deadline started timeout" ops None "[]"]
  obtain n where n: "n \<le> left"
    "retry_loop p (absolute_deadline started timeout) ops 1 (Suc left) None []
       = (outcome_of (at_result (ops (1 + n))), [] @ map (retry_entry p ops) [1..<1 + n])"
    "\<forall>i. 1 \<le> i \<longrightarrow> i < 1 + n \<longrightarrow> retries_after p (absolute_deadline started timeout) ops i"
    "\<not> retries_after p (absolute_deadline started timeout) ops (1 + n)" by blast
  show ?thesis
    by (rule that [of n]) (use n left in \<open>auto simp: with_retries_def Let_def simp del: upt_Suc\<close>)
qed

text \<open>
  C28. The retry loop always ends in the outcome of the last attempt it made: with a policy from
  the constructor it makes at most \<open>attempts\<close> attempts, returns the first success or raises
  the last failure, and never reaches the \<open>RetryBudgetExhausted\<close> after the loop. A failure
  is raised only when it is not retryable, when the attempts are spent, or when the backoff
  would land at or past the deadline.
\<close>

theorem with_retries_ends_in_last_attempt:
  fixes a :: int and b m j :: pyfloat
  defines "p \<equiv> mk_policy a b m j"
  shows "\<exists>n < nat (max 1 a).
     with_retries (Some p) timeout started ops
       = (case at_result (ops (Suc n)) of Inr v \<Rightarrow> Inr v | Inl e \<Rightarrow> Inl (Raised e),
          map (retry_entry p ops) [1..<Suc n])
   \<and> (case at_result (ops (Suc n)) of Inr v \<Rightarrow> True
      | Inl e \<Rightarrow> \<not> is_retryable e \<or> Suc n = nat (max 1 a)
          \<or> exceeds_deadline (absolute_deadline started timeout) (at_now (ops (Suc n)))
              (retry_delay p (Suc n) (ops (Suc n)) e))"
proof -
  have "policy_ok p" by (simp add: p_def)
  then obtain n where n: "n < nat (rp_attempts p)"
    "with_retries (Some p) timeout started ops
        = (outcome_of (at_result (ops (Suc n))), map (retry_entry p ops) [1..<Suc n])"
    "\<not> retries_after p (absolute_deadline started timeout) ops (Suc n)"
    by (rule with_retries_result)
  have "rp_attempts p = max 1 a" by (simp add: p_def)
  with n show ?thesis
    by (intro exI [of _ n]) (auto simp: outcome_of_def retries_after_def split: sum.splits)
qed

definition demo_error :: "int \<Rightarrow> exn" where
  "demo_error status = \<lparr>ex_type = ''HTTPStatusError'', ex_text = '''',
     ex_response = Some \<lparr>resp_status = Some status, resp_headers = [], resp_retry_after = None\<rparr>,
     ex_status_code = None, ex_transport = False\<rparr>"

definition demo_ops :: "nat \<Rightarrow> nat attempt" where
  "demo_ops i = \<lparr>at_result = (if i < 2 then Inl (demo_error 503) else Inr i),
     at_now = of_nat i, at_utc = 0, at_random = 1/2\<rparr>"

lemma demo_run:
  "with_retries (Some (mk_policy 3 (2/10) 5 (5/10))) (Some 10) 0 demo_ops
     = (Inr 2, [(1, demo_error 503, 3/20)])"
  by (simp add: with_retries_def retry_loop.simps Let_def numeral_3_eq_3 demo_ops_def
      demo_error_def is_retryable_def status_of_def RETRYABLE_STATUS_def retry_delay_def
      retry_after_seconds_def delay_for_def exceeds_deadline_def absolute_deadline_def)

theorem with_retries_ends_in_last_attempt_witness:
  "\<exists>n < 3. with_retries (Some (mk_policy 3 (2/10) 5 (5/10))) (Some 10) 0 demo_ops
     = (case at_result (demo_ops (Suc n)) of Inr v \<Rightarrow> Inr v | Inl e \<Rightarrow> Inl (Raised e),
        map (retry_entry (mk_policy 3 (2/10) 5 (5/10)) demo_ops) [1..<Suc n])"
proof -
  have three: "nat (max 1 3) = (3 :: nat)" by simp
  show ?thesis
    using with_retries_ends_in_last_attempt [of 3 "2/10" 5 "5/10" "Some 10" 0 demo_ops]
    unfolding three by blast
qed

text \<open>
  C29. No retry outlives the request: every entry of the retry log is a retryable failure of an
  earlier attempt, and the sleep before the next attempt ends strictly before the deadline.
\<close>

theorem retries_stay_before_deadline:
  fixes a :: int and b m j :: pyfloat
  defines "p \<equiv> mk_policy a b m j"
  assumes "(i, e, d) \<in> set (snd (with_retries (Some p) timeout started ops))"
  shows "at_result (ops i) = Inl e \<and> is_retryable e \<and> int i < max 1 a
       \<and> (case absolute_deadline started timeout of None \<Rightarrow> True
          | Some t \<Rightarrow> at_now (ops i) + d < t)"
proof -
  have "policy_ok p" by (simp add: p_def)
  then obtain n where n: "with_retries (Some p) timeout started ops
        = (outcome_of (at_result (ops (Suc n))), map (retry_entry p ops) [1..<Suc n])"
    "\<And>i. 1 \<le> i \<Longrightarrow> i \<le> n \<Longrightarrow> retries_after p (absolute_deadline started timeout) ops i"
    by (rule with_retries_result [of p timeout started ops]) blast
  with assms(2) have entry: "(i, e, d) = retry_entry p ops i" and "1 \<le> i" "i \<le> n"
    by (auto simp: retry_entry_def split: sum.splits)
  with n(2) have "retries_after p (absolute_deadline started timeout) ops i" by blast
  with entry show ?thesis
    by (auto simp: retry_entry_def retries_after_def exceeds_deadline_def p_def
        split: sum.splits option.splits)
qed

theorem retries_stay_before_deadline_witness:
  "is_retryable (demo_error 503) \<and> at_now (demo_ops 1) + 3/20 < 0 + 10"
proof -
  have "(1, demo_error 503, 3/20)
      \<in> set (snd (with_retries (Some (mk_policy 3 (2/10) 5 (5/10))) (Some 10) 0 demo_ops))"
    unfolding demo_run by simp
  from retries_stay_before_deadline [OF this] show ?thesis
    by (simp add: absolute_deadline_def)
qed

text \<open>
  The docstring of \<open>absolute_deadline\<close> says that a non-positive timeout is unbounded. Only
  zero is: a negative timeout puts the deadline before the start.
\<close>

text \<open>
  A negative timeout is not unbounded: the deadline it yields has already passed when the
  loop starts, so a first retryable failure is raised without any retry.
\<close>

theorem negative_timeout_forbids_retries:
  assumes "t < 0" "started \<le> at_now (ops 1)" "0 \<le> at_random (ops 1)" "at_random (ops 1) < 1"
    and res: "at_result (ops 1) = Inl e"
  shows "with_retries (Some (mk_policy a b m j)) (Some t) started ops = (Inl (Raised e), [])"
proof -
  let ?p = "mk_policy a b m j"
  have "0 \<le> delay_for ?p 0 (at_random (ops 1))"
    using delay_for_range [of ?p "at_random (ops 1)" 0] assms(3,4)
    by (force intro: order_trans [rotated] mult_nonneg_nonneg)
  then have "0 \<le> retry_delay ?p 1 (ops 1) e"
    by (auto simp: retry_delay_def retry_after_seconds_def split: option.splits retry_after.splits)
  then have "\<not> retries_after ?p (absolute_deadline started (Some t)) ops 1"
    using assms by (simp add: retries_after_def exceeds_deadline_def absolute_deadline_def)
  moreover obtain left where "nat (max 1 a) = Suc left" by (cases "nat (max 1 a)") auto
  ultimately show ?thesis
    using res by (simp add: with_retries_def Let_def retry_loop_stop outcome_of_def)
qed

theorem negative_timeout_forbids_retries_witness:
  "with_retries (Some (mk_policy 3 (2/10) 5 (5/10))) (Some (-1)) 0 demo_ops
     = (Inl (Raised (demo_error 503)), [])"
  by (rule negative_timeout_forbids_retries) (simp_all add: demo_ops_def)

end
