(* ===== verification/Deadline.thy ===== *)
theory Deadline
  imports Retry
begin

text \<open>
  The request-scoped wall-clock budget (\<open>daari/router/deadline.py\<close>), on the deadline
  arithmetic of \<open>Retry\<close>: parsing the header, choosing header or setting, binding a budget,
  guarding an upstream hop, clamping a timeout, and bounding the time to the first item of a
  stream.

  The context variable is an argument of type \<open>deadline_state option\<close>, threaded through; the
  logged event and the metric of an exhausted budget are one entry of the state's event
  list. Whether \<open>asyncio.wait_for\<close> delivers or times out is an argument.
\<close>

record deadline_exceeded =
  de_deadline_seconds :: pyfloat
  de_elapsed_ms :: int
  de_tiers :: "pystr list"

record deadline_state =
  ds_started :: pyfloat
  ds_deadline :: pyfloat
  ds_budget :: pyfloat
  ds_tiers :: "pystr list"
  ds_logged :: bool
  ds_events :: "deadline_exceeded list"   \<comment> \<open>metric increment and gateway event, once\<close>

definition parse_deadline_ms :: "pystr option \<Rightarrow> int option" where
  "parse_deadline_ms raw = (case raw of None \<Rightarrow> None
     | Some r \<Rightarrow> (let text = py_strip r in
         if text = '''' then None
         else (case py_int text of None \<Rightarrow> None | Some n \<Rightarrow> Some (max 0 n))))"

definition resolve_deadline_seconds :: "int option \<Rightarrow> pyfloat option \<Rightarrow> pyfloat option" where
  "resolve_deadline_seconds header_ms setting_seconds =
     (case header_ms of
        Some ms \<Rightarrow> Some (max 0 (of_int ms) / 1000)
      | None \<Rightarrow> (case setting_seconds of None \<Rightarrow> None
          | Some s \<Rightarrow> (if s \<le> 0 then None else Some s)))"

definition deadline_active :: "deadline_state option \<Rightarrow> bool" where
  "deadline_active st = (st \<noteq> None)"

text \<open>The state bound for the task at clock reading \<open>started\<close>.\<close>

definition bind_request_deadline :: "pyfloat \<Rightarrow> pyfloat \<Rightarrow> deadline_state" where
  "bind_request_deadline seconds started =
     \<lparr>ds_started = started,
      ds_deadline =
        (if seconds > 0
         then (case absolute_deadline started (Some seconds) of
                 None \<Rightarrow> started + seconds | Some d \<Rightarrow> d)
         else started),
      ds_budget = seconds, ds_tiers = [], ds_logged = False, ds_events = []\<rparr>"

definition exhaust :: "deadline_state \<Rightarrow> pyfloat \<Rightarrow> deadline_exceeded \<times> deadline_state" where
  "exhaust st now =
     (let elapsed_ms = \<lfloor>max 0 ((now - ds_started st) * 1000)\<rfloor>;
          err = \<lparr>de_deadline_seconds = ds_budget st, de_elapsed_ms = elapsed_ms,
                 de_tiers = ds_tiers st\<rparr>
      in (err, if ds_logged st then st
               else st\<lparr>ds_logged := True, ds_events := ds_events st @ [err]\<rparr>))"

text \<open>The test every entry point makes before it starts a hop.\<close>

definition spent :: "deadline_state \<Rightarrow> pyfloat \<Rightarrow> bool" where
  "spent st now =
     (case remaining_seconds (Some (ds_deadline st)) now of
        None \<Rightarrow> True
      | Some r \<Rightarrow> r \<le> 0 \<or> exceeds_deadline (Some (ds_deadline st)) now 0)"

definition guard_upstream ::
    "pystr \<Rightarrow> pyfloat \<Rightarrow> deadline_state option
     \<Rightarrow> (deadline_exceeded + pyfloat option) \<times> deadline_state option" where
  "guard_upstream tier now context =
     (case context of
        None \<Rightarrow> (Inr None, None)
      | Some st \<Rightarrow>
          (if spent st now then (let (err, st') = exhaust st now in (Inl err, Some st'))
           else (Inr (remaining_seconds (Some (ds_deadline st)) now),
                 Some (if ds_tiers st = [] \<or> last (ds_tiers st) \<noteq> tier
                       then st\<lparr>ds_tiers := ds_tiers st @ [tier]\<rparr> else st))))"

definition clamp_timeout :: "pyfloat \<Rightarrow> pyfloat option \<Rightarrow> pyfloat" where
  "clamp_timeout configured remaining =
     (case remaining of None \<Rightarrow> configured
      | Some r \<Rightarrow> (if r \<le> 0 then 0 else min configured r))"

definition nonstream_timeout ::
    "pyfloat \<Rightarrow> pystr \<Rightarrow> pyfloat \<Rightarrow> deadline_state option
     \<Rightarrow> (deadline_exceeded + pyfloat) \<times> deadline_state option" where
  "nonstream_timeout configured tier now context =
     (case guard_upstream tier now context of
        (Inl err, c) \<Rightarrow> (Inl err, c)
      | (Inr r, c) \<Rightarrow> (Inr (clamp_timeout configured r), c))"

text \<open>What waiting for the first item with a timeout gave.\<close>

datatype 'a first_item = FirstItem 'a | FirstEnd | FirstTimeout pyfloat \<comment> \<open>clock after\<close>

definition aiter_with_ttft_deadline ::
    "pyfloat \<Rightarrow> 'a first_item \<Rightarrow> 'a list \<Rightarrow> deadline_state option
     \<Rightarrow> (deadline_exceeded option \<times> 'a list) \<times> deadline_state option" where
  "aiter_with_ttft_deadline now first rest context =
     (case context of
        None \<Rightarrow> ((None, case first of FirstItem x \<Rightarrow> x # rest | FirstEnd \<Rightarrow> [] | FirstTimeout t \<Rightarrow> []), None)
      | Some st \<Rightarrow>
          (if spent st now then (let (err, st') = exhaust st now in ((Some err, []), Some st'))
           else (case first of
               FirstEnd \<Rightarrow> ((None, []), Some st)
             | FirstTimeout later \<Rightarrow>
                 (let (err, st') = exhaust st later in ((Some err, []), Some st'))
             | FirstItem x \<Rightarrow> ((None, x # rest), Some st))))"

text \<open>
  \<open>_enter\<close>: opening a stream under the budget. On a timeout the stream is closed (the
  boolean) before the budget error is raised.
\<close>

datatype 'a enter_reply = Entered 'a | EnterTimeout pyfloat

definition enter_stream ::
    "pyfloat \<Rightarrow> 'a enter_reply \<Rightarrow> deadline_state option
     \<Rightarrow> (deadline_exceeded + 'a) option \<times> bool \<times> deadline_state option" where
  "enter_stream now reply context =
     (case context of
        None \<Rightarrow> (case reply of Entered x \<Rightarrow> (Some (Inr x), False, None)
                 | EnterTimeout t \<Rightarrow> (None, False, None))
      | Some st \<Rightarrow>
          (if spent st now then (let (err, st') = exhaust st now in (Some (Inl err), False, Some st'))
           else (case reply of
               Entered x \<Rightarrow> (Some (Inr x), False, Some st)
             | EnterTimeout later \<Rightarrow>
                 (let (err, st') = exhaust st later in (Some (Inl err), True, Some st')))))"

section \<open>What a budget guarantees\<close>

lemma spent_iff [simp]: "spent st now \<longleftrightarrow> ds_deadline st \<le> now"
  by (auto simp: spent_def remaining_seconds_def exceeds_deadline_def)

lemma bind_deadline_value [simp]:
  "ds_deadline (bind_request_deadline s t) = t + max 0 s"
  by (simp add: bind_request_deadline_def absolute_deadline_def)

lemma clamp_timeout_bounds:
  "clamp_timeout c (Some r) \<le> max 0 r" "0 \<le> c \<Longrightarrow> 0 \<le> clamp_timeout c r'"
  by (auto simp: clamp_timeout_def split: option.split)

text \<open>A sequence of hops on one request, each at its own clock reading.\<close>

fun guard_hops ::
    "(pystr \<times> pyfloat) list \<Rightarrow> deadline_state option
     \<Rightarrow> (deadline_exceeded + pyfloat option) list \<times> deadline_state option" where
  "guard_hops [] c = ([], c)"
| "guard_hops ((tier, now) # hops) c =
     (let (r, c') = guard_upstream tier now c; (rs, c'') = guard_hops hops c' in (r # rs, c''))"

definition is_error :: "'a + 'b \<Rightarrow> bool" where
  "is_error r = (case r of Inl e \<Rightarrow> True | Inr v \<Rightarrow> False)"

lemma guard_upstream_keeps:
  assumes "guard_upstream tier now (Some st) = (r, c)"
  obtains st' where "c = Some st'" "ds_deadline st' = ds_deadline st"
    "ds_started st' = ds_started st" "ds_budget st' = ds_budget st"
    "is_error r \<longleftrightarrow> ds_deadline st \<le> now"
    "ds_events st' = ds_events st @ (if ds_deadline st \<le> now \<and> \<not> ds_logged st
        then [fst (exhaust st now)] else [])"
    "ds_logged st' \<longleftrightarrow> ds_logged st \<or> ds_deadline st \<le> now"
  using assms
  by (auto simp: guard_upstream_def is_error_def exhaust_def Let_def remaining_seconds_def
      split: if_splits)

lemma guard_hops_refused:
  "guard_hops hops (Some st) = (rs, c) \<Longrightarrow>
   \<exists>st'. c = Some st' \<and> map is_error rs = map (\<lambda>(tier, now). ds_deadline st \<le> now) hops
     \<and> length (ds_events st') \<le> length (ds_events st) + (if ds_logged st then 0 else 1)
     \<and> (ds_logged st \<longrightarrow> ds_events st' = ds_events st)"
proof (induction hops arbitrary: st rs)
  case Nil
  then show ?case by auto
next
  case (Cons h hops)
  obtain tier now where h: "h = (tier, now)" by (cases h)
  obtain r c1 where g: "guard_upstream tier now (Some st) = (r, c1)" by (cases "guard_upstream tier now (Some st)")
  obtain st1 where st1: "c1 = Some st1" "ds_deadline st1 = ds_deadline st"
      "is_error r \<longleftrightarrow> ds_deadline st \<le> now"
      "ds_events st1 = ds_events st @ (if ds_deadline st \<le> now \<and> \<not> ds_logged st
        then [fst (exhaust st now)] else [])"
      "ds_logged st1 \<longleftrightarrow> ds_logged st \<or> ds_deadline st \<le> now"
    using guard_upstream_keeps [OF g] by metis
  obtain rs' where rs: "rs = r # rs'" "guard_hops hops (Some st1) = (rs', c)"
    using Cons.prems by (auto simp: h g st1(1) split: prod.splits)
  from Cons.IH [OF rs(2)] st1 rs(1) h show ?case by (auto split: if_splits)
qed

text \<open>
  On one request, an upstream hop is refused exactly when the budget is spent at its clock
  reading, whatever hops came before, and however many hops are refused the exhausted budget
  is counted and logged at most once.
\<close>

theorem hops_refused_exactly_after_deadline:
  shows "map is_error (fst (guard_hops hops (Some (bind_request_deadline s t))))
           = map (\<lambda>(tier, now). t + max 0 s \<le> now) hops
       \<and> (\<exists>st. snd (guard_hops hops (Some (bind_request_deadline s t))) = Some st
            \<and> length (ds_events st) \<le> 1)"
proof -
  obtain rs c where g: "guard_hops hops (Some (bind_request_deadline s t)) = (rs, c)"
    by (cases "guard_hops hops (Some (bind_request_deadline s t))")
  have "ds_events (bind_request_deadline s t) = []" by (simp add: bind_request_deadline_def)
  with guard_hops_refused [OF g] show ?thesis by (auto simp: g split: if_splits)
qed

text \<open>
  An allowed non-streaming hop gets a timeout that is neither above the configured one nor
  past the end of the budget: the clock reading plus the timeout never exceeds the deadline.
\<close>

theorem hop_timeout_within_budget:
  assumes "nonstream_timeout configured tier now (Some (bind_request_deadline s t)) = (Inr w, c)"
  shows "w \<le> configured \<and> now + w \<le> t + max 0 s \<and> (0 < configured \<longrightarrow> 0 < w)"
proof -
  have "\<not> t + max 0 s \<le> now" and "w = clamp_timeout configured (Some (t + max 0 s - now))"
    using assms
    by (auto simp: nonstream_timeout_def guard_upstream_def remaining_seconds_def
        split: if_splits prod.splits)
  then show ?thesis by (auto simp: clamp_timeout_def)
qed

theorem hop_timeout_within_budget_witness:
  "fst (nonstream_timeout 120 ''L3'' 12 (Some (bind_request_deadline 5 10))) = Inr 3
   \<and> (12::pyfloat) + 3 \<le> 10 + max 0 5"
proof -
  have "nonstream_timeout 120 ''L3'' 12 (Some (bind_request_deadline 5 10))
      = (Inr 3, Some ((bind_request_deadline 5 10)\<lparr>ds_tiers := [''L3'']\<rparr>))"
    by (simp add: nonstream_timeout_def guard_upstream_def remaining_seconds_def
        clamp_timeout_def) (simp add: bind_request_deadline_def)
  from hop_timeout_within_budget [OF this] this show ?thesis by simp
qed

lemma parse_deadline_str: "parse_deadline_ms (Some (str_of_int n)) = Some (max 0 n)"
proof -
  have "py_int (py_strip (str_of_int n)) = Some n"
    using py_int_str_of_int [of n] by (simp add: py_int_def)
  moreover from this have "py_strip (str_of_int n) \<noteq> []" by (auto simp: py_int_def)
  ultimately show ?thesis by (simp add: parse_deadline_ms_def Let_def)
qed

end
