(* ===== verification/Messages.thy ===== *)
theory Messages
  imports Prelude "HOL-Library.Sublist"
begin

text \<open>
  The conversation messages every gateway adapter hands to the router
  (\<open>daari/gateway/internal.py\<close>), JSON values as they occur in tool calls, and the
  tool-result tests of \<open>daari/router/session_affinity.py\<close> that several components use.

  JSON text is handled by the standard library; the definitions that parse or print it take
  a \<open>json_lib\<close> with \<open>json.loads\<close>, \<open>json.dumps\<close> and \<open>str()\<close>. A float keeps its
  printed form.
\<close>

datatype json =
    JNull
  | JBool bool
  | JInt int
  | JFloat pyfloat pystr
  | JStr pystr
  | JList "json list"
  | JObj "(pystr \<times> json) list"

record json_lib =
  jl_loads :: "pystr \<Rightarrow> json option"   \<comment> \<open>None: ValueError or TypeError\<close>
  jl_dumps :: "json \<Rightarrow> pystr"          \<comment> \<open>sort_keys=True, compact separators\<close>
  jl_str :: "json \<Rightarrow> pystr"            \<comment> \<open>str(value)\<close>

fun truthy :: "json \<Rightarrow> bool" where
  "truthy JNull = False"
| "truthy (JBool b) = b"
| "truthy (JInt i) = (i \<noteq> 0)"
| "truthy (JFloat x t) = (x \<noteq> 0)"
| "truthy (JStr s) = (s \<noteq> '''')"
| "truthy (JList xs) = (xs \<noteq> [])"
| "truthy (JObj kvs) = (kvs \<noteq> [])"

definition json_or :: "json \<Rightarrow> json \<Rightarrow> json" where
  "json_or a b = (if truthy a then a else b)"

text \<open>\<open>dict.get(key)\<close> and \<open>dict.get(key, default)\<close>.\<close>

definition obj_get :: "(pystr \<times> json) list \<Rightarrow> pystr \<Rightarrow> json" where
  "obj_get kvs key = (case map_of kvs key of None \<Rightarrow> JNull | Some v \<Rightarrow> v)"

definition obj_get_or :: "(pystr \<times> json) list \<Rightarrow> pystr \<Rightarrow> json \<Rightarrow> json" where
  "obj_get_or kvs key d = (case map_of kvs key of None \<Rightarrow> d | Some v \<Rightarrow> v)"

record image =
  im_media_type :: pystr
  im_data :: "pystr option"
  im_url :: "pystr option"

record audio_part =
  au_data :: pystr
  au_format :: pystr

record message =
  m_role :: pystr
  m_content :: "pystr option"
  m_tool_calls :: "json list option"
  m_images :: "image list"
  m_audio :: "audio_part list"
  m_tool_call_id :: "pystr option"

definition plain_message :: "pystr \<Rightarrow> pystr \<Rightarrow> message" where
  "plain_message role content =
     \<lparr>m_role = role, m_content = Some content, m_tool_calls = None, m_images = [],
      m_audio = [], m_tool_call_id = None\<rparr>"

text \<open>\<open>if message.tool_calls\<close> and \<open>if message.tool_call_id\<close>.\<close>

definition has_tool_calls :: "message \<Rightarrow> bool" where
  "has_tool_calls m = (case m_tool_calls m of None \<Rightarrow> False | Some cs \<Rightarrow> cs \<noteq> [])"

definition has_tool_call_id :: "message \<Rightarrow> bool" where
  "has_tool_call_id m = (case m_tool_call_id m of None \<Rightarrow> False | Some s \<Rightarrow> s \<noteq> '''')"

definition content_or_empty :: "message \<Rightarrow> pystr" where
  "content_or_empty m = str_or (m_content m) ''''"

section \<open>Images and audio (ContentImage, ContentAudio)\<close>

definition truthy_str :: "pystr option \<Rightarrow> bool" where
  "truthy_str x = (case x of None \<Rightarrow> False | Some s \<Rightarrow> s \<noteq> '''')"

definition as_base64 :: "image \<Rightarrow> pystr option" where
  "as_base64 im =
     (if truthy_str (im_data im) then im_data im
      else (case im_url im of
          None \<Rightarrow> None
        | Some u \<Rightarrow>
            (if starts_with u ''data:''
             then (case split_first (CHR '','') u of None \<Rightarrow> None | Some (a, b) \<Rightarrow> Some b)
             else None)))"

definition as_data_url :: "image \<Rightarrow> pystr option" where
  "as_data_url im =
     (if truthy_str (im_url im) then im_url im
      else (case im_data im of
          None \<Rightarrow> None
        | Some d \<Rightarrow> (if d = '''' then None
            else Some (''data:'' @ im_media_type im @ '';base64,'' @ d))))"

text \<open>A base64 payload survives being turned into a data URL and read back.\<close>

lemma data_url_round_trip:
  assumes "im_url im = None" "im_data im = Some d" "d \<noteq> ''''" "CHR '','' \<notin> set (im_media_type im)"
  shows "as_base64 (im\<lparr>im_url := as_data_url im, im_data := None\<rparr>) = Some d"
proof -
  let ?u = "''data:'' @ im_media_type im @ '';base64'' @ [CHR '',''] @ d"
  have url: "as_data_url im = Some ?u"
    using assms(1-3) by (simp add: as_data_url_def truthy_str_def)
  have "split_first (CHR '','') ?u = Some (''data:'' @ im_media_type im @ '';base64'', d)"
    using assms(4) by (subst split_first_Some) simp
  then show ?thesis by (simp add: as_base64_def url truthy_str_def starts_with_def)
qed

section \<open>Tool calls and tool results\<close>

text \<open>The function object of one call, \<open>{}\<close> when it has none.\<close>

definition call_function :: "(pystr \<times> json) list \<Rightarrow> (pystr \<times> json) list" where
  "call_function call = (case obj_get call ''function'' of JObj f \<Rightarrow> f | _ \<Rightarrow> [])"

text \<open>\<open>str(function.get("name") or call.get("name") or "").strip()\<close>.\<close>

definition call_name :: "json_lib \<Rightarrow> (pystr \<times> json) list \<Rightarrow> pystr" where
  "call_name lib call =
     (let v = json_or (obj_get (call_function call) ''name'')
                (json_or (obj_get call ''name'') (JStr ''''))
      in py_strip (case v of JStr s \<Rightarrow> s | _ \<Rightarrow> jl_str lib v))"

definition is_tool_result :: "message \<Rightarrow> bool" where
  "is_tool_result m = (m_role m = ''tool'' \<or> has_tool_call_id m)"

text \<open>
  The index walks of the source start at the last message; here they are prefixes of the
  reversed list.
\<close>

definition is_tool_continuation :: "message list \<Rightarrow> bool" where
  "is_tool_continuation messages =
     (let back = rev messages;
          rest = dropWhile is_tool_result back
      in takeWhile is_tool_result back \<noteq> []
       \<and> list_ex has_tool_calls (takeWhile (\<lambda>m. m_role m = ''assistant'') rest))"

definition user_turn_prefix :: "message list \<Rightarrow> message list" where
  "user_turn_prefix messages =
     (if \<not> is_tool_continuation messages then messages
      else rev (dropWhile (\<lambda>m. m_role m = ''assistant'' \<and> has_tool_calls m)
                  (dropWhile is_tool_result (rev messages))))"

lemma rev_dropWhile_prefix: "prefix (rev (dropWhile P (rev xs))) xs"
proof -
  have "rev (dropWhile P (rev xs)) @ rev (takeWhile P (rev xs)) = xs"
    by (metis rev_append rev_rev_ident takeWhile_dropWhile_id)
  then show ?thesis by (metis prefixI)
qed

lemma user_turn_prefix_prefix: "prefix (user_turn_prefix messages) messages"
proof (cases "is_tool_continuation messages")
  case True
  let ?r = "rev (dropWhile is_tool_result (rev messages))"
  have "user_turn_prefix messages
      = rev (dropWhile (\<lambda>m. m_role m = ''assistant'' \<and> has_tool_calls m) (rev ?r))"
    using True by (simp add: user_turn_prefix_def)
  then have "prefix (user_turn_prefix messages) ?r" by (simp only: rev_dropWhile_prefix)
  also have "prefix ?r messages" by (rule rev_dropWhile_prefix)
  finally show ?thesis .
qed (simp add: user_turn_prefix_def)

text \<open>A filter that rejects a trailing run is not affected by removing it.\<close>

lemma filter_rev_dropWhile:
  "(\<And>x. P x \<Longrightarrow> \<not> Q x) \<Longrightarrow> filter Q (rev (dropWhile P (rev xs))) = filter Q xs"
proof -
  assume "\<And>x. P x \<Longrightarrow> \<not> Q x"
  then have "filter Q (dropWhile P ys) = filter Q ys" for ys by (induction ys) auto
  then show ?thesis by (metis rev_filter rev_rev_ident)
qed

end
