(* ===== verification/SessionAffinity.thy ===== *)
theory SessionAffinity
  imports Messages
begin

text \<open>
  Session affinity (\<open>daari/router/session_affinity.py\<close>): the hash of a conversation's
  user turns, the session key, the test for a continuation, and the two stores that remember
  a pin per session with a time to live, \<open>SessionPinStore\<close> and \<open>ProfilePinStore\<close>.

  The two stores run the same code on two pin types; it is modelled once, over the type of
  pin and its expiry field, and instantiated twice. What Redis answers is an argument, the
  SHA-256 digest of the JSON rows is the parameter \<open>digest\<close>. An expiry of \<open>None\<close> is
  the source's infinite one.

  The locale \<open>pin_store_laws\<close> is what the router relies on: a pin read back within its
  time to live, other sessions untouched, expiry. Both stores interpret it.
\<close>

section \<open>Pins\<close>

record session_pin =
  sp_tier :: pystr
  sp_model :: "pystr option"
  sp_prefix_hash :: pystr
  sp_expires_at :: "pyfloat option"

record profile_pin =
  pp_category :: pystr
  pp_complexity :: pystr
  pp_prefix_hash :: pystr
  pp_expires_at :: "pyfloat option"

section \<open>The stores\<close>

record 'p pin_store =
  ps_ttl :: pyfloat
  ps_pins :: "(pystr \<times> 'p) list"
  ps_prefix :: pystr
  ps_degraded :: bool

definition new_pin_store :: "pyfloat \<Rightarrow> pystr \<Rightarrow> 'p pin_store" where
  "new_pin_store ttl pfx =
     \<lparr>ps_ttl = max 0 ttl, ps_pins = [], ps_prefix = pfx, ps_degraded = False\<rparr>"

text \<open>
  What the Redis side of one call did: no client is configured, the connection or the
  command (or decoding its value) raised, or the command went through.
\<close>

datatype 'p redis_get = GetNoClient | GetFailed | GetMissing | GetFound 'p
datatype redis_put = PutNoClient | PutFailed | PutStored

text \<open>A \<open>SET\<close> sent to Redis: key, pin, expiry in seconds.\<close>

type_synonym 'p pin_set = "pystr \<times> 'p \<times> int option"

definition mark_degraded :: "'p pin_store \<Rightarrow> 'p pin_store" where
  "mark_degraded st = (if ps_degraded st then st else st\<lparr>ps_degraded := True\<rparr>)"

definition pin_expired :: "pyfloat \<Rightarrow> pyfloat \<Rightarrow> pyfloat option \<Rightarrow> bool" where
  "pin_expired ttl now expires = (ttl > 0 \<and> (case expires of None \<Rightarrow> False | Some e \<Rightarrow> now \<ge> e))"

definition local_get ::
    "('p \<Rightarrow> pyfloat option) \<Rightarrow> pyfloat \<Rightarrow> pystr \<Rightarrow> 'p pin_store \<Rightarrow> 'p option \<times> 'p pin_store" where
  "local_get expires now key st =
     (case map_of (ps_pins st) key of
        None \<Rightarrow> (None, st)
      | Some pin \<Rightarrow>
          (if pin_expired (ps_ttl st) now (expires pin)
           then (None, st\<lparr>ps_pins := AList.delete key (ps_pins st)\<rparr>)
           else (Some pin, st)))"

definition pin_get ::
    "('p \<Rightarrow> pyfloat option) \<Rightarrow> 'p redis_get \<Rightarrow> pyfloat \<Rightarrow> pystr \<Rightarrow> 'p pin_store
     \<Rightarrow> 'p option \<times> 'p pin_store" where
  "pin_get expires reply now key st =
     (case reply of
        GetFound pin \<Rightarrow> (Some pin, st)
      | GetMissing \<Rightarrow> (None, st)
      | GetFailed \<Rightarrow> local_get expires now key (mark_degraded st)
      | GetNoClient \<Rightarrow> local_get expires now key st)"

text \<open>\<open>now + ttl if ttl > 0 else inf\<close>.\<close>

definition pin_expiry :: "pyfloat \<Rightarrow> pyfloat \<Rightarrow> pyfloat option" where
  "pin_expiry ttl now = (if ttl > 0 then Some (now + ttl) else None)"

definition pin_put ::
    "redis_put \<Rightarrow> pystr \<Rightarrow> 'p \<Rightarrow> 'p pin_store \<Rightarrow> 'p pin_store \<times> 'p pin_set list" where
  "pin_put reply key pin st =
     (let cmd = (ps_prefix st @ key, pin,
                 if ps_ttl st > 0 then Some \<lfloor>max 1 (ps_ttl st)\<rfloor> else None);
          keep = (\<lambda>s. s\<lparr>ps_pins := AList.update key pin (ps_pins s)\<rparr>)
      in case reply of
           PutStored \<Rightarrow> (st, [cmd])
         | PutFailed \<Rightarrow> (keep (mark_degraded st), [cmd])
         | PutNoClient \<Rightarrow> (keep st, []))"

definition session_get ::
    "session_pin redis_get \<Rightarrow> pyfloat \<Rightarrow> pystr \<Rightarrow> session_pin pin_store
     \<Rightarrow> session_pin option \<times> session_pin pin_store" where
  "session_get = pin_get sp_expires_at"

definition session_put ::
    "redis_put \<Rightarrow> pyfloat \<Rightarrow> pystr \<Rightarrow> pystr \<Rightarrow> pystr option \<Rightarrow> pystr \<Rightarrow> session_pin pin_store
     \<Rightarrow> session_pin pin_store \<times> session_pin pin_set list" where
  "session_put reply now key tier model prefix_hash st =
     pin_put reply key \<lparr>sp_tier = tier, sp_model = model, sp_prefix_hash = prefix_hash,
       sp_expires_at = pin_expiry (ps_ttl st) now\<rparr> st"

definition profile_get ::
    "profile_pin redis_get \<Rightarrow> pyfloat \<Rightarrow> pystr \<Rightarrow> profile_pin pin_store
     \<Rightarrow> profile_pin option \<times> profile_pin pin_store" where
  "profile_get = pin_get pp_expires_at"

definition profile_put ::
    "redis_put \<Rightarrow> pyfloat \<Rightarrow> pystr \<Rightarrow> pystr \<Rightarrow> pystr \<Rightarrow> pystr \<Rightarrow> profile_pin pin_store
     \<Rightarrow> profile_pin pin_store \<times> profile_pin pin_set list" where
  "profile_put reply now key category complexity prefix_hash st =
     pin_put reply key \<lparr>pp_category = category, pp_complexity = complexity,
       pp_prefix_hash = prefix_hash, pp_expires_at = pin_expiry (ps_ttl st) now\<rparr> st"

section \<open>Continuations\<close>

text \<open>The rows that are hashed: role and content of the system and user turns.\<close>

definition prefix_row :: "message \<Rightarrow> bool" where
  "prefix_row m \<longleftrightarrow> \<not> is_tool_result m
     \<and> \<not> (m_role m = ''assistant'' \<and> has_tool_calls m)
     \<and> m_role m \<in> {''system'', ''user''}"

definition conversation_prefix_hash ::
    "((pystr \<times> pystr) list \<Rightarrow> pystr) \<Rightarrow> message list \<Rightarrow> pystr" where
  "conversation_prefix_hash digest messages =
     digest (map (\<lambda>m. (m_role m, content_or_empty m)) (filter prefix_row messages))"

definition session_key :: "pystr option \<Rightarrow> pystr option \<Rightarrow> pystr \<Rightarrow> pystr" where
  "session_key session_id user prefix_hash =
     (let session = py_strip (str_or session_id '''');
          usr = py_strip (str_or user '''')
      in if session \<noteq> '''' then ''session:'' @ session
         else if usr \<noteq> '''' then ''user:'' @ usr
         else ''prefix:'' @ prefix_hash)"

definition is_continuation ::
    "((pystr \<times> pystr) list \<Rightarrow> pystr) \<Rightarrow> message list \<Rightarrow> session_pin option \<Rightarrow> bool" where
  "is_continuation digest messages pin =
     (is_tool_continuation messages
      \<or> (case pin of None \<Rightarrow> False
         | Some p \<Rightarrow> conversation_prefix_hash digest messages = sp_prefix_hash p))"

text \<open>
  Dropping the trailing tool round that \<open>user_turn_prefix\<close> drops never changes which
  session a conversation belongs to: the prefix hash, and with it the session key, of the
  shortened conversation is that of the whole one, and the shortened conversation is a prefix
  of it.
\<close>

theorem user_turn_prefix_keeps_session:
  "conversation_prefix_hash digest (user_turn_prefix messages)
      = conversation_prefix_hash digest messages
   \<and> session_key sid user (conversation_prefix_hash digest (user_turn_prefix messages))
      = session_key sid user (conversation_prefix_hash digest messages)
   \<and> prefix (user_turn_prefix messages) messages"
proof -
  have "filter prefix_row (user_turn_prefix messages) = filter prefix_row messages"
  proof (cases "is_tool_continuation messages")
    case True
    let ?r = "rev (dropWhile is_tool_result (rev messages))"
    have "user_turn_prefix messages
      = rev (dropWhile (\<lambda>m. m_role m = ''assistant'' \<and> has_tool_calls m) (rev ?r))"
      using True by (simp add: user_turn_prefix_def)
    then have "filter prefix_row (user_turn_prefix messages) = filter prefix_row ?r"
      by (simp only:) (rule filter_rev_dropWhile, simp add: prefix_row_def)
    also have "\<dots> = filter prefix_row messages"
      by (rule filter_rev_dropWhile) (simp add: prefix_row_def)
    finally show ?thesis .
  qed (simp add: user_turn_prefix_def)
  then have "conversation_prefix_hash digest (user_turn_prefix messages)
      = conversation_prefix_hash digest messages"
    by (simp add: conversation_prefix_hash_def)
  then show ?thesis by (simp add: user_turn_prefix_prefix)
qed

section \<open>The contract of a pin store\<close>

text \<open>
  What the router relies on: \<open>live\<close> is the pin a session has at a given time. Reading
  returns it, at that time and in the store left behind; a put makes its pin live until the
  time to live has passed and leaves other sessions alone.
\<close>

locale pin_store_laws =
  fixes get :: "pyfloat \<Rightarrow> pystr \<Rightarrow> 's \<Rightarrow> 'p option \<times> 's"
    and put :: "pyfloat \<Rightarrow> pystr \<Rightarrow> 'v \<Rightarrow> 's \<Rightarrow> 's"
    and live :: "'s \<Rightarrow> pyfloat \<Rightarrow> pystr \<Rightarrow> 'p option"
    and lifetime :: "'s \<Rightarrow> pyfloat"
    and mk :: "'s \<Rightarrow> pyfloat \<Rightarrow> 'v \<Rightarrow> 'p"
  assumes get_value: "fst (get now key st) = live st now key"
    and get_keeps: "now \<le> later \<Longrightarrow> live (snd (get now key st)) later k = live st later k"
    and get_lifetime: "lifetime (snd (get now key st)) = lifetime st"
    and put_live: "now \<le> later \<Longrightarrow> live (put now key v st) later key
        = (if 0 < lifetime st \<and> now + lifetime st \<le> later then None else Some (mk st now v))"
    and put_other: "k \<noteq> key \<Longrightarrow> live (put now key v st) later k = live st later k"
    and put_lifetime: "lifetime (put now key v st) = lifetime st"
begin

fun reads :: "(pyfloat \<times> pystr) list \<Rightarrow> 's \<Rightarrow> 's" where
  "reads [] st = st"
| "reads ((now, key) # rs) st = reads rs (snd (get now key st))"

lemma reads_lifetime: "lifetime (reads rs st) = lifetime st"
  by (induction rs st rule: reads.induct) (simp_all add: get_lifetime)

text \<open>Reads, in any order up to \<open>later\<close>, do not disturb what is live then.\<close>

lemma reads_keep: "\<forall>(now, key) \<in> set rs. now \<le> later \<Longrightarrow> live (reads rs st) later k = live st later k"
  by (induction rs st rule: reads.induct) (simp_all add: get_keeps)

lemma read_back:
  assumes "now \<le> later" "\<forall>(n, k) \<in> set rs. n \<le> later"
  shows "fst (get later key (reads rs (put now key v st)))
      = (if 0 < lifetime st \<and> now + lifetime st \<le> later then None else Some (mk st now v))"
  using assms by (simp add: get_value reads_keep put_live)

end

definition live_pin :: "('p \<Rightarrow> pyfloat option) \<Rightarrow> 'p pin_store \<Rightarrow> pyfloat \<Rightarrow> pystr \<Rightarrow> 'p option" where
  "live_pin expires st now key = (case map_of (ps_pins st) key of None \<Rightarrow> None
     | Some pin \<Rightarrow> (if pin_expired (ps_ttl st) now (expires pin) then None else Some pin))"

lemma pin_expired_mono: "pin_expired ttl now e \<Longrightarrow> now \<le> later \<Longrightarrow> pin_expired ttl later e"
  by (auto simp: pin_expired_def split: option.splits)

lemma mark_degraded_fields [simp]:
  "ps_pins (mark_degraded st) = ps_pins st" "ps_ttl (mark_degraded st) = ps_ttl st"
  "ps_prefix (mark_degraded st) = ps_prefix st"
  by (simp_all add: mark_degraded_def)

lemma local_get_live: "fst (local_get expires now key st) = live_pin expires st now key"
  by (simp add: local_get_def live_pin_def split: option.split)

lemma local_get_keeps:
  "now \<le> later \<Longrightarrow> live_pin expires (snd (local_get expires now key st)) later k = live_pin expires st later k"
  by (auto simp: local_get_def live_pin_def dest: pin_expired_mono split: option.split)

lemma local_get_ttl [simp]: "ps_ttl (snd (local_get expires now key st)) = ps_ttl st"
  by (simp add: local_get_def split: option.split)

lemma live_pin_update:
  "live_pin expires (st\<lparr>ps_pins := AList.update key pin (ps_pins st)\<rparr>) later k
    = (if k = key then (if pin_expired (ps_ttl st) later (expires pin) then None else Some pin)
       else live_pin expires st later k)"
  by (simp add: live_pin_def split: option.split)

lemma live_pin_degraded [simp]: "live_pin expires (mark_degraded st) = live_pin expires st"
  by (intro ext) (simp add: live_pin_def split: option.split)

text \<open>Without a usable Redis, both calls work on the process-local dictionary.\<close>

lemma pin_put_local:
  assumes "reply \<noteq> PutStored"
  shows "live_pin expires (fst (pin_put reply key pin st)) later k
    = (if k = key then (if pin_expired (ps_ttl st) later (expires pin) then None else Some pin)
       else live_pin expires st later k)"
    "ps_ttl (fst (pin_put reply key pin st)) = ps_ttl st"
  using assms live_pin_update [where st = st] live_pin_update [where st = "mark_degraded st"]
  by (cases reply; simp add: pin_put_def Let_def)+

lemma pin_get_local:
  assumes "reply \<in> {GetNoClient, GetFailed}"
  shows "fst (pin_get expires reply now key st) = live_pin expires st now key"
    "now \<le> later \<Longrightarrow> live_pin expires (snd (pin_get expires reply now key st)) later k
        = live_pin expires st later k"
    "ps_ttl (snd (pin_get expires reply now key st)) = ps_ttl st"
  using assms by (auto simp: pin_get_def local_get_live local_get_keeps)

lemma pin_expired_expiry:
  "pin_expired ttl later (pin_expiry ttl now) \<longleftrightarrow> 0 < ttl \<and> now + ttl \<le> later"
  by (simp add: pin_expired_def pin_expiry_def)

lemmas pin_store_simps = session_get_def session_put_def profile_get_def profile_put_def
  pin_put_local pin_get_local pin_expired_expiry

interpretation session_store: pin_store_laws
  "session_get GetNoClient"
  "\<lambda>now key (tier, model, hash) st. fst (session_put PutNoClient now key tier model hash st)"
  "live_pin sp_expires_at"
  ps_ttl
  "\<lambda>st now (tier, model, hash). \<lparr>sp_tier = tier, sp_model = model, sp_prefix_hash = hash,
      sp_expires_at = pin_expiry (ps_ttl st) now\<rparr>"
  by unfold_locales (auto simp: pin_store_simps)

interpretation profile_store: pin_store_laws
  "profile_get GetFailed"
  "\<lambda>now key (category, complexity, hash) st.
      fst (profile_put PutFailed now key category complexity hash st)"
  "live_pin pp_expires_at"
  ps_ttl
  "\<lambda>st now (category, complexity, hash). \<lparr>pp_category = category, pp_complexity = complexity,
      pp_prefix_hash = hash, pp_expires_at = pin_expiry (ps_ttl st) now\<rparr>"
  by unfold_locales (auto simp: pin_store_simps)

text \<open>
  A session pin stored in the process is what the next turn reads back: after any reads up
  to that time, of any session, the same session gets exactly the stored tier, model and prefix
  hash until the time to live has passed, and nothing from then on; with a time to live of zero
  the pin never expires.
\<close>

theorem session_pin_read_back:
  assumes "now \<le> later" "\<forall>(n, k) \<in> set rs. n \<le> later"
  shows "fst (session_get GetNoClient later key
            (session_store.reads rs (fst (session_put PutNoClient now key tier model hash st))))
      = (if 0 < ps_ttl st \<and> now + ps_ttl st \<le> later then None
         else Some \<lparr>sp_tier = tier, sp_model = model, sp_prefix_hash = hash,
                    sp_expires_at = pin_expiry (ps_ttl st) now\<rparr>)"
  using session_store.read_back [OF assms, of key "(tier, model, hash)" st] by simp

theorem session_pin_read_back_witness:
  "map_option sp_tier (fst (session_get GetNoClient 1000 ''s''
      (session_store.reads [(50, ''other''), (60, ''s'')]
        (fst (session_put PutNoClient 0 ''s'' ''L4'' None ''h'' (new_pin_store 1800 ''p:''))))))
     = Some ''L4''"
proof -
  have "(0::pyfloat) \<le> 1000" "\<forall>(n, k) \<in> set [(50, ''other''), (60::pyfloat, ''s'')]. n \<le> 1000"
    by simp_all
  from session_pin_read_back [OF this, of "''s''" "''L4''" None "''h''" "new_pin_store 1800 ''p:''"]
  show ?thesis by (simp add: new_pin_store_def)
qed

text \<open>
  Redis trouble degrades to the process: a profile put whose Redis write fails is read back
  by a profile get whose Redis read fails, and one failed Redis call marks the store degraded.
\<close>

theorem profile_pin_survives_redis_failure:
  fixes key category complexity hash :: pystr
  assumes "now \<le> later" "0 < ps_ttl st \<Longrightarrow> later < now + ps_ttl st"
  defines "put \<equiv> fst (profile_put PutFailed now key category complexity hash st)"
  shows "fst (profile_get GetFailed later key put)
      = Some \<lparr>pp_category = category, pp_complexity = complexity, pp_prefix_hash = hash,
              pp_expires_at = pin_expiry (ps_ttl st) now\<rparr>
    \<and> ps_degraded put \<and> ps_degraded (snd (profile_get GetFailed later key put))"
proof -
  have "fst (profile_get GetFailed later key put) = Some \<lparr>pp_category = category,
      pp_complexity = complexity, pp_prefix_hash = hash,
      pp_expires_at = pin_expiry (ps_ttl st) now\<rparr>"
    using profile_store.read_back [of now later "[]" key "(category, complexity, hash)" st] assms
    by (auto simp: put_def)
  moreover have "ps_degraded put"
    by (simp add: put_def profile_put_def pin_put_def mark_degraded_def Let_def)
  moreover from this have "ps_degraded (snd (profile_get GetFailed later key put))"
    by (simp add: profile_get_def pin_get_def local_get_def mark_degraded_def split: option.split)
  ultimately show ?thesis by simp
qed

theorem profile_pin_survives_redis_failure_witness:
  "ps_degraded (fst (profile_put PutFailed 0 ''s'' ''code'' ''high'' ''h'' (new_pin_store 1800 ''p:'')))"
  using profile_pin_survives_redis_failure [of 0 10 "new_pin_store 1800 ''p:''" "''s''" "''code''" "''high''" "''h''"]
  by (simp add: new_pin_store_def)

end
