(* ===== verification/RateCounters.thy ===== *)
theory RateCounters
  imports Prelude
begin

text \<open>
  The counter backends of the rate limiter (\<open>daari/auth/rate_limit.py\<close>): windowed counters
  and in-flight gauges in memory, in SQLite and in Redis.

  The locale \<open>counter_backend\<close> is the protocol class \<open>CounterBackend\<close> with the laws the
  limiter relies on: an increment returns the count of its key in the current window, other
  keys keep theirs, and gauges never go below zero nor mix with counters. The memory and
  SQLite backends interpret it. The Redis backend is the commands it sends and what it makes
  of the replies.
\<close>

definition WINDOW_SECONDS :: int where "WINDOW_SECONDS = 60"
definition DAY_SECONDS :: int where "DAY_SECONDS = 86400"

text \<open>\<open>int(_wall_time() // window_seconds)\<close>.\<close>

definition window_of :: "pyfloat \<Rightarrow> int \<Rightarrow> int" where
  "window_of wall ws = \<lfloor>wall / of_int ws\<rfloor>"

section \<open>Memory\<close>

record memory_counters =
  mc_counts :: "(pystr \<times> (int \<times> int)) list"   \<comment> \<open>key to (count, window)\<close>
  mc_gauges :: "(pystr \<times> int) list"

definition empty_memory :: memory_counters where
  "empty_memory = \<lparr>mc_counts = [], mc_gauges = []\<rparr>"

definition memory_increment ::
    "pyfloat \<Rightarrow> pystr \<Rightarrow> int \<Rightarrow> int \<Rightarrow> memory_counters \<Rightarrow> int \<times> memory_counters" where
  "memory_increment wall key amount ws st =
     (let window = window_of wall ws;
          (stored, stored_window) = (case map_of (mc_counts st) key of
              None \<Rightarrow> (0, window) | Some cw \<Rightarrow> cw);
          count = (if stored_window \<noteq> window then 0 else stored) + amount
      in (count, st\<lparr>mc_counts := AList.update key (count, window) (mc_counts st)\<rparr>))"

definition memory_adjust_gauge :: "pystr \<Rightarrow> int \<Rightarrow> memory_counters \<Rightarrow> int \<times> memory_counters" where
  "memory_adjust_gauge key delta st =
     (let v = max 0 ((case map_of (mc_gauges st) key of None \<Rightarrow> 0 | Some g \<Rightarrow> g) + delta)
      in (v, st\<lparr>mc_gauges := AList.update key v (mc_gauges st)\<rparr>))"

section \<open>SQLite\<close>

text \<open>The table \<open>counters\<close>, primary key \<open>(key, window)\<close>; gauges sit in window \<open>-1\<close>.\<close>

type_synonym sqlite_counters = "((pystr \<times> int) \<times> int) list"

definition GAUGE_WINDOW :: int where "GAUGE_WINDOW = -1"

text \<open>\<open>DELETE FROM counters WHERE key = ? AND window < ? AND window >= 0\<close>.\<close>

definition drop_stale :: "pystr \<Rightarrow> int \<Rightarrow> sqlite_counters \<Rightarrow> sqlite_counters" where
  "drop_stale key window = filter (\<lambda>((k, w), c). \<not> (k = key \<and> w < window \<and> w \<ge> 0))"

definition sqlite_increment ::
    "pyfloat \<Rightarrow> pystr \<Rightarrow> int \<Rightarrow> int \<Rightarrow> sqlite_counters \<Rightarrow> int \<times> sqlite_counters" where
  "sqlite_increment wall key amount ws rows =
     (let window = window_of wall ws;
          kept = drop_stale key window rows;
          rows' = AList.update (key, window)
            (case map_of kept (key, window) of None \<Rightarrow> amount | Some c \<Rightarrow> c + amount) kept
      in (case map_of rows' (key, window) of None \<Rightarrow> amount | Some c \<Rightarrow> c, rows'))"

definition sqlite_adjust_gauge :: "pystr \<Rightarrow> int \<Rightarrow> sqlite_counters \<Rightarrow> int \<times> sqlite_counters" where
  "sqlite_adjust_gauge key delta rows =
     (let rows' = AList.update (key, GAUGE_WINDOW)
            (case map_of rows (key, GAUGE_WINDOW) of
               None \<Rightarrow> max 0 delta | Some c \<Rightarrow> max 0 (c + delta)) rows
      in (max 0 (case map_of rows' (key, GAUGE_WINDOW) of None \<Rightarrow> 0 | Some c \<Rightarrow> c), rows'))"

section \<open>Redis\<close>

datatype counter_cmd = CIncrBy pystr int | CExpire pystr int | CSet pystr int

text \<open>\<open>reply\<close> is the first result of the pipeline, the counter after \<open>INCRBY\<close>.\<close>

definition redis_increment ::
    "pystr \<Rightarrow> int \<Rightarrow> pyfloat \<Rightarrow> pystr \<Rightarrow> int \<Rightarrow> int \<Rightarrow> int \<times> counter_cmd list" where
  "redis_increment pfx reply wall key amount ws =
     (let full = pfx @ key @ '':'' @ str_of_int (window_of wall ws)
      in (reply, [CIncrBy full amount, CExpire full ws]))"

definition redis_adjust_gauge ::
    "pystr \<Rightarrow> int \<Rightarrow> pystr \<Rightarrow> int \<Rightarrow> int \<times> counter_cmd list" where
  "redis_adjust_gauge pfx reply key delta =
     (let full = pfx @ ''gauge:'' @ key;
          sent = [CIncrBy full delta, CExpire full 3600]
      in if reply < 0 then (0, sent @ [CSet full 0]) else (reply, sent))"

section \<open>The counter protocol\<close>

locale counter_backend =
  fixes inc :: "pyfloat \<Rightarrow> pystr \<Rightarrow> int \<Rightarrow> int \<Rightarrow> 's \<Rightarrow> int \<times> 's"
    and gauge :: "pystr \<Rightarrow> int \<Rightarrow> 's \<Rightarrow> int \<times> 's"
    and count :: "'s \<Rightarrow> pystr \<Rightarrow> int \<Rightarrow> int"
    and level :: "'s \<Rightarrow> pystr \<Rightarrow> int"
    and ok :: "'s \<Rightarrow> bool"
  assumes inc_result: "ok s \<Longrightarrow> 0 \<le> wall \<Longrightarrow> 0 < ws \<Longrightarrow>
        fst (inc wall k a ws s) = count s k (window_of wall ws) + a"
    and inc_count: "ok s \<Longrightarrow> 0 \<le> wall \<Longrightarrow> 0 < ws \<Longrightarrow>
        count (snd (inc wall k a ws s)) k (window_of wall ws) = count s k (window_of wall ws) + a"
    and inc_other: "ok s \<Longrightarrow> 0 \<le> wall \<Longrightarrow> 0 < ws \<Longrightarrow> k' \<noteq> k \<Longrightarrow>
        count (snd (inc wall k a ws s)) k' w = count s k' w"
    and inc_level: "ok s \<Longrightarrow> 0 \<le> wall \<Longrightarrow> 0 < ws \<Longrightarrow> level (snd (inc wall k a ws s)) = level s"
    and inc_ok: "ok s \<Longrightarrow> 0 \<le> wall \<Longrightarrow> 0 < ws \<Longrightarrow> ok (snd (inc wall k a ws s))"
    and gauge_result: "ok s \<Longrightarrow> fst (gauge k d s) = max 0 (level s k + d)"
    and gauge_level: "ok s \<Longrightarrow> level (snd (gauge k d s)) = (level s)(k := max 0 (level s k + d))"
    and gauge_count: "ok s \<Longrightarrow> 0 \<le> w \<Longrightarrow> count (snd (gauge k d s)) k' w = count s k' w"
    and gauge_ok: "ok s \<Longrightarrow> ok (snd (gauge k d s))"
    and level_nonneg: "ok s \<Longrightarrow> 0 \<le> level s k"
begin

text \<open>Taking a gauge up by one and back down leaves every gauge as it was.\<close>

lemma gauge_up_down:
  assumes "ok s"
  shows "level (snd (gauge k (-1) (snd (gauge k 1 s)))) = level s"
  using assms level_nonneg [OF assms, of k] by (auto simp: gauge_level gauge_ok)

text \<open>A probe with amount zero reads the window without charging it.\<close>

lemma probe_free:
  assumes "ok s" "0 \<le> wall" "0 < ws"
  shows "fst (inc wall k 0 ws s) = count s k (window_of wall ws)"
    "k' \<noteq> k \<or> w = window_of wall ws \<Longrightarrow> count (snd (inc wall k 0 ws s)) k' w = count s k' w"
proof -
  show "fst (inc wall k 0 ws s) = count s k (window_of wall ws)"
    using assms by (simp add: inc_result)
  show "k' \<noteq> k \<or> w = window_of wall ws \<Longrightarrow> count (snd (inc wall k 0 ws s)) k' w = count s k' w"
    using assms inc_count [OF assms, of k 0] by (cases "k' = k") (auto simp: inc_other)
qed

end

definition memory_count :: "memory_counters \<Rightarrow> pystr \<Rightarrow> int \<Rightarrow> int" where
  "memory_count st k w = (case map_of (mc_counts st) k of None \<Rightarrow> 0
     | Some (c, w') \<Rightarrow> (if w' = w then c else 0))"

definition memory_level :: "memory_counters \<Rightarrow> pystr \<Rightarrow> int" where
  "memory_level st k = (case map_of (mc_gauges st) k of None \<Rightarrow> 0 | Some g \<Rightarrow> g)"

definition memory_ok :: "memory_counters \<Rightarrow> bool" where
  "memory_ok st = (\<forall>g \<in> ran (map_of (mc_gauges st)). 0 \<le> g)"

definition sqlite_count :: "sqlite_counters \<Rightarrow> pystr \<Rightarrow> int \<Rightarrow> int" where
  "sqlite_count rows k w = (case map_of rows (k, w) of None \<Rightarrow> 0 | Some c \<Rightarrow> c)"

definition sqlite_level :: "sqlite_counters \<Rightarrow> pystr \<Rightarrow> int" where
  "sqlite_level rows k = sqlite_count rows k GAUGE_WINDOW"

definition sqlite_ok :: "sqlite_counters \<Rightarrow> bool" where
  "sqlite_ok rows = (\<forall>k c. map_of rows (k, GAUGE_WINDOW) = Some c \<longrightarrow> 0 \<le> c)"

lemma window_of_nonneg: "0 \<le> wall \<Longrightarrow> 0 < ws \<Longrightarrow> 0 \<le> window_of wall ws"
  by (simp add: window_of_def)

interpretation memory: counter_backend
  memory_increment memory_adjust_gauge memory_count memory_level memory_ok
proof unfold_locales
  fix s :: memory_counters and k k' :: pystr and d :: int
  show "memory_ok s \<Longrightarrow> memory_ok (snd (memory_adjust_gauge k d s))"
    by (auto simp: memory_ok_def memory_adjust_gauge_def Let_def ran_def split: if_splits)
  show "memory_ok s \<Longrightarrow> 0 \<le> memory_level s k"
    by (auto simp: memory_ok_def memory_level_def ran_def split: option.split)
qed (auto simp: memory_increment_def memory_adjust_gauge_def memory_count_def memory_level_def
      memory_ok_def Let_def fun_eq_iff split: option.split prod.split)

text \<open>The rows an increment keeps: the stale windows of its own key are gone.\<close>

lemma map_of_kept:
  "map_of (drop_stale key window rows) (k, w)
    = (if k = key \<and> 0 \<le> w \<and> w < window then None else map_of rows (k, w))"
  by (induction rows) (auto simp: drop_stale_def)

interpretation sqlite: counter_backend
  sqlite_increment sqlite_adjust_gauge sqlite_count sqlite_level sqlite_ok
proof unfold_locales
  fix s :: sqlite_counters and k k' :: pystr and a ws w d :: int and wall :: pyfloat
  have up: "snd (sqlite_increment wall k a ws s) = AList.update (k, window_of wall ws)
      (sqlite_count s k (window_of wall ws) + a) (drop_stale k (window_of wall ws) s)"
    for wall k a ws s
    by (simp add: sqlite_increment_def Let_def map_of_kept sqlite_count_def split: option.split)
  show "0 \<le> wall \<Longrightarrow> 0 < ws \<Longrightarrow>
      fst (sqlite_increment wall k a ws s) = sqlite_count s k (window_of wall ws) + a"
    by (simp add: sqlite_increment_def Let_def map_of_kept sqlite_count_def split: option.split)
  show "0 \<le> wall \<Longrightarrow> 0 < ws \<Longrightarrow> sqlite_count (snd (sqlite_increment wall k a ws s)) k (window_of wall ws)
      = sqlite_count s k (window_of wall ws) + a"
    by (simp add: up) (simp add: sqlite_count_def)
  show "k' \<noteq> k \<Longrightarrow> sqlite_count (snd (sqlite_increment wall k a ws s)) k' w = sqlite_count s k' w"
    by (simp add: up) (simp add: sqlite_count_def map_of_kept)
  have win: "0 \<le> wall \<Longrightarrow> 0 < ws \<Longrightarrow> window_of wall ws \<noteq> -1" for wall ws
    using window_of_nonneg [of wall ws] by simp
  show "0 \<le> wall \<Longrightarrow> 0 < ws \<Longrightarrow> sqlite_level (snd (sqlite_increment wall k a ws s)) = sqlite_level s"
    using win [of wall ws]
    by (simp add: up fun_eq_iff sqlite_level_def) (simp add: sqlite_count_def map_of_kept GAUGE_WINDOW_def)
  show "sqlite_ok s \<Longrightarrow> 0 \<le> wall \<Longrightarrow> 0 < ws \<Longrightarrow> sqlite_ok (snd (sqlite_increment wall k a ws s))"
    using win [of wall ws] by (simp add: up sqlite_ok_def map_of_kept GAUGE_WINDOW_def)
  show "sqlite_ok s \<Longrightarrow> fst (sqlite_adjust_gauge k d s) = max 0 (sqlite_level s k + d)"
    by (auto simp: sqlite_adjust_gauge_def Let_def sqlite_level_def sqlite_count_def split: option.split)
  show "sqlite_ok s \<Longrightarrow> sqlite_level (snd (sqlite_adjust_gauge k d s))
      = (sqlite_level s)(k := max 0 (sqlite_level s k + d))"
    by (auto simp: sqlite_adjust_gauge_def Let_def sqlite_level_def sqlite_count_def fun_eq_iff split: option.split)
  show "0 \<le> w \<Longrightarrow> sqlite_count (snd (sqlite_adjust_gauge k d s)) k' w = sqlite_count s k' w"
    by (simp add: sqlite_adjust_gauge_def Let_def sqlite_count_def GAUGE_WINDOW_def)
  show "sqlite_ok s \<Longrightarrow> sqlite_ok (snd (sqlite_adjust_gauge k d s))"
    by (auto simp: sqlite_adjust_gauge_def Let_def sqlite_ok_def split: option.split)
  show "sqlite_ok s \<Longrightarrow> 0 \<le> sqlite_level s k"
    by (auto simp: sqlite_ok_def sqlite_level_def sqlite_count_def split: option.split)
qed

end
