(* ===== verification/RateLimiter.thy ===== *)
theory RateLimiter
  imports RateCounters
begin

text \<open>
  The rate limiter (\<open>RateLimiter\<close> in \<open>daari/auth/rate_limit.py\<close>), without its in-flight gate,
  which is the theory \<open>AdmissionGate\<close>.

  A backend is a record of its operations over a state type of its own; an operation that
  raises returns \<open>None\<close> and the state it left behind. The limiter holds the states of its
  primary and of its fallback backend. The clocks one call reads are entry \<open>n\<close> of an
  environment stream, \<open>n\<close> counting the calls of \<open>_increment\<close> and \<open>_adjust_gauge\<close>.
\<close>

section \<open>Decisions\<close>

definition RATE_LIMIT_METRIC_SCOPES :: "pystr set" where
  "RATE_LIMIT_METRIC_SCOPES = {''rpm'', ''tpm'', ''rpd'', ''tpd''}"

definition rate_limit_metric_kind :: "pystr option \<Rightarrow> pystr" where
  "rate_limit_metric_kind scope =
     (let text = py_lower (py_strip (str_or scope '''')) in
      if text \<in> RATE_LIMIT_METRIC_SCOPES then ''rate_limit_'' @ text else ''rate_limit'')"

definition PRIORITY_RANK :: "(pystr \<times> nat) list" where
  "PRIORITY_RANK = [(''high'', 0), (''normal'', 1), (''low'', 2)]"

definition normalize_priority :: "pystr option \<Rightarrow> pystr" where
  "normalize_priority v =
     (let text = py_lower (py_strip (str_or v ''normal'')) in
      if map_of PRIORITY_RANK text \<noteq> None then text else ''normal'')"

record decision =
  d_allowed :: bool
  d_limit :: int
  d_remaining :: int
  d_reset :: int
  d_retry_after :: "int option"
  d_scope :: pystr
  d_backend :: pystr
  d_bucket :: pystr

definition decision_used :: "decision \<Rightarrow> int" where
  "decision_used d = (if d_limit d \<le> 0 then 0 else max 0 (d_limit d - d_remaining d))"

definition in_soft_band :: "pyfloat \<Rightarrow> decision \<Rightarrow> bool" where
  "in_soft_band mark d =
     (if \<not> d_allowed d \<or> mark \<le> 0 \<or> mark > 1 \<or> d_limit d \<le> 0 then False
      else of_int (decision_used d) / of_int (d_limit d) \<ge> mark)"

definition decision_headers :: "bool \<Rightarrow> decision \<Rightarrow> (pystr \<times> pystr) list" where
  "decision_headers soft d =
     (if d_limit d \<le> 0 then []
      else [(''X-RateLimit-Limit'', str_of_int (d_limit d)),
            (''X-RateLimit-Remaining'', str_of_int (max 0 (d_remaining d))),
            (''X-RateLimit-Reset'', str_of_int (d_reset d))]
         @ (if d_bucket d \<noteq> '''' then [(''X-RateLimit-Scope'', d_bucket d)] else [])
         @ (if d_backend d \<noteq> '''' then [(''X-RateLimit-Backend'', d_backend d)] else [])
         @ (case d_retry_after d of None \<Rightarrow> [] | Some r \<Rightarrow> [(''Retry-After'', str_of_int r)])
         @ (if soft \<and> d_allowed d then [(''x-daari-ratelimit-warning'', ''soft'')] else []))"

section \<open>Limits by model\<close>

text \<open>An entry of \<open>rate_limit.models\<close>; the dict and the object form hold the same fields.\<close>

record model_entry =
  me_rpm :: "int option"
  me_tpm :: "int option"
  me_max_in_flight :: "int option"

text \<open>The loop of \<open>match_model_limits\<close> over the configured names.\<close>

fun longest_name :: "pystr \<Rightarrow> pystr list \<Rightarrow> pystr \<Rightarrow> pystr" where
  "longest_name text [] best = best"
| "longest_name text (key # keys) best =
     (let name = py_strip key in
      longest_name text keys
        (if name \<noteq> [] \<and> starts_with text name \<and> length name > length best then name else best))"

definition match_model_limits :: "(pystr \<times> 'e) list \<Rightarrow> pystr \<Rightarrow> 'e option" where
  "match_model_limits models model =
     (if models = [] then None
      else let text = py_strip model in
        if text = [] then None
        else (case map_of models text of
            Some e \<Rightarrow> Some e
          | None \<Rightarrow> (let best = longest_name text (map fst models) '''' in
              if best \<noteq> [] then map_of models best else None)))"

section \<open>State\<close>

record 's backend =
  be_name :: pystr
  be_inc :: "pyfloat \<Rightarrow> pystr \<Rightarrow> int \<Rightarrow> int \<Rightarrow> 's \<Rightarrow> int option \<times> 's"
  be_gauge :: "pystr \<Rightarrow> int \<Rightarrow> 's \<Rightarrow> int option \<times> 's"
  be_ping :: "'s \<Rightarrow> bool \<times> 's"

record ('p, 'f) limiter_cfg =
  lc_primary :: "'p backend"
  lc_fallback :: "'f backend option"
  lc_fail_open :: bool
  lc_default_rpm :: int
  lc_default_tpm :: int
  lc_model_rpm :: int
  lc_model_tpm :: int
  lc_models :: "(pystr \<times> model_entry) list"
  lc_retry_after :: int
  lc_probe_interval :: pyfloat

datatype which = Primary | Fallback

datatype limiter_event = Degraded pystr pystr | Recovered

record ('p, 'f) limiter =
  li_primary :: 'p
  li_fallback :: 'f
  li_backend :: which
  li_degraded :: bool
  li_logged :: bool
  li_mode :: "pystr option"
  li_last_probe :: pyfloat
  li_calls :: nat
  li_events :: "limiter_event list"

definition new_limiter :: "'p \<Rightarrow> 'f \<Rightarrow> ('p, 'f) limiter" where
  "new_limiter p f = \<lparr>li_primary = p, li_fallback = f, li_backend = Primary, li_degraded = False,
     li_logged = False, li_mode = None, li_last_probe = 0, li_calls = 0, li_events = []\<rparr>"

record reads =
  rd_mono :: pyfloat     \<comment> \<open>\<open>time.monotonic()\<close> of \<open>_maybe_recover\<close>\<close>
  rd_wall :: pyfloat     \<comment> \<open>the wall clock the primary reads\<close>
  rd_fwall :: pyfloat    \<comment> \<open>the wall clock the fallback reads\<close>
  rd_now :: pyfloat      \<comment> \<open>\<open>time.time()\<close> for a reset epoch\<close>

type_synonym env = "nat \<Rightarrow> reads"

definition backend_name :: "('p, 'f) limiter_cfg \<Rightarrow> ('p, 'f) limiter \<Rightarrow> pystr" where
  "backend_name cfg st = (case li_backend st of
       Primary \<Rightarrow> be_name (lc_primary cfg)
     | Fallback \<Rightarrow> (case lc_fallback cfg of None \<Rightarrow> '''' | Some f \<Rightarrow> be_name f))"

definition probe_redis :: "('p, 'f) limiter_cfg \<Rightarrow> pystr \<Rightarrow> ('p, 'f) limiter \<Rightarrow> pystr \<times> ('p, 'f) limiter" where
  "probe_redis cfg exc_name st =
     (if be_name (lc_primary cfg) \<noteq> ''redis'' then (''ok'', st)
      else (case be_ping (lc_primary cfg) (li_primary st) of (ok, p) \<Rightarrow>
        (if ok then ''ok'' else exc_name, st\<lparr>li_primary := p\<rparr>)))"

section \<open>Degrading and recovering\<close>

definition enter_degraded :: "('p, 'f) limiter_cfg \<Rightarrow> ('p, 'f) limiter \<Rightarrow> ('p, 'f) limiter" where
  "enter_degraded cfg st =
     (let mode = (if lc_fail_open cfg then ''fail_open'' else ''sqlite_fallback'');
          be = (if lc_fail_open cfg then li_backend st
                else if lc_fallback cfg \<noteq> None then Fallback else li_backend st);
          st1 = st\<lparr>li_degraded := True, li_mode := Some mode, li_backend := be, li_logged := True\<rparr>
      in if li_logged st then st1
         else st1\<lparr>li_events := li_events st @ [Degraded mode (backend_name cfg st1)]\<rparr>)"

definition maybe_recover ::
    "('p, 'f) limiter_cfg \<Rightarrow> pyfloat \<Rightarrow> ('p, 'f) limiter \<Rightarrow> ('p, 'f) limiter" where
  "maybe_recover cfg now st =
     (if be_name (lc_primary cfg) \<noteq> ''redis'' then st
      else if \<not> li_degraded st then st
      else if now - li_last_probe st < lc_probe_interval cfg then st
      else (case be_ping (lc_primary cfg) (li_primary st) of (ok, p) \<Rightarrow>
        (let st1 = st\<lparr>li_last_probe := now, li_primary := p\<rparr> in
         if \<not> ok then st1
         else st1\<lparr>li_backend := Primary, li_degraded := False, li_logged := False,
                  li_mode := None, li_events := li_events st @ [Recovered]\<rparr>)))"

text \<open>
  The path \<open>_increment\<close> and \<open>_adjust_gauge\<close> share: recover if degraded, try the primary, degrade
  when it raises, then fail open or count on the fallback. \<open>None\<close> is a fallback that raised.
\<close>

definition count_degraded ::
    "('p, 'f) limiter_cfg \<Rightarrow> ('f backend \<Rightarrow> 'f \<Rightarrow> int option \<times> 'f) \<Rightarrow>
     ('p, 'f) limiter \<Rightarrow> int option \<times> ('p, 'f) limiter" where
  "count_degraded cfg fop st =
     (if lc_fail_open cfg then (Some 0, st)
      else (case lc_fallback cfg of
          None \<Rightarrow> (Some 0, st)
        | Some fb \<Rightarrow> (case fop fb (li_fallback st) of (r, f) \<Rightarrow>
            (r, st\<lparr>li_backend := Fallback, li_fallback := f\<rparr>))))"

definition degrade_path ::
    "('p, 'f) limiter_cfg \<Rightarrow> pyfloat \<Rightarrow> ('p \<Rightarrow> int option \<times> 'p) \<Rightarrow>
     ('f backend \<Rightarrow> 'f \<Rightarrow> int option \<times> 'f) \<Rightarrow> ('p, 'f) limiter \<Rightarrow> int option \<times> ('p, 'f) limiter" where
  "degrade_path cfg mnow pop fop st =
     (let st1 = (if li_degraded st then maybe_recover cfg mnow st else st) in
      if \<not> li_degraded st1 then
        (case pop (li_primary st1) of
           (Some c, p) \<Rightarrow> (Some c, st1\<lparr>li_primary := p\<rparr>)
         | (None, p) \<Rightarrow> count_degraded cfg fop (enter_degraded cfg (st1\<lparr>li_primary := p\<rparr>)))
      else count_degraded cfg fop st1)"

definition next_call :: "('p, 'f) limiter \<Rightarrow> ('p, 'f) limiter" where
  "next_call st = st\<lparr>li_calls := Suc (li_calls st)\<rparr>"

definition limiter_increment ::
    "('p, 'f) limiter_cfg \<Rightarrow> env \<Rightarrow> pystr \<Rightarrow> int \<Rightarrow> int \<Rightarrow> ('p, 'f) limiter \<Rightarrow>
     int option \<times> ('p, 'f) limiter" where
  "limiter_increment cfg env key amount ws st =
     (let r = env (li_calls st) in
      degrade_path cfg (rd_mono r)
        (be_inc (lc_primary cfg) (rd_wall r) key amount ws)
        (\<lambda>fb. be_inc fb (rd_fwall r) key amount ws) (next_call st))"

definition limiter_adjust_gauge ::
    "('p, 'f) limiter_cfg \<Rightarrow> env \<Rightarrow> pystr \<Rightarrow> int \<Rightarrow> ('p, 'f) limiter \<Rightarrow>
     int option \<times> ('p, 'f) limiter" where
  "limiter_adjust_gauge cfg env key delta st =
     (let r = env (li_calls st) in
      degrade_path cfg (rd_mono r)
        (be_gauge (lc_primary cfg) key delta) (\<lambda>fb. be_gauge fb key delta) (next_call st))"

definition resolve_model_limits :: "('p, 'f) limiter_cfg \<Rightarrow> pystr \<Rightarrow> int \<times> int \<times> int" where
  "resolve_model_limits cfg model =
     (case match_model_limits (lc_models cfg) model of
        None \<Rightarrow> (lc_model_rpm cfg, lc_model_tpm cfg, 0)
      | Some e \<Rightarrow> (num_or (me_rpm e) 0, num_or (me_tpm e) 0, num_or (me_max_in_flight e) 0))"

section \<open>The request check\<close>

record limit_request =
  rq_key_id :: pystr
  rq_model :: pystr
  rq_tokens :: int
  rq_rpm :: "int option"
  rq_tpm :: "int option"
  rq_model_rpm :: "int option"
  rq_model_tpm :: "int option"
  rq_team_id :: "pystr option"
  rq_team_rpm :: "int option"
  rq_team_tpm :: "int option"
  rq_rpd :: "int option"
  rq_team_rpd :: "int option"
  rq_tpd :: "int option"
  rq_team_tpd :: "int option"
  rq_family :: "pystr option"
  rq_family_rpm :: "int option"
  rq_family_tpm :: "int option"
  rq_user_id :: "pystr option"
  rq_user_rpd :: "int option"
  rq_user_tpd :: "int option"

text \<open>One ceiling: counter key, scope, bucket, amount, limit, window seconds.\<close>

record ceiling =
  ce_key :: pystr
  ce_scope :: pystr
  ce_bucket :: pystr
  ce_amount :: int
  ce_limit :: int
  ce_window :: int

definition int_or_zero :: "int option \<Rightarrow> int" where
  "int_or_zero x = (case x of None \<Rightarrow> 0 | Some v \<Rightarrow> v)"

definition given :: "bool \<Rightarrow> 'a \<Rightarrow> 'a list" where
  "given b x = (if b then [x] else [])"

definition ceiling_list :: "('p, 'f) limiter_cfg \<Rightarrow> limit_request \<Rightarrow> ceiling list" where
  "ceiling_list cfg rq =
     (let key_id = rq_key_id rq; model = rq_model rq; tokens = rq_tokens rq;
          key_rpm = (case rq_rpm rq of None \<Rightarrow> lc_default_rpm cfg | Some v \<Rightarrow> v);
          key_tpm = (case rq_tpm rq of None \<Rightarrow> lc_default_tpm cfg | Some v \<Rightarrow> v);
          (map_rpm, map_tpm, map_mif) = resolve_model_limits cfg model;
          per_model_rpm0 = (case rq_model_rpm rq of
              None \<Rightarrow> (if map_rpm > 0 then map_rpm else lc_model_rpm cfg) | Some v \<Rightarrow> v);
          per_model_tpm0 = (case rq_model_tpm rq of
              None \<Rightarrow> (if map_tpm > 0 then map_tpm else lc_model_tpm cfg) | Some v \<Rightarrow> v);
          per_model_rpm = (if per_model_rpm0 \<le> 0 then key_rpm else per_model_rpm0);
          per_model_tpm = (if per_model_tpm0 \<le> 0 then key_tpm else per_model_tpm0);
          team_id = str_or (rq_team_id rq) '''';
          team_rpm = int_or_zero (rq_team_rpm rq); team_tpm = int_or_zero (rq_team_tpm rq);
          key_rpd = int_or_zero (rq_rpd rq); team_rpd = int_or_zero (rq_team_rpd rq);
          key_tpd = int_or_zero (rq_tpd rq); team_tpd = int_or_zero (rq_team_tpd rq);
          fam = py_lower (py_strip (str_or (rq_family rq) ''''));
          fam_rpm = max 0 (int_or_zero (rq_family_rpm rq));
          fam_tpm = max 0 (int_or_zero (rq_family_tpm rq));
          token_amount = max 0 tokens;
          named_user = py_strip (str_or (rq_user_id rq) '''');
          user_rpd = max 0 (int_or_zero (rq_user_rpd rq));
          user_tpd = max 0 (int_or_zero (rq_user_tpd rq))
      in given (key_rpm > 0)
           (\<lparr>ce_key = ''rpm:'' @ key_id, ce_scope = ''rpm'', ce_bucket = ''key'',
             ce_amount = 1, ce_limit = key_rpm, ce_window = WINDOW_SECONDS\<rparr>)
       @ given (fam \<noteq> '''' \<and> fam_rpm > 0)
           (\<lparr>ce_key = ''rpm:'' @ key_id @ '':family:'' @ fam, ce_scope = ''rpm'',
             ce_bucket = ''family:'' @ fam, ce_amount = 1, ce_limit = fam_rpm,
             ce_window = WINDOW_SECONDS\<rparr>)
       @ given (per_model_rpm > 0)
           (\<lparr>ce_key = ''rpm:'' @ key_id @ '':'' @ model, ce_scope = ''rpm'', ce_bucket = ''model'',
             ce_amount = 1, ce_limit = per_model_rpm, ce_window = WINDOW_SECONDS\<rparr>)
       @ given (key_tpm > 0)
           (\<lparr>ce_key = ''tpm:'' @ key_id, ce_scope = ''tpm'', ce_bucket = ''key'',
             ce_amount = max 1 tokens, ce_limit = key_tpm, ce_window = WINDOW_SECONDS\<rparr>)
       @ given (fam \<noteq> '''' \<and> fam_tpm > 0)
           (\<lparr>ce_key = ''tpm:'' @ key_id @ '':family:'' @ fam, ce_scope = ''tpm'',
             ce_bucket = ''family:'' @ fam, ce_amount = max 1 tokens, ce_limit = fam_tpm,
             ce_window = WINDOW_SECONDS\<rparr>)
       @ given (per_model_tpm > 0)
           (\<lparr>ce_key = ''tpm:'' @ key_id @ '':'' @ model, ce_scope = ''tpm'', ce_bucket = ''model'',
             ce_amount = max 1 tokens, ce_limit = per_model_tpm, ce_window = WINDOW_SECONDS\<rparr>)
       @ given (team_id \<noteq> '''' \<and> team_rpm > 0)
           (\<lparr>ce_key = ''rpm:team:'' @ team_id, ce_scope = ''rpm'', ce_bucket = ''team'',
             ce_amount = 1, ce_limit = team_rpm, ce_window = WINDOW_SECONDS\<rparr>)
       @ given (team_id \<noteq> '''' \<and> team_tpm > 0)
           (\<lparr>ce_key = ''tpm:team:'' @ team_id, ce_scope = ''tpm'', ce_bucket = ''team'',
             ce_amount = max 1 tokens, ce_limit = team_tpm, ce_window = WINDOW_SECONDS\<rparr>)
       @ given (key_rpd > 0)
           (\<lparr>ce_key = ''rpd:'' @ key_id, ce_scope = ''rpd'', ce_bucket = ''key'',
             ce_amount = 1, ce_limit = key_rpd, ce_window = DAY_SECONDS\<rparr>)
       @ given (team_id \<noteq> '''' \<and> team_rpd > 0)
           (\<lparr>ce_key = ''rpd:team:'' @ team_id, ce_scope = ''rpd'', ce_bucket = ''team'',
             ce_amount = 1, ce_limit = team_rpd, ce_window = DAY_SECONDS\<rparr>)
       @ given (key_tpd > 0)
           (\<lparr>ce_key = ''tpd:'' @ key_id, ce_scope = ''tpd'', ce_bucket = ''key'',
             ce_amount = token_amount, ce_limit = key_tpd, ce_window = DAY_SECONDS\<rparr>)
       @ given (team_id \<noteq> '''' \<and> team_tpd > 0)
           (\<lparr>ce_key = ''tpd:team:'' @ team_id, ce_scope = ''tpd'', ce_bucket = ''team'',
             ce_amount = token_amount, ce_limit = team_tpd, ce_window = DAY_SECONDS\<rparr>)
       @ given (named_user \<noteq> '''' \<and> user_rpd > 0)
           (\<lparr>ce_key = ''rpd:'' @ key_id @ '':user:'' @ named_user, ce_scope = ''rpd'',
             ce_bucket = ''user'', ce_amount = 1, ce_limit = user_rpd, ce_window = DAY_SECONDS\<rparr>)
       @ given (named_user \<noteq> '''' \<and> user_tpd > 0)
           (\<lparr>ce_key = ''tpd:'' @ key_id @ '':user:'' @ named_user, ce_scope = ''tpd'',
             ce_bucket = ''user'', ce_amount = token_amount, ce_limit = user_tpd,
             ce_window = DAY_SECONDS\<rparr>))"

text \<open>The decision a ceiling gives for the count that came back.\<close>

definition ceiling_decision ::
    "('p, 'f) limiter_cfg \<Rightarrow> pyfloat \<Rightarrow> ceiling \<Rightarrow> int \<Rightarrow> pystr \<Rightarrow> decision" where
  "ceiling_decision cfg now c count be =
     (let window_reset = (window_of now (ce_window c) + 1) * ce_window c;
          denied = count > ce_limit c
      in \<lparr>d_allowed = (\<not> denied), d_limit = ce_limit c,
          d_remaining = max 0 (ce_limit c - count), d_reset = window_reset,
          d_retry_after = (if \<not> denied then None
             else if ce_scope c \<in> {''rpd'', ''tpd''} then Some (max 1 \<lfloor>of_int window_reset - now\<rfloor>)
             else Some (lc_retry_after cfg)),
          d_scope = ce_scope c, d_backend = be, d_bucket = ce_bucket c\<rparr>)"

definition pick_tighter :: "decision \<Rightarrow> decision \<Rightarrow> decision" where
  "pick_tighter d tightest =
     (if d_limit tightest \<le> 0 \<or> d_remaining d < d_remaining tightest \<or> \<not> d_allowed d
      then d else tightest)"

text \<open>\<open>None\<close> is the exception of a backend with nothing left to fall back on.\<close>

fun check_loop ::
    "('p, 'f) limiter_cfg \<Rightarrow> env \<Rightarrow> pyfloat \<Rightarrow> ceiling list \<Rightarrow> decision \<Rightarrow> ('p, 'f) limiter \<Rightarrow>
     decision option \<times> ('p, 'f) limiter" where
  "check_loop cfg env now [] tightest st = (Some tightest, st)"
| "check_loop cfg env now (c # cs) tightest st =
     (case limiter_increment cfg env (ce_key c) (ce_amount c) (ce_window c) st of
        (None, st1) \<Rightarrow> (None, st1)
      | (Some count, st1) \<Rightarrow>
          (let d = ceiling_decision cfg now c count (backend_name cfg st1) in
           if \<not> d_allowed d then (Some d, st1)
           else check_loop cfg env now cs (pick_tighter d tightest) st1))"

definition open_decision :: "int \<Rightarrow> pystr \<Rightarrow> decision" where
  "open_decision reset be = \<lparr>d_allowed = True, d_limit = 0, d_remaining = 0, d_reset = reset,
     d_retry_after = None, d_scope = '''', d_backend = be, d_bucket = ''''\<rparr>"

definition limiter_check ::
    "('p, 'f) limiter_cfg \<Rightarrow> env \<Rightarrow> pyfloat \<Rightarrow> limit_request \<Rightarrow> ('p, 'f) limiter \<Rightarrow>
     decision option \<times> ('p, 'f) limiter" where
  "limiter_check cfg env now rq st =
     (let reset = (window_of now WINDOW_SECONDS + 1) * WINDOW_SECONDS in
      check_loop cfg env now (ceiling_list cfg rq)
        (open_decision reset (backend_name cfg st)) st)"

definition mcp_ceilings :: "pystr \<Rightarrow> int \<Rightarrow> int \<Rightarrow> int \<Rightarrow> ceiling list" where
  "mcp_ceilings sid tokens rpm tpm =
     (let bucket = ''mcp_server:'' @ sid in
      given (rpm > 0)
        (\<lparr>ce_key = ''rpm:mcp_server:'' @ sid, ce_scope = ''rpm'', ce_bucket = bucket,
          ce_amount = 1, ce_limit = rpm, ce_window = WINDOW_SECONDS\<rparr>)
      @ given (tpm > 0)
        (\<lparr>ce_key = ''tpm:mcp_server:'' @ sid, ce_scope = ''tpm'', ce_bucket = bucket,
          ce_amount = max 1 tokens, ce_limit = tpm, ce_window = WINDOW_SECONDS\<rparr>))"

text \<open>
  Its loop is the one of \<open>check\<close>: every ceiling has the minute window, so \<open>window_reset\<close> is
  \<open>reset\<close>, and no scope is a day scope.
\<close>

definition check_mcp_server ::
    "('p, 'f) limiter_cfg \<Rightarrow> env \<Rightarrow> pyfloat \<Rightarrow> pystr option \<Rightarrow> int \<Rightarrow> int option \<Rightarrow> int option \<Rightarrow>
     ('p, 'f) limiter \<Rightarrow> decision option \<times> ('p, 'f) limiter" where
  "check_mcp_server cfg env now server_id tokens rpm tpm st =
     (let sid = py_strip (str_or server_id '''');
          server_rpm = max 0 (num_or rpm 0);
          server_tpm = max 0 (num_or tpm 0);
          reset = (window_of now WINDOW_SECONDS + 1) * WINDOW_SECONDS;
          tightest = open_decision reset (backend_name cfg st)
      in if sid = '''' \<or> (server_rpm \<le> 0 \<and> server_tpm \<le> 0) then (Some tightest, st)
         else check_loop cfg env now (mcp_ceilings sid tokens server_rpm server_tpm) tightest st)"

section \<open>Scoped in-flight gauges\<close>

definition gauge_decision ::
    "('p, 'f) limiter_cfg \<Rightarrow> pyfloat \<Rightarrow> bool \<Rightarrow> int \<Rightarrow> int \<Rightarrow> int option \<Rightarrow> pystr \<Rightarrow> pystr \<Rightarrow> decision" where
  "gauge_decision cfg now allowed limit remaining retry bucket be =
     \<lparr>d_allowed = allowed, d_limit = limit, d_remaining = remaining,
      d_reset = \<lfloor>now\<rfloor> + lc_retry_after cfg, d_retry_after = retry, d_scope = ''concurrency'',
      d_backend = be, d_bucket = bucket\<rparr>"

fun release_gauges ::
    "('p, 'f) limiter_cfg \<Rightarrow> env \<Rightarrow> pystr list \<Rightarrow> ('p, 'f) limiter \<Rightarrow> unit option \<times> ('p, 'f) limiter" where
  "release_gauges cfg env [] st = (Some (), st)"
| "release_gauges cfg env (k # ks) st =
     (case limiter_adjust_gauge cfg env k (-1) st of
        (None, st1) \<Rightarrow> (None, st1)
      | (Some v, st1) \<Rightarrow> release_gauges cfg env ks st1)"

text \<open>
  A lease is \<open>(gauge_key, limit, bucket)\<close>. On an overflow the lease itself and then every held
  one is handed back, in order, which is the loop of \<open>release_gauges\<close>.
\<close>

fun acquire_loop ::
    "('p, 'f) limiter_cfg \<Rightarrow> env \<Rightarrow> (pystr \<times> int \<times> pystr) list \<Rightarrow> pystr list \<Rightarrow> decision \<Rightarrow>
     ('p, 'f) limiter \<Rightarrow> (decision \<times> pystr list) option \<times> ('p, 'f) limiter" where
  "acquire_loop cfg env [] held tightest st = (Some (tightest, held), st)"
| "acquire_loop cfg env ((key, cap, bucket) # leases) held tightest st =
     (if cap \<le> 0 then acquire_loop cfg env leases held tightest st
      else (case limiter_adjust_gauge cfg env key 1 st of
          (None, st1) \<Rightarrow> (None, st1)
        | (Some count, st1) \<Rightarrow>
            (if count > cap then
               (case release_gauges cfg env (key # held) st1 of
                  (None, st2) \<Rightarrow> (None, st2)
                | (Some u, st2) \<Rightarrow>
                    (Some (gauge_decision cfg (rd_now (env (li_calls st2))) False cap 0
                       (Some (lc_retry_after cfg)) bucket (backend_name cfg st2), []), st2))
             else
               (let remaining = max 0 (cap - count);
                    d = gauge_decision cfg (rd_now (env (li_calls st1))) True cap remaining None
                          bucket (backend_name cfg st1)
                in acquire_loop cfg env leases (held @ [key])
                     (if d_limit tightest \<le> 0 \<or> remaining < d_remaining tightest
                      then d else tightest) st1))))"

definition try_acquire_gauges ::
    "('p, 'f) limiter_cfg \<Rightarrow> env \<Rightarrow> (pystr \<times> int option \<times> pystr) list \<Rightarrow> ('p, 'f) limiter \<Rightarrow>
     (decision \<times> pystr list) option \<times> ('p, 'f) limiter" where
  "try_acquire_gauges cfg env leases st =
     acquire_loop cfg env (map (\<lambda>(k, l, b). (k, num_or l 0, b)) leases) []
       (gauge_decision cfg (rd_now (env (li_calls st))) True 0 0 None '''' (backend_name cfg st)) st"

section \<open>Scrapes\<close>

record limit_owner =
  ow_id :: pystr
  ow_name :: pystr
  ow_rpm :: "int option"
  ow_tpm :: "int option"
  ow_rpd :: "int option"
  ow_tpd :: "int option"
  ow_max_in_flight :: "int option"

text \<open>A row of a scrape: label, kind (or scope), limit, used as read, remaining.\<close>

record gauge_row =
  gr_label :: pystr
  gr_kind :: pystr
  gr_limit :: int
  gr_used :: int
  gr_remaining :: int

fun scrape_counters ::
    "('p, 'f) limiter_cfg \<Rightarrow> env \<Rightarrow> (pystr \<times> int \<times> pystr \<times> pystr \<times> int) list \<Rightarrow> ('p, 'f) limiter \<Rightarrow>
     gauge_row list option \<times> ('p, 'f) limiter" where
  "scrape_counters cfg env [] st = (Some [], st)"
| "scrape_counters cfg env ((key, ws, label, kind, limit) # ps) st =
     (case limiter_increment cfg env key 0 ws st of
        (None, st1) \<Rightarrow> (None, st1)
      | (Some used, st1) \<Rightarrow>
          (case scrape_counters cfg env ps st1 of
             (None, st2) \<Rightarrow> (None, st2)
           | (Some rows, st2) \<Rightarrow>
               (Some (\<lparr>gr_label = label, gr_kind = kind, gr_limit = limit, gr_used = used,
                       gr_remaining = max 0 (limit - used)\<rparr> # rows), st2)))"

definition team_probes :: "limit_owner \<Rightarrow> (pystr \<times> int \<times> pystr \<times> pystr \<times> int) list" where
  "team_probes t =
     (let tid = ow_id t;
          name = (if ow_name t \<noteq> '''' then ow_name t else if tid \<noteq> '''' then tid else ''unknown'')
      in if tid = '''' then []
         else given (num_or (ow_rpm t) 0 > 0)
                (''rpm:team:'' @ tid, WINDOW_SECONDS, name, ''rpm'', num_or (ow_rpm t) 0)
            @ given (num_or (ow_tpm t) 0 > 0)
                (''tpm:team:'' @ tid, WINDOW_SECONDS, name, ''tpm'', num_or (ow_tpm t) 0)
            @ given (num_or (ow_rpd t) 0 > 0)
                (''rpd:team:'' @ tid, DAY_SECONDS, name, ''rpd'', num_or (ow_rpd t) 0)
            @ given (num_or (ow_tpd t) 0 > 0)
                (''tpd:team:'' @ tid, DAY_SECONDS, name, ''tpd'', num_or (ow_tpd t) 0))"

definition team_rate_gauges where
  "team_rate_gauges cfg env teams st = scrape_counters cfg env (concat (map team_probes teams)) st"

definition owner_label :: "limit_owner \<Rightarrow> pystr" where
  "owner_label k = (if py_strip (ow_name k) \<noteq> '''' then py_strip (ow_name k) else ow_id k)"

definition key_probes :: "limit_owner \<Rightarrow> (pystr \<times> int \<times> pystr \<times> pystr \<times> int) list" where
  "key_probes k =
     (if ow_id k = '''' then []
      else given (num_or (ow_rpd k) 0 > 0)
             (''rpd:'' @ ow_id k, DAY_SECONDS, owner_label k, ''rpd'', num_or (ow_rpd k) 0)
         @ given (num_or (ow_tpd k) 0 > 0)
             (''tpd:'' @ ow_id k, DAY_SECONDS, owner_label k, ''tpd'', num_or (ow_tpd k) 0))"

definition key_rate_gauges where
  "key_rate_gauges cfg env keys st = scrape_counters cfg env (concat (map key_probes keys)) st"

fun scrape_gauges ::
    "('p, 'f) limiter_cfg \<Rightarrow> env \<Rightarrow> (pystr \<times> pystr \<times> pystr \<times> int) list \<Rightarrow> ('p, 'f) limiter \<Rightarrow>
     gauge_row list option \<times> ('p, 'f) limiter" where
  "scrape_gauges cfg env [] st = (Some [], st)"
| "scrape_gauges cfg env ((key, scope, label, cap) # ps) st =
     (case limiter_adjust_gauge cfg env key 0 st of
        (None, st1) \<Rightarrow> (None, st1)
      | (Some used, st1) \<Rightarrow>
          (case scrape_gauges cfg env ps st1 of
             (None, st2) \<Rightarrow> (None, st2)
           | (Some rows, st2) \<Rightarrow>
               (Some (\<lparr>gr_label = label, gr_kind = scope, gr_limit = cap, gr_used = used,
                       gr_remaining = max 0 (cap - used)\<rparr> # rows), st2)))"

definition owner_gauge :: "pystr \<Rightarrow> limit_owner \<Rightarrow> (pystr \<times> pystr \<times> pystr \<times> int) list" where
  "owner_gauge scope k =
     (let cap = num_or (ow_max_in_flight k) 0 in
      given (\<not> (cap \<le> 0 \<or> ow_id k = ''''))
        (''inflight:'' @ scope @ '':'' @ ow_id k, scope, owner_label k, cap))"

definition model_gauge :: "pystr \<times> model_entry \<Rightarrow> (pystr \<times> pystr \<times> pystr \<times> int) list" where
  "model_gauge m =
     (let mid = py_strip (fst m); cap = num_or (me_max_in_flight (snd m)) 0 in
      given (\<not> (mid = '''' \<or> cap \<le> 0)) (''inflight:model:'' @ mid, ''model'', mid, cap))"

definition in_flight_gauges where
  "in_flight_gauges cfg env keys teams models st =
     scrape_gauges cfg env (concat (map (owner_gauge ''key'') keys)
       @ concat (map (owner_gauge ''team'') teams) @ concat (map model_gauge models)) st"

section \<open>Reading the request\<close>

text \<open>
  \<open>input\<close> is a string, something else, or missing; \<open>repr_len\<close> of a list is \<open>len(str(x))\<close>. A
  message that is a dict carries the length of \<open>str(content or "")\<close>.
\<close>

datatype input_field = InputText pystr | InputList nat | InputOther

definition estimate_request_tokens :: "(input_field \<times> nat option list) option \<Rightarrow> int" where
  "estimate_request_tokens payload =
     (case payload of None \<Rightarrow> 1
      | Some (incoming, messages) \<Rightarrow>
          (let chars = (case incoming of InputText t \<Rightarrow> int (length t)
                         | InputList n \<Rightarrow> int n | InputOther \<Rightarrow> 0)
                       + sum_list (map (\<lambda>m. case m of None \<Rightarrow> 0 | Some n \<Rightarrow> int n) messages)
           in max 1 (chars div 4)))"

definition request_model :: "pystr option \<Rightarrow> pystr" where
  "request_model m = (case m of None \<Rightarrow> ''daari''
     | Some t \<Rightarrow> (if py_strip t \<noteq> '''' then py_strip t else ''daari''))"

definition upper_char :: "char \<Rightarrow> char" where
  "upper_char c = (let n = (of_char c :: nat) in if 97 \<le> n \<and> n \<le> 122 then char_of (n - 32) else c)"

definition should_buffer_body :: "pystr \<Rightarrow> bool" where
  "should_buffer_body m = (map upper_char m \<notin> {''GET'', ''HEAD'', ''OPTIONS''})"

section \<open>A limiter on a backend that answers\<close>

text \<open>Every clock read of the calls falls in window \<open>win ws\<close>: the requests of one minute.\<close>

definition steady :: "env \<Rightarrow> (int \<Rightarrow> int) \<Rightarrow> bool" where
  "steady env win = (\<forall>n. 0 \<le> rd_wall (env n) \<and>
     (\<forall>ws \<in> {WINDOW_SECONDS, DAY_SECONDS}. window_of (rd_wall (env n)) ws = win ws))"

lemma given_iff [simp]: "x \<in> set (given b y) \<longleftrightarrow> b \<and> x = y"
  by (auto simp: given_def)

lemma ceiling_windows:
  "c \<in> set (ceiling_list cfg rq) \<Longrightarrow> ce_window c \<in> {WINDOW_SECONDS, DAY_SECONDS}"
  "c \<in> set (ceiling_list cfg rq) \<Longrightarrow> 0 \<le> ce_amount c"
  "c \<in> set (ceiling_list cfg rq) \<Longrightarrow> 0 < ce_limit c"
  unfolding ceiling_list_def Let_def case_prod_unfold by auto

lemma next_call_simps [simp]:
  "li_primary (next_call st) = li_primary st" "li_degraded (next_call st) = li_degraded st"
  "li_fallback (next_call st) = li_fallback st" "li_backend (next_call st) = li_backend st"
  "li_logged (next_call st) = li_logged st" "li_events (next_call st) = li_events st"
  by (simp_all add: next_call_def)

lemma ceiling_decision_allowed [simp]:
  "d_allowed (ceiling_decision cfg now c n be) = (n \<le> ce_limit c)"
  by (simp add: ceiling_decision_def Let_def not_less)

lemma pick_tighter_allowed: "d_allowed t \<Longrightarrow> d_allowed d \<Longrightarrow> d_allowed (pick_tighter d t)"
  by (simp add: pick_tighter_def)

text \<open>
  A ceiling fits when its counter, read as \<open>cnt\<close>, has room for the amount; the ceilings charged
  are those up to and including the first that does not fit.
\<close>

definition fits :: "('s \<Rightarrow> pystr \<Rightarrow> int \<Rightarrow> int) \<Rightarrow> (int \<Rightarrow> int) \<Rightarrow> 's \<Rightarrow> ceiling \<Rightarrow> bool" where
  "fits cnt win p c = (cnt p (ce_key c) (win (ce_window c)) + ce_amount c \<le> ce_limit c)"

definition charged ::
    "('s \<Rightarrow> pystr \<Rightarrow> int \<Rightarrow> int) \<Rightarrow> (int \<Rightarrow> int) \<Rightarrow> 's \<Rightarrow> ceiling list \<Rightarrow> ceiling list" where
  "charged cnt win p cs = take (Suc (length (takeWhile (fits cnt win p) cs))) cs"

lemma charged_Cons:
  "charged cnt win p (c # cs) = (if fits cnt win p c then c # charged cnt win p cs else [c])"
  by (simp add: charged_def)

locale healthy_primary = counter_backend inc gauge count level ok
  for inc :: "pyfloat \<Rightarrow> pystr \<Rightarrow> int \<Rightarrow> int \<Rightarrow> 's \<Rightarrow> int \<times> 's"
    and gauge :: "pystr \<Rightarrow> int \<Rightarrow> 's \<Rightarrow> int \<times> 's"
    and count :: "'s \<Rightarrow> pystr \<Rightarrow> int \<Rightarrow> int"
    and level :: "'s \<Rightarrow> pystr \<Rightarrow> int"
    and ok :: "'s \<Rightarrow> bool" +
  fixes cfg :: "('s, 'f) limiter_cfg"
  assumes inc_answers: "be_inc (lc_primary cfg) w k a ws s
        = (Some (fst (inc w k a ws s)), snd (inc w k a ws s))"
    and gauge_answers: "be_gauge (lc_primary cfg) k d s = (Some (fst (gauge k d s)), snd (gauge k d s))"
begin

lemma increment_step:
  assumes "\<not> li_degraded st"
  shows "limiter_increment cfg env k a ws st =
    (Some (fst (inc (rd_wall (env (li_calls st))) k a ws (li_primary st))),
     (next_call st)\<lparr>li_primary := snd (inc (rd_wall (env (li_calls st))) k a ws (li_primary st))\<rparr>)"
  using assms by (simp add: limiter_increment_def degrade_path_def Let_def inc_answers)

lemma gauge_step:
  assumes "\<not> li_degraded st"
  shows "limiter_adjust_gauge cfg env k d st =
    (Some (fst (gauge k d (li_primary st))),
     (next_call st)\<lparr>li_primary := snd (gauge k d (li_primary st))\<rparr>)"
  using assms by (simp add: limiter_adjust_gauge_def degrade_path_def Let_def gauge_answers)

lemma fits_cong:
  "count p (ce_key c) (win (ce_window c)) = count q (ce_key c) (win (ce_window c)) \<Longrightarrow>
    fits count win p c = fits count win q c"
  by (simp add: fits_def)

lemma loop_outcome:
  assumes "steady env win" "\<not> li_degraded st" "ok (li_primary st)" "distinct (map ce_key cs)"
    and "\<And>c. c \<in> set cs \<Longrightarrow> ce_window c \<in> {WINDOW_SECONDS, DAY_SECONDS}" "d_allowed t"
  shows "\<exists>d st'. check_loop cfg env now cs t st = (Some d, st') \<and> \<not> li_degraded st'
    \<and> ok (li_primary st') \<and> level (li_primary st') = level (li_primary st)
    \<and> (d_allowed d \<longleftrightarrow> (\<forall>c \<in> set cs. fits count win (li_primary st) c))
    \<and> (\<forall>c \<in> set (charged count win (li_primary st) cs).
          count (li_primary st') (ce_key c) (win (ce_window c))
            = count (li_primary st) (ce_key c) (win (ce_window c)) + ce_amount c)
    \<and> (\<forall>k w. k \<notin> ce_key ` set (charged count win (li_primary st) cs) \<longrightarrow>
          count (li_primary st') k w = count (li_primary st) k w)"
  using assms(2-)
proof (induction cs arbitrary: st t)
  case Nil
  then show ?case by (simp add: charged_def)
next
  case (Cons c cs)
  let ?p = "li_primary st" and ?wall = "rd_wall (env (li_calls st))"
  let ?st1 = "(next_call st)\<lparr>li_primary := snd (inc ?wall (ce_key c) (ce_amount c) (ce_window c) ?p)\<rparr>"
  have win: "window_of ?wall (ce_window c) = win (ce_window c)" and wall: "0 \<le> ?wall"
    and ws: "0 < ce_window c"
    using assms(1) Cons.prems(4) [of c] by (auto simp: steady_def WINDOW_SECONDS_def DAY_SECONDS_def)
  have n: "fst (inc ?wall (ce_key c) (ce_amount c) (ce_window c) ?p)
      = count ?p (ce_key c) (win (ce_window c)) + ce_amount c"
    using inc_result [OF Cons.prems(2) wall ws] by (simp add: win)
  have c1: "count (li_primary ?st1) (ce_key c) (win (ce_window c))
      = count ?p (ce_key c) (win (ce_window c)) + ce_amount c"
    using inc_count [OF Cons.prems(2) wall ws, of "ce_key c" "ce_amount c"] by (simp add: win)
  have o1: "\<And>k w. k \<noteq> ce_key c \<Longrightarrow> count (li_primary ?st1) k w = count ?p k w"
    using inc_other [OF Cons.prems(2) wall ws] by simp
  have ok1: "ok (li_primary ?st1)" and lv1: "level (li_primary ?st1) = level ?p"
    using inc_ok [OF Cons.prems(2) wall ws] inc_level [OF Cons.prems(2) wall ws] by simp_all
  show ?case
  proof (cases "fits count win ?p c")
    case False
    then show ?thesis using c1 o1 ok1 lv1 Cons.prems(1) n
      by (simp add: increment_step Let_def charged_Cons) (auto simp: fits_def)
  next
    case True
    have other: "\<And>x. x \<in> set cs \<Longrightarrow> count (li_primary ?st1) (ce_key x) w = count ?p (ce_key x) w" for w
      using o1 Cons.prems(3) by (metis distinct.simps(2) imageI image_set list.simps(9))
    have fits1: "fits count win (li_primary ?st1) x = fits count win ?p x" if "x \<in> set cs" for x
      using that other by (intro fits_cong) auto
    then have ch1: "charged count win (li_primary ?st1) cs = charged count win ?p cs"
      unfolding charged_def by (metis takeWhile_cong)
    have sub: "ce_key ` set (charged count win ?p cs) \<subseteq> ce_key ` set cs"
      by (auto simp: charged_def dest: in_set_takeD)
    have al: "d_allowed (pick_tighter (ceiling_decision cfg now c
        (count ?p (ce_key c) (win (ce_window c)) + ce_amount c) (backend_name cfg ?st1)) t)"
      using True Cons.prems(5) by (intro pick_tighter_allowed) (auto simp: fits_def)
    obtain d st' where d: "check_loop cfg env now cs (pick_tighter (ceiling_decision cfg now c
        (count ?p (ce_key c) (win (ce_window c)) + ce_amount c) (backend_name cfg ?st1)) t) ?st1
        = (Some d, st')" "\<not> li_degraded st'" "ok (li_primary st')"
      "level (li_primary st') = level (li_primary ?st1)"
      "d_allowed d \<longleftrightarrow> (\<forall>c \<in> set cs. fits count win (li_primary ?st1) c)"
      "\<forall>c \<in> set (charged count win (li_primary ?st1) cs).
          count (li_primary st') (ce_key c) (win (ce_window c))
            = count (li_primary ?st1) (ce_key c) (win (ce_window c)) + ce_amount c"
      "\<forall>k w. k \<notin> ce_key ` set (charged count win (li_primary ?st1) cs) \<longrightarrow>
          count (li_primary st') k w = count (li_primary ?st1) k w"
      using Cons.IH [of ?st1, OF _ ok1 _ _ al] Cons.prems by auto
    have nin: "ce_key c \<notin> ce_key ` set (charged count win ?p cs)" using sub Cons.prems(3) by auto
    have ch: "\<forall>x \<in> set (charged count win ?p (c # cs)).
          count (li_primary st') (ce_key x) (win (ce_window x))
            = count ?p (ce_key x) (win (ce_window x)) + ce_amount x"
      using True d(6,7) nin c1 other unfolding charged_Cons ch1
      by (auto simp: charged_def dest: in_set_takeD)
    have oth: "\<forall>k w. k \<notin> ce_key ` set (charged count win ?p (c # cs)) \<longrightarrow>
          count (li_primary st') k w = count ?p k w"
      using True d(7) o1 unfolding charged_Cons ch1 by auto
    have run: "check_loop cfg env now (c # cs) t st = (Some d, st')"
      using d(1) True Cons.prems(1) n by (simp add: increment_step Let_def fits_def)
    have dec: "d_allowed d \<longleftrightarrow> (\<forall>x \<in> set (c # cs). fits count win ?p x)"
      using d(5) True fits1 by simp
    have lvl: "level (li_primary st') = level ?p" using d(4) lv1 by (rule trans)
    show ?thesis
      using run d(2,3) lvl dec ch oth by blast
  qed
qed

lemma release_restores:
  assumes "\<not> li_degraded st" "ok (li_primary st)" "\<And>k. 0 \<le> L k"
    "\<And>k. level (li_primary st) k = L k + int (count_list ks k)"
  shows "\<exists>st'. release_gauges cfg env ks st = (Some (), st') \<and> \<not> li_degraded st'
    \<and> ok (li_primary st') \<and> level (li_primary st') = L"
  using assms
proof (induction ks arbitrary: st)
  case Nil
  then show ?case by (auto simp: fun_eq_iff)
next
  case (Cons k ks)
  let ?st1 = "(next_call st)\<lparr>li_primary := snd (gauge k (-1) (li_primary st))\<rparr>"
  have "level (li_primary ?st1) j = L j + int (count_list ks j)" for j
    using Cons.prems(3) [of j] Cons.prems(4) [of j] Cons.prems(4) [of k] Cons.prems(3) [of k]
    by (auto simp: gauge_level [OF Cons.prems(2)])
  then show ?case using Cons.prems
    by (simp add: gauge_step) (rule Cons.IH, simp_all add: gauge_ok)
qed

lemma acquire_outcome:
  assumes "\<not> li_degraded st" "ok (li_primary st)" "\<And>k. 0 \<le> L k" "d_allowed t"
    "\<And>k. level (li_primary st) k = L k + int (count_list held k)"
    "distinct (held @ map fst (filter (\<lambda>(k, c, b). 0 < c) ls))"
  shows "\<exists>d h st'. acquire_loop cfg env ls held t st = (Some (d, h), st') \<and> \<not> li_degraded st'
    \<and> ok (li_primary st')
    \<and> (d_allowed d \<longleftrightarrow> (\<forall>(k, c, b) \<in> set ls. 0 < c \<longrightarrow> L k + 1 \<le> c))
    \<and> h = (if d_allowed d then held @ map fst (filter (\<lambda>(k, c, b). 0 < c) ls) else [])
    \<and> (\<forall>k. level (li_primary st') k = L k + int (count_list h k))"
  using assms
proof (induction ls arbitrary: st held t)
  case Nil
  then show ?case by simp
next
  case (Cons l ls)
  obtain k c b where l: "l = (k, c, b)" by (cases l) auto
  let ?p = "li_primary st"
  let ?st1 = "(next_call st)\<lparr>li_primary := snd (gauge k 1 ?p)\<rparr>"
  show ?case
  proof (cases "c \<le> 0")
    case True
    then have dist: "distinct (held @ map fst (filter (\<lambda>(k, c, b). 0 < c) ls))"
      using Cons.prems(6) by (simp add: l)
    obtain d h st' where "acquire_loop cfg env ls held t st = (Some (d, h), st')"
      "\<not> li_degraded st'" "ok (li_primary st')"
      "d_allowed d \<longleftrightarrow> (\<forall>(k, c, b) \<in> set ls. 0 < c \<longrightarrow> L k + 1 \<le> c)"
      "h = (if d_allowed d then held @ map fst (filter (\<lambda>(k, c, b). 0 < c) ls) else [])"
      "\<forall>k. level (li_primary st') k = L k + int (count_list h k)"
      using Cons.IH [OF Cons.prems(1-5) dist] by blast
    then show ?thesis using True
      by (intro exI [of _ d] exI [of _ h] exI [of _ st']) (simp add: l)
  next
    case False
    have k0: "count_list held k = 0" using Cons.prems(6) False by (simp add: l count_list_0_iff)
    have n: "fst (gauge k 1 ?p) = L k + 1"
      using gauge_result [OF Cons.prems(2), of k 1] Cons.prems(3) [of k] Cons.prems(5) [of k] k0
      by simp
    have lv: "level (li_primary ?st1) j = L j + int (count_list (k # held) j)" for j
      using gauge_level [OF Cons.prems(2), of k 1] Cons.prems(3) [of k] Cons.prems(5) k0 by simp
    have ok1: "ok (li_primary ?st1)" using gauge_ok [OF Cons.prems(2)] by simp
    show ?thesis
    proof (cases "L k + 1 > c")
      case True
      obtain st' where "release_gauges cfg env (k # held) ?st1 = (Some (), st')"
        "\<not> li_degraded st'" "ok (li_primary st')" "level (li_primary st') = L"
        using release_restores [of ?st1 L "k # held" env] ok1 lv Cons.prems(1,3) by auto
      then show ?thesis using False True n Cons.prems(1)
        by (auto simp add: l gauge_step gauge_decision_def simp del: release_gauges.simps)
    next
      case room: False
      have lv': "level (li_primary ?st1) j = L j + int (count_list (held @ [k]) j)" for j
        using lv [of j] by simp
      have dist: "distinct ((held @ [k]) @ map fst (filter (\<lambda>(k, c, b). 0 < c) ls))"
        using Cons.prems(6) False by (simp add: l)
      have al: "d_allowed (if d_limit t \<le> 0 \<or> r < d_remaining t then gauge_decision cfg now True c r None b be
          else t)" for r now be
        using Cons.prems(4) by (simp add: gauge_decision_def)
      have deg: "\<not> li_degraded ?st1" using Cons.prems(1) by simp
      let ?t1 = "if d_limit t \<le> 0 \<or> max 0 (c - (L k + 1)) < d_remaining t
        then gauge_decision cfg (rd_now (env (li_calls ?st1))) True c (max 0 (c - (L k + 1))) None b
               (backend_name cfg ?st1) else t"
      obtain d h st' where "acquire_loop cfg env ls (held @ [k]) ?t1 ?st1 = (Some (d, h), st')"
      "\<not> li_degraded st'" "ok (li_primary st')"
      "d_allowed d \<longleftrightarrow> (\<forall>(k, c, b) \<in> set ls. 0 < c \<longrightarrow> L k + 1 \<le> c)"
      "h = (if d_allowed d then (held @ [k]) @ map fst (filter (\<lambda>(k, c, b). 0 < c) ls) else [])"
      "\<forall>k. level (li_primary st') k = L k + int (count_list h k)"
        using Cons.IH [OF deg ok1 Cons.prems(3) al lv' dist] by blast
      moreover have run: "acquire_loop cfg env (l # ls) held t st = acquire_loop cfg env ls (held @ [k]) ?t1 ?st1"
        using False room n Cons.prems(1) by (simp add: l gauge_step Let_def del: max.absorb1 max.absorb2)
      moreover have al1: "(\<forall>(k, c, b) \<in> set (l # ls). 0 < c \<longrightarrow> L k + 1 \<le> c)
          = (\<forall>(k, c, b) \<in> set ls. 0 < c \<longrightarrow> L k + 1 \<le> c)"
        using room by (simp add: l)
      moreover have hd: "(held @ [k]) @ map fst (filter (\<lambda>(k, c, b). 0 < c) ls)
          = held @ map fst (filter (\<lambda>(k, c, b). 0 < c) (l # ls))"
        using False by (simp add: l)
      ultimately show ?thesis
        by (intro exI [of _ d] exI [of _ h] exI [of _ st'] conjI) (simp_all only: run al1 hd simp_thms)
    qed
  qed
qed

end

text \<open>The SQLite and memory backends as primaries that answer every call.\<close>

definition sqlite_backend :: "sqlite_counters backend" where
  "sqlite_backend = \<lparr>be_name = ''sqlite'',
     be_inc = (\<lambda>w k a ws s. case sqlite_increment w k a ws s of (c, s') \<Rightarrow> (Some c, s')),
     be_gauge = (\<lambda>k d s. case sqlite_adjust_gauge k d s of (c, s') \<Rightarrow> (Some c, s')),
     be_ping = (\<lambda>s. (True, s))\<rparr>"

definition memory_backend :: "memory_counters backend" where
  "memory_backend = \<lparr>be_name = ''memory'',
     be_inc = (\<lambda>w k a ws s. case memory_increment w k a ws s of (c, s') \<Rightarrow> (Some c, s')),
     be_gauge = (\<lambda>k d s. case memory_adjust_gauge k d s of (c, s') \<Rightarrow> (Some c, s')),
     be_ping = (\<lambda>s. (True, s))\<rparr>"

interpretation sqlite_limiter: healthy_primary
  sqlite_increment sqlite_adjust_gauge sqlite_count sqlite_level sqlite_ok
  "cfg\<lparr>lc_primary := sqlite_backend\<rparr>" for cfg :: "(sqlite_counters, 'f) limiter_cfg"
  by unfold_locales (simp_all add: sqlite_backend_def case_prod_unfold)

interpretation memory_limiter: healthy_primary
  memory_increment memory_adjust_gauge memory_count memory_level memory_ok
  "cfg\<lparr>lc_primary := memory_backend\<rparr>" for cfg :: "(memory_counters, 'f) limiter_cfg"
  by unfold_locales (simp_all add: memory_backend_def case_prod_unfold)

definition sample_cfg :: "(sqlite_counters, sqlite_counters) limiter_cfg" where
  "sample_cfg = \<lparr>lc_primary = sqlite_backend, lc_fallback = None, lc_fail_open = False,
     lc_default_rpm = 2, lc_default_tpm = 0, lc_model_rpm = 0, lc_model_tpm = 0, lc_models = [],
     lc_retry_after = 1, lc_probe_interval = 5\<rparr>"

definition sample_request :: limit_request where
  "sample_request = \<lparr>rq_key_id = ''k1'', rq_model = ''m'', rq_tokens = 10, rq_rpm = None,
     rq_tpm = None, rq_model_rpm = None, rq_model_tpm = None, rq_team_id = Some ''t'',
     rq_team_rpm = Some 5, rq_team_tpm = None, rq_rpd = None, rq_team_rpd = None, rq_tpd = None,
     rq_team_tpd = None, rq_family = None, rq_family_rpm = None, rq_family_tpm = None,
     rq_user_id = None, rq_user_rpd = None, rq_user_tpd = None\<rparr>"

definition still_env :: env where
  "still_env n = \<lparr>rd_mono = 0, rd_wall = 0, rd_fwall = 0, rd_now = 0\<rparr>"

lemma sample_cfg_primary [simp]: "sample_cfg\<lparr>lc_primary := sqlite_backend\<rparr> = sample_cfg"
  by (simp add: sample_cfg_def)

lemma steady_still [simp]: "steady still_env (\<lambda>ws. 0)"
  by (simp add: steady_def still_env_def window_of_def WINDOW_SECONDS_def DAY_SECONDS_def)

lemma sample_ceilings:
  "ceiling_list sample_cfg sample_request =
    [\<lparr>ce_key = ''rpm:k1'', ce_scope = ''rpm'', ce_bucket = ''key'', ce_amount = 1, ce_limit = 2,
      ce_window = 60\<rparr>,
     \<lparr>ce_key = ''rpm:k1:m'', ce_scope = ''rpm'', ce_bucket = ''model'', ce_amount = 1,
      ce_limit = 2, ce_window = 60\<rparr>,
     \<lparr>ce_key = ''rpm:team:t'', ce_scope = ''rpm'', ce_bucket = ''team'', ce_amount = 1,
      ce_limit = 5, ce_window = 60\<rparr>]"
  by (simp add: ceiling_list_def sample_cfg_def sample_request_def resolve_model_limits_def
      match_model_limits_def int_or_zero_def given_def WINDOW_SECONDS_def)

lemma sqlite_check_outcome:
  assumes "steady env win" "\<not> li_degraded st" "sqlite_ok (li_primary st)"
    and "distinct (map ce_key (ceiling_list (cfg\<lparr>lc_primary := sqlite_backend\<rparr>) rq))"
  obtains d st' where "limiter_check (cfg\<lparr>lc_primary := sqlite_backend\<rparr>) env now rq st = (Some d, st')"
    "\<not> li_degraded st'" "sqlite_ok (li_primary st')" "sqlite_level (li_primary st') = sqlite_level (li_primary st)"
    "d_allowed d \<longleftrightarrow> (\<forall>c \<in> set (ceiling_list (cfg\<lparr>lc_primary := sqlite_backend\<rparr>) rq).
        fits sqlite_count win (li_primary st) c)"
    "\<forall>c \<in> set (charged sqlite_count win (li_primary st)
                 (ceiling_list (cfg\<lparr>lc_primary := sqlite_backend\<rparr>) rq)).
        sqlite_count (li_primary st') (ce_key c) (win (ce_window c))
          = sqlite_count (li_primary st) (ce_key c) (win (ce_window c)) + ce_amount c"
    "\<forall>k w. k \<notin> ce_key ` set (charged sqlite_count win (li_primary st)
                 (ceiling_list (cfg\<lparr>lc_primary := sqlite_backend\<rparr>) rq)) \<longrightarrow>
        sqlite_count (li_primary st') k w = sqlite_count (li_primary st) k w"
proof -
  let ?cfg = "cfg\<lparr>lc_primary := sqlite_backend\<rparr>"
  let ?t = "open_decision ((window_of now WINDOW_SECONDS + 1) * WINDOW_SECONDS) (backend_name ?cfg st)"
  have t: "d_allowed ?t" by (simp add: open_decision_def)
  note loop = sqlite_limiter.loop_outcome [where cfg = cfg and now = now and t = ?t, OF assms
      ceiling_windows(1) [of _ ?cfg rq] t]
  show ?thesis
    using loop [OF _] that unfolding limiter_check_def Let_def by blast
qed

text \<open>
  On a healthy SQLite-backed limiter whose ceilings use different counters, a request is
  admitted exactly when every one of its ceilings has room. It charges the ceilings up to and
  including the first without room, hands nothing back, and changes no other counter and no
  in-flight gauge.
\<close>
theorem check_admits_iff_every_ceiling_fits:
  assumes "steady env win" "\<not> li_degraded st" "sqlite_ok (li_primary st)"
    and "distinct (map ce_key (ceiling_list (cfg\<lparr>lc_primary := sqlite_backend\<rparr>) rq))"
  shows "\<exists>d st'. limiter_check (cfg\<lparr>lc_primary := sqlite_backend\<rparr>) env now rq st = (Some d, st')
    \<and> (let cs = ceiling_list (cfg\<lparr>lc_primary := sqlite_backend\<rparr>) rq;
           paid = charged sqlite_count win (li_primary st) cs in
        (d_allowed d \<longleftrightarrow> (\<forall>c \<in> set cs. fits sqlite_count win (li_primary st) c))
      \<and> (\<forall>c \<in> set paid. sqlite_count (li_primary st') (ce_key c) (win (ce_window c))
            = sqlite_count (li_primary st) (ce_key c) (win (ce_window c)) + ce_amount c)
      \<and> (\<forall>k w. k \<notin> ce_key ` set paid \<longrightarrow>
            sqlite_count (li_primary st') k w = sqlite_count (li_primary st) k w)
      \<and> sqlite_level (li_primary st') = sqlite_level (li_primary st))"
proof -
  let ?cfg = "cfg\<lparr>lc_primary := sqlite_backend\<rparr>"
  obtain d st' where run: "limiter_check ?cfg env now rq st = (Some d, st')"
    and post: "\<not> li_degraded st'" "sqlite_ok (li_primary st')"
    "sqlite_level (li_primary st') = sqlite_level (li_primary st)"
    "d_allowed d \<longleftrightarrow> (\<forall>c \<in> set (ceiling_list ?cfg rq). fits sqlite_count win (li_primary st) c)"
    "\<forall>c \<in> set (charged sqlite_count win (li_primary st) (ceiling_list ?cfg rq)).
        sqlite_count (li_primary st') (ce_key c) (win (ce_window c))
          = sqlite_count (li_primary st) (ce_key c) (win (ce_window c)) + ce_amount c"
    "\<forall>k w. k \<notin> ce_key ` set (charged sqlite_count win (li_primary st) (ceiling_list ?cfg rq)) \<longrightarrow>
        sqlite_count (li_primary st') k w = sqlite_count (li_primary st) k w"
    by (rule sqlite_check_outcome [OF assms])
  show ?thesis
    unfolding Let_def
    by (intro exI [of _ d] exI [of _ st'] conjI run post)
qed

lemma check_admits_iff_every_ceiling_fits_witness:
  "\<exists>d st'. limiter_check sample_cfg still_env 0 sample_request (new_limiter [] []) = (Some d, st')
    \<and> d_allowed d \<and> sqlite_count (li_primary st') ''rpm:k1'' 0 = 1"
proof -
  let ?st = "new_limiter [] [] :: (sqlite_counters, sqlite_counters) limiter"
  have "\<exists>d st'. limiter_check sample_cfg still_env 0 sample_request ?st = (Some d, st')
    \<and> (let cs = ceiling_list sample_cfg sample_request;
           paid = charged sqlite_count (\<lambda>ws. 0) (li_primary ?st) cs in
        (d_allowed d \<longleftrightarrow> (\<forall>c \<in> set cs. fits sqlite_count (\<lambda>ws. 0) (li_primary ?st) c))
      \<and> (\<forall>c \<in> set paid. sqlite_count (li_primary st') (ce_key c) 0
            = sqlite_count (li_primary ?st) (ce_key c) 0 + ce_amount c)
      \<and> (\<forall>k w. k \<notin> ce_key ` set paid \<longrightarrow>
            sqlite_count (li_primary st') k w = sqlite_count (li_primary ?st) k w)
      \<and> sqlite_level (li_primary st') = sqlite_level (li_primary ?st))"
    using check_admits_iff_every_ceiling_fits [of still_env "\<lambda>ws. 0" ?st sample_cfg sample_request 0]
    by (simp add: sample_ceilings new_limiter_def sqlite_ok_def del: Let_def)
  then show ?thesis
    by (auto simp: sample_ceilings fits_def sqlite_count_def new_limiter_def charged_def Let_def)
qed

text \<open>The decisions of a run of requests, each with its own clock read.\<close>

fun limiter_run ::
    "('p, 'f) limiter_cfg \<Rightarrow> env \<Rightarrow> (pyfloat \<times> limit_request) list \<Rightarrow> ('p, 'f) limiter \<Rightarrow>
     decision option list" where
  "limiter_run cfg env [] st = []"
| "limiter_run cfg env ((now, rq) # rs) st =
     (case limiter_check cfg env now rq st of (d, st') \<Rightarrow> d # limiter_run cfg env rs st')"

definition admitted :: "decision option \<Rightarrow> bool" where
  "admitted d = (case d of None \<Rightarrow> False | Some x \<Rightarrow> d_allowed x)"

lemma ceiling_list_key_rpm:
  assumes "rq_rpm rq = Some n" "0 < n"
  obtains rest where "ceiling_list cfg rq = \<lparr>ce_key = ''rpm:'' @ rq_key_id rq, ce_scope = ''rpm'',
    ce_bucket = ''key'', ce_amount = 1, ce_limit = n, ce_window = WINDOW_SECONDS\<rparr> # rest"
  using assms by (simp add: ceiling_list_def Let_def case_prod_unfold given_def)

lemma key_rpm_step:
  assumes "steady env win" "\<not> li_degraded st" "sqlite_ok (li_primary st)" "rq_rpm rq = Some n" "0 < n"
    and "distinct (map ce_key (ceiling_list (cfg\<lparr>lc_primary := sqlite_backend\<rparr>) rq))"
    and "limiter_check (cfg\<lparr>lc_primary := sqlite_backend\<rparr>) env now rq st = (d, st')"
  shows "\<not> li_degraded st'" "sqlite_ok (li_primary st')"
    "sqlite_count (li_primary st') (''rpm:'' @ rq_key_id rq) (win WINDOW_SECONDS)
      = sqlite_count (li_primary st) (''rpm:'' @ rq_key_id rq) (win WINDOW_SECONDS) + 1"
    "admitted d \<Longrightarrow> sqlite_count (li_primary st) (''rpm:'' @ rq_key_id rq) (win WINDOW_SECONDS) < n"
proof -
  obtain rest where cs: "ceiling_list (cfg\<lparr>lc_primary := sqlite_backend\<rparr>) rq =
    \<lparr>ce_key = ''rpm:'' @ rq_key_id rq, ce_scope = ''rpm'', ce_bucket = ''key'', ce_amount = 1,
      ce_limit = n, ce_window = WINDOW_SECONDS\<rparr> # rest" (is "_ = ?c # _")
    by (rule ceiling_list_key_rpm [OF assms(4,5)])
  obtain x where x: "d = Some x" "\<not> li_degraded st'" "sqlite_ok (li_primary st')"
    "d_allowed x \<longleftrightarrow> (\<forall>c \<in> set (?c # rest). fits sqlite_count win (li_primary st) c)"
    "\<forall>c \<in> set (charged sqlite_count win (li_primary st) (?c # rest)).
        sqlite_count (li_primary st') (ce_key c) (win (ce_window c))
          = sqlite_count (li_primary st) (ce_key c) (win (ce_window c)) + ce_amount c"
    using assms(7) by (rule_tac sqlite_check_outcome [OF assms(1-3,6), of now])
      (auto simp: cs)
  have mem: "?c \<in> set (charged sqlite_count win (li_primary st) (?c # rest))"
    by (simp add: charged_def)
  show "\<not> li_degraded st'" "sqlite_ok (li_primary st')" by (fact x(2), fact x(3))
  show "sqlite_count (li_primary st') (''rpm:'' @ rq_key_id rq) (win WINDOW_SECONDS)
      = sqlite_count (li_primary st) (''rpm:'' @ rq_key_id rq) (win WINDOW_SECONDS) + 1"
    using x(5) [rule_format, OF mem] by simp
  show "admitted d \<Longrightarrow> sqlite_count (li_primary st) (''rpm:'' @ rq_key_id rq) (win WINDOW_SECONDS) < n"
    using x(1,4) by (simp add: admitted_def fits_def)
qed

text \<open>
  The requests a key gets through in one minute never exceed its \<open>rpm\<close>, whatever models,
  teams and token counts the requests name: of any run of requests of the key inside a minute
  window at most \<open>rpm\<close> less what the window already counted are admitted.
\<close>
theorem key_rpm_caps_the_minute:
  assumes "steady env win" "\<not> li_degraded st" "sqlite_ok (li_primary st)" "0 < n"
    and "\<forall>(now, rq) \<in> set rs. rq_key_id rq = k \<and> rq_rpm rq = Some n
          \<and> distinct (map ce_key (ceiling_list (cfg\<lparr>lc_primary := sqlite_backend\<rparr>) rq))"
  shows "int (length (filter admitted (limiter_run (cfg\<lparr>lc_primary := sqlite_backend\<rparr>) env rs st)))
    \<le> max 0 (n - sqlite_count (li_primary st) (''rpm:'' @ k) (win WINDOW_SECONDS))"
  using assms(2,3,5)
proof (induction rs arbitrary: st)
  case Nil
  then show ?case by simp
next
  case (Cons r rs)
  obtain now rq where r: "r = (now, rq)" by (cases r)
  obtain d st' where run: "limiter_check (cfg\<lparr>lc_primary := sqlite_backend\<rparr>) env now rq st = (d, st')"
    by (cases "limiter_check (cfg\<lparr>lc_primary := sqlite_backend\<rparr>) env now rq st")
  have rq: "rq_key_id rq = k" "rq_rpm rq = Some n"
    "distinct (map ce_key (ceiling_list (cfg\<lparr>lc_primary := sqlite_backend\<rparr>) rq))"
    using Cons.prems(3) by (auto simp: r)
  note step = key_rpm_step [OF assms(1) Cons.prems(1,2) rq(2) assms(4) rq(3) run]
  have "int (length (filter admitted (limiter_run (cfg\<lparr>lc_primary := sqlite_backend\<rparr>) env rs st')))
    \<le> max 0 (n - sqlite_count (li_primary st') (''rpm:'' @ k) (win WINDOW_SECONDS))"
    using Cons.IH [OF step(1,2)] Cons.prems(3) by auto
  then show ?case using step(3,4) by (auto simp: r run rq(1))
qed

lemma key_rpm_caps_the_minute_witness:
  "length (filter admitted (limiter_run sample_cfg still_env
     [(0, sample_request\<lparr>rq_rpm := Some 2\<rparr>), (1, sample_request\<lparr>rq_rpm := Some 2\<rparr>),
      (2, sample_request\<lparr>rq_rpm := Some 2\<rparr>)] (new_limiter [] []))) \<le> 2"
proof -
  have cs: "distinct (map ce_key (ceiling_list sample_cfg (sample_request\<lparr>rq_rpm := Some 2\<rparr>)))"
    by (simp add: ceiling_list_def sample_cfg_def sample_request_def resolve_model_limits_def
      match_model_limits_def int_or_zero_def given_def WINDOW_SECONDS_def)
  show ?thesis
    using key_rpm_caps_the_minute [of still_env "\<lambda>ws. 0" "new_limiter [] []" 2
      "[(0, sample_request\<lparr>rq_rpm := Some 2\<rparr>), (1, sample_request\<lparr>rq_rpm := Some 2\<rparr>),
        (2, sample_request\<lparr>rq_rpm := Some 2\<rparr>)]" "''k1''" sample_cfg] cs
    by (simp add: new_limiter_def sqlite_ok_def sqlite_count_def sample_request_def)
qed

text \<open>
  Taking in-flight leases is all or nothing. With leases on different gauges, all of them
  are taken when each has room, and otherwise every gauge is back where it was and no lease is
  held; handing the held leases back restores every gauge.
\<close>
theorem leases_are_all_or_nothing:
  assumes "\<not> li_degraded st" "sqlite_ok (li_primary st)"
    and "distinct (map fst (filter (\<lambda>(k, l, b). 0 < num_or l 0) leases))"
  shows "\<exists>d held st' st''.
      try_acquire_gauges (cfg\<lparr>lc_primary := sqlite_backend\<rparr>) env leases st = (Some (d, held), st')
    \<and> (d_allowed d \<longleftrightarrow> (\<forall>(k, l, b) \<in> set leases. 0 < num_or l 0 \<longrightarrow>
          sqlite_level (li_primary st) k + 1 \<le> num_or l 0))
    \<and> held = (if d_allowed d then map fst (filter (\<lambda>(k, l, b). 0 < num_or l 0) leases) else [])
    \<and> (\<forall>k. sqlite_level (li_primary st') k
          = sqlite_level (li_primary st) k + (if k \<in> set held then 1 else 0))
    \<and> release_gauges (cfg\<lparr>lc_primary := sqlite_backend\<rparr>) env held st' = (Some (), st'')
    \<and> sqlite_level (li_primary st'') = sqlite_level (li_primary st)"
proof -
  let ?cfg = "cfg\<lparr>lc_primary := sqlite_backend\<rparr>" and ?L = "sqlite_level (li_primary st)"
  let ?ls = "map (\<lambda>(k, l, b). (k, num_or l 0, b)) leases"
  have flt: "map fst (filter (\<lambda>(k, c, b). 0 < c) ?ls)
      = map fst (filter (\<lambda>(k, l, b). 0 < num_or l 0) leases)"
    by (induction leases) auto
  have nn: "0 \<le> ?L k" for k by (rule sqlite.level_nonneg [OF assms(2)])
  have t: "d_allowed (gauge_decision ?cfg (rd_now (env (li_calls st))) True 0 0 None ''''
      (backend_name ?cfg st))" by (simp add: gauge_decision_def)
  have lv0: "sqlite_level (li_primary st) k = ?L k + int (count_list [] k)" for k by simp
  have pre: "distinct ([] @ map fst (filter (\<lambda>(k, c, b). 0 < c) ?ls))"
    using assms(3) by (simp add: flt)
  obtain d h st' where a: "acquire_loop ?cfg env ?ls []
      (gauge_decision ?cfg (rd_now (env (li_calls st))) True 0 0 None '''' (backend_name ?cfg st)) st
      = (Some (d, h), st')" "\<not> li_degraded st'" "sqlite_ok (li_primary st')"
    "d_allowed d \<longleftrightarrow> (\<forall>(k, c, b) \<in> set ?ls. 0 < c \<longrightarrow> ?L k + 1 \<le> c)"
    "h = (if d_allowed d then map fst (filter (\<lambda>(k, c, b). 0 < c) ?ls) else [])"
    "\<forall>k. sqlite_level (li_primary st') k = ?L k + int (count_list h k)"
    using sqlite_limiter.acquire_outcome [where cfg = cfg and env = env and L = ?L,
        OF assms(1,2) nn t lv0 pre] unfolding append_Nil by blast
  have dis: "distinct h" using a(5) assms(3) flt by simp
  obtain st'' where r: "release_gauges ?cfg env h st' = (Some (), st'')"
    "sqlite_level (li_primary st'') = ?L"
    using sqlite_limiter.release_restores [where cfg = cfg and L = ?L and ks = h and env = env,
        OF a(2,3) nn a(6) [rule_format]] by blast
  have al: "d_allowed d \<longleftrightarrow> (\<forall>(k, l, b) \<in> set leases. 0 < num_or l 0 \<longrightarrow> ?L k + 1 \<le> num_or l 0)"
    using a(4) by auto
  have hh: "h = (if d_allowed d then map fst (filter (\<lambda>(k, l, b). 0 < num_or l 0) leases) else [])"
    using a(5) flt by simp
  have lv: "\<forall>k. sqlite_level (li_primary st') k = ?L k + (if k \<in> set h then 1 else 0)"
    using a(6) dis by (simp add: count_list_distinct)
  have acq: "try_acquire_gauges ?cfg env leases st = (Some (d, h), st')"
    using a(1) by (simp add: try_acquire_gauges_def)
  show ?thesis by (intro exI [of _ d] exI [of _ h] exI [of _ st'] exI [of _ st''] conjI acq al hh lv r)
qed

lemma sqlite_level_Nil: "sqlite_level [] k = 0"
  by (simp add: sqlite_level_def sqlite_count_def)

lemma leases_are_all_or_nothing_witness:
  "\<exists>d held st' st''.
      try_acquire_gauges sample_cfg still_env [(''a'', Some 1, ''key''), (''b'', None, ''team'')]
        (new_limiter [] []) = (Some (d, held), st')
    \<and> d_allowed d \<and> held = [''a''] \<and> sqlite_level (li_primary st') ''a'' = 1
    \<and> release_gauges sample_cfg still_env held st' = (Some (), st'')
    \<and> sqlite_level (li_primary st'') ''a'' = 0"
proof -
  let ?st = "new_limiter [] [] :: (sqlite_counters, sqlite_counters) limiter"
  have "\<not> li_degraded ?st" "sqlite_ok (li_primary ?st)"
    by (simp_all add: new_limiter_def sqlite_ok_def)
  then show ?thesis
    using leases_are_all_or_nothing [of ?st "[(''a'', Some 1, ''key''), (''b'', None, ''team'')]"
        sample_cfg still_env]
    by (auto simp: new_limiter_def sqlite_level_Nil simp del: release_gauges.simps)
qed

section \<open>Limits by model\<close>

lemma longest_name_props:
  "(longest_name t ks b = b \<or> (\<exists>k \<in> set ks. longest_name t ks b = py_strip k \<and> starts_with t (py_strip k)))
    \<and> length b \<le> length (longest_name t ks b)
    \<and> (\<forall>k \<in> set ks. starts_with t (py_strip k) \<longrightarrow> length (py_strip k) \<le> length (longest_name t ks b))"
proof (induction ks arbitrary: b)
  case Nil
  then show ?case by simp
next
  case (Cons k ks)
  let ?b = "if py_strip k \<noteq> [] \<and> starts_with t (py_strip k) \<and> length (py_strip k) > length b
    then py_strip k else b"
  have "length b \<le> length ?b" and "starts_with t (py_strip k) \<Longrightarrow> length (py_strip k) \<le> length ?b"
    by auto
  then show ?case using Cons.IH [of ?b] by (fastforce simp: Let_def)
qed

lemma same_length_prefix: "starts_with t a \<Longrightarrow> starts_with t b \<Longrightarrow> length a = length b \<Longrightarrow> a = b"
  by (auto simp: starts_with_iff)

text \<open>
  The limits of a model are those of the longest configured name that is a prefix of it, an
  exact name included, and a model no name is a prefix of has none; this for configured names
  without surrounding space.
\<close>
theorem longest_configured_prefix_limits:
  assumes "\<forall>k \<in> fst ` set models. py_strip k = k \<and> k \<noteq> ''''" "py_strip model \<noteq> ''''"
  shows "match_model_limits models model = Some e \<longleftrightarrow>
     (\<exists>k. map_of models k = Some e \<and> starts_with (py_strip model) k
        \<and> (\<forall>j \<in> fst ` set models. starts_with (py_strip model) j \<longrightarrow> length j \<le> length k))"
proof -
  let ?t = "py_strip model" and ?b = "longest_name (py_strip model) (map fst models) ''''"
  have dom: "map_of models k = Some v \<Longrightarrow> k \<in> fst ` set models" for k v
    by (metis map_of_SomeD fst_conv image_eqI)
  have strip: "j \<in> fst ` set models \<Longrightarrow> py_strip j = j" for j using assms(1) by blast
  have longest: "starts_with ?t j \<Longrightarrow> length j \<le> length ?b" if "j \<in> fst ` set models" for j
    using longest_name_props [of ?t "map fst models" "''''"] that strip [OF that] by fastforce
  have mem: "?b = '''' \<or> ?b \<in> fst ` set models \<and> starts_with ?t ?b"
    using longest_name_props [of ?t "map fst models" "''''"] strip by fastforce
  show ?thesis
  proof (cases "map_of models ?t")
    case (Some v)
    then have m: "match_model_limits models model = Some v"
      using assms(2) by (cases "models = []") (simp_all add: match_model_limits_def)
    have uniq: "k = ?t" if "starts_with ?t k" "\<forall>j \<in> fst ` set models. starts_with ?t j \<longrightarrow> length j \<le> length k" for k
      by (rule same_length_prefix [OF that(1) starts_with_refl(1) le_antisym
            [OF starts_with_length [OF that(1)]
                that(2) [rule_format, OF dom [OF Some] starts_with_refl(1)]]])
    have lng: "\<forall>j \<in> fst ` set models. starts_with ?t j \<longrightarrow> length j \<le> length ?t"
      using starts_with_length by blast
    show ?thesis
    proof
      assume "match_model_limits models model = Some e"
      then show "\<exists>k. map_of models k = Some e \<and> starts_with ?t k
          \<and> (\<forall>j \<in> fst ` set models. starts_with ?t j \<longrightarrow> length j \<le> length k)"
        using m Some lng by (intro exI [of _ ?t]) simp
    next
      assume "\<exists>k. map_of models k = Some e \<and> starts_with ?t k
          \<and> (\<forall>j \<in> fst ` set models. starts_with ?t j \<longrightarrow> length j \<le> length k)"
      then obtain k where "map_of models k = Some e" "k = ?t" using uniq by blast
      then show "match_model_limits models model = Some e" using m Some by simp
    qed
  next
    case None
    have m: "match_model_limits models model = (if ?b \<noteq> '''' then map_of models ?b else None)"
      using None assms(2) by (cases "models = []") (simp_all add: match_model_limits_def)
    show ?thesis
    proof
      assume "match_model_limits models model = Some e"
      then have "?b \<noteq> ''''" "map_of models ?b = Some e" using m by (simp_all split: if_splits)
      then show "\<exists>k. map_of models k = Some e \<and> starts_with ?t k
          \<and> (\<forall>j \<in> fst ` set models. starts_with ?t j \<longrightarrow> length j \<le> length k)"
        using mem longest by blast
    next
      assume "\<exists>k. map_of models k = Some e \<and> starts_with ?t k
          \<and> (\<forall>j \<in> fst ` set models. starts_with ?t j \<longrightarrow> length j \<le> length k)"
      then obtain k where k: "map_of models k = Some e" "starts_with ?t k"
        "\<And>j. j \<in> fst ` set models \<Longrightarrow> starts_with ?t j \<Longrightarrow> length j \<le> length k" by blast
      have "k \<noteq> ''''" using dom [OF k(1)] assms(1) by blast
      then have ne: "?b \<noteq> ''''" using longest [OF dom [OF k(1)] k(2)] by auto
      then have b: "?b \<in> fst ` set models" "starts_with ?t ?b" using mem by blast+
      have "length k = length ?b"
        using longest [OF dom [OF k(1)] k(2)] k(3) [OF b] by simp
      then have "k = ?b" by (rule same_length_prefix [OF k(2) b(2)])
      then show "match_model_limits models model = Some e" using m ne k(1) by simp
    qed
  qed
qed

lemma longest_configured_prefix_limits_witness:
  "match_model_limits [(''gpt'', 1::nat), (''gpt-4'', 2), (''claude'', 3)] '' gpt-4o'' = Some 2"
proof (rule iffD2 [OF longest_configured_prefix_limits])
  have s: "py_strip '' gpt-4o'' = ''gpt-4o''" by code_simp
  have k: "py_strip ''gpt'' = ''gpt''" "py_strip ''gpt-4'' = ''gpt-4''" "py_strip ''claude'' = ''claude''"
    by code_simp+
  show "\<forall>k \<in> fst ` set [(''gpt'', 1::nat), (''gpt-4'', 2), (''claude'', 3)]. py_strip k = k \<and> k \<noteq> ''''"
    by (simp add: k)
  show "py_strip '' gpt-4o'' \<noteq> ''''" by (simp add: s)
  show "\<exists>k. map_of [(''gpt'', 1::nat), (''gpt-4'', 2), (''claude'', 3)] k = Some 2
      \<and> starts_with (py_strip '' gpt-4o'') k
      \<and> (\<forall>j \<in> fst ` set [(''gpt'', 1::nat), (''gpt-4'', 2), (''claude'', 3)].
            starts_with (py_strip '' gpt-4o'') j \<longrightarrow> length j \<le> length k)"
    unfolding s by (rule exI [of _ "''gpt-4''"]) (simp add: starts_with_def)
qed

section \<open>Outages\<close>

lemma zero_counts_admit:
  assumes "\<And>st k a ws. I st \<Longrightarrow> \<exists>st'. limiter_increment cfg env k a ws st = (Some 0, st') \<and> I st'"
    and "I st" "d_allowed t" "\<And>c. c \<in> set cs \<Longrightarrow> 0 \<le> ce_limit c"
  shows "\<exists>d st'. check_loop cfg env now cs t st = (Some d, st') \<and> d_allowed d \<and> I st'"
  using assms(2-4)
proof (induction cs arbitrary: st t)
  case Nil
  then show ?case by simp
next
  case (Cons c cs)
  obtain st1 where st1: "limiter_increment cfg env (ce_key c) (ce_amount c) (ce_window c) st = (Some 0, st1)"
    "I st1" using assms(1) [OF Cons.prems(1)] by blast
  have "0 \<le> ce_limit c" using Cons.prems(3) by simp
  then show ?case
    using Cons.IH [OF st1(2) pick_tighter_allowed [OF Cons.prems(2)]] Cons.prems(3) st1(1)
    by (simp add: Let_def)
qed

lemma zero_counts_admit_check:
  assumes "\<And>st k a ws. I st \<Longrightarrow> \<exists>st'. limiter_increment cfg env k a ws st = (Some 0, st') \<and> I st'" "I st"
  shows "\<exists>d st'. limiter_check cfg env now rq st = (Some d, st') \<and> d_allowed d \<and> I st'"
  unfolding limiter_check_def Let_def
  using ceiling_windows(3) [of _ cfg rq]
  by (intro zero_counts_admit [of I, OF assms]) (auto simp: open_decision_def less_imp_le)

lemma zero_counts_admit_run:
  assumes "\<And>st k a ws. I st \<Longrightarrow> \<exists>st'. limiter_increment cfg env k a ws st = (Some 0, st') \<and> I st'" "I st"
  shows "list_all admitted (limiter_run cfg env rs st)"
  using assms(2)
proof (induction rs arbitrary: st)
  case (Cons r rs)
  obtain now rq where r: "r = (now, rq)" by (cases r)
  obtain d st' where "limiter_check cfg env now rq st = (Some d, st')" "d_allowed d" "I st'"
    using zero_counts_admit_check [of I, OF assms(1) Cons.prems] by blast
  then show ?case using Cons.IH [of st'] by (simp add: r admitted_def)
qed simp

lemma outage_counts_zero:
  assumes "lc_fail_open cfg" "\<forall>w k a ws s. fst (be_inc (lc_primary cfg) w k a ws s) = None"
  shows "\<exists>st'. limiter_increment cfg env k a ws st = (Some 0, st') \<and> True"
proof -
  have "fst (degrade_path cfg mnow (be_inc (lc_primary cfg) w k a ws) fop st) = Some 0" for mnow w fop st
    using assms(1) assms(2) [rule_format, of w k a ws]
    by (auto simp: degrade_path_def count_degraded_def Let_def split: prod.split option.split)
      (metis fst_conv option.distinct(1))+
  then have "fst (limiter_increment cfg env k a ws st) = Some 0"
    by (simp add: limiter_increment_def Let_def)
  then show ?thesis by (metis prod.collapse)
qed

text \<open>
  With \<open>fail_open\<close> set, a Redis that raises on every call and never answers a ping denies
  nobody: from every state of the limiter, every request of every run is admitted.
\<close>
theorem fail_open_outage_denies_nobody:
  assumes "lc_fail_open cfg"
    and "\<forall>w k a ws s. fst (be_inc (lc_primary cfg) w k a ws s) = None"
    and "\<forall>s. \<not> fst (be_ping (lc_primary cfg) s)"
  shows "list_all admitted (limiter_run cfg env rs st)"
  by (rule zero_counts_admit_run [where I = "\<lambda>_. True"]) (simp_all add: outage_counts_zero [OF assms(1,2), simplified])

definition dead_redis :: "unit backend" where
  "dead_redis = \<lparr>be_name = ''redis'', be_inc = (\<lambda>w k a ws s. (None, s)),
     be_gauge = (\<lambda>k d s. (None, s)), be_ping = (\<lambda>s. (False, s))\<rparr>"

definition dead_cfg :: "bool \<Rightarrow> unit backend \<Rightarrow> (unit, sqlite_counters) limiter_cfg" where
  "dead_cfg fopen primary = \<lparr>lc_primary = primary, lc_fallback = None, lc_fail_open = fopen,
     lc_default_rpm = 1, lc_default_tpm = 0, lc_model_rpm = 0, lc_model_tpm = 0, lc_models = [],
     lc_retry_after = 1, lc_probe_interval = 5\<rparr>"

lemma fail_open_outage_denies_nobody_witness:
  "list_all admitted (limiter_run (dead_cfg True dead_redis) still_env
     [(0, sample_request), (0, sample_request)] (new_limiter () []))"
  using fail_open_outage_denies_nobody [of "dead_cfg True dead_redis" still_env
      "[(0, sample_request), (0, sample_request)]" "new_limiter () []"]
  by (simp add: dead_cfg_def dead_redis_def)

text \<open>
  Without Redis the limiter has no fallback and no way back: once the SQLite counters raise
  a single time, every later request of every run is admitted, although \<open>fail_open\<close> is off, and
  the primary is not asked again.
\<close>
theorem one_sqlite_error_lifts_every_limit:
  assumes "be_name (lc_primary cfg) \<noteq> ''redis''" "lc_fallback cfg = None" "\<not> li_degraded st"
    and "fst (be_inc (lc_primary cfg) (rd_wall (env (li_calls st))) k a ws (li_primary st)) = None"
  shows "\<exists>st1. limiter_increment cfg env k a ws st = (Some 0, st1)
    \<and> (\<forall>rs. list_all admitted (limiter_run cfg env rs st1))"
proof -
  have stay: "\<exists>st'. limiter_increment cfg env k a ws st = (Some 0, st') \<and> li_degraded st'"
    if "li_degraded st" for st k a ws
    using that assms(1,2)
    by (simp add: limiter_increment_def degrade_path_def Let_def maybe_recover_def count_degraded_def)
  obtain p where "be_inc (lc_primary cfg) (rd_wall (env (li_calls st))) k a ws (li_primary st) = (None, p)"
    using assms(4) by (metis prod.collapse)
  then have "\<exists>st1. limiter_increment cfg env k a ws st = (Some 0, st1) \<and> li_degraded st1"
    using assms(2,3)
    by (simp add: limiter_increment_def degrade_path_def Let_def count_degraded_def enter_degraded_def)
  then show ?thesis using zero_counts_admit_run [where I = li_degraded, OF stay] by metis
qed

lemma one_sqlite_error_lifts_every_limit_witness:
  "\<exists>st1. limiter_increment (dead_cfg False (dead_redis\<lparr>be_name := ''sqlite''\<rparr>)) still_env ''rpm:k1'' 1 60
       (new_limiter () []) = (Some 0, st1)
    \<and> (\<forall>rs. list_all admitted (limiter_run (dead_cfg False (dead_redis\<lparr>be_name := ''sqlite''\<rparr>)) still_env rs st1))"
  by (rule one_sqlite_error_lifts_every_limit) (simp_all add: dead_cfg_def dead_redis_def new_limiter_def)

end
