(* ===== verification/AdmissionGate.thy ===== *)
theory AdmissionGate
  imports RateLimiter "HOL-Library.Product_Lexorder"
begin

text \<open>
  The in-flight gate of the rate limiter (\<open>acquire\<close>, \<open>release\<close>, \<open>begin_drain\<close> and their helpers in
  \<open>daari/auth/rate_limit.py\<close>): at most \<open>max_in_flight\<close> requests run, up to \<open>queue_size\<close> wait, and
  a freed slot goes to the waiter of the best priority class, oldest first.

  A waiting request is its sequence number, which also names its future. The heap is the list
  of waiters in the order \<open>(rank, seq)\<close> the heap pops them. The step relation \<open>gate_step\<close>
  interleaves requests at their suspension points: arrival, the future's wake-up, a client
  disconnect (\<open>task.cancel\<close>), the handler of \<open>CancelledError\<close> and the release.
\<close>

section \<open>State and operations\<close>

datatype future = Pending | Granted | Cancelled

record gate =
  ga_max :: int
  ga_queue_size :: int
  ga_retry_after :: int
  ga_backend :: pystr
  ga_in_flight :: int
  ga_queued :: int
  ga_draining :: bool
  ga_waiters :: "(nat \<times> nat) list"
  ga_seq :: nat
  ga_futures :: "nat \<Rightarrow> future"
  ga_interactive :: int

definition new_gate :: "int \<Rightarrow> int \<Rightarrow> int \<Rightarrow> pystr \<Rightarrow> gate" where
  "new_gate m q r b = \<lparr>ga_max = m, ga_queue_size = q, ga_retry_after = r, ga_backend = b,
     ga_in_flight = 0, ga_queued = 0, ga_draining = False, ga_waiters = [], ga_seq = 0,
     ga_futures = (\<lambda>_. Pending), ga_interactive = 0\<rparr>"

definition begin_drain :: "gate \<Rightarrow> gate" where
  "begin_drain g = g\<lparr>ga_draining := True\<rparr>"

definition begin_interactive :: "gate \<Rightarrow> gate" where
  "begin_interactive g = g\<lparr>ga_interactive := ga_interactive g + 1\<rparr>"

definition end_interactive :: "gate \<Rightarrow> gate" where
  "end_interactive g = g\<lparr>ga_interactive := max 0 (ga_interactive g - 1)\<rparr>"

definition deny_concurrency :: "pyfloat \<Rightarrow> gate \<Rightarrow> decision" where
  "deny_concurrency now g = \<lparr>d_allowed = False, d_limit = ga_max g, d_remaining = 0,
     d_reset = \<lfloor>now\<rfloor> + ga_retry_after g, d_retry_after = Some (ga_retry_after g),
     d_scope = ''concurrency'', d_backend = ga_backend g, d_bucket = ''concurrency''\<rparr>"

definition admit_decision :: "pyfloat \<Rightarrow> gate \<Rightarrow> decision" where
  "admit_decision now g = \<lparr>d_allowed = True, d_limit = ga_max g,
     d_remaining = max 0 (ga_max g - ga_in_flight g), d_reset = \<lfloor>now\<rfloor> + ga_retry_after g,
     d_retry_after = None, d_scope = ''concurrency'', d_backend = ga_backend g,
     d_bucket = ''concurrency''\<rparr>"

text \<open>\<open>_wake_next_locked\<close>: pop while there is a free slot, skipping futures already done.\<close>

function wake_next :: "gate \<Rightarrow> gate" where
  "wake_next g =
     (case ga_waiters g of
        [] \<Rightarrow> g
      | (r, s) # ws \<Rightarrow>
          (if \<not> ga_in_flight g < ga_max g then g
           else let g1 = g\<lparr>ga_waiters := ws, ga_queued := max 0 (ga_queued g - 1)\<rparr> in
             if ga_futures g s \<noteq> Pending then wake_next g1
             else wake_next (g1\<lparr>ga_in_flight := ga_in_flight g + 1,
                                 ga_futures := (ga_futures g)(s := Granted)\<rparr>)))"
  by pat_completeness auto
termination by (relation "measure (\<lambda>g. length (ga_waiters g))") auto

declare wake_next.simps [simp del]

datatype arrival = Decided decision | Waits nat

text \<open>The part of \<open>acquire\<close> before the wait; \<open>Waits s\<close> is the request parked on future \<open>s\<close>.\<close>

definition gate_arrive :: "pyfloat \<Rightarrow> pystr option \<Rightarrow> gate \<Rightarrow> arrival \<times> gate" where
  "gate_arrive now priority g =
     (if ga_max g \<le> 0 then
        (Decided (if ga_draining g then deny_concurrency now g
           else (admit_decision now g)\<lparr>d_limit := 0, d_remaining := 0\<rparr>), g)
      else
        (let rank = the (map_of PRIORITY_RANK (normalize_priority priority)) in
         if ga_draining g then (Decided (deny_concurrency now g), g)
         else (let g1 = wake_next g in
           if ga_in_flight g1 < ga_max g1 \<and> (ga_waiters g1 = [] \<or> rank < fst (hd (ga_waiters g1)))
           then (let g2 = g1\<lparr>ga_in_flight := ga_in_flight g1 + 1\<rparr>
                 in (Decided (admit_decision now g2), g2))
           else if ga_queued g1 \<ge> ga_queue_size g1 then (Decided (deny_concurrency now g1), g1)
           else (Waits (ga_seq g1),
                 g1\<lparr>ga_seq := ga_seq g1 + 1,
                    ga_waiters := insort (rank, ga_seq g1) (ga_waiters g1),
                    ga_queued := ga_queued g1 + 1,
                    ga_futures := (ga_futures g1)(ga_seq g1 := Pending)\<rparr>))))"

text \<open>The wait is over: \<open>await fut\<close> returned.\<close>

definition gate_resume :: "pyfloat \<Rightarrow> nat \<Rightarrow> gate \<Rightarrow> decision option" where
  "gate_resume now s g = (if ga_futures g s = Granted then Some (admit_decision now g) else None)"

text \<open>\<open>task.cancel()\<close> on a request parked on future \<open>s\<close>: cancels the future if it is not done.\<close>

definition task_cancel :: "nat \<Rightarrow> gate \<Rightarrow> gate" where
  "task_cancel s g = (if ga_futures g s = Pending
     then g\<lparr>ga_futures := (ga_futures g)(s := Cancelled)\<rparr> else g)"

text \<open>The handler of \<open>CancelledError\<close>.\<close>

definition drop_waiter :: "nat \<Rightarrow> gate \<Rightarrow> gate" where
  "drop_waiter s g =
     (let found = s \<in> snd ` set (ga_waiters g);
          g1 = (if found then g\<lparr>ga_waiters := filter (\<lambda>w. snd w \<noteq> s) (ga_waiters g),
                                 ga_queued := max 0 (ga_queued g - 1)\<rparr> else g)
      in if ga_futures g1 s = Pending
         then g1\<lparr>ga_futures := (ga_futures g1)(s := Cancelled)\<rparr> else g1)"

definition gate_release :: "gate \<Rightarrow> gate" where
  "gate_release g = (if ga_max g \<le> 0 then g
     else wake_next (g\<lparr>ga_in_flight := max 0 (ga_in_flight g - 1)\<rparr>))"

record gate_snapshot =
  gs_backend :: pystr
  gs_degraded :: bool
  gs_mode :: "pystr option"
  gs_rpm_limit :: int
  gs_tpm_limit :: int
  gs_in_flight :: int
  gs_in_flight_max :: int
  gs_queued :: int
  gs_queue_size :: int

definition limiter_snapshot :: "('p, 'f) limiter_cfg \<Rightarrow> ('p, 'f) limiter \<Rightarrow> gate \<Rightarrow> gate_snapshot" where
  "limiter_snapshot cfg st g = \<lparr>gs_backend = backend_name cfg st, gs_degraded = li_degraded st,
     gs_mode = li_mode st, gs_rpm_limit = lc_default_rpm cfg, gs_tpm_limit = lc_default_tpm cfg,
     gs_in_flight = ga_in_flight g, gs_in_flight_max = ga_max g, gs_queued = ga_queued g,
     gs_queue_size = ga_queue_size g\<rparr>"

section \<open>Requests around the gate\<close>

text \<open>
  \<open>w_holders\<close> counts the requests admitted and not yet released, \<open>w_parked\<close> are the requests
  waiting for their future, \<open>w_cancelled\<close> those of them whose task has been cancelled.
\<close>

record gate_world =
  w_gate :: gate
  w_holders :: nat
  w_parked :: "nat list"
  w_cancelled :: "nat list"

inductive gate_step :: "gate_world \<Rightarrow> gate_world \<Rightarrow> bool" where
  admitted: "gate_arrive now p (w_gate w) = (Decided d, g) \<Longrightarrow> d_allowed d \<Longrightarrow>
     gate_step w (w\<lparr>w_gate := g, w_holders := Suc (w_holders w)\<rparr>)"
| refused: "gate_arrive now p (w_gate w) = (Decided d, g) \<Longrightarrow> \<not> d_allowed d \<Longrightarrow>
     gate_step w (w\<lparr>w_gate := g\<rparr>)"
| parked: "gate_arrive now p (w_gate w) = (Waits s, g) \<Longrightarrow>
     gate_step w (w\<lparr>w_gate := g, w_parked := s # w_parked w\<rparr>)"
| resumed: "s \<in> set (w_parked w) \<Longrightarrow> s \<notin> set (w_cancelled w) \<Longrightarrow>
     ga_futures (w_gate w) s = Granted \<Longrightarrow>
     gate_step w (w\<lparr>w_holders := Suc (w_holders w), w_parked := removeAll s (w_parked w)\<rparr>)"
| disconnected: "s \<in> set (w_parked w) \<Longrightarrow>
     gate_step w (w\<lparr>w_gate := task_cancel s (w_gate w), w_cancelled := s # w_cancelled w\<rparr>)"
| dropped: "s \<in> set (w_cancelled w) \<Longrightarrow>
     gate_step w (w\<lparr>w_gate := drop_waiter s (w_gate w), w_parked := removeAll s (w_parked w),
                    w_cancelled := removeAll s (w_cancelled w)\<rparr>)"
| released: "w_holders w = Suc n \<Longrightarrow>
     gate_step w (w\<lparr>w_gate := gate_release (w_gate w), w_holders := n\<rparr>)"
| draining: "gate_step w (w\<lparr>w_gate := begin_drain (w_gate w)\<rparr>)"

inductive gate_reachable :: "gate \<Rightarrow> gate_world \<Rightarrow> bool" for g0 where
  start: "gate_reachable g0 \<lparr>w_gate = g0, w_holders = 0, w_parked = [], w_cancelled = []\<rparr>"
| step: "gate_reachable g0 w \<Longrightarrow> gate_step w w' \<Longrightarrow> gate_reachable g0 w'"

section \<open>Invariant\<close>

definition granted_parked :: "gate_world \<Rightarrow> nat set" where
  "granted_parked w = {s \<in> set (w_parked w). ga_futures (w_gate w) s = Granted}"

definition queue_inv :: "gate \<Rightarrow> bool" where
  "queue_inv g = (0 \<le> ga_in_flight g \<and> ga_in_flight g \<le> ga_max g
     \<and> ga_queued g = int (length (ga_waiters g)) \<and> ga_queued g \<le> max 0 (ga_queue_size g)
     \<and> sorted (ga_waiters g) \<and> distinct (map snd (ga_waiters g))
     \<and> (\<forall>s \<in> snd ` set (ga_waiters g). s < ga_seq g))"

definition gate_inv :: "gate \<Rightarrow> bool" where
  "gate_inv g = (queue_inv g \<and> (ga_waiters g \<noteq> [] \<longrightarrow> ga_in_flight g = ga_max g))"

text \<open>Everything a pass of \<open>_wake_next_locked\<close> does, for a set \<open>W\<close> of parked requests.\<close>

lemma wake_next_props:
  assumes "queue_inv g"
  shows "queue_inv (wake_next g) \<and> gate_inv (wake_next g)
    \<and> ga_max (wake_next g) = ga_max g \<and> ga_queue_size (wake_next g) = ga_queue_size g
    \<and> ga_seq (wake_next g) = ga_seq g \<and> ga_draining (wake_next g) = ga_draining g
    \<and> ga_in_flight g \<le> ga_in_flight (wake_next g)
    \<and> (finite W \<longrightarrow> int (card {s \<in> W. ga_futures (wake_next g) s = Granted}) - ga_in_flight (wake_next g)
         \<le> int (card {s \<in> W. ga_futures g s = Granted}) - ga_in_flight g)"
  using assms
proof (induction g rule: wake_next.induct)
  case (1 g)
  show ?case
  proof (cases "ga_waiters g")
    case Nil
    then show ?thesis using "1.prems" by (simp add: wake_next.simps [of g] gate_inv_def)
  next
    case (Cons w ws)
    obtain r s where w: "w = (r, s)" by (cases w)
    show ?thesis
    proof (cases "ga_in_flight g < ga_max g")
      case False
      then show ?thesis using "1.prems" Cons w
        by (simp add: wake_next.simps [of g] gate_inv_def queue_inv_def)
    next
      case room: True
      let ?g1 = "g\<lparr>ga_waiters := ws, ga_queued := max 0 (ga_queued g - 1)\<rparr>"
      have q1: "queue_inv ?g1" using "1.prems" Cons w by (auto simp: queue_inv_def)
      show ?thesis
      proof (cases "ga_futures g s = Pending")
        case False
        then show ?thesis using "1.IH"(1) [OF Cons w [symmetric] _ refl False] room q1 Cons w
          by (simp add: wake_next.simps [of g] Let_def)
      next
        case pend: True
        let ?g2 = "?g1\<lparr>ga_in_flight := ga_in_flight g + 1, ga_futures := (ga_futures g)(s := Granted)\<rparr>"
        have q2: "queue_inv ?g2"
          using q1 room unfolding queue_inv_def by (elim conjE, intro conjI) simp_all
        have run: "wake_next g = wake_next ?g2"
          using Cons w room pend by (simp add: wake_next.simps [of g] Let_def)
        have sub: "{x \<in> W. ga_futures ?g2 x = Granted} \<subseteq> insert s {x \<in> W. ga_futures g x = Granted}"
          by auto
        have crd: "card {x \<in> W. ga_futures ?g2 x = Granted}
            \<le> Suc (card {x \<in> W. ga_futures g x = Granted})"
          if fin: "finite W"
        proof -
          have "card {x \<in> W. ga_futures ?g2 x = Granted} \<le> card (insert s {x \<in> W. ga_futures g x = Granted})"
            using fin by (intro card_mono [OF _ sub]) simp
          also have "\<dots> \<le> Suc (card {x \<in> W. ga_futures g x = Granted})"
            by (simp add: card_insert_if fin)
          finally show ?thesis .
        qed
        show ?thesis
          using "1.IH"(2) [OF Cons w [symmetric] _ refl _ q2] room pend crd unfolding run by auto
      qed
    qed
  qed
qed

abbreviation granted_in :: "nat set \<Rightarrow> gate \<Rightarrow> int" where
  "granted_in W g \<equiv> int (card {s \<in> W. ga_futures g s = Granted})"

lemma gate_inv_queue: "gate_inv g \<Longrightarrow> queue_inv g"
  by (simp add: gate_inv_def)

lemma wake_next_gate_inv [inv_intros]: "queue_inv g \<Longrightarrow> gate_inv (wake_next g)"
  using wake_next_props by blast

lemma wake_next_static:
  assumes "queue_inv g"
  shows "ga_max (wake_next g) = ga_max g" "ga_queue_size (wake_next g) = ga_queue_size g"
    "ga_seq (wake_next g) = ga_seq g" "ga_draining (wake_next g) = ga_draining g"
  using wake_next_props [OF assms] by blast+

lemma wake_next_slots:
  assumes "queue_inv g" "finite W"
  shows "granted_in W (wake_next g) - ga_in_flight (wake_next g) \<le> granted_in W g - ga_in_flight g"
  using wake_next_props [OF assms(1), of W] assms(2) by blast

lemma enqueue_inv:
  assumes "gate_inv g" "ga_in_flight g = ga_max g" "ga_queued g < ga_queue_size g"
  shows "gate_inv (g\<lparr>ga_seq := ga_seq g + 1, ga_waiters := insort (rank, ga_seq g) (ga_waiters g),
            ga_queued := ga_queued g + 1, ga_futures := (ga_futures g)(ga_seq g := Pending)\<rparr>)"
proof -
  have "ga_seq g \<notin> snd ` set (ga_waiters g)"
    using assms(1) by (auto simp: gate_inv_def queue_inv_def)
  moreover have "distinct (map snd (insort (rank, n) ws)) \<longleftrightarrow> n \<notin> snd ` set ws \<and> distinct (map snd ws)"
    for n and ws :: "(nat \<times> nat) list"
    by (induction ws) (auto simp: set_insort_key)
  ultimately show ?thesis
    using assms unfolding gate_inv_def queue_inv_def
    by (auto simp: sorted_insort set_insort_key less_Suc_eq)
qed

lemma arrive_cases:
  assumes inv: "gate_inv g" and pos: "0 < ga_max g" and run: "gate_arrive now p g = (out, g')"
  obtains (drain) "ga_draining g" "out = Decided (deny_concurrency now g)" "g' = g"
    | (take) "ga_in_flight (wake_next g) < ga_max (wake_next g)"
        "g' = (wake_next g)\<lparr>ga_in_flight := ga_in_flight (wake_next g) + 1\<rparr>"
        "out = Decided (admit_decision now g')"
    | (full) "out = Decided (deny_concurrency now (wake_next g))" "g' = wake_next g"
    | (wait) "ga_in_flight (wake_next g) = ga_max (wake_next g)"
        "ga_queued (wake_next g) < ga_queue_size (wake_next g)" "out = Waits (ga_seq (wake_next g))"
        "g' = (wake_next g)\<lparr>ga_seq := ga_seq (wake_next g) + 1,
            ga_waiters := insort (the (map_of PRIORITY_RANK (normalize_priority p)), ga_seq (wake_next g))
              (ga_waiters (wake_next g)),
            ga_queued := ga_queued (wake_next g) + 1,
            ga_futures := (ga_futures (wake_next g))(ga_seq (wake_next g) := Pending)\<rparr>"
proof -
  obtain g1 where g1: "wake_next g = g1" by simp
  have i1: "ga_waiters g1 \<noteq> [] \<Longrightarrow> ga_in_flight g1 = ga_max g1" "ga_in_flight g1 \<le> ga_max g1"
    using wake_next_gate_inv [OF gate_inv_queue [OF inv]] by (auto simp: g1 gate_inv_def queue_inv_def)
  note run1 = run [unfolded gate_arrive_def Let_def g1]
  show thesis
  proof (cases "ga_draining g")
    case True
    then show thesis using run1 pos by (intro drain) auto
  next
    case nodrain: False
    show thesis
    proof (cases "ga_in_flight g1 < ga_max g1")
      case True
      then have "ga_waiters g1 = []" using i1(1) by auto
      then show thesis using True nodrain run1 pos unfolding g1 by (intro take) (auto simp: g1)
    next
      case False
      then have eq: "ga_in_flight g1 = ga_max g1" using i1(2) by simp
      show thesis
      proof (cases "ga_queued g1 \<ge> ga_queue_size g1")
        case True
        then show thesis using False nodrain run1 pos by (intro full) (auto simp: g1)
      next
        case room: False
        then show thesis using False eq nodrain run1 pos by (intro wait) (auto simp: g1)
      qed
    qed
  qed
qed

lemma arrive_props:
  assumes inv: "gate_inv g" and pos: "0 < ga_max g" and fin: "finite W"
    and run: "gate_arrive now p g = (out, g')"
  shows "gate_inv g'" "ga_max g' = ga_max g" "ga_queue_size g' = ga_queue_size g"
    "out = Decided d \<Longrightarrow> d_allowed d \<Longrightarrow> granted_in W g' - ga_in_flight g' + 1 \<le> granted_in W g - ga_in_flight g"
    "out = Decided d \<Longrightarrow> \<not> d_allowed d \<Longrightarrow> granted_in W g' - ga_in_flight g' \<le> granted_in W g - ga_in_flight g"
    "out = Waits s \<Longrightarrow> granted_in (insert s W) g' - ga_in_flight g' \<le> granted_in W g - ga_in_flight g"
proof -
  let ?g1 = "wake_next g" and ?rank = "the (map_of PRIORITY_RANK (normalize_priority p))"
  note q = gate_inv_queue [OF inv]
  note w = wake_next_gate_inv [OF q] wake_next_static [OF q] wake_next_slots [OF q fin]
  consider (drain) "ga_draining g" "out = Decided (deny_concurrency now g)" "g' = g"
    | (take) "ga_in_flight ?g1 < ga_max ?g1"
        "g' = ?g1\<lparr>ga_in_flight := ga_in_flight ?g1 + 1\<rparr>" "out = Decided (admit_decision now g')"
    | (full) "out = Decided (deny_concurrency now ?g1)" "g' = ?g1"
    | (wait) "ga_in_flight ?g1 = ga_max ?g1" "ga_queued ?g1 < ga_queue_size ?g1" "out = Waits (ga_seq ?g1)"
        "g' = ?g1\<lparr>ga_seq := ga_seq ?g1 + 1, ga_waiters := insort (?rank, ga_seq ?g1) (ga_waiters ?g1),
            ga_queued := ga_queued ?g1 + 1, ga_futures := (ga_futures ?g1)(ga_seq ?g1 := Pending)\<rparr>"
    by (rule arrive_cases [OF inv pos run])
  then have "gate_inv g' \<and> ga_max g' = ga_max g \<and> ga_queue_size g' = ga_queue_size g
    \<and> (\<forall>d. out = Decided d \<longrightarrow> d_allowed d \<longrightarrow> granted_in W g' - ga_in_flight g' + 1 \<le> granted_in W g - ga_in_flight g)
    \<and> (\<forall>d. out = Decided d \<longrightarrow> \<not> d_allowed d \<longrightarrow> granted_in W g' - ga_in_flight g' \<le> granted_in W g - ga_in_flight g)
    \<and> (\<forall>s. out = Waits s \<longrightarrow> granted_in (insert s W) g' - ga_in_flight g' \<le> granted_in W g - ga_in_flight g)"
  proof cases
    case drain
    then show ?thesis using inv by (simp add: deny_concurrency_def)
  next
    case take
    have "ga_waiters ?g1 = []" using w(1) take(1) by (auto simp: gate_inv_def)
    then have "gate_inv g'" using w(1) take(1) by (auto simp: take(2) gate_inv_def queue_inv_def)
    then show ?thesis using take w by (simp add: admit_decision_def)
  next
    case full
    then show ?thesis using w by (simp add: deny_concurrency_def)
  next
    case wait
    have "gate_inv g'" using enqueue_inv [OF w(1) wait(1,2), of ?rank] by (simp add: wait(4))
    moreover have "granted_in (insert (ga_seq ?g1) W) g' \<le> granted_in W ?g1"
      using fin by (simp add: wait(4)) (rule card_mono, auto)
    ultimately show ?thesis using wait w by simp
  qed
  then show "gate_inv g'" "ga_max g' = ga_max g" "ga_queue_size g' = ga_queue_size g"
    "out = Decided d \<Longrightarrow> d_allowed d \<Longrightarrow> granted_in W g' - ga_in_flight g' + 1 \<le> granted_in W g - ga_in_flight g"
    "out = Decided d \<Longrightarrow> \<not> d_allowed d \<Longrightarrow> granted_in W g' - ga_in_flight g' \<le> granted_in W g - ga_in_flight g"
    "out = Waits s \<Longrightarrow> granted_in (insert s W) g' - ga_in_flight g' \<le> granted_in W g - ga_in_flight g"
    by blast+
qed

lemma filter_drop_one:
  "distinct (map snd ws) \<Longrightarrow> s \<in> snd ` set ws \<Longrightarrow> Suc (length (filter (\<lambda>w. snd w \<noteq> s) ws)) = length ws"
proof (induction ws)
  case (Cons w ws)
  show ?case
  proof (cases "snd w = s")
    case True
    then have "filter (\<lambda>w. snd w \<noteq> s) ws = ws"
      using Cons.prems(1) by (intro filter_True) (auto simp: rev_image_eqI)
    then show ?thesis using True by simp
  qed (use Cons in auto)
qed simp

lemma drop_waiter_props:
  assumes "gate_inv g"
  shows "gate_inv (drop_waiter s g)" "ga_max (drop_waiter s g) = ga_max g"
    "ga_in_flight (drop_waiter s g) = ga_in_flight g"
    "{x \<in> W. ga_futures (drop_waiter s g) x = Granted} = {x \<in> W. ga_futures g x = Granted}"
proof -
  have len: "max 0 (int (length (ga_waiters g)) - 1) = int (length (filter (\<lambda>w. snd w \<noteq> s) (ga_waiters g)))"
    if "s \<in> snd ` set (ga_waiters g)"
    using filter_drop_one [OF _ that] assms by (simp add: gate_inv_def queue_inv_def)
  have le: "int (length (filter P (ga_waiters g))) \<le> max 0 (ga_queue_size g)" for P
    using assms length_filter_le [of P "ga_waiters g"] unfolding gate_inv_def queue_inv_def by linarith
  have ne: "filter P (ga_waiters g) \<noteq> [] \<Longrightarrow> ga_in_flight g = ga_max g" for P
    using assms by (cases "ga_waiters g") (auto simp: gate_inv_def)
  show "gate_inv (drop_waiter s g)"
    using assms len ne le unfolding drop_waiter_def Let_def gate_inv_def queue_inv_def
    by (auto simp: sorted_wrt_filter distinct_map_filter)
  show "ga_max (drop_waiter s g) = ga_max g" "ga_in_flight (drop_waiter s g) = ga_in_flight g"
    "{x \<in> W. ga_futures (drop_waiter s g) x = Granted} = {x \<in> W. ga_futures g x = Granted}"
    by (auto simp: drop_waiter_def Let_def)
qed

text \<open>Slots counted in flight that no request holds and no granted request is about to take.\<close>

definition lost_slots :: "gate_world \<Rightarrow> int" where
  "lost_slots w = ga_in_flight (w_gate w) - int (w_holders w) - int (card (granted_parked w))"

definition world_inv :: "int \<Rightarrow> gate_world \<Rightarrow> bool" where
  "world_inv m w = (gate_inv (w_gate w) \<and> ga_max (w_gate w) = m \<and> 0 \<le> lost_slots w)"

lemma granted_parked_eq: "int (card (granted_parked w)) = granted_in (set (w_parked w)) (w_gate w)"
  by (simp add: granted_parked_def)

lemma release_props:
  assumes "gate_inv g" "0 < ga_max g" "0 < ga_in_flight g" "finite W"
  shows "gate_inv (gate_release g)" "ga_max (gate_release g) = ga_max g"
    "granted_in W (gate_release g) - ga_in_flight (gate_release g) \<le> granted_in W g - (ga_in_flight g - 1)"
proof -
  let ?g0 = "g\<lparr>ga_in_flight := max 0 (ga_in_flight g - 1)\<rparr>"
  have q: "queue_inv ?g0" using assms by (auto simp: gate_inv_def queue_inv_def)
  show "gate_inv (gate_release g)" "ga_max (gate_release g) = ga_max g"
    using wake_next_gate_inv [OF q] wake_next_static [OF q] assms(2) by (simp_all add: gate_release_def)
  show "granted_in W (gate_release g) - ga_in_flight (gate_release g) \<le> granted_in W g - (ga_in_flight g - 1)"
    using wake_next_slots [OF q assms(4)] assms(2,3) by (simp add: gate_release_def)
qed

lemma world_step:
  assumes "world_inv m w" "0 < m" "gate_step w w'"
  shows "world_inv m w' \<and> lost_slots w \<le> lost_slots w'"
  using assms(3)
proof cases
  case (admitted now p d g)
  then show ?thesis
    using arrive_props [OF _ _ _ admitted(2), of "set (w_parked w)"] assms(1,2)
    by (auto simp: world_inv_def lost_slots_def granted_parked_eq)
next
  case (refused now p d g)
  then show ?thesis
    using arrive_props [OF _ _ _ refused(2), of "set (w_parked w)"] assms(1,2)
    by (auto simp: world_inv_def lost_slots_def granted_parked_eq)
next
  case (parked now p s g)
  then show ?thesis
    using arrive_props [OF _ _ _ parked(2), of "set (w_parked w)"] assms(1,2)
    by (auto simp: world_inv_def lost_slots_def granted_parked_eq)
next
  case (resumed s)
  let ?G = "granted_parked w" and ?G' = "granted_parked w'"
  have mem: "s \<in> ?G" "finite ?G" and eq: "?G' = ?G - {s}"
    using resumed by (auto simp: granted_parked_def)
  have "card ?G = Suc (card ?G')" unfolding eq by (rule card.remove [OF mem(2,1)])
  then show ?thesis using assms(1) resumed(1) by (simp add: world_inv_def lost_slots_def)
next
  case (disconnected s)
  have "granted_parked w' = granted_parked w"
    by (auto simp: disconnected(1) granted_parked_def task_cancel_def)
  then show ?thesis using assms(1)
    by (simp add: disconnected(1) world_inv_def lost_slots_def task_cancel_def gate_inv_def queue_inv_def)
next
  case (dropped s)
  have inv: "gate_inv (w_gate w)" using assms(1) by (simp add: world_inv_def)
  have "granted_parked w' \<subseteq> granted_parked w"
    using drop_waiter_props(4) [OF inv, of "set (w_parked w)" s] by (auto simp: dropped(1) granted_parked_def)
  then have "card (granted_parked w') \<le> card (granted_parked w)"
    by (intro card_mono) (auto simp: granted_parked_def)
  then show ?thesis using assms(1) drop_waiter_props [OF inv]
    by (simp add: dropped(1) world_inv_def lost_slots_def)
next
  case (released n)
  have "0 < ga_in_flight (w_gate w)"
    using assms(1) released(2) by (simp add: world_inv_def lost_slots_def)
  then show ?thesis
    using release_props [of "w_gate w" "set (w_parked w)"] assms(1,2) released
    by (auto simp: world_inv_def lost_slots_def granted_parked_eq)
next
  case draining
  then show ?thesis using assms(1)
    by (auto simp: world_inv_def lost_slots_def begin_drain_def gate_inv_def queue_inv_def granted_parked_def)
qed

lemma reachable_inv:
  assumes "gate_reachable (new_gate m q r b) w" "0 < m"
  shows "world_inv m w"
  using assms(1)
proof induction
  case start
  show ?case using assms(2)
    by (simp add: world_inv_def gate_inv_def queue_inv_def new_gate_def lost_slots_def granted_parked_def)
next
  case (step w w')
  then show ?case using world_step assms(2) by blast
qed

lemma reachable_queue_size:
  assumes "gate_reachable (new_gate m q r b) w" "0 < m"
  shows "ga_queue_size (w_gate w) = q"
  using assms(1)
proof induction
  case start
  show ?case by (simp add: new_gate_def)
next
  case (step w w')
  have inv: "gate_inv (w_gate w)" "ga_max (w_gate w) = m"
    using reachable_inv [OF step.hyps(1) assms(2)] by (simp_all add: world_inv_def)
  have "queue_inv ((w_gate w)\<lparr>ga_in_flight := max 0 (ga_in_flight (w_gate w) - 1)\<rparr>)"
    using inv assms(2) by (auto simp: gate_inv_def queue_inv_def)
  then have rel: "ga_queue_size (gate_release (w_gate w)) = ga_queue_size (w_gate w)"
    using wake_next_static(2) by (fastforce simp: gate_release_def)
  have "ga_queue_size (w_gate w') = ga_queue_size (w_gate w)"
    using step.hyps(2) arrive_props(3) [OF inv(1), of "{}"] inv(2) assms(2) rel
    by cases (auto simp: task_cancel_def drop_waiter_def Let_def begin_drain_def)
  then show ?case using step.IH by simp
qed

text \<open>
  C11. However arrivals, wake-ups, disconnects, releases and a drain interleave, no more than
  \<open>max_in_flight\<close> requests hold a slot, the waiting count is the number of waiters and stays
  within \<open>queue_size\<close>, and nobody waits while a slot is free.
\<close>
theorem gate_never_oversubscribed:
  assumes "gate_reachable (new_gate m q r b) w" "0 < m"
  shows "int (w_holders w) \<le> m \<and> ga_in_flight (w_gate w) \<le> m
    \<and> ga_queued (w_gate w) = int (length (ga_waiters (w_gate w)))
    \<and> ga_queued (w_gate w) \<le> max 0 q
    \<and> (ga_waiters (w_gate w) \<noteq> [] \<longrightarrow> ga_in_flight (w_gate w) = m)"
  using reachable_inv [OF assms] reachable_queue_size [OF assms]
  by (auto simp: world_inv_def lost_slots_def gate_inv_def queue_inv_def)

definition demo_gate :: gate where
  "demo_gate = new_gate 1 1 1 ''memory''"

lemma demo_arrive:
  "gate_arrive 0 None demo_gate = (Decided (admit_decision 0 (demo_gate\<lparr>ga_in_flight := 1\<rparr>)), demo_gate\<lparr>ga_in_flight := 1\<rparr>)"
  "gate_arrive 0 None (demo_gate\<lparr>ga_in_flight := 1\<rparr>) = (Waits 0,
     demo_gate\<lparr>ga_in_flight := 1, ga_seq := 1, ga_waiters := [(1, 0)], ga_queued := 1\<rparr>)"
  by (simp_all add: gate_arrive_def demo_gate_def new_gate_def wake_next.simps Let_def
      normalize_priority_def PRIORITY_RANK_def str_or_def py_strip_def py_lstrip_def py_rstrip_def
      is_space_def py_lower_def lower_char_def fun_upd_def fun_eq_iff)

definition demo_full :: gate_world where
  "demo_full = \<lparr>w_gate = demo_gate\<lparr>ga_in_flight := 1, ga_seq := 1, ga_waiters := [(1, 0)], ga_queued := 1\<rparr>,
     w_holders = 1, w_parked = [0], w_cancelled = []\<rparr>"

lemma demo_full_reachable: "gate_reachable (new_gate 1 1 1 ''memory'') demo_full"
proof -
  let ?w0 = "\<lparr>w_gate = demo_gate, w_holders = 0, w_parked = [], w_cancelled = []\<rparr>"
  let ?w1 = "?w0\<lparr>w_gate := demo_gate\<lparr>ga_in_flight := 1\<rparr>, w_holders := Suc (w_holders ?w0)\<rparr>"
  have "gate_step ?w0 ?w1"
    using demo_arrive(1) by (intro gate_step.admitted [where now = 0 and p = None]) (simp, simp add: admit_decision_def)
  moreover have "gate_step ?w1 (?w1\<lparr>w_gate := demo_gate\<lparr>ga_in_flight := 1, ga_seq := 1, ga_waiters := [(1, 0)], ga_queued := 1\<rparr>,
      w_parked := 0 # w_parked ?w1\<rparr>)"
    using demo_arrive(2) by (intro gate_step.parked [where now = 0 and p = None]) simp
  ultimately show ?thesis
    using gate_reachable.step [OF gate_reachable.step [OF gate_reachable.start]]
    unfolding demo_full_def demo_gate_def [symmetric] by simp
qed

lemma gate_never_oversubscribed_witness:
  "int (w_holders demo_full) \<le> 1 \<and> ga_queued (w_gate demo_full) = int (length (ga_waiters (w_gate demo_full)))"
  using gate_never_oversubscribed [OF demo_full_reachable] by simp

section \<open>Who gets the freed slot\<close>

definition pending_waiters :: "gate \<Rightarrow> (nat \<times> nat) list" where
  "pending_waiters g = filter (\<lambda>w. ga_futures g (snd w) = Pending) (ga_waiters g)"

lemma wake_full: "ga_max g \<le> ga_in_flight g \<Longrightarrow> wake_next g = g"
  by (cases "ga_waiters g") (auto simp: wake_next.simps [of g])

lemma wake_one_slot:
  assumes "ga_in_flight g + 1 = ga_max g" "pending_waiters g = (r, s) # rest"
    "distinct (map snd (ga_waiters g))"
  shows "ga_futures (wake_next g) = (ga_futures g)(s := Granted) \<and> pending_waiters (wake_next g) = rest"
  using assms
proof (induction g rule: wake_next.induct)
  case (1 g)
  obtain w ws where ws: "ga_waiters g = w # ws" using "1.prems"(2) by (cases "ga_waiters g") (auto simp: pending_waiters_def)
  obtain r' s' where w: "w = (r', s')" by (cases w)
  show ?case
  proof (cases "ga_futures g s' = Pending")
    case False
    have "pending_waiters (g\<lparr>ga_waiters := ws, ga_queued := max 0 (ga_queued g - 1)\<rparr>) = pending_waiters g"
      using False ws w by (simp add: pending_waiters_def)
    then show ?thesis
      using "1.IH"(1) [OF ws w [symmetric] _ refl False] "1.prems" ws w False
      by (simp add: wake_next.simps [of g] Let_def)
  next
    case True
    let ?g2 = "g\<lparr>ga_waiters := ws, ga_queued := max 0 (ga_queued g - 1),
      ga_in_flight := ga_in_flight g + 1, ga_futures := (ga_futures g)(s := Granted)\<rparr>"
    have eq: "r' = r" "s' = s" "filter (\<lambda>w. ga_futures g (snd w) = Pending) ws = rest"
      using True "1.prems"(2) ws w by (simp_all add: pending_waiters_def)
    have "wake_next g = wake_next ?g2"
      using True "1.prems"(1) ws w eq by (simp add: wake_next.simps [of g] Let_def)
    then have run: "wake_next g = ?g2" using wake_full [of ?g2] "1.prems"(1) by simp
    have "filter (\<lambda>w. ((ga_futures g)(s := Granted)) (snd w) = Pending) ws = rest"
      (is "?l = _")
    proof -
      have "?l = filter (\<lambda>w. ga_futures g (snd w) = Pending) ws"
        using "1.prems"(3) ws w eq(2) by (intro filter_cong) auto
      then show ?thesis using eq(3) by simp
    qed
    then show ?thesis by (simp add: run pending_waiters_def)
  qed
qed

text \<open>
  C25. A release with requests waiting hands the slot to the waiter of the best priority class,
  the oldest within its class, skipping waiters that were cancelled; every other pending waiter
  keeps waiting, in order, and no slot stays free.
\<close>
theorem freed_slot_goes_to_best_waiter:
  assumes "gate_inv g" "0 < ga_max g" "pending_waiters g = (r, s) # rest"
  shows "ga_futures (gate_release g) s = Granted \<and> pending_waiters (gate_release g) = rest
    \<and> (\<forall>x. x \<noteq> s \<longrightarrow> ga_futures (gate_release g) x = ga_futures g x)
    \<and> (\<forall>(r', s') \<in> set rest. r < r' \<or> r = r' \<and> s < s')
    \<and> ga_in_flight (gate_release g) = ga_max g"
proof -
  let ?g0 = "g\<lparr>ga_in_flight := max 0 (ga_in_flight g - 1)\<rparr>"
  have ne: "ga_waiters g \<noteq> []" using assms(3) by (auto simp: pending_waiters_def)
  then have full: "ga_in_flight g = ga_max g" using assms(1) by (simp add: gate_inv_def)
  have d: "distinct (map snd (ga_waiters g))" and so: "sorted (ga_waiters g)"
    using assms(1) by (simp_all add: gate_inv_def queue_inv_def)
  have p0: "pending_waiters ?g0 = (r, s) # rest" using assms(3) by (simp add: pending_waiters_def)
  have w: "ga_futures (wake_next ?g0) = (ga_futures g)(s := Granted) \<and> pending_waiters (wake_next ?g0) = rest"
    
    using wake_one_slot [of ?g0, OF _ p0] full assms(2) d by simp
  have "sorted ((r, s) # rest)" "distinct (map snd ((r, s) # rest))"
    using so d unfolding assms(3) [symmetric] by (auto simp: pending_waiters_def sorted_wrt_filter distinct_map_filter)
  then have ord: "\<forall>(r', s') \<in> set rest. r < r' \<or> r = r' \<and> s < s'" by force
  have q: "queue_inv ?g0" using assms(1,2) by (auto simp: gate_inv_def queue_inv_def)
  have "granted_in {s} (wake_next ?g0) - ga_in_flight (wake_next ?g0) \<le> granted_in {s} ?g0 - ga_in_flight ?g0"
    by (rule wake_next_slots [OF q]) simp
  moreover have "ga_futures g s = Pending" 
    using filter_eq_ConsD [OF assms(3) [unfolded pending_waiters_def]] by auto
  ultimately have "ga_max g \<le> ga_in_flight (wake_next ?g0)"
    using w full assms(2) by (simp add: Collect_conv_if)
  moreover have "ga_in_flight (wake_next ?g0) \<le> ga_max g"
    using wake_next_gate_inv [OF q] wake_next_static(1) [OF q] by (simp add: gate_inv_def queue_inv_def)
  ultimately show ?thesis using w ord assms(2) by (simp add: gate_release_def)
qed

definition busy_gate :: gate where
  "busy_gate = (new_gate 1 3 1 ''memory'')\<lparr>ga_in_flight := 1, ga_queued := 3, ga_seq := 3,
     ga_waiters := [(0, 1), (1, 0), (1, 2)], ga_futures := (\<lambda>_. Pending)(1 := Cancelled)\<rparr>"

lemma freed_slot_goes_to_best_waiter_witness:
  "ga_futures (gate_release busy_gate) 0 = Granted \<and> pending_waiters (gate_release busy_gate) = [(1, 2)]"
  using freed_slot_goes_to_best_waiter [of busy_gate 1 0 "[(1, 2)]"]
  by (simp add: busy_gate_def new_gate_def gate_inv_def queue_inv_def less_eq_prod_def pending_waiters_def)

section \<open>Disconnects\<close>

lemma steps_keep_lost:
  "gate_step\<^sup>*\<^sup>* w w' \<Longrightarrow> world_inv m w \<Longrightarrow> 0 < m \<Longrightarrow> world_inv m w' \<and> lost_slots w \<le> lost_slots w'"
proof (induction rule: rtranclp_induct)
  case (step y z)
  then show ?case using world_step [of m y z] by auto
qed simp

lemma drop_granted: "gate_inv g \<Longrightarrow> s \<notin> snd ` set (ga_waiters g) \<Longrightarrow> ga_futures g s = Granted \<Longrightarrow> drop_waiter s g = g"
  by (simp add: drop_waiter_def Let_def)

text \<open>
  A request whose client disconnects after its future was granted and before it resumed
  loses its slot for good: the handler finds no waiter to drop and gives nothing back, no later
  step returns the slot, and from then on at most \<open>max_in_flight\<close> less one requests ever run.
\<close>
theorem disconnect_after_grant_loses_the_slot:
  assumes "gate_reachable (new_gate m q r b) w" "0 < m"
    and "s \<in> set (w_parked w)" "ga_futures (w_gate w) s = Granted"
  shows "\<exists>w'. gate_step\<^sup>*\<^sup>* w w' \<and> lost_slots w' = lost_slots w + 1
    \<and> w_holders w' = w_holders w \<and> s \<notin> set (w_parked w')
    \<and> (\<forall>w''. gate_step\<^sup>*\<^sup>* w' w'' \<longrightarrow> int (w_holders w'') \<le> m - 1)"
proof -
  let ?w1 = "w\<lparr>w_gate := task_cancel s (w_gate w), w_cancelled := s # w_cancelled w\<rparr>"
  let ?w2 = "?w1\<lparr>w_gate := drop_waiter s (w_gate ?w1), w_parked := removeAll s (w_parked ?w1),
    w_cancelled := removeAll s (w_cancelled ?w1)\<rparr>"
  have inv: "world_inv m w" by (rule reachable_inv [OF assms(1,2)])
  have t: "task_cancel s (w_gate w) = w_gate w" using assms(4) by (simp add: task_cancel_def)
  have s1: "gate_step w ?w1" by (rule gate_step.disconnected [OF assms(3)])
  have s2: "gate_step ?w1 ?w2" by (rule gate_step.dropped) simp
  have steps: "gate_step\<^sup>*\<^sup>* w ?w2" using s1 s2 by auto
  have gi: "gate_inv (w_gate w)" using inv by (simp add: world_inv_def)
  have mem: "s \<in> granted_parked w" and fin: "finite (granted_parked w)"
    using assms(3,4) by (simp_all add: granted_parked_def)
  have eq: "granted_parked ?w2 = granted_parked w - {s}"
    using drop_waiter_props(4) [OF gi, of "set (w_parked w) - {s}" s]
    by (auto simp: granted_parked_def t)
  have "card (granted_parked w) = Suc (card (granted_parked ?w2))"
    unfolding eq by (rule card.remove [OF fin mem])
  then have lost: "lost_slots ?w2 = lost_slots w + 1"
    using drop_waiter_props(3) [OF gi] by (simp add: lost_slots_def t)
  have "int (w_holders w'') \<le> m - 1" if "gate_step\<^sup>*\<^sup>* ?w2 w''" for w''
  proof -
    have "world_inv m ?w2" using steps_keep_lost [OF steps inv assms(2)] by simp
    then have i: "world_inv m w''" "lost_slots ?w2 \<le> lost_slots w''"
      using steps_keep_lost [OF that _ assms(2)] by auto
    have "1 \<le> lost_slots w''" using i(2) lost inv by (simp add: world_inv_def)
    then show ?thesis using i(1) by (auto simp: world_inv_def lost_slots_def gate_inv_def queue_inv_def)
  qed
  moreover have "w_holders ?w2 = w_holders w" "s \<notin> set (w_parked ?w2)" by simp_all
  ultimately show ?thesis using steps lost by blast
qed

definition demo_granted :: gate_world where
  "demo_granted = demo_full\<lparr>w_gate := gate_release (w_gate demo_full), w_holders := 0\<rparr>"

lemma demo_granted_reachable: "gate_reachable (new_gate 1 1 1 ''memory'') demo_granted"
  unfolding demo_granted_def
  by (rule gate_reachable.step [OF demo_full_reachable gate_step.released]) (simp add: demo_full_def)

lemma disconnect_after_grant_loses_the_slot_witness:
  "\<exists>w'. gate_step\<^sup>*\<^sup>* demo_granted w' \<and> (\<forall>w''. gate_step\<^sup>*\<^sup>* w' w'' \<longrightarrow> w_holders w'' = 0)"
proof -
  have "ga_futures (w_gate demo_granted) 0 = Granted" "0 \<in> set (w_parked demo_granted)"
    by (simp_all add: demo_granted_def demo_full_def demo_gate_def new_gate_def gate_release_def
        wake_next.simps Let_def)
  then show ?thesis
    using disconnect_after_grant_loses_the_slot [OF demo_granted_reachable] by fastforce
qed

end
