(* ===== verification/AuthFailures.thy ===== *)
theory AuthFailures
  imports Prelude
begin

text \<open>
  Counting failed authentications: the soft lockout of a key prefix
  (\<open>daari/auth/key_lockout.py\<close>) and the throttle of a client address
  (\<open>daari/auth/invalid_key_throttle.py\<close>).

  Both keep time stamps per name and forget those older than a window; the locale
  \<open>failure_window\<close> is that contract, interpreted on both. What Redis answers is an argument:
  \<open>NoRedis\<close> (no client), \<open>RedisFailed\<close> (any exception of the attempt) or the replies read.
\<close>

section \<open>Shared pieces\<close>

datatype 'a redis_said = NoRedis | RedisFailed | RedisSaid 'a

definition LOOPBACK :: "pystr set" where
  "LOOPBACK = {''127.0.0.1'', ''::1'', ''localhost'', ''0:0:0:0:0:0:0:1'', ''testclient''}"

definition is_loopback :: "pystr \<Rightarrow> bool" where
  "is_loopback ip = (let host = py_strip_chars ''[]'' (py_lower (py_strip ip)) in
     host \<in> LOOPBACK \<or> starts_with host ''127.'')"

definition prune :: "pyfloat \<Rightarrow> pyfloat list \<Rightarrow> pyfloat \<Rightarrow> pyfloat list" where
  "prune window stamps now = filter (\<lambda>t. t \<ge> now - window) stamps"

type_synonym stamp_map = "(pystr \<times> pyfloat list) list"

definition stamps_of :: "stamp_map \<Rightarrow> pystr \<Rightarrow> pyfloat list" where
  "stamps_of hits k = (case map_of hits k of None \<Rightarrow> [] | Some ts \<Rightarrow> ts)"

lemma stamps_of_update [simp]:
  "stamps_of (AList.update k ts hits) j = (if j = k then ts else stamps_of hits j)"
  by (simp add: stamps_of_def)

lemma prune_prune: "prune w (prune w ts now) now = prune w ts now"
  by (simp add: prune_def)

section \<open>Key lockout\<close>

record lockout_decision =
  ld_allowed :: bool
  ld_retry_after :: int
  ld_failures :: int
  ld_prefix :: pystr

record lockout_cfg =
  kl_max :: int
  kl_window :: pyfloat
  kl_lockout :: int
  kl_enabled :: bool
  kl_exempt_loopback :: bool
  kl_key_prefix :: pystr

record lockout =
  lo_hits :: stamp_map
  lo_until :: "(pystr \<times> pyfloat) list"

datatype lockout_cmd = LIncr pystr | LExpire pystr int | LSetEx pystr pystr int | LDelete "pystr list"

definition lock_subject :: "pystr option \<Rightarrow> pystr" where
  "lock_subject supplied = (let p = take 10 (str_or supplied '''') in if p = '''' then ''anonymous'' else p)"

definition lockout_skip :: "lockout_cfg \<Rightarrow> pystr \<Rightarrow> bool" where
  "lockout_skip c ip = (if \<not> kl_enabled c \<or> kl_max c \<le> 0 then True
     else if kl_exempt_loopback c \<and> is_loopback ip then True else False)"

definition count_key :: "lockout_cfg \<Rightarrow> pystr \<Rightarrow> pystr" where
  "count_key c p = kl_key_prefix c @ p"

definition lock_key :: "lockout_cfg \<Rightarrow> pystr \<Rightarrow> pystr" where
  "lock_key c p = kl_key_prefix c @ ''lock:'' @ p"

text \<open>\<open>ttl\<close> is the reply to \<open>TTL\<close>, \<open>None\<close> when the client has no such call or it raised.\<close>

definition redis_retry :: "lockout_cfg \<Rightarrow> int option \<Rightarrow> int" where
  "redis_retry c ttl = (case ttl of Some raw \<Rightarrow> (if raw > 0 then raw else max 1 (kl_lockout c))
     | None \<Rightarrow> max 1 (kl_lockout c))"

text \<open>Redis replies of \<open>check\<close>: the lock is set, its ttl, and the count key.\<close>

definition lockout_check ::
    "lockout_cfg \<Rightarrow> (bool \<times> int option \<times> int option) redis_said \<Rightarrow> pystr option \<Rightarrow> pystr \<Rightarrow> pyfloat \<Rightarrow>
     lockout \<Rightarrow> lockout_decision \<times> lockout" where
  "lockout_check c redis supplied ip now st =
     (let p = lock_subject supplied;
          allow = (\<lambda>n. \<lparr>ld_allowed = True, ld_retry_after = 0, ld_failures = n, ld_prefix = p\<rparr>);
          deny = (\<lambda>r n. \<lparr>ld_allowed = False, ld_retry_after = r, ld_failures = n, ld_prefix = p\<rparr>);
          local = (let until = (case map_of (lo_until st) p of None \<Rightarrow> 0 | Some u \<Rightarrow> u) in
            if until > now then (deny (max 1 \<lceil>until - now\<rceil>) (kl_max c), st)
            else (let stamps = prune (kl_window c) (stamps_of (lo_hits st) p) now;
                      st' = st\<lparr>lo_hits := AList.update p stamps (lo_hits st)\<rparr>;
                      failures = int (length stamps)
                  in if failures \<ge> kl_max c then (deny (max 1 (kl_lockout c)) failures, st')
                     else (allow failures, st')))
      in if lockout_skip c ip then (allow 0, st)
         else (case redis of
             RedisSaid (locked, ttl, raw) \<Rightarrow>
               (if locked then (deny (redis_retry c ttl) (kl_max c), st)
                else (let failures = num_or raw 0 in
                  if failures \<ge> kl_max c then (deny (max 1 (kl_lockout c)) failures, st)
                  else (allow failures, st)))
           | _ \<Rightarrow> local))"

text \<open>The in-process part of \<open>record_failure\<close>.\<close>

definition lockout_add_local :: "lockout_cfg \<Rightarrow> pystr \<Rightarrow> pyfloat \<Rightarrow> lockout \<Rightarrow> int \<times> lockout" where
  "lockout_add_local c p now st =
     (let stamps = prune (kl_window c) (stamps_of (lo_hits st) p) now @ [now];
          count = int (length stamps);
          st1 = st\<lparr>lo_hits := AList.update p stamps (lo_hits st)\<rparr>
      in (count,
          if count \<ge> kl_max c
          then st1\<lparr>lo_until := AList.update p (now + of_int (max 1 (kl_lockout c))) (lo_until st)\<rparr>
          else st1))"

text \<open>The reply of \<open>record_failure\<close> is the counter after \<open>INCR\<close>.\<close>

definition lockout_record_failure ::
    "lockout_cfg \<Rightarrow> int redis_said \<Rightarrow> pystr option \<Rightarrow> pystr \<Rightarrow> pyfloat \<Rightarrow> lockout \<Rightarrow>
     int \<times> lockout \<times> lockout_cmd list" where
  "lockout_record_failure c redis supplied ip now st =
     (if lockout_skip c ip then (0, st, [])
      else let p = lock_subject supplied in
        (case redis of
           RedisSaid count \<Rightarrow>
             (count, st, [LIncr (count_key c p)]
                @ (if count = 1 then [LExpire (count_key c p) (py_trunc (max 1 (kl_window c)))] else [])
                @ (if count \<ge> kl_max c then [LSetEx (lock_key c p) ''1'' (max 1 (kl_lockout c))] else []))
         | _ \<Rightarrow>
             (case lockout_add_local c p now st of (count, st') \<Rightarrow> (count, st', []))))"

text \<open>The reply of \<open>unlock\<close> is the number of keys \<open>DEL\<close> removed.\<close>

definition lockout_unlock ::
    "lockout_cfg \<Rightarrow> int redis_said \<Rightarrow> pystr option \<Rightarrow> lockout \<Rightarrow> bool \<times> lockout \<times> lockout_cmd list" where
  "lockout_unlock c redis supplied st =
     (let p = lock_subject supplied;
          cleared = (case redis of RedisSaid removed \<Rightarrow> removed \<noteq> 0 | _ \<Rightarrow> False);
          cmds = (case redis of RedisSaid removed \<Rightarrow> [LDelete [count_key c p, lock_key c p]] | _ \<Rightarrow> []);
          had = map_of (lo_hits st) p \<noteq> None \<or> map_of (lo_until st) p \<noteq> None
      in (cleared \<or> had,
          st\<lparr>lo_hits := AList.delete p (lo_hits st), lo_until := AList.delete p (lo_until st)\<rparr>, cmds))"

text \<open>Redis replies of \<open>locked_inventory\<close>: the keys found with the ttl of each.\<close>

definition locked_inventory ::
    "lockout_cfg \<Rightarrow> (pystr \<times> int option) list redis_said \<Rightarrow> pyfloat \<Rightarrow> lockout \<Rightarrow> (pystr \<times> int) list" where
  "locked_inventory c redis now st =
     (let marker = kl_key_prefix c @ ''lock:'';
          far = (case redis of RedisSaid keys \<Rightarrow>
              [(drop (length marker) k, redis_retry c ttl).
                 (k, ttl) \<leftarrow> keys, starts_with k marker \<and> drop (length marker) k \<noteq> '''']
            | _ \<Rightarrow> []);
          near = [(p, max 1 \<lceil>until - now\<rceil>). (p, until) \<leftarrow> lo_until st, until > now];
          found = fold (\<lambda>(p, s). AList.update p s) (far @ near) []
      in sort_key fst found)"

definition locked_prefixes ::
    "lockout_cfg \<Rightarrow> (pystr \<times> int option) list redis_said \<Rightarrow> pyfloat \<Rightarrow> lockout \<Rightarrow> pystr list" where
  "locked_prefixes c redis now st = map fst (locked_inventory c redis now st)"

section \<open>Address throttle\<close>

record throttle_cfg =
  at_max :: int
  at_window :: pyfloat
  at_base :: int
  at_enabled :: bool
  at_exempt_loopback :: bool

record throttle_decision =
  td_allowed :: bool
  td_retry_after :: int
  td_failures :: int

definition throttle_backoff :: "throttle_cfg \<Rightarrow> int \<Rightarrow> int" where
  "throttle_backoff c failures =
     (let over = max 1 (failures - at_max c + 1)
      in min (py_trunc (at_window c)) (at_base c * 2 ^ nat (over - 1)))"

definition throttle_ip :: "pystr \<Rightarrow> pystr" where
  "throttle_ip ip = (if py_strip ip = '''' then ''unknown'' else py_strip ip)"

definition throttle_count ::
    "throttle_cfg \<Rightarrow> int option redis_said \<Rightarrow> pystr \<Rightarrow> pyfloat \<Rightarrow> stamp_map \<Rightarrow> int \<times> stamp_map" where
  "throttle_count c redis ip now hits =
     (case redis of RedisSaid raw \<Rightarrow> (num_or raw 0, hits)
      | _ \<Rightarrow> (let stamps = prune (at_window c) (stamps_of hits ip) now
              in (int (length stamps), AList.update ip stamps hits)))"

definition throttle_add ::
    "throttle_cfg \<Rightarrow> int redis_said \<Rightarrow> pystr \<Rightarrow> pyfloat \<Rightarrow> stamp_map \<Rightarrow>
     int \<times> stamp_map \<times> lockout_cmd list" where
  "throttle_add c redis ip now hits =
     (let key = ''daari:auth_fail:'' @ ip in
      case redis of
        RedisSaid count \<Rightarrow> (count, hits, [LIncr key]
          @ (if count = 1 then [LExpire key (py_trunc (max 1 (at_window c)))] else []))
      | _ \<Rightarrow> (let stamps = prune (at_window c) (stamps_of hits ip) now @ [now]
              in (int (length stamps), AList.update ip stamps hits, [])))"

definition throttle_check ::
    "throttle_cfg \<Rightarrow> int option redis_said \<Rightarrow> pystr \<Rightarrow> pyfloat \<Rightarrow> stamp_map \<Rightarrow>
     throttle_decision \<times> stamp_map" where
  "throttle_check c redis client_ip now hits =
     (let allow = (\<lambda>n. \<lparr>td_allowed = True, td_retry_after = 0, td_failures = n\<rparr>); ip = throttle_ip client_ip in
      if \<not> at_enabled c \<or> at_max c \<le> 0 then (allow 0, hits)
      else if at_exempt_loopback c \<and> is_loopback ip then (allow 0, hits)
      else (case throttle_count c redis ip now hits of (failures, hits') \<Rightarrow>
        (if failures \<ge> at_max c
         then (\<lparr>td_allowed = False, td_retry_after = throttle_backoff c failures, td_failures = failures\<rparr>, hits')
         else (allow failures, hits'))))"

definition throttle_record_failure ::
    "throttle_cfg \<Rightarrow> int redis_said \<Rightarrow> pystr \<Rightarrow> pyfloat \<Rightarrow> stamp_map \<Rightarrow>
     int \<times> stamp_map \<times> lockout_cmd list" where
  "throttle_record_failure c redis client_ip now hits =
     (let ip = throttle_ip client_ip in
      if \<not> at_enabled c \<or> at_max c \<le> 0 then (0, hits, [])
      else if at_exempt_loopback c \<and> is_loopback ip then (0, hits, [])
      else throttle_add c redis ip now hits)"

definition client_ip_from_request :: "pystr option option \<Rightarrow> pystr" where
  "client_ip_from_request client = (case client of None \<Rightarrow> ''unknown'' | Some host \<Rightarrow> str_or host ''unknown'')"

section \<open>The contract of a failure window\<close>

locale failure_window =
  fixes window :: pyfloat
    and record_one :: "pystr \<Rightarrow> pyfloat \<Rightarrow> 's \<Rightarrow> int \<times> 's"
    and seen :: "pystr \<Rightarrow> pyfloat \<Rightarrow> 's \<Rightarrow> int"
    and stamps :: "'s \<Rightarrow> pystr \<Rightarrow> pyfloat list"
  assumes record_stamps: "stamps (snd (record_one k now s)) j
        = (if j = k then prune window (stamps s k) now @ [now] else stamps s j)"
    and record_count: "fst (record_one k now s) = int (length (prune window (stamps s k) now)) + 1"
    and seen_count: "seen k now s = int (length (prune window (stamps s k) now))"
begin

fun record_all :: "pystr \<Rightarrow> pyfloat list \<Rightarrow> 's \<Rightarrow> 's" where
  "record_all k [] s = s"
| "record_all k (t # ts) s = record_all k ts (snd (record_one k t s))"

lemma record_all_other: "j \<noteq> k \<Longrightarrow> stamps (record_all k ts s) j = stamps s j"
  by (induction ts arbitrary: s) (auto simp: record_stamps)

text \<open>Failures less than a window old are all counted.\<close>

lemma record_all_counts:
  assumes "\<forall>t \<in> set ts. now - window \<le> t \<and> t \<le> now"
  shows "prune window (stamps (record_all k ts s) k) now = prune window (stamps s k) now @ ts"
  using assms
proof (induction ts arbitrary: s)
  case Nil
  then show ?case by simp
next
  case (Cons t ts)
  have "prune window (prune window (stamps s k) t @ [t]) now = prune window (stamps s k) now @ [t]"
    using Cons.prems by (auto simp: prune_def intro!: filter_cong)
  then show ?case using Cons by (simp add: record_stamps)
qed

lemma seen_after:
  assumes "\<forall>t \<in> set ts. now - window \<le> t \<and> t \<le> now"
  shows "seen k now (record_all k ts s) = seen k now s + int (length ts)"
  by (simp add: seen_count record_all_counts [OF assms])

end

text \<open>Both in-process counters, for a name that is not exempt.\<close>

definition throttle_seen :: "throttle_cfg \<Rightarrow> pystr \<Rightarrow> pyfloat \<Rightarrow> stamp_map \<Rightarrow> int" where
  "throttle_seen c k now hits = fst (throttle_count c NoRedis k now hits)"

definition throttle_local_add :: "throttle_cfg \<Rightarrow> pystr \<Rightarrow> pyfloat \<Rightarrow> stamp_map \<Rightarrow> int \<times> stamp_map" where
  "throttle_local_add c k now hits =
     (case throttle_add c NoRedis k now hits of (n, hits', cmds) \<Rightarrow> (n, hits'))"

definition lockout_seen :: "lockout_cfg \<Rightarrow> pystr \<Rightarrow> pyfloat \<Rightarrow> lockout \<Rightarrow> int" where
  "lockout_seen c p now st = int (length (prune (kl_window c) (stamps_of (lo_hits st) p) now))"

interpretation throttle_window: failure_window "at_window c" "throttle_local_add c" "throttle_seen c" stamps_of
  for c
  by unfold_locales (auto simp: throttle_local_add_def throttle_add_def throttle_seen_def throttle_count_def Let_def)

interpretation lockout_window: failure_window "kl_window c" "lockout_add_local c" "lockout_seen c"
  "\<lambda>st. stamps_of (lo_hits st)" for c
  by unfold_locales (auto simp: lockout_add_local_def lockout_seen_def Let_def)

section \<open>Properties\<close>

text \<open>A run of failures through the public operation, without Redis.\<close>

fun lockout_failures :: "lockout_cfg \<Rightarrow> pystr option \<Rightarrow> pystr \<Rightarrow> pyfloat list \<Rightarrow> lockout \<Rightarrow> lockout" where
  "lockout_failures c k ip [] st = st"
| "lockout_failures c k ip (t # ts) st =
     (case lockout_record_failure c NoRedis k ip t st of (n, st', cmds) \<Rightarrow> lockout_failures c k ip ts st')"

lemma lockout_failures_record_all:
  assumes "\<not> lockout_skip c ip"
  shows "lockout_failures c k ip ts st = lockout_window.record_all c (lock_subject k) ts st"
  using assms
  by (induction ts arbitrary: st) (simp_all add: lockout_record_failure_def Let_def case_prod_unfold)

definition no_failures :: lockout where
  "no_failures = \<lparr>lo_hits = [], lo_until = []\<rparr>"

lemma until_after:
  "lockout_window.record_all c p ts st = st' \<Longrightarrow> q \<noteq> p \<Longrightarrow> map_of (lo_until st') q = map_of (lo_until st) q"
  by (induction ts arbitrary: st) (auto simp: lockout_add_local_def Let_def)

lemma until_dom_step:
  "fst ` set (lo_until (snd (lockout_add_local c p t s))) \<subseteq> insert p (fst ` set (lo_until s))"
  "distinct (map fst (lo_until s)) \<Longrightarrow> distinct (map fst (lo_until (snd (lockout_add_local c p t s))))"
  by (auto simp: lockout_add_local_def Let_def dom_update distinct_update split: if_splits)

lemma until_dom:
  "fst ` set (lo_until (lockout_window.record_all c p xs s)) \<subseteq> insert p (fst ` set (lo_until s))"
  "distinct (map fst (lo_until s)) \<Longrightarrow> distinct (map fst (lo_until (lockout_window.record_all c p xs s)))"
proof (induction xs arbitrary: s)
  case (Cons t xs)
  case 1
  show ?case using Cons.IH(1) [of "snd (lockout_add_local c p t s)"] until_dom_step(1) [of c p t s] by auto
  case 2
  then show ?case using Cons.IH(2) [OF until_dom_step(2)] by simp
qed auto

lemma last_failure_locks:
  assumes "int (length ts) + 1 \<ge> kl_max c" "\<forall>x \<in> set ts. t - kl_window c \<le> x \<and> x \<le> t"
  shows "map_of (lo_until (lockout_window.record_all c p (ts @ [t]) st)) p
    = Some (t + of_int (max 1 (kl_lockout c)))"
proof -
  let ?s = "lockout_window.record_all c p ts st"
  have app: "lockout_window.record_all c p (xs @ ys) s
      = lockout_window.record_all c p ys (lockout_window.record_all c p xs s)" for xs ys s
    by (induction xs arbitrary: s) auto
  have "int (length ts) \<le> int (length (prune (kl_window c) (stamps_of (lo_hits ?s) p) t))"
    by (simp add: lockout_window.record_all_counts [OF assms(2)])
  then show ?thesis using assms(1) by (simp add: app lockout_add_local_def Let_def)
qed

text \<open>
  Without Redis, \<open>max_failures\<close> failures of one key prefix inside \<open>window_seconds\<close> lock it:
  every check of the prefix before \<open>lockout_seconds\<close> have passed since the last failure is
  refused, with the seconds left as retry hint, whatever the state was before. Other prefixes
  are not touched.
\<close>
theorem storm_locks_the_prefix:
  assumes "\<not> lockout_skip c ip" "int (length ts) + 1 \<ge> kl_max c"
    and "\<forall>x \<in> set ts. t - kl_window c \<le> x \<and> x \<le> t"
    and "now < t + of_int (max 1 (kl_lockout c))" "lock_subject k' \<noteq> lock_subject k"
  shows "fst (lockout_check c NoRedis k ip now (lockout_failures c k ip (ts @ [t]) st))
      = \<lparr>ld_allowed = False, ld_retry_after = max 1 \<lceil>t + of_int (max 1 (kl_lockout c)) - now\<rceil>,
         ld_failures = kl_max c, ld_prefix = lock_subject k\<rparr>
    \<and> fst (lockout_check c NoRedis k' ip now (lockout_failures c k ip (ts @ [t]) st))
      = fst (lockout_check c NoRedis k' ip now st)"
proof -
  let ?p = "lock_subject k" and ?st = "lockout_window.record_all c (lock_subject k) (ts @ [t]) st"
  have run: "lockout_failures c k ip (ts @ [t]) st = ?st"
    by (rule lockout_failures_record_all [OF assms(1)])
  have lock: "map_of (lo_until ?st) ?p = Some (t + of_int (max 1 (kl_lockout c)))"
    by (rule last_failure_locks [OF assms(2,3)])
  have "map_of (lo_until ?st) (lock_subject k') = map_of (lo_until st) (lock_subject k')"
    "stamps_of (lo_hits ?st) (lock_subject k') = stamps_of (lo_hits st) (lock_subject k')"
    using until_after [OF refl assms(5)] lockout_window.record_all_other [OF assms(5)] by auto
  then show ?thesis unfolding run using lock assms(1,4)
    by (simp add: lockout_check_def Let_def del: lockout_window.record_all.simps)
qed

definition demo_lockout :: lockout_cfg where
  "demo_lockout = \<lparr>kl_max = 3, kl_window = 60, kl_lockout = 10, kl_enabled = True,
     kl_exempt_loopback = True, kl_key_prefix = ''daari:auth_key_fail:''\<rparr>"

lemma demo_no_skip [simp]: "\<not> lockout_skip demo_lockout ''10.0.0.9''"
  by code_simp

lemma storm_locks_the_prefix_witness:
  "\<not> ld_allowed (fst (lockout_check demo_lockout NoRedis (Some ''sk-abc'') ''10.0.0.9'' 8
      (lockout_failures demo_lockout (Some ''sk-abc'') ''10.0.0.9'' [1, 2, 3] no_failures)))"
  using storm_locks_the_prefix [of demo_lockout "''10.0.0.9''" "[1, 2]" 3 8 "Some ''other''" "Some ''sk-abc''" no_failures]
  by (simp add: demo_lockout_def [THEN arg_cong [where f = kl_max]] demo_lockout_def [THEN arg_cong [where f = kl_window]]
      demo_lockout_def [THEN arg_cong [where f = kl_lockout]] lock_subject_def Let_def)

text \<open>
  The lock outlives its timer when \<open>lockout_seconds\<close> is shorter than \<open>window_seconds\<close>: after
  \<open>lockout_seconds\<close> have passed and while the failures are inside the window, the prefix is
  still refused, each time with the full \<open>lockout_seconds\<close> as retry hint, and the inventory of
  locked prefixes does not list it.
\<close>
theorem lock_outlives_its_timer:
  assumes "\<not> lockout_skip c ip" "int (length ts) + 1 \<ge> kl_max c"
    and "\<forall>x \<in> set ts. now - kl_window c \<le> x \<and> x \<le> t" "now - kl_window c \<le> t"
    and "t + of_int (max 1 (kl_lockout c)) \<le> now"
  shows "ld_allowed (fst (lockout_check c NoRedis k ip now (lockout_failures c k ip (ts @ [t]) no_failures))) = False
    \<and> ld_retry_after (fst (lockout_check c NoRedis k ip now (lockout_failures c k ip (ts @ [t]) no_failures)))
        = max 1 (kl_lockout c)
    \<and> locked_inventory c NoRedis now (lockout_failures c k ip (ts @ [t]) no_failures) = []"
proof -
  let ?p = "lock_subject k" and ?st = "lockout_window.record_all c (lock_subject k) (ts @ [t]) no_failures"
  have run: "lockout_failures c k ip (ts @ [t]) no_failures = ?st"
    by (rule lockout_failures_record_all [OF assms(1)])
  have le: "of_int (max 1 (kl_lockout c)) \<ge> (1::rat)" by simp
  have all: "\<forall>x \<in> set (ts @ [t]). now - kl_window c \<le> x \<and> x \<le> now"
    using assms(3-5) le by force
  have in_win: "\<forall>x \<in> set ts. t - kl_window c \<le> x \<and> x \<le> t" using assms(3,5) le by fastforce
  have cnt: "int (length (prune (kl_window c) (stamps_of (lo_hits ?st) ?p) now)) \<ge> kl_max c"
    using assms(2) by (simp add: lockout_window.record_all_counts [OF all] del: lockout_window.record_all.simps)
  have lock: "map_of (lo_until ?st) ?p = Some (t + of_int (max 1 (kl_lockout c)))"
    by (rule last_failure_locks [OF assms(2) in_win])
  have one: "until \<le> now" if "(p, until) \<in> set (lo_until ?st)" for p until
  proof -
    have "p = ?p" using until_dom(1) [of c ?p "ts @ [t]" no_failures] that by (force simp: no_failures_def)
    moreover have "map_of (lo_until ?st) p = Some until"
      by (rule map_of_is_SomeI [OF until_dom(2) that]) (simp add: no_failures_def)
    ultimately show ?thesis using lock assms(5) by simp
  qed
  have conc: "concat (map (\<lambda>(p, until). if now < until then [(p, max 1 \<lceil>until - now\<rceil>)] else []) (lo_until ?st)) = []"
    using one by (fastforce simp del: lockout_window.record_all.simps)
  have "locked_inventory c NoRedis now ?st = []"
    unfolding locked_inventory_def Let_def redis_said.case append_Nil conc by simp
  then show ?thesis unfolding run using lock assms(1,5) cnt
    by (simp add: lockout_check_def Let_def del: lockout_window.record_all.simps)
qed

lemma lock_outlives_its_timer_witness:
  "\<not> ld_allowed (fst (lockout_check demo_lockout NoRedis (Some ''sk-abc'') ''10.0.0.9'' 20
      (lockout_failures demo_lockout (Some ''sk-abc'') ''10.0.0.9'' [1, 2, 3] no_failures)))"
  using lock_outlives_its_timer [of demo_lockout "''10.0.0.9''" "[1, 2]" 20 3 "Some ''sk-abc''"]
  by (simp add: demo_lockout_def [THEN arg_cong [where f = kl_max]] demo_lockout_def [THEN arg_cong [where f = kl_window]]
      demo_lockout_def [THEN arg_cong [where f = kl_lockout]])

text \<open>
  A Redis outage locks nobody out that the process itself would let in: check and
  \<open>record_failure\<close> then do what they do without Redis, and an unlock still clears the
  in-process state, after which the prefix is admitted.
\<close>
theorem lockout_redis_outage_is_local:
  assumes "0 < kl_max c" "0 \<le> now"
  shows "lockout_check c RedisFailed k ip now st = lockout_check c NoRedis k ip now st
    \<and> lockout_record_failure c RedisFailed k ip now st = lockout_record_failure c NoRedis k ip now st
    \<and> (\<exists>b st'. lockout_unlock c RedisFailed k st = (b, st', [])
          \<and> ld_allowed (fst (lockout_check c RedisFailed k ip now st')))"
proof -
  have "lockout_unlock c RedisFailed k st =
    (fst (lockout_unlock c RedisFailed k st), fst (snd (lockout_unlock c RedisFailed k st)), [])"
    by (simp add: lockout_unlock_def Let_def)
  moreover have "ld_allowed (fst (lockout_check c RedisFailed k ip now
      (fst (snd (lockout_unlock c RedisFailed k st)))))"
    using assms by (simp add: lockout_unlock_def lockout_check_def Let_def stamps_of_def prune_def)
  moreover have "lockout_check c RedisFailed k ip now st = lockout_check c NoRedis k ip now st"
    "lockout_record_failure c RedisFailed k ip now st = lockout_record_failure c NoRedis k ip now st"
    by (simp_all add: lockout_check_def lockout_record_failure_def Let_def)
  ultimately show ?thesis by blast
qed

lemma lockout_redis_outage_is_local_witness:
  "lockout_check demo_lockout RedisFailed (Some ''k'') ''10.0.0.9'' 5 no_failures
    = lockout_check demo_lockout NoRedis (Some ''k'') ''10.0.0.9'' 5 no_failures"
  using lockout_redis_outage_is_local [of demo_lockout 5 "Some ''k''" "''10.0.0.9''" no_failures]
  by (simp add: demo_lockout_def [THEN arg_cong [where f = kl_max]])

text \<open>
  The wait the address throttle asks for doubles with every failure past the limit and never
  exceeds the window; for a positive base it is at least one second.
\<close>
theorem throttle_backoff_doubles_within_window:
  assumes "1 \<le> at_base c" "1 \<le> at_window c" "at_max c \<le> n"
  shows "throttle_backoff c n = min \<lfloor>at_window c\<rfloor> (at_base c * 2 ^ nat (n - at_max c))
    \<and> 1 \<le> throttle_backoff c n \<and> of_int (throttle_backoff c n) \<le> at_window c
    \<and> throttle_backoff c (n + 1) = min \<lfloor>at_window c\<rfloor> (2 * throttle_backoff c n)"
proof -
  have eq: "throttle_backoff c m = min \<lfloor>at_window c\<rfloor> (at_base c * 2 ^ nat (m - at_max c))"
    if "at_max c \<le> m" for m
    using that assms(2) by (simp add: throttle_backoff_def Let_def py_trunc_def)
  have w: "1 \<le> \<lfloor>at_window c\<rfloor>" using assms(2) by simp
  have p: "1 \<le> at_base c * 2 ^ nat (n - at_max c)"
    using assms(1) mult_mono [of 1 "at_base c" 1 "2 ^ nat (n - at_max c)"] by simp
  have "nat (n + 1 - at_max c) = Suc (nat (n - at_max c))" using assms(3) by simp
  then have "throttle_backoff c (n + 1) = min \<lfloor>at_window c\<rfloor> (2 * (at_base c * 2 ^ nat (n - at_max c)))"
    using eq [of "n + 1"] assms(3) by (simp add: mult.left_commute)
  then have dbl: "throttle_backoff c (n + 1) = min \<lfloor>at_window c\<rfloor> (2 * throttle_backoff c n)"
    unfolding eq [OF assms(3)] using w p by (auto simp: min_def)
  have "of_int (throttle_backoff c n) \<le> (of_int \<lfloor>at_window c\<rfloor> :: rat)"
    using eq [OF assms(3)] by simp
  then have "of_int (throttle_backoff c n) \<le> at_window c" using of_int_floor_le order_trans by blast
  then show ?thesis using eq [OF assms(3)] w p dbl by simp
qed

definition demo_throttle :: throttle_cfg where
  "demo_throttle = \<lparr>at_max = 10, at_window = 60, at_base = 1, at_enabled = True, at_exempt_loopback = True\<rparr>"

lemma throttle_backoff_doubles_within_window_witness:
  "throttle_backoff demo_throttle 13 = 8 \<and> throttle_backoff demo_throttle 14 = 16"
  using throttle_backoff_doubles_within_window [of demo_throttle 13]
    throttle_backoff_doubles_within_window [of demo_throttle 14]
  by (simp add: demo_throttle_def)

end
