(* ===== verification/AccessLists.thy ===== *)
theory AccessLists
  imports Messages
begin

text \<open>
  What a key may use: model allowlists with globs (\<open>daari/auth/model_access.py\<close>), service tiers
  (\<open>daari/auth/service_tier_access.py\<close>), per-family limits (\<open>daari/auth/rate_families.py\<close>), agent
  grants (\<open>daari/auth/agent_access.py\<close>) and the end user of a request (\<open>daari/auth/end_user.py\<close>).

  The glob matcher is Python's \<open>fnmatch.fnmatchcase\<close>. The locale \<open>allowlist_pair\<close> is the
  contract a key list and a team list share: an unset side does not restrict, and a key can
  only narrow what its team permits; model lists and tier lists interpret it.
\<close>

section \<open>Globs\<close>

datatype glob = GStar | GAny | GLit char | GClass bool "(char \<times> char) list"

text \<open>The ranges of a bracket expression; a hyphen at either end is a literal.\<close>

fun class_ranges :: "pystr \<Rightarrow> (char \<times> char) list" where
  "class_ranges (a # b # c # s) = (if b = CHR ''-'' then (a, c) # class_ranges s
     else (a, a) # class_ranges (b # c # s))"
| "class_ranges (a # s) = (a, a) # class_ranges s"
| "class_ranges [] = []"

text \<open>
  The text up to the bracket that closes the expression and the rest; a bracket right after the
  opening (or after \<open>!\<close>) is a member.
\<close>

definition class_end :: "pystr \<Rightarrow> (pystr \<times> pystr) option" where
  "class_end s =
     (let (bang, s1) = (case s of c # t \<Rightarrow> (if c = CHR ''!'' then ([c], t) else ([], s)) | [] \<Rightarrow> ([], s));
          (first, s2) = (case s1 of c # t \<Rightarrow> (if c = CHR '']'' then ([c], t) else ([], s1)) | [] \<Rightarrow> ([], s1))
      in map_option (\<lambda>(a, b). (bang @ first @ a, b)) (split_first (CHR '']'') s2))"

definition class_of :: "pystr \<Rightarrow> glob" where
  "class_of body = (case body of
       c # t \<Rightarrow> (if c = CHR ''!'' then GClass False (class_ranges t) else GClass True (class_ranges body))
     | [] \<Rightarrow> GClass True [])"

lemma class_end_length: "class_end s = Some (body, rest) \<Longrightarrow> length rest < length s"
  by (auto simp: class_end_def Let_def split_first_Some split: list.splits if_splits)

function parse_glob :: "pystr \<Rightarrow> glob list" where
  "parse_glob [] = []"
| "parse_glob (c # s) =
     (if c = CHR ''*'' then GStar # parse_glob s
      else if c = CHR ''?'' then GAny # parse_glob s
      else if c = CHR ''['' then
        (case class_end s of
           None \<Rightarrow> GLit c # parse_glob s
         | Some (body, rest) \<Rightarrow> class_of body # parse_glob rest)
      else GLit c # parse_glob s)"
  by pat_completeness auto
termination
  by (relation "measure length") (auto dest: class_end_length)

definition glob_char :: "glob \<Rightarrow> char \<Rightarrow> bool" where
  "glob_char g c = (case g of GStar \<Rightarrow> False | GAny \<Rightarrow> True | GLit d \<Rightarrow> c = d
     | GClass pos rs \<Rightarrow> (pos = (\<exists>(lo, hi) \<in> set rs. (of_char lo :: nat) \<le> of_char c \<and> (of_char c :: nat) \<le> of_char hi)))"

fun glob_match :: "glob list \<Rightarrow> pystr \<Rightarrow> bool" where
  "glob_match [] s = (s = [])"
| "glob_match (GStar # ps) [] = glob_match ps []"
| "glob_match (GStar # ps) (c # s) = (glob_match ps (c # s) \<or> glob_match (GStar # ps) s)"
| "glob_match (p # ps) [] = False"
| "glob_match (p # ps) (c # s) = (glob_char p c \<and> glob_match ps s)"

definition fnmatchcase :: "pystr \<Rightarrow> pystr \<Rightarrow> bool" where
  "fnmatchcase name pat = glob_match (parse_glob pat) name"

section \<open>Model allowlists\<close>

text \<open>A list of names in, unset or explicit.\<close>

definition strip_all :: "pystr list \<Rightarrow> pystr list" where
  "strip_all xs = [py_strip x. x \<leftarrow> xs, py_strip x \<noteq> '''']"

definition coerce_names :: "pystr list option \<Rightarrow> pystr list option" where
  "coerce_names raw = map_option strip_all raw"

definition encode_names :: "json_lib \<Rightarrow> pystr list option \<Rightarrow> pystr option" where
  "encode_names jl values = map_option (\<lambda>vs. jl_dumps jl (JList (map JStr vs))) values"

definition decode_names :: "json_lib \<Rightarrow> json \<Rightarrow> pystr list option" where
  "decode_names jl raw =
     (case raw of
        JList xs \<Rightarrow> Some (strip_all (map (jl_str jl) xs))
      | JStr s \<Rightarrow> (if py_strip s = '''' then None
          else (case jl_loads jl s of
              Some (JList xs) \<Rightarrow> Some (strip_all (map (jl_str jl) xs))
            | _ \<Rightarrow> None))
      | _ \<Rightarrow> None)"

datatype group_members = MembersText pystr | MembersList "pystr list"

definition members_list :: "group_members \<Rightarrow> pystr list" where
  "members_list m = (case m of MembersText t \<Rightarrow> [t] | MembersList xs \<Rightarrow> xs)"

type_synonym catalog = "(pystr \<times> group_members) list"

definition effective_patterns ::
    "pystr list option \<Rightarrow> pystr list option \<Rightarrow> catalog option \<Rightarrow> pystr list option" where
  "effective_patterns allowed groups cat =
     (if allowed = None \<and> groups = None then None
      else Some
        ((case allowed of None \<Rightarrow> [] | Some xs \<Rightarrow> strip_all xs)
         @ (case groups of None \<Rightarrow> []
            | Some names \<Rightarrow>
                concat (map (\<lambda>n. case map_of (case cat of None \<Rightarrow> [] | Some c \<Rightarrow> c) n of
                    None \<Rightarrow> [] | Some m \<Rightarrow> strip_all (members_list m)) names))))"

definition pattern_matches :: "pystr \<Rightarrow> pystr \<Rightarrow> bool" where
  "pattern_matches model pattern =
     (if py_strip model = '''' \<or> py_strip pattern = '''' then False
      else fnmatchcase (py_strip model) (py_strip pattern))"

definition groups_for_model :: "pystr \<Rightarrow> catalog option \<Rightarrow> pystr list" where
  "groups_for_model model cat =
     (case cat of None \<Rightarrow> []
      | Some c \<Rightarrow>
          (let name = py_strip model in
           if name = '''' then []
           else map fst (filter (\<lambda>(g, m). \<exists>p \<in> set (members_list m). py_strip p \<noteq> '''' \<and> pattern_matches name p) c)))"

definition model_permitted :: "pystr \<Rightarrow> pystr list option \<Rightarrow> pystr list option \<Rightarrow> bool" where
  "model_permitted model key team =
     (if (case team of None \<Rightarrow> False | Some ps \<Rightarrow> \<not> (\<exists>p \<in> set ps. pattern_matches model p)) then False
      else if (case key of None \<Rightarrow> False | Some ps \<Rightarrow> \<not> (\<exists>p \<in> set ps. pattern_matches model p)) then False
      else True)"

record key_lists =
  kl_allowed :: "pystr list option"
  kl_groups :: "pystr list option"

record claims =
  cl_kind :: pystr
  cl_key :: "key_lists option"
  cl_allowed :: "pystr list option"
  cl_groups :: "pystr list option"
  cl_team_allowed :: "pystr list option"
  cl_team_groups :: "pystr list option"

definition patterns_from_claims ::
    "claims option \<Rightarrow> catalog option \<Rightarrow> pystr list option \<times> pystr list option" where
  "patterns_from_claims claims cat =
     (case claims of
        None \<Rightarrow> (None, None)
      | Some c \<Rightarrow>
          (if cl_kind c \<noteq> ''virtual'' then (None, None)
           else
             (let allowed = (case cl_key c of None \<Rightarrow> cl_allowed c
                  | Some k \<Rightarrow> (if cl_allowed c = None then kl_allowed k else cl_allowed c));
                  groups = (case cl_key c of None \<Rightarrow> cl_groups c
                  | Some k \<Rightarrow> (if cl_groups c = None then kl_groups k else cl_groups c))
              in (effective_patterns allowed groups cat,
                  effective_patterns (cl_team_allowed c) (cl_team_groups c) cat))))"

text \<open>The models of a frontier: those of its slots when it has any, else its own default.\<close>

record frontier_models =
  fm_slots :: "pystr option list"
  fm_default :: "pystr option"

definition frontier_models_permitted ::
    "frontier_models option \<Rightarrow> pystr list option \<Rightarrow> pystr list option \<Rightarrow> bool" where
  "frontier_models_permitted frontier key team =
     (if key = None \<and> team = None then True
      else (case frontier of None \<Rightarrow> False
        | Some f \<Rightarrow>
            (let models = (if fm_slots f \<noteq> [] then map (\<lambda>m. str_or m '''') (fm_slots f)
                           else [str_or (fm_default f) ''''])
             in \<exists>m \<in> set models. m \<noteq> '''' \<and> model_permitted m key team)))"

definition model_denial_body :: "pystr \<Rightarrow> json" where
  "model_denial_body model = JObj [(''error'', JObj
     [(''type'', JStr ''model_not_allowed''), (''code'', JStr ''model_not_allowed''),
      (''message'', JStr (''Model not allowed for this key: '' @ py_strip model))])]"

section \<open>Service tiers\<close>

definition normalize_tier_name :: "pystr option \<Rightarrow> pystr option" where
  "normalize_tier_name raw = (case raw of None \<Rightarrow> None
     | Some t \<Rightarrow> (let s = py_lower (py_strip t) in if s = '''' then None else Some s))"

definition coerce_tiers :: "pystr list option \<Rightarrow> pystr list option" where
  "coerce_tiers raw = (case coerce_names raw of None \<Rightarrow> None
     | Some names \<Rightarrow> Some (map (\<lambda>i. case normalize_tier_name (Some i) of None \<Rightarrow> i | Some n \<Rightarrow> n)
         (filter (\<lambda>i. normalize_tier_name (Some i) \<noteq> None) names)))"

definition tiers_from_meta :: "json_lib \<Rightarrow> json \<Rightarrow> pystr list option" where
  "tiers_from_meta jl metadata =
     (case metadata of
        JObj kvs \<Rightarrow> (case map_of kvs ''allowed_service_tiers'' of
            Some (JList xs) \<Rightarrow> coerce_tiers (Some (map (jl_str jl) xs))
          | _ \<Rightarrow> None)
      | _ \<Rightarrow> None)"

definition degrade_from_meta :: "json \<Rightarrow> bool" where
  "degrade_from_meta metadata = (case metadata of
       JObj kvs \<Rightarrow> truthy (obj_get kvs ''degrade_disallowed_service_tier'') | _ \<Rightarrow> False)"

text \<open>\<open>tiers = None\<close>: the argument is left at its sentinel.\<close>

definition write_tiers_to_meta ::
    "(pystr \<times> json) list \<Rightarrow> pystr list option option \<Rightarrow> bool option \<Rightarrow> (pystr \<times> json) list" where
  "write_tiers_to_meta metadata tiers degrade =
     (let meta1 = (case tiers of None \<Rightarrow> metadata
          | Some raw \<Rightarrow> (case coerce_tiers raw of
              None \<Rightarrow> AList.delete ''allowed_service_tiers'' metadata
            | Some ts \<Rightarrow> AList.update ''allowed_service_tiers'' (JList (map JStr ts)) metadata))
      in case degrade of None \<Rightarrow> meta1
         | Some True \<Rightarrow> AList.update ''degrade_disallowed_service_tier'' (JBool True) meta1
         | Some False \<Rightarrow> AList.delete ''degrade_disallowed_service_tier'' meta1)"

definition effective_allowed_service_tiers :: "pystr list option \<Rightarrow> pystr list option \<Rightarrow> pystr list option" where
  "effective_allowed_service_tiers key_tiers team_tiers =
     (case (coerce_tiers key_tiers, coerce_tiers team_tiers) of
        (None, team) \<Rightarrow> team
      | (Some key, None) \<Rightarrow> Some key
      | (Some key, Some team) \<Rightarrow> Some (filter (\<lambda>i. i \<in> set team) key))"

definition service_tier_permitted :: "pystr option \<Rightarrow> pystr list option \<Rightarrow> bool" where
  "service_tier_permitted requested allowed =
     (case normalize_tier_name requested of
        None \<Rightarrow> True
      | Some name \<Rightarrow> (case allowed of None \<Rightarrow> True
          | Some items \<Rightarrow> (\<exists>i \<in> set items. normalize_tier_name (Some i) = Some name)))"

definition effective_degrade :: "bool \<Rightarrow> bool \<Rightarrow> bool" where
  "effective_degrade key team = (key \<or> team)"

definition tier_denial_body :: "pystr \<Rightarrow> pystr \<Rightarrow> json" where
  "tier_denial_body requested field =
     (let name = (case normalize_tier_name (Some requested) of None \<Rightarrow> requested | Some n \<Rightarrow> n);
          label = (if field = ''speed'' then ''speed'' else ''service_tier'')
      in JObj [(''error'', JObj
        [(''type'', JStr ''service_tier_not_allowed''), (''code'', JStr ''service_tier_not_allowed''),
         (''message'', JStr (label @ '' '' @ [CHR 0x27] @ name @ [CHR 0x27] @ '' is not permitted for this key.'')),
         (label, JStr name)])])"

section \<open>Modality families\<close>

definition rate_limit_family :: "pystr \<Rightarrow> pystr" where
  "rate_limit_family path =
     (let p = takeWhile (\<lambda>c. c \<noteq> CHR ''?'') path in
      if p = ''/v1/decisions'' \<or> starts_with p ''/v1/decisions/'' then ''decisions''
      else if p = ''/v1/systemone'' \<or> starts_with p ''/v1/systemone/'' then ''systemone''
      else if p = ''/v1/ocr'' \<or> starts_with p ''/v1/ocr/'' then ''ocr''
      else if p = ''/v1/moderations'' \<or> starts_with p ''/v1/moderations/'' \<or> p = ''/v1/messages/moderations''
      then ''moderations''
      else if starts_with p ''/v1/chat/'' \<or> p = ''/v1/responses'' \<or> starts_with p ''/v1/responses/''
        \<or> p = ''/v1/messages'' \<or> starts_with p ''/v1/messages/''
      then ''chat''
      else if starts_with p ''/v1/embeddings'' \<or> p = ''/api/embed'' \<or> p = ''/api/embeddings'' then ''embeddings''
      else if starts_with p ''/v1/images/'' then ''images''
      else if starts_with p ''/v1/audio/'' then ''audio''
      else if starts_with p ''/v1/rerank'' then ''rerank''
      else if p = ''/mcp'' \<or> starts_with p ''/mcp/'' \<or> starts_with p ''/v1/mcp'' then ''mcp''
      else ''other'')"

definition RATE_FAMILIES :: "pystr set" where
  "RATE_FAMILIES = {''chat'', ''embeddings'', ''images'', ''audio'', ''moderations'', ''rerank'',
     ''ocr'', ''mcp'', ''systemone'', ''decisions'', ''other''}"

text \<open>\<open>int(value)\<close> of a JSON value; \<open>None\<close> is \<open>TypeError\<close> or \<open>ValueError\<close>.\<close>

definition json_int :: "json \<Rightarrow> int option" where
  "json_int v = (case v of JInt i \<Rightarrow> Some i | JBool b \<Rightarrow> Some (if b then 1 else 0)
     | JFloat x t \<Rightarrow> Some (py_trunc x) | JStr s \<Rightarrow> py_int s | _ \<Rightarrow> None)"

definition limit_of :: "json \<Rightarrow> int" where
  "limit_of v = (case json_int (json_or v (JInt 0)) of None \<Rightarrow> 0 | Some i \<Rightarrow> max 0 i)"

text \<open>\<open>None\<close> is a missing key.\<close>

definition family_limits_from_key :: "(pystr \<times> json) list option \<Rightarrow> pystr \<Rightarrow> int \<times> int" where
  "family_limits_from_key metadata family =
     (case metadata of None \<Rightarrow> (0, 0)
      | Some meta \<Rightarrow> (case obj_get meta ''rate_families'' of
          JObj raw \<Rightarrow> (case obj_get raw family of
              JObj entry \<Rightarrow> (limit_of (obj_get entry ''rpm''), limit_of (obj_get entry ''tpm''))
            | _ \<Rightarrow> (0, 0))
        | _ \<Rightarrow> (0, 0)))"

section \<open>Agent grants and end users\<close>

definition key_has_agent_grant :: "json \<Rightarrow> bool" where
  "key_has_agent_grant metadata =
     (case metadata of
        JObj kvs \<Rightarrow>
          (if obj_get kvs ''agents_access'' = JBool True then True
           else if map_of kvs ''allowed_agents'' \<noteq> None then True
           else (case obj_get kvs ''agents'' of
               JObj a \<Rightarrow> map_of a ''allow'' \<noteq> None \<or> map_of a ''deny'' \<noteq> None
             | _ \<Rightarrow> False))
      | _ \<Rightarrow> False)"

text \<open>A team is its metadata.\<close>

definition team_has_agent_grant :: "json option \<Rightarrow> bool" where
  "team_has_agent_grant team = (case team of None \<Rightarrow> False
     | Some meta \<Rightarrow> key_has_agent_grant (json_or meta (JObj [])))"

record agent_key =
  ak_metadata :: json
  ak_team_id :: "pystr option"

text \<open>
  \<open>kind\<close> is the kind of the claims (\<open>None\<close>: none given), \<open>get_team\<close> the store's lookup, \<open>None\<close>
  for an exception as for a missing team; \<open>store\<close> is \<open>None\<close> when there is none.
\<close>

definition virtual_key_lacks_agent_grant ::
    "bool \<Rightarrow> pystr option \<Rightarrow> agent_key option \<Rightarrow> pystr option \<Rightarrow> (pystr \<Rightarrow> json option) option \<Rightarrow> bool" where
  "virtual_key_lacks_agent_grant default_deny kind key selected_team store =
     (if \<not> default_deny then False
      else if kind \<noteq> Some ''virtual'' then False
      else (case key of None \<Rightarrow> False
        | Some k \<Rightarrow>
            (if key_has_agent_grant (json_or (ak_metadata k) (JObj [])) then False
             else (let team_id = (if truthy_str selected_team then selected_team else ak_team_id k) in
               case store of
                 None \<Rightarrow> True
               | Some get_team \<Rightarrow>
                   (if truthy_str team_id \<and> team_has_agent_grant (get_team (the team_id)) then False else True)))))"

text \<open>Metadata given as a dict or an object with the field; \<open>JNull\<close> when absent.\<close>

definition end_user_from_metadata :: "json_lib \<Rightarrow> json \<Rightarrow> pystr" where
  "end_user_from_metadata jl metadata =
     (case metadata of JObj kvs \<Rightarrow>
        (case obj_get kvs ''user_id'' of JNull \<Rightarrow> '''' | uid \<Rightarrow> py_strip (jl_str jl uid))
      | _ \<Rightarrow> '''')"

definition end_user_from_payload :: "json_lib \<Rightarrow> json \<Rightarrow> pystr" where
  "end_user_from_payload jl payload =
     (case payload of
        JObj kvs \<Rightarrow>
          (let named = (case obj_get kvs ''user'' of JNull \<Rightarrow> '''' | named_user \<Rightarrow> py_strip (jl_str jl named_user))
           in if named \<noteq> '''' then named else end_user_from_metadata jl (obj_get kvs ''metadata''))
      | _ \<Rightarrow> '''')"

section \<open>Two lists, one rule\<close>

locale allowlist_pair =
  fixes lists :: "'n \<Rightarrow> pystr list \<Rightarrow> bool"       \<comment> \<open>the list names it\<close>
    and permits :: "'n \<Rightarrow> pystr list option \<Rightarrow> pystr list option \<Rightarrow> bool"
  assumes permits_both: "permits n key team \<longleftrightarrow>
    (case key of None \<Rightarrow> True | Some k \<Rightarrow> lists n k) \<and> (case team of None \<Rightarrow> True | Some t \<Rightarrow> lists n t)"
begin

lemma unset_is_open: "permits n None None"
  by (simp add: permits_both)

lemma key_only_narrows: "permits n key team \<Longrightarrow> permits n None team"
  by (simp add: permits_both)

lemma team_only_narrows: "permits n key team \<Longrightarrow> permits n key None"
  by (simp add: permits_both)

lemma both_sides: "permits n key team \<longleftrightarrow> permits n key None \<and> permits n None team"
  by (auto simp: permits_both)

end

definition tier_listed :: "pystr option \<Rightarrow> pystr list \<Rightarrow> bool" where
  "tier_listed requested items = service_tier_permitted requested (Some items)"

definition tier_permitted :: "pystr option \<Rightarrow> pystr list option \<Rightarrow> pystr list option \<Rightarrow> bool" where
  "tier_permitted requested key team = service_tier_permitted requested (effective_allowed_service_tiers key team)"

lemma normalize_tier_idem: "normalize_tier_name (Some x) = Some n \<Longrightarrow> normalize_tier_name (Some n) = Some n"
  by (auto simp: normalize_tier_name_def Let_def strip_lower split: if_splits)

lemma normalize_strip: "normalize_tier_name (Some (py_strip x)) = normalize_tier_name (Some x)"
  by (simp add: normalize_tier_name_def)

lemma normalize_strip_nonempty: "normalize_tier_name (Some x) = Some n \<Longrightarrow> py_strip x \<noteq> ''''"
  by (auto simp: normalize_tier_name_def)

lemma coerce_tiers_members:
  "set (the (coerce_tiers (Some xs))) = {n. \<exists>x \<in> set xs. normalize_tier_name (Some x) = Some n}"
  (is "?L = ?R")
proof
  show "?L \<subseteq> ?R"
    by (auto simp: coerce_tiers_def coerce_names_def strip_all_def normalize_strip)
  show "?R \<subseteq> ?L"
  proof
    fix n assume "n \<in> ?R"
    then obtain x where x: "x \<in> set xs" "normalize_tier_name (Some x) = Some n" by blast
    have "py_strip x \<in> set (strip_all xs)"
      using x normalize_strip_nonempty [OF x(2)] by (auto simp: strip_all_def)
    then show "n \<in> ?L" using x(2)
      by (force simp: coerce_tiers_def coerce_names_def normalize_strip intro!: rev_image_eqI [of "py_strip x"])
  qed
qed

lemma coerce_tiers_Some: "coerce_tiers (Some xs) = Some (the (coerce_tiers (Some xs)))"
  by (simp add: coerce_tiers_def coerce_names_def)

lemma coerce_tiers_None [simp]: "coerce_tiers None = None"
  by (simp add: coerce_tiers_def coerce_names_def)

lemma normalized_members:
  "n \<in> set (the (coerce_tiers (Some xs))) \<Longrightarrow> normalize_tier_name (Some n) = Some n"
  using normalize_tier_idem by (auto simp: coerce_tiers_members)

interpretation models: allowlist_pair
  "\<lambda>model ps. \<exists>p \<in> set ps. pattern_matches model p" model_permitted
  by unfold_locales (simp add: model_permitted_def split: option.split)

interpretation tiers: allowlist_pair tier_listed tier_permitted
proof
  fix n :: "pystr option" and key team
  define M where "M xs = the (coerce_tiers (Some xs))" for xs
  have cM: "coerce_tiers (Some xs) = Some (M xs)" for xs unfolding M_def by (rule coerce_tiers_Some)
  have mem: "m \<in> set (M xs) \<longleftrightarrow> (\<exists>x \<in> set xs. normalize_tier_name (Some x) = Some m)" for m xs
    unfolding M_def coerce_tiers_members by simp
  have nM: "x \<in> set (M xs) \<Longrightarrow> normalize_tier_name (Some x) = Some x" for x xs
    unfolding M_def by (rule normalized_members)
  have listed: "service_tier_permitted (Some r) (Some (filter P (M xs)))
    = (case normalize_tier_name (Some r) of None \<Rightarrow> True | Some m \<Rightarrow> P m \<and> m \<in> set (M xs))" for r P xs
    using nM [of _ xs] by (fastforce simp: service_tier_permitted_def split: option.split)
  have one: "tier_listed (Some r) xs = (case normalize_tier_name (Some r) of None \<Rightarrow> True | Some m \<Rightarrow> m \<in> set (M xs))"
    for r xs
    unfolding mem by (auto simp: tier_listed_def service_tier_permitted_def split: option.split)
  have all: "service_tier_permitted (Some r) (Some (M xs)) = tier_listed (Some r) xs" for r xs
    using listed [of r "\<lambda>_. True" xs] by (simp add: one split: option.splits)
  have unset: "service_tier_permitted (Some r) None" for r
    by (simp add: service_tier_permitted_def split: option.split)
  show "tier_permitted n key team =
    ((case key of None \<Rightarrow> True | Some k \<Rightarrow> tier_listed n k) \<and> (case team of None \<Rightarrow> True | Some t \<Rightarrow> tier_listed n t))"
  proof (cases n)
    case None
    then show ?thesis
      by (auto simp: tier_permitted_def tier_listed_def service_tier_permitted_def normalize_tier_name_def split: option.split)
  next
    case (Some r)
    show ?thesis
      using all [of r] listed [of r] unset [of r] one [of r]
      by (cases key; cases team)
        (simp_all add: Some tier_permitted_def effective_allowed_service_tiers_def cM conj_commute split: option.split)
  qed
qed

text \<open>
  A key's model list can only narrow what its team permits: a model passes both lists exactly
  when it passes each alone, and an unset list restricts nothing.
\<close>
theorem model_lists_intersect:
  shows "model_permitted model key team \<longleftrightarrow> model_permitted model key None \<and> model_permitted model None team"
  by (rule models.both_sides)

text \<open>
  The effective service tiers of a key and its team permit a requested tier exactly when the
  key's list and the team's list each permit it, whatever the case and spacing of the names.
\<close>
theorem tier_lists_intersect:
  shows "service_tier_permitted requested (effective_allowed_service_tiers key team)
    \<longleftrightarrow> service_tier_permitted requested key \<and> service_tier_permitted requested team"
proof -
  have "service_tier_permitted requested x = tier_permitted requested x None" for x
    using tiers.permits_both [of requested x None]
    by (cases x) (auto simp: tier_listed_def service_tier_permitted_def split: option.split)
  moreover have "service_tier_permitted requested x = tier_permitted requested None x" for x
    using tiers.permits_both [of requested None x]
    by (cases x) (auto simp: tier_listed_def service_tier_permitted_def split: option.split)
  ultimately show ?thesis using tiers.both_sides [of requested key team] unfolding tier_permitted_def by blast
qed

section \<open>Globs that are prefixes or names\<close>

definition plain :: "pystr \<Rightarrow> bool" where
  "plain p = (\<forall>c \<in> set p. c \<notin> {CHR ''*'', CHR ''?'', CHR ''[''})"

lemma parse_plain: "plain p \<Longrightarrow> parse_glob (p @ s) = map GLit p @ parse_glob s"
  by (induction p) (auto simp: plain_def)

lemma match_literals: "glob_match (map GLit p @ gs) s = (starts_with s p \<and> glob_match gs (drop (length p) s))"
proof (induction p arbitrary: s)
  case (Cons c p)
  then show ?case by (cases s) (auto simp: glob_char_def starts_with_def)
qed simp

lemma match_star: "glob_match [GStar] s"
  by (induction s) auto

text \<open>
  The patterns operators write mean what they look like: a plain name permits exactly that
  model, and a plain prefix followed by a star permits exactly the models that start with it.
\<close>
theorem allowlist_patterns_mean_names_and_prefixes:
  assumes "plain p" "p \<noteq> ''''" "py_strip p = p" "py_strip model \<noteq> ''''" "py_strip (p @ ''*'') = p @ ''*''"
  shows "model_permitted model (Some [p]) None = (py_strip model = p)
    \<and> model_permitted model (Some [p @ ''*'']) None = starts_with (py_strip model) p"
proof -
  have e: "starts_with m p \<and> drop (length p) m = [] \<longleftrightarrow> m = p" for m
    unfolding starts_with_iff by (rule iffI) (elim conjE exE, simp, simp)
  have "parse_glob p = map GLit p" using parse_plain [OF assms(1), of "[]"] by simp
  then have "fnmatchcase m p = (m = p)" for m
    using match_literals [of p "[]" m] e [of m] by (simp add: fnmatchcase_def)
  then have name: "model_permitted model (Some [p]) None = (py_strip model = p)"
    using assms by (simp add: model_permitted_def pattern_matches_def)
  have "parse_glob (p @ ''*'') = map GLit p @ [GStar]"
    using parse_plain [OF assms(1), of "''*''"] by simp
  then have "fnmatchcase m (p @ ''*'') = starts_with m p" for m
    using match_literals [of p "[GStar]" m] match_star by (simp add: fnmatchcase_def)
  then have "model_permitted model (Some [p @ ''*'']) None = starts_with (py_strip model) p"
    using assms by (simp add: model_permitted_def pattern_matches_def)
  then show ?thesis using name by blast
qed

lemma allowlist_patterns_mean_names_and_prefixes_witness:
  "\<not> model_permitted ''gpt-4o'' (Some [''claude-*'']) None
    \<and> model_permitted '' claude-opus'' (Some [''claude-*'']) None"
proof -
  have s: "plain ''claude-''" "py_strip ''claude-'' = ''claude-''"
    "py_strip (''claude-'' @ ''*'') = ''claude-'' @ ''*''" "py_strip ''gpt-4o'' = ''gpt-4o''"
    "py_strip '' claude-opus'' = ''claude-opus''" by code_simp+
  have "starts_with ''claude-opus'' ''claude-''" "\<not> starts_with ''gpt-4o'' ''claude-''" by code_simp+
  then show ?thesis
    using allowlist_patterns_mean_names_and_prefixes [of "''claude-''" "''gpt-4o''"]
      allowlist_patterns_mean_names_and_prefixes [of "''claude-''" "'' claude-opus''"] s by simp
qed

section \<open>Further facts\<close>

lemma families_are_known: "rate_limit_family path \<in> RATE_FAMILIES"
  by (simp add: rate_limit_family_def RATE_FAMILIES_def Let_def)

text \<open>A key whose only grant is a group the catalog does not have may use no model.\<close>

lemma unknown_group_fails_closed:
  assumes "map_of (case cat of None \<Rightarrow> [] | Some c \<Rightarrow> c) g = None"
  shows "effective_patterns None (Some [g]) cat = Some []"
    "\<not> model_permitted model (effective_patterns None (Some [g]) cat) team"
  using assms by (auto simp: effective_patterns_def model_permitted_def)

lemma strip_all_idem: "strip_all (strip_all xs) = strip_all xs"
  by (induction xs) (auto simp: strip_all_def)

lemma normalized_clean: "normalize_tier_name (Some y) = Some y \<Longrightarrow> py_strip y = y \<and> y \<noteq> ''''"
proof -
  assume "normalize_tier_name (Some y) = Some y"
  then have "py_lower (py_strip y) = y" "y \<noteq> ''''"
    by (auto simp: normalize_tier_name_def Let_def split: if_splits)
  then show ?thesis by (metis py_strip_idem strip_lower)
qed

lemma coerce_tiers_idem: "coerce_tiers (Some (the (coerce_tiers (Some xs)))) = coerce_tiers (Some xs)"
proof -
  let ?ys = "the (coerce_tiers (Some xs))"
  have n: "\<forall>y \<in> set ?ys. normalize_tier_name (Some y) = Some y" using normalized_members by blast
  then have st: "\<forall>y \<in> set ?ys. py_strip y = y \<and> y \<noteq> ''''"
    using normalized_clean by blast
  have "strip_all ys = ys" if "\<forall>y \<in> set ys. py_strip y = y \<and> y \<noteq> ''''" for ys
    using that by (induction ys) (auto simp: strip_all_def)
  then have "strip_all ?ys = ?ys" using st by blast
  moreover have "map (\<lambda>i. case normalize_tier_name (Some i) of None \<Rightarrow> i | Some n \<Rightarrow> n)
      (filter (\<lambda>i. normalize_tier_name (Some i) \<noteq> None) ys) = ys"
    if "\<forall>y \<in> set ys. normalize_tier_name (Some y) = Some y" for ys
    using that by (induction ys) auto
  ultimately have "coerce_tiers (Some ?ys) = Some ?ys" using n by (simp add: coerce_tiers_def [of "Some ?ys"] coerce_names_def)
  then show ?thesis using coerce_tiers_Some by metis
qed

text \<open>Tiers written to a key's metadata are read back, in normal form.\<close>

lemma tiers_round_trip:
  assumes "\<And>s. jl_str jl (JStr s) = s"
  shows "tiers_from_meta jl (JObj (write_tiers_to_meta meta (Some (Some xs)) degrade)) = coerce_tiers (Some xs)"
proof -
  have "map (\<lambda>x. jl_str jl (JStr x)) ys = ys" for ys using assms by (simp add: map_idI)
  moreover obtain ts where "coerce_tiers (Some xs) = Some ts" using coerce_tiers_Some by blast
  ultimately have "tiers_from_meta jl (JObj (write_tiers_to_meta meta (Some (Some xs)) degrade))
    = coerce_tiers (Some (the (coerce_tiers (Some xs))))"
    by (cases degrade) (auto simp: write_tiers_to_meta_def tiers_from_meta_def comp_def Let_def split: bool.split)
  then show ?thesis by (simp only: coerce_tiers_idem)
qed

end
