(* ===== verification/LocalPool.thy ===== *)
theory LocalPool
  imports CircuitBreaker
begin

text \<open>
  The pool of local inference backends (\<open>daari/router/local_pool.py\<close>): which backends of a tier
  are eligible, how one is chosen, and the loop that tries one host after another.

  A slot is its position in the pool. The environment gives, per pass over the pool and per
  slot, what its breaker reads, and per attempt what the executor does. Commands to Redis and
  what the loop does are logged in order.

  The locale \<open>circuit_gate\<close> is what the pool needs of a breaker; the circuit breaker interprets it.
\<close>

section \<open>Asking the breakers\<close>

text \<open>Asks the gate of every wanted element, in order; the positions admitted come back.\<close>

fun scan_gate ::
    "('e \<Rightarrow> 'b \<Rightarrow> bool \<times> 'b \<times> 'c list) \<Rightarrow> (nat \<Rightarrow> 'e) \<Rightarrow> nat \<Rightarrow> (bool \<times> 'b) list \<Rightarrow>
     nat list \<times> 'b list \<times> 'c list" where
  "scan_gate allow env i [] = ([], [], [])"
| "scan_gate allow env i ((wanted, b) # xs) =
     (if \<not> wanted then
        (case scan_gate allow env (Suc i) xs of (is, bs, cs) \<Rightarrow> (is, b # bs, cs))
      else (case allow (env i) b of (ok, b', c) \<Rightarrow>
        (case scan_gate allow env (Suc i) xs of (is, bs, cs) \<Rightarrow>
           (if ok then i # is else is, b' # bs, c @ cs))))"

locale circuit_gate =
  fixes allow :: "'e \<Rightarrow> 'b \<Rightarrow> bool \<times> 'b \<times> 'c list"
    and state :: "'e \<Rightarrow> 'b \<Rightarrow> breaker_state"
  assumes allow_unless_open: "fst (allow e b) \<longleftrightarrow> state e b \<noteq> Open"
    and allow_keeps_state: "state e' (fst (snd (allow e b))) = state e' b"
begin

lemma scan_length: "length (fst (snd (scan_gate allow env i xs))) = length xs"
  by (induction allow env i xs rule: scan_gate.induct) (auto split: prod.split)

lemma scan_positions:
  "fst (scan_gate allow env i xs)
    = filter (\<lambda>j. fst (xs ! (j - i)) \<and> state (env j) (snd (xs ! (j - i))) \<noteq> Open) [i ..< i + length xs]"
proof (induction xs arbitrary: i)
  case Nil
  then show ?case by simp
next
  case (Cons x xs)
  obtain wanted b where x: "x = (wanted, b)" by (cases x)
  have up: "[i ..< i + length (x # xs)] = i # [Suc i ..< Suc i + length xs]" by (simp add: upt_rec)
  have shift: "filter (\<lambda>j. fst ((x # xs) ! (j - i)) \<and> state (env j) (snd ((x # xs) ! (j - i))) \<noteq> Open)
      [Suc i ..< Suc i + length xs]
    = filter (\<lambda>j. fst (xs ! (j - Suc i)) \<and> state (env j) (snd (xs ! (j - Suc i))) \<noteq> Open)
      [Suc i ..< Suc i + length xs]"
    by (rule filter_cong) (auto simp: nth_Cons')
  show ?case
    using Cons.IH [of "Suc i"] allow_unless_open [of "env i" b]
    unfolding up filter.simps shift by (auto simp: x case_prod_unfold)
qed

lemma scan_keeps_states:
  "j < length xs \<Longrightarrow> state e (fst (snd (scan_gate allow env i xs)) ! j) = state e (snd (xs ! j))"
proof (induction xs arbitrary: i j)
  case Nil
  then show ?case by simp
next
  case (Cons x xs)
  then show ?case using allow_keeps_state
    by (cases x; cases j) (auto simp: case_prod_unfold)
qed

end

interpretation breakers: circuit_gate breaker_allow breaker_state
proof
  fix e e' :: breaker_env and b :: breaker
  show "fst (breaker_allow e b) \<longleftrightarrow> breaker_state e b \<noteq> Open"
    by (auto simp: breaker_allow_def breaker_state_def split: option.split)
  show "breaker_state e' (fst (snd (breaker_allow e b))) = breaker_state e' b"
    unfolding breaker_state_def shared_open_def shared_with_def breaker_allow_fields by (rule refl)
qed

section \<open>The pool\<close>

record slot =
  sl_id :: pystr
  sl_base_url :: pystr
  sl_kind :: pystr
  sl_model :: pystr
  sl_tiers :: "pystr list"
  sl_breaker :: breaker
  sl_healthy :: bool
  sl_outstanding :: int
  sl_last_check :: pystr
  sl_requests :: int

record local_pool =
  lp_slots :: "slot list"
  lp_strategy :: pystr
  lp_interval :: pyfloat
  lp_checked :: bool
  lp_rr :: "(pystr \<times> nat) list"

definition slots_for :: "pystr \<Rightarrow> local_pool \<Rightarrow> slot list" where
  "slots_for tier p = filter (\<lambda>s. tier \<in> set (sl_tiers s)) (lp_slots p)"

definition wanted_slot :: "pystr \<Rightarrow> slot \<Rightarrow> bool" where
  "wanted_slot tier s = (tier \<in> set (sl_tiers s) \<and> sl_healthy s)"

definition set_breaker :: "slot \<Rightarrow> breaker \<Rightarrow> slot" where
  "set_breaker s b = s\<lparr>sl_breaker := b\<rparr>"

definition eligible ::
    "(nat \<Rightarrow> breaker_env) \<Rightarrow> pystr \<Rightarrow> pystr list \<Rightarrow> local_pool \<Rightarrow> nat list \<times> local_pool \<times> redis_cmd list" where
  "eligible env tier warm p =
     (case scan_gate breaker_allow env 0 (map (\<lambda>s. (wanted_slot tier s, sl_breaker s)) (lp_slots p)) of
        (candidates, bs, cmds) \<Rightarrow>
          (let p' = p\<lparr>lp_slots := map2 set_breaker (lp_slots p) bs\<rparr>;
               hot = filter (\<lambda>i. let m = sl_model (lp_slots p ! i) in m \<noteq> '''' \<and> m \<in> set warm) candidates
           in (if hot \<noteq> [] then hot else candidates, p', cmds)))"

text \<open>\<open>candidates\<close> is not empty.\<close>

definition choose_slot :: "nat list \<Rightarrow> pystr \<Rightarrow> local_pool \<Rightarrow> nat \<times> local_pool" where
  "choose_slot candidates tier p =
     (if lp_strategy p = ''round_robin'' then
        (let index = (case map_of (lp_rr p) tier of None \<Rightarrow> 0 | Some n \<Rightarrow> n)
         in (candidates ! (index mod length candidates), p\<lparr>lp_rr := AList.update tier (Suc index) (lp_rr p)\<rparr>))
      else (arg_min_list (\<lambda>i. sl_outstanding (lp_slots p ! i)) candidates, p))"

datatype pool_error = BackendUnavailable pystr pystr | CloudEgressBlocked pystr pystr

definition pool_pick ::
    "(nat \<Rightarrow> breaker_env) \<Rightarrow> pystr \<Rightarrow> pystr list \<Rightarrow> pystr list \<Rightarrow> local_pool \<Rightarrow>
     (pool_error + nat) \<times> local_pool \<times> redis_cmd list" where
  "pool_pick env tier warm excl p =
     (case eligible env tier warm p of (cs, p1, cmds) \<Rightarrow>
        (let cs' = filter (\<lambda>i. sl_id (lp_slots p1 ! i) \<notin> set excl) cs in
         if cs' = [] then (Inl (BackendUnavailable tier ''''), p1, cmds)
         else (case choose_slot cs' tier p1 of (i, p2) \<Rightarrow> (Inr i, p2, cmds))))"

definition upd_slot :: "nat \<Rightarrow> (slot \<Rightarrow> slot) \<Rightarrow> local_pool \<Rightarrow> local_pool" where
  "upd_slot i f p = (if i < length (lp_slots p) then p\<lparr>lp_slots := (lp_slots p)[i := f (lp_slots p ! i)]\<rparr> else p)"

definition pool_acquire :: "nat \<Rightarrow> local_pool \<Rightarrow> local_pool" where
  "pool_acquire i p = upd_slot i (\<lambda>s. s\<lparr>sl_outstanding := sl_outstanding s + 1\<rparr>) p"

definition pool_release :: "nat \<Rightarrow> local_pool \<Rightarrow> local_pool" where
  "pool_release i p = upd_slot i (\<lambda>s. s\<lparr>sl_outstanding := max 0 (sl_outstanding s - 1)\<rparr>) p"

definition is_ollama_cloud_model :: "pystr \<Rightarrow> bool" where
  "is_ollama_cloud_model m = ends_with (py_strip m) '':cloud''"

section \<open>Trying one host after another\<close>

text \<open>What an executor does; a cancellation is no \<open>Exception\<close> and leaves the loop at once.\<close>

datatype 'r attempt = Answered 'r | Raised pystr | Cancelled

datatype 'r outcome = Response 'r nat | PoolFailed pool_error | PoolCancelled | OutOfFuel

datatype pool_event =
    CloudSkip nat pystr
  | Sent nat pystr bool        \<comment> \<open>slot, served model, scrubbed\<close>
  | Redis "redis_cmd list"

record pool_request =
  pr_tier :: pystr
  pr_model :: pystr                     \<comment> \<open>the request's model\<close>
  pr_template :: "pystr option"         \<comment> \<open>the template executor's default model\<close>
  pr_executors :: "pystr list"          \<comment> \<open>slots with an executor of their own\<close>
  pr_warm :: "pystr list"
  pr_skip_cloud :: "pystr option"
  pr_scrub :: bool

record 'r pool_env =
  pe_scan :: "nat \<Rightarrow> nat \<Rightarrow> breaker_env"    \<comment> \<open>pass, slot\<close>
  pe_after :: "nat \<Rightarrow> breaker_env"            \<comment> \<open>for recording the outcome of a pass\<close>
  pe_attempt :: "nat \<Rightarrow> nat \<Rightarrow> 'r attempt"

definition served_model :: "pool_request \<Rightarrow> slot \<Rightarrow> pystr" where
  "served_model rq s = (if sl_model s \<noteq> '''' then sl_model s
     else if pr_model rq \<noteq> '''' then pr_model rq else str_or (pr_template rq) '''')"

definition skips_cloud :: "pool_request \<Rightarrow> pystr \<Rightarrow> bool" where
  "skips_cloud rq m = (str_or (pr_skip_cloud rq) '''' \<noteq> '''' \<and> is_ollama_cloud_model m)"

fun join :: "pystr \<Rightarrow> pystr list \<Rightarrow> pystr" where
  "join sep [] = ''''"
| "join sep [x] = x"
| "join sep (x # y # xs) = x @ sep @ join sep (y # xs)"

definition exhausted :: "pool_request \<Rightarrow> pystr list \<Rightarrow> pool_error" where
  "exhausted rq errors =
     (if str_or (pr_skip_cloud rq) '''' \<noteq> '''' \<and> errors \<noteq> []
         \<and> list_all (\<lambda>e. ends_with e '':cloud_egress'') errors
      then CloudEgressBlocked (str_or (pr_skip_cloud rq) '''') (pr_tier rq)
      else BackendUnavailable (pr_tier rq) (if errors = [] then ''none tried'' else join '', '' errors))"

fun pool_loop ::
    "nat \<Rightarrow> 'r pool_env \<Rightarrow> nat \<Rightarrow> pool_request \<Rightarrow> pystr list \<Rightarrow> pystr list \<Rightarrow> local_pool \<Rightarrow>
     'r outcome \<times> local_pool \<times> pool_event list" where
  "pool_loop 0 env n rq tried errors p = (OutOfFuel, p, [])"
| "pool_loop (Suc fuel) env n rq tried errors p =
     (case eligible (pe_scan env n) (pr_tier rq) (pr_warm rq) p of (cs, p1, cmds) \<Rightarrow>
        (let remaining = filter (\<lambda>i. sl_id (lp_slots p1 ! i) \<notin> set tried) cs in
         if remaining = [] then (PoolFailed (exhausted rq errors), p1, [Redis cmds])
         else (case choose_slot remaining (pr_tier rq) p1 of (i, p2) \<Rightarrow>
           (let s = lp_slots p2 ! i; tried' = sl_id s # tried; m = served_model rq s in
            if skips_cloud rq m then
              (case pool_loop fuel env (Suc n) rq tried' (errors @ [sl_id s @ '':cloud_egress'']) p2 of
                 (out, p', ev) \<Rightarrow> (out, p', Redis cmds # CloudSkip i m # ev))
            else if sl_id s \<notin> set (pr_executors rq) \<and> pr_template rq = None then
              (case pool_loop fuel env (Suc n) rq tried' (errors @ [sl_id s @ '':no_executor'']) p2 of
                 (out, p', ev) \<Rightarrow> (out, p', Redis cmds # ev))
            else
              (let p3 = pool_acquire i p2;
                   sent = Sent i m (pr_scrub rq \<and> is_ollama_cloud_model m) in
               (case pe_attempt env n i of
                  Answered r \<Rightarrow>
                    (case breaker_record_success (pe_after env n) (sl_breaker (lp_slots p3 ! i)) of (b, cm) \<Rightarrow>
                      (Response r i,
                       pool_release i (upd_slot i (\<lambda>s. s\<lparr>sl_breaker := b, sl_requests := sl_requests s + 1\<rparr>) p3),
                       [Redis cmds, sent, Redis cm]))
                | Cancelled \<Rightarrow> (PoolCancelled, pool_release i p3, [Redis cmds, sent])
                | Raised exc \<Rightarrow>
                    (case breaker_record_failure (pe_after env n) (sl_breaker (lp_slots p3 ! i)) of (b, cm) \<Rightarrow>
                      (case pool_loop fuel env (Suc n) rq tried' (errors @ [sl_id s @ '':'' @ exc])
                              (pool_release i (upd_slot i (\<lambda>s. s\<lparr>sl_breaker := b\<rparr>) p3)) of
                         (out, p', ev) \<Rightarrow> (out, p', Redis cmds # sent # Redis cm # ev)))))))))"

text \<open>Every pass tries a slot id not tried before, so one pass per slot and a last one suffice.\<close>

definition pool_execute ::
    "'r pool_env \<Rightarrow> pool_request \<Rightarrow> local_pool \<Rightarrow> 'r outcome \<times> local_pool \<times> pool_event list" where
  "pool_execute env rq p = pool_loop (Suc (length (lp_slots p))) env 0 rq [] [] p"

section \<open>Readiness and health\<close>

record readiness =
  rd_status :: pystr
  rd_http :: int
  rd_model_backend :: pystr

definition pool_readiness :: "local_pool \<Rightarrow> readiness" where
  "pool_readiness p =
     (let l3 = (if slots_for ''L3'' p \<noteq> [] then slots_for ''L3'' p else lp_slots p);
          l3_up = filter sl_healthy l3;
          all_up = (lp_slots p \<noteq> [] \<and> list_all sl_healthy (lp_slots p));
          status = (if lp_slots p = [] \<or> l3_up = [] then ''not_ready''
                    else if \<not> all_up then ''degraded'' else ''ready'')
      in \<lparr>rd_status = status, rd_http = (if status = ''not_ready'' then 503 else 200),
          rd_model_backend = (if l3_up \<noteq> [] then ''ok''
             else (case l3 of [] \<Rightarrow> ''missing'' | s # ss \<Rightarrow> sl_last_check s))\<rparr>)"

definition probe_url :: "slot \<Rightarrow> pystr" where
  "probe_url s = py_rstrip_chars ''/'' (sl_base_url s)
     @ (if sl_kind s \<in> {''mlx'', ''openai''} then ''/v1/models'' else ''/api/version'')"

definition check_health :: "(nat \<Rightarrow> pystr) \<Rightarrow> local_pool \<Rightarrow> local_pool" where
  "check_health result p = p\<lparr>lp_checked := True,
     lp_slots := map (\<lambda>(i, s). s\<lparr>sl_last_check := result i, sl_healthy := (result i = ''ok'')\<rparr>)
                   (enumerate 0 (lp_slots p))\<rparr>"

section \<open>What stays as it was\<close>

text \<open>Everything of a slot but its breaker and its request count.\<close>

definition slot_view :: "slot \<Rightarrow> pystr \<times> pystr \<times> pystr list \<times> bool \<times> int" where
  "slot_view s = (sl_id s, sl_model s, sl_tiers s, sl_healthy s, sl_outstanding s)"

definition pool_view :: "local_pool \<Rightarrow> (pystr \<times> pystr \<times> pystr list \<times> bool \<times> int) list" where
  "pool_view p = map slot_view (lp_slots p)"

lemma pool_view_length: "pool_view p = pool_view q \<Longrightarrow> length (lp_slots p) = length (lp_slots q)"
  unfolding pool_view_def by (metis length_map)

lemma pool_view_nth:
  "pool_view p = pool_view q \<Longrightarrow> i < length (lp_slots p) \<Longrightarrow> slot_view (lp_slots p ! i) = slot_view (lp_slots q ! i)"
  unfolding pool_view_def by (metis length_map nth_map)

lemma served_model_view: "slot_view s = slot_view t \<Longrightarrow> served_model rq s = served_model rq t"
  by (simp add: slot_view_def served_model_def)

lemma eligible_props:
  assumes "eligible env tier warm p = (cs, p', cmds)"
  shows "pool_view p' = pool_view p" "lp_strategy p' = lp_strategy p" "lp_rr p' = lp_rr p"
    "distinct cs"
    "i \<in> set cs \<Longrightarrow> i < length (lp_slots p) \<and> tier \<in> set (sl_tiers (lp_slots p ! i))
       \<and> sl_healthy (lp_slots p ! i) \<and> breaker_state (env i) (sl_breaker (lp_slots p ! i)) \<noteq> Open"
proof -
  let ?xs = "map (\<lambda>s. (wanted_slot tier s, sl_breaker s)) (lp_slots p)"
  let ?bs = "fst (snd (scan_gate breaker_allow env 0 ?xs))"
  let ?is = "fst (scan_gate breaker_allow env 0 ?xs)"
  have len: "length ?bs = length (lp_slots p)" by (simp add: breakers.scan_length)
  have p': "p' = p\<lparr>lp_slots := map2 set_breaker (lp_slots p) ?bs\<rparr>" and cs: "set cs \<subseteq> set ?is" "distinct ?is \<longrightarrow> distinct cs"
    using assms by (auto simp: eligible_def case_prod_unfold Let_def split: if_splits)
  have "map slot_view (map2 set_breaker ss bs) = map slot_view ss" if "length bs = length ss" for ss bs
    using that by (induction bs ss rule: list_induct2) (auto simp: slot_view_def set_breaker_def)
  then show "pool_view p' = pool_view p" using len by (simp add: p' pool_view_def)
  show "lp_strategy p' = lp_strategy p" "lp_rr p' = lp_rr p" by (simp_all add: p')
  show "distinct cs" using cs(2) by (simp add: breakers.scan_positions)
  show "i < length (lp_slots p) \<and> tier \<in> set (sl_tiers (lp_slots p ! i))
       \<and> sl_healthy (lp_slots p ! i) \<and> breaker_state (env i) (sl_breaker (lp_slots p ! i)) \<noteq> Open"
    if "i \<in> set cs"
    using that cs(1) by (auto simp: breakers.scan_positions wanted_slot_def)
qed

lemma choose_slot_props:
  assumes "cs \<noteq> []" "choose_slot cs tier p = (i, p')"
  shows "i \<in> set cs" "lp_slots p' = lp_slots p" "lp_strategy p' = lp_strategy p"
    "lp_strategy p \<noteq> ''round_robin'' \<Longrightarrow> j \<in> set cs \<Longrightarrow>
       sl_outstanding (lp_slots p ! i) \<le> sl_outstanding (lp_slots p ! j)"
proof -
  have "arg_min_list f cs \<in> set cs" for f :: "nat \<Rightarrow> int" using assms(1) by (rule arg_min_list_in)
  moreover have "cs ! (n mod length cs) \<in> set cs" for n using assms(1) by simp
  ultimately show "i \<in> set cs" "lp_slots p' = lp_slots p" "lp_strategy p' = lp_strategy p"
    using assms(2) by (auto simp: choose_slot_def Let_def split: if_splits)
  show "lp_strategy p \<noteq> ''round_robin'' \<Longrightarrow> j \<in> set cs \<Longrightarrow>
       sl_outstanding (lp_slots p ! i) \<le> sl_outstanding (lp_slots p ! j)"
    using assms arg_min_list_min [of cs j "\<lambda>i. sl_outstanding (lp_slots p ! i)"]
    by (auto simp: choose_slot_def)
qed

lemma upd_slot_view_same:
  assumes "\<And>s. slot_view (f s) = slot_view s"
  shows "pool_view (upd_slot i f p) = pool_view p"
  using assms by (auto simp: upd_slot_def pool_view_def map_update list_update_same_conv)

lemma acquire_release_view:
  assumes "0 \<le> sl_outstanding (lp_slots p ! i)" "\<And>s. slot_view (f s) = slot_view s"
  shows "pool_view (pool_release i (upd_slot i f (pool_acquire i p))) = pool_view p"
    "pool_view (pool_release i (pool_acquire i p)) = pool_view p"
proof -
  have f: "sl_outstanding (f s) = sl_outstanding s" "sl_id (f s) = sl_id s" "sl_model (f s) = sl_model s"
    "sl_tiers (f s) = sl_tiers s" "sl_healthy (f s) = sl_healthy s" for s
    using assms(2) [of s] by (simp_all add: slot_view_def)
  show "pool_view (pool_release i (upd_slot i f (pool_acquire i p))) = pool_view p"
    "pool_view (pool_release i (pool_acquire i p)) = pool_view p"
    using assms(1) f
    by (auto simp: pool_release_def pool_acquire_def upd_slot_def pool_view_def map_update
        list_update_same_conv slot_view_def)
qed

section \<open>The loop\<close>

definition no_negative :: "local_pool \<Rightarrow> bool" where
  "no_negative p = (\<forall>s \<in> set (lp_slots p). 0 \<le> sl_outstanding s)"

lemma no_negative_view: "pool_view p = pool_view q \<Longrightarrow> no_negative p \<Longrightarrow> no_negative q"
proof -
  assume a: "pool_view p = pool_view q" "no_negative p"
  have "(\<lambda>(a, b, c, d, n). n) ` set (pool_view r) = sl_outstanding ` set (lp_slots r)" for r
    by (force simp: pool_view_def slot_view_def image_image)
  then have "sl_outstanding ` set (lp_slots p) = sl_outstanding ` set (lp_slots q)" using a(1) by metis
  then show ?thesis using a(2) unfolding no_negative_def by (metis imageE imageI)
qed

text \<open>One pass of the loop: nothing eligible is left, or slot \<open>i\<close> is taken and dealt with.\<close>

lemma pool_pass:
  assumes "eligible (pe_scan env n) (pr_tier rq) (pr_warm rq) p = (cs, p1, cmds)"
    and "remaining = filter (\<lambda>i. sl_id (lp_slots p1 ! i) \<notin> set tried) cs" "remaining \<noteq> []"
    and "choose_slot remaining (pr_tier rq) p1 = (i, p2)"
  shows "pool_view p2 = pool_view p" "i < length (lp_slots p)" "sl_id (lp_slots p ! i) \<notin> set tried"
    "slot_view (lp_slots p2 ! i) = slot_view (lp_slots p ! i)"
    "pr_tier rq \<in> set (sl_tiers (lp_slots p ! i)) \<and> sl_healthy (lp_slots p ! i)
       \<and> breaker_state (pe_scan env n i) (sl_breaker (lp_slots p ! i)) \<noteq> Open"
proof -
  note e = eligible_props [OF assms(1)]
  note c = choose_slot_props [OF assms(3,4)]
  show v: "pool_view p2 = pool_view p" using e(1) c(2) by (simp add: pool_view_def)
  have mem: "i \<in> set cs" "sl_id (lp_slots p1 ! i) \<notin> set tried" using c(1) assms(2) by auto
  show i: "i < length (lp_slots p)" and "pr_tier rq \<in> set (sl_tiers (lp_slots p ! i)) \<and> sl_healthy (lp_slots p ! i)
       \<and> breaker_state (pe_scan env n i) (sl_breaker (lp_slots p ! i)) \<noteq> Open"
    using e(5) [OF mem(1)] by blast+
  show "slot_view (lp_slots p2 ! i) = slot_view (lp_slots p ! i)"
    using pool_view_nth [OF v [symmetric] i] by simp
  show "sl_id (lp_slots p ! i) \<notin> set tried"
    using mem(2) pool_view_nth [OF e(1) [symmetric] i] by (simp add: slot_view_def)
qed

fun sent_slots :: "pool_event list \<Rightarrow> nat list" where
  "sent_slots [] = []"
| "sent_slots (Sent i m b # ev) = i # sent_slots ev"
| "sent_slots (CloudSkip i m # ev) = sent_slots ev"
| "sent_slots (Redis cs # ev) = sent_slots ev"

text \<open>What every request sent by the loop satisfies, for the slot ids tried before.\<close>

fun sent_ok :: "pool_request \<Rightarrow> local_pool \<Rightarrow> pystr list \<Rightarrow> pool_event \<Rightarrow> bool" where
  "sent_ok rq p tried (Sent i m b) = (i < length (lp_slots p) \<and> sl_id (lp_slots p ! i) \<notin> set tried
     \<and> pr_tier rq \<in> set (sl_tiers (lp_slots p ! i)) \<and> sl_healthy (lp_slots p ! i)
     \<and> m = served_model rq (lp_slots p ! i) \<and> \<not> skips_cloud rq m
     \<and> b = (pr_scrub rq \<and> is_ollama_cloud_model m))"
| "sent_ok rq p tried (CloudSkip i m) = True"
| "sent_ok rq p tried (Redis cs) = True"

definition sent_ids :: "local_pool \<Rightarrow> pool_event list \<Rightarrow> pystr list" where
  "sent_ids p ev = map (\<lambda>i. sl_id (lp_slots p ! i)) (sent_slots ev)"

definition loop_ok :: "pool_request \<Rightarrow> pystr list \<Rightarrow> local_pool \<Rightarrow> 'r outcome \<times> local_pool \<times> pool_event list \<Rightarrow> bool" where
  "loop_ok rq tried p res = (case res of (out, p', ev) \<Rightarrow> out \<noteq> OutOfFuel \<and> pool_view p' = pool_view p
     \<and> list_all (sent_ok rq p tried) ev \<and> distinct (sent_ids p ev))"

lemma sent_ok_view:
  assumes "pool_view p = pool_view q"
  shows "sent_ok rq p tried e = sent_ok rq q tried e"
proof (cases e)
  case (Sent i m b)
  let ?s = "lp_slots p ! i" and ?t = "lp_slots q ! i"
  have len: "length (lp_slots q) = length (lp_slots p)" using pool_view_length [OF assms] by simp
  show ?thesis
  proof (cases "i < length (lp_slots p)")
    case True
    have v: "slot_view ?s = slot_view ?t" by (rule pool_view_nth [OF assms True])
    have "sl_id ?s = sl_id ?t" "sl_tiers ?s = sl_tiers ?t" "sl_healthy ?s = sl_healthy ?t"
      "served_model rq ?s = served_model rq ?t"
      using v served_model_view [OF v] by (simp_all add: slot_view_def)
    then show ?thesis using True len Sent by simp
  next
    case False
    then show ?thesis using len Sent by simp
  qed
qed auto

lemma sent_ids_view:
  assumes "pool_view p = pool_view q" "list_all (sent_ok rq p tried) ev"
  shows "sent_ids p ev = sent_ids q ev"
  using assms(2)
proof (induction ev)
  case (Cons e ev)
  then show ?case
    using pool_view_nth [OF assms(1)] by (cases e) (auto simp: sent_ids_def slot_view_def)
qed (simp add: sent_ids_def)

lemma sent_ids_new: "list_all (sent_ok rq p tried) ev \<Longrightarrow> x \<in> set tried \<Longrightarrow> x \<notin> set (sent_ids p ev)"
proof (induction ev)
  case (Cons e ev)
  then show ?case by (cases e) (auto simp: sent_ids_def)
qed (simp add: sent_ids_def)

lemma sent_ok_mono: "sent_ok rq p (x # tried) e \<Longrightarrow> sent_ok rq p tried e"
  by (cases e) auto

text \<open>A pass that goes on: what the rest of the loop keeps, the whole keeps.\<close>

lemma loop_ok_extend:
  assumes "loop_ok rq (x # tried) q (out, p', ev)" "pool_view q = pool_view p"
  shows "out \<noteq> OutOfFuel" "pool_view p' = pool_view p" "list_all (sent_ok rq p tried) ev"
    "distinct (sent_ids p ev)" "x \<notin> set (sent_ids p ev)"
proof -
  have ev: "list_all (sent_ok rq q (x # tried)) ev" using assms(1) by (simp add: loop_ok_def)
  show "out \<noteq> OutOfFuel" "pool_view p' = pool_view p" using assms by (simp_all add: loop_ok_def)
  show "list_all (sent_ok rq p tried) ev"
    using ev sent_ok_mono sent_ok_view [OF assms(2)] by (metis (mono_tags, lifting) list.pred_mono_strong)
  show "distinct (sent_ids p ev)" "x \<notin> set (sent_ids p ev)"
    using assms(1) sent_ids_new [OF ev, of x] unfolding loop_ok_def sent_ids_view [OF assms(2) ev, symmetric]
    by simp_all
qed

definition fresh_ids :: "local_pool \<Rightarrow> pystr list \<Rightarrow> pystr set" where
  "fresh_ids p tried = sl_id ` set (lp_slots p) - set tried"

lemma fresh_ids_view: "pool_view p = pool_view q \<Longrightarrow> fresh_ids p tried = fresh_ids q tried"
proof -
  assume a: "pool_view p = pool_view q"
  have "fst ` set (pool_view r) = sl_id ` set (lp_slots r)" for r
    by (force simp: pool_view_def slot_view_def image_image)
  then show ?thesis using a unfolding fresh_ids_def by metis
qed

lemma fresh_ids_step:
  assumes "i < length (lp_slots p)" "sl_id (lp_slots p ! i) \<notin> set tried" "card (fresh_ids p tried) < Suc fuel"
  shows "card (fresh_ids p (sl_id (lp_slots p ! i) # tried)) < fuel"
proof -
  have "sl_id (lp_slots p ! i) \<in> fresh_ids p tried" using assms(1,2) by (simp add: fresh_ids_def)
  moreover have "fresh_ids p (sl_id (lp_slots p ! i) # tried) = fresh_ids p tried - {sl_id (lp_slots p ! i)}"
    by (auto simp: fresh_ids_def)
  moreover have "finite (fresh_ids p tried)" by (simp add: fresh_ids_def)
  ultimately have "card (fresh_ids p (sl_id (lp_slots p ! i) # tried)) < card (fresh_ids p tried)"
    by (simp add: card_Diff1_less del: card_Diff_insert)
  then show ?thesis using assms(3) by simp
qed

lemma pool_loop_ok:
  assumes "no_negative p" "card (fresh_ids p tried) < fuel"
  shows "loop_ok rq tried p (pool_loop fuel env n rq tried errors p)"
  using assms
proof (induction fuel arbitrary: n tried errors p)
  case 0
  then show ?case by simp
next
  case (Suc fuel)
  obtain cs p1 cmds where el: "eligible (pe_scan env n) (pr_tier rq) (pr_warm rq) p = (cs, p1, cmds)"
    by (cases "eligible (pe_scan env n) (pr_tier rq) (pr_warm rq) p")
  let ?rem = "filter (\<lambda>i. sl_id (lp_slots p1 ! i) \<notin> set tried) cs"
  show ?case
  proof (cases "?rem = []")
    case True
    then show ?thesis using eligible_props(1) [OF el] el by (simp add: loop_ok_def Let_def sent_ids_def)
  next
    case ne: False
    obtain i p2 where ch: "choose_slot ?rem (pr_tier rq) p1 = (i, p2)"
      by (cases "choose_slot ?rem (pr_tier rq) p1")
    note ps = pool_pass [OF el refl ne ch]
    let ?s = "lp_slots p2 ! i" and ?m = "served_model rq (lp_slots p2 ! i)"
    let ?tried = "sl_id ?s # tried"
    have id: "sl_id ?s = sl_id (lp_slots p ! i)" and m: "?m = served_model rq (lp_slots p ! i)"
      and out: "sl_outstanding ?s = sl_outstanding (lp_slots p ! i)"
      using ps(4) served_model_view [OF ps(4)] by (simp_all add: slot_view_def)
    have fresh: "card (fresh_ids p ?tried) < fuel"
      unfolding id by (rule fresh_ids_step [OF ps(2,3) Suc.prems(2)])
    have IH: "loop_ok rq ?tried q (pool_loop fuel env k rq ?tried errs q)" if "pool_view q = pool_view p" for k errs q
      using Suc.IH [of q ?tried] no_negative_view [OF that [symmetric] Suc.prems(1)] fresh
        fresh_ids_view [OF that] by simp
    have nn: "0 \<le> sl_outstanding ?s"
      using Suc.prems(1) ps(2) out by (simp add: no_negative_def)
    note ar = acquire_release_view [OF nn]
    have sent: "sent_ok rq p tried (Sent i ?m (pr_scrub rq \<and> is_ollama_cloud_model ?m))" if "\<not> skips_cloud rq ?m"
      using ps that m by simp
    have rest: "loop_ok rq tried p (out, p', pre @ ev)"
      if "pool_loop fuel env (Suc n) rq ?tried errs q = (out, p', ev)" "pool_view q = pool_view p"
        "list_all (sent_ok rq p tried) pre" "set (sent_ids p pre) \<subseteq> {sl_id ?s}" "distinct (sent_ids p pre)"
      for errs q out p' ev pre
    proof -
      note x = loop_ok_extend [OF IH [OF that(2), of "Suc n" errs, unfolded that(1)] that(2)]
      have "sent_ids p (pre @ ev) = sent_ids p pre @ sent_ids p ev"
        unfolding sent_ids_def map_append [symmetric]
        by (rule arg_cong [where f = "map _"]) (induction pre rule: sent_slots.induct, auto)
      then show ?thesis using x that(3-5) by (auto simp: loop_ok_def)
    qed
    show ?thesis
    proof (cases "skips_cloud rq ?m \<or> sl_id ?s \<notin> set (pr_executors rq) \<and> pr_template rq = None")
      case True
      obtain o1 q1 e1 where 1: "pool_loop fuel env (Suc n) rq ?tried (errors @ [sl_id ?s @ '':cloud_egress'']) p2 = (o1, q1, e1)"
        by (metis prod_cases3)
      obtain o2 q2 e2 where 2: "pool_loop fuel env (Suc n) rq ?tried (errors @ [sl_id ?s @ '':no_executor'']) p2 = (o2, q2, e2)"
        by (metis prod_cases3)
      show ?thesis
        using True ne rest [OF 1 ps(1), of "[Redis cmds, CloudSkip i ?m]"] rest [OF 2 ps(1), of "[Redis cmds]"]
        by (auto simp: el ch Let_def 1 2 sent_ids_def)
    next
      case go: False
      then have sent': "sent_ok rq p tried (Sent i ?m (pr_scrub rq \<and> is_ollama_cloud_model ?m))" using sent by blast
      show ?thesis
      proof (cases "pe_attempt env n i")
        case (Answered r)
        obtain b cm where b: "breaker_record_success (pe_after env n) (sl_breaker (lp_slots (pool_acquire i p2) ! i)) = (b, cm)"
          by force
        show ?thesis
          using go ne sent' ar(1) [of "\<lambda>s. s\<lparr>sl_breaker := b, sl_requests := sl_requests s + 1\<rparr>"] ps(1)
          by (auto simp add: el ch Let_def Answered b loop_ok_def sent_ids_def slot_view_def)
      next
        case Cancelled
        show ?thesis
          using go ne sent' ar(2) [of id] ps(1)
          by (auto simp add: el ch Let_def Cancelled loop_ok_def sent_ids_def)
      next
        case (Raised exc)
        obtain b cm where b: "breaker_record_failure (pe_after env n) (sl_breaker (lp_slots (pool_acquire i p2) ! i)) = (b, cm)"
          by force
        let ?q = "pool_release i (upd_slot i (\<lambda>s. s\<lparr>sl_breaker := b\<rparr>) (pool_acquire i p2))"
        have q: "pool_view ?q = pool_view p"
          using ar(1) [of "\<lambda>s. s\<lparr>sl_breaker := b\<rparr>"] ps(1) by (simp add: slot_view_def)
        obtain o1 q1 e1 where 1: "pool_loop fuel env (Suc n) rq ?tried (errors @ [sl_id ?s @ '':'' @ exc]) ?q = (o1, q1, e1)"
          by (metis prod_cases3)
        show ?thesis
          using go ne sent' rest [OF 1 q, of "[Redis cmds, Sent i ?m (pr_scrub rq \<and> is_ollama_cloud_model ?m), Redis cm]"] id
          by (auto simp add: el ch Let_def Raised b 1 1 [unfolded id append_Cons append_Nil] sent_ids_def)
      qed
    qed
  qed
qed

section \<open>Properties\<close>

text \<open>
  Executing a request on the pool always ends in a response, an error or a cancellation: the
  loop makes at most one pass per slot and one more. No slot id is sent to twice, and every
  outstanding count is back where it was, whatever the executors do.
\<close>
theorem pool_execute_settles:
  assumes "no_negative p" "pool_execute env rq p = (out, p', ev)"
  shows "out \<noteq> OutOfFuel \<and> distinct (sent_ids p ev)
    \<and> map sl_outstanding (lp_slots p') = map sl_outstanding (lp_slots p)
    \<and> map sl_healthy (lp_slots p') = map sl_healthy (lp_slots p)"
proof -
  have "card (fresh_ids p []) \<le> length (lp_slots p)"
    by (simp add: fresh_ids_def) (metis card_image_le card_length finite_set order_trans)
  then have ok: "loop_ok rq [] p (out, p', ev)"
    using pool_loop_ok [OF assms(1), of "[]" "Suc (length (lp_slots p))" rq env 0 "[]"] assms(2)
    by (simp add: pool_execute_def)
  have "map sl_outstanding (lp_slots q) = map (\<lambda>(a, b, c, d, n). n) (pool_view q)"
    "map sl_healthy (lp_slots q) = map (\<lambda>(a, b, c, d, n). d) (pool_view q)" for q
    by (simp_all add: pool_view_def slot_view_def comp_def)
  then show ?thesis using ok by (simp add: loop_ok_def)
qed

text \<open>
  A request fenced from cloud egress never reaches an Ollama cloud model through the pool:
  every request sent goes to a healthy slot of its tier, with the model that slot serves, and
  if the fence is up that model is not a cloud model; a cloud model only ever gets the
  scrubbed request when a scrubber is given.
\<close>
theorem fenced_requests_stay_local:
  assumes "no_negative p" "pool_execute env rq p = (out, p', ev)" "Sent i m scrubbed \<in> set ev"
  shows "i < length (lp_slots p) \<and> pr_tier rq \<in> set (sl_tiers (lp_slots p ! i)) \<and> sl_healthy (lp_slots p ! i)
    \<and> m = served_model rq (lp_slots p ! i)
    \<and> (is_ollama_cloud_model m \<longrightarrow> str_or (pr_skip_cloud rq) '''' = '''' \<and> scrubbed = pr_scrub rq)"
proof -
  have "card (fresh_ids p []) \<le> length (lp_slots p)"
    by (simp add: fresh_ids_def) (metis card_image_le card_length finite_set order_trans)
  then have "loop_ok rq [] p (out, p', ev)"
    using pool_loop_ok [OF assms(1), of "[]" "Suc (length (lp_slots p))" rq env 0 "[]"] assms(2)
    by (simp add: pool_execute_def)
  then have "list_all (sent_ok rq p []) ev" by (simp add: loop_ok_def)
  then have "sent_ok rq p [] (Sent i m scrubbed)"
    using assms(3) unfolding list_all_iff by blast
  then show ?thesis by (auto simp add: skips_cloud_def)
qed

text \<open>
  A pick takes a healthy slot of the tier that is not excluded and whose breaker is not open,
  and under the default strategy no such slot had fewer requests outstanding; with no warm model
  among the slots, it fails only if there is no such slot.
\<close>
theorem pick_is_least_loaded:
  assumes "pool_pick env tier [] excl p = (res, p', cmds)" "lp_strategy p \<noteq> ''round_robin''"
  defines "good \<equiv> \<lambda>i. i < length (lp_slots p) \<and> wanted_slot tier (lp_slots p ! i)
     \<and> breaker_state (env i) (sl_breaker (lp_slots p ! i)) \<noteq> Open \<and> sl_id (lp_slots p ! i) \<notin> set excl"
  shows "(case res of Inr i \<Rightarrow> good i \<and>
            (\<forall>j. good j \<longrightarrow> sl_outstanding (lp_slots p ! i) \<le> sl_outstanding (lp_slots p ! j))
          | Inl e \<Rightarrow> e = BackendUnavailable tier '''' \<and> (\<forall>j. \<not> good j))"
proof -
  obtain cs p1 cm where el: "eligible env tier [] p = (cs, p1, cm)"
    by (cases "eligible env tier [] p")
  note e = eligible_props [OF el]
  have mem: "j \<in> set cs \<longleftrightarrow> j < length (lp_slots p) \<and> wanted_slot tier (lp_slots p ! j)
      \<and> breaker_state (env j) (sl_breaker (lp_slots p ! j)) \<noteq> Open" for j
    using el by (auto simp: eligible_def case_prod_unfold Let_def breakers.scan_positions)
  have v: "j < length (lp_slots p) \<Longrightarrow> sl_id (lp_slots p1 ! j) = sl_id (lp_slots p ! j)
      \<and> sl_outstanding (lp_slots p1 ! j) = sl_outstanding (lp_slots p ! j)" for j
    using pool_view_nth [OF e(1) [symmetric]] by (simp add: slot_view_def)
  let ?cs = "filter (\<lambda>i. sl_id (lp_slots p1 ! i) \<notin> set excl) cs"
  have good: "j \<in> set ?cs \<longleftrightarrow> good j" for j using mem v by (auto simp: good_def)
  show ?thesis
  proof (cases "?cs = []")
    case True
    then have "\<not> good j" for j using good by (metis empty_iff list.set(1))
    then show ?thesis using True assms(1) el by (auto simp add: pool_pick_def Let_def)
  next
    case False
    obtain i p2 where ch: "choose_slot ?cs tier p1 = (i, p2)" by force
    note c = choose_slot_props [OF False ch]
    have res: "res = Inr i" using False assms(1) el ch by (simp add: pool_pick_def Let_def)
    have gi: "good i" using c(1) good by blast
    have "sl_outstanding (lp_slots p ! i) \<le> sl_outstanding (lp_slots p ! j)" if "good j" for j
      using c(4) [of j] good [of j] that assms(2) e(2) v gi by (auto simp: good_def)
    then show ?thesis using gi res by simp
  qed
qed

definition demo_slot :: "pystr \<Rightarrow> pystr \<Rightarrow> int \<Rightarrow> slot" where
  "demo_slot i m n = \<lparr>sl_id = i, sl_base_url = ''http://h'', sl_kind = ''ollama'', sl_model = m,
     sl_tiers = [''L3''], sl_breaker = new_breaker 3 30 None, sl_healthy = True, sl_outstanding = n,
     sl_last_check = ''ok'', sl_requests = 0\<rparr>"

definition demo_pool :: local_pool where
  "demo_pool = \<lparr>lp_slots = [demo_slot ''a'' ''clef:cloud'' 2, demo_slot ''b'' ''llama'' 1],
     lp_strategy = ''least_outstanding'', lp_interval = 15, lp_checked = False, lp_rr = []\<rparr>"

definition quiet :: breaker_env where
  "quiet = \<lparr>be_now = 0, be_wall = 0, be_client = False, be_state = None, be_incr = None,
     be_expire_ok = True, be_rejects = None\<rparr>"

definition demo_env :: "nat pool_env" where
  "demo_env = \<lparr>pe_scan = (\<lambda>n i. quiet), pe_after = (\<lambda>n. quiet),
     pe_attempt = (\<lambda>n i. if i = 0 then Answered 7 else Raised ''ConnectError'')\<rparr>"

definition demo_fenced :: pool_request where
  "demo_fenced = \<lparr>pr_tier = ''L3'', pr_model = '''', pr_template = Some ''t'', pr_executors = [],
     pr_warm = [], pr_skip_cloud = Some ''pii'', pr_scrub = False\<rparr>"

lemma demo_no_negative [simp]: "no_negative demo_pool"
  by (simp add: no_negative_def demo_pool_def demo_slot_def)

lemma demo_pool_run:
  "snd (snd (pool_execute demo_env demo_fenced demo_pool))
    = [Redis [], Sent 1 ''llama'' False, Redis [], Redis [], CloudSkip 0 ''clef:cloud'', Redis []]"
  by code_simp

lemma pool_execute_settles_witness:
  "\<exists>out p' ev. pool_execute demo_env demo_fenced demo_pool = (out, p', ev)
    \<and> out \<noteq> OutOfFuel \<and> map sl_outstanding (lp_slots p') = [2, 1]"
proof -
  obtain out p' ev where r: "pool_execute demo_env demo_fenced demo_pool = (out, p', ev)"
    by (metis prod_cases3)
  show ?thesis
    using pool_execute_settles [OF demo_no_negative r] r by (simp add: demo_pool_def demo_slot_def)
qed

lemma fenced_requests_stay_local_witness: "\<not> is_ollama_cloud_model ''llama'' \<and> sl_healthy (lp_slots demo_pool ! 1)"
proof -
  obtain out p' ev where r: "pool_execute demo_env demo_fenced demo_pool = (out, p', ev)"
    by (metis prod_cases3)
  have "Sent 1 ''llama'' False \<in> set ev" using demo_pool_run r by simp
  then show ?thesis
    using fenced_requests_stay_local [OF demo_no_negative r, of 1 "''llama''" False]
    by (auto simp: demo_fenced_def)
qed

lemma pick_is_least_loaded_witness:
  "sl_outstanding (lp_slots demo_pool ! 1) \<le> sl_outstanding (lp_slots demo_pool ! 0)"
proof -
  obtain res p' cm where r: "pool_pick (\<lambda>i. quiet) ''L3'' [] [] demo_pool = (res, p', cm)"
    by (metis prod_cases3)
  have res: "fst (pool_pick (\<lambda>i. quiet) ''L3'' [] [] demo_pool) = Inr 1" by code_simp
  have "wanted_slot ''L3'' (lp_slots demo_pool ! 0)" "breaker_state quiet (sl_breaker (lp_slots demo_pool ! 0)) \<noteq> Open"
    "0 < length (lp_slots demo_pool)" by code_simp+
  then show ?thesis
    using pick_is_least_loaded [OF r] res r by (auto simp: demo_pool_def)
qed

end
