(* ===== verification/FrontierPool.thy ===== *)
theory FrontierPool
  imports LocalPool AccessLists Deadline
begin

text \<open>
  The pool of frontier providers (\<open>daari/router/frontier_pool.py\<close>) with the zero-retention and
  region constraints of \<open>daari/gateway/provider_prefs.py\<close> and the regional hosts of
  \<open>daari/router/openrouter.py\<close>.

  A provider slot is its position in the pool. \<open>fe_secret\<close> is \<open>current_secret\<close>, which may mint a
  token: \<open>None\<close> is \<open>SecretRefError\<close>. \<open>ps_order\<close> is the shuffled key order of the slot and
  \<open>ps_cursor\<close> the position of its endless iterator. \<open>FSent\<close> logs each request sent, with the
  slot, its default model and the base URL used.
\<close>

section \<open>Constraints\<close>

definition normalize_region :: "pystr option \<Rightarrow> pystr" where
  "normalize_region v = py_lower (py_strip (str_or v ''''))"

definition is_openrouter_base :: "pystr \<Rightarrow> bool" where
  "is_openrouter_base url = contains (py_lower url) ''openrouter.ai''"

definition OPENROUTER_REGIONAL :: "(pystr \<times> pystr) list" where
  "OPENROUTER_REGIONAL =
     [(''us'', ''https://us.openrouter.ai/api/v1''), (''eu'', ''https://eu.openrouter.ai/api/v1'')]"

definition openrouter_base_for_region :: "pystr option \<Rightarrow> pystr \<Rightarrow> pystr" where
  "openrouter_base_for_region region_pin current =
     (case map_of OPENROUTER_REGIONAL (normalize_region region_pin) of
        None \<Rightarrow> current
      | Some host \<Rightarrow> (if is_openrouter_base current then host else current))"

definition openrouter_can_satisfy_region :: "pystr option \<Rightarrow> pystr \<Rightarrow> bool" where
  "openrouter_can_satisfy_region region_pin base =
     (map_of OPENROUTER_REGIONAL (normalize_region region_pin) \<noteq> None \<and> is_openrouter_base base)"

record provider_slot =
  ps_id :: pystr
  ps_base :: pystr
  ps_model :: pystr
  ps_api_key :: "pystr option"
  ps_keys :: "pystr list"
  ps_order :: "pystr list"
  ps_cursor :: nat
  ps_zdr :: bool
  ps_region :: pystr
  ps_breaker :: breaker

definition slot_satisfies_region :: "provider_slot \<Rightarrow> pystr \<Rightarrow> bool" where
  "slot_satisfies_region s pin =
     (if normalize_region (Some (ps_region s)) = pin then True
      else openrouter_can_satisfy_region (Some pin) (ps_base s))"

definition require_zdr_slot :: "bool option \<Rightarrow> provider_slot list \<Rightarrow> bool" where
  "require_zdr_slot prefs slots = (prefs \<noteq> Some True \<or> (\<exists>s \<in> set slots. ps_zdr s))"

definition require_region_slot :: "pystr option \<Rightarrow> provider_slot list \<Rightarrow> bool" where
  "require_region_slot region_pin slots =
     (let pin = normalize_region region_pin in
      pin = '''' \<or> (\<exists>s \<in> set slots. slot_satisfies_region s pin))"

definition filter_slots_for_region :: "pystr option \<Rightarrow> (nat \<times> provider_slot) list \<Rightarrow> (nat \<times> provider_slot) list" where
  "filter_slots_for_region region_pin slots =
     (let pin = normalize_region region_pin in
      if pin = '''' then slots else filter (\<lambda>(i, s). slot_satisfies_region s pin) slots)"

section \<open>Slots and requests\<close>

record frontier_pool =
  fp_slots :: "provider_slot list"
  fp_last :: "nat option"

text \<open>\<open>fr_zdr\<close> is the flag of the request's provider object, \<open>None\<close> without one.\<close>

record pool_constraints =
  fr_zdr :: "bool option"
  fr_region :: "pystr option"
  fr_key_patterns :: "pystr list option"
  fr_team_patterns :: "pystr list option"

datatype 'r upstream = Served 'r | Refused "int option" pystr    \<comment> \<open>status, exception name\<close>

record 'r frontier_env =
  fe_breaker :: "nat \<Rightarrow> breaker_env"
  fe_after :: "nat \<Rightarrow> breaker_env"
  fe_secret :: "nat \<Rightarrow> pystr option \<Rightarrow> pystr option option"
  fe_now :: "nat \<Rightarrow> pyfloat"
  fe_upstream :: "nat \<Rightarrow> 'r upstream"

datatype frontier_event = FSent nat pystr pystr | FRedis "redis_cmd list" | FSkipModel nat

datatype frontier_error =
    NoProviders | ZdrUnavailable | RegionUnavailable pystr
  | AllFailed pystr | OverDeadline deadline_exceeded

text \<open>\<open>pick_key\<close>: the key as configured, and the slot with its iterator moved on.\<close>

definition next_key :: "provider_slot \<Rightarrow> pystr option \<times> provider_slot" where
  "next_key s = (if ps_keys s = [] then (ps_api_key s, s)
     else (Some (ps_order s ! (ps_cursor s mod length (ps_order s))), s\<lparr>ps_cursor := ps_cursor s + 1\<rparr>))"

definition upd_provider :: "nat \<Rightarrow> (provider_slot \<Rightarrow> provider_slot) \<Rightarrow> frontier_pool \<Rightarrow> frontier_pool" where
  "upd_provider i f p = p\<lparr>fp_slots := (fp_slots p)[i := f (fp_slots p ! i)]\<rparr>"

definition fail_slot :: "'r frontier_env \<Rightarrow> nat \<Rightarrow> frontier_pool \<Rightarrow> frontier_pool \<times> redis_cmd list" where
  "fail_slot env i p =
     (case breaker_record_failure (fe_after env i) (ps_breaker (fp_slots p ! i)) of (b, cm) \<Rightarrow>
        (upd_provider i (\<lambda>s. s\<lparr>ps_breaker := b\<rparr>) p, cm))"

definition pass_slot :: "'r frontier_env \<Rightarrow> nat \<Rightarrow> frontier_pool \<Rightarrow> frontier_pool \<times> redis_cmd list" where
  "pass_slot env i p =
     (case breaker_record_success (fe_after env i) (ps_breaker (fp_slots p ! i)) of (b, cm) \<Rightarrow>
        (upd_provider i (\<lambda>s. s\<lparr>ps_breaker := b\<rparr>) p, cm))"

text \<open>What a slot comes to before anything is sent.\<close>

datatype ready = CircuitOpen | SecretError | NoKey | Ready pystr

definition prepare_slot ::
    "'r frontier_env \<Rightarrow> nat \<Rightarrow> frontier_pool \<Rightarrow> ready \<times> frontier_pool \<times> redis_cmd list" where
  "prepare_slot env i p =
     (case breaker_allow (fe_breaker env i) (ps_breaker (fp_slots p ! i)) of (ok, b, cm) \<Rightarrow>
        (let p1 = upd_provider i (\<lambda>s. s\<lparr>ps_breaker := b\<rparr>) p in
         if \<not> ok then (CircuitOpen, p1, cm)
         else (case next_key (fp_slots p1 ! i) of (raw, s) \<Rightarrow>
           (let p2 = upd_provider i (\<lambda>_. s) p1 in
            case fe_secret env i raw of
              None \<Rightarrow> (case fail_slot env i p2 of (p3, cm') \<Rightarrow> (SecretError, p3, cm @ cm'))
            | Some key \<Rightarrow>
                (if str_or key '''' = '''' then (NoKey, p2, cm)
                 else (Ready (the key), upd_provider i (\<lambda>s. s\<lparr>ps_api_key := key\<rparr>) p2, cm))))))"

section \<open>execute\<close>

definition zdr_slots :: "bool option \<Rightarrow> provider_slot list \<Rightarrow> (nat \<times> provider_slot) list" where
  "zdr_slots prefs slots = (let all = enumerate 0 slots in
     if prefs = Some True then filter (\<lambda>(i, s). ps_zdr s) all else all)"

definition allowed_slots ::
    "pystr list option \<Rightarrow> pystr list option \<Rightarrow> (nat \<times> provider_slot) list \<Rightarrow> (nat \<times> provider_slot) list" where
  "allowed_slots key team slots = (if key \<noteq> None \<or> team \<noteq> None
     then filter (\<lambda>(i, s). model_permitted (ps_model s) key team) slots else slots)"

fun frontier_loop ::
    "'r frontier_env \<Rightarrow> pool_constraints \<Rightarrow> nat list \<Rightarrow> pystr list \<Rightarrow> frontier_pool \<Rightarrow>
     deadline_state option \<Rightarrow>
     (frontier_error + 'r \<times> nat \<times> pystr) \<times> frontier_pool \<times> deadline_state option \<times> frontier_event list" where
  "frontier_loop env rq [] errors p ctx =
     (Inl (AllFailed (if errors = [] then ''none tried'' else join '', '' errors)), p, ctx, [])"
| "frontier_loop env rq (i # is) errors p ctx =
     (case prepare_slot env i p of (rdy, p1, cm) \<Rightarrow>
        (let s = fp_slots p1 ! i;
             continue = (\<lambda>errs q c evs. case frontier_loop env rq is errs q c of
                 (out, p', c', ev) \<Rightarrow> (out, p', c', evs @ ev))
         in case rdy of
              CircuitOpen \<Rightarrow> continue errors p1 ctx [FRedis cm]
            | SecretError \<Rightarrow> continue (errors @ [ps_id s @ '':SecretRefError'']) p1 ctx [FRedis cm]
            | NoKey \<Rightarrow> continue (errors @ [ps_id s @ '':no_key'']) p1 ctx [FRedis cm]
            | Ready key \<Rightarrow>
                (let base = openrouter_base_for_region (fr_region rq) (ps_base s) in
                 case guard_upstream ''L6'' (fe_now env i) ctx of
                   (Inl err, ctx') \<Rightarrow> (Inl (OverDeadline err), p1, ctx', [FRedis cm])
                 | (Inr left, ctx') \<Rightarrow>
                     (case fe_upstream env i of
                        Served r \<Rightarrow>
                          (case pass_slot env i p1 of (p2, cm') \<Rightarrow>
                            (Inr (r, i, if ps_region s \<noteq> '''' then ps_region s
                                        else if base \<noteq> ps_base s then normalize_region (fr_region rq) else ''''),
                             p2\<lparr>fp_last := Some i\<rparr>, ctx', [FRedis cm, FSent i (ps_model s) base, FRedis cm']))
                      | Refused status exc \<Rightarrow>
                          (if counts_as_hard_provider_failure status then
                             (case fail_slot env i p1 of (p2, cm') \<Rightarrow>
                               continue (errors @ [ps_id s @ '':'' @ exc]) p2 ctx'
                                 [FRedis cm, FSent i (ps_model s) base, FRedis cm'])
                           else continue (errors @ [ps_id s @ '':'' @ exc]) p1 ctx'
                                 [FRedis cm, FSent i (ps_model s) base])))))"

definition frontier_execute ::
    "'r frontier_env \<Rightarrow> pool_constraints \<Rightarrow> frontier_pool \<Rightarrow> deadline_state option \<Rightarrow>
     (frontier_error + 'r \<times> nat \<times> pystr) \<times> frontier_pool \<times> deadline_state option \<times> frontier_event list" where
  "frontier_execute env rq p ctx =
     (if fp_slots p = [] then (Inl NoProviders, p, ctx, [])
      else if \<not> require_zdr_slot (fr_zdr rq) (fp_slots p) then (Inl ZdrUnavailable, p, ctx, [])
      else
        (let slots = zdr_slots (fr_zdr rq) (fp_slots p) in
         if \<not> require_region_slot (fr_region rq) (map snd slots)
         then (Inl (RegionUnavailable (normalize_region (fr_region rq))), p, ctx, [])
         else
           (let pinned = filter_slots_for_region (fr_region rq) slots;
                allowed = allowed_slots (fr_key_patterns rq) (fr_team_patterns rq) pinned
            in frontier_loop env rq (map fst allowed) [] p ctx)))"

section \<open>stream\<close>

text \<open>The events a provider yields and whether it then failed.\<close>

datatype 'e streamed = StreamDone "'e list" | StreamBroke "'e list" "int option" pystr

fun stream_loop ::
    "'r frontier_env \<Rightarrow> (nat \<Rightarrow> 'e streamed) \<Rightarrow> nat list \<Rightarrow> pystr list \<Rightarrow> frontier_pool \<Rightarrow>
     'e list \<times> frontier_error option \<times> frontier_pool \<times> frontier_event list" where
  "stream_loop env up [] errors p =
     ([], Some (AllFailed (if errors = [] then ''none tried'' else join '', '' errors)), p, [])"
| "stream_loop env up (i # is) errors p =
     (case prepare_slot env i p of (rdy, p1, cm) \<Rightarrow>
        (let s = fp_slots p1 ! i;
             continue = (\<lambda>ys errs q evs. case stream_loop env up is errs q of
                 (xs, out, p', ev) \<Rightarrow> (ys @ xs, out, p', evs @ ev))
         in case rdy of
              CircuitOpen \<Rightarrow> continue [] errors p1 [FRedis cm]
            | SecretError \<Rightarrow> continue [] (errors @ [ps_id s @ '':SecretRefError'']) p1 [FRedis cm]
            | NoKey \<Rightarrow> continue [] (errors @ [ps_id s @ '':no_key'']) p1 [FRedis cm]
            | Ready key \<Rightarrow>
                (let p2 = p1\<lparr>fp_last := Some i\<rparr> in
                 case up i of
                   StreamDone xs \<Rightarrow>
                     (case pass_slot env i p2 of (p3, cm') \<Rightarrow>
                       (xs, None, p3, [FRedis cm, FSent i (ps_model s) (ps_base s), FRedis cm']))
                 | StreamBroke xs status exc \<Rightarrow>
                     (if counts_as_hard_provider_failure status then
                        (case fail_slot env i p2 of (p3, cm') \<Rightarrow>
                          continue xs (errors @ [ps_id s @ '':'' @ exc]) p3
                            [FRedis cm, FSent i (ps_model s) (ps_base s), FRedis cm'])
                      else continue xs (errors @ [ps_id s @ '':'' @ exc]) p2
                            [FRedis cm, FSent i (ps_model s) (ps_base s)]))))"

definition frontier_stream ::
    "'r frontier_env \<Rightarrow> (nat \<Rightarrow> 'e streamed) \<Rightarrow> pool_constraints \<Rightarrow> frontier_pool \<Rightarrow>
     'e list \<times> frontier_error option \<times> frontier_pool \<times> frontier_event list" where
  "frontier_stream env up rq p =
     (if fp_slots p = [] then ([], Some NoProviders, p, [])
      else if \<not> require_zdr_slot (fr_zdr rq) (fp_slots p) then ([], Some ZdrUnavailable, p, [])
      else
        (let slots = zdr_slots (fr_zdr rq) (fp_slots p) in
         if \<not> require_region_slot (fr_region rq) (map snd slots)
         then ([], Some (RegionUnavailable (normalize_region (fr_region rq))), p, [])
         else stream_loop env up (map fst (filter_slots_for_region (fr_region rq) slots)) [] p))"

section \<open>What stays of a slot\<close>

definition provider_view :: "provider_slot \<Rightarrow> pystr \<times> pystr \<times> pystr \<times> bool \<times> pystr" where
  "provider_view s = (ps_id s, ps_base s, ps_model s, ps_zdr s, ps_region s)"

definition frontier_view :: "frontier_pool \<Rightarrow> (pystr \<times> pystr \<times> pystr \<times> bool \<times> pystr) list" where
  "frontier_view p = map provider_view (fp_slots p)"

lemma frontier_view_upd:
  "provider_view (f (fp_slots p ! i)) = provider_view (fp_slots p ! i) \<Longrightarrow>
    frontier_view (upd_provider i f p) = frontier_view p"
  by (cases "i < length (fp_slots p)") (auto simp: frontier_view_def upd_provider_def map_update list_update_same_conv list_update_beyond)

lemma frontier_view_last [simp]: "frontier_view (p\<lparr>fp_last := x\<rparr>) = frontier_view p"
  by (simp add: frontier_view_def)

lemma frontier_view_nth:
  "frontier_view p = frontier_view q \<Longrightarrow> i < length (fp_slots p) \<Longrightarrow>
    provider_view (fp_slots p ! i) = provider_view (fp_slots q ! i)"
  unfolding frontier_view_def by (metis length_map nth_map)

lemma frontier_view_length: "frontier_view p = frontier_view q \<Longrightarrow> length (fp_slots p) = length (fp_slots q)"
  unfolding frontier_view_def by (metis length_map)

lemma fail_pass_view:
  "frontier_view (fst (fail_slot env i p)) = frontier_view p"
  "frontier_view (fst (pass_slot env i p)) = frontier_view p"
  by (simp_all add: fail_slot_def pass_slot_def case_prod_unfold frontier_view_upd provider_view_def)

lemma prepare_view: "prepare_slot env i p = (rdy, p', cm) \<Longrightarrow> frontier_view p' = frontier_view p"
proof -
  have v: "frontier_view (upd_provider i (\<lambda>_. snd (next_key (fp_slots q ! i))) q) = frontier_view q" for q
    by (intro frontier_view_upd) (simp add: next_key_def provider_view_def)
  have w: "frontier_view (upd_provider i (\<lambda>s. s\<lparr>ps_breaker := b\<rparr>) q) = frontier_view q"
    "frontier_view (upd_provider i (\<lambda>s. s\<lparr>ps_api_key := k\<rparr>) q) = frontier_view q" for b k q
    by (simp_all add: frontier_view_upd provider_view_def)
  assume "prepare_slot env i p = (rdy, p', cm)"
  then show ?thesis
    by (auto simp: prepare_slot_def Let_def case_prod_unfold v w fail_pass_view(1) split: if_splits option.splits)
qed

text \<open>A breaker that is not asked by anyone else decides: an open one is never sent to.\<close>

lemma prepare_ready:
  "prepare_slot env i p = (Ready key, p', cm) \<Longrightarrow>
    breaker_state (fe_breaker env i) (ps_breaker (fp_slots p ! i)) \<noteq> Open \<and> key \<noteq> ''''"
  using breakers.allow_unless_open [of "fe_breaker env i" "ps_breaker (fp_slots p ! i)"]
  by (auto simp: prepare_slot_def Let_def case_prod_unfold str_or_def split: if_splits option.splits)

lemma frontier_loop_sent:
  assumes "frontier_loop env rq is errors p ctx = (out, p', ctx', ev)" "FSent j m b \<in> set ev"
    and "\<forall>i \<in> set is. i < length (fp_slots p)"
  shows "j \<in> set is \<and> m = ps_model (fp_slots p ! j)
    \<and> b = openrouter_base_for_region (fr_region rq) (ps_base (fp_slots p ! j))"
  using assms
proof (induction "is" arbitrary: errors p ctx out p' ctx' ev)
  case Nil
  then show ?case by simp
next
  case (Cons i "is")
  obtain rdy p1 cm where pr: "prepare_slot env i p = (rdy, p1, cm)" by (metis prod_cases3)
  have v1: "frontier_view p1 = frontier_view p" by (rule prepare_view [OF pr])
  have i: "i < length (fp_slots p)" using Cons.prems(3) by simp
  have s1: "provider_view (fp_slots p1 ! i) = provider_view (fp_slots p ! i)"
    using frontier_view_nth [OF v1 [symmetric] i] by simp
  have rest: "j \<in> set (i # is) \<and> m = ps_model (fp_slots p ! j)
      \<and> b = openrouter_base_for_region (fr_region rq) (ps_base (fp_slots p ! j))"
    if "frontier_loop env rq is errs q c = (o1, q1, c1, e1)" "FSent j m b \<in> set e1" "frontier_view q = frontier_view p"
    for errs q c o1 q1 c1 e1
  proof -
    have "\<forall>i \<in> set is. i < length (fp_slots q)"
      using Cons.prems(3) frontier_view_length [OF that(3)] by simp
    note ih = Cons.IH [OF that(1,2) this]
    then have "j < length (fp_slots q)" using \<open>\<forall>i \<in> set is. i < length (fp_slots q)\<close> by blast
    then have "provider_view (fp_slots q ! j) = provider_view (fp_slots p ! j)"
      by (rule frontier_view_nth [OF that(3)])
    then show ?thesis using ih by (simp add: provider_view_def)
  qed
  note split = pr Let_def case_prod_unfold
  have R: "(j = i \<or> j \<in> set is) \<and> m = ps_model (fp_slots p ! j)
      \<and> b = openrouter_base_for_region (fr_region rq) (ps_base (fp_slots p ! j))"
    if "FSent j m b \<in> set (snd (snd (snd (frontier_loop env rq is errs q c))))" "frontier_view q = frontier_view p"
    for errs q c
    using rest [of errs q c _ _ _ "snd (snd (snd (frontier_loop env rq is errs q c)))"] that by (metis prod.collapse set_ConsD)
  note v2 = fail_pass_view [THEN trans, OF v1]
  show ?case
    using Cons.prems(1,2) s1
    by (auto simp: split provider_view_def dest: R [OF _ v1] R [OF _ v2(1)]
        split: ready.splits sum.splits upstream.splits if_splits)
qed

section \<open>Properties\<close>

lemma constrained_slots:
  assumes "j \<in> set (map fst (allowed_slots key team (filter_slots_for_region pin (zdr_slots prefs slots))))"
  shows "j < length slots \<and> (prefs = Some True \<longrightarrow> ps_zdr (slots ! j))
    \<and> (normalize_region pin \<noteq> '''' \<longrightarrow> slot_satisfies_region (slots ! j) (normalize_region pin))
    \<and> model_permitted (ps_model (slots ! j)) key team"
proof -
  obtain s where "(j, s) \<in> set (allowed_slots key team (filter_slots_for_region pin (zdr_slots prefs slots)))"
    using assms by auto
  moreover have "model_permitted m None None" for m by (rule models.unset_is_open)
  ultimately have "(j, s) \<in> set (enumerate 0 slots)" "prefs = Some True \<longrightarrow> ps_zdr s"
    "normalize_region pin \<noteq> '''' \<longrightarrow> slot_satisfies_region s (normalize_region pin)"
    "model_permitted (ps_model s) key team"
    by (auto simp: allowed_slots_def filter_slots_for_region_def zdr_slots_def Let_def split: if_splits)
  then show ?thesis by (auto simp: in_set_enumerate_eq)
qed

text \<open>
  A request executed on the frontier pool is only ever sent to a slot that meets all its
  constraints: a zero-retention slot if it asks for one, a slot of its region or, for an
  OpenRouter slot, the OpenRouter host of its region, and a model both allowlists permit.
\<close>
theorem execute_respects_every_constraint:
  assumes "frontier_execute env rq p ctx = (out, p', ctx', ev)" "FSent j m b \<in> set ev"
  shows "j < length (fp_slots p) \<and> m = ps_model (fp_slots p ! j)
    \<and> (fr_zdr rq = Some True \<longrightarrow> ps_zdr (fp_slots p ! j))
    \<and> (normalize_region (fr_region rq) \<noteq> '''' \<longrightarrow>
          normalize_region (Some (ps_region (fp_slots p ! j))) = normalize_region (fr_region rq)
          \<or> map_of OPENROUTER_REGIONAL (normalize_region (fr_region rq)) = Some b)
    \<and> model_permitted m (fr_key_patterns rq) (fr_team_patterns rq)"
proof -
  let ?is = "map fst (allowed_slots (fr_key_patterns rq) (fr_team_patterns rq)
      (filter_slots_for_region (fr_region rq) (zdr_slots (fr_zdr rq) (fp_slots p))))"
  have run: "frontier_loop env rq ?is [] p ctx = (out, p', ctx', ev)"
    using assms by (auto simp: frontier_execute_def Let_def split: if_splits)
  have len: "\<forall>i \<in> set ?is. i < length (fp_slots p)" using constrained_slots by blast
  note sent = frontier_loop_sent [OF run assms(2) len]
  then have j: "j \<in> set ?is" by blast
  have idem: "normalize_region (Some (normalize_region x)) = normalize_region x" for x
    by (simp add: normalize_region_def strip_lower str_or_def)
  show ?thesis using constrained_slots [OF j] sent
    by (auto simp: slot_satisfies_region_def openrouter_can_satisfy_region_def openrouter_base_for_region_def
        idem split: if_splits option.splits)
qed

definition demo_provider :: "pystr \<Rightarrow> pystr \<Rightarrow> provider_slot" where
  "demo_provider i m = \<lparr>ps_id = i, ps_base = ''https://openrouter.ai/api/v1'', ps_model = m,
     ps_api_key = None, ps_keys = [''k1''], ps_order = [''k1''], ps_cursor = 0, ps_zdr = True,
     ps_region = '''', ps_breaker = new_breaker 3 30 None\<rparr>"

definition demo_frontier :: frontier_pool where
  "demo_frontier = \<lparr>fp_slots = [demo_provider ''a'' ''gpt-4o'', demo_provider ''b'' ''claude-x''], fp_last = None\<rparr>"

definition demo_pinned :: pool_constraints where
  "demo_pinned = \<lparr>fr_zdr = None, fr_region = Some ''EU'', fr_key_patterns = Some [''claude-*''],
     fr_team_patterns = None\<rparr>"

definition demo_upstream :: "nat frontier_env" where
  "demo_upstream = \<lparr>fe_breaker = (\<lambda>i. quiet), fe_after = (\<lambda>i. quiet), fe_secret = (\<lambda>i k. Some k),
     fe_now = (\<lambda>i. 0), fe_upstream = (\<lambda>i. Served i)\<rparr>"

lemma demo_execute:
  "snd (snd (snd (frontier_execute demo_upstream demo_pinned demo_frontier None)))
    = [FRedis [], FSent 1 ''claude-x'' ''https://eu.openrouter.ai/api/v1'', FRedis []]"
  by code_simp

lemma execute_respects_every_constraint_witness:
  "model_permitted ''claude-x'' (Some [''claude-*'']) None"
proof -
  obtain out p' c ev where r: "frontier_execute demo_upstream demo_pinned demo_frontier None = (out, p', c, ev)"
    by (metis prod_cases4)
  have "FSent 1 ''claude-x'' ''https://eu.openrouter.ai/api/v1'' \<in> set ev" using demo_execute r by simp
  then show ?thesis
    using execute_respects_every_constraint [OF r] by (auto simp: demo_pinned_def)
qed

definition demo_broken :: "nat \<Rightarrow> pystr streamed" where
  "demo_broken = (\<lambda>i. if i = 0 then StreamBroke [''Hel''] None ''ReadError'' else StreamDone [''Hello''])"

text \<open>
  Streaming keeps neither the allowlist nor the pinned region: for a key that may use
  \<open>claude-*\<close> only and is pinned to the EU, execute sends one request, for the Claude slot and to
  the EU host, while stream sends the first slot's model to the global host. When that
  provider breaks after some output, the answer of the next slot is appended to it.
\<close>
theorem stream_ignores_allowlist_and_region:
  shows "\<not> model_permitted ''gpt-4o'' (fr_key_patterns demo_pinned) (fr_team_patterns demo_pinned)
    \<and> [e \<leftarrow> snd (snd (snd (frontier_execute demo_upstream demo_pinned demo_frontier None))). \<exists>i m b. e = FSent i m b]
        = [FSent 1 ''claude-x'' ''https://eu.openrouter.ai/api/v1'']
    \<and> (case frontier_stream demo_upstream
             demo_broken
             demo_pinned demo_frontier of
         (chunks, err, p', ev) \<Rightarrow> chunks = [''Hel'', ''Hello''] \<and> err = None
           \<and> FSent 0 ''gpt-4o'' ''https://openrouter.ai/api/v1'' \<in> set ev)"
proof -
  have "\<not> model_permitted ''gpt-4o'' (fr_key_patterns demo_pinned) (fr_team_patterns demo_pinned)"
    by code_simp
  moreover have "fst (frontier_stream demo_upstream demo_broken demo_pinned demo_frontier) = [''Hel'', ''Hello'']"
    "fst (snd (frontier_stream demo_upstream demo_broken demo_pinned demo_frontier)) = None"
    "FSent 0 ''gpt-4o'' ''https://openrouter.ai/api/v1''
      \<in> set (snd (snd (snd (frontier_stream demo_upstream demo_broken demo_pinned demo_frontier))))"
    by code_simp+
  ultimately show ?thesis unfolding demo_execute by (simp add: split_beta)
qed

end
