(* ===== verification/AgentSignals.thy ===== *)
theory AgentSignals
  imports Messages "HOL-Library.Multiset"
begin

text \<open>
  What the router reads off a conversation: a stuck tool loop (\<open>daari/router/stall.py\<close>), the
  phase of an agent turn (\<open>daari/router/phase.py\<close>), the trimming of an oversized history
  (\<open>daari/router/compact_to_fit.py\<close>), the confidence in a local answer
  (\<open>daari/router/confidence.py\<close>), a context-length failure (\<open>daari/router/failover.py\<close>) and a
  model's local suffix (\<open>daari/router/aliases.py\<close>).
\<close>

section \<open>Tool calls of a conversation\<close>

lemma dropWhile_shorter [termination_simp]: "length (dropWhile P s) < Suc (length s)"
  by (simp add: length_dropWhile_le less_Suc_eq_le)

text \<open>\<open>" ".join(text.split())\<close>.\<close>

fun squeeze_words :: "pystr \<Rightarrow> pystr" where
  "squeeze_words [] = []"
| "squeeze_words (c # s) =
     (if is_space c then
        (case squeeze_words (dropWhile is_space s) of [] \<Rightarrow> [] | t \<Rightarrow> CHR '' '' # t)
      else c # squeeze_words s)"

definition join_split :: "pystr \<Rightarrow> pystr" where
  "join_split s = squeeze_words (py_strip s)"

definition calls_of :: "message \<Rightarrow> json list" where
  "calls_of m = (case m_tool_calls m of None \<Rightarrow> [] | Some cs \<Rightarrow> cs)"

text \<open>The name both modules read from a call that is a dict, stripped.\<close>

definition tool_name :: "json_lib \<Rightarrow> (pystr \<times> json) list \<Rightarrow> pystr" where
  "tool_name jl call =
     (let fn = (case obj_get call ''function'' of JObj f \<Rightarrow> f | _ \<Rightarrow> []);
          v = json_or (obj_get fn ''name'') (json_or (obj_get call ''name'') (JStr ''''))
      in py_strip (jl_str jl v))"

definition normalize_arguments :: "json_lib \<Rightarrow> json \<Rightarrow> pystr" where
  "normalize_arguments jl raw =
     (let encode = (\<lambda>v. case v of JObj x \<Rightarrow> jl_dumps jl v | JList x \<Rightarrow> jl_dumps jl v
                      | JNull \<Rightarrow> '''' | _ \<Rightarrow> jl_str jl v)
      in case raw of
           JStr s \<Rightarrow> (if py_strip s = '''' then ''''
             else (case jl_loads jl (py_strip s) of None \<Rightarrow> join_split (py_strip s) | Some v \<Rightarrow> encode v))
         | _ \<Rightarrow> encode raw)"

definition call_signature :: "json_lib \<Rightarrow> json \<Rightarrow> (pystr \<times> pystr) list" where
  "call_signature jl call =
     (case call of
        JObj kvs \<Rightarrow>
          (let name = tool_name jl kvs;
               fn = (case obj_get kvs ''function'' of JObj f \<Rightarrow> f | _ \<Rightarrow> []);
               raw = obj_get_or fn ''arguments'' (obj_get_or kvs ''arguments'' (JStr ''''))
           in if name = '''' then [] else [(name, normalize_arguments jl raw)])
      | _ \<Rightarrow> [])"

definition tool_call_signatures :: "json_lib \<Rightarrow> message list \<Rightarrow> (pystr \<times> pystr) list" where
  "tool_call_signatures jl ms = concat (map (call_signature jl) (concat (map calls_of ms)))"

definition tool_names :: "json_lib \<Rightarrow> message list \<Rightarrow> pystr list" where
  "tool_names jl ms = concat (map (\<lambda>call. case call of
       JObj kvs \<Rightarrow> (if tool_name jl kvs = '''' then [] else [tool_name jl kvs]) | _ \<Rightarrow> [])
     (concat (map calls_of ms)))"

text \<open>\<open>xs[-n:]\<close> for a positive \<open>n\<close>.\<close>

definition last_n :: "nat \<Rightarrow> 'a list \<Rightarrow> 'a list" where
  "last_n n xs = drop (length xs - n) xs"

text \<open>\<open>Counter(xs).most_common(1)[0][1]\<close>.\<close>

definition top_count :: "'a list \<Rightarrow> nat" where
  "top_count xs = fold (\<lambda>x m. max m (count_list xs x)) xs 0"

section \<open>Stalls\<close>

definition is_error_result :: "json_lib \<Rightarrow> pystr \<Rightarrow> bool" where
  "is_error_result jl content =
     (let text = py_strip content; lowered = py_lower text;
          flagged = (if starts_with text ''{'' \<or> starts_with text ''['' then
             (case jl_loads jl text of
                Some (JObj kvs) \<Rightarrow>
                  obj_get_or kvs ''isError'' (obj_get kvs ''is_error'') = JBool True
                  \<or> (map_of kvs ''error'' \<noteq> None
                     \<and> obj_get kvs ''error'' \<notin> {JNull, JStr '''', JBool False, JInt 0}
                     \<and> (case obj_get kvs ''error'' of JFloat x t \<Rightarrow> x \<noteq> 0 | _ \<Rightarrow> True))
              | _ \<Rightarrow> False) else False)
      in text \<noteq> '''' \<and> (flagged \<or> starts_with lowered ''error'' \<or> starts_with lowered ''exception''
           \<or> starts_with text ''Traceback (most recent call last)''))"

text \<open>The loop over the reversed messages: \<open>streak\<close> and \<open>seen\<close> so far.\<close>

fun error_streak :: "json_lib \<Rightarrow> nat \<Rightarrow> message list \<Rightarrow> nat \<Rightarrow> nat \<Rightarrow> nat" where
  "error_streak jl limit [] streak seen = streak"
| "error_streak jl limit (m # ms) streak seen =
     (if m_role m = ''assistant'' \<and> has_tool_calls m then error_streak jl limit ms streak seen
      else if m_role m \<noteq> ''tool'' \<and> \<not> has_tool_call_id m then
        (if streak \<noteq> 0 then streak else error_streak jl limit ms streak seen)
      else if seen + 1 > limit then streak
      else if \<not> is_error_result jl (content_or_empty m) then streak
      else error_streak jl limit ms (streak + 1) (seen + 1))"

definition trailing_error_results :: "json_lib \<Rightarrow> nat \<Rightarrow> message list \<Rightarrow> nat" where
  "trailing_error_results jl limit ms = error_streak jl limit (rev ms) 0 0"

datatype stall = Repeat nat | ErrorStreak nat

definition detect_stall :: "json_lib \<Rightarrow> int \<Rightarrow> int \<Rightarrow> message list \<Rightarrow> stall option" where
  "detect_stall jl repeats window ms =
     (let r = nat (max 1 repeats); w = nat (max 1 window);
          calls = last_n w (tool_call_signatures jl ms);
          errors = trailing_error_results jl w ms
      in if calls \<noteq> [] \<and> top_count calls \<ge> r then Some (Repeat (top_count calls))
         else if errors \<ge> r then Some (ErrorStreak errors) else None)"

text \<open>\<open>list.index\<close>.\<close>

fun index_of :: "'a \<Rightarrow> 'a list \<Rightarrow> nat option" where
  "index_of x [] = None"
| "index_of x (y # ys) = (if x = y then Some 0 else map_option Suc (index_of x ys))"

definition bump_tier :: "pystr \<Rightarrow> bool \<Rightarrow> pystr option" where
  "bump_tier tier frontier =
     (let ladder = [''L3'', ''L4'', ''L5''] @ (if frontier then [''L6''] else []) in
      case index_of tier ladder of None \<Rightarrow> None
      | Some i \<Rightarrow> (if i + 1 \<ge> length ladder then None else Some (ladder ! (i + 1))))"

section \<open>Phases\<close>

definition EXPLORE_TOKENS :: "pystr list" where
  "EXPLORE_TOKENS = [''read'', ''search'', ''list'', ''fetch'', ''grep'']"
definition IMPLEMENT_TOKENS :: "pystr list" where
  "IMPLEMENT_TOKENS = [''edit'', ''write'', ''apply'', ''replace'', ''patch'']"
definition VERIFY_TOKENS :: "pystr list" where
  "VERIFY_TOKENS = [''test'', ''run'', ''build'', ''lint'']"
definition TIER_LADDER :: "pystr list" where
  "TIER_LADDER = [''L3'', ''L4'', ''L5'']"

datatype phase = Explore | Implement | Verify

definition phase_for_name :: "pystr \<Rightarrow> phase option" where
  "phase_for_name name =
     (let lowered = py_lower name; hit = (\<lambda>ts. \<exists>t \<in> set ts. contains lowered t) in
      if hit IMPLEMENT_TOKENS then Some Implement
      else if hit VERIFY_TOKENS then Some Verify
      else if hit EXPLORE_TOKENS then Some Explore else None)"

record phase_match =
  pm_phase :: phase
  pm_signals :: "pystr list"
  pm_counts :: "phase \<Rightarrow> nat"

definition classify_phase :: "json_lib \<Rightarrow> int \<Rightarrow> message list \<Rightarrow> phase_match option" where
  "classify_phase jl window ms =
     (let names = last_n (nat (max 1 window)) (tool_names jl ms);
          signals = filter (\<lambda>n. phase_for_name n \<noteq> None) names;
          phases = map (\<lambda>n. the (phase_for_name n)) signals;
          tied = (\<lambda>p. count_list phases p = top_count phases)
      in if phases = [] then None
         else Some \<lparr>pm_phase = hd (filter tied (rev phases)), pm_signals = signals,
                    pm_counts = count_list phases\<rparr>)"

text \<open>A mapping entry: a relative step, an absolute tier, or neither.\<close>

datatype phase_step = Relative int | Absolute pystr | NoStep

definition upper_ascii :: "pystr \<Rightarrow> pystr" where
  "upper_ascii = map (\<lambda>c. let n = (of_char c :: nat) in if 97 \<le> n \<and> n \<le> 122 then char_of (n - 32) else c)"

definition adjust_tier :: "pystr \<Rightarrow> phase_step \<Rightarrow> pystr" where
  "adjust_tier tier step =
     (case index_of tier TIER_LADDER of
        None \<Rightarrow> tier
      | Some i \<Rightarrow>
          (case step of
             Absolute raw \<Rightarrow> (let a = upper_ascii (py_strip raw) in if a \<in> set TIER_LADDER then a else tier)
           | NoStep \<Rightarrow> tier
           | Relative d \<Rightarrow> (if d = 0 then tier
               else TIER_LADDER ! nat (max 0 (min (int (length TIER_LADDER) - 1) (int i + d))))))"

definition default_phase_map :: "phase \<Rightarrow> phase_step" where
  "default_phase_map p = (case p of Explore \<Rightarrow> Relative (-1) | Implement \<Rightarrow> Relative 0 | Verify \<Rightarrow> Relative 0)"

definition resolve_phase_map :: "(phase \<Rightarrow> phase_step option) option \<Rightarrow> phase \<Rightarrow> phase_step" where
  "resolve_phase_map settings p = (case settings of None \<Rightarrow> default_phase_map p
     | Some f \<Rightarrow> (case f p of None \<Rightarrow> default_phase_map p | Some s \<Rightarrow> s))"

section \<open>Trimming a history\<close>

definition protected_message :: "message \<Rightarrow> bool" where
  "protected_message m =
     (m_role m \<in> {''system'', ''tool'', ''function''} \<or> has_tool_calls m \<or> has_tool_call_id m
      \<or> m_images m \<noteq> [] \<or> m_audio m \<noteq> [])"

definition multimodal_tokens :: "message \<Rightarrow> nat" where
  "multimodal_tokens m = 85 * length (m_images m)
     + sum_list (map (\<lambda>a. max 50 ((length (au_data a) + 100 - 1) div 100)) (m_audio m))"

text \<open>\<open>str(message.tool_calls)\<close> is \<open>jl_str\<close> of the list.\<close>

definition message_tokens :: "json_lib \<Rightarrow> message \<Rightarrow> nat" where
  "message_tokens jl m = max 1 ((length (content_or_empty m) + 3) div 4)
     + (if has_tool_calls m then max 1 ((length (jl_str jl (JList (calls_of m))) + 3) div 4) else 0)
     + multimodal_tokens m"

definition estimate_tokens :: "json_lib \<Rightarrow> message list \<Rightarrow> nat" where
  "estimate_tokens jl ms = sum_list (map (message_tokens jl) ms)"

definition over_budget :: "json_lib \<Rightarrow> int \<Rightarrow> int \<Rightarrow> message list \<Rightarrow> bool" where
  "over_budget jl max_messages max_tokens kept =
     (int (length kept) > max_messages \<or> (max_tokens > 0 \<and> int (estimate_tokens jl kept) > max_tokens))"

text \<open>
  The loop: \<open>kept\<close> are the kept messages before the index, \<open>rest\<close> those from it on, so that
  \<open>kept @ rest\<close> is what the source keeps at that moment.
\<close>

fun compact_loop :: "json_lib \<Rightarrow> int \<Rightarrow> int \<Rightarrow> message list \<Rightarrow> message list \<Rightarrow> message list" where
  "compact_loop jl mm mt kept [] = kept"
| "compact_loop jl mm mt kept (m # rest) =
     (if \<not> over_budget jl mm mt (kept @ m # rest) then kept @ m # rest
      else if protected_message m then compact_loop jl mm mt (kept @ [m]) rest
      else compact_loop jl mm mt kept rest)"

definition compact_messages ::
    "json_lib \<Rightarrow> bool \<Rightarrow> int \<Rightarrow> int \<Rightarrow> message list \<Rightarrow> message list \<times> nat \<times> nat" where
  "compact_messages jl enabled mm mt ms =
     (let before = length ms in
      if \<not> enabled then (ms, before, before)
      else if \<not> over_budget jl mm mt ms then (ms, before, before)
      else (let out = compact_loop jl mm mt [] ms in (out, before, length out)))"

section \<open>Confidence, failover, suffixes\<close>

text \<open>The refusal phrases are plain text, searched without regard to case.\<close>

definition score_l3_confidence :: "pystr \<Rightarrow> pyfloat" where
  "score_l3_confidence content =
     (if length (py_strip content) \<le> 10 then 0
      else if \<exists>p \<in> {''i cannot'', ''i can'' @ [CHR 0x27] @ ''t'', ''as an ai'', ''i don'' @ [CHR 0x27] @ ''t have access''}.
                contains (py_lower content) p then 0
      else 1)"

definition CONTEXT_NEEDLES :: "pystr list" where
  "CONTEXT_NEEDLES = [''context length'', ''context window'', ''maximum context'', ''exceeds the context'',
     ''prompt is too long'', ''too long for the model'', ''num_ctx'']"

definition is_context_length_error :: "pystr \<Rightarrow> bool" where
  "is_context_length_error text = (\<exists>n \<in> set CONTEXT_NEEDLES. contains (py_lower text) n)"

definition local_model_alias :: "pystr \<Rightarrow> pystr option" where
  "local_model_alias model =
     (let name = py_lower (after_last (CHR ''/'') model) in
      if ends_with name '':floor'' \<or> name = ''floor'' then Some ''floor''
      else if ends_with name '':nitro'' \<or> name = ''nitro'' then Some ''nitro'' else None)"

section \<open>Properties\<close>

lemma fold_max:
  fixes f :: "'a \<Rightarrow> nat"
  shows "a \<le> fold (\<lambda>x m. max m (f x)) ys a" "y \<in> set ys \<Longrightarrow> f y \<le> fold (\<lambda>x m. max m (f x)) ys a"
    "fold (\<lambda>x m. max m (f x)) ys a = a \<or> (\<exists>x \<in> set ys. fold (\<lambda>x m. max m (f x)) ys a = f x)"
proof (induction ys arbitrary: a)
  case (Cons z zs)
  {
    case 1
    then show ?case using Cons.IH(1) [of "max a (f z)"] by simp
  next
    case 2
    then show ?case using Cons.IH(1) [of "max a (f z)"] Cons.IH(2) [of "max a (f z)"] by auto
  next
    case 3
    then show ?case using Cons.IH(3) [of "max a (f z)"] by (auto simp: max_def split: if_splits)
  }
qed simp_all

lemma top_count_ge: "count_list xs x \<le> top_count xs"
proof (cases "x \<in> set xs")
  case True
  then show ?thesis by (simp add: top_count_def fold_max(2))
next
  case False
  then show ?thesis by (simp add: count_list_0_iff)
qed

lemma top_count_attained:
  assumes "xs \<noteq> []"
  obtains x where "x \<in> set xs" "count_list xs x = top_count xs"
proof -
  have "0 < count_list xs (hd xs)" using assms by (cases xs) auto
  then have "top_count xs \<noteq> 0" using top_count_ge [of xs "hd xs"] by simp
  then show thesis using that fold_max(3) [of "count_list xs" xs 0] by (auto simp: top_count_def)
qed

text \<open>
  A repeat stall is reported exactly when some tool call, with the same name and the same
  arguments, occurs at least \<open>repeats\<close> times among the last \<open>window\<close> calls, and the count it
  reports is the largest number of times one occurs there.
\<close>
theorem repeat_stall_is_real:
  shows "detect_stall jl repeats window ms = Some (Repeat n) \<longleftrightarrow>
    (let calls = last_n (nat (max 1 window)) (tool_call_signatures jl ms) in
      (\<exists>sig. count_list calls sig = n) \<and> (\<forall>sig. count_list calls sig \<le> n) \<and> max 1 repeats \<le> int n)"
proof -
  let ?calls = "last_n (nat (max 1 window)) (tool_call_signatures jl ms)"
  have top: "(\<exists>sig. count_list ?calls sig = n) \<and> (\<forall>sig. count_list ?calls sig \<le> n) \<longleftrightarrow> n = top_count ?calls"
    if "0 < n"
  proof
    assume a: "(\<exists>sig. count_list ?calls sig = n) \<and> (\<forall>sig. count_list ?calls sig \<le> n)"
    then have "?calls \<noteq> []" using that by auto
    then obtain x where "count_list ?calls x = top_count ?calls" by (rule top_count_attained)
    then show "n = top_count ?calls" using a top_count_ge by (metis le_antisym)
  next
    assume n: "n = top_count ?calls"
    then have "?calls \<noteq> []" using that by (auto simp: top_count_def)
    then show "(\<exists>sig. count_list ?calls sig = n) \<and> (\<forall>sig. count_list ?calls sig \<le> n)"
      using n top_count_ge by (metis top_count_attained)
  qed
  have det: "detect_stall jl repeats window ms = Some (Repeat n) \<longleftrightarrow>
      ?calls \<noteq> [] \<and> nat (max 1 repeats) \<le> top_count ?calls \<and> n = top_count ?calls"
    by (simp add: detect_stall_def Let_def eq_commute)
  have r: "nat (max 1 repeats) \<le> top_count ?calls \<longleftrightarrow> max 1 repeats \<le> int (top_count ?calls)" by linarith
  have ne: "0 < top_count ?calls \<Longrightarrow> ?calls \<noteq> []" by (auto simp: top_count_def)
  show ?thesis
  proof (cases "0 < n")
    case True
    show ?thesis
    proof (cases "n = top_count ?calls")
      case eq: True
      then show ?thesis unfolding det r Let_def using top [OF True] ne True by simp
    next
      case False
      then show ?thesis unfolding det Let_def using top [OF True] by blast
    qed
  next
    case False
    then have "n = 0" by simp
    then show ?thesis unfolding det r Let_def by auto
  qed
qed

text \<open>
  The phase of a turn is one no other phase outnumbers among the recognised tool calls of the
  window; on a tie it is the phase of the most recent call among the tied phases.
\<close>
theorem phase_is_the_recent_majority:
  assumes "classify_phase jl window ms = Some pm"
  shows "(\<forall>p. pm_counts pm p \<le> pm_counts pm (pm_phase pm))
    \<and> (\<exists>xs n ys. pm_signals pm = xs @ n # ys \<and> phase_for_name n = Some (pm_phase pm)
         \<and> (\<forall>y \<in> set ys. pm_counts pm (the (phase_for_name y)) < pm_counts pm (pm_phase pm)))"
proof -
  define signals where "signals = filter (\<lambda>n. phase_for_name n \<noteq> None)
    (last_n (nat (max 1 window)) (tool_names jl ms))"
  define phases where "phases = map (\<lambda>n. the (phase_for_name n)) signals"
  define tied where "tied = (\<lambda>p. count_list phases p = top_count phases)"
  have known: "n \<in> set signals \<Longrightarrow> phase_for_name n \<noteq> None" for n by (simp add: signals_def)
  have ne: "phases \<noteq> []" and pp: "pm_phase pm = hd (filter tied (rev phases))"
    and sg: "pm_signals pm = signals" and cn: "pm_counts pm = count_list phases"
    using assms unfolding classify_phase_def Let_def signals_def [symmetric] phases_def [symmetric]
      tied_def [symmetric] by (auto split: if_splits)
  obtain x where "x \<in> set phases" "tied x" using top_count_attained [OF ne] tied_def by metis
  then have "filter tied (rev phases) \<noteq> []" by (auto simp: filter_empty_conv)
  then obtain rest where dec: "filter tied (rev phases) = pm_phase pm # rest"
    unfolding pp by (cases "filter tied (rev phases)") auto
  obtain us vs where us: "rev phases = us @ pm_phase pm # vs" "\<forall>u \<in> set us. \<not> tied u" "tied (pm_phase pm)"
    using filter_eq_ConsD [OF dec] by auto
  have "rev (rev phases) = rev (us @ pm_phase pm # vs)" using us(1) by (rule arg_cong)
  then have "map (\<lambda>n. the (phase_for_name n)) signals = rev vs @ pm_phase pm # rev us"
    by (simp add: phases_def)
  then obtain xs n ys where s: "signals = xs @ n # ys" "the (phase_for_name n) = pm_phase pm"
    "map (\<lambda>n. the (phase_for_name n)) ys = rev us"
    by (auto simp: map_eq_append_conv map_eq_Cons_conv)
  have "phase_for_name n = Some (pm_phase pm)" using s(2) known [of n] s(1) by auto
  moreover have "pm_counts pm (the (phase_for_name y)) < pm_counts pm (pm_phase pm)" if "y \<in> set ys" for y
  proof -
    have "the (phase_for_name y) \<in> set (map (\<lambda>n. the (phase_for_name n)) ys)" using that by simp
    then have "\<not> tied (the (phase_for_name y))" using us(2) by (simp add: s(3))
    then show ?thesis using us(3) top_count_ge [of phases "the (phase_for_name y)"] by (simp add: cn tied_def)
  qed
  moreover have "pm_counts pm p \<le> pm_counts pm (pm_phase pm)" for p
    using us(3) top_count_ge [of phases p] by (simp add: cn tied_def)
  ultimately show ?thesis using s(1) unfolding sg by blast
qed

lemma compact_loop_spec:
  "\<exists>k \<le> length rest. compact_loop jl mm mt kept rest = kept @ filter protected_message (take k rest) @ drop k rest
    \<and> (over_budget jl mm mt (compact_loop jl mm mt kept rest) \<longrightarrow> k = length rest)
    \<and> (\<forall>j < k. over_budget jl mm mt (kept @ filter protected_message (take j rest) @ drop j rest))"
proof (induction rest arbitrary: kept)
  case Nil
  then show ?case by simp
next
  case (Cons m rest)
  show ?case
  proof (cases "over_budget jl mm mt (kept @ m # rest)")
    case False
    then show ?thesis by (intro exI [of _ 0]) simp
  next
    case True
    let ?kept = "if protected_message m then kept @ [m] else kept"
    have run: "compact_loop jl mm mt kept (m # rest) = compact_loop jl mm mt ?kept rest"
      using True by simp
    obtain k where k: "k \<le> length rest"
      "compact_loop jl mm mt ?kept rest = ?kept @ filter protected_message (take k rest) @ drop k rest"
      "over_budget jl mm mt (compact_loop jl mm mt ?kept rest) \<longrightarrow> k = length rest"
      "\<forall>j < k. over_budget jl mm mt (?kept @ filter protected_message (take j rest) @ drop j rest)"
      using Cons.IH [of ?kept] by blast
    have eq: "?kept @ filter protected_message (take k rest) @ drop k rest
        = kept @ filter protected_message (take (Suc k) (m # rest)) @ drop (Suc k) (m # rest)" for k
      by simp
    show ?thesis unfolding run
    proof (intro exI [of _ "Suc k"] conjI)
      show "Suc k \<le> length (m # rest)" using k(1) by simp
      show "compact_loop jl mm mt ?kept rest
          = kept @ filter protected_message (take (Suc k) (m # rest)) @ drop (Suc k) (m # rest)"
        using k(2) eq by (rule trans)
      show "over_budget jl mm mt (compact_loop jl mm mt ?kept rest) \<longrightarrow> Suc k = length (m # rest)"
        using k(3) by simp
      show "\<forall>j < Suc k. over_budget jl mm mt (kept @ filter protected_message (take j (m # rest)) @ drop j (m # rest))"
      proof (intro allI impI)
        fix j assume "j < Suc k"
        then show "over_budget jl mm mt (kept @ filter protected_message (take j (m # rest)) @ drop j (m # rest))"
          using True k(4) unfolding eq by (cases j) simp_all
      qed
    qed
  qed
qed

text \<open>
  Trimming an oversized history drops the oldest unprotected messages and no others, one at a
  time, and stops as soon as the rest fits: with \<open>k\<close> the first position at which the messages
  before it without the unprotected ones, followed by all the others, fit the budget, that is
  the result; if none fits, every unprotected message is gone and the result stays oversized.
\<close>
theorem compaction_drops_oldest_unprotected:
  shows "\<exists>k \<le> length ms. fst (compact_messages jl True mm mt ms)
        = filter protected_message (take k ms) @ drop k ms
    \<and> (\<forall>j < k. over_budget jl mm mt (filter protected_message (take j ms) @ drop j ms))
    \<and> (over_budget jl mm mt (fst (compact_messages jl True mm mt ms)) \<longrightarrow> k = length ms)"
proof (cases "over_budget jl mm mt ms")
  case True
  then show ?thesis using compact_loop_spec [of ms jl mm mt "[]"] by (auto simp: compact_messages_def Let_def)
next
  case False
  then show ?thesis by (intro exI [of _ 0]) (simp add: compact_messages_def Let_def)
qed

text \<open>Protected messages survive, and what survives keeps its order.\<close>

lemma compaction_keeps_protected:
  "filter protected_message (fst (compact_messages jl on mm mt ms)) = filter protected_message ms"
proof (cases on)
  case True
  obtain k where "compact_loop jl mm mt [] ms = filter protected_message (take k ms) @ drop k ms"
    using compact_loop_spec [of ms jl mm mt "[]"] by auto
  then have "filter protected_message (compact_loop jl mm mt [] ms) = filter protected_message (take k ms @ drop k ms)"
    by (simp only: filter_append filter_filter) simp
  then show ?thesis using True by (simp add: compact_messages_def Let_def)
qed (simp add: compact_messages_def Let_def)

definition demo_jl :: json_lib where
  "demo_jl = \<lparr>jl_loads = (\<lambda>s. None), jl_dumps = (\<lambda>v. ''''), jl_str = (\<lambda>v. case v of JStr s \<Rightarrow> s | _ \<Rightarrow> '''')\<rparr>"

definition demo_call :: "pystr \<Rightarrow> message" where
  "demo_call name = (plain_message ''assistant'' '''')\<lparr>m_tool_calls := Some [JObj [(''name'', JStr name)]]\<rparr>"

definition demo_turn :: "message list" where
  "demo_turn = [demo_call ''read_file'', demo_call ''edit_file'', demo_call ''ping'']"

lemma demo_phase: "map_option pm_phase (classify_phase demo_jl 6 demo_turn) = Some Implement"
  by code_simp

lemma phase_is_the_recent_majority_witness:
  "\<exists>pm. classify_phase demo_jl 6 demo_turn = Some pm \<and> pm_phase pm = Implement
    \<and> pm_counts pm Explore \<le> pm_counts pm Implement"
proof -
  obtain pm where pm: "classify_phase demo_jl 6 demo_turn = Some pm" "pm_phase pm = Implement"
    using demo_phase by (cases "classify_phase demo_jl 6 demo_turn") auto
  then show ?thesis using phase_is_the_recent_majority [OF pm(1)] by auto
qed

definition demo_history :: "message list" where
  "demo_history = [plain_message ''system'' ''s'', plain_message ''user'' ''a'', plain_message ''user'' ''b'']"

lemma demo_compacted:
  "map m_content (fst (compact_messages demo_jl True 2 0 demo_history)) = [Some ''s'', Some ''b'']"
  by code_simp

lemma compaction_drops_oldest_unprotected_witness:
  "\<exists>k \<le> length demo_history. map m_content (filter protected_message (take k demo_history) @ drop k demo_history)
    = [Some ''s'', Some ''b'']"
  using compaction_drops_oldest_unprotected [of demo_history demo_jl 2 0] demo_compacted by metis

end
