(* ===== verification/McpPolicy.thy ===== *)
theory McpPolicy
  imports AccessLists
begin

text \<open>
  MCP governance (\<open>daari/gateway/mcp_policy.py\<close>): allow and deny globs for tools, egress servers
  and ingress clients, layered global, team, key; who the client is; the fail-closed grant.

  The three policies share one rule, stated as the locale \<open>layered_policy\<close>: a deny pattern
  refuses whatever the allow list says, and denies accumulate over the layers.
\<close>

section \<open>Policies\<close>

record mcp_policy =
  pol_allow :: "pystr list"
  pol_deny :: "pystr list"

definition empty_policy :: mcp_policy where
  "empty_policy = \<lparr>pol_allow = [], pol_deny = []\<rparr>"

definition policy_patterns :: "json \<Rightarrow> pystr list" where
  "policy_patterns raw =
     (let items = (case raw of JStr s \<Rightarrow> [JStr s] | JList xs \<Rightarrow> xs | _ \<Rightarrow> [])
      in concat (map (\<lambda>i. case i of JStr s \<Rightarrow> (if py_strip s = '''' then [] else [py_strip s]) | _ \<Rightarrow> []) items))"

text \<open>A mapping and an object with the same fields read alike; anything else is empty.\<close>

definition policy_from_mapping :: "json \<Rightarrow> mcp_policy" where
  "policy_from_mapping raw = (case raw of
       JObj kvs \<Rightarrow> \<lparr>pol_allow = policy_patterns (obj_get kvs ''allow''),
                    pol_deny = policy_patterns (obj_get kvs ''deny'')\<rparr>
     | _ \<Rightarrow> empty_policy)"

definition any_match :: "pystr \<Rightarrow> pystr list \<Rightarrow> bool" where
  "any_match name ps = (\<exists>p \<in> set ps. fnmatchcase name (py_lower p))"

definition tool_allows :: "mcp_policy \<Rightarrow> pystr \<Rightarrow> bool" where
  "tool_allows p tool =
     (let name = py_lower (py_strip tool) in
      if any_match name (pol_deny p) then False
      else if pol_allow p = [] then True
      else any_match name (pol_allow p))"

definition server_allows :: "mcp_policy \<Rightarrow> pystr \<Rightarrow> bool" where
  "server_allows p server =
     (let name = py_lower (py_strip server) in
      if any_match name (pol_deny p) then False
      else if pol_allow p = [] then True
      else any_match name (pol_allow p))"

definition client_allows :: "mcp_policy \<Rightarrow> pystr option \<Rightarrow> bool" where
  "client_allows p client =
     (if pol_allow p = [] \<and> pol_deny p = [] then True
      else (let name = py_lower (py_strip (str_or client '''')) in
        if name = '''' then pol_allow p = []
        else if any_match name (pol_deny p) then False
        else if pol_allow p = [] then True
        else any_match name (pol_allow p)))"

definition merged_with :: "mcp_policy \<Rightarrow> mcp_policy \<Rightarrow> mcp_policy" where
  "merged_with base specific = \<lparr>pol_allow = (if pol_allow specific \<noteq> [] then pol_allow specific else pol_allow base),
     pol_deny = pol_deny base @ filter (\<lambda>i. i \<notin> set (pol_deny base)) (pol_deny specific)\<rparr>"

definition is_restrictive :: "mcp_policy \<Rightarrow> bool" where
  "is_restrictive p = (pol_allow p \<noteq> [] \<or> pol_deny p \<noteq> [])"

definition DENY_ALL_SENTINEL :: pystr where
  "DENY_ALL_SENTINEL = ''__daari_no_mcp_grant__''"

definition DENY_ALL_TOOLS :: mcp_policy where
  "DENY_ALL_TOOLS = \<lparr>pol_allow = [DENY_ALL_SENTINEL], pol_deny = []\<rparr>"

section \<open>Layers\<close>

record mcp_key =
  mk_team_name :: "pystr option"
  mk_metadata :: "(pystr \<times> json) list"

record mcp_claims =
  mc_kind :: pystr
  mc_key :: "mcp_key option"

record mcp_settings =
  ms_policy :: json
  ms_team_policies :: "(pystr \<times> json) list"
  ms_require_grant :: bool

definition key_has_mcp_grant :: "(pystr \<times> json) list \<Rightarrow> bool" where
  "key_has_mcp_grant metadata =
     (case obj_get metadata ''mcp'' of
        JObj mcp \<Rightarrow> map_of mcp ''allow'' \<noteq> None \<or> map_of mcp ''deny'' \<noteq> None
          \<or> (case obj_get mcp ''servers'' of
               JObj sv \<Rightarrow> map_of sv ''allow'' \<noteq> None \<or> map_of sv ''deny'' \<noteq> None | _ \<Rightarrow> False)
      | _ \<Rightarrow> False)"

definition virtual_key_lacks_mcp_grant :: "mcp_claims option \<Rightarrow> mcp_settings \<Rightarrow> bool" where
  "virtual_key_lacks_mcp_grant claims settings =
     (if \<not> ms_require_grant settings then False
      else (case claims of None \<Rightarrow> False
        | Some c \<Rightarrow> (if mc_kind c \<noteq> ''virtual'' then False
            else (case mc_key c of None \<Rightarrow> False | Some k \<Rightarrow> \<not> key_has_mcp_grant (mk_metadata k)))))"

definition servers_block :: "json \<Rightarrow> json" where
  "servers_block raw = (case raw of JObj kvs \<Rightarrow> obj_get kvs ''servers'' | _ \<Rightarrow> JNull)"

definition clients_block :: "json \<Rightarrow> json" where
  "clients_block raw = (case raw of JObj kvs \<Rightarrow> obj_get kvs ''clients'' | _ \<Rightarrow> JNull)"

text \<open>The layering the three resolvers share; \<open>block\<close> picks the part of a mapping they read.\<close>

definition layered :: "(json \<Rightarrow> json) \<Rightarrow> mcp_claims option \<Rightarrow> mcp_settings \<Rightarrow> mcp_policy" where
  "layered block claims settings =
     (let global = policy_from_mapping (block (ms_policy settings)) in
      case (case claims of None \<Rightarrow> None | Some c \<Rightarrow> mc_key c) of
        None \<Rightarrow> global
      | Some key \<Rightarrow>
          (let team = (if truthy_str (mk_team_name key)
                       then map_of (ms_team_policies settings) (the (mk_team_name key)) else None);
               p1 = (case team of None \<Rightarrow> global | Some t \<Rightarrow> merged_with global (policy_from_mapping (block t)))
           in merged_with p1 (policy_from_mapping (block (obj_get (mk_metadata key) ''mcp'')))))"

definition resolve_policy :: "mcp_claims option \<Rightarrow> mcp_settings \<Rightarrow> mcp_policy" where
  "resolve_policy claims settings =
     (if virtual_key_lacks_mcp_grant claims settings then DENY_ALL_TOOLS else layered (\<lambda>r. r) claims settings)"

definition resolve_server_policy :: "mcp_claims option \<Rightarrow> mcp_settings \<Rightarrow> mcp_policy" where
  "resolve_server_policy claims settings = layered servers_block claims settings"

definition resolve_client_policy :: "mcp_claims option \<Rightarrow> mcp_settings \<Rightarrow> mcp_policy" where
  "resolve_client_policy claims settings = layered clients_block claims settings"

section \<open>Who is calling\<close>

definition client_info_name :: "json \<Rightarrow> pystr option" where
  "client_info_name raw = (case raw of
       JObj kvs \<Rightarrow> (case obj_get kvs ''name'' of
           JStr n \<Rightarrow> (if py_strip n = '''' then None else Some (py_strip n)) | _ \<Rightarrow> None)
     | _ \<Rightarrow> None)"

definition stripped :: "pystr option \<Rightarrow> pystr option" where
  "stripped x = (case x of None \<Rightarrow> None | Some s \<Rightarrow> (if py_strip s = '''' then None else Some (py_strip s)))"

definition first_some :: "'a option list \<Rightarrow> 'a option" where
  "first_some xs = (case filter (\<lambda>x. x \<noteq> None) xs of [] \<Rightarrow> None | x # _ \<Rightarrow> x)"

text \<open>The client ids of the claims and of their key, when they are strings.\<close>

definition resolve_client_identity ::
    "json \<Rightarrow> pystr option \<Rightarrow> pystr option \<Rightarrow> pystr option \<Rightarrow> pystr option" where
  "resolve_client_identity params claim_id key_client user_agent =
     first_some
       [case params of JObj kvs \<Rightarrow> (case obj_get kvs ''_meta'' of
            JObj meta \<Rightarrow> client_info_name (obj_get meta ''io.modelcontextprotocol/clientInfo'') | _ \<Rightarrow> None) | _ \<Rightarrow> None,
        case params of JObj kvs \<Rightarrow> client_info_name (obj_get kvs ''clientInfo'') | _ \<Rightarrow> None,
        stripped claim_id, stripped key_client, stripped user_agent]"

definition server_id_from_provider :: "pystr option \<Rightarrow> pystr option" where
  "server_id_from_provider provider_id =
     (case provider_id of None \<Rightarrow> None
      | Some p \<Rightarrow> (if \<not> starts_with p ''mcp:'' then None else stripped (Some (drop 4 p))))"

section \<open>The layering rule\<close>

locale layered_policy =
  fixes allows :: "mcp_policy \<Rightarrow> 'n \<Rightarrow> bool"
    and name_of :: "'n \<Rightarrow> pystr"
  assumes deny_wins: "name_of n \<noteq> '''' \<Longrightarrow> any_match (name_of n) (pol_deny p) \<Longrightarrow> \<not> allows p n"
    and allow_list: "name_of n \<noteq> '''' \<Longrightarrow> \<not> any_match (name_of n) (pol_deny p) \<Longrightarrow>
        allows p n \<longleftrightarrow> pol_allow p = [] \<or> any_match (name_of n) (pol_allow p)"
begin

lemma denied_merged:
  "any_match (name_of n) (pol_deny base) \<or> any_match (name_of n) (pol_deny specific)
    \<longleftrightarrow> any_match (name_of n) (pol_deny (merged_with base specific))"
  by (auto simp: any_match_def merged_with_def)

lemma merged_denies:
  assumes "name_of n \<noteq> ''''" "any_match (name_of n) (pol_deny base) \<or> any_match (name_of n) (pol_deny specific)"
  shows "\<not> allows (merged_with base specific) n"
  using deny_wins [OF assms(1)] denied_merged [of n base specific] assms(2) by blast

lemma layered_denies:
  assumes "name_of n \<noteq> ''''" "any_match (name_of n) (pol_deny (policy_from_mapping (block (ms_policy settings))))"
  shows "\<not> allows (layered block claims settings) n"
proof -
  have deny: "any_match (name_of n) (pol_deny (merged_with p q))" if "any_match (name_of n) (pol_deny p)" for p q
    using that denied_merged [of n p q] by blast
  have "any_match (name_of n) (pol_deny (layered block claims settings))"
    using assms(2) deny by (auto simp: layered_def Let_def split: option.split)
  then show ?thesis by (rule deny_wins [OF assms(1)])
qed

text \<open>Without an allow list of its own a layer only takes away.\<close>

lemma merged_narrows:
  assumes "name_of n \<noteq> ''''" "pol_allow specific = []" "allows (merged_with base specific) n"
  shows "allows base n"
proof -
  have nd: "\<not> any_match (name_of n) (pol_deny (merged_with base specific))"
    using deny_wins [OF assms(1)] assms(3) by blast
  then have "\<not> any_match (name_of n) (pol_deny base)" using denied_merged [of n base specific] by blast
  then show ?thesis
    using allow_list [OF assms(1)] nd assms(2,3) by (simp add: merged_with_def)
qed

end

interpretation tools: layered_policy tool_allows "\<lambda>t. py_lower (py_strip t)"
  by unfold_locales (auto simp: tool_allows_def Let_def)

interpretation servers: layered_policy server_allows "\<lambda>t. py_lower (py_strip t)"
  by unfold_locales (auto simp: server_allows_def Let_def)

interpretation clients: layered_policy client_allows "\<lambda>c. py_lower (py_strip (str_or c ''''))"
  by unfold_locales (auto simp: client_allows_def Let_def any_match_def)

lemma sentinel_matches: "fnmatchcase name (py_lower DENY_ALL_SENTINEL) \<longleftrightarrow> name = DENY_ALL_SENTINEL"
proof -
  have p: "plain (py_lower DENY_ALL_SENTINEL)" "py_lower DENY_ALL_SENTINEL = DENY_ALL_SENTINEL" by code_simp+
  then have "parse_glob DENY_ALL_SENTINEL = map GLit DENY_ALL_SENTINEL"
    using parse_plain [of DENY_ALL_SENTINEL "[]"] by simp
  then show ?thesis
    using match_literals [of DENY_ALL_SENTINEL "[]" name] p
    by (auto simp: fnmatchcase_def starts_with_iff)
qed

text \<open>
  What the global policy denies stays denied for every key: no team or key policy lets a tool,
  a server or a client through that a global deny pattern names, and a virtual key without a
  grant, where one is required, may call no tool at all but one with the name of the sentinel.
\<close>
theorem global_denies_bind_every_key:
  assumes "py_lower (py_strip n) \<noteq> ''''"
  shows "(any_match (py_lower (py_strip n)) (pol_deny (policy_from_mapping (ms_policy settings)))
        \<and> py_lower (py_strip n) \<noteq> DENY_ALL_SENTINEL \<longrightarrow> \<not> tool_allows (resolve_policy claims settings) n)
    \<and> (any_match (py_lower (py_strip n)) (pol_deny (policy_from_mapping (servers_block (ms_policy settings))))
        \<longrightarrow> \<not> server_allows (resolve_server_policy claims settings) n)
    \<and> (any_match (py_lower (py_strip n)) (pol_deny (policy_from_mapping (clients_block (ms_policy settings))))
        \<longrightarrow> \<not> client_allows (resolve_client_policy claims settings) (Some n))
    \<and> (virtual_key_lacks_mcp_grant claims settings \<longrightarrow>
        tool_allows (resolve_policy claims settings) n = (py_lower (py_strip n) = DENY_ALL_SENTINEL))"
proof (intro conjI impI)
  have ne: "py_lower (py_strip (str_or (Some n) '''')) = py_lower (py_strip n)"
    by (cases "n = ''''") simp_all
  have sentinel: "tool_allows DENY_ALL_TOOLS n = (py_lower (py_strip n) = DENY_ALL_SENTINEL)"
    by (simp add: tool_allows_def DENY_ALL_TOOLS_def any_match_def sentinel_matches)
  show "virtual_key_lacks_mcp_grant claims settings \<Longrightarrow>
      tool_allows (resolve_policy claims settings) n = (py_lower (py_strip n) = DENY_ALL_SENTINEL)"
    by (simp add: resolve_policy_def sentinel)
  show "any_match (py_lower (py_strip n)) (pol_deny (policy_from_mapping (ms_policy settings)))
        \<and> py_lower (py_strip n) \<noteq> DENY_ALL_SENTINEL \<Longrightarrow> \<not> tool_allows (resolve_policy claims settings) n"
    using tools.layered_denies [of n "\<lambda>r. r" settings claims] assms sentinel by (auto simp: resolve_policy_def)
  show "any_match (py_lower (py_strip n)) (pol_deny (policy_from_mapping (servers_block (ms_policy settings))))
        \<Longrightarrow> \<not> server_allows (resolve_server_policy claims settings) n"
    using servers.layered_denies [of n servers_block settings claims] assms by (simp add: resolve_server_policy_def)
  show "any_match (py_lower (py_strip n)) (pol_deny (policy_from_mapping (clients_block (ms_policy settings))))
        \<Longrightarrow> \<not> client_allows (resolve_client_policy claims settings) (Some n)"
    using clients.layered_denies [of "Some n" clients_block settings claims] assms
    unfolding ne by (simp add: resolve_client_policy_def)
qed

definition demo_mcp :: mcp_settings where
  "demo_mcp = \<lparr>ms_policy = JObj [(''deny'', JStr ''Shell*'')], ms_team_policies = [], ms_require_grant = True\<rparr>"

definition demo_mcp_claims :: mcp_claims where
  "demo_mcp_claims = \<lparr>mc_kind = ''virtual'', mc_key = Some \<lparr>mk_team_name = None,
     mk_metadata = [(''mcp'', JObj [(''allow'', JList [JStr ''shell_exec''])])]\<rparr>\<rparr>"

lemma global_denies_bind_every_key_witness:
  "\<not> tool_allows (resolve_policy (Some demo_mcp_claims) demo_mcp) ''shell_exec''"
proof -
  have n: "py_lower (py_strip ''shell_exec'') = ''shell_exec''" by code_simp
  have d: "any_match ''shell_exec'' (pol_deny (policy_from_mapping (ms_policy demo_mcp)))" by code_simp
  show ?thesis
    using global_denies_bind_every_key [of "''shell_exec''" demo_mcp "Some demo_mcp_claims"] d
    by (simp add: n DENY_ALL_SENTINEL_def)
qed

end
