(* ===== verification/Idempotency.thy ===== *)
theory Idempotency
  imports Prelude
begin

text \<open>
  Idempotency keys (\<open>daari/gateway/idempotency_store.py\<close>, \<open>daari/gateway/idempotency.py\<close>): the
  table of pending and complete answers, and \<open>resolve_idempotency\<close>, which replays, refuses,
  waits or claims.

  Each operation of the store is one transaction under its lock, so the resolver is modelled as
  a state machine that makes one store operation per step (\<open>resolve_step\<close>), and the requests of
  all processes interleave between steps (\<open>idem_step\<close>). The wait budget is a choice of the
  environment: each poll is told whether its deadline has passed. The waiter events only wake a
  poll early and are not part of the state.
\<close>

section \<open>The table\<close>

record idem_reply =
  rp_status :: int
  rp_body :: pystr
  rp_media :: pystr
  rp_stream :: bool
  rp_text :: "pystr option"

record idem_row =
  ir_hash :: pystr
  ir_state :: pystr
  ir_status :: "int option"
  ir_body :: "pystr option"
  ir_media :: "pystr option"
  ir_stream :: bool
  ir_text :: "pystr option"
  ir_created :: int

text \<open>The primary key is (principal, idempotency key).\<close>

type_synonym idem_store = "((pystr \<times> pystr) \<times> idem_row) list"

definition idem_get :: "pystr \<Rightarrow> pystr \<Rightarrow> idem_store \<Rightarrow> idem_row option" where
  "idem_get p k s = map_of s (p, k)"

definition pending_row :: "int \<Rightarrow> pystr \<Rightarrow> idem_row" where
  "pending_row now h = \<lparr>ir_hash = h, ir_state = ''pending'', ir_status = None, ir_body = None,
     ir_media = None, ir_stream = False, ir_text = None, ir_created = now\<rparr>"

definition idem_begin :: "int \<Rightarrow> pystr \<Rightarrow> pystr \<Rightarrow> pystr \<Rightarrow> idem_store \<Rightarrow> bool \<times> idem_store" where
  "idem_begin now p k h s =
     (if map_of s (p, k) = None then (True, s @ [((p, k), pending_row now h)]) else (False, s))"

definition completed_row :: "int \<Rightarrow> idem_reply \<Rightarrow> idem_row \<Rightarrow> idem_row" where
  "completed_row now rp row = row\<lparr>ir_state := ''complete'', ir_status := Some (rp_status rp),
     ir_body := Some (rp_body rp), ir_media := Some (rp_media rp), ir_stream := rp_stream rp,
     ir_text := rp_text rp, ir_created := now\<rparr>"

text \<open>The UPDATE names the key only: it rewrites whatever row is there, and nothing when there is none.\<close>

definition idem_complete :: "int \<Rightarrow> pystr \<Rightarrow> pystr \<Rightarrow> idem_reply \<Rightarrow> idem_store \<Rightarrow> idem_store" where
  "idem_complete now p k rp s =
     map (\<lambda>(q, row). (q, if q = (p, k) then completed_row now rp row else row)) s"

definition idem_abandon :: "pystr \<Rightarrow> pystr \<Rightarrow> idem_store \<Rightarrow> idem_store" where
  "idem_abandon p k s = filter (\<lambda>(q, row). \<not> (q = (p, k) \<and> ir_state row = ''pending'')) s"

definition is_aged :: "int \<Rightarrow> idem_row \<Rightarrow> bool" where
  "is_aged cutoff row = (ir_created row > 0 \<and> ir_created row \<le> cutoff)"

definition idem_prune :: "pyfloat \<Rightarrow> bool \<Rightarrow> idem_store \<Rightarrow> nat \<times> idem_store" where
  "idem_prune cutoff_epoch dry_run s =
     (let cutoff = py_trunc cutoff_epoch;
          count = length (filter (\<lambda>(q, row). is_aged cutoff row) s)
      in if dry_run \<or> count = 0 then (count, s)
         else (count, filter (\<lambda>(q, row). \<not> is_aged cutoff row) s))"

definition idem_erase :: "pystr list \<Rightarrow> bool \<Rightarrow> idem_store \<Rightarrow> nat \<times> idem_store" where
  "idem_erase principals dry_run s =
     (let ids = map py_strip (filter (\<lambda>p. py_strip p \<noteq> '''') principals) in
      if ids = [] then (0, s)
      else (let count = length (filter (\<lambda>(q, row). fst q \<in> set ids) s)
            in if dry_run \<or> count = 0 then (count, s)
               else (count, filter (\<lambda>(q, row). fst q \<notin> set ids) s)))"

section \<open>Requests\<close>

record idem_claims =
  ic_kind :: pystr
  ic_key_id :: "pystr option"

definition principal_from_request :: "idem_claims option \<Rightarrow> pystr" where
  "principal_from_request claims = (case claims of None \<Rightarrow> ''anonymous''
     | Some c \<Rightarrow> (if ic_kind c = ''virtual'' then ''vk:'' @ str_or (ic_key_id c) ''unknown''
                  else ''master''))"

definition extract_idempotency_key :: "(pystr \<Rightarrow> pystr option) \<Rightarrow> pystr option" where
  "extract_idempotency_key headers =
     (let raw = (if str_or (headers ''idempotency-key'') '''' \<noteq> '''' then headers ''idempotency-key''
                 else headers ''Idempotency-Key'')
      in case raw of None \<Rightarrow> None
         | Some s \<Rightarrow> (if py_strip s = '''' then None else Some (py_strip s)))"

text \<open>Where a request is inside \<open>resolve_idempotency\<close>, before its next store operation.\<close>

datatype idem_outcome = Noop | Replay idem_row | Conflict

datatype idem_phase =
    Looking             \<comment> \<open>about to read the row\<close>
  | Waiting             \<comment> \<open>polling a pending row found by the first read\<close>
  | Clearing            \<comment> \<open>timed out or abandoned: about to delete the pending row\<close>
  | Claiming            \<comment> \<open>about to insert its own pending row\<close>
  | Rereading           \<comment> \<open>lost the insert race\<close>
  | WaitingAgain        \<comment> \<open>polling after the lost race\<close>
  | Holding             \<comment> \<open>kind proceed: the handler runs with the slot\<close>
  | Served              \<comment> \<open>the handler completed or abandoned its slot\<close>
  | Settled idem_outcome

record idem_request =
  rq_principal :: pystr
  rq_key :: pystr
  rq_hash :: pystr
  rq_phase :: idem_phase

definition resolve_start ::
    "bool \<Rightarrow> (pystr \<Rightarrow> pystr option) \<Rightarrow> idem_claims option \<Rightarrow> pystr \<Rightarrow> idem_request option" where
  "resolve_start enabled headers claims body_hash =
     (if \<not> enabled then None
      else (case extract_idempotency_key headers of None \<Rightarrow> None
        | Some key \<Rightarrow> Some \<lparr>rq_principal = principal_from_request claims, rq_key = key,
                           rq_hash = body_hash, rq_phase = Looking\<rparr>))"

text \<open>One poll of \<open>_wait_for_complete\<close>: \<open>None\<close> to go on waiting, else the row it returns.\<close>

definition wait_poll :: "bool \<Rightarrow> idem_row option \<Rightarrow> idem_row option option" where
  "wait_poll expired row =
     (if expired then Some row
      else (case row of None \<Rightarrow> Some None
        | Some r \<Rightarrow> (if ir_state r = ''complete'' then Some (Some r) else None)))"

definition after_wait :: "pystr \<Rightarrow> idem_row option \<Rightarrow> idem_phase" where
  "after_wait h waited = (case waited of None \<Rightarrow> Clearing
     | Some r \<Rightarrow> (if ir_hash r \<noteq> h then Settled Conflict
                  else if ir_state r = ''complete'' then Settled (Replay r) else Clearing))"

definition after_second_wait :: "pystr \<Rightarrow> idem_row option \<Rightarrow> idem_phase" where
  "after_second_wait h waited = (case waited of None \<Rightarrow> Settled Conflict
     | Some r \<Rightarrow> (if ir_state r = ''complete''
                  then (if ir_hash r \<noteq> h then Settled Conflict else Settled (Replay r))
                  else Settled Conflict))"

text \<open>One store operation of \<open>resolve_idempotency\<close>.\<close>

definition resolve_step :: "int \<Rightarrow> bool \<Rightarrow> idem_store \<Rightarrow> idem_request \<Rightarrow> idem_store \<times> idem_request" where
  "resolve_step now expired s r =
     (let row = idem_get (rq_principal r) (rq_key r) s; h = rq_hash r in
      case rq_phase r of
        Looking \<Rightarrow> (s, r\<lparr>rq_phase := (case row of None \<Rightarrow> Claiming
            | Some e \<Rightarrow> (if ir_hash e \<noteq> h then Settled Conflict
                else if ir_state e = ''complete'' then Settled (Replay e) else Waiting))\<rparr>)
      | Waiting \<Rightarrow> (s, (case wait_poll expired row of None \<Rightarrow> r
            | Some waited \<Rightarrow> r\<lparr>rq_phase := after_wait h waited\<rparr>))
      | Clearing \<Rightarrow> (idem_abandon (rq_principal r) (rq_key r) s, r\<lparr>rq_phase := Claiming\<rparr>)
      | Claiming \<Rightarrow> (case idem_begin now (rq_principal r) (rq_key r) h s of
            (won, s') \<Rightarrow> (s', r\<lparr>rq_phase := (if won then Holding else Rereading)\<rparr>))
      | Rereading \<Rightarrow> (s, r\<lparr>rq_phase := (case row of None \<Rightarrow> Settled Noop
            | Some a \<Rightarrow> (if ir_hash a \<noteq> h then Settled Conflict
                else if ir_state a = ''complete'' then Settled (Replay a) else WaitingAgain))\<rparr>)
      | WaitingAgain \<Rightarrow> (s, (case wait_poll expired row of None \<Rightarrow> r
            | Some waited \<Rightarrow> r\<lparr>rq_phase := after_second_wait h waited\<rparr>))
      | _ \<Rightarrow> (s, r))"

text \<open>\<open>IdempotencySlot.complete\<close> and \<open>abandon\<close>, by the handler that holds the slot.\<close>

definition slot_complete :: "int \<Rightarrow> idem_reply \<Rightarrow> idem_store \<Rightarrow> idem_request \<Rightarrow> idem_store \<times> idem_request" where
  "slot_complete now rp s r =
     (idem_complete now (rq_principal r) (rq_key r) rp s, r\<lparr>rq_phase := Served\<rparr>)"

definition slot_abandon :: "idem_store \<Rightarrow> idem_request \<Rightarrow> idem_store \<times> idem_request" where
  "slot_abandon s r = (idem_abandon (rq_principal r) (rq_key r) s, r\<lparr>rq_phase := Served\<rparr>)"

section \<open>Requests together\<close>

text \<open>
  \<open>answer h rp\<close> says that \<open>rp\<close> is an answer to the body with digest \<open>h\<close>; a handler completes
  its slot only with an answer to its own body. In the \<open>orderly\<close> runs no row is taken from a
  handler that still holds it: a waiter's clean-up finds nothing to delete and retention and
  erasure remove complete rows only.
\<close>

record idem_world =
  iw_store :: idem_store
  iw_requests :: "idem_request list"

definition reply_of :: "idem_row \<Rightarrow> idem_reply" where
  "reply_of row = \<lparr>rp_status = num_or (ir_status row) 200, rp_body = str_or (ir_body row) '''',
     rp_media = str_or (ir_media row) ''application/json'', rp_stream = ir_stream row,
     rp_text = ir_text row\<rparr>"

definition keeps_pending :: "idem_store \<Rightarrow> idem_store \<Rightarrow> bool" where
  "keeps_pending s s' = list_all (\<lambda>e. ir_state (snd e) = ''pending'' \<longrightarrow> e \<in> set s') s"

inductive idem_step ::
    "(pystr \<Rightarrow> idem_reply \<Rightarrow> bool) \<Rightarrow> bool \<Rightarrow> idem_world \<Rightarrow> idem_world \<Rightarrow> bool"
  for answer :: "pystr \<Rightarrow> idem_reply \<Rightarrow> bool" and orderly :: bool where
  Arrive: "rq_phase r = Looking \<Longrightarrow>
    idem_step answer orderly w (w\<lparr>iw_requests := iw_requests w @ [r]\<rparr>)"
| Advance: "i < length (iw_requests w) \<Longrightarrow> resolve_step now expired (iw_store w) (iw_requests w ! i) = (s, r) \<Longrightarrow>
    (orderly \<Longrightarrow> rq_phase (iw_requests w ! i) = Clearing \<Longrightarrow> s = iw_store w) \<Longrightarrow>
    idem_step answer orderly w \<lparr>iw_store = s, iw_requests = (iw_requests w)[i := r]\<rparr>"
| Complete: "i < length (iw_requests w) \<Longrightarrow> rq_phase (iw_requests w ! i) = Holding \<Longrightarrow>
    rp_media rp \<noteq> '''' \<Longrightarrow> rp_status rp \<noteq> 0 \<Longrightarrow> answer (rq_hash (iw_requests w ! i)) rp \<Longrightarrow>
    slot_complete now rp (iw_store w) (iw_requests w ! i) = (s, r) \<Longrightarrow>
    idem_step answer orderly w \<lparr>iw_store = s, iw_requests = (iw_requests w)[i := r]\<rparr>"
| Abandon: "i < length (iw_requests w) \<Longrightarrow> rq_phase (iw_requests w ! i) = Holding \<Longrightarrow>
    slot_abandon (iw_store w) (iw_requests w ! i) = (s, r) \<Longrightarrow>
    idem_step answer orderly w \<lparr>iw_store = s, iw_requests = (iw_requests w)[i := r]\<rparr>"
| Prune: "idem_prune cutoff dry (iw_store w) = (n, s) \<Longrightarrow> (orderly \<Longrightarrow> keeps_pending (iw_store w) s) \<Longrightarrow>
    idem_step answer orderly w (w\<lparr>iw_store := s\<rparr>)"
| Erase: "idem_erase ps dry (iw_store w) = (n, s) \<Longrightarrow> (orderly \<Longrightarrow> keeps_pending (iw_store w) s) \<Longrightarrow>
    idem_step answer orderly w (w\<lparr>iw_store := s\<rparr>)"

definition idem_reach :: "(pystr \<Rightarrow> idem_reply \<Rightarrow> bool) \<Rightarrow> bool \<Rightarrow> idem_world \<Rightarrow> bool" where
  "idem_reach answer orderly w = (idem_step answer orderly)\<^sup>*\<^sup>* \<lparr>iw_store = [], iw_requests = []\<rparr> w"

text \<open>What an orderly run keeps: each holder's own pending row, and honest complete rows.\<close>

definition holds_own :: "idem_store \<Rightarrow> idem_request \<Rightarrow> bool" where
  "holds_own s r = (rq_phase r = Holding \<longrightarrow>
     (\<exists>row. map_of s (rq_principal r, rq_key r) = Some row \<and> ir_state row = ''pending'' \<and> ir_hash row = rq_hash r))"

definition honest :: "(pystr \<Rightarrow> idem_reply \<Rightarrow> bool) \<Rightarrow> idem_store \<Rightarrow> bool" where
  "honest answer s = (\<forall>(q, row) \<in> set s. ir_state row = ''complete'' \<longrightarrow> answer (ir_hash row) (reply_of row))"

definition settled_honest :: "(pystr \<Rightarrow> idem_reply \<Rightarrow> bool) \<Rightarrow> idem_request \<Rightarrow> bool" where
  "settled_honest answer r =
     (case rq_phase r of Settled (Replay row) \<Rightarrow> answer (rq_hash r) (reply_of row) | _ \<Rightarrow> True)"

definition one_holder :: "idem_request list \<Rightarrow> bool" where
  "one_holder rs = (\<forall>i < length rs. \<forall>j < length rs. rq_phase (rs ! i) = Holding \<longrightarrow> rq_phase (rs ! j) = Holding \<longrightarrow>
     rq_principal (rs ! i) = rq_principal (rs ! j) \<longrightarrow> rq_key (rs ! i) = rq_key (rs ! j) \<longrightarrow> i = j)"

definition idem_inv :: "(pystr \<Rightarrow> idem_reply \<Rightarrow> bool) \<Rightarrow> idem_world \<Rightarrow> bool" where
  "idem_inv answer w = (distinct (map fst (iw_store w)) \<and> honest answer (iw_store w) \<and>
     (\<forall>r \<in> set (iw_requests w). holds_own (iw_store w) r \<and> settled_honest answer r) \<and> one_holder (iw_requests w))"

subsection \<open>Orderly runs keep the invariant\<close>

lemma map_of_complete:
  "map_of (idem_complete now p k rp s) q =
     (if q = (p, k) then map_option (completed_row now rp) (map_of s q) else map_of s q)"
  by (induction s) (auto simp: idem_complete_def)

lemma map_of_filter_distinct:
  "distinct (map fst s) \<Longrightarrow> map_of (filter P s) q =
     (case map_of s q of None \<Rightarrow> None | Some v \<Rightarrow> (if P (q, v) then Some v else None))"
  by (induction s) (auto simp: map_of_eq_None_iff split: option.splits dest: map_of_SomeD intro: rev_image_eqI)

lemma distinct_keys:
  "distinct (map fst s) \<Longrightarrow> distinct (map fst (filter P s))"
  "map fst (idem_complete now p k rp s) = map fst s"
  by (simp add: distinct_map_filter) (simp add: idem_complete_def case_prod_unfold)

lemma honest_filter: "honest answer s \<Longrightarrow> honest answer (filter P s)"
  by (auto simp: honest_def)

lemma honest_complete:
  assumes "honest answer s" and "distinct (map fst s)" and "map_of s (p, k) = Some row"
    and "answer (ir_hash row) rp" and "rp_media rp \<noteq> ''''" and "rp_status rp \<noteq> 0"
  shows "honest answer (idem_complete now p k rp s)"
proof -
  have rep: "reply_of (completed_row now rp r) = rp" for r
    using assms(5,6) by (cases "rp_body rp = ''''") (simp_all add: reply_of_def completed_row_def)
  have "answer (ir_hash (if q = (p, k) then completed_row now rp r else r))
      (reply_of (if q = (p, k) then completed_row now rp r else r))"
    if "(q, r) \<in> set s" "ir_state (if q = (p, k) then completed_row now rp r else r) = ''complete''" for q r
  proof (cases "q = (p, k)")
    case True
    then have "r = row" using that(1) assms(2,3) by (metis map_of_is_SomeI option.inject)
    then show ?thesis using True assms(4) rep by (simp add: completed_row_def)
  next
    case False
    then show ?thesis using that assms(1) by (auto simp: honest_def)
  qed
  then show ?thesis by (auto simp: honest_def idem_complete_def)
qed

lemma idem_inv_update:
  assumes inv: "idem_inv answer w" and i: "i < length (iw_requests w)"
    and same: "rq_principal r = rq_principal (iw_requests w ! i)" "rq_key r = rq_key (iw_requests w ! i)"
    and s: "distinct (map fst s)" "honest answer s" and r: "settled_honest answer r" "holds_own s r"
    and others: "\<And>j. j < length (iw_requests w) \<Longrightarrow> j \<noteq> i \<Longrightarrow> holds_own s (iw_requests w ! j)"
    and alone: "rq_phase r = Holding \<Longrightarrow> rq_phase (iw_requests w ! i) = Holding \<or>
      (\<forall>j < length (iw_requests w). j \<noteq> i \<longrightarrow> rq_phase (iw_requests w ! j) = Holding \<longrightarrow>
         (rq_principal (iw_requests w ! j), rq_key (iw_requests w ! j)) \<noteq> (rq_principal r, rq_key r))"
  shows "idem_inv answer \<lparr>iw_store = s, iw_requests = (iw_requests w)[i := r]\<rparr>"
proof -
  have old: "\<forall>q \<in> set (iw_requests w). settled_honest answer q" and one: "one_holder (iw_requests w)"
    using inv by (auto simp: idem_inv_def)
  have "holds_own s ((iw_requests w)[i := r] ! j) \<and> settled_honest answer ((iw_requests w)[i := r] ! j)"
    if "j < length (iw_requests w)" for j
    using that others[of j] r old by (cases "j = i") auto
  then have all: "\<forall>q \<in> set ((iw_requests w)[i := r]). holds_own s q \<and> settled_honest answer q"
    by (auto simp: all_set_conv_all_nth)
  have "one_holder ((iw_requests w)[i := r])"
    unfolding one_holder_def
  proof (intro allI impI)
    fix a b
    assume "a < length ((iw_requests w)[i := r])" "b < length ((iw_requests w)[i := r])"
      and "rq_phase ((iw_requests w)[i := r] ! a) = Holding" "rq_phase ((iw_requests w)[i := r] ! b) = Holding"
      and "rq_principal ((iw_requests w)[i := r] ! a) = rq_principal ((iw_requests w)[i := r] ! b)"
      and "rq_key ((iw_requests w)[i := r] ! a) = rq_key ((iw_requests w)[i := r] ! b)"
    then show "a = b"
      using alone same i one unfolding one_holder_def
      by (cases "a = i"; cases "b = i") (simp_all, metis+)
  qed
  then show ?thesis using all s by (simp add: idem_inv_def)
qed

lemma resolve_fields:
  "resolve_step now expired s r = (s', r') \<Longrightarrow>
     rq_principal r' = rq_principal r \<and> rq_key r' = rq_key r \<and> rq_hash r' = rq_hash r"
  by (auto simp: resolve_step_def Let_def split: idem_phase.splits option.splits prod.splits)

text \<open>Only a claim and a clean-up touch the table, and only a claim starts holding.\<close>

lemma resolve_store:
  assumes "resolve_step now expired s r = (s', r')"
  shows "s' = s \<or> rq_phase r = Clearing \<or> (rq_phase r = Claiming \<and> map_of s (rq_principal r, rq_key r) = None
     \<and> s' = s @ [((rq_principal r, rq_key r), pending_row now (rq_hash r))])"
  using assms by (auto simp: resolve_step_def Let_def idem_begin_def split: idem_phase.splits option.splits prod.splits if_splits)

lemma resolve_holding:
  assumes "resolve_step now expired s r = (s', r')" and "rq_phase r' = Holding"
  shows "(rq_phase r = Holding \<and> s' = s) \<or> (rq_phase r = Claiming \<and> map_of s (rq_principal r, rq_key r) = None
     \<and> s' = s @ [((rq_principal r, rq_key r), pending_row now (rq_hash r))])"
  using assms
  by (auto simp: resolve_step_def Let_def idem_begin_def after_wait_def after_second_wait_def
      split: idem_phase.splits option.splits prod.splits if_splits)

lemma wait_poll_row: "wait_poll expired row = Some (Some r) \<Longrightarrow> row = Some r"
  by (auto simp: wait_poll_def split: option.splits if_splits)

lemma resolve_replay:
  assumes "resolve_step now expired s r = (s', r')" and "rq_phase r' = Settled (Replay row)"
    and "rq_phase r \<noteq> Settled (Replay row)"
  shows "map_of s (rq_principal r, rq_key r) = Some row \<and> ir_state row = ''complete'' \<and> ir_hash row = rq_hash r"
  using assms
  by (auto simp: resolve_step_def Let_def idem_begin_def after_wait_def after_second_wait_def idem_get_def
      split: idem_phase.splits option.splits prod.splits if_splits dest!: wait_poll_row)

lemma holds_own_append:
  "holds_own s r \<Longrightarrow> holds_own (s @ t) r"
  by (auto simp: holds_own_def)

lemma advance_inv:
  assumes inv: "idem_inv answer w" and i: "i < length (iw_requests w)"
    and st: "resolve_step now expired (iw_store w) (iw_requests w ! i) = (s, r)"
    and calm: "rq_phase (iw_requests w ! i) = Clearing \<Longrightarrow> s = iw_store w"
  shows "idem_inv answer \<lparr>iw_store = s, iw_requests = (iw_requests w)[i := r]\<rparr>"
proof (rule idem_inv_update[OF inv i])
  let ?o = "iw_requests w ! i" and ?s = "iw_store w"
  have w: "distinct (map fst ?s)" "honest answer ?s" "\<forall>q \<in> set (iw_requests w). holds_own ?s q \<and> settled_honest answer q"
    using inv by (auto simp: idem_inv_def)
  have o: "holds_own ?s ?o" "settled_honest answer ?o" using w(3) i by auto
  note eqs = resolve_fields[OF st]
  have cases: "s = ?s \<or> (map_of ?s (rq_principal ?o, rq_key ?o) = None
     \<and> s = ?s @ [((rq_principal ?o, rq_key ?o), pending_row now (rq_hash ?o))])"
    using resolve_store[OF st] calm by blast
  show "rq_principal r = rq_principal ?o" "rq_key r = rq_key ?o" using eqs by auto
  show "distinct (map fst s)" using cases w(1) by (auto simp: map_of_eq_None_iff)
  show "honest answer s" using cases w(2) by (auto simp: honest_def pending_row_def)
  show "settled_honest answer r"
  proof (cases "\<exists>row. rq_phase r = Settled (Replay row)")
    case True
    then obtain row where row: "rq_phase r = Settled (Replay row)" by blast
    show ?thesis
    proof (cases "rq_phase ?o = Settled (Replay row)")
      case True
      then show ?thesis using o(2) row eqs by (simp add: settled_honest_def)
    next
      case False
      then show ?thesis using resolve_replay[OF st row] w(2) row eqs
        by (auto simp: settled_honest_def honest_def dest!: map_of_SomeD)
    qed
  qed (auto simp: settled_honest_def split: idem_phase.splits idem_outcome.splits)
  show "holds_own s r"
    using resolve_holding[OF st] eqs o(1) by (auto simp: holds_own_def pending_row_def map_add_def)
  show "holds_own s (iw_requests w ! j)" if "j < length (iw_requests w)" "j \<noteq> i" for j
    using that w(3) cases holds_own_append by fastforce
  show "rq_phase ?o = Holding \<or> (\<forall>j < length (iw_requests w). j \<noteq> i \<longrightarrow> rq_phase (iw_requests w ! j) = Holding \<longrightarrow>
      (rq_principal (iw_requests w ! j), rq_key (iw_requests w ! j)) \<noteq> (rq_principal r, rq_key r))"
    if "rq_phase r = Holding"
    using resolve_holding[OF st that] w(3) eqs by (fastforce simp: holds_own_def)
qed

lemma served_inv:
  assumes inv: "idem_inv answer w" and i: "i < length (iw_requests w)"
    and h: "rq_phase (iw_requests w ! i) = Holding"
    and s: "distinct (map fst s)" "honest answer s"
    and away: "\<And>q. q \<noteq> (rq_principal (iw_requests w ! i), rq_key (iw_requests w ! i)) \<Longrightarrow>
      map_of s q = map_of (iw_store w) q"
  shows "idem_inv answer \<lparr>iw_store = s, iw_requests = (iw_requests w)[i := (iw_requests w ! i)\<lparr>rq_phase := Served\<rparr>]\<rparr>"
proof (rule idem_inv_update[OF inv i _ _ s])
  show "holds_own s (iw_requests w ! j)" if j: "j < length (iw_requests w)" "j \<noteq> i" for j
  proof -
    have "rq_phase (iw_requests w ! j) = Holding \<Longrightarrow> (rq_principal (iw_requests w ! j), rq_key (iw_requests w ! j))
        \<noteq> (rq_principal (iw_requests w ! i), rq_key (iw_requests w ! i))"
      using inv i j h by (auto simp: idem_inv_def one_holder_def)
    moreover have "holds_own (iw_store w) (iw_requests w ! j)" using inv j by (auto simp: idem_inv_def)
    ultimately show ?thesis using away by (auto simp: holds_own_def)
  qed
qed (simp_all add: settled_honest_def holds_own_def)

lemma keeps_pending_holds:
  assumes "keeps_pending s s'" and "distinct (map fst s')" and "holds_own s r"
  shows "holds_own s' r"
  using assms by (fastforce simp: keeps_pending_def list_all_iff holds_own_def dest!: map_of_SomeD)

lemma shrink_inv:
  assumes "idem_inv answer w" and "s = filter P (iw_store w)" and "keeps_pending (iw_store w) s"
  shows "idem_inv answer (w\<lparr>iw_store := s\<rparr>)"
  using assms keeps_pending_holds[OF assms(3)] unfolding idem_inv_def
  by (auto simp: distinct_keys honest_filter)

lemma prune_erase_filter:
  "idem_prune cutoff dry s = (n, s') \<Longrightarrow> \<exists>P. s' = filter P s"
  "idem_erase ps dry s = (n, s') \<Longrightarrow> \<exists>P. s' = filter P s"
  by (auto simp: idem_prune_def idem_erase_def Let_def split: if_splits intro: exI[of _ "\<lambda>_. True"])

lemma idem_step_inv:
  assumes "idem_step answer True w w'" and "idem_inv answer w"
  shows "idem_inv answer w'"
  using assms
proof (induction rule: idem_step.induct)
  case (Arrive r w)
  then show ?case by (auto simp: idem_inv_def holds_own_def settled_honest_def one_holder_def nth_append)
next
  case (Advance i w now expired s r)
  then show ?case by (intro advance_inv) auto
next
  case (Complete i w rp now s r)
  let ?o = "iw_requests w ! i"
  obtain row where row: "map_of (iw_store w) (rq_principal ?o, rq_key ?o) = Some row" "ir_hash row = rq_hash ?o"
    using Complete by (auto simp: idem_inv_def holds_own_def)
  have w: "distinct (map fst (iw_store w))" "honest answer (iw_store w)" using Complete by (auto simp: idem_inv_def)
  have "idem_inv answer \<lparr>iw_store = idem_complete now (rq_principal ?o) (rq_key ?o) rp (iw_store w),
      iw_requests = (iw_requests w)[i := ?o\<lparr>rq_phase := Served\<rparr>]\<rparr>"
    by (rule served_inv[OF Complete.prems Complete.hyps(1,2)])
      (use w row Complete.hyps honest_complete in \<open>simp_all add: distinct_keys map_of_complete\<close>)
  then show ?case using Complete.hyps(6) by (auto simp: slot_complete_def)
next
  case (Abandon i w s r)
  let ?o = "iw_requests w ! i"
  have w: "distinct (map fst (iw_store w))" "honest answer (iw_store w)" using Abandon by (auto simp: idem_inv_def)
  have "idem_inv answer \<lparr>iw_store = idem_abandon (rq_principal ?o) (rq_key ?o) (iw_store w),
      iw_requests = (iw_requests w)[i := ?o\<lparr>rq_phase := Served\<rparr>]\<rparr>"
    by (rule served_inv[OF Abandon.prems Abandon.hyps(1,2)])
      (use w in \<open>auto simp: idem_abandon_def distinct_keys honest_filter map_of_filter_distinct split: option.splits\<close>)
  then show ?case using Abandon.hyps(3) by (auto simp: slot_abandon_def)
next
  case (Prune cutoff dry w n s)
  then show ?case using prune_erase_filter(1)[OF Prune(1)] shrink_inv by blast
next
  case (Erase ps dry w n s)
  then show ?case using prune_erase_filter(2)[OF Erase(1)] shrink_inv by blast
qed

lemma idem_reach_inv: "idem_reach answer True w \<Longrightarrow> idem_inv answer w"
  unfolding idem_reach_def
proof (induction rule: rtranclp_induct)
  case base
  show ?case by (simp add: idem_inv_def honest_def one_holder_def)
next
  case (step w w')
  then show ?case using idem_step_inv by blast
qed

section \<open>Runs as lists of actions\<close>

text \<open>An executable driver for concrete interleavings; it checks the side conditions it is asked for.\<close>

datatype idem_action =
    DoArrive idem_request
  | DoStep nat int bool
  | DoComplete nat int idem_reply
  | DoAbandon nat

definition idem_do :: "(pystr \<Rightarrow> idem_reply \<Rightarrow> bool) \<Rightarrow> bool \<Rightarrow> idem_action \<Rightarrow> idem_world \<Rightarrow> idem_world option" where
  "idem_do answer orderly act w = (case act of
       DoArrive r \<Rightarrow> (if rq_phase r = Looking then Some (w\<lparr>iw_requests := iw_requests w @ [r]\<rparr>) else None)
     | DoStep i now expired \<Rightarrow>
         (if i < length (iw_requests w) then
            (case resolve_step now expired (iw_store w) (iw_requests w ! i) of (s, r) \<Rightarrow>
               if orderly \<and> rq_phase (iw_requests w ! i) = Clearing \<and> s \<noteq> iw_store w then None
               else Some \<lparr>iw_store = s, iw_requests = (iw_requests w)[i := r]\<rparr>)
          else None)
     | DoComplete i now rp \<Rightarrow>
         (if i < length (iw_requests w) \<and> rq_phase (iw_requests w ! i) = Holding \<and> rp_media rp \<noteq> ''''
             \<and> rp_status rp \<noteq> 0 \<and> answer (rq_hash (iw_requests w ! i)) rp
          then (case slot_complete now rp (iw_store w) (iw_requests w ! i) of (s, r) \<Rightarrow>
                  Some \<lparr>iw_store = s, iw_requests = (iw_requests w)[i := r]\<rparr>)
          else None)
     | DoAbandon i \<Rightarrow>
         (if i < length (iw_requests w) \<and> rq_phase (iw_requests w ! i) = Holding
          then (case slot_abandon (iw_store w) (iw_requests w ! i) of (s, r) \<Rightarrow>
                  Some \<lparr>iw_store = s, iw_requests = (iw_requests w)[i := r]\<rparr>)
          else None))"

fun idem_run :: "(pystr \<Rightarrow> idem_reply \<Rightarrow> bool) \<Rightarrow> bool \<Rightarrow> idem_action list \<Rightarrow> idem_world \<Rightarrow> idem_world option" where
  "idem_run answer orderly [] w = Some w"
| "idem_run answer orderly (a # as) w =
     (case idem_do answer orderly a w of None \<Rightarrow> None | Some w' \<Rightarrow> idem_run answer orderly as w')"

lemma idem_do_step: "idem_do answer orderly a w = Some w' \<Longrightarrow> idem_step answer orderly w w'"
  by (auto simp: idem_do_def split: idem_action.splits if_splits prod.splits intro: idem_step.intros)

lemma idem_run_reach:
  "idem_run answer orderly as w = Some w' \<Longrightarrow> idem_reach answer orderly w \<Longrightarrow> idem_reach answer orderly w'"
proof (induction as arbitrary: w)
  case (Cons a as)
  then obtain w1 where "idem_do answer orderly a w = Some w1" "idem_run answer orderly as w1 = Some w'"
    by (auto split: option.splits)
  moreover have "idem_reach answer orderly w1"
    using idem_do_step[OF calculation(1)] Cons.prems(2) unfolding idem_reach_def by (meson rtranclp.rtrancl_into_rtrancl)
  ultimately show ?case using Cons.IH by blast
qed simp

lemma idem_run_init:
  "idem_run answer orderly as \<lparr>iw_store = [], iw_requests = []\<rparr> = Some w \<Longrightarrow> idem_reach answer orderly w"
  using idem_run_reach[of answer orderly as] by (simp add: idem_reach_def)

section \<open>Properties\<close>

text \<open>
  C23. While no row is taken from a handler that still holds it, at most one request at a time
  holds an idempotency key, the pending row of the key is its own, and every response replayed
  to a request is an answer to that request's own body, whatever the interleaving of the
  processes on the shared table.
\<close>
theorem idem_one_holder_honest_replay:
  assumes "idem_reach answer True w" and "i < length (iw_requests w)"
  shows "(rq_phase (iw_requests w ! i) = Holding \<longrightarrow>
           (\<exists>row. idem_get (rq_principal (iw_requests w ! i)) (rq_key (iw_requests w ! i)) (iw_store w) = Some row
              \<and> ir_state row = ''pending'' \<and> ir_hash row = rq_hash (iw_requests w ! i))
         \<and> (\<forall>j < length (iw_requests w). rq_phase (iw_requests w ! j) = Holding
              \<and> rq_principal (iw_requests w ! j) = rq_principal (iw_requests w ! i)
              \<and> rq_key (iw_requests w ! j) = rq_key (iw_requests w ! i) \<longrightarrow> j = i))
       \<and> (\<forall>row. rq_phase (iw_requests w ! i) = Settled (Replay row) \<longrightarrow>
              answer (rq_hash (iw_requests w ! i)) (reply_of row))"
proof -
  have inv: "idem_inv answer w" by (rule idem_reach_inv[OF assms(1)])
  then have "holds_own (iw_store w) (iw_requests w ! i)" "settled_honest answer (iw_requests w ! i)"
    "one_holder (iw_requests w)"
    using assms(2) by (auto simp: idem_inv_def)
  then show ?thesis
    using assms(2) by (auto simp: holds_own_def settled_honest_def one_holder_def idem_get_def)
qed

definition demo_idem :: "pystr \<Rightarrow> idem_request" where
  "demo_idem h = \<lparr>rq_principal = ''vk:k1'', rq_key = ''order-7'', rq_hash = h, rq_phase = Looking\<rparr>"

definition demo_reply :: "pystr \<Rightarrow> idem_reply" where
  "demo_reply b = \<lparr>rp_status = 200, rp_body = b, rp_media = ''application/json'', rp_stream = False, rp_text = None\<rparr>"

text \<open>A duplicate arrives while the first is served, waits, and is replayed the first answer.\<close>

definition demo_orderly :: "idem_action list" where
  "demo_orderly = [DoArrive (demo_idem ''A''), DoStep 0 10 False, DoStep 0 10 False, DoArrive (demo_idem ''A''),
     DoStep 1 11 False, DoStep 1 11 False, DoComplete 0 12 (demo_reply ''A''), DoStep 1 13 False]"

text \<open>
  A duplicate times out and clears the first handler's row; a request with another body claims
  the key; the first handler completes, and the other body's duplicate is replayed its answer.
\<close>

definition demo_mixed :: "idem_action list" where
  "demo_mixed = [DoArrive (demo_idem ''A''), DoStep 0 10 False, DoStep 0 10 False, DoArrive (demo_idem ''A''),
     DoStep 1 11 False, DoStep 1 71 True, DoStep 1 71 False, DoArrive (demo_idem ''B''), DoStep 2 72 False,
     DoStep 2 72 False, DoComplete 0 73 (demo_reply ''A''), DoArrive (demo_idem ''B''), DoStep 3 74 False]"

lemmas idem_eval = idem_do_def resolve_step_def idem_get_def idem_begin_def pending_row_def idem_abandon_def
  slot_complete_def slot_abandon_def idem_complete_def completed_row_def wait_poll_def after_wait_def
  after_second_wait_def demo_idem_def demo_reply_def reply_of_def

lemma demo_orderly_run:
  "\<exists>w row. idem_run (\<lambda>h rp. rp_body rp = h) True demo_orderly \<lparr>iw_store = [], iw_requests = []\<rparr> = Some w
     \<and> 1 < length (iw_requests w) \<and> rq_hash (iw_requests w ! 1) = ''A''
     \<and> rq_phase (iw_requests w ! 1) = Settled (Replay row)"
  by (simp add: demo_orderly_def idem_eval)

lemma demo_mixed_run:
  "\<exists>w row. idem_run (\<lambda>h rp. rp_body rp = h) False demo_mixed \<lparr>iw_store = [], iw_requests = []\<rparr> = Some w
     \<and> 3 < length (iw_requests w) \<and> rq_hash (iw_requests w ! 3) = ''B''
     \<and> rq_phase (iw_requests w ! 3) = Settled (Replay row) \<and> rp_body (reply_of row) = ''A''"
  by (simp add: demo_mixed_def idem_eval)

lemma idem_one_holder_honest_replay_witness:
  "\<exists>w row. idem_reach (\<lambda>h rp. rp_body rp = h) True w \<and> rq_phase (iw_requests w ! 1) = Settled (Replay row)
     \<and> rp_body (reply_of row) = ''A''"
proof -
  obtain w row where run: "idem_run (\<lambda>h rp. rp_body rp = h) True demo_orderly \<lparr>iw_store = [], iw_requests = []\<rparr> = Some w"
    and r: "1 < length (iw_requests w)" "rq_hash (iw_requests w ! 1) = ''A''"
      "rq_phase (iw_requests w ! 1) = Settled (Replay row)"
    using demo_orderly_run by blast
  have "rp_body (reply_of row) = rq_hash (iw_requests w ! 1)"
    using idem_one_holder_honest_replay[OF idem_run_init[OF run] r(1)] r(3) by blast
  then show ?thesis using idem_run_init[OF run] r by metis
qed

text \<open>
  The clean-up of a timed-out duplicate is not fenced: there is a run in which a request is
  replayed the answer to a different body. The late handler's \<open>complete\<close> names the key only,
  so it fills the row another body has claimed meanwhile.
\<close>
theorem timed_out_duplicate_mixes_answers:
  "\<exists>w row. idem_reach (\<lambda>h rp. rp_body rp = h) False w \<and> 3 < length (iw_requests w)
     \<and> rq_hash (iw_requests w ! 3) = ''B'' \<and> rq_phase (iw_requests w ! 3) = Settled (Replay row)
     \<and> rp_body (reply_of row) = ''A''"
proof -
  obtain w row where run: "idem_run (\<lambda>h rp. rp_body rp = h) False demo_mixed \<lparr>iw_store = [], iw_requests = []\<rparr> = Some w"
    and r: "3 < length (iw_requests w)" "rq_hash (iw_requests w ! 3) = ''B''"
      "rq_phase (iw_requests w ! 3) = Settled (Replay row)" "rp_body (reply_of row) = ''A''"
    using demo_mixed_run by blast
  show ?thesis using idem_run_init[OF run] r by blast
qed

text \<open>
  A completed answer is what a retry gets: after a request claims a free key and its handler
  completes, a later request with the same principal and key is settled by its first read,
  with exactly the stored status, body and media type when its body is the same and with a
  conflict otherwise; another principal or key is not affected.
\<close>
theorem completed_answer_is_replayed:
  assumes free: "idem_get p k s = None" and rp: "rp_media rp \<noteq> ''''" "rp_status rp \<noteq> 0"
    and claimed: "resolve_step now e s \<lparr>rq_principal = p, rq_key = k, rq_hash = h, rq_phase = Claiming\<rparr> = (s1, r1)"
    and served: "slot_complete later rp s1 r1 = (s2, r2)"
    and retried: "resolve_step now' e' s2 \<lparr>rq_principal = p, rq_key = k, rq_hash = h', rq_phase = Looking\<rparr> = (s3, r3)"
  shows "rq_phase r1 = Holding \<and> s3 = s2
    \<and> (if h' = h then \<exists>row. rq_phase r3 = Settled (Replay row) \<and> reply_of row = rp
       else rq_phase r3 = Settled Conflict)
    \<and> (\<forall>p' k'. (p', k') \<noteq> (p, k) \<longrightarrow> idem_get p' k' s3 = idem_get p' k' s)"
proof -
  have s1: "s1 = s @ [((p, k), pending_row now h)]" "rq_phase r1 = Holding" "rq_principal r1 = p" "rq_key r1 = k"
    using claimed free by (auto simp: resolve_step_def idem_begin_def idem_get_def)
  have s2: "map_of s2 q = (if q = (p, k) then Some (completed_row later rp (pending_row now h)) else map_of s q)" for q
    using served s1 free by (auto simp: slot_complete_def map_of_complete idem_get_def map_add_def split: option.splits)
  have rep: "reply_of (completed_row later rp (pending_row now h)) = rp"
    using rp by (cases "rp_body rp = ''''") (simp_all add: reply_of_def completed_row_def)
  show ?thesis using retried s1(2) s2 rep
    by (auto simp: resolve_step_def idem_get_def completed_row_def pending_row_def)
qed

lemma completed_answer_is_replayed_witness:
  "\<exists>row. rq_phase (snd (resolve_step 3 False
      (fst (slot_complete 2 (demo_reply ''ok'') (fst (resolve_step 1 False [] (demo_idem ''A''\<lparr>rq_phase := Claiming\<rparr>)))
         (snd (resolve_step 1 False [] (demo_idem ''A''\<lparr>rq_phase := Claiming\<rparr>))))) (demo_idem ''A'')))
      = Settled (Replay row) \<and> reply_of row = demo_reply ''ok''"
proof -
  let ?c = "demo_idem ''A''\<lparr>rq_phase := Claiming\<rparr>"
  let ?s1 = "resolve_step 1 False [] ?c"
  let ?s2 = "slot_complete 2 (demo_reply ''ok'') (fst ?s1) (snd ?s1)"
  have c: "?c = \<lparr>rq_principal = ''vk:k1'', rq_key = ''order-7'', rq_hash = ''A'', rq_phase = Claiming\<rparr>"
    and l: "demo_idem ''A'' = \<lparr>rq_principal = ''vk:k1'', rq_key = ''order-7'', rq_hash = ''A'', rq_phase = Looking\<rparr>"
    by (simp_all add: demo_idem_def)
  have "idem_get ''vk:k1'' ''order-7'' [] = None" "rp_media (demo_reply ''ok'') \<noteq> ''''" "rp_status (demo_reply ''ok'') \<noteq> 0"
    by (simp_all add: idem_get_def demo_reply_def)
  from completed_answer_is_replayed[OF this, of 1 False "''A''" "fst ?s1" "snd ?s1" 2 "fst ?s2" "snd ?s2" 3 False "''A''",
      folded c l]
  show ?thesis by (metis prod.collapse)
qed

section \<open>Streams\<close>

text \<open>A stored event stream is split on blank lines and sent again event by event.\<close>

fun split_events :: "pystr \<Rightarrow> pystr list" where
  "split_events [] = [[]]"
| "split_events [c] = [[c]]"
| "split_events (c # d # s) =
     (if c = CHR 0x0A \<and> d = CHR 0x0A then [] # split_events s
      else (case split_events (d # s) of [] \<Rightarrow> [[c]] | e # es \<Rightarrow> (c # e) # es))"

definition NL2 :: pystr where "NL2 = [CHR 0x0A, CHR 0x0A]"

definition DONE_EVENT :: pystr where "DONE_EVENT = ''data: [DONE]''"

definition replay_chunks :: "pystr \<Rightarrow> pystr list" where
  "replay_chunks text =
     map (\<lambda>e. e @ NL2) (filter (\<lambda>e. py_strip e \<noteq> '''') (split_events text))
     @ (if contains text DONE_EVENT then [] else [DONE_EVENT @ NL2])"

lemma split_events_nonempty [simp]: "split_events s \<noteq> []"
  by (induction s rule: split_events.induct) (auto split: list.splits)

lemma split_events_event:
  "\<not> contains e NL2 \<Longrightarrow> (e = [] \<or> last e \<noteq> CHR 0x0A) \<Longrightarrow> split_events (e @ NL2 @ s) = e # split_events s"
proof (induction e)
  case (Cons c e)
  show ?case
  proof (cases e)
    case Nil
    then show ?thesis using Cons.prems by (simp add: NL2_def)
  next
    case (Cons d e')
    have "\<not> contains e NL2" "\<not> (c = CHR 0x0A \<and> d = CHR 0x0A)"
      using Cons.prems(1) by (auto simp: local.Cons NL2_def starts_with_def)
    then show ?thesis using Cons.IH Cons.prems(2) by (simp add: local.Cons)
  qed
qed (simp add: NL2_def)

definition event_ok :: "pystr \<Rightarrow> bool" where
  "event_ok e = (\<not> contains e NL2 \<and> py_strip e \<noteq> '''' \<and> (e = [] \<or> last e \<noteq> CHR 0x0A))"

lemma split_events_stream:
  "list_all event_ok es \<Longrightarrow> split_events (concat (map (\<lambda>e. e @ NL2) es)) = es @ [[]]"
  by (induction es) (simp_all add: event_ok_def split_events_event)

lemma stream_replay_round_trip:
  "list_all event_ok es \<Longrightarrow> contains (concat (map (\<lambda>e. e @ NL2) es)) DONE_EVENT \<Longrightarrow>
     concat (replay_chunks (concat (map (\<lambda>e. e @ NL2) es))) = concat (map (\<lambda>e. e @ NL2) es)"
  by (simp add: replay_chunks_def split_events_stream filter_id_conv[THEN iffD2] list_all_iff event_ok_def)

end
