(* ===== verification/Pricing.thy ===== *)
theory Pricing
  imports LocalPool
begin

text \<open>
  Token prices (\<open>daari/pricing.py\<close>): which configured key prices a model id, the chain of aliased
  entries, threshold rates, the cost of one call, and the gates on service tier and speed.

  Prices are rational numbers; the rounding of a float product is not modelled. Dates are read
  by the standard library's \<open>date.fromisoformat\<close>, which is the argument \<open>fromiso\<close> (the day's ordinal).
\<close>

section \<open>Which key prices a model\<close>

text \<open>The text after each occurrence of a separator: \<open>sep.join(parts[i:])\<close> for \<open>i\<close> from 1.\<close>

fun tails_after :: "char \<Rightarrow> pystr \<Rightarrow> pystr list" where
  "tails_after c [] = []"
| "tails_after c (x # s) = (if x = c then s # tails_after c s else tails_after c s)"

definition add_candidates :: "pystr list \<Rightarrow> pystr list \<Rightarrow> pystr list" where
  "add_candidates cs tails = fold (\<lambda>t acc. if t \<noteq> '''' \<and> t \<notin> set acc then acc @ [t] else acc) tails cs"

definition model_id_candidates :: "pystr \<Rightarrow> pystr list" where
  "model_id_candidates model =
     add_candidates (add_candidates [model] (tails_after (CHR ''.'') model)) (tails_after (CHR ''/'') model)"

text \<open>\<open>max(matches, key=len)\<close>: the first of the longest.\<close>

fun first_longest :: "pystr list \<Rightarrow> pystr" where
  "first_longest [] = ''''"
| "first_longest [x] = x"
| "first_longest (x # y # xs) = (let r = first_longest (y # xs) in if length x \<ge> length r then x else r)"

definition key_matches :: "pystr \<Rightarrow> pystr list \<Rightarrow> pystr list" where
  "key_matches model keys =
     concat (map (\<lambda>c. filter (\<lambda>k. c = k \<or> starts_with c k) keys) (model_id_candidates model))"

definition matching_model_key :: "pystr \<Rightarrow> pystr list \<Rightarrow> pystr option" where
  "matching_model_key model keys =
     (if model = '''' \<or> keys = [] then None
      else if key_matches model keys = [] then None else Some (first_longest (key_matches model keys)))"

lemma key_matches_prefixes:
  "key_matches model keys = concat (map (\<lambda>c. filter (starts_with c) keys) (model_id_candidates model))"
proof -
  have "(c = k \<or> starts_with c k) = starts_with c k" for c k using starts_with_refl(1) by metis
  then show ?thesis by (simp add: key_matches_def)
qed

lemma first_longest_props:
  "xs \<noteq> [] \<Longrightarrow> first_longest xs \<in> set xs \<and> (\<forall>x \<in> set xs. length x \<le> length (first_longest xs))"
  by (induction xs rule: first_longest.induct) (auto simp: Let_def)

lemma matching_key_props:
  assumes "matching_model_key model keys = Some k"
  shows "k \<in> set keys" "\<exists>c \<in> set (model_id_candidates model). starts_with c k"
    "\<And>c j. c \<in> set (model_id_candidates model) \<Longrightarrow> j \<in> set keys \<Longrightarrow> starts_with c j \<Longrightarrow> length j \<le> length k"
proof -
  have ne: "key_matches model keys \<noteq> []" and k: "k = first_longest (key_matches model keys)"
    using assms by (auto simp: matching_model_key_def split: if_splits)
  have "k \<in> set (key_matches model keys)" using first_longest_props[OF ne] k by blast
  then show "k \<in> set keys" "\<exists>c \<in> set (model_id_candidates model). starts_with c k"
    by (auto simp: key_matches_prefixes)
  fix c j
  assume "c \<in> set (model_id_candidates model)" "j \<in> set keys" "starts_with c j"
  then have "j \<in> set (key_matches model keys)" by (auto simp: key_matches_prefixes)
  then show "length j \<le> length k" using first_longest_props[OF ne] k by blast
qed

lemma matching_key_None:
  "matching_model_key model keys = None \<longleftrightarrow>
     model = '''' \<or> (\<forall>c \<in> set (model_id_candidates model). \<forall>k \<in> set keys. \<not> starts_with c k)"
proof -
  have "key_matches model keys = [] \<longleftrightarrow> (\<forall>c \<in> set (model_id_candidates model). \<forall>k \<in> set keys. \<not> starts_with c k)"
    by (auto simp: key_matches_prefixes filter_empty_conv)
  then show ?thesis by (cases "keys = []") (auto simp: matching_model_key_def)
qed

section \<open>Rates and aliases\<close>

record price_rates =
  r_input :: "pyfloat option"
  r_output :: "pyfloat option"
  r_cached :: "pyfloat option"
  r_write_1h :: "pyfloat option"
  r_write_30m :: "pyfloat option"
  r_write_12h :: "pyfloat option"
  r_write :: "pyfloat option"
  r_threshold :: "int option"
  r_above_input :: "pyfloat option"
  r_above_output :: "pyfloat option"

record price_entry =
  pe_rates :: price_rates
  pe_alias_of :: "pystr option"
  pe_provider :: "pystr option"

type_synonym price_table = "(pystr \<times> price_entry) list"

definition no_rates :: price_rates where
  "no_rates = \<lparr>r_input = None, r_output = None, r_cached = None, r_write_1h = None, r_write_30m = None,
     r_write_12h = None, r_write = None, r_threshold = None, r_above_input = None, r_above_output = None\<rparr>"

definition alias_target :: "price_entry \<Rightarrow> pystr option" where
  "alias_target e =
     (let a = py_strip (str_or (pe_alias_of e) ''''); p = py_strip (str_or (pe_provider e) '''') in
      if a \<noteq> '''' then Some a else if p \<noteq> '''' then Some p else None)"

definition own_or :: "'a option \<Rightarrow> 'a option \<Rightarrow> 'a option" where
  "own_or own inherited = (if own = None then inherited else own)"

text \<open>\<open>merged.update(own)\<close>, field by field.\<close>

definition override_rates :: "price_rates \<Rightarrow> price_rates \<Rightarrow> price_rates" where
  "override_rates base own =
     \<lparr>r_input = own_or (r_input own) (r_input base), r_output = own_or (r_output own) (r_output base),
      r_cached = own_or (r_cached own) (r_cached base), r_write_1h = own_or (r_write_1h own) (r_write_1h base),
      r_write_30m = own_or (r_write_30m own) (r_write_30m base),
      r_write_12h = own_or (r_write_12h own) (r_write_12h base), r_write = own_or (r_write own) (r_write base),
      r_threshold = own_or (r_threshold own) (r_threshold base),
      r_above_input = own_or (r_above_input own) (r_above_input base),
      r_above_output = own_or (r_above_output own) (r_above_output base)\<rparr>"

text \<open>The entry an alias leads to, among the keys not visited yet.\<close>

definition alias_step :: "price_table \<Rightarrow> pystr list \<Rightarrow> price_entry \<Rightarrow> pystr option" where
  "alias_step table visited e = (case alias_target e of None \<Rightarrow> None
     | Some a \<Rightarrow> matching_model_key a (filter (\<lambda>k. k \<notin> set visited) (map fst table)))"

lemma alias_step_new:
  "alias_step table visited e = Some k \<Longrightarrow> k \<in> set (map fst table) \<and> k \<notin> set visited"
  by (auto simp: alias_step_def split: option.splits dest!: matching_key_props(1))

definition complete_rates :: "price_rates \<Rightarrow> price_rates option" where
  "complete_rates m = (if r_input m = None \<or> r_output m = None then None else Some m)"

function merged_rate_entry :: "price_table \<Rightarrow> pystr list \<Rightarrow> price_entry \<Rightarrow> price_rates option" where
  "merged_rate_entry table visited e =
     complete_rates (override_rates
       (case alias_step table visited e of None \<Rightarrow> no_rates
        | Some k \<Rightarrow> (case merged_rate_entry table (k # visited) (the (map_of table k)) of
            None \<Rightarrow> no_rates | Some parent \<Rightarrow> parent)) (pe_rates e))"
  by pat_completeness auto
termination
proof (relation "measure (\<lambda>(table, visited, e). card (set (map fst table) - set visited))", simp)
  fix table visited e k
  assume "alias_step table visited e = Some k"
  from alias_step_new[OF this]
  have "set (map fst table) - set (k # visited) \<subset> set (map fst table) - set visited" by auto
  then show "((table, k # visited, the (map_of table k)), table, visited, e)
      \<in> measure (\<lambda>(table, visited, e). card (set (map fst table) - set visited))"
    by (auto intro: psubset_card_mono)
qed

declare merged_rate_entry.simps [simp del]

record resolved_price =
  p_input :: pyfloat
  p_output :: pyfloat
  p_cached :: "pyfloat option"
  p_write_1h :: "pyfloat option"
  p_write_30m :: "pyfloat option"
  p_write_12h :: "pyfloat option"
  p_write :: "pyfloat option"
  p_fallback :: bool
  p_threshold :: "int option"

definition rate_or_zero :: "pyfloat option \<Rightarrow> pyfloat" where
  "rate_or_zero r = (case r of None \<Rightarrow> 0 | Some x \<Rightarrow> x)"

definition above_threshold :: "price_rates \<Rightarrow> int \<Rightarrow> bool" where
  "above_threshold m input_tokens = (case r_threshold m of None \<Rightarrow> False
     | Some t \<Rightarrow> t > 0 \<and> input_tokens \<ge> t \<and> r_above_input m \<noteq> None)"

definition resolved_from_rates :: "int \<Rightarrow> price_rates \<Rightarrow> resolved_price" where
  "resolved_from_rates input_tokens m =
     (let input = rate_or_zero (r_input m); above = rate_or_zero (r_above_input m);
          scale = (\<lambda>r. if above_threshold m input_tokens \<and> input > 0 then map_option (\<lambda>x. x * (above / input)) r else r)
      in \<lparr>p_input = (if above_threshold m input_tokens then above else input),
          p_output = (if above_threshold m input_tokens \<and> r_above_output m \<noteq> None
                      then rate_or_zero (r_above_output m) else rate_or_zero (r_output m)),
          p_cached = scale (r_cached m), p_write_1h = scale (r_write_1h m), p_write_30m = scale (r_write_30m m),
          p_write_12h = scale (r_write_12h m), p_write = scale (r_write m), p_fallback = False,
          p_threshold = r_threshold m\<rparr>)"

definition resolved_from_entry :: "int \<Rightarrow> price_table \<Rightarrow> pystr list \<Rightarrow> price_entry \<Rightarrow> resolved_price option" where
  "resolved_from_entry input_tokens table visited e =
     map_option (resolved_from_rates input_tokens) (merged_rate_entry table visited e)"

definition DECISIONS_MODEL_PRICES :: price_table where
  "DECISIONS_MODEL_PRICES = [(''gpt-6-luna'', \<lparr>pe_rates = no_rates\<lparr>r_input := Some (1 / 10), r_output := Some 0,
     r_cached := Some (1 / 100), r_write := Some 0, r_write_1h := Some 0\<rparr>, pe_alias_of = None, pe_provider = None\<rparr>)]"

definition flat_price :: "pyfloat \<Rightarrow> resolved_price" where
  "flat_price per_1k = \<lparr>p_input = per_1k * 1000, p_output = per_1k * 1000, p_cached = None, p_write_1h = None,
     p_write_30m = None, p_write_12h = None, p_write = None, p_fallback = True, p_threshold = None\<rparr>"

definition resolve_price ::
    "price_table \<Rightarrow> pyfloat \<Rightarrow> int \<Rightarrow> pystr option \<Rightarrow> pystr option \<Rightarrow> resolved_price" where
  "resolve_price table per_1k input_tokens billing_path model =
     (let m = str_or model '''';
          decisions = (if py_lower (py_strip (str_or billing_path '''')) = ''decisions'' \<and> m \<noteq> ''''
                       then matching_model_key m (map fst DECISIONS_MODEL_PRICES) else None)
      in case decisions of
           Some k \<Rightarrow> the (resolved_from_entry 0 [] [] (the (map_of DECISIONS_MODEL_PRICES k)))
         | None \<Rightarrow> (case matching_model_key m (map fst table) of
             None \<Rightarrow> flat_price per_1k
           | Some k \<Rightarrow> (case resolved_from_entry input_tokens table [k] (the (map_of table k)) of
               None \<Rightarrow> flat_price per_1k | Some p \<Rightarrow> p)))"

section \<open>The cost of one call\<close>

definition SERVICE_TIER_FACTORS :: "(pystr \<times> pyfloat) list" where
  "SERVICE_TIER_FACTORS = [(''flex'', 1 / 2), (''priority'', 2), (''fast'', 2), (''ultrafast'', 6),
     (''standard'', 1), (''default'', 1), (''auto'', 1)]"

definition clean_option :: "pystr option \<Rightarrow> pystr" where
  "clean_option x = py_lower (py_strip (str_or x ''''))"

definition service_tier_factor :: "pystr option \<Rightarrow> pyfloat" where
  "service_tier_factor tier =
     (case map_of SERVICE_TIER_FACTORS (clean_option tier) of None \<Rightarrow> 1 | Some f \<Rightarrow> f)"

definition anthropic_speed_factor :: "pystr option \<Rightarrow> pyfloat" where
  "anthropic_speed_factor speed = (if clean_option speed = ''fast'' then 2 else 1)"

definition REGIONAL_PREMIUM_MODEL_KEYS :: "pystr list" where
  "REGIONAL_PREMIUM_MODEL_KEYS = [''gpt-5.4'', ''gpt-5.5'', ''gpt-5.6'', ''gpt-6'', ''chat-latest'']"

definition regional_processing_factor :: "pystr option \<Rightarrow> pystr option \<Rightarrow> pyfloat" where
  "regional_processing_factor region_pin model =
     (if clean_option region_pin \<notin> {''us'', ''eu''} then 1
      else if matching_model_key (str_or model '''') REGIONAL_PREMIUM_MODEL_KEYS = None then 1 else 11 / 10)"

definition cache_write_rate :: "resolved_price \<Rightarrow> pystr option \<Rightarrow> pyfloat" where
  "cache_write_rate price cache_ttl =
     (let ttl = clean_option cache_ttl; or_times = (\<lambda>r f. case r of Some x \<Rightarrow> x | None \<Rightarrow> p_input price * f) in
      if ttl \<in> {''12h'', ''12hr''} then or_times (p_write_12h price) (5 / 2)
      else if ttl \<in> {''30m'', ''30min''} then or_times (p_write_30m price) (5 / 4)
      else if ttl \<in> {''1h'', ''1hr'', ''60m''} then or_times (p_write_1h price) 2
      else or_times (p_write price) 1)"

record usage =
  us_input :: int
  us_output :: int
  us_cached :: int
  us_write :: int
  us_cache_ttl :: "pystr option"
  us_service_tier :: "pystr option"
  us_region_pin :: "pystr option"
  us_speed :: "pystr option"

definition cost_usd :: "price_table \<Rightarrow> pyfloat \<Rightarrow> pystr option \<Rightarrow> pystr option \<Rightarrow> usage \<Rightarrow> pyfloat" where
  "cost_usd table per_1k billing_path model u =
     (let price = resolve_price table per_1k (us_input u) billing_path model;
          write_tokens = max 0 (us_write u);
          per = (\<lambda>n rate. rat_of_int n / 1000000 * rate);
          total = per (max 0 (us_input u - us_cached u)) (p_input price)
                + per (max 0 (us_output u)) (p_output price)
                + (if us_cached u = 0 then 0
                   else per (us_cached u) (case p_cached price of Some r \<Rightarrow> r | None \<Rightarrow> p_input price))
                + (if write_tokens = 0 then 0 else per write_tokens (cache_write_rate price (us_cache_ttl u)))
      in total * service_tier_factor (us_service_tier u)
           * regional_processing_factor (us_region_pin u) model * anthropic_speed_factor (us_speed u))"

section \<open>Gates on tier and speed\<close>

definition ULTRAFAST_MODELS :: "pystr list" where
  "ULTRAFAST_MODELS = [''gpt-6.1-sol'', ''gpt-6-astra'']"

definition ULTRAFAST_EU_UNSUPPORTED :: "pystr list" where
  "ULTRAFAST_EU_UNSUPPORTED = [''gpt-6-astra'']"

definition ANTHROPIC_FAST_MODE_BETA :: pystr where
  "ANTHROPIC_FAST_MODE_BETA = ''fast-mode-2026-02-01''"

definition ANTHROPIC_FAST_GA :: pystr where
  "ANTHROPIC_FAST_GA = ''claude-opus-5-5''"

definition ANTHROPIC_FAST_MODELS :: "pystr list" where
  "ANTHROPIC_FAST_MODELS = [''claude-opus-5-5'', ''claude-opus-5'', ''claude-opus-4.8'', ''claude-opus-4-8'']"

definition ANTHROPIC_FAST_PREVIEW :: "pystr list" where
  "ANTHROPIC_FAST_PREVIEW = [''claude-opus-5'', ''claude-opus-4.8'', ''claude-opus-4-8'']"

text \<open>A decision: the tier or speed to send, and a warning.\<close>

type_synonym gate_decision = "pystr option \<times> pystr option"

definition resolve_service_tier :: "pystr option \<Rightarrow> pystr option \<Rightarrow> pystr option \<Rightarrow> gate_decision" where
  "resolve_service_tier model service_tier region_pin =
     (let key = clean_option service_tier in
      if key = '''' then (None, None)
      else if key \<noteq> ''ultrafast'' then (Some key, None)
      else (case matching_model_key (str_or model '''') ULTRAFAST_MODELS of
              None \<Rightarrow> (None, Some ''ultrafast_unsupported_model'')
            | Some matched \<Rightarrow>
                (if clean_option region_pin = ''eu'' \<and> matched \<in> set ULTRAFAST_EU_UNSUPPORTED
                 then (None, Some ''ultrafast_eu_unsupported'') else (Some ''ultrafast'', None))))"

definition resolve_anthropic_speed :: "pystr option \<Rightarrow> pystr option \<Rightarrow> pystr option \<Rightarrow> gate_decision" where
  "resolve_anthropic_speed model speed beta =
     (let key = clean_option speed; matched = matching_model_key (str_or model '''') ANTHROPIC_FAST_MODELS in
      if key = '''' then (None, None)
      else if key = ''standard'' then (Some ''standard'', None)
      else if key \<noteq> ''fast'' then (None, Some ''fast_unsupported_speed'')
      else if matched = Some ANTHROPIC_FAST_GA then (Some ''fast'', None)
      else if matched \<noteq> None \<and> the matched \<in> set ANTHROPIC_FAST_PREVIEW then
        (if contains (str_or beta '''') ANTHROPIC_FAST_MODE_BETA then (Some ''fast'', None)
         else (None, Some ''fast_mode_beta_required''))
      else (None, Some ''fast_unsupported_model''))"

text \<open>\<open>None\<close>, or whether the model still needs the beta header.\<close>

definition anthropic_fast_mode_spec :: "pystr option \<Rightarrow> bool option" where
  "anthropic_fast_mode_spec model =
     map_option (\<lambda>m. m \<in> set ANTHROPIC_FAST_PREVIEW) (matching_model_key (str_or model '''') ANTHROPIC_FAST_MODELS)"

record speed_sunset =
  ss_speed :: "pystr option"
  ss_deprecated_at :: "pystr option"
  ss_removed_at :: "pystr option"
  ss_migrate_to :: "pystr option"

definition DEFAULT_SPEED_LIFECYCLE :: "(pystr \<times> speed_sunset) list" where
  "DEFAULT_SPEED_LIFECYCLE = map (\<lambda>m. (m, \<lparr>ss_speed = Some ''fast'', ss_deprecated_at = Some ''2026-10-30'',
     ss_removed_at = Some ''2026-11-30'', ss_migrate_to = Some ''claude-opus-5-5''\<rparr>)) [''claude-opus-4-8'', ''claude-opus-4.8'']"

definition parse_lifecycle_day :: "(pystr \<Rightarrow> int option) \<Rightarrow> pystr option \<Rightarrow> int option" where
  "parse_lifecycle_day fromiso raw =
     (let text = py_strip (str_or raw '''') in if text = '''' then None else fromiso (take 10 text))"

definition speed_lifecycle_today :: "(pystr \<Rightarrow> int option) \<Rightarrow> int option \<Rightarrow> pystr option \<Rightarrow> int \<Rightarrow> int" where
  "speed_lifecycle_today fromiso now as_of clock = (case now of Some d \<Rightarrow> d
     | None \<Rightarrow> (case parse_lifecycle_day fromiso as_of of Some d \<Rightarrow> d | None \<Rightarrow> clock))"

definition merged_speed_lifecycle :: "(pystr \<times> speed_sunset) list \<Rightarrow> (pystr \<times> speed_sunset) list" where
  "merged_speed_lifecycle configured = fold (\<lambda>(k, v) m. AList.update k v m) configured DEFAULT_SPEED_LIFECYCLE"

definition lookup_speed_lifecycle ::
    "(pystr \<times> speed_sunset) list \<Rightarrow> pystr option \<Rightarrow> pystr option \<Rightarrow> speed_sunset option" where
  "lookup_speed_lifecycle configured model speed =
     (if clean_option speed \<noteq> ''fast'' then None
      else (let table = merged_speed_lifecycle configured in
        case matching_model_key (str_or model '''') (map fst table) of None \<Rightarrow> None
        | Some k \<Rightarrow> (let e = the (map_of table k) in
            if clean_option (ss_speed e) = ''fast'' then Some e else None)))"

datatype speed_action = AllowSpeed | WarnSpeed | RejectSpeed | DegradeSpeed

definition resolve_speed_lifecycle ::
    "(pystr \<Rightarrow> int option) \<Rightarrow> int \<Rightarrow> (pystr \<times> speed_sunset) list \<Rightarrow> bool \<Rightarrow> pystr option \<Rightarrow> pystr option
     \<Rightarrow> speed_action \<times> pystr option" where
  "resolve_speed_lifecycle fromiso today configured degrade model speed =
     (case lookup_speed_lifecycle configured model speed of None \<Rightarrow> (AllowSpeed, speed)
      | Some e \<Rightarrow>
          (let removed_at = parse_lifecycle_day fromiso (ss_removed_at e);
               deprecated_at = parse_lifecycle_day fromiso (ss_deprecated_at e);
               reached = (\<lambda>d. case d of None \<Rightarrow> False | Some x \<Rightarrow> today \<ge> x)
           in if reached removed_at then (if degrade then (DegradeSpeed, None) else (RejectSpeed, None))
              else if reached deprecated_at \<or> removed_at \<noteq> None then (WarnSpeed, Some ''fast'')
              else (AllowSpeed, speed)))"

section \<open>Warnings about missing prices\<close>

text \<open>\<open>dict.fromkeys(xs)\<close>: the first of each.\<close>

definition dict_fromkeys :: "'a list \<Rightarrow> 'a list" where
  "dict_fromkeys xs = rev (remdups (rev xs))"

text \<open>Whether the served model gets the note, and the warning with the note appended.\<close>

definition apply_cloud_billing_warning ::
    "price_table \<Rightarrow> pyfloat \<Rightarrow> pystr \<Rightarrow> pystr option \<Rightarrow> pystr option \<Rightarrow> pystr option" where
  "apply_cloud_billing_warning table per_1k note model existing =
     (let name = py_strip (str_or model '''') in
      if \<not> is_ollama_cloud_model name then existing
      else if \<not> p_fallback (resolve_price table per_1k 0 None (Some name)) then existing
      else Some (if str_or existing '''' \<noteq> '''' then str_or existing '''' @ ''; '' @ note else note))"

datatype price_warning = FrontierUnpriced pystr | CloudUnpriced pystr | AliasUnknown pystr pystr

definition pricing_warnings :: "price_table \<Rightarrow> pyfloat \<Rightarrow> pystr list \<Rightarrow> pystr list \<Rightarrow> price_warning list" where
  "pricing_warnings table per_1k frontier_models configured_models =
     (let unpriced = (\<lambda>ms. filter (\<lambda>m. p_fallback (resolve_price table per_1k 0 None (Some m))) (dict_fromkeys ms))
      in map FrontierUnpriced (unpriced frontier_models)
         @ map CloudUnpriced (unpriced (filter is_ollama_cloud_model configured_models))
         @ concat (map (\<lambda>(k, e). case alias_target e of None \<Rightarrow> []
             | Some a \<Rightarrow> (if matching_model_key a (filter (\<lambda>j. j \<noteq> k) (map fst table)) = None
                         then [AliasUnknown k a] else [])) table))"

section \<open>The router's gate\<close>

text \<open>
  \<open>Router._gate_client_tiers\<close>: the service tier and speed sent upstream, and the joined warnings.
  \<open>life_text\<close> is the lifecycle's message for a warning or a rejection.
\<close>

definition gate_client_tiers ::
    "(pystr \<Rightarrow> int option) \<Rightarrow> int \<Rightarrow> (pystr \<times> speed_sunset) list \<Rightarrow> bool \<Rightarrow> (speed_action \<Rightarrow> pystr) \<Rightarrow>
     pystr option \<Rightarrow> pystr option \<Rightarrow> pystr option \<Rightarrow> pystr option \<Rightarrow> pystr option \<Rightarrow>
     pystr option \<times> pystr option \<times> pystr option" where
  "gate_client_tiers fromiso today configured degrade life_text model service_tier region_pin speed beta =
     (let (tier, tier_warning) = resolve_service_tier model service_tier region_pin;
          (action, life_speed) = resolve_speed_lifecycle fromiso today configured degrade model speed;
          (speed', warnings) = (case action of
              RejectSpeed \<Rightarrow> (None, [life_text RejectSpeed])
            | DegradeSpeed \<Rightarrow> (None, [''deprecated_speed_degraded''])
            | WarnSpeed \<Rightarrow> (case resolve_anthropic_speed model speed beta of
                (s, w) \<Rightarrow> (s, (case w of None \<Rightarrow> [] | Some x \<Rightarrow> [x]) @ [life_text WarnSpeed]))
            | AllowSpeed \<Rightarrow> (case resolve_anthropic_speed model speed beta of
                (s, w) \<Rightarrow> (s, case w of None \<Rightarrow> [] | Some x \<Rightarrow> [x])));
          all = (case tier_warning of None \<Rightarrow> [] | Some x \<Rightarrow> [x]) @ filter (\<lambda>w. w \<noteq> '''') warnings
      in (tier, speed', if join ''; '' all = '''' then None else Some (join ''; '' all)))"

section \<open>Properties\<close>

definition fair_rates :: "price_rates \<Rightarrow> bool" where
  "fair_rates m = (0 \<le> rate_or_zero (r_input m) \<and> 0 \<le> rate_or_zero (r_output m)
     \<and> 0 \<le> rate_or_zero (r_above_input m) \<and> 0 \<le> rate_or_zero (r_above_output m)
     \<and> (case r_cached m of None \<Rightarrow> True | Some c \<Rightarrow> 0 \<le> c \<and> c \<le> rate_or_zero (r_input m)))"

text \<open>Every configured entry, resolved through its aliases, quotes fair rates.\<close>

definition fair_table :: "price_table \<Rightarrow> bool" where
  "fair_table table = list_all (\<lambda>k. case merged_rate_entry table [k] (the (map_of table k)) of
       None \<Rightarrow> True | Some m \<Rightarrow> fair_rates m) (map fst table)"

definition fair_price :: "resolved_price \<Rightarrow> bool" where
  "fair_price p = (0 \<le> p_input p \<and> 0 \<le> p_output p
     \<and> (case p_cached p of None \<Rightarrow> True | Some c \<Rightarrow> 0 \<le> c \<and> c \<le> p_input p))"

lemma fair_resolved: "fair_rates m \<Longrightarrow> fair_price (resolved_from_rates n m)"
proof -
  have scaled: "a * b \<le> b * c" if "a \<le> c" "0 \<le> b" for a b c :: pyfloat
    using that by (subst mult.commute) (rule mult_left_mono)
  show "fair_rates m \<Longrightarrow> fair_price (resolved_from_rates n m)"
    by (cases "r_cached m") (auto simp: fair_rates_def fair_price_def resolved_from_rates_def Let_def field_simps intro!: scaled)
qed

lemma merged_empty_table: "merged_rate_entry [] visited e = complete_rates (override_rates no_rates (pe_rates e))"
  by (subst merged_rate_entry.simps) (simp add: alias_step_def matching_model_key_def split: option.split)

lemma decisions_price:
  assumes "map_of DECISIONS_MODEL_PRICES k = Some e"
  shows "\<exists>p. resolved_from_entry 0 [] [] e = Some p \<and> fair_price p"
proof -
  have e: "pe_rates e = no_rates\<lparr>r_input := Some (1 / 10), r_output := Some 0, r_cached := Some (1 / 100),
      r_write := Some 0, r_write_1h := Some 0\<rparr>"
    using assms by (auto simp: DECISIONS_MODEL_PRICES_def split: if_splits)
  show ?thesis unfolding resolved_from_entry_def merged_empty_table e
    by (simp add: no_rates_def override_rates_def own_or_def complete_rates_def resolved_from_rates_def
        above_threshold_def rate_or_zero_def fair_price_def)
qed

lemma fair_resolve:
  assumes "fair_table table" and "0 \<le> per_1k"
  shows "fair_price (resolve_price table per_1k n path model)"
proof -
  have flat: "fair_price (flat_price per_1k)" using assms(2) by (simp add: fair_price_def flat_price_def)
  have entry: "fair_price p" if key: "matching_model_key m (map fst table) = Some k"
      and res: "resolved_from_entry n table [k] (the (map_of table k)) = Some p" for m k p
  proof -
    have "k \<in> set (map fst table)" using matching_key_props(1) key by blast
    moreover obtain r where "merged_rate_entry table [k] (the (map_of table k)) = Some r" "p = resolved_from_rates n r"
      using res by (auto simp: resolved_from_entry_def)
    ultimately show ?thesis using assms(1) fair_resolved by (fastforce simp: fair_table_def list_all_iff)
  qed
  have dec: "fair_price (the (resolved_from_entry 0 [] [] (the (map_of DECISIONS_MODEL_PRICES k))))"
    if "matching_model_key m (map fst DECISIONS_MODEL_PRICES) = Some k" for m k
  proof -
    have "k \<in> set (map fst DECISIONS_MODEL_PRICES)" using matching_key_props(1)[OF that] .
    then obtain e where "map_of DECISIONS_MODEL_PRICES k = Some e" by (cases "map_of DECISIONS_MODEL_PRICES k") (auto simp: map_of_eq_None_iff)
    then show ?thesis using decisions_price by fastforce
  qed
  show ?thesis using flat entry dec
    by (auto simp: resolve_price_def Let_def split: option.splits if_splits)
qed

lemma factors_nonneg:
  "0 \<le> service_tier_factor t" "0 \<le> regional_processing_factor r m" "0 \<le> anthropic_speed_factor s"
  by (auto simp: service_tier_factor_def SERVICE_TIER_FACTORS_def regional_processing_factor_def
      anthropic_speed_factor_def split: option.splits if_splits)

text \<open>
  Prompt caching never raises a bill: with a table whose resolved entries quote nonnegative
  rates and a cached rate no higher than the input rate, a call without cache writes costs
  between zero and what it would cost had no token been read from the cache, whatever the
  model, its aliases, the long-context threshold and the tier, region and speed factors.
\<close>
theorem cached_tokens_never_raise_the_bill:
  assumes "fair_table table" and "0 \<le> per_1k" and "0 \<le> us_cached u" and "us_cached u \<le> us_input u"
    and "us_write u \<le> 0"
  shows "0 \<le> cost_usd table per_1k path model u
       \<and> cost_usd table per_1k path model u \<le> cost_usd table per_1k path model (u\<lparr>us_cached := 0\<rparr>)"
proof -
  define p where "p = resolve_price table per_1k (us_input u) path model"
  have p: "fair_price p" unfolding p_def by (rule fair_resolve[OF assms(1,2)])
  define c where "c = (case p_cached p of Some r \<Rightarrow> r | None \<Rightarrow> p_input p)"
  define i o' k where "i = rat_of_int (us_input u)" and "o' = rat_of_int (max 0 (us_output u))"
    and "k = rat_of_int (us_cached u)"
  have c: "0 \<le> c" "c \<le> p_input p" using p by (auto simp: c_def fair_price_def split: option.splits)
  have ik: "0 \<le> k" "k \<le> i" "0 \<le> o'" using assms(3,4) by (auto simp: i_def o'_def k_def)
  have diff: "rat_of_int (max 0 (us_input u - us_cached u)) = i - k" "rat_of_int (max 0 (us_input u)) = i"
    using assms(3,4) by (auto simp: i_def k_def)
  have zero: "(if us_cached u = 0 then 0 else k / 1000000 * c) = k / 1000000 * c" by (simp add: k_def)
  define f where "f = service_tier_factor (us_service_tier u) * regional_processing_factor (us_region_pin u) model
    * anthropic_speed_factor (us_speed u)"
  have f: "0 \<le> f" unfolding f_def using factors_nonneg by (meson mult_nonneg_nonneg)
  have total: "cost_usd table per_1k path model u
      = ((i - k) / 1000000 * p_input p + o' / 1000000 * p_output p + k / 1000000 * c) * f"
    using assms(5) zero diff by (simp add: cost_usd_def Let_def p_def[symmetric] c_def[symmetric] f_def o'_def k_def mult.assoc)
  have base: "cost_usd table per_1k path model (u\<lparr>us_cached := 0\<rparr>)
      = (i / 1000000 * p_input p + o' / 1000000 * p_output p) * f"
    using assms(5) diff by (simp add: cost_usd_def Let_def p_def[symmetric] f_def o'_def mult.assoc)
  have "k * c \<le> k * p_input p" using c ik by (simp add: mult_left_mono)
  then have "(i - k) / 1000000 * p_input p + o' / 1000000 * p_output p + k / 1000000 * c
      \<le> i / 1000000 * p_input p + o' / 1000000 * p_output p" by (simp add: field_simps)
  moreover have "0 \<le> (i - k) / 1000000 * p_input p + o' / 1000000 * p_output p + k / 1000000 * c"
    using c ik p by (simp add: fair_price_def)
  ultimately show ?thesis unfolding total base using f by (simp add: mult_right_mono)
qed

definition demo_table :: price_table where
  "demo_table =
     [(''gpt-5'', \<lparr>pe_rates = no_rates\<lparr>r_input := Some 2, r_output := Some 8, r_cached := Some (1 / 5)\<rparr>,
        pe_alias_of = None, pe_provider = None\<rparr>),
      (''house-model'', \<lparr>pe_rates = no_rates\<lparr>r_output := Some 4\<rparr>, pe_alias_of = Some ''gpt-5'', pe_provider = None\<rparr>)]"

definition demo_usage :: usage where
  "demo_usage = \<lparr>us_input = 1000000, us_output = 1000000, us_cached = 500000, us_write = 0,
     us_cache_ttl = None, us_service_tier = Some '' Flex '', us_region_pin = None, us_speed = None\<rparr>"

lemma demo_merged:
  "merged_rate_entry demo_table [''gpt-5''] (the (map_of demo_table ''gpt-5''))
     = Some (no_rates\<lparr>r_input := Some 2, r_output := Some 8, r_cached := Some (1 / 5)\<rparr>)"
  "merged_rate_entry demo_table [''gpt-5'', ''house-model''] (the (map_of demo_table ''gpt-5''))
     = Some (no_rates\<lparr>r_input := Some 2, r_output := Some 8, r_cached := Some (1 / 5)\<rparr>)"
  by (subst merged_rate_entry.simps, simp add: demo_table_def alias_step_def alias_target_def override_rates_def
      own_or_def complete_rates_def no_rates_def)+

lemma demo_merged_house:
  "merged_rate_entry demo_table [''house-model''] (the (map_of demo_table ''house-model''))
     = Some (no_rates\<lparr>r_input := Some 2, r_output := Some 4, r_cached := Some (1 / 5)\<rparr>)"
proof -
  have "alias_step demo_table [''house-model''] (the (map_of demo_table ''house-model'')) = Some ''gpt-5''"
    by code_simp
  then show ?thesis
    by (subst merged_rate_entry.simps)
      (simp add: demo_merged(2), simp add: demo_table_def override_rates_def own_or_def complete_rates_def no_rates_def)
qed

lemma cached_tokens_never_raise_the_bill_witness:
  "0 \<le> cost_usd demo_table (1 / 500) None (Some ''house-model-2026'') demo_usage
   \<and> cost_usd demo_table (1 / 500) None (Some ''house-model-2026'') demo_usage
     \<le> cost_usd demo_table (1 / 500) None (Some ''house-model-2026'') (demo_usage\<lparr>us_cached := 0\<rparr>)"
proof (rule cached_tokens_never_raise_the_bill)
  have "map fst demo_table = [''gpt-5'', ''house-model'']" by (simp add: demo_table_def)
  then show "fair_table demo_table"
    by (simp add: fair_table_def demo_merged(1) demo_merged_house fair_rates_def rate_or_zero_def no_rates_def)
qed (simp_all add: demo_usage_def)

text \<open>
  Nothing is billed at a premium speed the model does not publish: after the router's gate,
  an Ultrafast tier remains only for a published model, and not for an EU-pinned one that does
  not offer it there; a fast speed remains only for a fast-mode model, with its beta header
  where the model is not generally available, and never once the model's fast speed is removed.
\<close>
theorem gated_speeds_are_published:
  assumes "gate_client_tiers fromiso today configured degrade life_text model service_tier region_pin speed beta = (tier, sp, warning)"
  shows "(tier = Some ''ultrafast'' \<longrightarrow> (\<exists>k \<in> set ULTRAFAST_MODELS. matching_model_key (str_or model '''') ULTRAFAST_MODELS = Some k
            \<and> \<not> (clean_option region_pin = ''eu'' \<and> k \<in> set ULTRAFAST_EU_UNSUPPORTED)))
       \<and> (sp = Some ''fast'' \<longrightarrow>
            (\<exists>k \<in> set ANTHROPIC_FAST_MODELS. matching_model_key (str_or model '''') ANTHROPIC_FAST_MODELS = Some k
              \<and> (k = ANTHROPIC_FAST_GA \<or> contains (str_or beta '''') ANTHROPIC_FAST_MODE_BETA))
          \<and> (\<forall>e d. lookup_speed_lifecycle configured model speed = Some e \<longrightarrow>
               parse_lifecycle_day fromiso (ss_removed_at e) = Some d \<longrightarrow> today < d))"
proof -
  obtain a ls where life: "resolve_speed_lifecycle fromiso today configured degrade model speed = (a, ls)"
    by (cases "resolve_speed_lifecycle fromiso today configured degrade model speed")
  obtain t w where st: "resolve_service_tier model service_tier region_pin = (t, w)"
    by (cases "resolve_service_tier model service_tier region_pin")
  obtain s' w' where sa: "resolve_anthropic_speed model speed beta = (s', w')"
    by (cases "resolve_anthropic_speed model speed beta")
  have tier: "tier = t" and sp: "sp = Some ''fast'' \<Longrightarrow> s' = Some ''fast'' \<and> (a = AllowSpeed \<or> a = WarnSpeed)"
    using assms by (auto simp: gate_client_tiers_def Let_def life st sa split: speed_action.splits prod.splits)
  have "tier = Some ''ultrafast'' \<Longrightarrow> \<exists>k. matching_model_key (str_or model '''') ULTRAFAST_MODELS = Some k
      \<and> \<not> (clean_option region_pin = ''eu'' \<and> k \<in> set ULTRAFAST_EU_UNSUPPORTED)"
    using st tier by (auto simp: resolve_service_tier_def Let_def split: if_splits option.splits)
  moreover have "s' = Some ''fast'' \<Longrightarrow> \<exists>k. matching_model_key (str_or model '''') ANTHROPIC_FAST_MODELS = Some k
      \<and> (k = ANTHROPIC_FAST_GA \<or> contains (str_or beta '''') ANTHROPIC_FAST_MODE_BETA)"
    using sa by (auto simp: resolve_anthropic_speed_def Let_def split: if_splits)
  moreover have "a = AllowSpeed \<or> a = WarnSpeed \<Longrightarrow> lookup_speed_lifecycle configured model speed = Some e \<Longrightarrow>
      parse_lifecycle_day fromiso (ss_removed_at e) = Some d \<Longrightarrow> today < d" for e d
    using life by (auto simp: resolve_speed_lifecycle_def Let_def split: if_splits)
  ultimately show ?thesis using sp matching_key_props(1) by blast
qed

lemma gated_speeds_are_published_witness:
  "fst (snd (gate_client_tiers (\<lambda>_. Some 100) 50 [] False (\<lambda>_. ''sunset'') (Some ''claude-opus-5-5-20261001'') None None
       (Some ''Fast'') None)) = Some ''fast''
   \<and> (\<exists>k \<in> set ANTHROPIC_FAST_MODELS. matching_model_key ''claude-opus-5-5-20261001'' ANTHROPIC_FAST_MODELS = Some k)"
proof -
  let ?g = "gate_client_tiers (\<lambda>_. Some 100) 50 [] False (\<lambda>_. ''sunset'') (Some ''claude-opus-5-5-20261001'') None None
       (Some ''Fast'') None"
  have g: "?g = (None, Some ''fast'', None)" by code_simp
  show ?thesis using gated_speeds_are_published[OF g] unfolding g by auto
qed

end
