(* ===== verification/Capabilities.thy ===== *)
theory Capabilities
  imports Pricing Messages
begin

text \<open>
  The request the router works on (\<open>daari/gateway/internal.py\<close>) and what a model must be able to do
  for it (\<open>daari/router/capabilities.py\<close>): the shipped capability tags, the configured catalog,
  what a request needs, and the filter on local tiers.
\<close>

section \<open>Requests\<close>

text \<open>A rule of \<open>signal_overrides\<close>: what it matches and the levers it pulls.\<close>

record signal_rule =
  sr_id :: pystr
  sr_match :: "(pystr \<times> json) list"
  sr_category :: "pystr option"
  sr_max_tier :: "pystr option"
  sr_tier_pin :: "pystr option"

record internal_request =
  q_messages :: "message list"
  q_model :: pystr
  q_tools :: "json list"                \<comment> \<open>tools or []\<close>
  q_json :: bool                        \<comment> \<open>sampling.response_format_json\<close>
  q_effort :: "pystr option"
  q_web_search :: bool
  q_multi_agent :: bool
  q_no_cache :: bool
  q_no_frontier :: bool
  q_tier_override :: "pystr option"
  q_tier_cap :: "pystr option"
  q_latency_budget :: "int option"
  q_decision_tier :: "pystr option"
  q_region_pin :: "pystr option"
  q_key_models :: "pystr list option"
  q_team_models :: "pystr list option"
  q_session_id :: "pystr option"
  q_user :: "pystr option"
  q_user_agent :: "pystr option"
  q_client_id :: "pystr option"
  q_confirm_tool :: bool
  q_rerun :: bool
  q_tags :: "pystr list"
  q_key_id :: "pystr option"
  q_team_id :: "pystr option"
  q_cache_scope :: pystr
  q_key_rules :: "signal_rule list option"
  q_team_rules :: "signal_rule list option"
  q_temperature :: pystr                \<comment> \<open>str(temperature)\<close>
  q_sampling_key :: pystr               \<comment> \<open>sampling.cache_fingerprint()\<close>
  q_speed :: "pystr option"
  q_thread_key :: pystr                 \<comment> \<open>thread_cache_token(meta.anthropic_thread)\<close>

definition has_tool_calls_in_history :: "internal_request \<Rightarrow> bool" where
  "has_tool_calls_in_history q = list_ex has_tool_calls (q_messages q)"

definition agent_turn :: "internal_request \<Rightarrow> bool" where
  "agent_turn q = (q_tools q \<noteq> [] \<or> has_tool_calls_in_history q)"

section \<open>Tags and catalog\<close>

definition FULL_CAPABILITIES :: "pystr list" where
  "FULL_CAPABILITIES = [''tools'', ''json'', ''vision'', ''long_context'']"

definition AUDIO_CAPABILITIES :: "pystr list" where
  "AUDIO_CAPABILITIES = [''tools'', ''json'', ''vision'', ''audio'', ''long_context'']"

definition FRONTIER_CAPABILITIES :: "(pystr \<times> pystr list) list" where
  "FRONTIER_CAPABILITIES =
     fold (\<lambda>m t. AList.update m AUDIO_CAPABILITIES t)
       [''gpt-6-astra'', ''gpt-6.1-sol'', ''gpt-6.1-terra'', ''chat-latest'', ''gpt-5.6'', ''gpt-5.6-sol'',
        ''gpt-5.6-terra'', ''gpt-5.6-luna'', ''gemini-3.8-flash'', ''gpt-4o'', ''gpt-4o-mini'', ''gpt-4o-audio-preview'']
       (AList.update ''gpt-6-luna'' [''vision'', ''json'']
         (map (\<lambda>m. (m, FULL_CAPABILITIES))
           [''claude-fable-5-1'', ''claude-opus-5'', ''claude-opus-5-5'', ''claude-sonnet-5'', ''claude-sonnet-5-5'',
            ''claude-haiku-4-5'', ''claude-haiku-5-5'', ''gpt-6-astra'', ''gpt-6.1-sol'', ''gpt-6.1-terra'',
            ''chat-latest'', ''gpt-5.6'', ''gpt-5.6-sol'', ''gpt-5.6-terra'', ''gpt-5.6-luna'', ''gemini-3.8-flash'',
            ''grok-4.7'']))"

definition LOCAL_CAPABILITIES :: "(pystr \<times> pystr list) list" where
  "LOCAL_CAPABILITIES = [(''lfm3-omni'', [''tools'', ''json'', ''vision'', ''audio'']),
     (''lfm3-vl'', [''tools'', ''json'', ''vision''])]"

text \<open>
  \<open>casefold\<close> and \<open>lower\<close> differ only on characters no tag has, so \<open>py_lower\<close> stands for it.
  A key that matches the stripped id wins over the exact or \<open>name:\<close> test.
\<close>

definition known_model_capabilities :: "pystr \<Rightarrow> pystr list" where
  "known_model_capabilities model =
     (let blob = py_strip model;
          own = (if blob = '''' then None
                 else (case matching_model_key blob (map fst LOCAL_CAPABILITIES) of
                     Some k \<Rightarrow> map_of LOCAL_CAPABILITIES k
                   | None \<Rightarrow> (case filter (\<lambda>(n, c). py_lower blob = n \<or> starts_with (py_lower blob) (n @ '':''))
                         LOCAL_CAPABILITIES of [] \<Rightarrow> None | (n, c) # _ \<Rightarrow> Some c)))
      in case own of Some caps \<Rightarrow> caps
         | None \<Rightarrow> (case matching_model_key model (map fst FRONTIER_CAPABILITIES) of
             None \<Rightarrow> [] | Some k \<Rightarrow> the (map_of FRONTIER_CAPABILITIES k)))"

record cap_catalog =
  cat_models :: "(pystr \<times> pystr list) list"
  cat_default :: "pystr list"

definition for_model :: "cap_catalog \<Rightarrow> pystr \<Rightarrow> pystr list" where
  "for_model c model = (case map_of (cat_models c) model of Some caps \<Rightarrow> caps
     | None \<Rightarrow> (if known_model_capabilities model \<noteq> [] then known_model_capabilities model else cat_default c))"

definition catalog_supports :: "cap_catalog \<Rightarrow> pystr \<Rightarrow> pystr list \<Rightarrow> bool" where
  "catalog_supports c model required = list_all (\<lambda>cap. cap \<in> set (for_model c model)) required"

definition catalog_from_settings :: "pystr \<Rightarrow> pystr \<Rightarrow> pystr \<Rightarrow> (pystr \<times> pystr list) list \<Rightarrow> cap_catalog" where
  "catalog_from_settings l3 l4 l5 configured =
     (let defaults = [(l3, [''tools'']), (l4, [''tools'', ''json'', ''long_context'']),
                      (l5, [''tools'', ''json'', ''vision'', ''long_context''])];
          shipped = fold (\<lambda>(m, caps) t. if m = '''' then t
              else AList.update m (if known_model_capabilities m \<noteq> [] then known_model_capabilities m else caps) t)
            defaults []
      in \<lparr>cat_models = (if configured \<noteq> [] then configured else shipped), cat_default = []\<rparr>)"

section \<open>What a request needs\<close>

definition required_capabilities :: "internal_request \<Rightarrow> pystr list" where
  "required_capabilities q =
     (if agent_turn q then [''tools''] else [])
     @ (if list_ex (\<lambda>m. m_images m \<noteq> []) (q_messages q) then [''vision''] else [])
     @ (if list_ex (\<lambda>m. m_audio m \<noteq> []) (q_messages q) then [''audio''] else [])
     @ (if q_json q then [''json''] else [])"

definition filter_tiers_by_capability ::
    "(pystr \<Rightarrow> pystr) \<Rightarrow> (pystr \<Rightarrow> pystr list) \<Rightarrow> cap_catalog \<Rightarrow> pystr list \<Rightarrow> pystr list \<Rightarrow> pystr list" where
  "filter_tiers_by_capability tier_models extra_models c required tiers =
     (if required = [] then tiers
      else filter (\<lambda>t. list_ex (\<lambda>m. m \<noteq> '''' \<and> catalog_supports c m required) (tier_models t # extra_models t)) tiers)"

text \<open>The models of the pool's OpenAI-kind slots, per tier.\<close>

definition pool_extra_models :: "local_pool option \<Rightarrow> pystr \<Rightarrow> pystr list" where
  "pool_extra_models pool tier = (case pool of None \<Rightarrow> []
     | Some p \<Rightarrow> concat (map (\<lambda>s. if sl_kind s = ''openai'' \<and> sl_model s \<noteq> ''''
                          then map (\<lambda>_. sl_model s) (filter ((=) tier) (sl_tiers s)) else []) (lp_slots p)))"

lemma filter_tiers_subset: "set (filter_tiers_by_capability tm ex c req ts) \<subseteq> set ts"
  by (auto simp: filter_tiers_by_capability_def)

end
