(* ===== verification/FrontierFence.thy ===== *)
theory FrontierFence
  imports Capabilities AccessLists AgentSignals
begin

text \<open>
  When the router may leave the machine (\<open>daari/router/router.py\<close>): the tier cap, the fence on cloud
  models, the frontier's reachability and spend, and which tiers can serve a request at all.
\<close>

section \<open>Configuration\<close>

record frontier =
  fr_has_key :: bool                     \<comment> \<open>bool(frontier.api_key)\<close>
  fr_models :: frontier_models           \<comment> \<open>slots' models and default_model\<close>

record fence_config =
  fc_l3 :: pystr
  fc_l4 :: pystr
  fc_l5 :: pystr
  fc_catalog :: "cap_catalog option"
  fc_max_tier :: "pystr option"
  fc_frontier_enabled :: bool
  fc_frontier :: "frontier option"
  fc_daily_budget :: pyfloat
  fc_monthly_budget :: pyfloat
  fc_soft_ratio :: pyfloat

text \<open>What the usage ledger answers: today's and this month's spend; \<open>None\<close> if it cannot say.\<close>

record ledger_answer =
  lg_daily :: "pyfloat option"
  lg_monthly :: "pyfloat option"

section \<open>Caps\<close>

definition tier_rank :: "pystr \<Rightarrow> nat" where
  "tier_rank t = (case index_of t TIER_LADDER of None \<Rightarrow> 0 | Some i \<Rightarrow> i)"

definition effective_tier_cap :: "fence_config \<Rightarrow> internal_request \<Rightarrow> pystr option" where
  "effective_tier_cap c q =
     (let header_cap = upper_ascii (str_or (q_tier_cap q) ''''); config_cap = upper_ascii (str_or (fc_max_tier c) '''') in
      if header_cap \<in> set TIER_LADDER then Some header_cap
      else if config_cap \<in> set TIER_LADDER then Some config_cap else None)"

definition cap_tier :: "pystr \<Rightarrow> pystr option \<Rightarrow> pystr" where
  "cap_tier t cap = (case cap of None \<Rightarrow> t
     | Some m \<Rightarrow> (if t \<notin> set TIER_LADDER then t else if tier_rank t > tier_rank m then m else t))"

definition cloud_block_reason :: "fence_config \<Rightarrow> internal_request \<Rightarrow> pystr option" where
  "cloud_block_reason c q =
     (if q_no_frontier q then Some ''no_frontier''
      else (case effective_tier_cap c q of
          Some cap \<Rightarrow> Some (''tier_cap:'' @ cap)
        | None \<Rightarrow> (if str_or (q_region_pin q) '''' \<noteq> '''' then Some ''region_pin'' else None)))"

section \<open>The frontier\<close>

definition frontier_reachable :: "fence_config \<Rightarrow> internal_request \<Rightarrow> bool" where
  "frontier_reachable c q =
     (if q_no_frontier q \<or> \<not> fc_frontier_enabled c then False
      else if effective_tier_cap c q \<noteq> None then False
      else (case fc_frontier c of None \<Rightarrow> False
        | Some f \<Rightarrow> fr_has_key f \<and> frontier_models_permitted (Some (fr_models f)) (q_key_models q) (q_team_models q)))"

datatype budget_state = BudgetOk | BudgetSoft | BudgetExceeded

fun budget_windows :: "pyfloat \<Rightarrow> budget_state \<Rightarrow> (pyfloat \<times> pyfloat option) list \<Rightarrow> budget_state" where
  "budget_windows ratio state [] = state"
| "budget_windows ratio state ((budget, spend) # ws) =
     (case spend of None \<Rightarrow> budget_windows ratio state ws
      | Some s \<Rightarrow> (if s \<ge> budget then BudgetExceeded
                  else budget_windows ratio (if s \<ge> budget * ratio then BudgetSoft else state) ws))"

definition frontier_budget_state :: "fence_config \<Rightarrow> ledger_answer option \<Rightarrow> budget_state" where
  "frontier_budget_state c l = (case l of None \<Rightarrow> BudgetOk
     | Some g \<Rightarrow> budget_windows (fc_soft_ratio c) BudgetOk
         ((if fc_daily_budget c > 0 then [(fc_daily_budget c, lg_daily g)] else [])
          @ (if fc_monthly_budget c > 0 then [(fc_monthly_budget c, lg_monthly g)] else [])))"

definition frontier_satisfies_capabilities :: "fence_config \<Rightarrow> pystr list \<Rightarrow> internal_request \<Rightarrow> bool" where
  "frontier_satisfies_capabilities c required q =
     (if required = [] \<or> \<not> frontier_reachable c q then False
      else (let model = (case fc_frontier c of None \<Rightarrow> '''' | Some f \<Rightarrow> str_or (fm_default (fr_models f)) '''');
                declared = known_model_capabilities model
                  @ (case fc_catalog c of None \<Rightarrow> [] | Some cat \<Rightarrow> for_model cat model)
            in model \<noteq> '''' \<and> list_all (\<lambda>cap. cap \<in> set declared) required))"

section \<open>Capable tiers\<close>

definition tier_model :: "fence_config \<Rightarrow> pystr \<Rightarrow> pystr" where
  "tier_model c t = (if t = ''L3'' then fc_l3 c else if t = ''L4'' then fc_l4 c else if t = ''L5'' then fc_l5 c else '''')"

text \<open>\<open>_executor_for_tier(tier).default_model\<close>: the L3 executor serves any other name.\<close>

definition executor_model :: "fence_config \<Rightarrow> pystr \<Rightarrow> pystr" where
  "executor_model c t = (if t = ''L4'' then fc_l4 c else if t = ''L5'' then fc_l5 c else fc_l3 c)"

text \<open>\<open>Inl\<close> is \<open>UnsupportedCapability\<close> with what is required.\<close>

definition filter_capable_tiers ::
    "fence_config \<Rightarrow> local_pool option \<Rightarrow> pystr list \<Rightarrow> internal_request \<Rightarrow> pystr list + pystr list" where
  "filter_capable_tiers c pool tiers q = (case fc_catalog c of None \<Rightarrow> Inr tiers
     | Some cat \<Rightarrow>
         (let required = required_capabilities q;
              kept = filter_tiers_by_capability (tier_model c) (pool_extra_models pool) cat required tiers
          in if required = [] then Inr tiers
             else if kept = [] \<and> \<not> frontier_satisfies_capabilities c required q then Inl required
             else Inr kept))"

definition local_tiers_cover_capabilities :: "fence_config \<Rightarrow> local_pool option \<Rightarrow> internal_request \<Rightarrow> bool" where
  "local_tiers_cover_capabilities c pool q = (case fc_catalog c of None \<Rightarrow> True
     | Some cat \<Rightarrow>
         (let required = required_capabilities q in
          required = [] \<or>
          filter_tiers_by_capability (tier_model c) (pool_extra_models pool) cat required TIER_LADDER \<noteq> []))"

section \<open>Cloud models behind local tiers\<close>

definition served_by :: "fence_config \<Rightarrow> pystr \<Rightarrow> slot \<Rightarrow> pystr" where
  "served_by c tier s = (if sl_model s \<noteq> '''' then sl_model s else executor_model c tier)"

definition tier_has_non_cloud_host :: "fence_config \<Rightarrow> local_pool option \<Rightarrow> pystr \<Rightarrow> bool" where
  "tier_has_non_cloud_host c pool tier =
     (let slots = (case pool of None \<Rightarrow> [] | Some p \<Rightarrow> slots_for tier p) in
      if slots = [] then \<not> is_ollama_cloud_model (executor_model c tier)
      else list_ex (\<lambda>s. \<not> is_ollama_cloud_model (served_by c tier s)) slots)"

definition alternate_non_cloud_tier ::
    "fence_config \<Rightarrow> local_pool option \<Rightarrow> pystr list \<Rightarrow> internal_request \<Rightarrow> pystr option" where
  "alternate_non_cloud_tier c pool skip q =
     (if cloud_block_reason c q = None then None
      else (case filter (\<lambda>t. t \<notin> set skip \<and> tier_has_non_cloud_host c pool t) TIER_LADDER of
              [] \<Rightarrow> None | t # _ \<Rightarrow> Some t))"

definition cloud_backend_ids :: "fence_config \<Rightarrow> local_pool option \<Rightarrow> pystr \<Rightarrow> pystr list" where
  "cloud_backend_ids c pool tier = (case pool of None \<Rightarrow> []
     | Some p \<Rightarrow> map sl_id (filter (\<lambda>s. is_ollama_cloud_model (served_by c tier s)) (slots_for tier p)))"

text \<open>The ids tried after the cloud hosts are struck out.\<close>

definition exclude_cloud_hosts ::
    "fence_config \<Rightarrow> local_pool option \<Rightarrow> pystr \<Rightarrow> internal_request \<Rightarrow> pystr list \<Rightarrow> pystr list" where
  "exclude_cloud_hosts c pool tier q tried =
     (case cloud_block_reason c q of None \<Rightarrow> tried
      | Some r \<Rightarrow> tried @ filter (\<lambda>i. i \<notin> set tried) (cloud_backend_ids c pool tier))"

section \<open>Requests only the frontier can serve\<close>

text \<open>Why web search or multi-agent cannot be served, or \<open>None\<close>.\<close>

definition frontier_refusal :: "fence_config \<Rightarrow> ledger_answer option \<Rightarrow> internal_request \<Rightarrow> pystr option" where
  "frontier_refusal c l q =
     (if q_no_frontier q then Some ''no_frontier''
      else if \<not> fc_frontier_enabled c \<or> (case fc_frontier c of None \<Rightarrow> True | Some f \<Rightarrow> \<not> fr_has_key f)
        then Some ''frontier_disabled''
      else if \<not> frontier_reachable c q then
        (case effective_tier_cap c q of Some cap \<Rightarrow> Some (''tier_cap:'' @ cap) | None \<Rightarrow> Some ''frontier_not_allowed'')
      else if frontier_budget_state c l = BudgetExceeded then Some ''frontier_budget_exceeded'' else None)"

definition ensure_web_search_frontier :: "fence_config \<Rightarrow> ledger_answer option \<Rightarrow> internal_request \<Rightarrow> pystr option" where
  "ensure_web_search_frontier c l q = (if q_web_search q then frontier_refusal c l q else None)"

definition ensure_multi_agent_frontier :: "fence_config \<Rightarrow> ledger_answer option \<Rightarrow> internal_request \<Rightarrow> pystr option" where
  "ensure_multi_agent_frontier c l q = (if q_multi_agent q then frontier_refusal c l q else None)"

section \<open>Facts\<close>

lemma ladder_ranks [simp]:
  "tier_rank ''L3'' = 0" "tier_rank ''L4'' = 1" "tier_rank ''L5'' = 2"
  by (simp_all add: tier_rank_def TIER_LADDER_def)

lemma ladder_iff: "t \<in> set TIER_LADDER \<longleftrightarrow> t = ''L3'' \<or> t = ''L4'' \<or> t = ''L5''"
  by (auto simp: TIER_LADDER_def)

lemma effective_cap_ladder: "effective_tier_cap c q = Some cap \<Longrightarrow> cap \<in> set TIER_LADDER"
  by (auto simp: effective_tier_cap_def Let_def split: if_splits)

lemma cap_tier_capped:
  "cap_tier t (Some m) \<in> set TIER_LADDER \<Longrightarrow> m \<in> set TIER_LADDER \<Longrightarrow> tier_rank (cap_tier t (Some m)) \<le> tier_rank m"
  by (auto simp: cap_tier_def split: if_splits)

lemma cap_tier_ladder: "t \<in> set TIER_LADDER \<Longrightarrow> m \<in> set TIER_LADDER \<Longrightarrow> cap_tier t (Some m) \<in> set TIER_LADDER"
  by (auto simp: cap_tier_def)

lemma reachable_unfenced:
  "frontier_reachable c q \<Longrightarrow> \<not> q_no_frontier q \<and> fc_frontier_enabled c \<and> effective_tier_cap c q = None \<and>
     (\<exists>f. fc_frontier c = Some f \<and> fr_has_key f
        \<and> frontier_models_permitted (Some (fr_models f)) (q_key_models q) (q_team_models q))"
  by (auto simp: frontier_reachable_def split: if_splits option.splits)

lemma refusal_None: "frontier_refusal c l q = None \<longleftrightarrow> frontier_reachable c q \<and> frontier_budget_state c l \<noteq> BudgetExceeded"
  by (auto simp: frontier_refusal_def frontier_reachable_def split: option.splits)

lemma budget_windows_exceeded:
  "state \<noteq> BudgetExceeded \<Longrightarrow>
     budget_windows ratio state ws = BudgetExceeded \<longleftrightarrow> (\<exists>(b, s) \<in> set ws. \<exists>x. s = Some x \<and> x \<ge> b)"
  by (induction ratio state ws rule: budget_windows.induct) (auto split: option.splits)

lemma budget_exceeded_iff:
  "frontier_budget_state c (Some g) = BudgetExceeded \<longleftrightarrow>
     (fc_daily_budget c > 0 \<and> (\<exists>x. lg_daily g = Some x \<and> x \<ge> fc_daily_budget c))
     \<or> (fc_monthly_budget c > 0 \<and> (\<exists>x. lg_monthly g = Some x \<and> x \<ge> fc_monthly_budget c))"
  by (cases "lg_daily g"; cases "lg_monthly g") (auto simp: frontier_budget_state_def budget_windows_exceeded)

end
