(* ===== verification/PromptProfile.thy ===== *)
theory PromptProfile
  imports Messages "HOL-Library.Product_Lexorder"
begin

text \<open>
  What the router estimates of a prompt (\<open>daari/router/profile.py\<close>): its category, complexity and
  size, after the blocks an agent harness injects are cut out; and which clients are agents
  (\<open>daari/gateway/agent_ua.py\<close>).
\<close>

section \<open>Harness blocks\<close>

fun find_sub :: "pystr \<Rightarrow> pystr \<Rightarrow> nat option" where
  "find_sub p [] = (if p = [] then Some 0 else None)"
| "find_sub p (c # s) = (if starts_with (c # s) p then Some 0 else map_option Suc (find_sub p s))"

lemma find_sub_props:
  "find_sub p s = Some i \<Longrightarrow> i + length p \<le> length s \<and> take (length p) (drop i s) = p"
proof (induction p s arbitrary: i rule: find_sub.induct)
  case (2 p c s)
  then show ?case
    by (cases i) (auto simp: starts_with_def split: if_splits dest: arg_cong[where f = length])
qed (auto split: if_splits)

definition HARNESS_MARKER_PAIRS :: "(pystr \<times> pystr) list" where
  "HARNESS_MARKER_PAIRS =
     [(''<system-reminder>'', ''</system-reminder>''), (''<environment_context>'', ''</environment_context>''),
      (''<recommended_plugins>'', ''</recommended_plugins>''), (''<user_instructions>'', ''</user_instructions>''),
      (''<environments_instructions>'', ''</environments_instructions>''),
      (''# agents.md instructions for '', ''</instructions>'')]"

text \<open>The complete blocks from an offset on. An empty pair of markers would never advance.\<close>

function block_spans :: "pystr \<Rightarrow> pystr \<Rightarrow> nat \<Rightarrow> pystr \<Rightarrow> (nat \<times> nat) list" where
  "block_spans start stop off s =
     (case find_sub start s of None \<Rightarrow> []
      | Some i \<Rightarrow> (case find_sub stop (drop (i + length start) s) of None \<Rightarrow> []
          | Some j \<Rightarrow> (let e = i + length start + j + length stop in
              if start @ stop = [] then []
              else (off + i, off + e) # block_spans start stop (off + e) (drop e s))))"
  by pat_completeness auto
termination
  by (relation "measure (\<lambda>(a, b, off, s). length s)")
    (auto dest!: find_sub_props simp: min_def split: if_splits intro!: diff_less)

declare block_spans.simps [simp del]

lemma block_spans_cases:
  obtains "block_spans start stop off s = []"
  | i j where "find_sub start s = Some i" "find_sub stop (drop (i + length start) s) = Some j" "start @ stop \<noteq> []"
      "block_spans start stop off s = (off + i, off + (i + length start + j + length stop))
        # block_spans start stop (off + (i + length start + j + length stop)) (drop (i + length start + j + length stop) s)"
proof -
  have "block_spans start stop off s = [] \<or> (\<exists>i j. find_sub start s = Some i
      \<and> find_sub stop (drop (i + length start) s) = Some j \<and> start @ stop \<noteq> []
      \<and> block_spans start stop off s = (off + i, off + (i + length start + j + length stop))
        # block_spans start stop (off + (i + length start + j + length stop)) (drop (i + length start + j + length stop) s))"
    by (subst (1 2) block_spans.simps) (simp add: Let_def split: option.split)
  then show thesis using that by blast
qed

lemma block_spans_bounds:
  "(a, b) \<in> set (block_spans start stop off s) \<Longrightarrow> off \<le> a \<and> a \<le> b \<and> b \<le> off + length s"
proof (induction start stop off s rule: block_spans.induct)
  case (1 start stop off s)
  show ?case
  proof (cases rule: block_spans_cases[of start stop off s])
    case 1
    then show ?thesis using "1.prems" by simp
  next
    case (2 i j)
    let ?e = "i + length start + j + length stop"
    have e: "?e \<le> length s" "i \<le> ?e" using find_sub_props[OF 2(1)] find_sub_props[OF 2(2)] by auto
    have "(a, b) = (off + i, off + ?e) \<or> (a, b) \<in> set (block_spans start stop (off + ?e) (drop ?e s))"
      using "1.prems" 2(4) by simp
    then show ?thesis using "1.IH"[OF 2(1,2) refl 2(3)] e by auto
  qed
qed

fun merge_from :: "nat \<times> nat \<Rightarrow> (nat \<times> nat) list \<Rightarrow> (nat \<times> nat) list" where
  "merge_from (s, e) [] = [(s, e)]"
| "merge_from (s, e) ((a, b) # xs) =
     (if a \<le> e then merge_from (s, max e b) xs else (s, e) # merge_from (a, b) xs)"

definition merge_spans :: "(nat \<times> nat) list \<Rightarrow> (nat \<times> nat) list" where
  "merge_spans spans = (case sort spans of [] \<Rightarrow> [] | x # xs \<Rightarrow> merge_from x xs)"

fun cut_spans :: "pystr \<Rightarrow> nat \<Rightarrow> (nat \<times> nat) list \<Rightarrow> pystr" where
  "cut_spans text cursor [] = drop cursor text"
| "cut_spans text cursor ((s, e) # xs) = take (s - cursor) (drop cursor text) @ cut_spans text e xs"

definition harness_spans :: "pystr \<Rightarrow> (nat \<times> nat) list" where
  "harness_spans text =
     concat (map (\<lambda>(start, stop). block_spans start stop 0 (py_lower text)) HARNESS_MARKER_PAIRS)"

definition strip_harness_text :: "pystr \<Rightarrow> pystr \<times> nat" where
  "strip_harness_text text =
     (if text = '''' then ('''', 0)
      else if harness_spans text = [] then (text, 0)
      else (let cleaned = cut_spans text 0 (merge_spans (harness_spans text))
            in (cleaned, length text - length cleaned)))"

section \<open>Category and complexity\<close>

definition FENCE :: pystr where "FENCE = replicate 3 (CHR 0x60)"

definition contains_any :: "pystr \<Rightarrow> pystr list \<Rightarrow> bool" where
  "contains_any s tokens = list_ex (contains s) tokens"

definition TEST_TOKENS :: "pystr list" where
  "TEST_TOKENS = [''pytest'', ''unit test'', ''unittest'', ''write a test'', ''tests for'']"
definition GIT_TOKENS :: "pystr list" where
  "GIT_TOKENS = [''git '', ''commit'', ''branch'', ''merge'', ''rebase'']"
definition LINT_TOKENS :: "pystr list" where
  "LINT_TOKENS = [''lint'', ''eslint'', ''ruff'', ''flake8'']"
definition FETCH_TOKENS :: "pystr list" where
  "FETCH_TOKENS = [''http://'', ''https://'', ''fetch '', ''api '']"
definition CODE_TOKENS :: "pystr list" where
  "CODE_TOKENS = [''function'', ''class '', ''code'', ''bug'', ''refactor'', ''implement'', ''decorator'',
     ''module'', ''script'', ''regex'', ''dataclass'', ''concurrency'']"
definition EXPLAIN_MARKERS :: "pystr list" where
  "EXPLAIN_MARKERS = [''explain'', ''what does'', ''why does'', ''how does'', ''describe'', ''walk me through'', ''understand'']"
definition GEN_VERBS :: "pystr list" where
  "GEN_VERBS = [''write'', ''create'', ''implement'', ''add '', ''build'', ''generate'', ''refactor'', ''fix'']"
definition QUESTION_STARTERS :: "pystr list" where
  "QUESTION_STARTERS = [''what'', ''why'', ''how'', ''when'', ''where'', ''who'', ''which'', ''is '', ''are '', ''can '']"

definition CATEGORIES :: "pystr list" where
  "CATEGORIES = [''code_gen'', ''code_explain'', ''test'', ''git'', ''lint'', ''fetch'', ''doc_qa'', ''chat'']"

definition categorize :: "pystr \<Rightarrow> pystr" where
  "categorize text =
     (let normalized = py_strip (py_lower text);
          code_signal = contains normalized FENCE \<or> contains_any normalized CODE_TOKENS
      in if contains_any normalized TEST_TOKENS then ''test''
         else if contains_any normalized GIT_TOKENS then ''git''
         else if contains_any normalized LINT_TOKENS then ''lint''
         else if contains_any normalized FETCH_TOKENS then ''fetch''
         else if code_signal \<and> contains_any normalized EXPLAIN_MARKERS then ''code_explain''
         else if code_signal \<and> list_ex (\<lambda>v. starts_with normalized v \<or> contains normalized (CHR '' '' # v)) GEN_VERBS
           then ''code_gen''
         else if code_signal then (if contains normalized ''?'' then ''code_explain'' else ''code_gen'')
         else if list_ex (starts_with normalized) QUESTION_STARTERS \<or> ends_with normalized ''?'' then ''doc_qa''
         else ''chat'')"

text \<open>\<open>len(re.findall(r"\S+", text))\<close>.\<close>

fun word_count :: "pystr \<Rightarrow> nat" where
  "word_count [] = 0"
| "word_count [c] = (if is_space c then 0 else 1)"
| "word_count (c # d # s) = (if \<not> is_space c \<and> is_space d then Suc (word_count (d # s)) else word_count (d # s))"

text \<open>\<open>text.count("```")\<close>, without overlaps.\<close>

fun fence_count :: "pystr \<Rightarrow> nat" where
  "fence_count (a # b # c # s) =
     (if a = CHR 0x60 \<and> b = CHR 0x60 \<and> c = CHR 0x60 then Suc (fence_count s) else fence_count (b # c # s))"
| "fence_count _ = 0"

record prompt_profile =
  pf_category :: pystr
  pf_complexity :: pystr
  pf_tokens_est :: int
  pf_stripped_chars :: nat

definition last_user_content :: "message list \<Rightarrow> pystr" where
  "last_user_content ms = (case filter (\<lambda>m. m_role m = ''user'' \<and> content_or_empty m \<noteq> '''') (rev ms) of
       [] \<Rightarrow> '''' | m # _ \<Rightarrow> content_or_empty m)"

definition total_chars :: "message list \<Rightarrow> nat" where
  "total_chars ms = sum_list (map (\<lambda>m. length (content_or_empty m)) ms)"

definition complexity_of :: "nat \<Rightarrow> nat \<Rightarrow> nat \<Rightarrow> pystr" where
  "complexity_of words fences tokens =
     (if words > 250 \<or> fences \<ge> 2 \<or> tokens > 2000 then ''complex''
      else if words \<le> 8 \<and> fences = 0 then ''trivial'' else ''standard'')"

definition build_prompt_profile :: "bool \<Rightarrow> bool \<Rightarrow> pystr option \<Rightarrow> message list \<Rightarrow> prompt_profile" where
  "build_prompt_profile effort_escalation harness_aware effort ms =
     (let raw_user = last_user_content ms;
          removed = (\<lambda>m. snd (strip_harness_text (content_or_empty m)));
          cleaned = (\<lambda>m. length (fst (strip_harness_text (content_or_empty m))));
          user = (if harness_aware then fst (strip_harness_text raw_user) else raw_user);
          stripped = (if harness_aware
            then sum_list (map (\<lambda>m. removed m + (if m_role m = ''system'' then cleaned m else 0)) ms) else 0);
          complexity_chars = (if harness_aware
            then sum_list (map (\<lambda>m. if m_role m = ''system'' then 0 else cleaned m) ms) else total_chars ms);
          base = complexity_of (word_count user) (fence_count user div 2) (max 1 (complexity_chars div 4))
      in \<lparr>pf_category = categorize user,
          pf_complexity = (if effort_escalation \<and> py_lower (py_strip (str_or effort '''')) = ''high''
                             \<and> base \<noteq> ''complex'' then ''complex'' else base),
          pf_tokens_est = int (max 1 (total_chars ms div 4)),
          pf_stripped_chars = stripped\<rparr>)"

section \<open>Agents\<close>

definition AGENT_CLIENT_IDS :: "pystr list" where
  "AGENT_CLIENT_IDS = [''cursor'', ''claude-code'', ''codex'']"

definition sniff_agent_client_id :: "pystr \<Rightarrow> pystr option" where
  "sniff_agent_client_id user_agent =
     (let ua = py_lower user_agent in
      if contains ua ''cursor'' then Some ''cursor''
      else if contains ua ''claude-code'' \<or> contains ua ''claude code'' then Some ''claude-code''
      else if contains ua ''codex'' then Some ''codex'' else None)"

definition is_classify_user_turn_agent :: "pystr option \<Rightarrow> pystr option \<Rightarrow> bool" where
  "is_classify_user_turn_agent user_agent client_id =
     (sniff_agent_client_id (str_or user_agent '''') \<noteq> None
      \<or> py_lower (py_strip (str_or client_id '''')) \<in> set AGENT_CLIENT_IDS)"

section \<open>Properties\<close>

definition covered :: "(nat \<times> nat) list \<Rightarrow> nat \<Rightarrow> bool" where
  "covered spans i = (\<exists>(a, b) \<in> set spans. a \<le> i \<and> i < b)"

text \<open>Blocks in order, apart from each other and inside the text.\<close>

fun apart :: "nat \<Rightarrow> nat \<Rightarrow> (nat \<times> nat) list \<Rightarrow> bool" where
  "apart n cursor [] = (cursor \<le> n)"
| "apart n cursor ((a, b) # xs) = (cursor \<le> a \<and> a \<le> b \<and> b \<le> n \<and> apart n b xs)"

lemma map_nth_upt: "b \<le> length xs \<Longrightarrow> map ((!) xs) [a ..< b] = take (b - a) (drop a xs)"
  by (rule nth_equalityI) auto

lemma apart_after: "apart n c xs \<Longrightarrow> covered xs i \<Longrightarrow> c \<le> i"
  by (induction n c xs rule: apart.induct) (fastforce simp: covered_def)+

lemma cut_spans_filter:
  "apart (length t) cursor xs \<Longrightarrow>
     cut_spans t cursor xs = map ((!) t) (filter (\<lambda>i. \<not> covered xs i) [cursor ..< length t])"
proof (induction t cursor xs rule: cut_spans.induct)
  case (1 t cursor)
  then show ?case by (simp add: covered_def map_nth_upt)
next
  case (2 t cursor s e xs)
  let ?P = "\<lambda>i. \<not> covered ((s, e) # xs) i"
  have b: "cursor \<le> s" "s \<le> e" "e \<le> length t" "apart (length t) e xs" using "2.prems" by auto
  have split: "[cursor ..< length t] = [cursor ..< s] @ [s ..< e] @ [e ..< length t]"
    using b upt_add_eq_append[of cursor s "length t - s"] upt_add_eq_append[of s e "length t - e"] by simp
  have "?P i" if "i < s" for i
    using apart_after[OF b(4), of i] b that by (auto simp: covered_def)
  then have "filter ?P [cursor ..< s] = [cursor ..< s]" by (simp add: filter_id_conv)
  moreover have "filter ?P [s ..< e] = []" by (auto simp: filter_empty_conv covered_def)
  moreover have "filter ?P [e ..< length t] = filter (\<lambda>i. \<not> covered xs i) [e ..< length t]"
    by (rule filter_cong) (auto simp: covered_def)
  ultimately show ?case using "2.IH"[OF b(4)] b map_nth_upt[of s t cursor] unfolding split by simp
qed

lemma merge_from_props:
  "sorted (map fst ((s, e) # xs)) \<Longrightarrow> \<forall>(a, b) \<in> set ((s, e) # xs). a \<le> b \<and> b \<le> n \<Longrightarrow> c \<le> s \<Longrightarrow>
     apart n c (merge_from (s, e) xs) \<and> (\<forall>i. covered (merge_from (s, e) xs) i = covered ((s, e) # xs) i)"
proof (induction xs arbitrary: s e c)
  case (Cons x xs)
  obtain a b where x: "x = (a, b)" by (cases x)
  show ?case
  proof (cases "a \<le> e")
    case True
    have "apart n c (merge_from (s, max e b) xs)
        \<and> (\<forall>i. covered (merge_from (s, max e b) xs) i = covered ((s, max e b) # xs) i)"
      by (rule Cons.IH) (use Cons.prems x in auto)
    then show ?thesis using True Cons.prems(1) by (auto simp: x covered_def)
  next
    case False
    have "apart n e (merge_from (a, b) xs) \<and> (\<forall>i. covered (merge_from (a, b) xs) i = covered ((a, b) # xs) i)"
      by (rule Cons.IH) (use Cons.prems x False in auto)
    then show ?thesis using False Cons.prems by (auto simp: x covered_def)
  qed
qed (auto simp: covered_def)

lemma merge_spans_props:
  assumes "\<forall>(a, b) \<in> set spans. a \<le> b \<and> b \<le> n"
  shows "apart n 0 (merge_spans spans) \<and> (\<forall>i. covered (merge_spans spans) i = covered spans i)"
proof (cases "sort spans")
  case Nil
  then have "spans = []" by (metis set_empty2 set_sort)
  then show ?thesis by (simp add: merge_spans_def)
next
  case (Cons x xs)
  obtain s e where x: "x = (s, e)" by (cases x)
  have set: "set ((s, e) # xs) = set spans" using Cons x by (metis set_sort)
  have "sorted ((s, e) # xs)" using Cons x by (metis sorted_sort)
  then have "sorted (map fst ((s, e) # xs))"
    unfolding sorted_map by (rule sorted_wrt_mono_rel[rotated]) (auto simp: less_eq_prod_def)
  moreover have "\<forall>(a, b) \<in> set ((s, e) # xs). a \<le> b \<and> b \<le> n" using assms unfolding set .
  ultimately have m: "apart n 0 (merge_from (s, e) xs)"
      "\<And>i. covered (merge_from (s, e) xs) i = covered ((s, e) # xs) i"
    using merge_from_props[of s e xs n 0] by blast+
  have "merge_spans spans = merge_from (s, e) xs" using Cons x by (simp add: merge_spans_def)
  moreover have "covered ((s, e) # xs) i = covered spans i" for i unfolding covered_def set ..
  ultimately show ?thesis using m by simp
qed

text \<open>
  Cutting an agent harness's blocks out of a prompt removes exactly the characters that lie
  inside some complete block, however blocks of different markers overlap or nest, keeps every
  other character in order, and reports how many it removed.
\<close>
theorem harness_blocks_are_cut_exactly:
  "fst (strip_harness_text text)
     = map ((!) text) (filter (\<lambda>i. \<not> covered (harness_spans text) i) [0 ..< length text])
   \<and> snd (strip_harness_text text)
     = length (filter (\<lambda>i. covered (harness_spans text) i) [0 ..< length text])"
proof (cases "harness_spans text = []")
  case True
  then show ?thesis by (simp add: strip_harness_text_def covered_def map_nth)
next
  case False
  have nonempty: "text \<noteq> []"
    using False by (auto simp: harness_spans_def HARNESS_MARKER_PAIRS_def block_spans.simps)
  have "\<forall>(a, b) \<in> set (harness_spans text). a \<le> b \<and> b \<le> length text"
    by (auto simp: harness_spans_def dest!: block_spans_bounds)
  then have m: "apart (length text) 0 (merge_spans (harness_spans text))"
      "\<And>i. covered (merge_spans (harness_spans text)) i = covered (harness_spans text) i"
    using merge_spans_props by blast+
  have cut: "fst (strip_harness_text text)
      = map ((!) text) (filter (\<lambda>i. \<not> covered (harness_spans text) i) [0 ..< length text])"
    using cut_spans_filter[OF m(1)] m(2) nonempty False by (simp add: strip_harness_text_def Let_def)
  have "snd (strip_harness_text text) = length text - length (fst (strip_harness_text text))"
    using nonempty False by (simp add: strip_harness_text_def Let_def)
  also have "\<dots> = length (filter (\<lambda>i. covered (harness_spans text) i) [0 ..< length text])"
    using sum_length_filter_compl[of "covered (harness_spans text)" "[0 ..< length text]"] unfolding cut by simp
  finally show ?thesis using cut by blast
qed

lemma categorize_known: "categorize text \<in> set CATEGORIES"
  by (simp add: categorize_def CATEGORIES_def Let_def)

end
