(* ===== verification/TierChoice.thy ===== *)
theory TierChoice
  imports FrontierFence PromptProfile SessionAffinity
begin

text \<open>
  The local tier a request starts on (\<open>daari/router/router.py\<close>, \<open>_choose_initial_tier\<close> and the steps
  it composes; \<open>preview_initial_tier\<close>, which answers the same question for a dry run).

  Replaying a session pin reads the pin store and asks the pool's breakers, so the choice
  returns both updated. Stored model latencies and the metrics snapshot are arguments.
\<close>

section \<open>Configuration\<close>

record category_policy =
  cp_tier :: "pystr option"
  cp_latency_budget :: "int option"
  cp_cache :: pystr
  cp_ttl :: "pyfloat option"

record ttft_stats =
  tt_count :: int
  tt_buckets :: "(pyfloat \<times> int) list"
  tt_overflow :: int                       \<comment> \<open>the +Inf bucket\<close>

record tier_config =
  tc_fence :: fence_config
  tc_phase_routing :: bool
  tc_phase_window :: int
  tc_phase_map :: "phase \<Rightarrow> phase_step"
  tc_context_windows :: "(pystr \<times> int) list"
  tc_context_escalation :: bool
  tc_context_buffer :: pyfloat
  tc_stall_escalation :: bool
  tc_stall_repeats :: int
  tc_stall_window :: int
  tc_warm_models :: "pystr list"
  tc_tracker :: "pystr list option"
  tc_latency :: "(pystr \<Rightarrow> pyfloat option) option"
  tc_latency_budget :: int
  tc_ttft_aware :: bool
  tc_ttft :: "(pystr \<times> ttft_stats) list"
  tc_ttft_min_samples :: int
  tc_ttft_percentile :: pyfloat
  tc_preference :: pystr
  tc_weights :: "(pystr \<times> pyfloat option \<times> pyfloat option) list"   \<comment> \<open>latency, accuracy\<close>
  tc_policies :: "(pystr \<times> category_policy) list"
  tc_effort_escalation :: bool
  tc_harness_aware :: bool
  tc_session_affinity :: bool

section \<open>The uncapped choice\<close>

definition policy_for :: "tier_config \<Rightarrow> prompt_profile \<Rightarrow> category_policy option" where
  "policy_for c pf = map_of (tc_policies c) (pf_category pf)"

definition last_user_text :: "message list \<Rightarrow> pystr" where
  "last_user_text ms = (if ms = [] then ''''
     else (case filter (\<lambda>m. m_role m = ''user'') (rev ms) of
         m # _ \<Rightarrow> content_or_empty m | [] \<Rightarrow> content_or_empty (last ms)))"

definition weight_of :: "tier_config \<Rightarrow> pystr \<Rightarrow> pyfloat \<Rightarrow> pyfloat \<Rightarrow> pyfloat \<times> pyfloat" where
  "weight_of c name lat acc = (case map_of (tc_weights c) name of None \<Rightarrow> (lat, acc)
     | Some (l, a) \<Rightarrow> (case l of None \<Rightarrow> 0 | Some x \<Rightarrow> x, case a of None \<Rightarrow> 0 | Some x \<Rightarrow> x))"

definition blend :: "pystr \<Rightarrow> pyfloat \<times> pyfloat \<Rightarrow> pyfloat" where
  "blend preference w = (if preference = ''latency'' then fst w else if preference = ''accuracy'' then snd w
     else 1 / 2 * fst w + 1 / 2 * snd w)"

text \<open>\<open>max(scores, key=scores.get)\<close>: the first of the best.\<close>

fun first_best :: "(pystr \<Rightarrow> pyfloat) \<Rightarrow> pystr \<Rightarrow> pystr list \<Rightarrow> pystr" where
  "first_best f best [] = best"
| "first_best f best (t # ts) = first_best f (if f t > f best then t else best) ts"

definition WARM_BONUS :: pyfloat where "WARM_BONUS = 1 / 1000"

definition warm_set :: "tier_config \<Rightarrow> pystr list" where
  "warm_set c = tc_warm_models c @ (case tc_tracker c of None \<Rightarrow> [] | Some w \<Rightarrow> w)"

definition pick_with_warm_preference :: "tier_config \<Rightarrow> (pystr \<Rightarrow> pyfloat) \<Rightarrow> pystr" where
  "pick_with_warm_preference c scores =
     (if warm_set c \<noteq> []
      then first_best (\<lambda>t. scores t + (if tier_model (tc_fence c) t \<in> set (warm_set c) then WARM_BONUS else 0))
             ''L3'' [''L4'', ''L5'']
      else first_best scores ''L3'' [''L4'', ''L5''])"

definition tier_scores :: "tier_config \<Rightarrow> pystr \<Rightarrow> pyfloat" where
  "tier_scores c t = blend (tc_preference c)
     (if t = ''L4'' then weight_of c (fc_l4 (tc_fence c)) (1 / 2) (4 / 5)
      else if t = ''L5'' then weight_of c (fc_l5 (tc_fence c)) (1 / 5) (19 / 20)
      else weight_of c (fc_l3 (tc_fence c)) (4 / 5) (3 / 5))"

definition choose_by_words :: "tier_config \<Rightarrow> internal_request \<Rightarrow> nat \<Rightarrow> pystr" where
  "choose_by_words c q words =
     (if words > 900 \<and> tc_preference c = ''accuracy'' then ''L5''
      else if words > 250 then ''L4''
      else (let chosen = (if words \<le> 12 then ''L3'' else pick_with_warm_preference c (tier_scores c))
            in if tc_effort_escalation c \<and> py_lower (str_or (q_effort q) '''') = ''high'' \<and> chosen = ''L3''
               then ''L4'' else chosen))"

definition choose_uncapped_tier :: "tier_config \<Rightarrow> internal_request \<Rightarrow> prompt_profile \<Rightarrow> pystr" where
  "choose_uncapped_tier c q pf =
     (let policy_tier = (case policy_for c pf of None \<Rightarrow> '''' | Some p \<Rightarrow> str_or (cp_tier p) '''');
          decision_tier = upper_ascii (str_or (q_decision_tier q) '''');
          raw = last_user_text (q_messages q);
          words = word_count (if tc_harness_aware c then fst (strip_harness_text raw) else raw)
      in if policy_tier \<in> set TIER_LADDER then policy_tier
         else if decision_tier \<in> set TIER_LADDER then decision_tier
         else choose_by_words c q words)"

section \<open>Adjustments\<close>

definition apply_phase_routing :: "json_lib \<Rightarrow> tier_config \<Rightarrow> internal_request \<Rightarrow> pystr \<Rightarrow> pystr" where
  "apply_phase_routing jl c q tier =
     (if \<not> tc_phase_routing c \<or> tier \<notin> set TIER_LADDER then tier
      else if \<not> agent_turn q then tier
      else (case classify_phase jl (tc_phase_window c) (q_messages q) of
              None \<Rightarrow> tier | Some m \<Rightarrow> adjust_tier tier (tc_phase_map c (pm_phase m))))"

text \<open>True or False when the tier's window is known.\<close>

definition context_window_fits :: "tier_config \<Rightarrow> pystr \<Rightarrow> int \<Rightarrow> bool option" where
  "context_window_fits c tier estimated =
     (let window = (case map_of (tc_context_windows c) tier of None \<Rightarrow> 0 | Some w \<Rightarrow> w);
          buffer = (if tc_context_buffer c > 0 then tc_context_buffer c else 1)
      in if window \<le> 0 then None else Some (estimated \<le> py_trunc (rat_of_int window * buffer)))"

fun context_walk :: "(pystr \<Rightarrow> bool option) \<Rightarrow> pystr \<Rightarrow> pystr \<Rightarrow> pystr list \<Rightarrow> pystr" where
  "context_walk fits tier chosen [] = chosen"
| "context_walk fits tier chosen (t # ts) =
     (case fits t of None \<Rightarrow> tier
      | Some ok \<Rightarrow> (if ok then t else context_walk fits tier t ts))"

definition apply_context_window_escalation :: "tier_config \<Rightarrow> prompt_profile \<Rightarrow> pystr \<Rightarrow> pystr" where
  "apply_context_window_escalation c pf tier =
     (let fits = (\<lambda>t. context_window_fits c t (pf_tokens_est pf)) in
      if \<not> tc_context_escalation c \<or> tier \<notin> set TIER_LADDER \<or> pf_tokens_est pf \<le> 0 \<or> fits tier \<noteq> Some False then tier
      else context_walk fits tier tier (drop (Suc (tier_rank tier)) TIER_LADDER))"

definition apply_stall_escalation :: "json_lib \<Rightarrow> tier_config \<Rightarrow> internal_request \<Rightarrow> pystr \<Rightarrow> pystr" where
  "apply_stall_escalation jl c q tier =
     (if \<not> tc_stall_escalation c \<or> tier \<notin> set TIER_LADDER then tier
      else if detect_stall jl (tc_stall_repeats c) (tc_stall_window c) (q_messages q) = None then tier
      else (case bump_tier tier (frontier_reachable (tc_fence c) q) of None \<Rightarrow> tier
        | Some nxt \<Rightarrow>
            (if nxt = tier then tier
             else (case effective_tier_cap (tc_fence c) q of None \<Rightarrow> nxt
               | Some cap \<Rightarrow> (if nxt = ''L6'' \<or> nxt \<in> set TIER_LADDER \<and> tier_rank nxt > tier_rank cap
                            then tier else nxt)))))"

definition policy_budget_or :: "tier_config \<Rightarrow> prompt_profile \<Rightarrow> int" where
  "policy_budget_or c pf = (case policy_for c pf of None \<Rightarrow> tc_latency_budget c
     | Some p \<Rightarrow> (case cp_latency_budget p of None \<Rightarrow> tc_latency_budget c
         | Some b \<Rightarrow> (if b > 0 then b else tc_latency_budget c)))"

definition effective_latency_budget :: "tier_config \<Rightarrow> internal_request \<Rightarrow> prompt_profile \<Rightarrow> int" where
  "effective_latency_budget c q pf =
     (case q_latency_budget q of
        Some b \<Rightarrow> (if b > 0 then b else policy_budget_or c pf)
      | None \<Rightarrow> policy_budget_or c pf)"

text \<open>Every caller passes a local tier; \<open>list.index\<close> would raise on another.\<close>

definition apply_latency_budget :: "tier_config \<Rightarrow> internal_request \<Rightarrow> prompt_profile \<Rightarrow> pystr \<Rightarrow> pystr" where
  "apply_latency_budget c q pf tier =
     (case tc_latency c of None \<Rightarrow> tier
      | Some latency_for \<Rightarrow>
          (let budget = rat_of_int (effective_latency_budget c q pf);
               expected = (\<lambda>t. latency_for (executor_model (tc_fence c) t));
               fits = (\<lambda>t. case expected t of None \<Rightarrow> True | Some ms \<Rightarrow> ms \<le> budget)
           in if budget \<le> 0 \<or> fits tier then tier
              else (case filter fits (rev (take (tier_rank tier) TIER_LADDER)) of [] \<Rightarrow> tier | t # _ \<Rightarrow> t)))"

definition TTFT_BUCKETS_MS :: "pyfloat list" where
  "TTFT_BUCKETS_MS = [5, 25, 50, 100, 250, 500, 1000, 2500, 5000, 10000]"

text \<open>A percentile is a bucket bound, or past every bound (infinity).\<close>

datatype percentile = AtMost pyfloat | Infinite

fun percentile_less :: "percentile \<Rightarrow> percentile \<Rightarrow> bool" where
  "percentile_less (AtMost a) (AtMost b) = (a < b)"
| "percentile_less (AtMost a) Infinite = True"
| "percentile_less Infinite b = False"

fun bucket_walk :: "(pyfloat \<times> int) list \<Rightarrow> int \<Rightarrow> int \<Rightarrow> pyfloat list \<Rightarrow> pyfloat option \<times> int" where
  "bucket_walk buckets target cumulative [] = (None, cumulative)"
| "bucket_walk buckets target cumulative (b # bs) =
     (let cum = cumulative + (case map_of buckets b of None \<Rightarrow> 0 | Some n \<Rightarrow> n) in
      if cum \<ge> target then (Some b, cum) else bucket_walk buckets target cum bs)"

definition histogram_percentile_ms :: "ttft_stats \<Rightarrow> pyfloat \<Rightarrow> percentile option" where
  "histogram_percentile_ms s p =
     (if tt_count s \<le> 0 then None
      else (let mark = max 0 (min 1 p);
                target = max 1 \<lceil>mark * rat_of_int (tt_count s)\<rceil>
            in case bucket_walk (tt_buckets s) target 0 TTFT_BUCKETS_MS of
                 (Some b, _) \<Rightarrow> Some (AtMost b)
               | (None, cumulative) \<Rightarrow> (if tt_overflow s > 0 then Some Infinite
                   else if cumulative \<noteq> 0 then Some (AtMost (last TTFT_BUCKETS_MS)) else None)))"

text \<open>\<open>min(scored)\<close> by value; the candidates come in tier order, so ties keep the first.\<close>

fun best_scored :: "(percentile \<times> pystr) list \<Rightarrow> (percentile \<times> pystr) option" where
  "best_scored [] = None"
| "best_scored (x # xs) = (case best_scored xs of None \<Rightarrow> Some x
     | Some y \<Rightarrow> (if percentile_less (fst y) (fst x) then Some y else Some x))"

definition apply_ttft_preference :: "tier_config \<Rightarrow> pystr \<Rightarrow> pystr" where
  "apply_ttft_preference c tier =
     (if \<not> tc_ttft_aware c \<or> tier \<notin> set TIER_LADDER then tier
      else (let scored = concat (map (\<lambda>t. case map_of (tc_ttft c) t of None \<Rightarrow> []
                  | Some s \<Rightarrow> (if tt_count s < tc_ttft_min_samples c then []
                      else (case histogram_percentile_ms s (tc_ttft_percentile c) of None \<Rightarrow> [] | Some v \<Rightarrow> [(v, t)])))
                (take (Suc (tier_rank tier)) TIER_LADDER))
            in case best_scored scored of None \<Rightarrow> tier | Some (v, t) \<Rightarrow> t))"

definition nitro_tier :: "tier_config \<Rightarrow> local_pool option \<Rightarrow> internal_request \<Rightarrow> pystr list + pystr" where
  "nitro_tier c pool q = map_sum id (\<lambda>capable.
     if capable = [] then ''L3''
     else (case filter (\<lambda>t. executor_model (tc_fence c) t \<in> set (warm_set c)) capable of
             t # _ \<Rightarrow> t | [] \<Rightarrow> hd capable))
     (filter_capable_tiers (tc_fence c) pool TIER_LADDER q)"

section \<open>Session pins\<close>

record router_state =
  rs_pool :: "local_pool option"
  rs_pins :: "session_pin pin_store"

text \<open>What the outside answers while a pin is replayed: the digest of the prefix rows, the Redis
  reply, the clock, and the breakers' reads in the two passes over the pool.\<close>

record pin_env =
  pn_digest :: "(pystr \<times> pystr) list \<Rightarrow> pystr"
  pn_reply :: "session_pin redis_get"
  pn_now :: pyfloat
  pn_gate :: "nat \<Rightarrow> breaker_env"
  pn_scan :: "nat \<Rightarrow> breaker_env"

text \<open>\<open>all(not slot.breaker.allow() ...)\<close>: stops at the first that allows.\<close>

fun none_allows :: "(nat \<Rightarrow> breaker_env) \<Rightarrow> nat \<Rightarrow> (bool \<times> breaker) list \<Rightarrow> bool \<times> breaker list" where
  "none_allows env i [] = (True, [])"
| "none_allows env i ((wanted, b) # xs) =
     (if \<not> wanted then (case none_allows env (Suc i) xs of (r, bs) \<Rightarrow> (r, b # bs))
      else (case breaker_allow (env i) b of (ok, b', _) \<Rightarrow>
        (if ok then (False, b' # map snd xs)
         else (case none_allows env (Suc i) xs of (r, bs) \<Rightarrow> (r, b' # bs)))))"

definition pinned_tier_available ::
    "tier_config \<Rightarrow> pin_env \<Rightarrow> pystr \<Rightarrow> local_pool option \<Rightarrow> (bool \<times> pystr option) \<times> local_pool option" where
  "pinned_tier_available c env tier pool =
     (if tier = ''L6'' then
        ((if fc_frontier (tc_fence c) = None then (False, Some ''unavailable'') else (True, None)), pool)
      else (case pool of None \<Rightarrow> ((True, None), pool)
        | Some p \<Rightarrow>
            (if slots_for tier p = [] then ((True, None), pool)
             else (case none_allows (pn_gate env) 0 (map (\<lambda>s. (tier \<in> set (sl_tiers s), sl_breaker s)) (lp_slots p)) of
               (refused, bs) \<Rightarrow>
                 (let p1 = p\<lparr>lp_slots := map2 set_breaker (lp_slots p) bs\<rparr> in
                  if refused then ((False, Some ''circuit_open''), Some p1)
                  else (case eligible (pn_scan env) tier (tc_warm_models c) p1 of (is, p2, _) \<Rightarrow>
                    ((if is = [] then (False, Some ''unavailable'') else (True, None)), Some p2)))))))"

definition pin_session_key :: "pin_env \<Rightarrow> internal_request \<Rightarrow> pystr" where
  "pin_session_key env q =
     session_key (q_session_id q) (q_user q) (conversation_prefix_hash (pn_digest env) (q_messages q))"

definition session_pin_tier ::
    "tier_config \<Rightarrow> pin_env \<Rightarrow> internal_request \<Rightarrow> router_state \<Rightarrow> pystr option \<times> router_state" where
  "session_pin_tier c env q st =
     (if \<not> tc_session_affinity c then (None, st)
      else (case session_get (pn_reply env) (pn_now env) (pin_session_key env q) (rs_pins st) of (pin, pins) \<Rightarrow>
        (let st1 = st\<lparr>rs_pins := pins\<rparr> in
         case pin of None \<Rightarrow> (None, st1)
         | Some p \<Rightarrow>
             (if \<not> is_continuation (pn_digest env) (q_messages q) (Some p) then (None, st1)
              else (case pinned_tier_available c env (sp_tier p) (rs_pool st1) of ((available, reason), pool) \<Rightarrow>
                (let st2 = st1\<lparr>rs_pool := pool\<rparr>;
                     fenced = cloud_block_reason (tc_fence c) q \<noteq> None
                       \<and> \<not> tier_has_non_cloud_host (tc_fence c) pool (sp_tier p)
                 in if \<not> available \<or> fenced then (None, st2)
                    else (Some (cap_tier (sp_tier p) (effective_tier_cap (tc_fence c) q)), st2)))))))"

section \<open>The choice\<close>

definition capable_first ::
    "tier_config \<Rightarrow> local_pool option \<Rightarrow> internal_request \<Rightarrow> pystr \<Rightarrow> pystr list + pystr" where
  "capable_first c pool q tier = map_sum id (\<lambda>ts. case ts of [] \<Rightarrow> tier | t # _ \<Rightarrow> t)
     (filter_capable_tiers (tc_fence c) pool [tier, ''L5'', ''L4'', ''L3''] q)"

definition choose_initial_tier ::
    "json_lib \<Rightarrow> tier_config \<Rightarrow> pin_env \<Rightarrow> internal_request \<Rightarrow> prompt_profile \<Rightarrow> router_state
     \<Rightarrow> (pystr list + pystr) \<times> router_state" where
  "choose_initial_tier jl c env q pf st =
     (let cap = effective_tier_cap (tc_fence c) q; override = upper_ascii (str_or (q_tier_override q) '''') in
      if local_model_alias (q_model q) = Some ''floor'' then
        (map_sum id (\<lambda>ts. case ts of [] \<Rightarrow> ''L3'' | t # _ \<Rightarrow> t)
           (filter_capable_tiers (tc_fence c) (rs_pool st) TIER_LADDER q), st)
      else if local_model_alias (q_model q) = Some ''nitro'' then (nitro_tier c (rs_pool st) q, st)
      else if override \<in> set TIER_LADDER then (capable_first c (rs_pool st) q override, st)
      else (case session_pin_tier c env q st of
          (Some pinned, st1) \<Rightarrow>
            (map_sum id (\<lambda>t. cap_tier (apply_context_window_escalation c pf t) cap)
               (capable_first c (rs_pool st1) q pinned), st1)
        | (None, st1) \<Rightarrow>
            (let tier = choose_uncapped_tier c q pf;
                 tier = apply_phase_routing jl c q tier;
                 tier = cap_tier tier cap;
                 tier = apply_latency_budget c q pf tier;
                 tier = apply_ttft_preference c tier
             in (map_sum id (\<lambda>t. cap_tier (apply_context_window_escalation c pf (apply_stall_escalation jl c q t)) cap)
                   (capable_first c (rs_pool st1) q tier), st1))))"

text \<open>The dry run: the tier, and which step moved it.\<close>

record preview =
  pv_tier :: pystr
  pv_heuristic :: pystr
  pv_phase :: "pystr option"
  pv_latency :: "pystr option"
  pv_ttft :: "pystr option"

definition plain_preview :: "pystr \<Rightarrow> pystr \<Rightarrow> preview" where
  "plain_preview tier heuristic =
     \<lparr>pv_tier = tier, pv_heuristic = heuristic, pv_phase = None, pv_latency = None, pv_ttft = None\<rparr>"

definition preview_initial_tier ::
    "json_lib \<Rightarrow> tier_config \<Rightarrow> pin_env \<Rightarrow> internal_request \<Rightarrow> router_state
     \<Rightarrow> (pystr list + preview) \<times> router_state" where
  "preview_initial_tier jl c env q st =
     (let pf = build_prompt_profile (tc_effort_escalation c) (tc_harness_aware c) (q_effort q) (q_messages q);
          alias = local_model_alias (q_model q);
          override = upper_ascii (str_or (q_tier_override q) '''')
      in if alias = Some ''floor'' then
           (map_sum id (\<lambda>capable. (let chosen = (if capable \<noteq> [] then hd capable else ''L3'') in plain_preview chosen chosen))
              (filter_capable_tiers (tc_fence c) (rs_pool st) TIER_LADDER q), st)
         else if alias = Some ''nitro'' then (map_sum id (\<lambda>t. plain_preview t t) (nitro_tier c (rs_pool st) q), st)
         else if override \<in> set TIER_LADDER then
           (map_sum id (\<lambda>t. plain_preview t t) (capable_first c (rs_pool st) q override), st)
         else (case session_pin_tier c env q st of
             (Some pinned, st1) \<Rightarrow>
               (map_sum id (\<lambda>chosen.
                    plain_preview (cap_tier (apply_context_window_escalation c pf chosen) (effective_tier_cap (tc_fence c) q)) pinned)
                  (capable_first c (rs_pool st1) q pinned), st1)
           | (None, st1) \<Rightarrow>
               (let heuristic = choose_uncapped_tier c q pf;
                    after_phase = apply_phase_routing jl c q heuristic;
                    after_cap = cap_tier after_phase (effective_tier_cap (tc_fence c) q);
                    after_budget = apply_latency_budget c q pf after_cap;
                    after_ttft = apply_ttft_preference c after_budget
                in (map_sum id (\<lambda>chosen.
                      \<lparr>pv_tier = cap_tier (apply_context_window_escalation c pf (apply_stall_escalation jl c q chosen))
                                   (effective_tier_cap (tc_fence c) q),
                       pv_heuristic = heuristic,
                       pv_phase = (if after_phase \<noteq> heuristic then Some after_phase else None),
                       pv_latency = (if after_budget \<noteq> after_cap then Some after_budget else None),
                       pv_ttft = (if after_ttft \<noteq> after_budget then Some after_ttft else None)\<rparr>)
                      (capable_first c (rs_pool st1) q after_ttft), st1))))"

section \<open>Properties\<close>

lemma ladder_drop [simp]:
  "drop (Suc 0) TIER_LADDER = [''L4'', ''L5'']" "drop (Suc (Suc 0)) TIER_LADDER = [''L5'']" "drop 2 TIER_LADDER = [''L5'']"
  "drop 3 TIER_LADDER = []"
  by (simp_all add: TIER_LADDER_def)

lemma ladder_take [simp]:
  "take (Suc 0) TIER_LADDER = [''L3'']" "take (Suc (Suc 0)) TIER_LADDER = [''L3'', ''L4'']"
  "take 2 TIER_LADDER = [''L3'', ''L4'']" "take 3 TIER_LADDER = [''L3'', ''L4'', ''L5'']"
  by (simp_all add: TIER_LADDER_def)

lemma map_sum_comp: "map_sum id f (map_sum id g x) = map_sum id (f \<circ> g) x"
  by (cases x) simp_all

text \<open>
  The dry run answers what the router would do: for the same request, configuration, pins
  and backends, the tier it reports is the tier a request profiled the same way starts on, it
  refuses exactly when the router refuses, and it leaves the pins and breakers as the router does.
\<close>
theorem preview_agrees_with_the_choice:
  "choose_initial_tier jl c env q
       (build_prompt_profile (tc_effort_escalation c) (tc_harness_aware c) (q_effort q) (q_messages q)) st
     = map_prod (map_sum id pv_tier) id (preview_initial_tier jl c env q st)"
proof -
  have hd: "(\<lambda>ts. case ts of [] \<Rightarrow> ''L3'' | t # _ \<Rightarrow> t) = (\<lambda>ts. if ts \<noteq> [] then hd ts else ''L3'')"
    by (rule ext) (simp split: list.split)
  have ident: "map_sum id (\<lambda>x. x) s = s" for s :: "pystr list + pystr" by (cases s) simp_all
  show ?thesis
    unfolding choose_initial_tier_def preview_initial_tier_def Let_def hd
    by (simp add: map_sum_comp plain_preview_def comp_def ident split: prod.split option.split)
qed

lemma ball_ladder: "(\<forall>u \<in> set TIER_LADDER. P u) \<longleftrightarrow> P ''L3'' \<and> P ''L4'' \<and> P ''L5''"
  by (simp add: TIER_LADDER_def)

lemma tier_names [simp]:
  "(''L3'' = ''L4'') = False" "(''L4'' = ''L3'') = False" "(''L3'' = ''L5'') = False" "(''L5'' = ''L3'') = False"
  "(''L4'' = ''L5'') = False" "(''L5'' = ''L4'') = False" "''L3'' \<in> set TIER_LADDER" "''L4'' \<in> set TIER_LADDER"
  "''L5'' \<in> set TIER_LADDER"
  by (simp_all add: TIER_LADDER_def)

lemma context_walks:
  "context_walk fits ''L3'' ''L3'' [''L4'', ''L5''] = (case fits ''L4'' of None \<Rightarrow> ''L3''
     | Some ok \<Rightarrow> (if ok then ''L4'' else (case fits ''L5'' of None \<Rightarrow> ''L3'' | Some _ \<Rightarrow> ''L5'')))"
  "context_walk fits ''L4'' ''L4'' [''L5''] = (case fits ''L5'' of None \<Rightarrow> ''L4'' | Some _ \<Rightarrow> ''L5'')"
  "context_walk fits ''L5'' ''L5'' [] = ''L5''"
  by (simp_all split: option.split)

text \<open>
  Escalating for the context window starts a long prompt on the smallest local tier known to
  hold it: a tier is left only when the prompt does not fit its window, every tier passed over
  does not fit either, and the tier chosen holds the prompt or is the largest; a tier of unknown
  window on the way stops the search where it began.
\<close>
theorem context_escalation_takes_smallest_fitting:
  assumes "tier \<in> set TIER_LADDER"
  shows "(let t = apply_context_window_escalation c pf tier; fits = (\<lambda>u. context_window_fits c u (pf_tokens_est pf)) in
     t \<in> set TIER_LADDER \<and> tier_rank tier \<le> tier_rank t
     \<and> (t \<noteq> tier \<longrightarrow> tc_context_escalation c \<and> fits tier = Some False
          \<and> (\<forall>u \<in> set TIER_LADDER. tier_rank tier < tier_rank u \<and> tier_rank u < tier_rank t \<longrightarrow> fits u = Some False)
          \<and> (fits t = Some True \<or> t = ''L5'' \<and> fits t = Some False))
     \<and> (tc_context_escalation c \<and> pf_tokens_est pf > 0 \<and> fits tier = Some False \<and> tier \<noteq> ''L5''
          \<and> (\<forall>u \<in> set TIER_LADDER. fits u \<noteq> None) \<longrightarrow> t \<noteq> tier))"
proof -
  define fits where "fits = (\<lambda>u. context_window_fits c u (pf_tokens_est pf))"
  have eq: "apply_context_window_escalation c pf tier =
      (if \<not> tc_context_escalation c \<or> tier \<notin> set TIER_LADDER \<or> pf_tokens_est pf \<le> 0 \<or> fits tier \<noteq> Some False then tier
       else context_walk fits tier tier (drop (Suc (tier_rank tier)) TIER_LADDER))"
    by (simp add: apply_context_window_escalation_def fits_def Let_def)
  have cases: "tier = ''L3'' \<or> tier = ''L4'' \<or> tier = ''L5''" using assms by (simp add: ladder_iff)
  from cases show ?thesis
  proof (elim disjE)
    assume t: "tier = ''L3''"
    show ?thesis unfolding Let_def fits_def[symmetric] t eq[unfolded t] ball_ladder
      by (cases "fits ''L4''"; cases "fits ''L5''") (simp_all add: context_walks)
  next
    assume t: "tier = ''L4''"
    show ?thesis unfolding Let_def fits_def[symmetric] t eq[unfolded t] ball_ladder
      by (cases "fits ''L5''") (simp_all add: context_walks)
  next
    assume t: "tier = ''L5''"
    show ?thesis unfolding Let_def fits_def[symmetric] t eq[unfolded t] ball_ladder by (simp add: context_walks)
  qed
qed

definition demo_fence :: fence_config where
  "demo_fence = \<lparr>fc_l3 = ''small'', fc_l4 = ''medium'', fc_l5 = ''large'',
     fc_catalog = Some \<lparr>cat_models = [(''small'', [''tools'', ''vision'']), (''medium'', [''tools'']), (''large'', [''tools''])],
                        cat_default = []\<rparr>,
     fc_max_tier = None, fc_frontier_enabled = False, fc_frontier = None, fc_daily_budget = 0,
     fc_monthly_budget = 0, fc_soft_ratio = 4 / 5\<rparr>"

definition demo_tiers :: tier_config where
  "demo_tiers = \<lparr>tc_fence = demo_fence, tc_phase_routing = False, tc_phase_window = 6, tc_phase_map = default_phase_map,
     tc_context_windows = [(''L3'', 4), (''L4'', 8), (''L5'', 64)], tc_context_escalation = True, tc_context_buffer = 1,
     tc_stall_escalation = False, tc_stall_repeats = 3, tc_stall_window = 6, tc_warm_models = [], tc_tracker = None,
     tc_latency = None, tc_latency_budget = 0, tc_ttft_aware = False, tc_ttft = [], tc_ttft_min_samples = 5,
     tc_ttft_percentile = 1 / 2, tc_preference = ''balanced'', tc_weights = [], tc_policies = [],
     tc_effort_escalation = False, tc_harness_aware = False, tc_session_affinity = False\<rparr>"

definition demo_profile :: "int \<Rightarrow> prompt_profile" where
  "demo_profile n = \<lparr>pf_category = ''chat'', pf_complexity = ''standard'', pf_tokens_est = n, pf_stripped_chars = 0\<rparr>"

lemma demo_escalation: "apply_context_window_escalation demo_tiers (demo_profile 6) ''L3'' = ''L4''"
  by code_simp

lemma context_escalation_takes_smallest_fitting_witness:
  "context_window_fits demo_tiers ''L4'' 6 = Some True \<and> context_window_fits demo_tiers ''L3'' 6 = Some False"
proof -
  have "''L3'' \<in> set TIER_LADDER" by simp
  from context_escalation_takes_smallest_fitting[OF this, of demo_tiers "demo_profile 6"]
  show ?thesis unfolding Let_def demo_escalation by (simp add: demo_profile_def)
qed

subsection \<open>Stepping down\<close>

lemma best_scored_member: "best_scored xs = Some x \<Longrightarrow> x \<in> set xs"
  by (induction xs arbitrary: x) (auto split: option.splits if_splits)

lemma take_ladder_rank:
  assumes "tier \<in> set TIER_LADDER"
  shows "t \<in> set (take (tier_rank tier) TIER_LADDER) \<longleftrightarrow> t \<in> set TIER_LADDER \<and> tier_rank t < tier_rank tier"
    and "t \<in> set (take (Suc (tier_rank tier)) TIER_LADDER) \<longleftrightarrow> t \<in> set TIER_LADDER \<and> tier_rank t \<le> tier_rank tier"
  using assms unfolding ladder_iff by (elim disjE; auto)+

lemma ttft_steps_down:
  assumes "tier \<in> set TIER_LADDER"
  shows "apply_ttft_preference c tier \<in> set TIER_LADDER \<and> tier_rank (apply_ttft_preference c tier) \<le> tier_rank tier"
proof -
  define scored where "scored = concat (map (\<lambda>t. case map_of (tc_ttft c) t of None \<Rightarrow> []
      | Some s \<Rightarrow> (if tt_count s < tc_ttft_min_samples c then []
          else (case histogram_percentile_ms s (tc_ttft_percentile c) of None \<Rightarrow> [] | Some v \<Rightarrow> [(v, t)])))
    (take (Suc (tier_rank tier)) TIER_LADDER))"
  have "snd x \<in> set (take (Suc (tier_rank tier)) TIER_LADDER)" if "x \<in> set scored" for x
    using that by (auto simp: scored_def split: option.splits if_splits)
  then have "snd x \<in> set TIER_LADDER \<and> tier_rank (snd x) \<le> tier_rank tier" if "best_scored scored = Some x" for x
    using best_scored_member[OF that] take_ladder_rank(2)[OF assms] by blast
  moreover have "apply_ttft_preference c tier = (if tc_ttft_aware c
      then (case best_scored scored of None \<Rightarrow> tier | Some x \<Rightarrow> snd x) else tier)"
    using assms by (simp add: apply_ttft_preference_def scored_def Let_def case_prod_unfold split: option.split)
  ultimately show ?thesis using assms by (auto split: option.splits)
qed

text \<open>
  Latency never pushes a request up: after the latency budget and the time-to-first-token
  preference the tier is local and no higher than before; and when the budget moves it, the
  tier left exceeded the budget, the tier taken is within it or unmeasured, and every tier
  between them exceeded it.
\<close>
theorem latency_only_steps_down:
  assumes "tier \<in> set TIER_LADDER"
  shows "(let t = apply_latency_budget c q pf tier; u = apply_ttft_preference c t in
     t \<in> set TIER_LADDER \<and> u \<in> set TIER_LADDER \<and> tier_rank u \<le> tier_rank t \<and> tier_rank t \<le> tier_rank tier
     \<and> (t \<noteq> tier \<longrightarrow> (\<exists>latency. tc_latency c = Some latency \<and>
          (let over = (\<lambda>v. \<exists>ms. latency (executor_model (tc_fence c) v) = Some ms
                         \<and> ms > rat_of_int (effective_latency_budget c q pf)) in
           over tier \<and> \<not> over t
           \<and> (\<forall>v \<in> set TIER_LADDER. tier_rank t < tier_rank v \<and> tier_rank v < tier_rank tier \<longrightarrow> over v)))))"
proof -
  let ?t = "apply_latency_budget c q pf tier"
  have t: "?t \<in> set TIER_LADDER \<and> tier_rank ?t \<le> tier_rank tier \<and> (?t \<noteq> tier \<longrightarrow> (\<exists>latency. tc_latency c = Some latency \<and>
          (let over = (\<lambda>v. \<exists>ms. latency (executor_model (tc_fence c) v) = Some ms
                         \<and> ms > rat_of_int (effective_latency_budget c q pf)) in
           over tier \<and> \<not> over ?t
           \<and> (\<forall>v \<in> set TIER_LADDER. tier_rank ?t < tier_rank v \<and> tier_rank v < tier_rank tier \<longrightarrow> over v))))"
  proof (cases "tc_latency c")
    case None
    then show ?thesis using assms by (simp add: apply_latency_budget_def)
  next
    case (Some latency)
    define fits where "fits = (\<lambda>v. case latency (executor_model (tc_fence c) v) of None \<Rightarrow> True
        | Some ms \<Rightarrow> ms \<le> rat_of_int (effective_latency_budget c q pf))"
    have over: "(\<exists>ms. latency (executor_model (tc_fence c) v) = Some ms
        \<and> ms > rat_of_int (effective_latency_budget c q pf)) \<longleftrightarrow> \<not> fits v" for v
      by (auto simp: fits_def split: option.split)
    have eq: "?t = (if rat_of_int (effective_latency_budget c q pf) \<le> 0 \<or> fits tier then tier
        else (case filter fits (rev (take (tier_rank tier) TIER_LADDER)) of [] \<Rightarrow> tier | t # _ \<Rightarrow> t))"
      by (simp add: apply_latency_budget_def Some fits_def Let_def)
    from assms[unfolded ladder_iff] show ?thesis
      unfolding eq Some option.inject simp_thms ex_simps over Let_def ball_ladder by (elim disjE) simp_all
  qed
  then show ?thesis using ttft_steps_down[of ?t c] unfolding Let_def by blast
qed

definition demo_slow :: tier_config where
  "demo_slow = demo_tiers\<lparr>tc_latency := Some (\<lambda>m. if m = ''large'' then Some 900 else if m = ''medium'' then Some 700 else None),
     tc_latency_budget := 500\<rparr>"

definition demo_request :: "message list \<Rightarrow> internal_request" where
  "demo_request ms = \<lparr>q_messages = ms, q_model = ''daari'', q_tools = [], q_json = False, q_effort = None,
     q_web_search = False, q_multi_agent = False, q_no_cache = False, q_no_frontier = False, q_tier_override = None,
     q_tier_cap = None, q_latency_budget = None, q_decision_tier = None, q_region_pin = None, q_key_models = None,
     q_team_models = None, q_session_id = None, q_user = None, q_user_agent = None, q_client_id = None,
     q_confirm_tool = False, q_rerun = False, q_tags = [], q_key_id = None, q_team_id = None,
     q_cache_scope = ''global'', q_key_rules = None, q_team_rules = None, q_temperature = ''None'',
     q_sampling_key = '''', q_speed = None, q_thread_key = ''''\<rparr>"

lemma latency_only_steps_down_witness:
  "apply_latency_budget demo_slow (demo_request []) (demo_profile 6) ''L5'' = ''L3''
   \<and> tier_rank ''L3'' \<le> tier_rank ''L5''"
proof -
  have m: "apply_latency_budget demo_slow (demo_request []) (demo_profile 6) ''L5'' = ''L3''" by code_simp
  have "''L5'' \<in> set TIER_LADDER" by simp
  from latency_only_steps_down[OF this, of demo_slow "demo_request []" "demo_profile 6"] m
  show ?thesis unfolding Let_def by simp
qed

subsection \<open>Capabilities\<close>

definition slot_offer :: "slot \<Rightarrow> pystr \<times> pystr \<times> pystr list" where
  "slot_offer s = (sl_kind s, sl_model s, sl_tiers s)"

lemma offers_set_breakers:
  "length bs = length ss \<Longrightarrow> map slot_offer (map2 set_breaker ss bs) = map slot_offer ss"
  by (induction bs ss rule: list_induct2) (simp_all add: slot_offer_def set_breaker_def)

lemma pool_extra_offers:
  "pool_extra_models (Some p) tier = concat (map (\<lambda>(k, m, ts).
     if k = ''openai'' \<and> m \<noteq> '''' then map (\<lambda>_. m) (filter ((=) tier) ts) else []) (map slot_offer (lp_slots p)))"
  by (simp add: pool_extra_models_def slot_offer_def comp_def)

lemma none_allows_length: "length (snd (none_allows env i xs)) = length xs"
  by (induction env i xs rule: none_allows.induct) (auto split: prod.splits)

lemma pinned_available_offers:
  "pinned_tier_available c env tier pool = (a, pool') \<Longrightarrow> pool_extra_models pool' = pool_extra_models pool"
proof -
  assume r: "pinned_tier_available c env tier pool = (a, pool')"
  have "pool' = pool \<or> (\<exists>p p'. pool = Some p \<and> pool' = Some p' \<and> map slot_offer (lp_slots p') = map slot_offer (lp_slots p))"
  proof (cases pool)
    case None
    then show ?thesis using r by (auto simp: pinned_tier_available_def split: if_splits)
  next
    case (Some p)
    let ?xs = "map (\<lambda>s. (tier \<in> set (sl_tiers s), sl_breaker s)) (lp_slots p)"
    obtain refused bs where na: "none_allows (pn_gate env) 0 ?xs = (refused, bs)" by fastforce
    have len: "length bs = length (lp_slots p)" using none_allows_length[of "pn_gate env" 0 ?xs] na by simp
    define p1 where "p1 = p\<lparr>lp_slots := map2 set_breaker (lp_slots p) bs\<rparr>"
    have p1: "map slot_offer (lp_slots p1) = map slot_offer (lp_slots p)"
      using offers_set_breakers[OF len] by (simp add: p1_def)
    obtain ids p2 cmds where el: "eligible (pn_scan env) tier (tc_warm_models c) p1 = (ids, p2, cmds)" by (metis prod_cases3)
    let ?ys = "map (\<lambda>s. (wanted_slot tier s, sl_breaker s)) (lp_slots p1)"
    obtain js bs2 cm2 where sg: "scan_gate breaker_allow (pn_scan env) 0 ?ys = (js, bs2, cm2)" by (metis prod_cases3)
    have "length bs2 = length (lp_slots p1)" using breakers.scan_length[of "pn_scan env" 0 ?ys] sg by simp
    then have p2: "map slot_offer (lp_slots p2) = map slot_offer (lp_slots p1)"
      using el offers_set_breakers by (auto simp: eligible_def sg Let_def)
    show ?thesis using r Some na el p1 p2
      by (auto simp: pinned_tier_available_def p1_def[symmetric] split: if_splits)
  qed
  then show ?thesis by (auto simp: fun_eq_iff pool_extra_offers)
qed

lemma session_pin_offers:
  "session_pin_tier c env q st = (r, st1) \<Longrightarrow> pool_extra_models (rs_pool st1) = pool_extra_models (rs_pool st)"
  by (auto simp: session_pin_tier_def Let_def split: if_splits prod.splits option.splits
      dest!: pinned_available_offers)

definition tier_is_capable :: "fence_config \<Rightarrow> local_pool option \<Rightarrow> cap_catalog \<Rightarrow> internal_request \<Rightarrow> pystr \<Rightarrow> bool" where
  "tier_is_capable c pool cat q t =
     list_ex (\<lambda>m. m \<noteq> '''' \<and> catalog_supports cat m (required_capabilities q)) (tier_model c t # pool_extra_models pool t)"

lemma capable_filter:
  assumes "fc_catalog c = Some cat" and "required_capabilities q \<noteq> []" and "filter_capable_tiers c pool ts q = Inr kept"
  shows "kept = filter (tier_is_capable c pool cat q) ts"
  using assms by (auto simp: filter_capable_tiers_def Let_def filter_tiers_by_capability_def tier_is_capable_def[abs_def]
      split: if_splits)

lemma local_cover_capable:
  "fc_catalog c = Some cat \<Longrightarrow> required_capabilities q \<noteq> [] \<Longrightarrow> local_tiers_cover_capabilities c pool q \<Longrightarrow>
     \<exists>t \<in> set TIER_LADDER. tier_is_capable c pool cat q t"
  by (auto simp: local_tiers_cover_capabilities_def Let_def filter_tiers_by_capability_def tier_is_capable_def
      filter_empty_conv)

lemma capable_first_capable:
  assumes "fc_catalog (tc_fence c) = Some cat" and "required_capabilities q \<noteq> []"
    and "\<exists>t \<in> set TIER_LADDER. tier_is_capable (tc_fence c) pool cat q t" and "capable_first c pool q tier = Inr t"
  shows "tier_is_capable (tc_fence c) pool cat q t"
proof -
  obtain kept where k: "filter_capable_tiers (tc_fence c) pool [tier, ''L5'', ''L4'', ''L3''] q = Inr kept"
    "t = (case kept of [] \<Rightarrow> tier | t # _ \<Rightarrow> t)"
    using assms(4) by (auto simp: capable_first_def map_sum_def split: sum.splits)
  have kept: "kept = filter (tier_is_capable (tc_fence c) pool cat q) [tier, ''L5'', ''L4'', ''L3'']"
    by (rule capable_filter[OF assms(1,2) k(1)])
  then have "kept \<noteq> []" using assms(3) by (auto simp: ladder_iff)
  then show ?thesis using k(2) kept by (metis filter_eq_ConsD list.exhaust list.simps(5))
qed

text \<open>
  A request starts on a tier that can serve it: with a catalog, a local tier that has what
  the request needs, no cap, and neither the stall nor the context-window escalation switched
  on, the tier chosen has a model that declares every required capability, whether it came from
  an alias, an override, a session pin or the heuristics.
\<close>
theorem chosen_tier_is_capable:
  assumes "fc_catalog (tc_fence c) = Some cat" and "required_capabilities q \<noteq> []"
    and "local_tiers_cover_capabilities (tc_fence c) (rs_pool st) q"
    and "effective_tier_cap (tc_fence c) q = None" and "\<not> tc_stall_escalation c" and "\<not> tc_context_escalation c"
    and "choose_initial_tier jl c env q pf st = (Inr t, st')"
  shows "tier_is_capable (tc_fence c) (rs_pool st') cat q t"
proof -
  note some = local_cover_capable[OF assms(1-3)]
  have capable: "tier_is_capable (tc_fence c) pool cat q =  tier_is_capable (tc_fence c) (rs_pool st) cat q"
    if "pool_extra_models pool = pool_extra_models (rs_pool st)" for pool
    using that by (simp add: tier_is_capable_def fun_eq_iff)
  have hd_capable: "tier_is_capable (tc_fence c) (rs_pool st) cat q u"
    if "filter_capable_tiers (tc_fence c) (rs_pool st) TIER_LADDER q = Inr kept" "kept \<noteq> []" "u \<in> set kept" for kept u
    using capable_filter[OF assms(1,2) that(1)] that(3) by simp
  have kept_ne: "kept \<noteq> []" if "filter_capable_tiers (tc_fence c) (rs_pool st) TIER_LADDER q = Inr kept" for kept
    using capable_filter[OF assms(1,2) that] some by (auto simp: filter_empty_conv)
  have plain: "cap_tier (apply_context_window_escalation c pf u) None = u" "apply_stall_escalation jl c q u = u" for u
    using assms(5,6) by (simp_all add: cap_tier_def apply_context_window_escalation_def Let_def apply_stall_escalation_def)
  have nitro: "tier_is_capable (tc_fence c) (rs_pool st) cat q t" if "nitro_tier c (rs_pool st) q = Inr t"
    using that hd_capable kept_ne
    by (fastforce simp: nitro_tier_def map_sum_def split: sum.splits list.splits if_splits dest: filter_eq_ConsD)
  have floor: "tier_is_capable (tc_fence c) (rs_pool st) cat q t"
    if "map_sum id (\<lambda>ts. case ts of [] \<Rightarrow> ''L3'' | t # _ \<Rightarrow> t) (filter_capable_tiers (tc_fence c) (rs_pool st) TIER_LADDER q) = Inr t"
    using that hd_capable kept_ne by (fastforce simp: map_sum_def split: sum.splits list.splits)
  have first: "tier_is_capable (tc_fence c) (rs_pool s) cat q t" if "capable_first c (rs_pool s) q u = Inr t"
    "pool_extra_models (rs_pool s) = pool_extra_models (rs_pool st)" for s u
    using capable_first_capable[OF assms(1,2) _ that(1)] some capable[OF that(2)] by simp
  have pinned: "pool_extra_models (rs_pool s1) = pool_extra_models (rs_pool st)" if "session_pin_tier c env q st = (r, s1)" for r s1
    using session_pin_offers[OF that] .
  have sum_id: "map_sum id (\<lambda>u. u) x = x" for x :: "pystr list + pystr" by (cases x) simp_all
  show ?thesis using assms(7)
    unfolding choose_initial_tier_def Let_def assms(4) plain sum_id
    by (auto split: if_splits prod.splits option.splits intro: first dest: pinned) (use floor nitro in blast)+
qed

definition demo_image_request :: internal_request where
  "demo_image_request = demo_request [\<lparr>m_role = ''user'', m_content = Some ''what is in this picture'',
     m_tool_calls = None, m_images = [\<lparr>im_media_type = ''image/png'', im_data = Some ''aGk='', im_url = None\<rparr>],
     m_audio = [], m_tool_call_id = None\<rparr>]"

definition demo_state :: router_state where
  "demo_state = \<lparr>rs_pool = None, rs_pins = new_pin_store 60 ''pin:''\<rparr>"

definition demo_pin_env :: pin_env where
  "demo_pin_env = \<lparr>pn_digest = (\<lambda>_. ''d''), pn_reply = GetNoClient, pn_now = 0,
     pn_gate = (\<lambda>_. undefined), pn_scan = (\<lambda>_. undefined)\<rparr>"

definition demo_json :: json_lib where
  "demo_json = \<lparr>jl_loads = (\<lambda>_. None), jl_dumps = (\<lambda>_. ''''), jl_str = (\<lambda>_. '''')\<rparr>"

definition demo_steady :: tier_config where
  "demo_steady = demo_tiers\<lparr>tc_context_escalation := False\<rparr>"

lemma demo_choice:
  "choose_initial_tier demo_json demo_steady demo_pin_env demo_image_request (demo_profile 5) demo_state = (Inr ''L3'', demo_state)"
  by code_simp

lemma demo_choice_escalated:
  "fst (choose_initial_tier demo_json demo_tiers demo_pin_env demo_image_request (demo_profile 5) demo_state) = Inr ''L4''"
  by code_simp

lemma demo_needs:
  "required_capabilities demo_image_request = [''vision'']" "effective_tier_cap demo_fence demo_image_request = None"
  "local_tiers_cover_capabilities demo_fence None demo_image_request"
  by code_simp+

lemma chosen_tier_is_capable_witness:
  "tier_is_capable demo_fence None (the (fc_catalog demo_fence)) demo_image_request ''L3''"
proof -
  have fence: "tc_fence demo_steady = demo_fence" "rs_pool demo_state = None"
    by (simp_all add: demo_steady_def demo_tiers_def demo_state_def)
  have "fc_catalog demo_fence = Some (the (fc_catalog demo_fence))" by (simp add: demo_fence_def)
  moreover have "\<not> tc_stall_escalation demo_steady" "\<not> tc_context_escalation demo_steady"
    by (simp_all add: demo_steady_def demo_tiers_def)
  ultimately show ?thesis
    using chosen_tier_is_capable[OF _ _ _ _ _ _ demo_choice] demo_needs unfolding fence by simp
qed

text \<open>
  The escalations forget the capability filter: a picture goes to a capable local tier, but
  its prompt exceeds that tier's window, and the escalation moves it to a tier whose model
  declares no vision, although the capable tier and the refusal of incapable ones exist.
\<close>
theorem escalation_forgets_capabilities:
  "\<exists>c q pf st t cat. fc_catalog (tc_fence c) = Some cat \<and> local_tiers_cover_capabilities (tc_fence c) (rs_pool st) q
     \<and> fst (choose_initial_tier demo_json c demo_pin_env q pf st) = Inr t \<and> t \<in> set TIER_LADDER
     \<and> \<not> tier_is_capable (tc_fence c) (rs_pool st) cat q t"
proof -
  have fence: "tc_fence demo_tiers = demo_fence" "rs_pool demo_state = None"
    by (simp_all add: demo_tiers_def demo_state_def)
  have cat: "fc_catalog demo_fence = Some (the (fc_catalog demo_fence))" by (simp add: demo_fence_def)
  have "\<not> tier_is_capable demo_fence None (the (fc_catalog demo_fence)) demo_image_request ''L4''" by code_simp
  then show ?thesis using cat demo_needs(3) demo_choice_escalated fence
    by (intro exI[of _ demo_tiers] exI[of _ demo_image_request] exI[of _ "demo_profile 5"] exI[of _ demo_state]
        exI[of _ "''L4''"] exI[of _ "the (fc_catalog demo_fence)"]) simp
qed

end
