(* ===== verification/VirtualModels.thy ===== *)
theory VirtualModels
  imports FrontierFence "HOL-Library.Product_Lexorder" "HOL-Library.Multiset"
begin

text \<open>
  Named virtual models (\<open>daari/router/virtual_models.py\<close>): the ordered candidates of a name, the
  moving averages of each candidate's latency and errors, the order they are tried in, and what
  a candidate id stands for.
\<close>

section \<open>Moving averages\<close>

record candidate_ewma =
  ew_latency :: pyfloat
  ew_errors :: pyfloat
  ew_samples :: int

record perf_tracker =
  vt_alpha :: pyfloat
  vt_stats :: "(pystr \<times> (pystr \<times> candidate_ewma) list) list"
  vt_demoted :: "(pystr \<times> pystr list) list"

definition no_ewma :: candidate_ewma where
  "no_ewma = \<lparr>ew_latency = 0, ew_errors = 0, ew_samples = 0\<rparr>"

definition vm_rows :: "perf_tracker \<Rightarrow> pystr \<Rightarrow> (pystr \<times> candidate_ewma) list" where
  "vm_rows t vm = (case map_of (vt_stats t) vm of None \<Rightarrow> [] | Some rows \<Rightarrow> rows)"

definition ewma_step :: "pyfloat \<Rightarrow> pyfloat \<Rightarrow> bool \<Rightarrow> candidate_ewma option \<Rightarrow> candidate_ewma" where
  "ewma_step alpha latency_ms error row =
     (let obs = (if error then 1 else 0) in
      case row of None \<Rightarrow> \<lparr>ew_latency = latency_ms, ew_errors = obs, ew_samples = 1\<rparr>
      | Some r \<Rightarrow> \<lparr>ew_latency = (if error then ew_latency r else (1 - alpha) * ew_latency r + alpha * latency_ms),
                  ew_errors = (1 - alpha) * ew_errors r + alpha * obs, ew_samples = ew_samples r + 1\<rparr>)"

definition tracker_update :: "pystr \<Rightarrow> pystr \<Rightarrow> pyfloat \<Rightarrow> bool \<Rightarrow> perf_tracker \<Rightarrow> perf_tracker" where
  "tracker_update virtual_model candidate latency_ms error t =
     (let vm = py_strip virtual_model; cand = py_strip candidate; alpha = max (1 / 100) (min 1 (vt_alpha t)) in
      if vm = '''' \<or> cand = '''' then t
      else t\<lparr>vt_stats := AList.update vm
               (AList.update cand (ewma_step alpha latency_ms error (map_of (vm_rows t vm) cand)) (vm_rows t vm))
               (vt_stats t)\<rparr>)"

definition observe_success :: "pystr \<Rightarrow> pystr \<Rightarrow> pyfloat \<Rightarrow> perf_tracker \<Rightarrow> perf_tracker" where
  "observe_success vm cand latency_ms t = tracker_update vm cand latency_ms False t"

definition observe_error :: "pystr \<Rightarrow> pystr \<Rightarrow> pyfloat \<Rightarrow> perf_tracker \<Rightarrow> perf_tracker" where
  "observe_error vm cand latency_ms t = tracker_update vm cand latency_ms True t"

definition stats_for :: "perf_tracker \<Rightarrow> pystr \<Rightarrow> pystr \<Rightarrow> candidate_ewma" where
  "stats_for t virtual_model candidate =
     (case map_of (vm_rows t (py_strip virtual_model)) (py_strip candidate) of None \<Rightarrow> no_ewma | Some r \<Rightarrow> r)"

definition clean_names :: "pystr list \<Rightarrow> pystr list" where
  "clean_names xs = map py_strip (filter (\<lambda>x. py_strip x \<noteq> '''') xs)"

definition note_slo_demotions :: "pystr \<Rightarrow> pystr list \<Rightarrow> perf_tracker \<Rightarrow> perf_tracker" where
  "note_slo_demotions virtual_model demoted t =
     (let vm = py_strip virtual_model in
      if vm = '''' then t else t\<lparr>vt_demoted := AList.update vm (clean_names demoted) (vt_demoted t)\<rparr>)"

section \<open>The order candidates are tried in\<close>

text \<open>\<open>round(x, n)\<close>: to the nearest multiple, halves to the even one.\<close>

definition round_half_even :: "pyfloat \<Rightarrow> int" where
  "round_half_even x = (let f = \<lfloor>x\<rfloor>; d = x - rat_of_int f in
     if d < 1 / 2 then f else if d > 1 / 2 then f + 1 else if even f then f else f + 1)"

definition py_round :: "nat \<Rightarrow> pyfloat \<Rightarrow> pyfloat" where
  "py_round n x = rat_of_int (round_half_even (x * 10 ^ n)) / 10 ^ n"

definition fits_slo :: "perf_tracker \<Rightarrow> pystr \<Rightarrow> pyfloat option \<Rightarrow> pystr \<Rightarrow> bool" where
  "fits_slo t vm slo cand = (case slo of None \<Rightarrow> True
     | Some s \<Rightarrow> ew_samples (stats_for t vm cand) \<le> 0 \<or> ew_latency (stats_for t vm cand) \<le> s)"

definition candidate_key :: "perf_tracker \<Rightarrow> pystr \<Rightarrow> pyfloat option \<Rightarrow> nat \<times> pystr \<Rightarrow> nat \<times> pyfloat \<times> pyfloat \<times> nat" where
  "candidate_key t vm slo item =
     (if fits_slo t vm slo (snd item) then 0 else 1, py_round 4 (ew_errors (stats_for t vm (snd item))),
      py_round 1 (ew_latency (stats_for t vm (snd item))), fst item)"

definition order_virtual_candidates ::
    "pystr list \<Rightarrow> pystr \<Rightarrow> pystr \<Rightarrow> perf_tracker option \<Rightarrow> (pystr \<Rightarrow> bool) \<Rightarrow> pyfloat option \<Rightarrow>
     pystr list \<times> perf_tracker option" where
  "order_virtual_candidates candidates mode vm tracker breaker_open latency_slo_ms =
     (let cleaned = filter (\<lambda>c. \<not> breaker_open c) (clean_names candidates);
          sel = py_lower (py_strip (if mode = '''' then ''ordered'' else mode))
      in if cleaned = [] then ([], tracker)
         else if sel \<noteq> ''performance'' then (cleaned, tracker)
         else (case tracker of None \<Rightarrow> (cleaned, tracker)
           | Some t \<Rightarrow>
               (let slo = (case latency_slo_ms of None \<Rightarrow> None | Some s \<Rightarrow> (if s > 0 then Some s else None));
                    ranked = map snd (sort_key (candidate_key t vm slo) (enumerate 0 cleaned));
                    demoted = filter (\<lambda>c. \<not> fits_slo t vm slo c) ranked
                in (ranked, Some (if slo = None then t
                     else if demoted \<noteq> [] \<and> list_ex (fits_slo t vm slo) ranked then note_slo_demotions vm demoted t
                     else note_slo_demotions vm [] t)))))"

section \<open>Names and candidates\<close>

definition resolve_virtual_candidates :: "pystr option \<Rightarrow> (pystr \<times> pystr list) list \<Rightarrow> pystr list option" where
  "resolve_virtual_candidates model virtual_models =
     (let name = py_strip (str_or model '''') in
      if name = '''' then None
      else (case map_of virtual_models name of None \<Rightarrow> None
        | Some cs \<Rightarrow> (if clean_names cs = [] then None else Some (clean_names cs))))"

datatype candidate_kind = LocalTier pystr | FrontierModel pystr

record classify_settings =
  cs_l3 :: pystr
  cs_l4 :: pystr
  cs_l5 :: pystr
  cs_backends :: "(pystr \<times> pystr list) list"     \<comment> \<open>model and tiers of each pool backend\<close>

definition classify_candidate :: "pystr \<Rightarrow> classify_settings option \<Rightarrow> candidate_kind" where
  "classify_candidate candidate settings =
     (let raw = py_strip candidate; up = upper_ascii raw in
      if up \<in> {''L3'', ''L4'', ''L5''} then LocalTier up
      else if up \<in> {''L6'', ''FRONTIER''} then FrontierModel ''L6''
      else (case settings of None \<Rightarrow> FrontierModel raw
        | Some s \<Rightarrow>
            (if cs_l3 s \<noteq> '''' \<and> raw = cs_l3 s then LocalTier ''L3''
             else if cs_l4 s \<noteq> '''' \<and> raw = cs_l4 s then LocalTier ''L4''
             else if cs_l5 s \<noteq> '''' \<and> raw = cs_l5 s then LocalTier ''L5''
             else (case filter (\<lambda>(m, ts). m = raw) (cs_backends s) of
                 [] \<Rightarrow> FrontierModel raw
               | (m, ts) # _ \<Rightarrow> LocalTier (case filter (\<lambda>t. t \<in> set (map upper_ascii ts)) TIER_LADDER of
                     [] \<Rightarrow> ''L3'' | t # _ \<Rightarrow> t)))))"

text \<open>Every known breaker of the candidate refuses; \<open>refuses\<close> tells what a breaker answers.\<close>

definition candidate_breaker_open ::
    "local_pool option \<Rightarrow> (slot \<Rightarrow> bool) \<Rightarrow> bool option list \<Rightarrow> classify_settings option \<Rightarrow> pystr \<Rightarrow> bool" where
  "candidate_breaker_open pool refuses frontier_slots settings candidate =
     (case classify_candidate candidate settings of
        LocalTier tier \<Rightarrow>
          (case pool of None \<Rightarrow> False
           | Some p \<Rightarrow> (if slots_for tier p = [] then False else list_all refuses (slots_for tier p)))
      | FrontierModel m \<Rightarrow>
          (if frontier_slots = [] then False
           else list_all (\<lambda>b. case b of None \<Rightarrow> True | Some r \<Rightarrow> r) frontier_slots))"

definition known_local_ids :: "classify_settings \<Rightarrow> pystr list \<Rightarrow> pystr option \<Rightarrow> pystr list" where
  "known_local_ids s backend_ids frontier_default =
     [''L3'', ''L4'', ''L5'', ''L6'', ''FRONTIER'', ''l3'', ''l4'', ''l5'', ''l6'', ''frontier'']
     @ filter (\<lambda>m. m \<noteq> '''') ([cs_l3 s, cs_l4 s, cs_l5 s] @ map fst (cs_backends s) @ backend_ids
         @ [str_or frontier_default ''''])"

datatype virtual_finding = EmptyList pystr | UnknownCandidate pystr pystr

definition virtual_models_findings :: "pystr list \<Rightarrow> (pystr \<times> pystr list) list \<Rightarrow> virtual_finding list" where
  "virtual_models_findings known mapping =
     concat (map (\<lambda>(name, cs).
       if clean_names cs = [] then [EmptyList name]
       else map (UnknownCandidate name) (filter (\<lambda>c. c \<notin> set known \<and> CHR ''/'' \<notin> set c
              \<and> upper_ascii c \<notin> {''L3'', ''L4'', ''L5'', ''L6'', ''FRONTIER''}) (clean_names cs))) mapping)"

section \<open>Properties\<close>

lemma sorted_key_before:
  "sorted (map f xs) \<Longrightarrow> xs = as @ x # bs @ y # cs \<Longrightarrow> f x \<le> f y"
  by (simp add: sorted_append)

text \<open>
  The order candidates are tried in only reorders: it is a permutation of the configured
  candidates whose breakers do not all refuse, in configured order unless the mode is
  performance; and by performance no candidate that misses the latency objective comes before
  one that meets it or has not been measured, nor, within those, one with a higher rounded error
  rate before a lower one.
\<close>
theorem virtual_order_is_fair:
  assumes "order_virtual_candidates candidates mode vm tracker breaker_open slo_ms = (ranked, tracker')"
  shows "mset ranked = mset (filter (\<lambda>c. \<not> breaker_open c) (clean_names candidates))
       \<and> (py_lower (py_strip mode) \<noteq> ''performance'' \<or> tracker = None
            \<longrightarrow> ranked = filter (\<lambda>c. \<not> breaker_open c) (clean_names candidates))
       \<and> (\<forall>t as x bs y cs. tracker = Some t \<and> py_lower (py_strip mode) = ''performance'' \<and> ranked = as @ x # bs @ y # cs \<longrightarrow>
            (let slo = (case slo_ms of None \<Rightarrow> None | Some s \<Rightarrow> if s > 0 then Some s else None) in
             (fits_slo t vm slo y \<longrightarrow> fits_slo t vm slo x)
             \<and> (fits_slo t vm slo x = fits_slo t vm slo y \<longrightarrow>
                  py_round 4 (ew_errors (stats_for t vm x)) \<le> py_round 4 (ew_errors (stats_for t vm y)))))"
proof -
  let ?cl = "filter (\<lambda>c. \<not> breaker_open c) (clean_names candidates)"
  define slo where "slo = (case slo_ms of None \<Rightarrow> None | Some s \<Rightarrow> if s > 0 then Some s else None)"
  have mode: "py_lower (py_strip (if mode = '''' then ''ordered'' else mode)) = ''performance''
      \<longleftrightarrow> py_lower (py_strip mode) = ''performance''"
    by (cases "mode = ''''") (simp_all, code_simp)
  show ?thesis
  proof (cases "py_lower (py_strip mode) = ''performance'' \<and> tracker \<noteq> None")
    case False
    then have "ranked = ?cl" using assms mode
      by (auto simp: order_virtual_candidates_def Let_def split: if_splits option.splits)
    then show ?thesis using False by auto
  next
    case True
    then obtain t where t: "tracker = Some t" by blast
    define items where "items = sort_key (candidate_key t vm slo) (enumerate 0 ?cl)"
    have ranked: "ranked = map snd items"
    proof (cases "?cl = []")
      case True
      then show ?thesis using assms by (auto simp: order_virtual_candidates_def items_def)
    next
      case False
      then show ?thesis using assms True mode t
        by (auto simp: order_virtual_candidates_def Let_def items_def slo_def)
    qed
    have "mset (map snd items) = mset (map snd (enumerate 0 ?cl))" unfolding items_def mset_map mset_sort ..
    then have "mset (map snd items) = mset ?cl" unfolding map_snd_enumerate .
    moreover have "(fits_slo t vm slo y \<longrightarrow> fits_slo t vm slo x) \<and> (fits_slo t vm slo x = fits_slo t vm slo y \<longrightarrow>
        py_round 4 (ew_errors (stats_for t vm x)) \<le> py_round 4 (ew_errors (stats_for t vm y)))"
      if split: "ranked = as @ x # bs @ y # cs" for as x bs y cs
    proof -
      obtain as' i bs' j cs' where it: "items = as' @ i # bs' @ j # cs'" "snd i = x" "snd j = y"
        using split unfolding ranked map_eq_append_conv by (auto simp: Cons_eq_map_conv append_eq_map_conv)
      have "sorted (map (candidate_key t vm slo) items)" by (simp add: items_def)
      from sorted_key_before[OF this it(1)] show ?thesis
        by (auto simp: candidate_key_def it less_eq_prod_def split: if_splits)
    qed
    ultimately show ?thesis using t ranked True by (auto simp: slo_def[symmetric] Let_def)
  qed
qed

text \<open>The error rate of every candidate stays a rate.\<close>

definition rates_ok :: "perf_tracker \<Rightarrow> bool" where
  "rates_ok t = (\<forall>vm c r. map_of (vm_rows t vm) c = Some r \<longrightarrow> 0 \<le> ew_errors r \<and> ew_errors r \<le> 1)"

lemma rates_ok_update: "rates_ok t \<Longrightarrow> rates_ok (tracker_update vm cand latency error t)"
proof -
  assume ok: "rates_ok t"
  define alpha where "alpha = max (1 / 100) (min 1 (vt_alpha t))"
  have a: "0 \<le> alpha" "alpha \<le> 1" by (auto simp: alpha_def)
  have step: "0 \<le> ew_errors (ewma_step alpha latency error row) \<and> ew_errors (ewma_step alpha latency error row) \<le> 1"
    if "row = None \<or> (\<exists>r. row = Some r \<and> 0 \<le> ew_errors r \<and> ew_errors r \<le> 1)" for row
  proof (cases row)
    case (Some r)
    then have r: "0 \<le> ew_errors r" "ew_errors r \<le> 1" using that by auto
    have "(1 - alpha) * ew_errors r \<le> (1 - alpha) * 1" using a r by (intro mult_left_mono) auto
    then show ?thesis using a r Some by (auto simp: ewma_step_def Let_def)
  qed (simp add: ewma_step_def)
  have "map_of (vm_rows t (py_strip vm)) (py_strip cand) = None
      \<or> (\<exists>r. map_of (vm_rows t (py_strip vm)) (py_strip cand) = Some r \<and> 0 \<le> ew_errors r \<and> ew_errors r \<le> 1)"
    using ok by (cases "map_of (vm_rows t (py_strip vm)) (py_strip cand)") (auto simp: rates_ok_def)
  note new = step[OF this]
  have rows: "vm_rows (tracker_update vm cand latency error t) v = (if v = py_strip vm \<and> py_strip vm \<noteq> '''' \<and> py_strip cand \<noteq> ''''
      then AList.update (py_strip cand) (ewma_step alpha latency error (map_of (vm_rows t (py_strip vm)) (py_strip cand)))
             (vm_rows t (py_strip vm)) else vm_rows t v)" for v
    by (simp add: tracker_update_def Let_def vm_rows_def alpha_def[symmetric])
  show ?thesis unfolding rates_ok_def rows using ok new by (auto simp: rates_ok_def)
qed

definition demo_perf :: perf_tracker where
  "demo_perf = observe_error ''fast'' ''openai/gpt-5'' 80
     (observe_success ''fast'' ''openai/gpt-5'' 90 (observe_success ''fast'' ''L4'' 900
       \<lparr>vt_alpha = 3 / 10, vt_stats = [], vt_demoted = []\<rparr>))"

lemma virtual_order_is_fair_witness:
  "fst (order_virtual_candidates ['' L4 '', ''openai/gpt-5'', ''L3''] ''performance'' ''fast'' (Some demo_perf) (\<lambda>_. False) (Some 500))
     = [''L3'', ''openai/gpt-5'', ''L4'']
   \<and> mset [''L3'', ''openai/gpt-5'', ''L4''] = mset (clean_names ['' L4 '', ''openai/gpt-5'', ''L3''])"
proof -
  let ?o = "order_virtual_candidates ['' L4 '', ''openai/gpt-5'', ''L3''] ''performance'' ''fast'' (Some demo_perf) (\<lambda>_. False) (Some 500)"
  have o: "fst ?o = [''L3'', ''openai/gpt-5'', ''L4'']" by code_simp
  have "?o = (fst ?o, snd ?o)" by simp
  from virtual_order_is_fair[OF this] show ?thesis unfolding o by simp
qed

end
