(* ===== verification/ContextTrim.thy ===== *)
theory ContextTrim
  imports FrontierFence
begin

text \<open>
  What the router does to a conversation before it is sent (\<open>daari/router/context_optimizer.py\<close>
  and the context steps of \<open>daari/router/router.py\<close>): whitespace and history trimming, the summary
  of an over-long history, system messages first, and the slimming before the frontier.
\<close>

section \<open>Whitespace\<close>

text \<open>\<open>[ \t]+(?=\n)\<close> removed.\<close>

fun drop_trailing_blanks :: "pystr \<Rightarrow> pystr" where
  "drop_trailing_blanks [] = []"
| "drop_trailing_blanks (c # s) =
     (let r = drop_trailing_blanks s in
      if c \<in> {CHR '' '', CHR 0x09} \<and> r \<noteq> [] \<and> hd r = CHR 0x0A then r else c # r)"

text \<open>\<open>\n{4,}\<close> becomes three newlines; the argument counts the newlines just passed.\<close>

fun cap_newlines :: "nat \<Rightarrow> pystr \<Rightarrow> pystr" where
  "cap_newlines n [] = []"
| "cap_newlines n (c # s) =
     (if c = CHR 0x0A then (if n \<ge> 3 then cap_newlines (Suc n) s else c # cap_newlines (Suc n) s)
      else c # cap_newlines 0 s)"

definition squeeze :: "pystr \<Rightarrow> pystr" where
  "squeeze text = py_rstrip (cap_newlines 0 (drop_trailing_blanks text))"

section \<open>History\<close>

text \<open>How many of \<open>k\<close> entries \<open>xs[:-n]\<close> holds.\<close>

definition py_init_count :: "nat \<Rightarrow> int \<Rightarrow> nat" where
  "py_init_count k n = (if n > 0 then k - nat n else if n = 0 then 0 else min k (nat (- n)))"

definition is_system :: "message \<Rightarrow> bool" where
  "is_system m = (m_role m = ''system'')"

definition history_overflow :: "message list \<Rightarrow> int \<Rightarrow> nat" where
  "history_overflow ms max_history =
     (let k = length (filter (\<lambda>m. \<not> is_system m) ms) in
      if int k > max_history then py_init_count k max_history else 0)"

text \<open>Drops the first \<open>k\<close> messages that are not system messages.\<close>

fun drop_old :: "nat \<Rightarrow> message list \<Rightarrow> message list" where
  "drop_old k [] = []"
| "drop_old k (m # ms) =
     (if is_system m then m # drop_old k ms
      else (case k of 0 \<Rightarrow> m # ms | Suc j \<Rightarrow> drop_old j ms))"

definition squeeze_message :: "bool \<Rightarrow> message \<Rightarrow> message" where
  "squeeze_message on m = (if on \<and> content_or_empty m \<noteq> ''''
     then m\<lparr>m_content := Some (squeeze (content_or_empty m))\<rparr> else m)"

definition conversation_chars :: "message list \<Rightarrow> nat" where
  "conversation_chars ms = sum_list (map (\<lambda>m. length (content_or_empty m)) ms)"

definition optimize_messages :: "int \<Rightarrow> bool \<Rightarrow> message list \<Rightarrow> message list \<times> nat \<times> nat" where
  "optimize_messages max_history squeeze_ws ms =
     (let out = map (squeeze_message squeeze_ws) (drop_old (history_overflow ms max_history) ms)
      in (out, conversation_chars ms, conversation_chars out))"

record context_config =
  cx_optimizer :: bool
  cx_max_history :: int
  cx_squeeze :: bool
  cx_compact :: bool
  cx_slim :: bool
  cx_frontier_max_history :: int
  cx_fit_enabled :: bool
  cx_fit_messages :: int
  cx_fit_tokens :: int

definition optimize_context :: "context_config \<Rightarrow> internal_request \<Rightarrow> internal_request" where
  "optimize_context x q =
     (if \<not> cx_optimizer x \<or> agent_turn q then q
      else (case optimize_messages (cx_max_history x) (cx_squeeze x) (q_messages q) of (out, before, after) \<Rightarrow>
        if after \<ge> before \<and> length out = length (q_messages q) then q else q\<lparr>q_messages := out\<rparr>))"

section \<open>Summaries\<close>

definition COMPACTION_CACHE_MAX :: nat where "COMPACTION_CACHE_MAX = 64"

definition history_text :: "message list \<Rightarrow> pystr" where
  "history_text old = join [CHR 0x0A]
     (map (\<lambda>m. m_role m @ '': '' @ content_or_empty m) (filter (\<lambda>m. content_or_empty m \<noteq> '''') old))"

definition summary_message :: "pystr \<Rightarrow> message" where
  "summary_message summary = plain_message ''system'' (''[Earlier conversation summary] '' @ summary)"

text \<open>The first \<open>k\<close> messages that are not system messages, and the rest with the summary in their place.\<close>

fun old_messages :: "nat \<Rightarrow> message list \<Rightarrow> message list" where
  "old_messages k [] = []"
| "old_messages k (m # ms) = (if is_system m then old_messages k ms
     else (case k of 0 \<Rightarrow> [] | Suc j \<Rightarrow> m # old_messages j ms))"

fun replace_old :: "message option \<Rightarrow> nat \<Rightarrow> message list \<Rightarrow> message list" where
  "replace_old s k [] = []"
| "replace_old s k (m # ms) =
     (if is_system m then m # replace_old s k ms
      else (case k of 0 \<Rightarrow> m # ms
        | Suc j \<Rightarrow> (case s of None \<Rightarrow> replace_old None j ms | Some x \<Rightarrow> x # replace_old None j ms)))"

text \<open>
  What the summary call is asked, and what happens with its answer (\<open>None\<close>: the call raised). The
  cache of summaries forgets its oldest entries. The call goes straight to the L3 executor.
\<close>

datatype compaction = KeepHistory | UseSummary pystr | AskSummary pystr

definition compaction_plan ::
    "context_config \<Rightarrow> (pystr \<Rightarrow> pystr) \<Rightarrow> (pystr \<times> pystr) list \<Rightarrow> internal_request \<Rightarrow> compaction" where
  "compaction_plan x digest cache q =
     (let k = length (filter (\<lambda>m. \<not> is_system m) (q_messages q));
          txt = history_text (old_messages (py_init_count k (cx_max_history x)) (q_messages q))
      in if \<not> cx_compact x \<or> agent_turn q then KeepHistory
         else if int k \<le> cx_max_history x then KeepHistory
         else if py_strip txt = '''' then KeepHistory
         else (case map_of cache (digest txt) of Some s \<Rightarrow> UseSummary s | None \<Rightarrow> AskSummary (digest txt)))"

definition with_summary :: "context_config \<Rightarrow> internal_request \<Rightarrow> pystr \<Rightarrow> internal_request" where
  "with_summary x q summary =
     (let k = length (filter (\<lambda>m. \<not> is_system m) (q_messages q))
      in q\<lparr>q_messages := replace_old (Some (summary_message summary)) (py_init_count k (cx_max_history x)) (q_messages q)\<rparr>)"

definition remember_summary :: "pystr \<Rightarrow> pystr \<Rightarrow> (pystr \<times> pystr) list \<Rightarrow> (pystr \<times> pystr) list" where
  "remember_summary key summary cache =
     (let c = AList.update key summary cache in drop (length c - COMPACTION_CACHE_MAX) c)"

definition compact_context ::
    "context_config \<Rightarrow> (pystr \<Rightarrow> pystr) \<Rightarrow> pystr option \<Rightarrow> (pystr \<times> pystr) list \<Rightarrow> internal_request
     \<Rightarrow> internal_request \<times> (pystr \<times> pystr) list \<times> bool" where
  "compact_context x digest reply cache q =
     (case compaction_plan x digest cache q of
        KeepHistory \<Rightarrow> (q, cache, False)
      | UseSummary s \<Rightarrow> (with_summary x q s, cache, False)
      | AskSummary key \<Rightarrow>
          (let s = py_strip (str_or reply '''') in
           if s = '''' then (q, cache, True) else (with_summary x q s, remember_summary key s cache, True)))"

section \<open>System messages first\<close>

definition hoist_system_messages :: "message list \<Rightarrow> message list" where
  "hoist_system_messages ms =
     (if \<not> list_ex is_system (dropWhile is_system ms) then ms
      else filter is_system ms @ filter (\<lambda>m. \<not> is_system m) ms)"

section \<open>Before the frontier\<close>

definition NO_TOOLS_HINT :: pystr where
  "NO_TOOLS_HINT = ''IMPORTANT: You have NO tools available. Any tool, function, or capability '' @
     ''descriptions elsewhere in this conversation are inactive and must be ignored. '' @
     ''Respond in plain natural language only. Do not call tools, do not return JSON '' @
     ''tool calls, and do not narrate or pretend to use tools.''"

fun slim_keep :: "pystr list \<Rightarrow> message list \<Rightarrow> message list" where
  "slim_keep seen [] = []"
| "slim_keep seen (m # ms) =
     (if is_system m then
        (let content = py_strip (content_or_empty m) in
         if content = py_strip NO_TOOLS_HINT \<or> content \<in> set seen then slim_keep seen ms
         else m # slim_keep (content # seen) ms)
      else m # slim_keep seen ms)"

definition slim_for_frontier :: "context_config \<Rightarrow> internal_request \<Rightarrow> internal_request" where
  "slim_for_frontier x q =
     (if \<not> cx_slim x \<or> agent_turn q then q
      else q\<lparr>q_messages := fst (optimize_messages (cx_frontier_max_history x) True (slim_keep [] (q_messages q)))\<rparr>)"

definition compact_to_fit_for_frontier :: "json_lib \<Rightarrow> context_config \<Rightarrow> internal_request \<Rightarrow> internal_request" where
  "compact_to_fit_for_frontier jl x q =
     (case compact_messages jl (cx_fit_enabled x) (cx_fit_messages x) (cx_fit_tokens x) (q_messages q) of
        (out, before, after) \<Rightarrow> if after = before then q else q\<lparr>q_messages := out\<rparr>)"

definition with_skills_prefix :: "pystr \<Rightarrow> internal_request \<Rightarrow> internal_request" where
  "with_skills_prefix pfx q =
     (if pfx = '''' then q
      else (case q_messages q of
          m # ms \<Rightarrow> (if is_system m \<and> m_content m = Some pfx then q
                    else q\<lparr>q_messages := plain_message ''system'' pfx # m # ms\<rparr>)
        | [] \<Rightarrow> q\<lparr>q_messages := [plain_message ''system'' pfx]\<rparr>))"

section \<open>Properties\<close>

lemma drop_old_spec:
  "filter is_system (drop_old k ms) = filter is_system ms"
  "filter (\<lambda>m. \<not> is_system m) (drop_old k ms) = drop k (filter (\<lambda>m. \<not> is_system m) ms)"
  by (induction k ms rule: drop_old.induct) (auto split: nat.split)

lemma drop_old_subseq: "subseq (drop_old k ms) ms"
  by (induction k ms rule: drop_old.induct) (auto split: nat.split)

lemma hoist_members: "mset (hoist_system_messages ms) = mset ms"
  by (simp add: hoist_system_messages_def)

lemma squeeze_role: "is_system (squeeze_message on m) = is_system m"
  by (simp add: squeeze_message_def is_system_def)

lemma hoist_first: "\<exists>s o'. hoist_system_messages ms = s @ o' \<and> list_all is_system s \<and> \<not> list_ex is_system o'"
proof (cases "list_ex is_system (dropWhile is_system ms)")
  case True
  then show ?thesis
    by (intro exI[of _ "filter is_system ms"] exI[of _ "filter (\<lambda>m. \<not> is_system m) ms"])
      (auto simp: hoist_system_messages_def list_all_iff list_ex_iff)
next
  case False
  then show ?thesis
    by (intro exI[of _ "takeWhile is_system ms"] exI[of _ "dropWhile is_system ms"])
      (auto simp: hoist_system_messages_def list_all_iff dest: set_takeWhileD)
qed

end
