(* ===== verification/DevCommands.thy ===== *)
theory DevCommands
  imports AccessLists
begin

text \<open>
  The tiers that answer without a model, as far as text decides them: development commands
  (\<open>daari/rules/dev_commands.py\<close>), the command policy (\<open>daari/policy/engine.py\<close>), live-fetch
  links and integration triggers (\<open>daari/router/router.py\<close>).

  The regular expressions are written as searches for whole words. Word characters are those of
  ASCII; case-insensitive search is search in the lowered text.
\<close>

section \<open>Words\<close>

definition is_word_char :: "char \<Rightarrow> bool" where
  "is_word_char c = (is_digit c \<or> c = CHR ''_'' \<or> (let n = of_char c :: nat in (65 \<le> n \<and> n \<le> 90) \<or> (97 \<le> n \<and> n \<le> 122)))"

definition word_opt :: "char option \<Rightarrow> bool" where
  "word_opt c = (case c of None \<Rightarrow> False | Some x \<Rightarrow> is_word_char x)"

definition first_char :: "pystr \<Rightarrow> char option" where
  "first_char s = (case s of [] \<Rightarrow> None | c # _ \<Rightarrow> Some c)"

text \<open>\<open>\b\<close> between two neighbours.\<close>

definition boundary :: "char option \<Rightarrow> pystr \<Rightarrow> bool" where
  "boundary before s = (word_opt before \<noteq> word_opt (first_char s))"

text \<open>What follows each of the words when it stands whole at this place; the words are not empty.\<close>

definition words_here :: "pystr list \<Rightarrow> char option \<Rightarrow> pystr \<Rightarrow> (char option \<times> pystr) list" where
  "words_here ws before s =
     (if \<not> boundary before s then []
      else map (\<lambda>w. (Some (last w), drop (length w) s))
             (filter (\<lambda>w. starts_with s w \<and> boundary (Some (last w)) (drop (length w) s)) ws))"

text \<open>Every occurrence; with \<open>line\<close> only those before the next newline.\<close>

fun word_rests :: "bool \<Rightarrow> pystr list \<Rightarrow> char option \<Rightarrow> pystr \<Rightarrow> (char option \<times> pystr) list" where
  "word_rests line ws before [] = words_here ws before []"
| "word_rests line ws before (c # s) =
     words_here ws before (c # s)
     @ (if line \<and> c = CHR 0x0A then [] else word_rests line ws (Some c) s)"

definition has_word :: "pystr list \<Rightarrow> pystr \<Rightarrow> bool" where
  "has_word ws text = (word_rests False ws None text \<noteq> [])"

text \<open>\<open>\b(A)\b.*\b(B)\b\<close>\<close>

definition words_then :: "pystr list \<Rightarrow> pystr list \<Rightarrow> pystr \<Rightarrow> bool" where
  "words_then ws vs text =
     list_ex (\<lambda>(b, rest). word_rests True vs b rest \<noteq> []) (word_rests False ws None text)"

text \<open>A word that must only begin, or only end, at a boundary: \<open>\blint|eslint\b\<close>.\<close>

fun lint_word :: "char option \<Rightarrow> pystr \<Rightarrow> bool" where
  "lint_word before [] = False"
| "lint_word before (c # s) =
     (boundary before (c # s) \<and> starts_with (c # s) ''lint''
      \<or> starts_with (c # s) ''eslint'' \<and> boundary (Some CHR ''t'') (drop 6 (c # s))
      \<or> lint_word (Some c) s)"

section \<open>Development commands\<close>

datatype dev_action = Execute | CcsRead

record dev_match =
  dm_action :: dev_action
  dm_command :: "pystr option"
  dm_rule :: pystr
  dm_ttl :: int
  dm_rerun :: bool

definition execute :: "pystr \<Rightarrow> pystr \<Rightarrow> int \<Rightarrow> bool \<Rightarrow> dev_match" where
  "execute command rule ttl rerun =
     \<lparr>dm_action = Execute, dm_command = Some command, dm_rule = rule, dm_ttl = ttl, dm_rerun = rerun\<rparr>"

text \<open>\<open>(run|execute)?\s*command\<close>, the whole text.\<close>

definition is_run_of :: "pystr \<Rightarrow> pystr \<Rightarrow> bool" where
  "is_run_of command text =
     (let t = (if starts_with text ''run'' then drop 3 text
               else if starts_with text ''execute'' then drop 7 text else text)
      in dropWhile is_space t = command)"

definition match_dev_command :: "pystr \<Rightarrow> dev_match option" where
  "match_dev_command text =
     (let t = py_lower (py_strip text) in
      if words_then [''what did'', ''show'', ''last''] [''test'', ''lint'', ''git status'', ''git diff''] t
        then Some \<lparr>dm_action = CcsRead, dm_command = None, dm_rule = ''DEV-06'', dm_ttl = 300, dm_rerun = False\<rparr>
      else if words_then [''re-run'', ''run again''] [''test'', ''lint''] t then
        Some (execute (if lint_word None t then ''eslint .'' else ''pytest'') ''DEV-07'' 300 True)
      else if is_run_of ''git status'' t then Some (execute ''git status'' ''DEV-01'' 60 False)
      else if is_run_of ''git diff'' t then Some (execute ''git diff'' ''DEV-02'' 60 False)
      else if has_word [''pytest'', ''run test'', ''run tests'', ''npm test''] t
        then Some (execute ''pytest'' ''DEV-03'' 300 False)
      else if has_word [''run lint'', ''eslint'', ''run linter''] t then Some (execute ''eslint .'' ''DEV-04'' 300 False)
      else None)"

section \<open>Command policy\<close>

datatype verdict = Allow | Deny | Ask

record command_policy =
  py_allow :: "pystr list"
  py_block :: "pystr list"
  py_unknown :: pystr

definition evaluate_command :: "command_policy \<Rightarrow> pystr \<Rightarrow> bool \<Rightarrow> verdict \<times> pystr" where
  "evaluate_command p command confirmed =
     (let hits = (\<lambda>pat. fnmatchcase (py_lower command) (py_lower pat)) in
      case filter hits (py_block p) of
        pat # _ \<Rightarrow> (Deny, ''blocked by pattern: '' @ pat)
      | [] \<Rightarrow> (case filter hits (py_allow p) of
          pat # _ \<Rightarrow> (Allow, ''allowlist pattern: '' @ pat)
        | [] \<Rightarrow> (if confirmed then (Allow, ''request confirmed by header'')
                 else if py_unknown p = ''ask'' then (Ask, ''unknown command requires confirmation'')
                 else (Deny, ''unknown command denied''))))"

text \<open>\<open>(?:^|\s)--yes(?:\s|$)\<close> in any case.\<close>

fun yes_flag :: "bool \<Rightarrow> pystr \<Rightarrow> bool" where
  "yes_flag at_start [] = False"
| "yes_flag at_start (c # s) =
     (at_start \<and> starts_with (c # s) ''--yes'' \<and> (case drop 4 s of [] \<Rightarrow> True | d # _ \<Rightarrow> is_space d)
      \<or> yes_flag (is_space c) s)"

definition says_yes :: "pystr \<Rightarrow> bool" where
  "says_yes text = yes_flag True (py_lower text)"

section \<open>Live fetch and integrations\<close>

text \<open>The first \<open>https?://\<close> with something behind it, up to white space or a parenthesis.\<close>

definition url_tail :: "pystr \<Rightarrow> pystr" where
  "url_tail s = takeWhile (\<lambda>c. \<not> is_space c \<and> c \<noteq> CHR '')'') s"

fun first_url :: "pystr \<Rightarrow> pystr option" where
  "first_url [] = None"
| "first_url (c # s) =
     (if starts_with (c # s) ''https://'' \<and> url_tail (drop 8 (c # s)) \<noteq> []
        then Some (''https://'' @ url_tail (drop 8 (c # s)))
      else if starts_with (c # s) ''http://'' \<and> url_tail (drop 7 (c # s)) \<noteq> []
        then Some (''http://'' @ url_tail (drop 7 (c # s)))
      else first_url s)"

definition match_live_fetch_url :: "pystr \<Rightarrow> pystr option" where
  "match_live_fetch_url text =
     (if text = '''' then None
      else if \<not> has_word [''fetch'', ''read'', ''summarize'', ''get''] (py_lower text) then None
      else map_option (py_rstrip_chars [CHR ''.'', CHR '','']) (first_url text))"

text \<open>The longest trigger the text starts with; of equally long ones the greatest provider id.\<close>

definition trigger_hits :: "(pystr \<times> pystr list) list \<Rightarrow> pystr \<Rightarrow> (nat \<times> pystr) list" where
  "trigger_hits triggers text =
     concat (map (\<lambda>(provider, ts).
         map (\<lambda>t. (length (py_lower (py_strip t)), provider))
           (filter (\<lambda>t. py_strip t \<noteq> '''' \<and> starts_with (py_lower (py_strip text)) (py_lower (py_strip t))) ts))
       triggers)"

fun best_hit :: "(nat \<times> pystr) list \<Rightarrow> (nat \<times> pystr) option" where
  "best_hit [] = None"
| "best_hit (x # xs) = (case best_hit xs of None \<Rightarrow> Some x
     | Some y \<Rightarrow> (if fst x < fst y \<or> fst x = fst y \<and> str_less (snd x) (snd y) then Some y else Some x))"

definition match_integration_provider :: "(pystr \<times> pystr list) list \<Rightarrow> pystr \<Rightarrow> pystr option" where
  "match_integration_provider triggers text = map_option snd (best_hit (trigger_hits triggers text))"

section \<open>Facts\<close>

definition KNOWN_COMMANDS :: "pystr list" where
  "KNOWN_COMMANDS = [''git status'', ''git diff'', ''pytest'', ''eslint .'']"

text \<open>Nothing of the prompt reaches the command line.\<close>

lemma dev_commands_are_fixed:
  "match_dev_command text = Some m \<Longrightarrow> dm_command m = Some cmd \<Longrightarrow> cmd \<in> set KNOWN_COMMANDS"
  by (auto simp: match_dev_command_def execute_def KNOWN_COMMANDS_def Let_def split: if_splits)

lemma dev_command_executes:
  "match_dev_command text = Some m \<Longrightarrow> dm_action m = Execute \<Longrightarrow> \<exists>cmd \<in> set KNOWN_COMMANDS. dm_command m = Some cmd"
  by (auto simp: match_dev_command_def execute_def KNOWN_COMMANDS_def Let_def split: if_splits)

lemma filter_hit: "filter P xs = a # as \<Longrightarrow> a \<in> set xs \<and> P a"
  by (metis filter_is_subset filter_eq_ConsD in_set_conv_decomp)

lemma evaluate_allows_iff:
  "fst (evaluate_command p command confirmed) = Allow \<longleftrightarrow>
     (\<forall>pat \<in> set (py_block p). \<not> fnmatchcase (py_lower command) (py_lower pat))
     \<and> ((\<exists>pat \<in> set (py_allow p). fnmatchcase (py_lower command) (py_lower pat)) \<or> confirmed)"
proof (cases "filter (\<lambda>pat. fnmatchcase (py_lower command) (py_lower pat)) (py_block p)")
  case Nil
  then have blk: "\<forall>pat \<in> set (py_block p). \<not> fnmatchcase (py_lower command) (py_lower pat)"
    by (simp add: filter_empty_conv)
  show ?thesis
  proof (cases "filter (\<lambda>pat. fnmatchcase (py_lower command) (py_lower pat)) (py_allow p)")
    case Nil
    then have "\<forall>pat \<in> set (py_allow p). \<not> fnmatchcase (py_lower command) (py_lower pat)" by (simp add: filter_empty_conv)
    then show ?thesis using blk Nil \<open>filter _ (py_block p) = []\<close> by (simp add: evaluate_command_def Let_def)
  next
    case (Cons a as)
    then have "a \<in> set (py_allow p) \<and> fnmatchcase (py_lower command) (py_lower a)" by (rule filter_hit)
    then show ?thesis using blk Cons \<open>filter _ (py_block p) = []\<close> by (auto simp: evaluate_command_def Let_def)
  qed
next
  case (Cons a as)
  then have "a \<in> set (py_block p) \<and> fnmatchcase (py_lower command) (py_lower a)" by (rule filter_hit)
  then show ?thesis using Cons by (auto simp: evaluate_command_def Let_def)
qed

lemma best_hit_None [simp]: "best_hit xs = None \<longleftrightarrow> xs = []"
  by (cases xs) (auto split: option.splits if_splits)

lemma best_hit_in: "best_hit xs = Some y \<Longrightarrow> y \<in> set xs \<and> (\<forall>x \<in> set xs. fst x \<le> fst y)"
  by (induction xs arbitrary: y) (fastforce split: option.splits if_splits)+

lemma longest_trigger:
  assumes "match_integration_provider triggers text = Some provider"
  shows "\<exists>ts n. (provider, ts) \<in> set triggers \<and> (n, provider) \<in> set (trigger_hits triggers text)
    \<and> (\<forall>(k, p) \<in> set (trigger_hits triggers text). k \<le> n)"
proof -
  obtain y where y: "best_hit (trigger_hits triggers text) = Some y" "snd y = provider"
    using assms by (auto simp: match_integration_provider_def)
  have m: "y \<in> set (trigger_hits triggers text)" "\<forall>x \<in> set (trigger_hits triggers text). fst x \<le> fst y"
    using best_hit_in [OF y(1)] by auto
  have "\<exists>ts. (provider, ts) \<in> set triggers" using m(1) y(2) by (auto simp: trigger_hits_def)
  then show ?thesis using m y(2) by (metis case_prodI2 fst_conv prod.collapse)
qed

lemma demo_commands:
  "match_dev_command ''Show me the last git status''
     = Some \<lparr>dm_action = CcsRead, dm_command = None, dm_rule = ''DEV-06'', dm_ttl = 300, dm_rerun = False\<rparr>"
  "match_dev_command ''re-run the eslint, then lint'' = Some (execute ''eslint .'' ''DEV-07'' 300 True)"
  "match_dev_command ''RUN git status'' = Some (execute ''git status'' ''DEV-01'' 60 False)"
  "match_dev_command ''please run tests'' = Some (execute ''pytest'' ''DEV-03'' 300 False)"
  "match_dev_command ''mypytest'' = None"
  "match_live_fetch_url ''Please fetch (http://a.b/c).'' = Some ''http://a.b/c''"
  "says_yes ''do it --YES now''" "\<not> says_yes ''--yesterday''"
  by code_simp+

end
