(* ===== verification/Generation.thy ===== *)
theory Generation
  imports TierChoice VirtualModels ContextTrim DevCommands
begin

text \<open>
  From a request to a generated answer (\<open>daari/router/router.py\<close>): one local tier, the fall-backs
  between tiers, the virtual models, the escalation of a low-confidence answer and the write-back
  to the caches.

  What executors and services answer is an oracle indexed by the length of the log of what was
  sent so far, so every call of the source is one entry of the log, in order, and may answer
  differently each time. A raised exception is an \<open>Inl\<close>.
\<close>

section \<open>Answers, errors, log\<close>

record answer =
  a_content :: pystr
  a_model :: pystr
  a_tier :: pystr
  a_tool_calls :: bool
  a_warning :: "pystr option"
  a_escalated_from :: "pystr option"
  a_confidence :: "pyfloat option"
  a_prompt_chars :: "nat option"
  a_cache_hit :: bool
  a_virtual :: "(pystr \<times> pystr) option"

datatype route_error =
    DeadlineExceeded
  | PoolUnavailable
  | EgressBlocked
  | ZdrUnavailable
  | RegionUnavailable
  | NoCapability "pystr list"
  | WebSearchUnavailable pystr
  | MultiAgentUnavailable pystr
  | OtherError pystr              \<comment> \<open>any other exception, with its text\<close>

datatype hop =
    LocalHop pystr pystr "pystr option" "message list"
      \<comment> \<open>tier, template model, why cloud hosts are skipped, what is sent\<close>
  | SummaryHop pystr                         \<comment> \<open>model asked for a summary\<close>
  | OrgHop
  | FrontierHop pystr pystr "message list"   \<comment> \<open>escalated from, model, what is sent\<close>
  | CacheWrite pystr "message list" pystr   \<comment> \<open>which cache, the conversation it is keyed by, the answer\<close>
  | ShellRun pystr
  | ContextWrite pystr pystr                 \<comment> \<open>command, output\<close>
  | LiveFetch pystr
  | IntegrationCall pystr
  | ReplayLocal pystr pystr "message list"      \<comment> \<open>evaluation replay: tier, model, what is sent\<close>
  | ReplayFrontier pystr pystr "message list"   \<comment> \<open>evaluation replay: served tier, model, what is sent\<close>

text \<open>What the evaluation replays of \<open>ShadowEvals\<close> are configured with, read and keep.\<close>

record shadow_config =
  sw_feedback :: bool
  sw_l1_rate :: pyfloat
  sw_rate :: pyfloat
  sw_compare :: pystr
  sw_daily_usd :: pyfloat

record shadow_env =
  sv_l1_draw :: pyfloat                              \<comment> \<open>what the sampling of each kind draws\<close>
  sv_draw :: pyfloat
  sv_today :: pystr
  sv_usd :: "answer \<Rightarrow> nat \<Rightarrow> pyfloat"                  \<comment> \<open>priced from its token usage\<close>
  sv_similarity :: "pystr \<Rightarrow> pystr \<Rightarrow> pyfloat option"    \<comment> \<open>of the embeddings; None: one is missing\<close>

record shadow_row =
  sh_category :: pystr
  sh_served :: pystr
  sh_compared :: pystr
  sh_similarity :: pyfloat
  sh_agreed :: bool

record shadow_state =
  ss_day :: pystr
  ss_spent :: pyfloat
  ss_rows :: "shadow_row list"
  ss_l1_rows :: "(pystr \<times> pyfloat \<times> bool) list"   \<comment> \<open>category, similarity, agreed\<close>

record route_config =
  rt_tiers :: tier_config
  rt_context :: context_config
  rt_threshold :: pyfloat
  rt_org_pool :: bool
  rt_org_cache :: bool
  rt_pool_fallback :: bool
  rt_virtual :: "(pystr \<times> pystr list) list"
  rt_virtual_mode :: pystr
  rt_virtual_slo :: "(pystr \<times> pyfloat) list"
  rt_classify :: "classify_settings option"
  rt_compress :: bool
  rt_scrub :: bool
  rt_skills :: pystr
  rt_l1_draft :: pyfloat
  rt_integrations :: "(pystr \<times> pystr list) list"
  rt_ccs :: bool
  rt_providers :: "pystr list"               \<comment> \<open>registered provider ids\<close>
  rt_policy :: command_policy
  rt_frontier_default :: pystr
  rt_evals :: shadow_config

record hop_env =
  en_json :: json_lib
  en_digest :: "pystr \<Rightarrow> pystr"
  en_pins :: pin_env
  en_tuned :: "pystr \<Rightarrow> pyfloat option"                       \<comment> \<open>the tuner; None: none, or it raised\<close>
  en_breaker_open :: "pystr \<Rightarrow> bool"
  en_compress :: "message list \<Rightarrow> (message list \<times> nat \<times> nat) option"
  en_scrub :: "message list \<Rightarrow> (message list \<times> bool) option"   \<comment> \<open>None: raised; whether anything was found\<close>
  en_deadline :: "nat \<Rightarrow> bool"
  en_ledger :: "nat \<Rightarrow> ledger_answer option"
  en_clock_ms :: "nat \<Rightarrow> pyfloat"
  en_pin_reply :: redis_put
  en_pin_now :: pyfloat
  en_local :: "nat \<Rightarrow> pystr \<Rightarrow> route_error + answer"
  en_summary :: "nat \<Rightarrow> pystr option"
  en_org :: "nat \<Rightarrow> route_error + answer"
  en_frontier :: "nat \<Rightarrow> route_error + answer"
  en_evals :: shadow_env

record route_state =
  st_router :: router_state
  st_summaries :: "(pystr \<times> pystr) list"
  st_perf :: "perf_tracker option"
  st_log :: "hop list"
  st_evals :: shadow_state

abbreviation fence_of :: "route_config \<Rightarrow> fence_config" where
  "fence_of c \<equiv> tc_fence (rt_tiers c)"

definition sent :: "hop list \<Rightarrow> route_state \<Rightarrow> route_state" where
  "sent hops st = st\<lparr>st_log := st_log st @ hops\<rparr>"

definition now_at :: "route_state \<Rightarrow> nat" where
  "now_at st = length (st_log st)"

section \<open>Before the frontier\<close>

definition compress_for_frontier :: "route_config \<Rightarrow> hop_env \<Rightarrow> internal_request \<Rightarrow> internal_request" where
  "compress_for_frontier c env q =
     (if \<not> rt_compress c \<or> agent_turn q then q
      else (case en_compress env (q_messages q) of None \<Rightarrow> q
        | Some (out, before, after) \<Rightarrow> (if after \<ge> before then q else q\<lparr>q_messages := out\<rparr>)))"

definition scrub_for_frontier :: "route_config \<Rightarrow> hop_env \<Rightarrow> internal_request \<Rightarrow> internal_request" where
  "scrub_for_frontier c env q =
     (if \<not> rt_scrub c then q
      else (case en_scrub env (q_messages q) of None \<Rightarrow> q
        | Some (out, found) \<Rightarrow> (if found then q\<lparr>q_messages := out\<rparr> else q)))"

section \<open>One local tier\<close>

text \<open>An executor stamps its own tier on its answers; the L3 executor also serves unknown tiers.\<close>

definition executor_tier :: "pystr \<Rightarrow> pystr" where
  "executor_tier t = (if t = ''L4'' \<or> t = ''L5'' then t else ''L3'')"

text \<open>
  Without a pool, the request of a registered provider is copied from before the scrub. The pool
  scrubs for the cloud hosts it picks itself.
\<close>

definition local_messages :: "route_config \<Rightarrow> hop_env \<Rightarrow> local_pool option \<Rightarrow> pystr \<Rightarrow> internal_request \<Rightarrow> message list" where
  "local_messages c env pool tier q =
     (if pool = None \<and> is_ollama_cloud_model (executor_model (fence_of c) tier)
         \<and> ''ollama:'' @ py_lower tier \<notin> set (rt_providers c)
      then q_messages (scrub_for_frontier c env q) else q_messages q)"

definition prepare_local :: "route_config \<Rightarrow> internal_request \<Rightarrow> internal_request" where
  "prepare_local c q = (let q = optimize_context (rt_context c) q
     in q\<lparr>q_messages := hoist_system_messages (q_messages q)\<rparr>)"

definition run_model_tier ::
    "route_config \<Rightarrow> hop_env \<Rightarrow> pystr \<Rightarrow> internal_request \<Rightarrow> route_state \<Rightarrow> (route_error + answer) \<times> route_state" where
  "run_model_tier c env tier q st =
     (if en_deadline env (now_at st) then (Inl DeadlineExceeded, st)
      else (case compact_context (rt_context c) (en_digest env) (en_summary env (now_at st)) (st_summaries st) q of
        (q1, cache, asked) \<Rightarrow>
          (let st1 = sent (if asked then [SummaryHop (fc_l3 (fence_of c))] else []) (st\<lparr>st_summaries := cache\<rparr>);
               q2 = prepare_local c q1;
               model = executor_model (fence_of c) tier;
               reason = cloud_block_reason (fence_of c) q;
               pool = rs_pool (st_router st)
           in if pool = None \<and> reason \<noteq> None \<and> is_ollama_cloud_model model then (Inl EgressBlocked, st1)
              else (map_sum id (\<lambda>r. r\<lparr>a_tier := executor_tier tier\<rparr>) (en_local env (now_at st1) tier),
                    sent [LocalHop tier model reason (local_messages c env pool tier q2)] st1))))"

definition frontier_request :: "route_config \<Rightarrow> hop_env \<Rightarrow> internal_request \<Rightarrow> internal_request" where
  "frontier_request c env q =
     scrub_for_frontier c env (compress_for_frontier c env
       (slim_for_frontier (rt_context c) (compact_to_fit_for_frontier (en_json env) (rt_context c) q)))"

text \<open>The frontier executor stamps tier L6, where the request came from and the confidence it is told.\<close>

definition frontier_execute_hop ::
    "route_config \<Rightarrow> hop_env \<Rightarrow> pystr \<Rightarrow> pyfloat \<Rightarrow> pystr \<Rightarrow> internal_request \<Rightarrow> route_state \<Rightarrow>
     (route_error + answer) \<times> route_state" where
  "frontier_execute_hop c env from_tier confidence model q st =
     (let q6 = frontier_request c env q in
      (map_sum id (\<lambda>r. r\<lparr>a_tier := ''L6'', a_escalated_from := Some from_tier, a_confidence := Some confidence,
           a_prompt_chars := Some (conversation_chars (q_messages q6))\<rparr>) (en_frontier env (now_at st)),
       sent [FrontierHop from_tier model (q_messages q6)] st))"

definition ledger_state :: "route_config \<Rightarrow> hop_env \<Rightarrow> route_state \<Rightarrow> budget_state" where
  "ledger_state c env st = frontier_budget_state (fence_of c) (en_ledger env (now_at st))"

section \<open>Escalation\<close>

definition warn :: "pystr \<Rightarrow> answer \<Rightarrow> answer" where
  "warn w r = r\<lparr>a_warning := Some w\<rparr>"

definition scored :: "answer \<Rightarrow> answer" where
  "scored r = r\<lparr>a_confidence := Some (score_l3_confidence (a_content r))\<rparr>"

definition confidence_threshold_for :: "route_config \<Rightarrow> hop_env \<Rightarrow> internal_request \<Rightarrow> prompt_profile \<Rightarrow> pyfloat" where
  "confidence_threshold_for c env q pf =
     (if str_or (q_tier_override q) '''' \<noteq> '''' then rt_threshold c
      else (case en_tuned env (pf_category pf) of None \<Rightarrow> rt_threshold c | Some t \<Rightarrow> t))"

text \<open>Up the local tiers: an answer good enough or an error ends the climb.\<close>

fun climb ::
    "route_config \<Rightarrow> hop_env \<Rightarrow> internal_request \<Rightarrow> pyfloat \<Rightarrow> pystr list \<Rightarrow> answer \<Rightarrow> route_state \<Rightarrow>
     (answer + answer) \<times> route_state" where
  "climb c env q threshold [] resp st = (Inr resp, st)"
| "climb c env q threshold (t # ts) resp st =
     (case run_model_tier c env t q st of
        (Inl DeadlineExceeded, st') \<Rightarrow> (Inl (warn ''request_deadline_exceeded'' resp), st')
      | (Inl e, st') \<Rightarrow> (Inl (warn ''below_confidence_threshold'' resp), st')
      | (Inr r, st') \<Rightarrow>
          (if score_l3_confidence (a_content r) \<ge> threshold then (Inl (scored r), st')
           else climb c env q threshold ts (scored r) st'))"

definition escalation_chain :: "route_config \<Rightarrow> internal_request \<Rightarrow> pystr \<Rightarrow> pystr list" where
  "escalation_chain c q current =
     (let chain = (case effective_tier_cap (fence_of c) q of None \<Rightarrow> TIER_LADDER
                   | Some cap \<Rightarrow> take (Suc (tier_rank cap)) TIER_LADDER)
      in case index_of current chain of None \<Rightarrow> [] | Some i \<Rightarrow> drop (Suc i) chain)"

text \<open>The organisation's pool: \<open>Inl\<close> ends the escalation, \<open>Inr\<close> is the answer to go on with.\<close>

definition try_org_pool ::
    "route_config \<Rightarrow> hop_env \<Rightarrow> pyfloat \<Rightarrow> answer \<Rightarrow> route_state \<Rightarrow> (answer + answer) \<times> route_state" where
  "try_org_pool c env threshold resp st =
     (if \<not> rt_org_pool c then (Inr resp, st)
      else if en_deadline env (now_at st) then (Inl (warn ''request_deadline_exceeded'' resp), st)
      else (let st' = sent [OrgHop] st in
        case en_org env (now_at st) of
          Inl DeadlineExceeded \<Rightarrow> (Inl (warn ''request_deadline_exceeded'' resp), st')
        | Inl e \<Rightarrow> (Inr resp, st')
        | Inr r \<Rightarrow>
            (let r' = (scored r)\<lparr>a_tier := ''L5-org'', a_escalated_from := Some (a_tier resp)\<rparr> in
             (if score_l3_confidence (a_content r) \<ge> threshold then Inl r' else Inr r', st'))))"

definition escalate_frontier ::
    "route_config \<Rightarrow> hop_env \<Rightarrow> internal_request \<Rightarrow> answer \<Rightarrow> route_state \<Rightarrow> (route_error + answer) \<times> route_state" where
  "escalate_frontier c env q resp st =
     (if \<not> frontier_reachable (fence_of c) q then (Inr (warn ''below_confidence_threshold'' resp), st)
      else if ledger_state c env st = BudgetExceeded then (Inr (warn ''frontier_budget_exceeded'' resp), st)
      else if en_deadline env (now_at st) then (Inr (warn ''request_deadline_exceeded'' resp), st)
      else (case frontier_execute_hop c env (a_tier resp) (score_l3_confidence (a_content resp)) (q_model q) q st of
          (Inr r, st') \<Rightarrow> (Inr (if ledger_state c env st = BudgetSoft then warn ''frontier_budget_warning'' r else r), st')
        | (Inl DeadlineExceeded, st') \<Rightarrow> (Inr (warn ''request_deadline_exceeded'' resp), st')
        | (Inl ZdrUnavailable, st') \<Rightarrow> (Inl ZdrUnavailable, st')
        | (Inl RegionUnavailable, st') \<Rightarrow> (Inr (warn ''region_pin_unavailable'' resp), st')
        | (Inl e, st') \<Rightarrow> (Inr (warn ''below_confidence_threshold'' resp), st')))"

text \<open>\<open>local_ladder\<close> is off when a stream has already been through the local tiers.\<close>

definition maybe_escalate ::
    "route_config \<Rightarrow> hop_env \<Rightarrow> bool \<Rightarrow> internal_request \<Rightarrow> prompt_profile \<Rightarrow> answer \<Rightarrow> route_state \<Rightarrow>
     (route_error + answer) \<times> route_state" where
  "maybe_escalate c env local_ladder q pf resp st =
     (let threshold = confidence_threshold_for c env q pf; resp = scored resp in
      if score_l3_confidence (a_content resp) \<ge> threshold then (Inr resp, st)
      else (case climb c env q threshold (if local_ladder then escalation_chain c q (a_tier resp) else []) resp st of
          (Inl r, st1) \<Rightarrow> (Inr r, st1)
        | (Inr r, st1) \<Rightarrow>
            (case try_org_pool c env threshold r st1 of
               (Inl r', st2) \<Rightarrow> (Inr r', st2)
             | (Inr r', st2) \<Rightarrow> escalate_frontier c env q r' st2)))"

section \<open>Falling back\<close>

definition failover_context_length ::
    "route_config \<Rightarrow> hop_env \<Rightarrow> internal_request \<Rightarrow> route_state \<Rightarrow> (route_error + answer) \<times> route_state" where
  "failover_context_length c env q st =
     (let served = (\<lambda>w r. r\<lparr>a_escalated_from := Some ''L3'', a_warning := Some w\<rparr>) in
      case run_model_tier c env ''L4'' q st of
        (Inr r, st1) \<Rightarrow> (Inr (served ''context_too_long_fell_back_to_l4'' r), st1)
      | (Inl DeadlineExceeded, st1) \<Rightarrow> (Inl DeadlineExceeded, st1)
      | (Inl _, st1) \<Rightarrow>
          (case run_model_tier c env ''L5'' q st1 of
             (Inr r, st2) \<Rightarrow> (Inr (served ''context_too_long_fell_back_to_l5'' r), st2)
           | (Inl DeadlineExceeded, st2) \<Rightarrow> (Inl DeadlineExceeded, st2)
           | (Inl _, st2) \<Rightarrow>
               (case run_model_tier c env ''L3'' q st2 of
                  (r, st3) \<Rightarrow> (map_sum id (served ''context_too_long_compressed'') r, st3))))"

definition is_context_error :: "route_error \<Rightarrow> bool" where
  "is_context_error e = (case e of OtherError t \<Rightarrow> is_context_length_error t | _ \<Rightarrow> False)"

text \<open>Opt-in L6 when the pool is exhausted; \<open>None\<close>: the error stands.\<close>

definition local_pool_frontier_fallback ::
    "route_config \<Rightarrow> hop_env \<Rightarrow> pystr \<Rightarrow> internal_request \<Rightarrow> route_error \<Rightarrow> route_state \<Rightarrow>
     (route_error + answer) option \<times> route_state" where
  "local_pool_frontier_fallback c env from_tier q e st =
     (if e \<noteq> PoolUnavailable \<or> \<not> rt_pool_fallback c \<or> \<not> frontier_reachable (fence_of c) q
         \<or> ledger_state c env st = BudgetExceeded then (None, st)
      else if en_deadline env (now_at st) then (Some (Inl DeadlineExceeded), st)
      else (case frontier_execute_hop c env from_tier 0 (q_model q) q st of
          (Inr r, st') \<Rightarrow> (Some (Inr (warn (if ledger_state c env st = BudgetSoft then ''frontier_budget_warning''
                                        else ''local_pool_frontier_fallback'') r)), st')
        | (Inl DeadlineExceeded, st') \<Rightarrow> (Some (Inl DeadlineExceeded), st')
        | (Inl _, st') \<Rightarrow> (None, st')))"

text \<open>The chain behind a failed first tier; \<open>cap_q\<close> is the client's request, \<open>q\<close> what is generated from.\<close>

definition fall_back ::
    "route_config \<Rightarrow> hop_env \<Rightarrow> pystr \<Rightarrow> internal_request \<Rightarrow> internal_request \<Rightarrow> route_error \<Rightarrow> route_state \<Rightarrow>
     (route_error + answer) \<times> route_state" where
  "fall_back c env initial cap_q q e st =
     (if e = DeadlineExceeded then (Inl DeadlineExceeded, st)
      else if e = EgressBlocked then
        (case alternate_non_cloud_tier (fence_of c) (rs_pool (st_router st)) [initial] cap_q of
           None \<Rightarrow> (Inl e, st)
         | Some alt \<Rightarrow> (case run_model_tier c env alt q st of
             (r, st1) \<Rightarrow> (map_sum id (warn ''cloud_egress_skipped'') r, st1)))
      else if initial = ''L3'' then
        (if is_context_error e then failover_context_length c env q st else (Inl e, st))
      else if initial = ''L4'' then
        (case run_model_tier c env ''L3'' q st of
           (r, st1) \<Rightarrow> (map_sum id (warn ''l4_unavailable_fell_back_to_l3'') r, st1))
      else if initial = ''L5'' then
        (case run_model_tier c env ''L4'' q st of
           (Inr r, st1) \<Rightarrow> (Inr (warn ''l5_unavailable_fell_back_to_l4'' r), st1)
         | (Inl DeadlineExceeded, st1) \<Rightarrow> (Inl DeadlineExceeded, st1)
         | (Inl _, st1) \<Rightarrow> (case run_model_tier c env ''L3'' q st1 of
             (r, st2) \<Rightarrow> (map_sum id (warn ''l5_unavailable_fell_back_to_l3'') r, st2)))
      else (Inl e, st))"

section \<open>Virtual models\<close>

definition observe :: "pystr \<Rightarrow> pystr \<Rightarrow> bool \<Rightarrow> pyfloat \<Rightarrow> route_state \<Rightarrow> route_state" where
  "observe vm cand ok ms st = st\<lparr>st_perf := map_option
     (if ok then observe_success vm cand ms else observe_error vm cand ms) (st_perf st)\<rparr>"

definition candidate_model :: "route_config \<Rightarrow> pystr \<Rightarrow> internal_request \<Rightarrow> pystr" where
  "candidate_model c cand q =
     (if upper_ascii (py_strip cand) \<notin> {''L6'', ''FRONTIER''} then cand
      else if fc_frontier (fence_of c) \<noteq> None \<and> rt_frontier_default c \<noteq> '''' then rt_frontier_default c
      else q_model q)"

definition warn_if_none :: "pystr \<Rightarrow> answer \<Rightarrow> answer" where
  "warn_if_none w r = (if str_or (a_warning r) '''' = '''' then warn w r else r)"

text \<open>One candidate; the fences are read from the client's request \<open>cq\<close>.\<close>

definition try_candidate ::
    "route_config \<Rightarrow> hop_env \<Rightarrow> internal_request \<Rightarrow> internal_request \<Rightarrow> pystr \<Rightarrow> route_state \<Rightarrow>
     (route_error + answer) \<times> route_state" where
  "try_candidate c env q cq cand st =
     (case classify_candidate cand (rt_classify c) of
        LocalTier tier \<Rightarrow> run_model_tier c env tier q st
      | FrontierModel target \<Rightarrow>
          (if \<not> frontier_reachable (fence_of c) cq then (Inl PoolUnavailable, st)
           else if ledger_state c env st = BudgetExceeded then (Inl PoolUnavailable, st)
           else if en_deadline env (now_at st) then (Inl DeadlineExceeded, st)
           else (case frontier_execute_hop c env (if target \<noteq> ''L6'' then target else ''virtual'') 0
                   (candidate_model c cand q) q st of
               (r, st') \<Rightarrow> (map_sum id (if ledger_state c env st = BudgetSoft
                              then warn_if_none ''frontier_budget_warning'' else id) r, st'))))"

text \<open>Only an unavailable back end moves on to the next candidate.\<close>

fun virtual_loop ::
    "route_config \<Rightarrow> hop_env \<Rightarrow> internal_request \<Rightarrow> internal_request \<Rightarrow> pystr \<Rightarrow> pystr list \<Rightarrow> route_state \<Rightarrow>
     (route_error + answer) \<times> route_state" where
  "virtual_loop c env q cq vm [] st = (Inl PoolUnavailable, st)"
| "virtual_loop c env q cq vm (cand # rest) st =
     (case try_candidate c env q cq cand st of (r, st1) \<Rightarrow>
       (let ms = en_clock_ms env (now_at st1) - en_clock_ms env (now_at st) in
        case r of
          Inl PoolUnavailable \<Rightarrow> virtual_loop c env q cq vm rest (observe vm cand False ms st1)
        | Inl e \<Rightarrow> (Inl e, st1)
        | Inr a \<Rightarrow> (Inr (a\<lparr>a_virtual := Some (vm, cand)\<rparr>), observe vm cand True ms st1)))"

text \<open>\<open>None\<close>: the model is not a virtual name.\<close>

definition try_virtual_model ::
    "route_config \<Rightarrow> hop_env \<Rightarrow> internal_request \<Rightarrow> internal_request \<Rightarrow> route_state \<Rightarrow>
     (route_error + answer) option \<times> route_state" where
  "try_virtual_model c env q cq st =
     (let vm = py_strip (q_model cq) in
      case resolve_virtual_candidates (Some vm) (rt_virtual c) of
        None \<Rightarrow> (None, st)
      | Some configured \<Rightarrow>
          (case order_virtual_candidates configured (rt_virtual_mode c) vm (st_perf st) (en_breaker_open env)
                  (map_of (rt_virtual_slo c) vm) of
             (cands, perf) \<Rightarrow>
               (case virtual_loop c env q cq vm cands (st\<lparr>st_perf := perf\<rparr>) of (r, st') \<Rightarrow> (Some r, st'))))"

section \<open>Generating\<close>

text \<open>The tier that served is what the session is pinned to.\<close>

definition finish_session_pin ::
    "route_config \<Rightarrow> hop_env \<Rightarrow> internal_request \<Rightarrow> answer \<Rightarrow> route_state \<Rightarrow> route_state" where
  "finish_session_pin c env cq r st =
     (if \<not> tc_session_affinity (rt_tiers c) \<or> a_tier r \<notin> {''L3'', ''L4'', ''L5'', ''L6''} then st
      else (let pfx = conversation_prefix_hash (pn_digest (en_pins env)) (q_messages cq);
                pins = fst (session_put (en_pin_reply env) (en_pin_now env) (pin_session_key (en_pins env) cq)
                              (a_tier r) (Some (a_model r)) pfx (rs_pins (st_router st)))
            in st\<lparr>st_router := (st_router st)\<lparr>rs_pins := pins\<rparr>\<rparr>))"

definition cache_writes :: "route_config \<Rightarrow> bool \<Rightarrow> internal_request \<Rightarrow> answer \<Rightarrow> hop list" where
  "cache_writes c cache_skip cq r =
     (if q_no_cache cq \<or> cache_skip \<or> a_tier r \<notin> {''L3'', ''L4'', ''L5''} \<or> py_strip (a_content r) = '''' then []
      else map (\<lambda>k. CacheWrite k (q_messages cq) (a_content r))
        ([''l0''] @ (if rt_org_cache c then [''l0-org''] else [])
         @ (if agent_turn cq then (if a_tool_calls r then [] else [''agent-prefix''])
            else [''l1''] @ (if rt_org_cache c then [''l1-org''] else []))))"

text \<open>The first tier, its fall-backs, and the escalation unless the pool's frontier fall-back served.\<close>

definition generate_on_tiers ::
    "route_config \<Rightarrow> hop_env \<Rightarrow> internal_request \<Rightarrow> internal_request \<Rightarrow> prompt_profile \<Rightarrow> route_state \<Rightarrow>
     (route_error + answer) \<times> route_state" where
  "generate_on_tiers c env q cq pf st =
     (case choose_initial_tier (en_json env) (rt_tiers c) (en_pins env) cq pf (st_router st) of
        (Inl required, rs) \<Rightarrow> (Inl (NoCapability required), st\<lparr>st_router := rs\<rparr>)
      | (Inr initial, rs) \<Rightarrow>
          (case run_model_tier c env initial q (st\<lparr>st_router := rs\<rparr>) of
             (Inr r, st1) \<Rightarrow> maybe_escalate c env True q pf r st1
           | (Inl DeadlineExceeded, st1) \<Rightarrow> (Inl DeadlineExceeded, st1)
           | (Inl e, st1) \<Rightarrow>
               (case fall_back c env initial cq q e st1 of
                  (Inr r, st2) \<Rightarrow> maybe_escalate c env True q pf r st2
                | (Inl DeadlineExceeded, st2) \<Rightarrow> (Inl DeadlineExceeded, st2)
                | (Inl e2, st2) \<Rightarrow>
                    (case local_pool_frontier_fallback c env initial q e2 st2 of
                       (None, st3) \<Rightarrow> (Inl e2, st3)
                     | (Some r, st3) \<Rightarrow> (r, st3)))))"

definition route_generation_fill ::
    "route_config \<Rightarrow> hop_env \<Rightarrow> internal_request \<Rightarrow> internal_request \<Rightarrow> prompt_profile \<Rightarrow> bool \<Rightarrow> route_state \<Rightarrow>
     (route_error + answer) \<times> route_state" where
  "route_generation_fill c env q cq pf cache_skip st =
     (case (case try_virtual_model c env q cq st of
              (Some r, st1) \<Rightarrow> (r, st1)
            | (None, st1) \<Rightarrow> generate_on_tiers c env q cq pf st1) of
        (Inl e, st2) \<Rightarrow> (Inl e, st2)
      | (Inr r, st2) \<Rightarrow> (Inr r, sent (cache_writes c cache_skip cq r) (finish_session_pin c env cq r st2)))"

end
