(* ===== verification/ShadowEvals.thy ===== *)
theory ShadowEvals
  imports Generation
begin

text \<open>
  Replaying a request in the background to measure routing quality: a sampled near-match of the cache
  is checked against L3 (\<open>Router._maybe_shadow_check\<close>), a sampled local answer against a comparison tier
  (\<open>Router._maybe_tier_shadow\<close>, both in \<open>daari/router/router.py\<close>). Each is a task created at the end of
  its request; the model runs it right there, after everything else the request sends.
\<close>

definition SHADOW_AGREE_SIMILARITY :: pyfloat where "SHADOW_AGREE_SIMILARITY = 80 / 100"

section \<open>Near-matches\<close>

text \<open>The L3 executor is called itself, with the request as it is: no pool, no skip reason. An exception of
  the task is swallowed.\<close>

definition shadow_check ::
    "route_config \<Rightarrow> hop_env \<Rightarrow> internal_request \<Rightarrow> pystr \<Rightarrow> pystr \<Rightarrow> route_state \<Rightarrow> route_state" where
  "shadow_check c env q content category st =
     (let st1 = sent [ReplayLocal ''L3'' (fc_l3 (fence_of c)) (q_messages q)] st in
      case en_local env (now_at st) ''L3'' of
        Inl err \<Rightarrow> st1
      | Inr fresh \<Rightarrow>
          (if py_strip (a_content fresh) = '''' then st1
           else (case sv_similarity (en_evals env) content (a_content fresh) of None \<Rightarrow> st1
             | Some sim \<Rightarrow> st1\<lparr>st_evals := (st_evals st1)\<lparr>ss_l1_rows := ss_l1_rows (st_evals st1)
                 @ [(category, sim, sim \<ge> SHADOW_AGREE_SIMILARITY)]\<rparr>\<rparr>)))"

definition maybe_shadow_check ::
    "route_config \<Rightarrow> hop_env \<Rightarrow> internal_request \<Rightarrow> pystr \<Rightarrow> prompt_profile \<Rightarrow> route_state \<Rightarrow> route_state" where
  "maybe_shadow_check c env q content pf st =
     (let w = rt_evals c in
      if \<not> sw_feedback w \<or> sw_l1_rate w \<le> 0 \<or> py_strip content = '''' \<or> sv_l1_draw (en_evals env) \<ge> sw_l1_rate w then st
      else shadow_check c env q content (pf_category pf) st)"

section \<open>Local answers\<close>

definition tier_shadow_spend :: "shadow_env \<Rightarrow> shadow_state \<Rightarrow> pyfloat" where
  "tier_shadow_spend e s = (if ss_day s = sv_today e then ss_spent s else 0)"

definition add_tier_shadow_spend :: "shadow_env \<Rightarrow> pyfloat \<Rightarrow> shadow_state \<Rightarrow> shadow_state" where
  "add_tier_shadow_spend e usd s = s\<lparr>ss_day := sv_today e, ss_spent := tier_shadow_spend e s + max 0 usd\<rparr>"

definition highest_local_tier :: "fence_config \<Rightarrow> pystr" where
  "highest_local_tier c = (if executor_model c ''L5'' \<noteq> executor_model c ''L4'' then ''L5''
     else if executor_model c ''L4'' \<noteq> executor_model c ''L3'' then ''L4'' else ''L3'')"

definition tier_shadow_target ::
    "shadow_config \<Rightarrow> fence_config \<Rightarrow> shadow_env \<Rightarrow> shadow_state \<Rightarrow> pystr \<Rightarrow> pystr option" where
  "tier_shadow_target w c e s served =
     (let target = (if sw_compare w \<noteq> '''' then sw_compare w else highest_local_tier c) in
      if target = ''L6'' then
        (case fc_frontier c of None \<Rightarrow> None
         | Some f \<Rightarrow> (if sw_daily_usd w \<le> 0 \<or> \<not> fr_has_key f \<or> tier_shadow_spend e s \<ge> sw_daily_usd w then None
                    else Some target))
      else if target \<notin> set TIER_LADDER \<or> target = served then None
      else if executor_model c target = executor_model c served then None else Some target)"

text \<open>Again the executor itself, or the frontier behind its outbound pipeline: no fence is read and no budget
  but the evaluations' own.\<close>

definition tier_shadow_check ::
    "route_config \<Rightarrow> hop_env \<Rightarrow> internal_request \<Rightarrow> pystr \<Rightarrow> pystr \<Rightarrow> pystr \<Rightarrow> pystr \<Rightarrow> route_state \<Rightarrow> route_state" where
  "tier_shadow_check c env q content served target category st =
     (let e = en_evals env; model = executor_model (fence_of c) target;
          l6 = q_messages (frontier_request c env q);
          st1 = (if target = ''L6'' then sent [ReplayFrontier served (q_model q) l6] st
                 else sent [ReplayLocal target model (q_messages q)] st)
      in case (if target = ''L6'' then en_frontier env (now_at st) else en_local env (now_at st) target) of
           Inl err \<Rightarrow> st1
         | Inr a \<Rightarrow>
             (let st2 = (if target = ''L6''
                  then st1\<lparr>st_evals := add_tier_shadow_spend e (sv_usd e a (conversation_chars l6)) (st_evals st1)\<rparr> else st1) in
              if py_strip (a_content a) = '''' then st2
              else (case sv_similarity e content (a_content a) of None \<Rightarrow> st2
                | Some sim \<Rightarrow> st2\<lparr>st_evals := (st_evals st2)\<lparr>ss_rows := ss_rows (st_evals st2)
                    @ [\<lparr>sh_category = category, sh_served = served, sh_compared = target, sh_similarity = sim,
                        sh_agreed = (sim \<ge> SHADOW_AGREE_SIMILARITY)\<rparr>]\<rparr>\<rparr>)))"

definition maybe_tier_shadow ::
    "route_config \<Rightarrow> hop_env \<Rightarrow> internal_request \<Rightarrow> prompt_profile \<Rightarrow> answer \<Rightarrow> route_state \<Rightarrow> route_state" where
  "maybe_tier_shadow c env q pf r st =
     (let w = rt_evals c; e = en_evals env in
      if \<not> sw_feedback w \<or> sw_rate w \<le> 0 \<or> a_tier r \<notin> set TIER_LADDER \<or> a_cache_hit r
         \<or> py_strip (a_content r) = '''' \<or> q_tools q \<noteq> [] \<or> sv_draw e \<ge> sw_rate w then st
      else (case tier_shadow_target w (fence_of c) e (st_evals st) (a_tier r) of None \<Rightarrow> st
        | Some target \<Rightarrow> tier_shadow_check c env q (a_content r) (a_tier r) target (pf_category pf) st))"

section \<open>Facts\<close>

lemma shadow_target_L6:
  "tier_shadow_target w c e s served = Some ''L6'' \<Longrightarrow>
     0 < sw_daily_usd w \<and> tier_shadow_spend e s < sw_daily_usd w \<and> sw_compare w = ''L6''"
  by (auto simp: tier_shadow_target_def highest_local_tier_def Let_def TIER_LADDER_def split: if_splits option.splits)

lemma shadow_target_tier:
  "tier_shadow_target w c e s served = Some t \<Longrightarrow> t = ''L6'' \<or> t \<in> set TIER_LADDER \<and> t \<noteq> served"
  by (auto simp: tier_shadow_target_def Let_def split: if_splits option.splits)

lemma spend_never_falls: "tier_shadow_spend e s \<le> tier_shadow_spend e (add_tier_shadow_spend e usd s)"
  by (simp add: add_tier_shadow_spend_def tier_shadow_spend_def)

text \<open>What a replay sends: one entry.\<close>

lemma check_sends:
  "st_log (shadow_check c env q content category st) = st_log st @ [ReplayLocal ''L3'' (fc_l3 (fence_of c)) (q_messages q)]"
  by (simp add: shadow_check_def Let_def sent_def split: sum.split option.split)

lemma tier_check_sends:
  "st_log (tier_shadow_check c env q content served target category st) = st_log st @
     [if target = ''L6'' then ReplayFrontier served (q_model q) (q_messages (frontier_request c env q))
      else ReplayLocal target (executor_model (fence_of c) target) (q_messages q)]"
  by (simp add: tier_shadow_check_def Let_def sent_def split: sum.split option.split)

text \<open>When a request is sampled, and the entry an evaluation adds.\<close>

definition l1_sampled :: "route_config \<Rightarrow> hop_env \<Rightarrow> bool" where
  "l1_sampled c env = (sw_feedback (rt_evals c) \<and> 0 < sw_l1_rate (rt_evals c) \<and> sv_l1_draw (en_evals env) < sw_l1_rate (rt_evals c))"

definition rate_sampled :: "route_config \<Rightarrow> hop_env \<Rightarrow> bool" where
  "rate_sampled c env = (sw_feedback (rt_evals c) \<and> 0 < sw_rate (rt_evals c) \<and> sv_draw (en_evals env) < sw_rate (rt_evals c))"

definition tier_sampled :: "route_config \<Rightarrow> hop_env \<Rightarrow> internal_request \<Rightarrow> answer \<Rightarrow> bool" where
  "tier_sampled c env q r = (rate_sampled c env
     \<and> a_tier r \<in> set TIER_LADDER \<and> \<not> a_cache_hit r \<and> py_strip (a_content r) \<noteq> '''' \<and> q_tools q = [])"

lemma maybe_check_sends:
  "st_log (maybe_shadow_check c env q content pf st) = st_log st @
     (if l1_sampled c env \<and> py_strip content \<noteq> '''' then [ReplayLocal ''L3'' (fc_l3 (fence_of c)) (q_messages q)] else [])"
  by (auto simp: maybe_shadow_check_def Let_def l1_sampled_def check_sends)

lemma maybe_tier_sends:
  "st_log (maybe_tier_shadow c env q pf r st) = st_log st @
     (if tier_sampled c env q r
      then (case tier_shadow_target (rt_evals c) (fence_of c) (en_evals env) (st_evals st) (a_tier r) of None \<Rightarrow> []
        | Some t \<Rightarrow> [if t = ''L6'' then ReplayFrontier (a_tier r) (q_model q) (q_messages (frontier_request c env q))
                   else ReplayLocal t (executor_model (fence_of c) t) (q_messages q)])
      else [])"
  by (auto simp: maybe_tier_shadow_def Let_def tier_sampled_def rate_sampled_def tier_check_sends split: option.split)

end
