(* ===== verification/Signals.thy ===== *)
theory Signals
  imports Capabilities PromptProfile AccessLists AgentSignals
begin

text \<open>
  Facts about a request and the rules that act on them (\<open>daari/router/signals.py\<close>,
  \<open>SignalOverrideRule\<close> in \<open>daari/config/settings.py\<close>).
\<close>

section \<open>Signals\<close>

definition SIGNAL_KEYS :: "pystr list" where
  "SIGNAL_KEYS = [''has_images'', ''has_tools'', ''tool_count'', ''approx_context_tokens'', ''client_agent'',
     ''category'', ''complexity'', ''phase'', ''tags'', ''tag'']"

definition TAG_MATCH_KEYS :: "pystr list" where "TAG_MATCH_KEYS = [''tags'', ''tag'']"

definition CONTEXT_TOKEN_BUCKETS :: "pystr list" where
  "CONTEXT_TOKEN_BUCKETS = [''lt_1k'', ''1k_4k'', ''4k_16k'', ''gte_16k'']"

definition context_token_bucket :: "int \<Rightarrow> pystr" where
  "context_token_bucket tokens =
     (let n = max 0 tokens in
      if n < 1000 then ''lt_1k'' else if n < 4000 then ''1k_4k'' else if n < 16000 then ''4k_16k'' else ''gte_16k'')"

definition client_agent_family :: "internal_request \<Rightarrow> pystr" where
  "client_agent_family q =
     (let client_id = py_lower (py_strip (str_or (q_client_id q) '''')) in
      case sniff_agent_client_id (str_or (q_user_agent q) '''') of
        Some a \<Rightarrow> a
      | None \<Rightarrow> (if client_id \<in> {''cursor'', ''claude-code'', ''codex''} then client_id
               else if client_id \<noteq> '''' then ''other'' else ''none''))"

text \<open>Sorted without duplicates; strings compare by code point.\<close>

fun str_le :: "pystr \<Rightarrow> pystr \<Rightarrow> bool" where
  "str_le [] t = True"
| "str_le (c # s) [] = False"
| "str_le (c # s) (d # t) = (if c = d then str_le s t else (of_char c :: nat) < of_char d)"

fun insert_str :: "pystr \<Rightarrow> pystr list \<Rightarrow> pystr list" where
  "insert_str x [] = [x]"
| "insert_str x (y # ys) = (if x = y then y # ys else if str_le x y then x # y # ys else y # insert_str x ys)"

definition sorted_set :: "pystr list \<Rightarrow> pystr list" where
  "sorted_set xs = fold insert_str xs []"

definition nonblank :: "pystr list \<Rightarrow> pystr list" where
  "nonblank xs = filter (\<lambda>x. x \<noteq> '''') (map py_strip xs)"

fun split_on :: "char \<Rightarrow> pystr \<Rightarrow> pystr list" where
  "split_on d [] = [[]]"
| "split_on d (c # s) = (if c = d then [] # split_on d s
     else (case split_on d s of [] \<Rightarrow> [[c]] | p # ps \<Rightarrow> (c # p) # ps))"

text \<open>The header is comma-separated; \<open>metadata\<close> may be a string, a list, or anything else.\<close>

definition tag_parts :: "json \<Rightarrow> pystr list" where
  "tag_parts raw = (case raw of
     JStr s \<Rightarrow> split_on (CHR '','') s
   | JList xs \<Rightarrow> concat (map (\<lambda>x. case x of JStr s \<Rightarrow> [s] | _ \<Rightarrow> []) xs)
   | _ \<Rightarrow> [])"

definition parse_request_tags :: "pystr option \<Rightarrow> json \<Rightarrow> pystr list" where
  "parse_request_tags header metadata =
     sorted_set (nonblank
       ((case header of None \<Rightarrow> [] | Some h \<Rightarrow> split_on (CHR '','') h)
        @ (case metadata of JObj kvs \<Rightarrow> tag_parts (obj_get kvs ''tags'') | _ \<Rightarrow> [])))"

definition extract_signals :: "internal_request \<Rightarrow> prompt_profile \<Rightarrow> pystr option \<Rightarrow> (pystr \<times> json) list" where
  "extract_signals q pf phase =
     [(''has_images'', JBool (list_ex (\<lambda>m. m_images m \<noteq> []) (q_messages q))),
      (''has_tools'', JBool (agent_turn q)),
      (''tool_count'', JInt (int (length (q_tools q)))),
      (''approx_context_tokens'', JStr (context_token_bucket (pf_tokens_est pf))),
      (''client_agent'', JStr (client_agent_family q)),
      (''category'', JStr (pf_category pf)),
      (''complexity'', JStr (pf_complexity pf)),
      (''phase'', (case phase of None \<Rightarrow> JNull | Some p \<Rightarrow> JStr p)),
      (''tags'', JList (map JStr (sorted_set (nonblank (q_tags q)))))]"

section \<open>Matching\<close>

definition normalize_tag_set :: "json \<Rightarrow> pystr list" where
  "normalize_tag_set v = (case v of
     JStr s \<Rightarrow> nonblank [s]
   | JList xs \<Rightarrow> nonblank (concat (map (\<lambda>x. case x of JStr s \<Rightarrow> [s] | _ \<Rightarrow> []) xs))
   | _ \<Rightarrow> [])"

text \<open>\<open>==\<close> of Python on the scalars a rule and a signal can hold: booleans are numbers.\<close>

definition scalar_eq :: "json \<Rightarrow> json \<Rightarrow> bool" where
  "scalar_eq a b = (let num = (\<lambda>x. case x of JBool t \<Rightarrow> Some (of_bool t) | JInt i \<Rightarrow> Some (rat_of_int i)
                        | JFloat r s \<Rightarrow> Some r | _ \<Rightarrow> None)
     in case (num a, num b) of (Some x, Some y) \<Rightarrow> x = y | (None, None) \<Rightarrow> a = b | _ \<Rightarrow> False)"

definition match_value :: "pystr \<Rightarrow> json \<Rightarrow> json \<Rightarrow> bool" where
  "match_value key actual expected =
     (if key \<in> set TAG_MATCH_KEYS then
        (let want = normalize_tag_set expected; have' = normalize_tag_set actual in
         want \<noteq> [] \<and> list_ex (\<lambda>t. t \<in> set have') want)
      else (case expected of JNull \<Rightarrow> actual = JNull
        | JBool b \<Rightarrow> truthy actual = b
        | _ \<Rightarrow> scalar_eq actual expected))"

definition rule_matches :: "(pystr \<times> json) list \<Rightarrow> signal_rule \<Rightarrow> bool" where
  "rule_matches signals r =
     (sr_match r \<noteq> [] \<and> list_all (\<lambda>(key, expected).
        match_value key (obj_get signals (if key \<in> set TAG_MATCH_KEYS then ''tags'' else key)) expected) (sr_match r))"

definition match_signal_override :: "(pystr \<times> json) list \<Rightarrow> signal_rule list \<Rightarrow> signal_rule option" where
  "match_signal_override signals rules = find (rule_matches signals) rules"

datatype rule_scope = KeyScope | TeamScope | GlobalScope

definition merge_scoped_signal_overrides ::
    "signal_rule list option \<Rightarrow> signal_rule list option \<Rightarrow> signal_rule list option \<Rightarrow> (signal_rule \<times> rule_scope) list" where
  "merge_scoped_signal_overrides key team global =
     (let part = (\<lambda>rs scope. map (\<lambda>r. (r, scope)) (case rs of None \<Rightarrow> [] | Some xs \<Rightarrow> xs))
      in part key KeyScope @ part team TeamScope @ part global GlobalScope)"

definition match_scoped_signal_override ::
    "(pystr \<times> json) list \<Rightarrow> (signal_rule \<times> rule_scope) list \<Rightarrow> (signal_rule \<times> rule_scope) option" where
  "match_scoped_signal_override signals scoped = find (\<lambda>(r, s). match_signal_override signals [r] \<noteq> None) scoped"

section \<open>Levers\<close>

definition lever :: "pystr option \<Rightarrow> pystr option" where
  "lever x = (let t = upper_ascii (str_or x '''') in if t \<in> set TIER_LADDER then Some t else None)"

definition apply_signal_override ::
    "prompt_profile \<Rightarrow> internal_request \<Rightarrow> signal_rule \<Rightarrow> prompt_profile \<times> internal_request" where
  "apply_signal_override pf q r =
     (let cap = lever (sr_max_tier r); pin = lever (sr_tier_pin r) in
      (if str_or (sr_category r) '''' \<noteq> '''' then pf\<lparr>pf_category := str_or (sr_category r) ''''\<rparr> else pf,
       q\<lparr>q_tier_cap := (if cap \<noteq> None \<and> str_or (q_tier_cap q) '''' = '''' then cap else q_tier_cap q),
         q_tier_override := (if pin \<noteq> None \<and> str_or (q_tier_override q) '''' = '''' then pin else q_tier_override q)\<rparr>))"

text \<open>\<open>Router._apply_signal_overrides\<close>; \<open>phase\<close> is the classified phase when phase routing looks at it.\<close>

definition apply_signal_overrides ::
    "signal_rule list \<Rightarrow> pystr option \<Rightarrow> internal_request \<Rightarrow> prompt_profile \<Rightarrow>
     (prompt_profile \<times> internal_request) \<times> (pystr \<times> json) list" where
  "apply_signal_overrides global phase q pf =
     (let signals = extract_signals q pf phase;
          scoped = merge_scoped_signal_overrides (q_key_rules q) (q_team_rules q) (Some global)
      in case match_scoped_signal_override signals scoped of
           None \<Rightarrow> ((pf, q), signals)
         | Some (r, scope) \<Rightarrow>
             (case apply_signal_override pf q r of
                (pf', q') \<Rightarrow> ((pf', q'), AList.update ''category'' (JStr (pf_category pf'))
                   (AList.update ''complexity'' (JStr (pf_complexity pf')) signals))))"

section \<open>Facts\<close>

lemma signal_keys_covered:
  "map fst (extract_signals q pf phase) = filter (\<lambda>k. k \<noteq> ''tag'') SIGNAL_KEYS"
  by (simp add: extract_signals_def SIGNAL_KEYS_def)

lemma bucket_known: "context_token_bucket n \<in> set CONTEXT_TOKEN_BUCKETS"
  by (simp add: context_token_bucket_def CONTEXT_TOKEN_BUCKETS_def Let_def)

lemma set_insert_str [simp]: "set (insert_str x xs) = insert x (set xs)"
  by (induction x xs rule: insert_str.induct) auto

lemma set_sorted_set [simp]: "set (sorted_set xs) = set xs"
proof -
  have "set (fold insert_str xs acc) = set xs \<union> set acc" for acc
    by (induction xs arbitrary: acc) auto
  then show ?thesis by (simp add: sorted_set_def)
qed

lemma apply_override_same_messages [simp]:
  "q_messages (snd (apply_signal_override pf q r)) = q_messages q"
  "q_no_frontier (snd (apply_signal_override pf q r)) = q_no_frontier q"
  "q_region_pin (snd (apply_signal_override pf q r)) = q_region_pin q"
  by (simp_all add: apply_signal_override_def Let_def)

end
