(* ===== verification/Routing.thy ===== *)
theory Routing
  imports ShadowEvals Signals
begin

text \<open>
  The whole of a request (\<open>Router.route\<close> and \<open>Router._route_impl\<close> in \<open>daari/router/router.py\<close>):
  profile, signals and policies, the requests only the frontier can serve, the caches, the
  tiers that answer without a model, and generation.

  Caches, tools and policies answer through a \<open>lookup_env\<close>; a lookup that raises and is
  swallowed by the source is the same as a miss. What these ask on their way (embeddings, the
  difficulty classifier, boundary and guardrail checks, the organisation's cache) is no entry of the
  log, and neither is what is recorded of an answer (metrics, ledger, feedback, the organisation's
  learning statistics), which carries no conversation.
\<close>

section \<open>What lookups and tools answer\<close>

record near_hit =
  nh_answer :: answer
  nh_similarity :: pyfloat
  nh_verified :: bool

record lookup_env =
  lk_l0 :: "answer option"
  lk_org_l0 :: "answer option"
  lk_prefix :: "near_hit option"
  lk_nearest :: "near_hit option"
  lk_org_l1 :: "answer option"
  lk_threshold :: pyfloat                       \<comment> \<open>semantic_cache.similarity_threshold\<close>
  lk_shadow :: "(pystr \<times> int \<times> pyfloat) list"   \<comment> \<open>category, samples, false-hit rate\<close>
  lk_format :: "pyfloat \<Rightarrow> pystr"
  lk_context :: "pystr \<Rightarrow> pystr option option"  \<comment> \<open>fresh output of a command; None: raised\<close>
  lk_rules :: "pystr \<Rightarrow> (pystr \<times> pystr) option"
  lk_shell :: "pystr \<Rightarrow> pystr"
  lk_fetch :: "pystr \<Rightarrow> pystr + pystr"          \<comment> \<open>Inl: the error text\<close>
  lk_integration :: "pystr \<Rightarrow> (route_error + answer) option"   \<comment> \<open>None: not registered\<close>
  lk_learned :: "pystr \<Rightarrow> pystr option"
  lk_difficulty :: "pystr \<Rightarrow> (pystr \<times> pystr) option"  \<comment> \<open>tier and complexity; None: raised\<close>
  lk_input :: "internal_request \<Rightarrow> answer + message list \<times> pystr option"
  lk_output :: "answer \<Rightarrow> answer"
  lk_profile_reply :: "profile_pin redis_get"
  lk_profile_put :: redis_put
  lk_now :: pyfloat

record profile_config =
  po_user_turn :: bool
  po_user_turn_agents :: bool
  po_learned :: bool
  po_difficulty :: bool
  po_difficulty_agents :: bool
  po_signals :: "signal_rule list"

definition plain_answer :: "pystr \<Rightarrow> pystr \<Rightarrow> pystr \<Rightarrow> answer" where
  "plain_answer content model tier = \<lparr>a_content = content, a_model = model, a_tier = tier, a_tool_calls = False,
     a_warning = None, a_escalated_from = None, a_confidence = None, a_prompt_chars = None, a_cache_hit = False,
     a_virtual = None\<rparr>"

definition cached :: "pystr \<Rightarrow> answer \<Rightarrow> answer" where
  "cached tier r = r\<lparr>a_tier := tier, a_cache_hit := True\<rparr>"

section \<open>Requests only the frontier can serve\<close>

definition serve_required_frontier ::
    "route_config \<Rightarrow> hop_env \<Rightarrow> pystr \<Rightarrow> pystr \<Rightarrow> internal_request \<Rightarrow> route_state \<Rightarrow>
     (route_error + answer) \<times> route_state" where
  "serve_required_frontier c env from_tier warning q st =
     (if en_deadline env (now_at st) then (Inl DeadlineExceeded, st)
      else (case frontier_execute_hop c env from_tier 0 (q_model q) q st of
        (r, st') \<Rightarrow> (map_sum id (warn warning) r, st')))"

text \<open>No budget and no deadline is looked at here, and the prompt's size is not noted.\<close>

definition serve_capability_frontier ::
    "route_config \<Rightarrow> hop_env \<Rightarrow> internal_request \<Rightarrow> route_state \<Rightarrow> (route_error + answer) \<times> route_state" where
  "serve_capability_frontier c env q st =
     (case frontier_execute_hop c env ''capability'' 0 (q_model q) q st of
        (r, st') \<Rightarrow> (map_sum id (\<lambda>r. r\<lparr>a_prompt_chars := None\<rparr>) r, st'))"

section \<open>Caches\<close>

definition category_cache_skip :: "route_config \<Rightarrow> prompt_profile \<Rightarrow> bool" where
  "category_cache_skip c pf = (case policy_for (rt_tiers c) pf of None \<Rightarrow> False | Some p \<Rightarrow> cp_cache p = ''skip'')"

definition SHADOW_MIN_SAMPLES :: int where "SHADOW_MIN_SAMPLES = 20"
definition SHADOW_FALSE_HIT_LIMIT :: pyfloat where "SHADOW_FALSE_HIT_LIMIT = 1 / 10"
definition L1_THRESHOLD_STEP :: pyfloat where "L1_THRESHOLD_STEP = 2 / 100"

definition l1_threshold_for_category :: "pyfloat \<Rightarrow> (pystr \<times> int \<times> pyfloat) list \<Rightarrow> pystr \<Rightarrow> pyfloat" where
  "l1_threshold_for_category base stats category =
     (case map_of stats category of None \<Rightarrow> base
      | Some (samples, rate) \<Rightarrow>
          (if samples < SHADOW_MIN_SAMPLES then base
           else if rate > SHADOW_FALSE_HIT_LIMIT then min (99 / 100) (base + L1_THRESHOLD_STEP) else base))"

definition l1_bar :: "lookup_env \<Rightarrow> prompt_profile \<Rightarrow> pyfloat" where
  "l1_bar lk pf = l1_threshold_for_category (lk_threshold lk) (lk_shadow lk) (pf_category pf)"

text \<open>Near enough, and the verifier agrees.\<close>

definition near_enough :: "lookup_env \<Rightarrow> prompt_profile \<Rightarrow> near_hit option \<Rightarrow> answer option" where
  "near_enough lk pf h = (case h of None \<Rightarrow> None
     | Some n \<Rightarrow> (if nh_similarity n \<ge> l1_bar lk pf \<and> nh_verified n then Some (cached ''L1'' (nh_answer n)) else None))"

definition agent_prefix_l1 :: "lookup_env \<Rightarrow> prompt_profile \<Rightarrow> answer option" where
  "agent_prefix_l1 lk pf = near_enough lk pf (lk_prefix lk)"

definition draft_of :: "route_config \<Rightarrow> lookup_env \<Rightarrow> prompt_profile \<Rightarrow> (answer \<times> pyfloat) option" where
  "draft_of c lk pf = (case lk_nearest lk of None \<Rightarrow> None
     | Some n \<Rightarrow> (if near_enough lk pf (Some n) = None \<and> nh_similarity n \<ge> rt_l1_draft c
                    \<and> py_strip (a_content (nh_answer n)) \<noteq> '''' then Some (nh_answer n, nh_similarity n) else None))"

definition draft_hint :: "lookup_env \<Rightarrow> pystr \<Rightarrow> pyfloat \<Rightarrow> pystr" where
  "draft_hint lk draft similarity =
     ''A previous answer to a similar question (similarity '' @ lk_format lk similarity @ '') is provided ''
     @ ''below. Reuse whatever is still correct; reformat or correct it as needed rather ''
     @ ''than writing from scratch.'' @ [CHR 0x0A, CHR 0x0A] @ ''---'' @ [CHR 0x0A] @ draft"

definition with_draft :: "lookup_env \<Rightarrow> (answer \<times> pyfloat) option \<Rightarrow> internal_request \<Rightarrow> internal_request" where
  "with_draft lk d q = (case d of None \<Rightarrow> q
     | Some (a, s) \<Rightarrow> q\<lparr>q_messages := q_messages q @ [plain_message ''system'' (draft_hint lk (a_content a) s)]\<rparr>)"

section \<open>Answers without a model\<close>

definition KNOWN_CCS :: "pystr list" where
  "KNOWN_CCS = [''git status'', ''git diff'', ''pytest'', ''eslint .'']"

definition ccs_answer :: "internal_request \<Rightarrow> pystr \<Rightarrow> answer" where
  "ccs_answer q output =
     (plain_answer (if output = '''' then ''(cached command had no output)'' else output) (q_model q) ''CCS'')
       \<lparr>a_cache_hit := True\<rparr>"

fun first_context :: "(pystr \<Rightarrow> pystr option option) \<Rightarrow> pystr list \<Rightarrow> pystr option" where
  "first_context look [] = None"
| "first_context look (cmd # cmds) =
     (case look cmd of None \<Rightarrow> None | Some None \<Rightarrow> first_context look cmds | Some (Some out) \<Rightarrow> Some out)"

definition resolve_ccs_hit :: "route_config \<Rightarrow> lookup_env \<Rightarrow> dev_match option \<Rightarrow> internal_request \<Rightarrow> answer option" where
  "resolve_ccs_hit c lk dm q =
     (if \<not> rt_ccs c \<or> q_no_cache q then None
      else (case dm of None \<Rightarrow> None
        | Some m \<Rightarrow>
            (case dm_action m of
               CcsRead \<Rightarrow> map_option (ccs_answer q) (first_context (lk_context lk) KNOWN_CCS)
             | Execute \<Rightarrow>
                 (if str_or (dm_command m) '''' \<noteq> '''' \<and> \<not> (dm_rerun m \<or> q_rerun q)
                  then map_option (ccs_answer q) (first_context (lk_context lk) [str_or (dm_command m) ''''])
                  else None))))"

definition collapse_spaces :: "pystr \<Rightarrow> pystr" where
  "collapse_spaces s = foldr (\<lambda>c r. if is_space c then (case r of [] \<Rightarrow> '' '' | d # t \<Rightarrow> (if d = CHR '' '' then r else CHR '' '' # r))
                               else c # r) s []"

text \<open>What L3 is asked about a fetched page; sampling and tools of the client are not passed on.\<close>

definition fetch_request :: "route_config \<Rightarrow> internal_request \<Rightarrow> pystr \<Rightarrow> pystr \<Rightarrow> internal_request" where
  "fetch_request c q url page =
     q\<lparr>q_messages := [plain_message ''user''
          (''Summarize this fetched page for the user in <=8 bullets.'' @ [CHR 0x0A]
           @ ''URL: '' @ url @ [CHR 0x0A]
           @ ''Original request: '' @ last_user_text (q_messages q) @ [CHR 0x0A]
           @ ''Page content snippet:'' @ [CHR 0x0A] @ take 4000 (collapse_spaces page))],
       q_model := fc_l3 (fence_of c), q_tools := [], q_json := False, q_effort := None, q_web_search := False,
       q_multi_agent := False\<rparr>"

definition run_live_fetch ::
    "route_config \<Rightarrow> hop_env \<Rightarrow> lookup_env \<Rightarrow> internal_request \<Rightarrow> pystr \<Rightarrow> route_state \<Rightarrow> answer \<times> route_state" where
  "run_live_fetch c env lk q url st =
     (let st1 = sent [LiveFetch url] st in
      case lk_fetch lk url of
        Inl e \<Rightarrow> (warn ''fetch_failed'' (plain_answer (''Unable to fetch '' @ url @ '': '' @ e) (q_model q) ''Lt-fetch''), st1)
      | Inr page \<Rightarrow>
          (case run_model_tier c env ''L3'' (fetch_request c q url page) st1 of
                (Inr r, st2) \<Rightarrow> (plain_answer (a_content r) (a_model r) ''Lt-fetch'', st2)
              | (Inl e, st2) \<Rightarrow>
                  (plain_answer (''Fetched '' @ url @ '' ('' @ str_of_int (int (length page))
                     @ '' bytes). Could not summarize with L3.'') (q_model q) ''Lt-fetch'', st2)))"

definition run_dev_command ::
    "route_config \<Rightarrow> lookup_env \<Rightarrow> internal_request \<Rightarrow> pystr \<Rightarrow> pystr \<Rightarrow> route_state \<Rightarrow> answer \<times> route_state" where
  "run_dev_command c lk q last_user command st =
     (case evaluate_command (rt_policy c) command (q_confirm_tool q \<or> says_yes last_user) of
        (Deny, reason) \<Rightarrow> (plain_answer (''Command denied by policy: '' @ reason) (q_model q) ''Lt'', st)
      | (Ask, reason) \<Rightarrow>
          (plain_answer (''Command requires confirmation. Re-send the same request with '' @
             ''header X-Daari-Confirm: yes (or X-Daari-Confirm-Tool: true).'') (q_model q) ''Lt'', st)
      | (Allow, reason) \<Rightarrow>
          (let output = lk_shell lk command in
           (plain_answer (if output = '''' then ''(no output)'' else output) (q_model q) ''Lt'',
            sent (ShellRun command # (if rt_ccs c \<and> \<not> q_no_cache q then [ContextWrite command output] else [])) st)))"

text \<open>\<open>None\<close>: a model has to answer.\<close>

definition resolve_deterministic_tier ::
    "route_config \<Rightarrow> hop_env \<Rightarrow> lookup_env \<Rightarrow> internal_request \<Rightarrow> pystr \<Rightarrow> dev_match option \<Rightarrow> route_state \<Rightarrow>
     (route_error + answer) option \<times> route_state" where
  "resolve_deterministic_tier c env lk q last_user dm st =
     (case (case dm of Some m \<Rightarrow> (if dm_action m = Execute then str_or (dm_command m) '''' else '''') | None \<Rightarrow> '''') of
        command \<Rightarrow>
          (if command \<noteq> '''' then (case run_dev_command c lk q last_user command st of (r, st') \<Rightarrow> (Some (Inr r), st'))
           else (case match_live_fetch_url last_user of
               Some url \<Rightarrow> (case run_live_fetch c env lk q url st of (r, st') \<Rightarrow> (Some (Inr r), st'))
             | None \<Rightarrow>
                 (case lk_rules lk last_user of
                    Some (rule, out) \<Rightarrow> (Some (Inr (plain_answer out (q_model q) ''L2'')), st)
                  | None \<Rightarrow>
                      (case match_integration_provider (rt_integrations c) last_user of
                         None \<Rightarrow> (None, st)
                       | Some provider \<Rightarrow>
                           (case lk_integration lk provider of None \<Rightarrow> (None, st)
                            | Some r \<Rightarrow> (Some r, sent [IntegrationCall provider] st)))))))"

section \<open>Routing\<close>

definition route_ask ::
    "route_config \<Rightarrow> hop_env \<Rightarrow> lookup_env \<Rightarrow> internal_request \<Rightarrow> prompt_profile \<Rightarrow> route_state \<Rightarrow>
     (route_error + answer) \<times> route_state" where
  "route_ask c env lk q pf st =
     (let last_user = last_user_text (q_messages q);
          dm = match_dev_command last_user;
          skip = category_cache_skip c pf;
          reads = \<not> q_no_cache q \<and> \<not> skip;
          draft = (if reads then draft_of c lk pf else None)
      in case resolve_ccs_hit c lk dm q of
           Some r \<Rightarrow> (Inr r, st)
         | None \<Rightarrow>
             (case (if reads then near_enough lk pf (lk_nearest lk) else None) of
                Some r \<Rightarrow> (Inr r, maybe_shadow_check c env q (a_content r) pf st)
              | None \<Rightarrow>
                  (case (if reads \<and> rt_org_cache c then lk_org_l1 lk else None) of
                     Some r \<Rightarrow> (Inr (cached ''L1-org'' r), st)
                   | None \<Rightarrow>
                       (case resolve_deterministic_tier c env lk q last_user dm st of
                          (Some r, st1) \<Rightarrow> (r, st1)
                        | (None, st1) \<Rightarrow> route_generation_fill c env (with_draft lk draft q) q pf skip st1))))"

definition route_cached ::
    "route_config \<Rightarrow> hop_env \<Rightarrow> lookup_env \<Rightarrow> internal_request \<Rightarrow> prompt_profile \<Rightarrow> route_state \<Rightarrow>
     (route_error + answer) \<times> route_state" where
  "route_cached c env lk q pf st =
     (let skip = category_cache_skip c pf; reads = \<not> q_no_cache q \<and> \<not> skip in
      case (if reads then lk_l0 lk else None) of
        Some r \<Rightarrow> (Inr (cached ''L0'' r), st)
      | None \<Rightarrow>
          (case (if reads \<and> rt_org_cache c then lk_org_l0 lk else None) of
             Some r \<Rightarrow> (Inr (cached ''L0-org'' r), st)
           | None \<Rightarrow>
               (if \<not> agent_turn q then route_ask c env lk q pf st
                else (case (if reads then agent_prefix_l1 lk pf else None) of
                    Some r \<Rightarrow> (Inr r, st)
                  | None \<Rightarrow> route_generation_fill c env q q pf skip st))))"

definition route_impl ::
    "route_config \<Rightarrow> hop_env \<Rightarrow> lookup_env \<Rightarrow> internal_request \<Rightarrow> prompt_profile \<Rightarrow> route_state \<Rightarrow>
     (route_error + answer) \<times> route_state" where
  "route_impl c env lk q0 pf st =
     (let q = with_skills_prefix (rt_skills c) q0; fc = fence_of c; ledger = en_ledger env (now_at st);
          required = required_capabilities q in
      if q_web_search q then
        (case ensure_web_search_frontier fc ledger q of
           Some reason \<Rightarrow> (Inl (WebSearchUnavailable reason), st)
         | None \<Rightarrow> serve_required_frontier c env ''web_search'' ''web_search_required'' q st)
      else if q_multi_agent q then
        (case ensure_multi_agent_frontier fc ledger q of
           Some reason \<Rightarrow> (Inl (MultiAgentUnavailable reason), st)
         | None \<Rightarrow> serve_required_frontier c env ''multi_agent'' ''multi_agent_required'' q st)
      else if fc_catalog fc \<noteq> None \<and> \<not> local_tiers_cover_capabilities fc (rs_pool (st_router st)) q
              \<and> required \<noteq> [] then
        (if frontier_satisfies_capabilities fc required q then serve_capability_frontier c env q st
         else (Inl (NoCapability required), st))
      else route_cached c env lk q pf st)"

section \<open>Profile\<close>

definition classify_user_turn_source :: "profile_config \<Rightarrow> internal_request \<Rightarrow> bool" where
  "classify_user_turn_source p q =
     (po_user_turn p \<or> po_user_turn_agents p \<and> is_classify_user_turn_agent (q_user_agent q) (q_client_id q))"

definition build_profile :: "route_config \<Rightarrow> internal_request \<Rightarrow> message list \<Rightarrow> prompt_profile" where
  "build_profile c q ms =
     build_prompt_profile (tc_effort_escalation (rt_tiers c)) (tc_harness_aware (rt_tiers c)) (q_effort q) ms"

definition tokens_est :: "message list \<Rightarrow> int" where
  "tokens_est ms = max 1 (int (conversation_chars ms div 4))"

text \<open>The profile, and whether it is one of an earlier user turn.\<close>

definition resolve_prompt_profile ::
    "route_config \<Rightarrow> profile_config \<Rightarrow> hop_env \<Rightarrow> lookup_env \<Rightarrow> internal_request \<Rightarrow> profile_pin pin_store \<Rightarrow>
     (prompt_profile \<times> bool) \<times> profile_pin pin_store" where
  "resolve_prompt_profile c p env lk q pins =
     (let pfx = conversation_prefix_hash (pn_digest (en_pins env)) (q_messages q);
          key = pin_session_key (en_pins env) q
      in if \<not> classify_user_turn_source p q \<or> \<not> is_tool_continuation (q_messages q)
         then ((build_profile c q (q_messages q), False), pins)
         else (case profile_get (lk_profile_reply lk) (lk_now lk) key pins of (pin, pins1) \<Rightarrow>
           (case (case pin of Some x \<Rightarrow> (if pp_prefix_hash x = pfx then Some x else None) | None \<Rightarrow> None) of
              Some x \<Rightarrow> ((\<lparr>pf_category = pp_category x, pf_complexity = pp_complexity x,
                          pf_tokens_est = tokens_est (q_messages q), pf_stripped_chars = 0\<rparr>, True), pins1)
            | None \<Rightarrow>
                (let base = build_profile c q (user_turn_prefix (q_messages q));
                     pf = \<lparr>pf_category = pf_category base, pf_complexity = pf_complexity base,
                           pf_tokens_est = tokens_est (q_messages q), pf_stripped_chars = 0\<rparr>
                 in ((pf, True), fst (profile_put (lk_profile_put lk) (lk_now lk) key (pf_category pf)
                                        (pf_complexity pf) pfx pins1))))))"

definition apply_learned_route :: "profile_config \<Rightarrow> lookup_env \<Rightarrow> internal_request \<Rightarrow> prompt_profile \<Rightarrow> prompt_profile" where
  "apply_learned_route p lk q pf =
     (let t = last_user_text (q_messages q) in
      if \<not> po_learned p \<or> py_strip t = '''' then pf
      else (case lk_learned lk t of None \<Rightarrow> pf | Some cat \<Rightarrow> pf\<lparr>pf_category := cat\<rparr>))"

definition apply_decision_classifier ::
    "route_config \<Rightarrow> profile_config \<Rightarrow> lookup_env \<Rightarrow> internal_request \<Rightarrow> prompt_profile \<Rightarrow>
     prompt_profile \<times> internal_request" where
  "apply_decision_classifier c p lk q pf =
     (let raw = last_user_text (q_messages q);
          t = (if tc_harness_aware (rt_tiers c) then fst (strip_harness_text raw) else raw)
      in if \<not> po_difficulty p \<or> agent_turn q \<and> \<not> po_difficulty_agents p
            \<or> upper_ascii (str_or (q_tier_override q) '''') \<in> set TIER_LADDER \<or> py_strip t = '''' then (pf, q)
         else (case lk_difficulty lk t of None \<Rightarrow> (pf, q)
           | Some (tier, complexity) \<Rightarrow> (pf\<lparr>pf_complexity := complexity\<rparr>, q\<lparr>q_decision_tier := Some tier\<rparr>)))"

definition remember_user_turn_profile ::
    "profile_config \<Rightarrow> hop_env \<Rightarrow> lookup_env \<Rightarrow> internal_request \<Rightarrow> prompt_profile \<Rightarrow> profile_pin pin_store \<Rightarrow>
     profile_pin pin_store" where
  "remember_user_turn_profile p env lk q pf pins =
     (if \<not> classify_user_turn_source p q then pins
      else fst (profile_put (lk_profile_put lk) (lk_now lk) (pin_session_key (en_pins env) q) (pf_category pf)
             (pf_complexity pf) (conversation_prefix_hash (pn_digest (en_pins env)) (q_messages q)) pins))"

primrec phase_name :: "phase \<Rightarrow> pystr" where
  "phase_name Explore = ''explore''"
| "phase_name Implement = ''implement''"
| "phase_name Verify = ''verify''"

text \<open>The request and profile the router works on, after pins, learning and signal rules.\<close>

definition prepare_request ::
    "route_config \<Rightarrow> profile_config \<Rightarrow> hop_env \<Rightarrow> lookup_env \<Rightarrow> internal_request \<Rightarrow> profile_pin pin_store \<Rightarrow>
     (prompt_profile \<times> internal_request) \<times> profile_pin pin_store" where
  "prepare_request c p env lk q pins =
     (case resolve_prompt_profile c p env lk q pins of ((pf, reused), pins1) \<Rightarrow>
       (case (if reused then ((pf, q), pins1)
              else (case apply_decision_classifier c p lk q (apply_learned_route p lk q pf) of (pf', q') \<Rightarrow>
                ((pf', q'), remember_user_turn_profile p env lk q' pf' pins1))) of ((pf2, q2), pins2) \<Rightarrow>
         (let phase = (if tc_phase_routing (rt_tiers c) \<and> agent_turn q2
                then map_option (\<lambda>m. phase_name (pm_phase m)) (classify_phase (en_json env) (tc_phase_window (rt_tiers c)) (q_messages q2))
                else None)
          in (fst (apply_signal_overrides (po_signals p) phase q2 pf2), pins2))))"

text \<open>\<open>gate_warning\<close> is what \<open>gate_client_tiers\<close> says. The evaluation replay of a local answer is the last thing
  done.\<close>

definition route ::
    "route_config \<Rightarrow> profile_config \<Rightarrow> hop_env \<Rightarrow> lookup_env \<Rightarrow> pystr option \<Rightarrow> internal_request \<Rightarrow>
     profile_pin pin_store \<Rightarrow> route_state \<Rightarrow> (route_error + answer) \<times> profile_pin pin_store \<times> route_state" where
  "route c p env lk gate_warning q pins st =
     (case prepare_request c p env lk q pins of ((pf, q1), pins1) \<Rightarrow>
       (case lk_input lk q1 of
          Inl refusal \<Rightarrow> (Inr refusal, pins1, st)
        | Inr (ms, policy_warning) \<Rightarrow>
            (let warning = (case (policy_warning, gate_warning) of
                   (Some a, Some b) \<Rightarrow> (if a = b then Some a else Some (a @ ''; '' @ b))
                 | (None, w) \<Rightarrow> w | (w, None) \<Rightarrow> w);
                 q2 = q1\<lparr>q_messages := ms\<rparr>
             in case route_impl c env lk q2 pf st of
                  (Inl e, st1) \<Rightarrow> (Inl e, pins1, st1)
                | (Inr r, st1) \<Rightarrow>
                    (let r1 = (case warning of None \<Rightarrow> lk_output lk r | Some w \<Rightarrow> warn_if_none w (lk_output lk r))
                     in (Inr r1, pins1, maybe_tier_shadow c env q2 pf r1 st1)))))"

end
