(* ===== verification/HopPolicy.thy ===== *)
theory HopPolicy
  imports Routing
begin

text \<open>
  What holds of everything a request sends. The locale \<open>hop_policy\<close> collects the occasions on
  which generation sends something; what holds on each of them holds of every entry that generation
  adds to the log. \<open>route_policy\<close> adds the occasions outside generation. Both are interpreted on
  the model's own predicate \<open>lawful\<close>.
\<close>

section \<open>Entries added to the log\<close>

definition extends :: "(nat \<Rightarrow> hop \<Rightarrow> bool) \<Rightarrow> route_state \<Rightarrow> route_state \<Rightarrow> bool" where
  "extends P st st' = (\<exists>hs. st_log st' = st_log st @ hs \<and> (\<forall>i < length hs. P (now_at st + i) (hs ! i)))"

lemma extends_refl [simp, intro]: "st_log st' = st_log st \<Longrightarrow> extends P st st'"
  by (simp add: extends_def)

lemma extends_trans [trans]:
  assumes "extends P st st1" "extends P st1 st2" shows "extends P st st2"
proof -
  obtain hs ks where hs: "st_log st1 = st_log st @ hs" "\<forall>i < length hs. P (now_at st + i) (hs ! i)"
    and ks: "st_log st2 = st_log st1 @ ks" "\<forall>i < length ks. P (now_at st1 + i) (ks ! i)"
    using assms by (auto simp: extends_def)
  have "\<forall>i < length (hs @ ks). P (now_at st + i) ((hs @ ks) ! i)"
  proof (intro allI impI)
    fix i assume i: "i < length (hs @ ks)"
    show "P (now_at st + i) ((hs @ ks) ! i)"
    proof (cases "i < length hs")
      case True then show ?thesis using hs(2) by (simp add: nth_append)
    next
      case False
      then have "i - length hs < length ks" using i by auto
      then have "P (now_at st1 + (i - length hs)) (ks ! (i - length hs))" using ks(2) by blast
      moreover have "now_at st1 + (i - length hs) = now_at st + i" using hs(1) False by (simp add: now_at_def)
      ultimately show ?thesis using False by (simp add: nth_append)
    qed
  qed
  then show ?thesis using hs(1) ks(1) by (auto simp: extends_def intro!: exI [of _ "hs @ ks"])
qed

lemma extends_log: "extends P st st1 \<Longrightarrow> st_log st2 = st_log st1 \<Longrightarrow> extends P st st2"
  by (simp add: extends_def)

lemma extends_from: "extends P st1 st2 \<Longrightarrow> st_log st1 = st_log st \<Longrightarrow> extends P st st2"
  by (simp add: extends_def now_at_def)

lemma extends_sent: "(\<And>n h. h \<in> set hs \<Longrightarrow> P n h) \<Longrightarrow> extends P st (sent hs st)"
  by (auto simp: extends_def sent_def)

lemma extends_one: "P (now_at st) h \<Longrightarrow> extends P st (sent [h] st)"
  by (auto simp: extends_def sent_def)

lemma log_sent [simp]: "st_log (sent hs st) = st_log st @ hs"
  by (simp add: sent_def)

lemma log_observe [simp]: "st_log (observe vm cand ok ms st) = st_log st"
  by (simp add: observe_def)

lemma log_pin [simp]: "st_log (finish_session_pin c env q r st) = st_log st"
  by (simp add: finish_session_pin_def Let_def)

section \<open>Generation\<close>

locale hop_policy =
  fixes c :: route_config and env :: hop_env and reason :: "pystr option" and reach :: bool
    and P :: "nat \<Rightarrow> hop \<Rightarrow> bool"
  assumes summary: "\<not> en_deadline env n \<Longrightarrow> cx_compact (rt_context c) \<Longrightarrow> P n (SummaryHop (fc_l3 (fence_of c)))"
    and local: "P n (LocalHop tier (executor_model (fence_of c) tier) reason ms)"
    and org: "rt_org_pool c \<Longrightarrow> \<not> en_deadline env n \<Longrightarrow> P n OrgHop"
    and frontier: "reach \<Longrightarrow> frontier_budget_state (fence_of c) (en_ledger env n) \<noteq> BudgetExceeded \<Longrightarrow>
        \<not> en_deadline env n \<Longrightarrow> P n (FrontierHop from_tier model ms)"
begin

lemma run_model_tier_extends:
  assumes "cloud_block_reason (fence_of c) q = reason"
  shows "extends P st (snd (run_model_tier c env tier q st))"
proof (cases "en_deadline env (now_at st)")
  case True then show ?thesis by (simp add: run_model_tier_def)
next
  case False
  obtain q1 cache asked where cc:
    "compact_context (rt_context c) (en_digest env) (en_summary env (now_at st)) (st_summaries st) q = (q1, cache, asked)"
    by (rule prod_cases3)
  let ?st1 = "sent (if asked then [SummaryHop (fc_l3 (fence_of c))] else []) (st\<lparr>st_summaries := cache\<rparr>)"
  have "asked \<Longrightarrow> cx_compact (rt_context c)"
    using cc by (auto simp: compact_context_def compaction_plan_def Let_def split: if_splits option.splits)
  then have one: "extends P st ?st1" using summary [OF False] by (auto simp: extends_def)
  have "extends P ?st1 (snd (run_model_tier c env tier q st))"
  proof (cases "rs_pool (st_router st) = None \<and> reason \<noteq> None \<and> is_ollama_cloud_model (executor_model (fence_of c) tier)")
    case True then show ?thesis using False cc assms by (simp add: run_model_tier_def Let_def)
  next
    case nb: False
    have "snd (run_model_tier c env tier q st) = sent [LocalHop tier (executor_model (fence_of c) tier) reason
        (local_messages c env (rs_pool (st_router st)) tier (prepare_local c q1))] ?st1"
      using False nb cc assms by (auto simp: run_model_tier_def Let_def sent_def)
    then show ?thesis by (simp only:) (rule extends_one, rule local)
  qed
  with one show ?thesis by (rule extends_trans)
qed

lemma frontier_hop_extends:
  assumes "reach" "frontier_budget_state (fence_of c) (en_ledger env (now_at st)) \<noteq> BudgetExceeded"
    "\<not> en_deadline env (now_at st)"
  shows "extends P st (snd (frontier_execute_hop c env from_tier conf model q st))"
  using frontier [OF assms] by (simp add: frontier_execute_hop_def Let_def extends_one)

lemma climb_extends:
  assumes "cloud_block_reason (fence_of c) q = reason"
  shows "extends P st (snd (climb c env q threshold ts resp st))"
proof (induction ts arbitrary: resp st)
  case (Cons t ts)
  have r: "extends P st (snd (run_model_tier c env t q st))" by (rule run_model_tier_extends [OF assms])
  show ?case
  proof (cases "run_model_tier c env t q st")
    case (Pair res st1)
    then have one: "extends P st st1" using r by simp
    show ?thesis using one Pair extends_trans [OF one Cons.IH]
      by (cases res rule: sum.exhaust) (auto split: route_error.splits)
  qed
qed simp

lemma try_org_pool_extends: "extends P st (snd (try_org_pool c env threshold resp st))"
  using org [of "now_at st"]
  by (auto simp: try_org_pool_def Let_def extends_one split: sum.splits route_error.splits)

lemma escalate_frontier_extends:
  assumes "frontier_reachable (fence_of c) q \<longrightarrow> reach"
  shows "extends P st (snd (escalate_frontier c env q resp st))"
proof (cases "frontier_reachable (fence_of c) q \<and> ledger_state c env st \<noteq> BudgetExceeded \<and> \<not> en_deadline env (now_at st)")
  case True
  then have "extends P st (snd (frontier_execute_hop c env (a_tier resp) (score_l3_confidence (a_content resp)) (q_model q) q st))"
    using assms by (intro frontier_hop_extends) (auto simp: ledger_state_def)
  then show ?thesis using True
    by (cases "frontier_execute_hop c env (a_tier resp) (score_l3_confidence (a_content resp)) (q_model q) q st")
      (auto simp: escalate_frontier_def split: sum.splits route_error.splits)
next
  case False then show ?thesis by (auto simp: escalate_frontier_def)
qed

lemma maybe_escalate_extends:
  assumes "cloud_block_reason (fence_of c) q = reason" "frontier_reachable (fence_of c) q \<longrightarrow> reach"
  shows "extends P st (snd (maybe_escalate c env ladder q pf resp st))"
proof -
  let ?th = "confidence_threshold_for c env q pf" and ?ts = "if ladder then escalation_chain c q (a_tier (scored resp)) else []"
  show ?thesis
  proof (cases "?th \<le> score_l3_confidence (a_content (scored resp))")
    case True then show ?thesis by (simp add: maybe_escalate_def Let_def)
  next
    case False
    obtain x st1 where c1: "climb c env q ?th ?ts (scored resp) st = (x, st1)" by (cases "climb c env q ?th ?ts (scored resp) st")
    then have e1: "extends P st st1" using climb_extends [OF assms(1), of st ?th ?ts "scored resp"] by simp
    show ?thesis
    proof (cases x)
      case (Inl r) then show ?thesis using False c1 e1 by (simp add: maybe_escalate_def Let_def)
    next
      case (Inr r)
      obtain y st2 where c2: "try_org_pool c env ?th r st1 = (y, st2)" by (cases "try_org_pool c env ?th r st1")
      then have "extends P st1 st2" using try_org_pool_extends [of st1 ?th r] by simp
      then have e2: "extends P st st2" by (rule extends_trans [OF e1])
      have "extends P st st2" "extends P st (snd (escalate_frontier c env q r' st2))" for r'
        using e2 extends_trans [OF e2 escalate_frontier_extends [OF assms(2)]] by auto
      then show ?thesis using False c1 c2 Inr by (cases y) (simp_all add: maybe_escalate_def Let_def)
    qed
  qed
qed

lemma two_tries:
  assumes "run_model_tier c env t q st = (res, st1)" "cloud_block_reason (fence_of c) q = reason" "extends P st0 st"
  shows "extends P st0 st1"
  using extends_trans [OF assms(3) run_model_tier_extends [OF assms(2), of st t]] assms(1) by simp

lemma failover_extends:
  assumes "cloud_block_reason (fence_of c) q = reason"
  shows "extends P st (snd (failover_context_length c env q st))"
proof -
  obtain r1 st1 where r1: "run_model_tier c env ''L4'' q st = (r1, st1)" by (cases "run_model_tier c env ''L4'' q st")
  obtain r2 st2 where r2: "run_model_tier c env ''L5'' q st1 = (r2, st2)" by (cases "run_model_tier c env ''L5'' q st1")
  obtain r3 st3 where r3: "run_model_tier c env ''L3'' q st2 = (r3, st3)" by (cases "run_model_tier c env ''L3'' q st2")
  have e1: "extends P st st1" by (rule two_tries [OF r1 assms extends_refl]) simp
  have e2: "extends P st st2" by (rule two_tries [OF r2 assms e1])
  have e3: "extends P st st3" by (rule two_tries [OF r3 assms e2])
  show ?thesis using r1 r2 r3 e1 e2 e3
    by (auto simp: failover_context_length_def Let_def split: sum.splits route_error.splits)
qed

lemma fall_back_extends:
  assumes "cloud_block_reason (fence_of c) q = reason"
  shows "extends P st (snd (fall_back c env initial cq q e st))"
proof -
  obtain r1 st1 where r1: "run_model_tier c env ''L4'' q st = (r1, st1)" by (cases "run_model_tier c env ''L4'' q st")
  obtain r2 st2 where r2: "run_model_tier c env ''L3'' q st1 = (r2, st2)" by (cases "run_model_tier c env ''L3'' q st1")
  obtain r3 st3 where r3: "run_model_tier c env ''L3'' q st = (r3, st3)" by (cases "run_model_tier c env ''L3'' q st")
  have e1: "extends P st st1" by (rule two_tries [OF r1 assms extends_refl]) simp
  have e2: "extends P st st2" by (rule two_tries [OF r2 assms e1])
  have e3: "extends P st st3" by (rule two_tries [OF r3 assms extends_refl]) simp
  have alt: "extends P st (snd (case run_model_tier c env t q st of (r, st1) \<Rightarrow> (map_sum id (warn w) r, st1)))" for t w
    using run_model_tier_extends [OF assms, of st t] by (cases "run_model_tier c env t q st") simp
  show ?thesis using r1 r2 r3 e1 e2 e3 alt failover_extends [OF assms, of st]
    by (auto simp: fall_back_def split: sum.splits route_error.splits option.splits)
qed

lemma pool_fallback_extends:
  assumes "frontier_reachable (fence_of c) q \<longrightarrow> reach"
  shows "extends P st (snd (local_pool_frontier_fallback c env from_tier q e st))"
proof (cases "frontier_reachable (fence_of c) q \<and> ledger_state c env st \<noteq> BudgetExceeded \<and> \<not> en_deadline env (now_at st)")
  case True
  then have "extends P st (snd (frontier_execute_hop c env from_tier 0 (q_model q) q st))"
    using assms by (intro frontier_hop_extends) (auto simp: ledger_state_def)
  then show ?thesis using True
    by (cases "frontier_execute_hop c env from_tier 0 (q_model q) q st")
      (auto simp: local_pool_frontier_fallback_def split: sum.splits route_error.splits)
next
  case False then show ?thesis by (auto simp: local_pool_frontier_fallback_def)
qed

lemma try_candidate_extends:
  assumes "cloud_block_reason (fence_of c) q = reason" "frontier_reachable (fence_of c) cq \<longrightarrow> reach"
  shows "extends P st (snd (try_candidate c env q cq cand st))"
proof (cases "classify_candidate cand (rt_classify c)")
  case (LocalTier t) then show ?thesis by (simp add: try_candidate_def run_model_tier_extends [OF assms(1)])
next
  case (FrontierModel m)
  let ?hop = "frontier_execute_hop c env (if m \<noteq> ''L6'' then m else ''virtual'') 0 (candidate_model c cand q) q st"
  show ?thesis
  proof (cases "frontier_reachable (fence_of c) cq \<and> ledger_state c env st \<noteq> BudgetExceeded \<and> \<not> en_deadline env (now_at st)")
    case True
    then have "extends P st (snd ?hop)" using assms(2) by (intro frontier_hop_extends) (auto simp: ledger_state_def)
    then show ?thesis using True FrontierModel by (cases ?hop) (simp add: try_candidate_def)
  next
    case False then show ?thesis using FrontierModel by (auto simp: try_candidate_def)
  qed
qed

lemma virtual_loop_extends:
  assumes "cloud_block_reason (fence_of c) q = reason" "frontier_reachable (fence_of c) cq \<longrightarrow> reach"
  shows "extends P st (snd (virtual_loop c env q cq vm cands st))"
proof (induction cands arbitrary: st)
  case (Cons cand rest)
  obtain r st1 where t: "try_candidate c env q cq cand st = (r, st1)" by (cases "try_candidate c env q cq cand st")
  then have e1: "extends P st st1" using try_candidate_extends [OF assms, of st cand] by simp
  have "extends P st (observe vm cand ok ms st1)" for ok ms by (rule extends_log [OF e1]) simp
  then have "extends P st (observe vm cand ok ms st1)"
    "extends P st (snd (virtual_loop c env q cq vm rest (observe vm cand ok ms st1)))" for ok ms
    using extends_trans Cons.IH by blast+
  then show ?case using t e1 by (auto simp: Let_def split: sum.splits route_error.splits)
qed simp

lemma try_virtual_extends:
  assumes "cloud_block_reason (fence_of c) q = reason" "frontier_reachable (fence_of c) cq \<longrightarrow> reach"
  shows "extends P st (snd (try_virtual_model c env q cq st))"
proof -
  let ?vm = "py_strip (q_model cq)"
  have loop: "extends P st (snd (virtual_loop c env q cq vm cands (st\<lparr>st_perf := perf\<rparr>)))" for vm cands perf
    by (rule extends_from [OF virtual_loop_extends [OF assms], of "st\<lparr>st_perf := perf\<rparr>"]) simp
  show ?thesis
  proof (cases "resolve_virtual_candidates (Some ?vm) (rt_virtual c)")
    case None then show ?thesis by (simp add: try_virtual_model_def)
  next
    case (Some configured)
    obtain cands perf where o: "order_virtual_candidates configured (rt_virtual_mode c) ?vm (st_perf st)
        (en_breaker_open env) (map_of (rt_virtual_slo c) ?vm) = (cands, perf)" by (rule prod.exhaust)
    obtain r st1 where v: "virtual_loop c env q cq ?vm cands (st\<lparr>st_perf := perf\<rparr>) = (r, st1)" by (rule prod.exhaust)
    then show ?thesis using Some o loop [of ?vm cands perf] by (simp add: try_virtual_model_def)
  qed
qed

lemma generate_extends:
  assumes "cloud_block_reason (fence_of c) q = reason" "frontier_reachable (fence_of c) q \<longrightarrow> reach"
  shows "extends P st (snd (generate_on_tiers c env q cq pf st))"
proof -
  obtain ch rs where ch: "choose_initial_tier (en_json env) (rt_tiers c) (en_pins env) cq pf (st_router st) = (ch, rs)"
    by (cases "choose_initial_tier (en_json env) (rt_tiers c) (en_pins env) cq pf (st_router st)")
  show ?thesis
  proof (cases ch)
    case (Inl req) then show ?thesis using ch by (simp add: generate_on_tiers_def)
  next
    case (Inr t)
    let ?st0 = "st\<lparr>st_router := rs\<rparr>"
    obtain r1 st1 where r1: "run_model_tier c env t q ?st0 = (r1, st1)" by (cases "run_model_tier c env t q ?st0")
    have e1: "extends P st st1" by (rule two_tries [OF r1 assms(1) extends_refl]) simp
    have esc: "extends P st s \<Longrightarrow> extends P st (snd (maybe_escalate c env True q pf r s))" for r s
      by (rule extends_trans [OF _ maybe_escalate_extends [OF assms]])
    show ?thesis
    proof (cases r1)
      case (Inr r) then show ?thesis using ch r1 \<open>ch = Inr t\<close> esc [OF e1] by (simp add: generate_on_tiers_def)
    next
      case (Inl e)
      obtain r2 st2 where r2: "fall_back c env t cq q e st1 = (r2, st2)" by (cases "fall_back c env t cq q e st1")
      then have "extends P st1 st2" using fall_back_extends [OF assms(1), of st1 t cq e] by simp
      then have e2: "extends P st st2" by (rule extends_trans [OF e1])
      have e3: "extends P st (snd (local_pool_frontier_fallback c env t q e' st2))" for e'
        by (rule extends_trans [OF e2 pool_fallback_extends [OF assms(2)]])
      have e3': "local_pool_frontier_fallback c env t q e' st2 = (x, s) \<Longrightarrow> extends P st s" for e' x s
        using e3 [of e'] by simp
      show ?thesis
      proof (cases "e = DeadlineExceeded")
        case True then show ?thesis using ch r1 e1 \<open>ch = Inr t\<close> Inl by (simp add: generate_on_tiers_def)
      next
        case nd: False
        show ?thesis
        proof (cases r2)
          case (Inr r) then show ?thesis using nd ch r1 r2 esc [OF e2] \<open>ch = Inr t\<close> Inl
            by (cases e) (simp_all add: generate_on_tiers_def)
        next
          case (Inl e')
          obtain x st3 where fb: "local_pool_frontier_fallback c env t q e' st2 = (x, st3)"
            by (cases "local_pool_frontier_fallback c env t q e' st2")
          have "snd (generate_on_tiers c env q cq pf st) \<in> {st2, st3}"
            using nd ch r1 r2 fb \<open>ch = Inr t\<close> \<open>r1 = Inl e\<close> Inl
            by (cases e; cases e'; cases x) (simp_all add: generate_on_tiers_def)
          then show ?thesis using e2 e3' [OF fb] by auto
        qed
      qed
    qed
  qed
qed

end

end
