(* ===== verification/RoutingLaws.thy ===== *)
theory RoutingLaws
  imports HopPolicy
begin

text \<open>
  What \<open>Router.route\<close> may send, for any request and any answers of the services it calls.
\<close>

section \<open>Fences do not depend on the conversation\<close>

lemma cap_messages [simp]: "effective_tier_cap fc (q\<lparr>q_messages := ms\<rparr>) = effective_tier_cap fc q"
  by (simp add: effective_tier_cap_def)

lemma fences_messages [simp]:
  "cloud_block_reason fc (q\<lparr>q_messages := ms\<rparr>) = cloud_block_reason fc q"
  "frontier_reachable fc (q\<lparr>q_messages := ms\<rparr>) = frontier_reachable fc q"
  by (simp_all add: cloud_block_reason_def frontier_reachable_def split: option.split)

lemma skills_fields [simp]:
  "cloud_block_reason fc (with_skills_prefix s q) = cloud_block_reason fc q"
  "frontier_reachable fc (with_skills_prefix s q) = frontier_reachable fc q"
  "q_no_cache (with_skills_prefix s q) = q_no_cache q"
  by (auto simp: with_skills_prefix_def split: list.split)

lemma draft_fields [simp]:
  "cloud_block_reason fc (with_draft lk d q) = cloud_block_reason fc q"
  "frontier_reachable fc (with_draft lk d q) = frontier_reachable fc q"
  by (auto simp: with_draft_def split: option.split)

lemma summary_request_reason: "cloud_block_reason fc (fetch_request c q url page) = cloud_block_reason fc q"
  by (simp add: fetch_request_def cloud_block_reason_def effective_tier_cap_def)

lemma satisfies_reachable: "frontier_satisfies_capabilities fc req q \<Longrightarrow> frontier_reachable fc q"
  by (auto simp: frontier_satisfies_capabilities_def split: if_splits)

lemma ensure_ok:
  "q_web_search q \<Longrightarrow> ensure_web_search_frontier fc l q = None \<Longrightarrow>
     frontier_reachable fc q \<and> frontier_budget_state fc l \<noteq> BudgetExceeded"
  "q_multi_agent q \<Longrightarrow> ensure_multi_agent_frontier fc l q = None \<Longrightarrow>
     frontier_reachable fc q \<and> frontier_budget_state fc l \<noteq> BudgetExceeded"
  using refusal_None [of fc l q] by (simp_all add: ensure_web_search_frontier_def ensure_multi_agent_frontier_def)

section \<open>Outside generation\<close>

locale route_policy = hop_policy c env reason reach P
  for c env reason reach P +
  fixes q :: internal_request
  assumes q_reason: "cloud_block_reason (fence_of c) q = reason"
    and q_reach: "frontier_reachable (fence_of c) q \<longrightarrow> reach"
    and capability: "reach \<Longrightarrow> P n (FrontierHop ''capability'' model ms)"
    and cache: "h \<in> set (cache_writes c skip q r) \<Longrightarrow> P n h"
    and shell: "\<not> agent_turn q \<Longrightarrow> cmd \<in> set KNOWN_COMMANDS \<Longrightarrow>
        fst (evaluate_command (rt_policy c) cmd (q_confirm_tool q \<or> says_yes (last_user_text (q_messages q)))) = Allow \<Longrightarrow>
        P n (ShellRun cmd)"
    and context_write: "\<not> q_no_cache q \<Longrightarrow> P n (ContextWrite cmd out)"
    and fetch: "\<not> agent_turn q \<Longrightarrow> match_live_fetch_url (last_user_text (q_messages q)) = Some url \<Longrightarrow> P n (LiveFetch url)"
    and integration: "\<not> agent_turn q \<Longrightarrow> P n (IntegrationCall provider)"
    and l1_replay: "\<not> agent_turn q \<Longrightarrow> \<not> q_no_cache q \<Longrightarrow> l1_sampled c env \<Longrightarrow>
        P n (ReplayLocal ''L3'' (fc_l3 (fence_of c)) (q_messages q))"
begin

lemma fill_extends:
  assumes "cloud_block_reason (fence_of c) g = reason" "frontier_reachable (fence_of c) g \<longrightarrow> reach"
  shows "extends P st (snd (route_generation_fill c env g q pf skip st))"
proof -
  obtain v st1 where v: "try_virtual_model c env g q st = (v, st1)" by (rule prod.exhaust)
  have e1: "extends P st st1" using try_virtual_extends [OF assms(1) q_reach, of st] v by simp
  define out where "out = (case v of Some r \<Rightarrow> (r, st1) | None \<Rightarrow> generate_on_tiers c env g q pf st1)"
  obtain r st2 where o: "out = (r, st2)" by (rule prod.exhaust)
  have "extends P st1 (snd (generate_on_tiers c env g q pf st1))" by (rule generate_extends [OF assms])
  then have e2: "extends P st st2" using e1 extends_trans [OF e1] o by (cases v) (auto simp: out_def)
  have fill: "route_generation_fill c env g q pf skip st =
      (case (r, st2) of (Inl e, s) \<Rightarrow> (Inl e, s)
       | (Inr a, s) \<Rightarrow> (Inr a, sent (cache_writes c skip q a) (finish_session_pin c env q a s)))"
    using v o by (simp add: route_generation_fill_def out_def)
  show ?thesis
  proof (cases r)
    case (Inl e) then show ?thesis using fill e2 by simp
  next
    case (Inr a)
    have "extends P st (finish_session_pin c env q a st2)" by (rule extends_log [OF e2]) simp
    then have "extends P st (sent (cache_writes c skip q a) (finish_session_pin c env q a st2))"
      by (rule extends_trans) (rule extends_sent, rule cache)
    then show ?thesis using fill Inr by simp
  qed
qed

lemma fetch_extends:
  assumes "\<not> agent_turn q" "match_live_fetch_url (last_user_text (q_messages q)) = Some url"
  shows "extends P st (snd (run_live_fetch c env lk q url st))"
proof -
  have e1: "extends P st (sent [LiveFetch url] st)" by (rule extends_one, rule fetch [OF assms])
  show ?thesis
  proof (cases "lk_fetch lk url")
    case (Inl e) then show ?thesis using e1 by (simp add: run_live_fetch_def Let_def)
  next
    case (Inr page)
    let ?sq = "fetch_request c q url page"
    obtain r st2 where run: "run_model_tier c env ''L3'' ?sq (sent [LiveFetch url] st) = (r, st2)" by (rule prod.exhaust)
    have "cloud_block_reason (fence_of c) ?sq = reason" by (simp only: summary_request_reason q_reason)
    then have "extends P (sent [LiveFetch url] st) st2"
      using run_model_tier_extends [of ?sq "sent [LiveFetch url] st" "''L3''"] run by simp
    then have "extends P st st2" by (rule extends_trans [OF e1])
    moreover have "snd (run_live_fetch c env lk q url st) = st2"
      unfolding run_live_fetch_def Let_def Inr sum.case run by (cases r) simp_all
    ultimately show ?thesis by simp
  qed
qed

lemma dev_command_extends:
  assumes "\<not> agent_turn q" "cmd \<in> set KNOWN_COMMANDS"
  shows "extends P st (snd (run_dev_command c lk q (last_user_text (q_messages q)) cmd st))"
proof (cases "evaluate_command (rt_policy c) cmd (q_confirm_tool q \<or> says_yes (last_user_text (q_messages q)))")
  case (Pair v w)
  show ?thesis
  proof (cases v)
    case Allow
    have "extends P st (sent (ShellRun cmd # (if rt_ccs c \<and> \<not> q_no_cache q then [ContextWrite cmd (lk_shell lk cmd)] else [])) st)"
      using shell [OF assms] context_write Pair Allow by (intro extends_sent) (auto split: if_splits)
    then show ?thesis using Pair Allow by (simp add: run_dev_command_def Let_def)
  qed (use Pair in \<open>simp_all add: run_dev_command_def\<close>)
qed

lemma deterministic_extends:
  assumes "\<not> agent_turn q"
  shows "extends P st (snd (resolve_deterministic_tier c env lk q (last_user_text (q_messages q))
      (match_dev_command (last_user_text (q_messages q))) st))"
proof -
  let ?lu = "last_user_text (q_messages q)"
  let ?cmd = "case match_dev_command ?lu of Some m \<Rightarrow> (if dm_action m = Execute then str_or (dm_command m) '''' else '''') | None \<Rightarrow> ''''"
  show ?thesis
  proof (cases "?cmd = ''''")
    case False
    then obtain m where m: "match_dev_command ?lu = Some m" "dm_action m = Execute" by (auto split: option.splits if_splits)
    then obtain cmd where "cmd \<in> set KNOWN_COMMANDS" "dm_command m = Some cmd" using dev_command_executes by blast
    then have "?cmd \<in> set KNOWN_COMMANDS" using m False by (auto simp: str_or_def split: if_splits)
    then have e: "extends P st (snd (run_dev_command c lk q ?lu ?cmd st))" by (rule dev_command_extends [OF assms])
    obtain r st1 where "run_dev_command c lk q ?lu ?cmd st = (r, st1)" by (rule prod.exhaust)
    then show ?thesis using e False by (simp add: resolve_deterministic_tier_def)
  next
    case empty: True
    show ?thesis
    proof (cases "match_live_fetch_url ?lu")
      case (Some url)
      then have e: "extends P st (snd (run_live_fetch c env lk q url st))" by (rule fetch_extends [OF assms])
      obtain r st1 where "run_live_fetch c env lk q url st = (r, st1)" by (rule prod.exhaust)
      then show ?thesis using e empty Some by (simp add: resolve_deterministic_tier_def)
    next
      case None
      have "extends P st (sent [IntegrationCall p] st)" for p by (rule extends_one, rule integration [OF assms])
      then show ?thesis using empty None
        by (simp only: resolve_deterministic_tier_def) (auto split: option.split)
    qed
  qed
qed

lemma ask_extends:
  assumes "\<not> agent_turn q"
  shows "extends P st (snd (route_ask c env lk q pf st))"
proof -
  let ?lu = "last_user_text (q_messages q)"
  obtain d st1 where d: "resolve_deterministic_tier c env lk q ?lu (match_dev_command ?lu) st = (d, st1)" by (rule prod.exhaust)
  then have e1: "extends P st st1" using deterministic_extends [OF assms, of st lk] by simp
  have fill: "extends P st (snd (route_generation_fill c env (with_draft lk dr q) q pf skip st1))" for dr skip
    by (rule extends_trans [OF e1 fill_extends]) (simp_all add: q_reason q_reach)
  have "extends P st (maybe_shadow_check c env q content pf st)" if "\<not> q_no_cache q" for content
    using l1_replay [OF assms that] by (auto simp: extends_def maybe_check_sends)
  then show ?thesis using e1 d fill by (auto simp: route_ask_def Let_def split: option.split if_splits)
qed

lemma cached_extends: "extends P st (snd (route_cached c env lk q pf st))"
proof -
  have "extends P st (snd (route_generation_fill c env q q pf skip st))" for skip
    by (rule fill_extends [OF q_reason q_reach])
  then show ?thesis using ask_extends [of st lk pf] by (auto simp: route_cached_def Let_def split: option.split)
qed

end

section \<open>What may be sent\<close>

text \<open>
  The entry \<open>h\<close>, sent as the \<open>n\<close>-th, is one the router may send for \<open>q\<close>. Only the capability hop
  may leave the machine without looking at the budget and the deadline.
\<close>

definition lawful :: "route_config \<Rightarrow> hop_env \<Rightarrow> internal_request \<Rightarrow> nat \<Rightarrow> hop \<Rightarrow> bool" where
  "lawful c env q n h = (case h of
     LocalHop tier model reason ms \<Rightarrow>
       reason = cloud_block_reason (fence_of c) q \<and> model = executor_model (fence_of c) tier
   | SummaryHop model \<Rightarrow> model = fc_l3 (fence_of c) \<and> cx_compact (rt_context c) \<and> \<not> en_deadline env n
   | ReplayLocal tier model ms \<Rightarrow> model = executor_model (fence_of c) tier \<and> tier \<in> set TIER_LADDER
       \<and> (tier = ''L3'' \<and> l1_sampled c env \<and> \<not> agent_turn q \<and> \<not> q_no_cache q \<or> rate_sampled c env \<and> q_tools q = [])
   | ReplayFrontier served model ms \<Rightarrow> rate_sampled c env \<and> q_tools q = [] \<and> served \<in> set TIER_LADDER
       \<and> sw_compare (rt_evals c) = ''L6'' \<and> 0 < sw_daily_usd (rt_evals c)
       \<and> (\<exists>f. fc_frontier (fence_of c) = Some f \<and> fr_has_key f)
   | OrgHop \<Rightarrow> rt_org_pool c \<and> \<not> en_deadline env n
   | FrontierHop from_tier model ms \<Rightarrow> frontier_reachable (fence_of c) q
       \<and> (from_tier = ''capability'' \<or> frontier_budget_state (fence_of c) (en_ledger env n) \<noteq> BudgetExceeded
          \<and> \<not> en_deadline env n)
   | CacheWrite store ms content \<Rightarrow> \<not> q_no_cache q \<and> ms = q_messages q \<and> py_strip content \<noteq> ''''
       \<and> (store = ''agent-prefix'' \<longrightarrow> agent_turn q) \<and> (store = ''l1'' \<or> store = ''l1-org'' \<longrightarrow> \<not> agent_turn q)
   | ShellRun cmd \<Rightarrow> \<not> agent_turn q \<and> cmd \<in> set KNOWN_COMMANDS
       \<and> (\<forall>pat \<in> set (py_block (rt_policy c)). \<not> fnmatchcase (py_lower cmd) (py_lower pat))
       \<and> ((\<exists>pat \<in> set (py_allow (rt_policy c)). fnmatchcase (py_lower cmd) (py_lower pat))
          \<or> q_confirm_tool q \<or> says_yes (last_user_text (q_messages q)))
   | ContextWrite cmd output \<Rightarrow> \<not> q_no_cache q
   | LiveFetch url \<Rightarrow> \<not> agent_turn q \<and> match_live_fetch_url (last_user_text (q_messages q)) = Some url
   | IntegrationCall provider \<Rightarrow> \<not> agent_turn q)"

interpretation lawful: route_policy c env "cloud_block_reason (fence_of c) q" "frontier_reachable (fence_of c) q"
    "lawful c env q" q for c env q
proof unfold_locales
  fix h n skip r assume "h \<in> set (cache_writes c skip q r)"
  then show "lawful c env q n h" by (auto simp: cache_writes_def lawful_def split: if_splits)
next
  fix n cmd assume "\<not> agent_turn q" "cmd \<in> set KNOWN_COMMANDS"
    "fst (evaluate_command (rt_policy c) cmd (q_confirm_tool q \<or> says_yes (last_user_text (q_messages q)))) = Allow"
  then show "lawful c env q n (ShellRun cmd)" by (auto simp: lawful_def evaluate_allows_iff)
qed (auto simp: lawful_def executor_model_def TIER_LADDER_def)

lemma route_impl_lawful:
  "extends (lawful c env (with_skills_prefix (rt_skills c) q)) st (snd (route_impl c env lk q pf st))"
proof -
  let ?q = "with_skills_prefix (rt_skills c) q" and ?l = "en_ledger env (now_at st)"
  have serve: "extends (lawful c env ?q) st (snd (serve_required_frontier c env f w ?q st))"
    if "frontier_reachable (fence_of c) ?q" "frontier_budget_state (fence_of c) ?l \<noteq> BudgetExceeded" for f w
    using lawful.frontier_hop_extends [where q = ?q and c = c and env = env and st = st] that
    by (cases "frontier_execute_hop c env f 0 (q_model ?q) ?q st")
      (auto simp: serve_required_frontier_def frontier_execute_hop_def Let_def lawful_def intro!: extends_one)
  have cap: "extends (lawful c env ?q) st (snd (serve_capability_frontier c env ?q st))"
    if "frontier_reachable (fence_of c) ?q"
    using that by (auto simp: serve_capability_frontier_def frontier_execute_hop_def Let_def lawful_def intro!: extends_one)
  have sat: "extends (lawful c env ?q) st (snd (serve_capability_frontier c env ?q st))"
    if "frontier_satisfies_capabilities (fence_of c) (required_capabilities ?q) ?q"
    by (rule cap) (rule satisfies_reachable [OF that])
  have web: "extends (lawful c env ?q) st (snd (serve_required_frontier c env f w ?q st))"
    if "q_web_search ?q" "ensure_web_search_frontier (fence_of c) ?l ?q = None" for f w
    using ensure_ok(1) [OF that] by (intro serve) blast+
  have multi: "extends (lawful c env ?q) st (snd (serve_required_frontier c env f w ?q st))"
    if "q_multi_agent ?q" "ensure_multi_agent_frontier (fence_of c) ?l ?q = None" for f w
    using ensure_ok(2) [OF that] by (intro serve) blast+
  show ?thesis
    using web multi sat lawful.cached_extends [of c env ?q st lk pf]
    unfolding route_impl_def Let_def by (simp split: option.split)
qed

section \<open>Preparation keeps every fence\<close>

lemma tighter_cap:
  assumes "str_or (q_tier_cap q) '''' = '''' \<or> q_tier_cap q' = q_tier_cap q"
  shows "effective_tier_cap fc q' = None \<Longrightarrow> effective_tier_cap fc q = None"
  using assms by (auto simp: effective_tier_cap_def Let_def TIER_LADDER_def upper_ascii_def split: if_splits)

definition same_fences :: "internal_request \<Rightarrow> internal_request \<Rightarrow> bool" where
  "same_fences q q' = ((str_or (q_tier_cap q) '''' = '''' \<or> q_tier_cap q' = q_tier_cap q)
     \<and> q_no_frontier q' = q_no_frontier q \<and> q_region_pin q' = q_region_pin q
     \<and> q_key_models q' = q_key_models q \<and> q_team_models q' = q_team_models q)"

lemma same_fences_reachable: "same_fences q q' \<Longrightarrow> frontier_reachable fc q' \<Longrightarrow> frontier_reachable fc q"
  using tighter_cap [of q q' fc] by (auto simp: same_fences_def frontier_reachable_def split: if_splits option.splits)

lemma same_fences_reason:
  "same_fences q q' \<Longrightarrow> cloud_block_reason fc q \<noteq> None \<Longrightarrow> cloud_block_reason fc q' \<noteq> None"
  using tighter_cap [of q q' fc] by (auto simp: same_fences_def cloud_block_reason_def split: if_splits option.splits)

lemma override_same_fences: "same_fences q (snd (apply_signal_override pf q r))"
  by (simp add: same_fences_def apply_signal_override_def Let_def)

lemma overrides_same_fences: "same_fences q (snd (fst (apply_signal_overrides g ph q pf)))"
proof -
  have "same_fences q q" by (simp add: same_fences_def)
  then show ?thesis using override_same_fences
    by (auto simp: apply_signal_overrides_def Let_def split: option.split prod.split) (metis snd_conv)
qed

lemma classifier_fences: "same_fences (snd (apply_decision_classifier c p lk q pf)) q' = same_fences q q'"
  by (simp add: apply_decision_classifier_def Let_def same_fences_def split: option.split prod.split)

lemma prepare_same_fences: "same_fences q (snd (fst (prepare_request c p env lk q pins)))"
proof -
  obtain pf reused pins1 where r: "resolve_prompt_profile c p env lk q pins = ((pf, reused), pins1)" by (metis prod.exhaust)
  obtain pf' q' where d: "apply_decision_classifier c p lk q (apply_learned_route p lk q pf) = (pf', q')" by (rule prod.exhaust)
  have "same_fences q (snd (fst (apply_signal_overrides g ph q' x)))" for g ph x
    using overrides_same_fences [of q' g ph x] classifier_fences [of c p lk q "apply_learned_route p lk q pf"] d by simp
  then show ?thesis using r d overrides_same_fences
    by (cases reused) (simp_all add: prepare_request_def Let_def)
qed

text \<open>The switches of the client that nothing on the way may change.\<close>

definition same_switches :: "internal_request \<Rightarrow> internal_request \<Rightarrow> bool" where
  "same_switches q q' = (q_no_cache q' = q_no_cache q \<and> q_tools q' = q_tools q \<and> q_confirm_tool q' = q_confirm_tool q
     \<and> q_web_search q' = q_web_search q \<and> q_multi_agent q' = q_multi_agent q \<and> q_model q' = q_model q)"

lemma overrides_same_switches: "same_switches q (snd (fst (apply_signal_overrides g ph q pf)))"
  by (auto simp: apply_signal_overrides_def apply_signal_override_def same_switches_def Let_def split: option.split prod.split)

lemma classifier_switches: "same_switches (snd (apply_decision_classifier c p lk q pf)) q' = same_switches q q'"
  by (simp add: apply_decision_classifier_def Let_def same_switches_def split: option.split prod.split)

lemma prepare_same_switches: "same_switches q (snd (fst (prepare_request c p env lk q pins)))"
proof -
  obtain pf reused pins1 where r: "resolve_prompt_profile c p env lk q pins = ((pf, reused), pins1)" by (metis prod.exhaust)
  obtain pf' q' where d: "apply_decision_classifier c p lk q (apply_learned_route p lk q pf) = (pf', q')" by (rule prod.exhaust)
  have "same_switches q (snd (fst (apply_signal_overrides g ph q' x)))" for g ph x
    using overrides_same_switches [of q' g ph x] classifier_switches [of c p lk q "apply_learned_route p lk q pf"] d by simp
  then show ?thesis using r d overrides_same_switches
    by (cases reused) (simp_all add: prepare_request_def Let_def)
qed

lemma skills_same [simp]:
  "same_fences q (with_skills_prefix s (q1\<lparr>q_messages := ms\<rparr>)) = same_fences q q1"
  "same_switches q (with_skills_prefix s (q1\<lparr>q_messages := ms\<rparr>)) = same_switches q q1"
  "q_tools (with_skills_prefix s q1) = q_tools q1"
  by (auto simp: same_fences_def same_switches_def with_skills_prefix_def split: list.split)

section \<open>A whole request\<close>

text \<open>The request as it reaches the caches and the tiers: prepared, through the input policy and with the skills
  prefix. \<open>None\<close>: the policy refused it.\<close>

definition routed_request ::
    "route_config \<Rightarrow> profile_config \<Rightarrow> hop_env \<Rightarrow> lookup_env \<Rightarrow> internal_request \<Rightarrow> profile_pin pin_store \<Rightarrow>
     internal_request option" where
  "routed_request c p env lk q pins =
     (let q1 = snd (fst (prepare_request c p env lk q pins)) in
      case lk_input lk q1 of Inl refusal \<Rightarrow> None
      | Inr (ms, w) \<Rightarrow> Some (with_skills_prefix (rt_skills c) (q1\<lparr>q_messages := ms\<rparr>)))"

lemma routed_request_same:
  "routed_request c p env lk q pins = Some q' \<Longrightarrow> same_fences q q' \<and> same_switches q q'"
  using prepare_same_fences [of q c p env lk] prepare_same_switches [of q c p env lk]
  by (auto simp: routed_request_def Let_def split: sum.splits)

lemma replay_lawful:
  assumes "q_tools q' = q_tools q"
  shows "extends (lawful c env q') st (maybe_tier_shadow c env q pf r st)"
proof (cases "tier_sampled c env q r")
  case False then show ?thesis by (simp add: maybe_tier_sends)
next
  case True
  let ?t = "tier_shadow_target (rt_evals c) (fence_of c) (en_evals env) (st_evals st) (a_tier r)"
  show ?thesis
  proof (cases ?t)
    case None then show ?thesis by (simp add: maybe_tier_sends)
  next
    case (Some t)
    have l6: "t = ''L6'' \<Longrightarrow> \<exists>f. fc_frontier (fence_of c) = Some f \<and> fr_has_key f"
      using Some by (auto simp: tier_shadow_target_def Let_def split: if_splits option.splits)
    show ?thesis
      using True Some assms l6 shadow_target_L6 [of "rt_evals c" "fence_of c"] shadow_target_tier [OF Some]
      by (auto simp: extends_def maybe_tier_sends tier_sampled_def lawful_def)
  qed
qed

lemma route_lawful:
  "case routed_request c p env lk q pins of None \<Rightarrow> snd (snd (route c p env lk w q pins st)) = st
   | Some q' \<Rightarrow> extends (lawful c env q') st (snd (snd (route c p env lk w q pins st)))
       \<and> same_fences q q' \<and> same_switches q q'"
proof -
  obtain pf q1 pins1 where prep: "prepare_request c p env lk q pins = ((pf, q1), pins1)" by (metis prod.exhaust)
  show ?thesis
  proof (cases "lk_input lk q1")
    case (Inl r) then show ?thesis using prep by (simp add: routed_request_def route_def Let_def)
  next
    case (Inr x)
    obtain ms v where x: "x = (ms, v)" by (rule prod.exhaust)
    let ?q2 = "q1\<lparr>q_messages := ms\<rparr>"
    let ?q = "with_skills_prefix (rt_skills c) ?q2"
    obtain r st1 where run: "route_impl c env lk ?q2 pf st = (r, st1)" by (rule prod.exhaust)
    then have e1: "extends (lawful c env ?q) st st1" using route_impl_lawful [of c env ?q2 st lk pf] by simp
    have "extends (lawful c env ?q) st1 (maybe_tier_shadow c env ?q2 pf r1 st1)" for r1
      by (rule replay_lawful) simp
    then have "extends (lawful c env ?q) st (maybe_tier_shadow c env ?q2 pf r1 st1)" for r1
      using extends_trans [OF e1] by blast
    then have "extends (lawful c env ?q) st (snd (snd (route c p env lk w q pins st)))"
      using prep Inr x run e1 by (cases r) (simp_all add: route_def Let_def)
    then show ?thesis using routed_request_same [of c p env lk q pins ?q] prep Inr x
      by (simp add: routed_request_def Let_def)
  qed
qed


section \<open>A worked configuration\<close>

definition evals_off :: shadow_config where
  "evals_off = \<lparr>sw_feedback = False, sw_l1_rate = 0, sw_rate = 0, sw_compare = '''', sw_daily_usd = 0\<rparr>"

definition demo_draws :: shadow_env where
  "demo_draws = \<lparr>sv_l1_draw = 0, sv_draw = 0, sv_today = ''2026-01-01'', sv_usd = (\<lambda>_ _. 1 / 100),
     sv_similarity = (\<lambda>_ _. Some (9 / 10))\<rparr>"

definition demo_route :: route_config where
  "demo_route = \<lparr>rt_tiers = demo_tiers,
     rt_context = \<lparr>cx_optimizer = False, cx_max_history = 20, cx_squeeze = True, cx_compact = False, cx_slim = False,
       cx_frontier_max_history = 10, cx_fit_enabled = False, cx_fit_messages = 0, cx_fit_tokens = 0\<rparr>,
     rt_threshold = 3 / 5, rt_org_pool = False, rt_org_cache = False, rt_pool_fallback = False, rt_virtual = [],
     rt_virtual_mode = ''ordered'', rt_virtual_slo = [], rt_classify = None, rt_compress = False, rt_scrub = False,
     rt_skills = '''', rt_l1_draft = 7 / 10, rt_integrations = [], rt_ccs = False, rt_providers = [],
     rt_policy = \<lparr>py_allow = [], py_block = [], py_unknown = ''deny''\<rparr>, rt_frontier_default = '''', rt_evals = evals_off\<rparr>"

definition demo_answer :: "pystr \<Rightarrow> answer" where
  "demo_answer content = plain_answer content ''small'' ''L3''"

definition demo_hops :: hop_env where
  "demo_hops = \<lparr>en_json = demo_json, en_digest = (\<lambda>_. ''d''), en_pins = demo_pin_env, en_tuned = (\<lambda>_. None),
     en_breaker_open = (\<lambda>_. False), en_compress = (\<lambda>_. None), en_scrub = (\<lambda>_. None), en_deadline = (\<lambda>_. False),
     en_ledger = (\<lambda>_. None), en_clock_ms = (\<lambda>n. of_nat n), en_pin_reply = PutNoClient, en_pin_now = 0,
     en_local = (\<lambda>_ t. Inr (demo_answer ''The answer is forty-two, as the earlier message already said.'')),
     en_summary = (\<lambda>_. None), en_org = (\<lambda>_. Inl PoolUnavailable), en_frontier = (\<lambda>_. Inr (demo_answer ''a transcript'')),
     en_evals = demo_draws\<rparr>"

definition demo_lookup :: lookup_env where
  "demo_lookup = \<lparr>lk_l0 = None, lk_org_l0 = None, lk_prefix = None, lk_nearest = None, lk_org_l1 = None,
     lk_threshold = 9 / 10, lk_shadow = [], lk_format = (\<lambda>_. ''''), lk_context = (\<lambda>_. None), lk_rules = (\<lambda>_. None),
     lk_shell = (\<lambda>_. ''''), lk_fetch = (\<lambda>_. Inl ''''), lk_integration = (\<lambda>_. None), lk_learned = (\<lambda>_. None),
     lk_difficulty = (\<lambda>_. None), lk_input = (\<lambda>q. Inr (q_messages q, None)), lk_output = (\<lambda>r. r),
     lk_profile_reply = GetNoClient, lk_profile_put = PutNoClient, lk_now = 0\<rparr>"

definition demo_profiles :: profile_config where
  "demo_profiles = \<lparr>po_user_turn = False, po_user_turn_agents = False, po_learned = False, po_difficulty = False,
     po_difficulty_agents = False, po_signals = []\<rparr>"

definition demo_route_state :: route_state where
  "demo_route_state = \<lparr>st_router = demo_state, st_summaries = [], st_perf = None, st_log = [],
     st_evals = \<lparr>ss_day = '''', ss_spent = 0, ss_rows = [], ss_l1_rows = []\<rparr>\<rparr>"

section \<open>Fenced requests\<close>

text \<open>The helper calls, which read no fence, have nowhere to go but models of this machine.\<close>

definition helpers_at_home :: "route_config \<Rightarrow> bool" where
  "helpers_at_home c =
     (((cx_compact (rt_context c) \<or> sw_feedback (rt_evals c) \<and> 0 < sw_l1_rate (rt_evals c))
         \<longrightarrow> \<not> is_ollama_cloud_model (fc_l3 (fence_of c)))
      \<and> (sw_feedback (rt_evals c) \<and> 0 < sw_rate (rt_evals c) \<longrightarrow> sw_compare (rt_evals c) \<noteq> ''L6''
         \<and> list_all (\<lambda>t. \<not> is_ollama_cloud_model (executor_model (fence_of c) t)) TIER_LADDER))"

definition no_way_out :: "bool \<Rightarrow> hop \<Rightarrow> bool" where
  "no_way_out fenced h = (case h of FrontierHop f m ms \<Rightarrow> False | ReplayFrontier t m ms \<Rightarrow> False
     | LocalHop t m reason ms \<Rightarrow> fenced \<longrightarrow> reason \<noteq> None
     | SummaryHop m \<Rightarrow> \<not> is_ollama_cloud_model m | ReplayLocal t m ms \<Rightarrow> \<not> is_ollama_cloud_model m | _ \<Rightarrow> True)"

lemma lawful_no_way_out:
  assumes "lawful c env q n h" "\<not> frontier_reachable (fence_of c) q" "helpers_at_home c"
    "fenced \<longrightarrow> cloud_block_reason (fence_of c) q \<noteq> None"
  shows "no_way_out fenced h"
proof -
  have ladder: "rate_sampled c env \<Longrightarrow> t \<in> set TIER_LADDER \<Longrightarrow> \<not> is_ollama_cloud_model (executor_model (fence_of c) t)" for t
    using assms(3) by (auto simp: helpers_at_home_def rate_sampled_def list_all_iff)
  have l3: "l1_sampled c env \<Longrightarrow> \<not> is_ollama_cloud_model (executor_model (fence_of c) ''L3'')"
    using assms(3) by (auto simp: helpers_at_home_def l1_sampled_def executor_model_def)
  show ?thesis
  proof (cases h)
    case (ReplayLocal t m ms)
    then show ?thesis using assms(1) ladder l3 by (auto simp: lawful_def no_way_out_def)
  next
    case (ReplayFrontier t m ms)
    then show ?thesis using assms(1,3) by (auto simp: lawful_def helpers_at_home_def rate_sampled_def)
  next
    case (SummaryHop m)
    then show ?thesis using assms(1,3) by (simp add: lawful_def no_way_out_def helpers_at_home_def)
  qed (use assms(1,2,4) in \<open>simp_all add: lawful_def no_way_out_def\<close>)
qed

lemma unreachable_stays_local:
  assumes "\<not> frontier_reachable (fence_of c) q" "helpers_at_home c"
    "route c p env lk gate_warning q pins st = (res, pins', st')"
  shows "\<exists>hs. st_log st' = st_log st @ hs \<and> list_all (no_way_out (cloud_block_reason (fence_of c) q \<noteq> None)) hs"
proof (cases "routed_request c p env lk q pins")
  case None
  then show ?thesis using route_lawful [where q = q and pins = pins and w = gate_warning and st = st and c = c and p = p and env = env and lk = lk] assms(3) by simp
next
  case (Some q')
  then have "extends (lawful c env q') st st'" and same: "same_fences q q'"
    using route_lawful [where q = q and pins = pins and w = gate_warning and st = st and c = c and p = p and env = env and lk = lk] assms(3) by simp_all
  then obtain hs where hs: "st_log st' = st_log st @ hs" "\<forall>i < length hs. lawful c env q' (now_at st + i) (hs ! i)"
    by (auto simp: extends_def)
  have shut: "\<not> frontier_reachable (fence_of c) q'"
    "cloud_block_reason (fence_of c) q \<noteq> None \<longrightarrow> cloud_block_reason (fence_of c) q' \<noteq> None"
    using same_fences_reachable [OF same] same_fences_reason [OF same] assms(1) by auto
  have "no_way_out (cloud_block_reason (fence_of c) q \<noteq> None) (hs ! i)" if "i < length hs" for i
  proof (rule lawful_no_way_out [OF _ _ assms(2)])
    show "lawful c env q' (now_at st + i) (hs ! i)" using hs(2) that by simp
  qed (use shut in simp_all)
  then show ?thesis using hs(1) by (auto simp: list_all_length)
qed


text \<open>A request with \<open>no_frontier\<close>: the local tier is asked once, with the reason.\<close>

lemma demo_at_home: "helpers_at_home demo_route"
  by (simp add: helpers_at_home_def demo_route_def evals_off_def)


section \<open>The capability hop\<close>

definition demo_spent :: route_config where
  "demo_spent = demo_route\<lparr>rt_tiers := demo_tiers\<lparr>tc_fence := demo_fence\<lparr>fc_frontier_enabled := True,
     fc_frontier := Some \<lparr>fr_has_key = True, fr_models = \<lparr>fm_slots = [], fm_default = Some ''gpt-4o''\<rparr>\<rparr>,
     fc_daily_budget := 5\<rparr>\<rparr>\<rparr>"

definition demo_late :: hop_env where
  "demo_late = demo_hops\<lparr>en_deadline := \<lambda>_. True, en_ledger := \<lambda>_. Some \<lparr>lg_daily = Some 9, lg_monthly = None\<rparr>\<rparr>"

definition demo_clip :: message where
  "demo_clip = (plain_message ''user'' ''what is said?'')\<lparr>m_audio := [\<lparr>au_data = ''UklG'', au_format = ''wav''\<rparr>]\<rparr>"

lemma demo_clip_runs:
  "st_log (snd (route_impl demo_spent demo_late demo_lookup (demo_request [demo_clip]) (demo_profile 4) demo_route_state))
     = [FrontierHop ''capability'' ''daari'' [demo_clip]]"
  "fst (route_impl demo_spent demo_late demo_lookup (demo_request [demo_clip]\<lparr>q_web_search := True\<rparr>) (demo_profile 4)
     demo_route_state) = Inl (WebSearchUnavailable ''frontier_budget_exceeded'')"
  "frontier_budget_state (fence_of demo_spent) (en_ledger demo_late 0) = BudgetExceeded"
  by code_simp+

text \<open>
  A clip that no local model can hear is sent to the frontier although the daily budget is
  spent and the request's deadline has passed; the same request asking for web search is refused
  for its budget.
\<close>
theorem capability_hop_ignores_budget_and_deadline:
  "\<exists>c env q pf st. frontier_budget_state (fence_of c) (en_ledger env (now_at st)) = BudgetExceeded
     \<and> en_deadline env (now_at st)
     \<and> st_log (snd (route_impl c env demo_lookup q pf st)) = st_log st @ [FrontierHop ''capability'' (q_model q) (q_messages q)]
     \<and> fst (route_impl c env demo_lookup (q\<lparr>q_web_search := True\<rparr>) pf st) = Inl (WebSearchUnavailable ''frontier_budget_exceeded'')"
proof -
  have "en_deadline demo_late (now_at demo_route_state)" "now_at demo_route_state = 0" "st_log demo_route_state = []"
    "q_model (demo_request [demo_clip]) = ''daari''" "q_messages (demo_request [demo_clip]) = [demo_clip]"
    by (simp_all add: demo_late_def demo_route_state_def now_at_def demo_request_def)
  then show ?thesis using demo_clip_runs
    by (intro exI [of _ demo_spent] exI [of _ demo_late] exI [of _ "demo_request [demo_clip]"] exI [of _ "demo_profile 4"]
        exI [of _ demo_route_state]) simp
qed

section \<open>Replays of answers\<close>

lemma replay_spend:
  "tier_shadow_spend (en_evals env) (st_evals st) \<le> tier_shadow_spend (en_evals env) (st_evals (maybe_tier_shadow c env q pf r st))"
proof -
  have rows: "tier_shadow_spend e (s\<lparr>ss_rows := x\<rparr>) = tier_shadow_spend e s" for e s x
    by (simp add: tier_shadow_spend_def)
  show ?thesis
    using spend_never_falls [of "en_evals env" "st_evals st"]
    by (simp add: maybe_tier_shadow_def tier_shadow_check_def Let_def rows sent_def split: option.split sum.split)
qed

lemma target_earlier:
  assumes "tier_shadow_target w fc e s' served = Some t" "tier_shadow_spend e s \<le> tier_shadow_spend e s'"
  shows "tier_shadow_target w fc e s served = Some t"
  using assms by (auto simp: tier_shadow_target_def Let_def split: if_splits option.splits)


text \<open>Private notes, answered by L3, go to the frontier and to a cloud-hosted L5 model.\<close>

definition demo_evals :: "pystr \<Rightarrow> route_config \<Rightarrow> route_config" where
  "demo_evals tier c = c\<lparr>rt_evals := \<lparr>sw_feedback = True, sw_l1_rate = 0, sw_rate = 1 / 10, sw_compare = tier, sw_daily_usd = 1\<rparr>\<rparr>"

definition demo_private :: internal_request where
  "demo_private = demo_request [plain_message ''user'' ''my private notes'']\<lparr>q_no_frontier := True\<rparr>"

definition demo_cloud_route :: route_config where
  "demo_cloud_route = demo_route\<lparr>rt_tiers := demo_tiers\<lparr>tc_fence := demo_fence\<lparr>fc_l5 := ''large:cloud''\<rparr>\<rparr>\<rparr>"

abbreviation demo_eval_run :: "route_config \<Rightarrow> (route_error + answer) \<times> profile_pin pin_store \<times> route_state" where
  "demo_eval_run c \<equiv> route c demo_profiles demo_hops demo_lookup None demo_private (new_pin_store 60 ''p:'') demo_route_state"

definition replay_due :: "route_config \<Rightarrow> pystr \<Rightarrow> bool" where
  "replay_due c t = (case demo_eval_run c of
     (Inl e, pins', st') \<Rightarrow> False
   | (Inr r, pins', st') \<Rightarrow> tier_sampled c demo_hops demo_private r \<and> a_tier r = ''L3''
       \<and> tier_shadow_target (rt_evals c) (fence_of c) (en_evals demo_hops) (st_evals st') (a_tier r) = Some t)"

lemma demo_private_runs: "replay_due (demo_evals ''L6'' demo_spent) ''L6''" "replay_due (demo_evals '''' demo_cloud_route) ''L5''"
  by code_simp+


end
