(* ===== verification/HopBounds.thy ===== *)
theory HopBounds
  imports RoutingLaws
begin

text \<open>
  How much a request can cost: the tiers it is sent to, in order. An escalation walks up the local
  ladder and ends at the frontier; a request with no virtual model asks local tiers at most six
  times and the frontier at most once. The whole of a request adds the summaries of a long history
  and the replays of the evaluations, which are counted too.
\<close>

datatype asked = AskLocal pystr | AskOrg | AskFrontier

definition hop_tier :: "hop \<Rightarrow> asked option" where
  "hop_tier h = (case h of LocalHop t m r ms \<Rightarrow> Some (AskLocal t) | OrgHop \<Rightarrow> Some AskOrg
     | FrontierHop f m ms \<Rightarrow> Some AskFrontier | _ \<Rightarrow> None)"

definition asks :: "route_state \<Rightarrow> asked list \<Rightarrow> route_state \<Rightarrow> bool" where
  "asks st ts st' = (\<exists>hs. st_log st' = st_log st @ hs \<and> List.map_filter hop_tier hs = ts)"

lemma asks_refl: "st_log st' = st_log st \<Longrightarrow> asks st [] st'"
  by (simp add: asks_def map_filter_simps)

lemma asks_trans: "asks st ts st1 \<Longrightarrow> asks st1 us st2 \<Longrightarrow> asks st (ts @ us) st2"
  by (force simp: asks_def map_filter_def)

lemma asks_log: "asks st ts st1 \<Longrightarrow> st_log st2 = st_log st1 \<Longrightarrow> asks st ts st2"
  by (simp add: asks_def)

lemma asks_from: "asks st1 ts st2 \<Longrightarrow> st_log st1 = st_log st \<Longrightarrow> asks st ts st2"
  by (simp add: asks_def)

lemma asks_silent: "list_all (\<lambda>h. hop_tier h = None) hs \<Longrightarrow> asks st [] (sent hs st)"
  by (induction hs) (auto simp: asks_def sent_def map_filter_simps)

section \<open>One call\<close>

lemma run_asks:
  obtains ts where "asks st ts (snd (run_model_tier c env t q st))" "ts = [] \<or> ts = [AskLocal t]"
    "fst (run_model_tier c env t q st) = Inr r \<Longrightarrow> ts = [AskLocal t]"
proof (cases "en_deadline env (now_at st)")
  case True then show ?thesis using that [of "[]"] by (simp add: run_model_tier_def asks_refl)
next
  case False
  obtain q1 cache asked where cc:
    "compact_context (rt_context c) (en_digest env) (en_summary env (now_at st)) (st_summaries st) q = (q1, cache, asked)"
    by (rule prod_cases3)
  show ?thesis
  proof (cases "rs_pool (st_router st) = None \<and> cloud_block_reason (fence_of c) q \<noteq> None
      \<and> is_ollama_cloud_model (executor_model (fence_of c) t)")
    case True
    then have "asks st [] (snd (run_model_tier c env t q st))" "\<exists>e. fst (run_model_tier c env t q st) = Inl e"
      using False cc by (auto simp: run_model_tier_def Let_def asks_def sent_def map_filter_def hop_tier_def)
    then show ?thesis using that [of "[]"] by auto
  next
    case nb: False
    then have "asks st [AskLocal t] (snd (run_model_tier c env t q st))"
      using False cc by (auto simp: run_model_tier_def Let_def asks_def sent_def map_filter_def hop_tier_def)
    then show ?thesis using that [of "[AskLocal t]"] by auto
  qed
qed

lemma run_asks_at_most: "\<exists>ts. asks st ts (snd (run_model_tier c env t q st)) \<and> (ts = [] \<or> ts = [AskLocal t])"
  by (rule run_asks) blast

lemma frontier_hop_asks: "asks st [AskFrontier] (snd (frontier_execute_hop c env f conf m q st))"
  by (simp add: frontier_execute_hop_def Let_def asks_def sent_def map_filter_def hop_tier_def)

section \<open>Escalation\<close>

lemma climb_asks: "\<exists>k. asks st (map AskLocal (take k ts)) (snd (climb c env q threshold ts resp st))"
proof (induction ts arbitrary: resp st)
  case Nil then show ?case by (simp add: asks_refl)
next
  case (Cons t ts)
  obtain r st1 where run: "run_model_tier c env t q st = (r, st1)" by (rule prod.exhaust)
  show ?case
  proof (cases r)
    case (Inl e)
    obtain us where "asks st us st1" "us = [] \<or> us = [AskLocal t]" using run_asks_at_most [of st c env t q] run by auto
    then have "asks st (map AskLocal (take (length us) (t # ts))) st1" by auto
    then show ?thesis using run Inl by (cases e) auto
  next
    case (Inr a)
    have one: "asks st [AskLocal t] st1"
      by (rule run_asks [of st c env t q a]) (use run Inr in auto)
    show ?thesis
    proof (cases "threshold \<le> score_l3_confidence (a_content a)")
      case True
      then have "asks st (map AskLocal (take 1 (t # ts))) (snd (climb c env q threshold (t # ts) resp st))" using run Inr one by simp
      then show ?thesis ..
    next
      case False
      obtain k where "asks st1 (map AskLocal (take k ts)) (snd (climb c env q threshold ts (scored a) st1))" using Cons.IH by blast
      then have "asks st ([AskLocal t] @ map AskLocal (take k ts)) (snd (climb c env q threshold ts (scored a) st1))" by (rule asks_trans [OF one])
      then have "asks st (map AskLocal (take (Suc k) (t # ts))) (snd (climb c env q threshold (t # ts) resp st))"
        using run Inr False by simp
      then show ?thesis ..
    qed
  qed
qed

lemma org_asks: "\<exists>us. asks st us (snd (try_org_pool c env th resp st)) \<and> us \<in> {[], [AskOrg]}"
proof -
  have "asks st [AskOrg] (sent [OrgHop] st)" by (simp add: asks_def sent_def map_filter_def hop_tier_def)
  then show ?thesis
    by (auto simp: try_org_pool_def Let_def asks_refl split: sum.split route_error.split intro: asks_refl)
qed

lemma escalate_asks: "\<exists>us. asks st us (snd (escalate_frontier c env q resp st)) \<and> us \<in> {[], [AskFrontier]}"
proof -
  let ?hop = "frontier_execute_hop c env (a_tier resp) (score_l3_confidence (a_content resp)) (q_model q) q st"
  obtain r st1 where hop: "?hop = (r, st1)" by (rule prod.exhaust)
  then have "asks st [AskFrontier] st1" using frontier_hop_asks [of st c env "a_tier resp" _ "q_model q" q] by (metis snd_conv)
  then show ?thesis using hop
    by (auto simp: escalate_frontier_def asks_refl split: sum.split route_error.split intro: asks_refl)
qed

lemma fallback_asks:
  "\<exists>us. asks st us (snd (local_pool_frontier_fallback c env f q e st)) \<and> us \<in> {[], [AskFrontier]}"
proof -
  obtain r st1 where hop: "frontier_execute_hop c env f 0 (q_model q) q st = (r, st1)" by (rule prod.exhaust)
  then have "asks st [AskFrontier] st1" using frontier_hop_asks [of st c env f 0 "q_model q" q] by simp
  then show ?thesis using hop
    by (auto simp: local_pool_frontier_fallback_def asks_refl split: sum.split route_error.split intro: asks_refl)
qed

text \<open>The local tiers above the current one and within the cap.\<close>

lemma chain_above:
  "t \<in> set (escalation_chain c q current) \<Longrightarrow>
     t \<in> set TIER_LADDER \<and> tier_rank current < tier_rank t
     \<and> (\<forall>cap. effective_tier_cap (fence_of c) q = Some cap \<longrightarrow> tier_rank t \<le> tier_rank cap)"
proof -
  have cap: "effective_tier_cap (fence_of c) q = Some x \<Longrightarrow> x = ''L3'' \<or> x = ''L4'' \<or> x = ''L5''" for x
    using effective_cap_ladder ladder_iff by blast
  show "t \<in> set (escalation_chain c q current) \<Longrightarrow> ?thesis"
    using cap by (cases "effective_tier_cap (fence_of c) q")
      (auto simp: escalation_chain_def Let_def TIER_LADDER_def tier_rank_def split: if_splits option.splits)
qed

lemma chain_sorted: "sorted_wrt (\<lambda>a b. tier_rank a < tier_rank b) (escalation_chain c q current)"
proof -
  have l: "sorted_wrt (\<lambda>a b. tier_rank a < tier_rank b) TIER_LADDER" by (simp add: TIER_LADDER_def tier_rank_def)
  show ?thesis by (auto simp: escalation_chain_def Let_def sorted_wrt_drop sorted_wrt_take l split: option.split)
qed

lemma chain_length: "length (escalation_chain c q current) \<le> 2"
proof -
  have "length TIER_LADDER = 3" by (simp add: TIER_LADDER_def)
  then show ?thesis by (auto simp: escalation_chain_def Let_def split: option.split)
qed

lemma maybe_escalate_asks:
  "\<exists>k us vs. asks st (map AskLocal (take k (if ladder then escalation_chain c q (a_tier resp) else [])) @ us @ vs)
       (snd (maybe_escalate c env ladder q pf resp st))
     \<and> us \<in> {[], [AskOrg]} \<and> vs \<in> {[], [AskFrontier]}"
proof -
  let ?th = "confidence_threshold_for c env q pf" and ?ts = "if ladder then escalation_chain c q (a_tier resp) else []"
  have tier: "a_tier (scored resp) = a_tier resp" "a_content (scored resp) = a_content resp" by (simp_all add: scored_def)
  have none: "?thesis" if "asks st (map AskLocal (take k ?ts) @ us) (snd (maybe_escalate c env ladder q pf resp st))" "us \<in> {[], [AskOrg]}" for k us
    using that by (intro exI [of _ k] exI [of _ us] exI [of _ "[]"]) simp
  show ?thesis
  proof (cases "?th \<le> score_l3_confidence (a_content resp)")
    case True
    then show ?thesis by (intro none [of 0 "[]"]) (simp_all add: maybe_escalate_def Let_def asks_refl tier)
  next
    case False
    obtain x st1 where c1: "climb c env q ?th ?ts (scored resp) st = (x, st1)" by (rule prod.exhaust)
    then obtain k where k: "asks st (map AskLocal (take k ?ts)) st1" using climb_asks [of st ?ts c env q ?th "scored resp"] by auto
    show ?thesis
    proof (cases x)
      case (Inl r)
      then show ?thesis using False c1 k by (intro none [of k "[]"]) (simp_all add: maybe_escalate_def Let_def tier split del: if_split cong: if_cong)
    next
      case (Inr r)
      obtain y st2 where c2: "try_org_pool c env ?th r st1 = (y, st2)" by (rule prod.exhaust)
      then obtain us where us: "asks st1 us st2" "us \<in> {[], [AskOrg]}" using org_asks [of st1 c env ?th r] by auto
      have two: "asks st (map AskLocal (take k ?ts) @ us) st2" by (rule asks_trans [OF k us(1)])
      show ?thesis
      proof (cases y)
        case (Inl r')
        then show ?thesis using False c1 c2 Inr two us(2) by (intro none [of k us]) (simp_all add: maybe_escalate_def Let_def tier split del: if_split cong: if_cong)
      next
        case (Inr r')
        obtain vs where vs: "asks st2 vs (snd (escalate_frontier c env q r' st2))" "vs \<in> {[], [AskFrontier]}"
          using escalate_asks [of st2 c env q r'] by auto
        have "asks st (map AskLocal (take k ?ts) @ us @ vs) (snd (escalate_frontier c env q r' st2))"
          using asks_trans [OF two vs(1)] by simp
        then show ?thesis using False c1 c2 \<open>x = Inr r\<close> Inr us(2) vs(2)
          by (intro exI [of _ k] exI [of _ us] exI [of _ vs]) (simp add: maybe_escalate_def Let_def tier split del: if_split cong: if_cong)
      qed
    qed
  qed
qed

text \<open>An answer the router may return: confident enough, marked with a warning, or the frontier's.\<close>

definition settled :: "pyfloat \<Rightarrow> answer \<Rightarrow> bool" where
  "settled threshold r = (threshold \<le> score_l3_confidence (a_content r) \<or> (\<exists>w. a_warning r = Some w) \<or> a_tier r = ''L6'')"

lemma settled_warn [simp]: "settled th (warn w r)"
  by (simp add: settled_def warn_def)

lemma settled_scored: "th \<le> score_l3_confidence (a_content r) \<Longrightarrow> settled th (scored r)"
  by (simp add: settled_def scored_def)

lemma climb_settles: "fst (climb c env q th ts resp st) = Inl r \<Longrightarrow> settled th r"
proof (induction ts arbitrary: resp st)
  case (Cons t ts)
  obtain x st1 where run: "run_model_tier c env t q st = (x, st1)" by (rule prod.exhaust)
  show ?case
  proof (cases x)
    case (Inl e) then show ?thesis using Cons.prems run by (cases e) auto
  next
    case (Inr a)
    then show ?thesis using Cons run settled_scored by (auto split: if_splits)
  qed
qed simp

lemma org_settles: "fst (try_org_pool c env th resp st) = Inl r \<Longrightarrow> settled th r"
  by (auto simp: try_org_pool_def Let_def settled_def scored_def warn_def split: if_splits sum.splits route_error.splits)

lemma frontier_settles: "fst (escalate_frontier c env q resp st) = Inr r \<Longrightarrow> settled th r"
proof -
  let ?hop = "frontier_execute_hop c env (a_tier resp) (score_l3_confidence (a_content resp)) (q_model q) q st"
  have l6: "fst ?hop = Inr a \<Longrightarrow> a_tier a = ''L6''" for a
    by (cases "en_frontier env (now_at st)") (auto simp: frontier_execute_hop_def Let_def)
  obtain x st1 where hop: "?hop = (x, st1)" by (rule prod.exhaust)
  show "fst (escalate_frontier c env q resp st) = Inr r \<Longrightarrow> ?thesis"
    using hop l6 by (auto simp: escalate_frontier_def settled_def warn_def split: if_splits sum.splits route_error.splits)
qed

text \<open>
  C16. Escalation is orderly: it asks the local tiers above the one that answered and within the
  cap, each at most once and from the bottom up, then at most once the organisation's pool, then at
  most once the frontier; and an answer that is not confident enough is never passed on silently:
  it comes back with a warning, or the frontier gave it.
\<close>
theorem escalation_climbs_in_order:
  "\<exists>k us vs. asks st (map AskLocal (take k (escalation_chain c q (a_tier resp))) @ us @ vs)
       (snd (maybe_escalate c env True q pf resp st))
     \<and> us \<in> {[], [AskOrg]} \<and> vs \<in> {[], [AskFrontier]}
     \<and> sorted_wrt (\<lambda>a b. tier_rank a < tier_rank b) (escalation_chain c q (a_tier resp))
     \<and> list_all (\<lambda>t. t \<in> set TIER_LADDER \<and> tier_rank (a_tier resp) < tier_rank t
          \<and> (case effective_tier_cap (fence_of c) q of None \<Rightarrow> True | Some cap \<Rightarrow> tier_rank t \<le> tier_rank cap))
        (escalation_chain c q (a_tier resp))
     \<and> (case fst (maybe_escalate c env True q pf resp st) of Inl e \<Rightarrow> True
        | Inr r \<Rightarrow> settled (confidence_threshold_for c env q pf) r)"
proof -
  let ?ch = "escalation_chain c q (a_tier resp)" and ?th = "confidence_threshold_for c env q pf"
  have above: "list_all (\<lambda>t. t \<in> set TIER_LADDER \<and> tier_rank (a_tier resp) < tier_rank t
          \<and> (case effective_tier_cap (fence_of c) q of None \<Rightarrow> True | Some cap \<Rightarrow> tier_rank t \<le> tier_rank cap)) ?ch"
    using chain_above [of _ c q "a_tier resp"] by (auto simp: list_all_iff split: option.split)
  obtain x st1 where c1: "climb c env q ?th (escalation_chain c q (a_tier (scored resp))) (scored resp) st = (x, st1)"
    by (rule prod.exhaust)
  have "settled ?th r" if "fst (maybe_escalate c env True q pf resp st) = Inr r" for r
  proof (cases x)
    case (Inl r')
    then show ?thesis using that c1 climb_settles [of c env q ?th "escalation_chain c q (a_tier (scored resp))" "scored resp" st r']
        settled_scored [of ?th resp] by (auto simp: maybe_escalate_def Let_def split: if_splits) (simp add: scored_def)
  next
    case (Inr a)
    obtain y st2 where c2: "try_org_pool c env ?th a st1 = (y, st2)" by (rule prod.exhaust)
    then show ?thesis using that c1 Inr org_settles [of c env ?th a st1] frontier_settles [of c env q _ st2]
        settled_scored [of ?th resp]
      by (cases y) (auto simp: maybe_escalate_def Let_def scored_def split: if_splits)
  qed
  then have "case fst (maybe_escalate c env True q pf resp st) of Inl e \<Rightarrow> True | Inr r \<Rightarrow> settled ?th r"
    by (simp split: sum.split)
  then show ?thesis using maybe_escalate_asks [of st True c q resp env pf] chain_sorted [of c q "a_tier resp"] above
    by (simp only: if_True) blast
qed

section \<open>The bill of a request\<close>

datatype charge = ChargeLocal | ChargeSummary | ChargeOrg | ChargeFrontier | ChargeReplay

definition charge_of :: "hop \<Rightarrow> charge option" where
  "charge_of h = (case h of LocalHop t m r ms \<Rightarrow> Some ChargeLocal | SummaryHop m \<Rightarrow> Some ChargeSummary
     | OrgHop \<Rightarrow> Some ChargeOrg | FrontierHop f m ms \<Rightarrow> Some ChargeFrontier
     | ReplayLocal t m ms \<Rightarrow> Some ChargeReplay | ReplayFrontier t m ms \<Rightarrow> Some ChargeReplay | _ \<Rightarrow> None)"

definition charged :: "charge \<Rightarrow> hop list \<Rightarrow> nat" where
  "charged k hs = length (filter (\<lambda>h. charge_of h = Some k) hs)"

text \<open>Between two states: local calls and summaries, calls of the organisation's pool, of the frontier, replays.\<close>

definition bill :: "nat \<Rightarrow> nat \<Rightarrow> nat \<Rightarrow> nat \<Rightarrow> route_state \<Rightarrow> route_state \<Rightarrow> bool" where
  "bill l g f e st st' = (\<exists>hs. st_log st' = st_log st @ hs \<and> charged ChargeLocal hs \<le> l \<and> charged ChargeSummary hs \<le> l
     \<and> charged ChargeOrg hs \<le> g \<and> charged ChargeFrontier hs \<le> f \<and> charged ChargeReplay hs \<le> e)"

abbreviation costs :: "nat \<Rightarrow> nat \<Rightarrow> nat \<Rightarrow> route_state \<Rightarrow> route_state \<Rightarrow> bool" where
  "costs l g f \<equiv> bill l g f 0"

lemma charged_append [simp]: "charged k (hs @ ks) = charged k hs + charged k ks"
  by (simp add: charged_def)

lemma charged_simps [simp]:
  "charged k [] = 0" "charged k (h # hs) = (if charge_of h = Some k then 1 else 0) + charged k hs"
  by (simp_all add: charged_def)

lemma charge_simps [simp]:
  "charge_of (LocalHop t m r ms) = Some ChargeLocal" "charge_of (SummaryHop m) = Some ChargeSummary"
  "charge_of OrgHop = Some ChargeOrg" "charge_of (FrontierHop t m ms) = Some ChargeFrontier"
  "charge_of (ReplayLocal t m ms) = Some ChargeReplay" "charge_of (ReplayFrontier t m ms) = Some ChargeReplay"
  "charge_of (CacheWrite x ms y) = None" "charge_of (ShellRun x) = None" "charge_of (ContextWrite x y) = None"
  "charge_of (LiveFetch x) = None" "charge_of (IntegrationCall x) = None"
  by (simp_all add: charge_of_def)

lemma bill_trans:
  assumes "bill l g f e st st1" "bill l' g' f' e' st1 st2"
  shows "bill (l + l') (g + g') (f + f') (e + e') st st2"
proof -
  obtain hs ks where "st_log st1 = st_log st @ hs" "st_log st2 = st_log st1 @ ks"
    "charged ChargeLocal hs \<le> l" "charged ChargeSummary hs \<le> l" "charged ChargeOrg hs \<le> g"
    "charged ChargeFrontier hs \<le> f" "charged ChargeReplay hs \<le> e"
    "charged ChargeLocal ks \<le> l'" "charged ChargeSummary ks \<le> l'" "charged ChargeOrg ks \<le> g'"
    "charged ChargeFrontier ks \<le> f'" "charged ChargeReplay ks \<le> e'"
    using assms by (auto simp: bill_def)
  then show ?thesis by (auto simp: bill_def intro!: exI [of _ "hs @ ks"])
qed

lemma costs_trans: "costs l g f st st1 \<Longrightarrow> costs l' g' f' st1 st2 \<Longrightarrow> costs (l + l') (g + g') (f + f') st st2"
  using bill_trans [of l g f 0 st st1 l' g' f' 0 st2] by simp

lemma bill_mono: "bill l g f e st st' \<Longrightarrow> l \<le> l' \<Longrightarrow> g \<le> g' \<Longrightarrow> f \<le> f' \<Longrightarrow> e \<le> e' \<Longrightarrow> bill l' g' f' e' st st'"
  by (fastforce simp: bill_def)

lemma costs_mono: "costs l g f st st' \<Longrightarrow> l \<le> l' \<Longrightarrow> g \<le> g' \<Longrightarrow> f \<le> f' \<Longrightarrow> costs l' g' f' st st'"
  by (rule bill_mono) simp_all

lemma costs_same [simp]: "st_log st' = st_log st \<Longrightarrow> bill l g f e st st'"
  by (simp add: bill_def)

lemma costs_from: "bill l g f e st1 st2 \<Longrightarrow> st_log st1 = st_log st \<Longrightarrow> bill l g f e st st2"
  by (simp add: bill_def)

lemma charged_silent: "list_all (\<lambda>h. charge_of h = None) hs \<Longrightarrow> charged k hs = 0"
  by (induction hs) auto

lemma costs_then_silent:
  "bill l g f e st st1 \<Longrightarrow> st_log st2 = st_log st1 @ hs \<Longrightarrow> list_all (\<lambda>h. charge_of h = None) hs \<Longrightarrow> bill l g f e st st2"
  using charged_silent [of hs] by (fastforce simp: bill_def)

lemma run_costs: "costs 1 0 0 st (snd (run_model_tier c env t q st))"
proof (cases "en_deadline env (now_at st)")
  case True then show ?thesis by (simp add: run_model_tier_def)
next
  case False
  obtain q1 cache asked where cc:
    "compact_context (rt_context c) (en_digest env) (en_summary env (now_at st)) (st_summaries st) q = (q1, cache, asked)"
    by (rule prod_cases3)
  then show ?thesis using False by (auto simp: run_model_tier_def Let_def bill_def sent_def)
qed

lemma run_costs': "run_model_tier c env t q st = (r, st1) \<Longrightarrow> costs 1 0 0 st st1"
  using run_costs [of st c env t q] by simp

lemma frontier_costs: "costs 0 0 1 st (snd (frontier_execute_hop c env f conf m q st))"
  by (simp add: frontier_execute_hop_def Let_def bill_def sent_def)

lemma climb_costs: "costs (length ts) 0 0 st (snd (climb c env q threshold ts resp st))"
proof (induction ts arbitrary: resp st)
  case (Cons t ts)
  obtain r st1 where run: "run_model_tier c env t q st = (r, st1)" by (rule prod.exhaust)
  have one: "costs 1 0 0 st st1" by (rule run_costs' [OF run])
  have now: "costs (Suc (length ts)) 0 0 st st1" by (rule costs_mono [OF one]) simp_all
  have more: "costs (Suc (length ts)) 0 0 st (snd (climb c env q threshold ts (scored a) st1))" for a
    by (rule costs_mono [OF costs_trans [OF one Cons.IH]]) simp_all
  show ?case using run now more by (cases r rule: sum.exhaust) (auto split: route_error.splits)
qed simp

lemma org_costs: "costs 0 1 0 st (snd (try_org_pool c env th resp st))"
proof -
  have "costs 0 1 0 st (sent [OrgHop] st)" by (simp add: bill_def sent_def)
  then show ?thesis by (auto simp: try_org_pool_def Let_def split: sum.split route_error.split)
qed

lemma frontier_step_costs: "costs 0 0 1 st (snd (escalate_frontier c env q resp st))"
proof -
  let ?hop = "frontier_execute_hop c env (a_tier resp) (score_l3_confidence (a_content resp)) (q_model q) q st"
  obtain r st1 where hop: "?hop = (r, st1)" by (rule prod.exhaust)
  then have "costs 0 0 1 st st1" using frontier_costs [of st c env "a_tier resp" _ "q_model q" q] by (metis snd_conv)
  then show ?thesis using hop by (auto simp: escalate_frontier_def split: sum.split route_error.split)
qed

lemma fallback_costs: "costs 0 0 1 st (snd (local_pool_frontier_fallback c env f q e st))"
proof -
  obtain r st1 where hop: "frontier_execute_hop c env f 0 (q_model q) q st = (r, st1)" by (rule prod.exhaust)
  then have "costs 0 0 1 st st1" using frontier_costs [of st c env f 0 "q_model q" q] by simp
  then show ?thesis using hop by (auto simp: local_pool_frontier_fallback_def split: sum.split route_error.split)
qed

lemma escalate_costs: "costs 2 1 1 st (snd (maybe_escalate c env True q pf resp st))"
proof -
  let ?th = "confidence_threshold_for c env q pf" and ?ts = "escalation_chain c q (a_tier (scored resp))"
  obtain x st1 where c1: "climb c env q ?th ?ts (scored resp) st = (x, st1)" by (rule prod.exhaust)
  then have k: "costs 2 0 0 st st1"
    using costs_mono [OF climb_costs [of ?ts st c env q ?th "scored resp"], of 2 0 0] chain_length by simp
  have e1: "costs 2 1 1 st st1" by (rule costs_mono [OF k]) simp_all
  show ?thesis
  proof (cases x)
    case (Inl r) then show ?thesis using c1 e1 by (simp add: maybe_escalate_def Let_def)
  next
    case (Inr r)
    obtain y st2 where c2: "try_org_pool c env ?th r st1 = (y, st2)" by (rule prod.exhaust)
    then have g: "costs 0 1 0 st1 st2" using org_costs [of st1 c env ?th r] by simp
    have two: "costs 2 1 0 st st2" by (rule costs_mono [OF costs_trans [OF k g]]) simp_all
    have e2: "costs 2 1 1 st st2" by (rule costs_mono [OF two]) simp_all
    have e3: "costs 2 1 1 st (snd (escalate_frontier c env q r' st2))" for r'
      by (rule costs_mono [OF costs_trans [OF two frontier_step_costs]]) simp_all
    show ?thesis using c1 c2 Inr e2 e3 by (cases y) (simp_all add: maybe_escalate_def Let_def)
  qed
qed

lemma three_runs:
  assumes "run_model_tier c env t1 q st = (r1, st1)" "run_model_tier c env t2 q st1 = (r2, st2)"
    "run_model_tier c env t3 q st2 = (r3, st3)"
  shows "costs 3 0 0 st st1" "costs 3 0 0 st st2" "costs 3 0 0 st st3"
proof -
  have one: "costs 1 0 0 st st1" by (rule run_costs' [OF assms(1)])
  have two: "costs 2 0 0 st st2" by (rule costs_mono [OF costs_trans [OF one run_costs' [OF assms(2)]]]) simp_all
  have three: "costs 3 0 0 st st3" by (rule costs_mono [OF costs_trans [OF two run_costs' [OF assms(3)]]]) simp_all
  show "costs 3 0 0 st st1" "costs 3 0 0 st st2" "costs 3 0 0 st st3"
    by (rule costs_mono [OF one] costs_mono [OF two] three; simp)+
qed

lemma failover_costs: "costs 3 0 0 st (snd (failover_context_length c env q st))"
proof -
  obtain r1 st1 where r1: "run_model_tier c env ''L4'' q st = (r1, st1)" by (rule prod.exhaust)
  obtain r2 st2 where r2: "run_model_tier c env ''L5'' q st1 = (r2, st2)" by (rule prod.exhaust)
  obtain r3 st3 where r3: "run_model_tier c env ''L3'' q st2 = (r3, st3)" by (rule prod.exhaust)
  show ?thesis using r1 r2 r3 three_runs [OF r1 r2 r3]
    by (auto simp: failover_context_length_def Let_def split: sum.splits route_error.splits)
qed

lemma fall_back_costs: "costs 3 0 0 st (snd (fall_back c env initial cq q e st))"
proof -
  obtain r1 st1 where r1: "run_model_tier c env ''L4'' q st = (r1, st1)" by (rule prod.exhaust)
  obtain r2 st2 where r2: "run_model_tier c env ''L3'' q st1 = (r2, st2)" by (rule prod.exhaust)
  obtain r3 st3 where r3: "run_model_tier c env ''L3'' q st2 = (r3, st3)" by (rule prod.exhaust)
  obtain s1 su1 where s1: "run_model_tier c env ''L3'' q st = (s1, su1)" by (rule prod.exhaust)
  have "costs 3 0 0 st su1" using costs_mono [OF run_costs' [OF s1], of 3 0 0] by simp
  moreover have "costs 3 0 0 st (snd (case run_model_tier c env t q st of (r, st1) \<Rightarrow> (map_sum id (warn w) r, st1)))" for t w
    using costs_mono [OF run_costs [of st c env t q], of 3 0 0] by (cases "run_model_tier c env t q st") simp
  ultimately show ?thesis using r1 r2 s1 three_runs [OF r1 r2 r3] failover_costs [of st c env q]
    by (auto simp: fall_back_def split: sum.splits route_error.splits option.splits)
qed

lemma generate_costs: "costs 6 1 1 st (snd (generate_on_tiers c env q cq pf st))"
proof -
  obtain ch rs where ch: "choose_initial_tier (en_json env) (rt_tiers c) (en_pins env) cq pf (st_router st) = (ch, rs)"
    by (rule prod.exhaust)
  show ?thesis
  proof (cases ch)
    case (Inl req) then show ?thesis using ch by (simp add: generate_on_tiers_def)
  next
    case (Inr t)
    let ?st0 = "st\<lparr>st_router := rs\<rparr>"
    obtain r1 st1 where r1: "run_model_tier c env t q ?st0 = (r1, st1)" by (rule prod.exhaust)
    have e1: "costs 1 0 0 st st1" by (rule costs_from [OF run_costs' [OF r1]]) simp
    show ?thesis
    proof (cases r1)
      case (Inr r)
      have "costs 6 1 1 st (snd (maybe_escalate c env True q pf r st1))" by (rule costs_mono [OF costs_trans [OF e1 escalate_costs]]) simp_all
      then show ?thesis using ch r1 \<open>ch = Inr t\<close> Inr by (simp add: generate_on_tiers_def)
    next
      case (Inl e)
      obtain r2 st2 where r2: "fall_back c env t cq q e st1 = (r2, st2)" by (rule prod.exhaust)
      then have f2: "costs 3 0 0 st1 st2" using fall_back_costs [of st1 c env t cq q e] by simp
      have e2: "costs 4 0 0 st st2" by (rule costs_mono [OF costs_trans [OF e1 f2]]) simp_all
      show ?thesis
      proof (cases "e = DeadlineExceeded")
        case True
        then show ?thesis using ch r1 costs_mono [OF e1, of 6 1 1] \<open>ch = Inr t\<close> Inl by (simp add: generate_on_tiers_def)
      next
        case nd: False
        show ?thesis
        proof (cases r2)
          case (Inr r)
          have "costs 6 1 1 st (snd (maybe_escalate c env True q pf r st2))" by (rule costs_mono [OF costs_trans [OF e2 escalate_costs]]) simp_all
          then show ?thesis using nd ch r1 r2 \<open>ch = Inr t\<close> \<open>r1 = Inl e\<close> Inr
            by (cases e) (simp_all add: generate_on_tiers_def)
        next
          case (Inl e')
          obtain x st3 where fb: "local_pool_frontier_fallback c env t q e' st2 = (x, st3)" by (rule prod.exhaust)
          then have f3: "costs 0 0 1 st2 st3" using fallback_costs [of st2 c env t q e'] by simp
          have "costs 4 0 1 st st3" by (rule costs_mono [OF costs_trans [OF e2 f3]]) simp_all
          then have e3: "costs 6 1 1 st st3" "costs 6 1 1 st st2"
            using costs_mono [of 4 0 1 st st3 6 1 1] costs_mono [OF e2, of 6 1 1] by simp_all
          have "snd (generate_on_tiers c env q cq pf st) \<in> {st2, st3}"
            using nd ch r1 r2 fb \<open>ch = Inr t\<close> \<open>r1 = Inl e\<close> Inl
            by (cases e; cases e'; cases x) (simp_all add: generate_on_tiers_def)
          then show ?thesis using e3 by auto
        qed
      qed
    qed
  qed
qed

lemma fill_costs:
  assumes "resolve_virtual_candidates (Some (py_strip (q_model cq))) (rt_virtual c) = None"
  shows "costs 6 1 1 st (snd (route_generation_fill c env g cq pf skip st))"
proof -
  have v: "try_virtual_model c env g cq st = (None, st)" using assms by (simp add: try_virtual_model_def)
  obtain r st2 where r: "generate_on_tiers c env g cq pf st = (r, st2)" by (rule prod.exhaust)
  then have g: "costs 6 1 1 st st2" using generate_costs [of st c env g cq pf] by simp
  show ?thesis
  proof (cases r)
    case (Inl e) then show ?thesis using g r v by (simp add: route_generation_fill_def)
  next
    case (Inr a)
    have "list_all (\<lambda>h. charge_of h = None) (cache_writes c skip cq a)"
      by (auto simp: cache_writes_def list_all_iff)
    then have "costs 6 1 1 st (sent (cache_writes c skip cq a) (finish_session_pin c env cq a st2))"
      by (rule costs_then_silent [OF g, rotated]) (simp add: sent_def finish_session_pin_def Let_def)
    then show ?thesis using r v Inr by (simp add: route_generation_fill_def)
  qed
qed

lemma silent_costs: "st_log st' = st_log st @ hs \<Longrightarrow> list_all (\<lambda>h. charge_of h = None) hs \<Longrightarrow> costs l g f st st'"
  by (rule costs_then_silent [OF costs_same]) auto

lemma live_fetch_costs: "costs 1 0 0 st (snd (run_live_fetch c env lk q url st))"
proof (cases "lk_fetch lk url")
  case (Inl e)
  then show ?thesis by (intro silent_costs) (auto simp: run_live_fetch_def Let_def sent_def)
next
  case (Inr page)
  have one: "costs 0 0 0 st (sent [LiveFetch url] st)" by (rule silent_costs) (auto simp: sent_def)
  have run: "costs 1 0 0 st (snd (run_model_tier c env ''L3'' sq (sent [LiveFetch url] st)))" for sq
    by (rule costs_mono [OF costs_trans [OF one run_costs]]) simp_all
  obtain r st2 where "run_model_tier c env ''L3'' (fetch_request c q url page) (sent [LiveFetch url] st) = (r, st2)"
    by (rule prod.exhaust)
  then have "snd (run_live_fetch c env lk q url st)
      = snd (run_model_tier c env ''L3'' (fetch_request c q url page) (sent [LiveFetch url] st))"
    using Inr by (cases r) (simp_all add: run_live_fetch_def Let_def)
  then show ?thesis using run by simp
qed

lemma deterministic_costs:
  "resolve_deterministic_tier c env lk q lu dm st = (r, st1) \<Longrightarrow> costs 1 0 0 st st1 \<and> (r = None \<longrightarrow> st1 = st)"
proof -
  let ?cmd = "case dm of Some m \<Rightarrow> (if dm_action m = Execute then str_or (dm_command m) '''' else '''') | None \<Rightarrow> ''''"
  have dev: "costs 1 0 0 st (snd (run_dev_command c lk q lu ?cmd st))"
    by (auto simp: run_dev_command_def Let_def sent_def split: prod.split verdict.split intro!: silent_costs)
  have call: "costs 1 0 0 st (sent [IntegrationCall p] st)" for p
    by (rule silent_costs) (auto simp: sent_def)
  show "resolve_deterministic_tier c env lk q lu dm st = (r, st1) \<Longrightarrow> ?thesis"
  proof (cases "?cmd = ''''")
    case False
    assume "resolve_deterministic_tier c env lk q lu dm st = (r, st1)"
    then show ?thesis using dev False by (cases "run_dev_command c lk q lu ?cmd st") (auto simp: resolve_deterministic_tier_def)
  next
    case True
    assume res: "resolve_deterministic_tier c env lk q lu dm st = (r, st1)"
    show ?thesis
    proof (cases "match_live_fetch_url lu")
      case (Some url)
      then show ?thesis using res True live_fetch_costs [of st c env lk q url]
        by (cases "run_live_fetch c env lk q url st") (auto simp: resolve_deterministic_tier_def)
    next
      case None
      then show ?thesis using res True call
        by (simp only: resolve_deterministic_tier_def) (auto split: option.splits)
    qed
  qed
qed

lemma route_impl_costs:
  assumes "resolve_virtual_candidates (Some (py_strip (q_model q))) (rt_virtual c) = None"
  shows "bill 6 1 1 1 st (snd (route_impl c env lk q pf st))"
proof -
  let ?q = "with_skills_prefix (rt_skills c) q"
  note up = bill_mono [of _ _ _ _ _ _ 6 1 1 1]
  have model: "q_model ?q = q_model q" by (auto simp: with_skills_prefix_def split: list.split)
  have fill: "bill 6 1 1 1 st (snd (route_generation_fill c env g ?q pf skip st))" for g skip
    by (rule up [OF fill_costs]) (simp_all add: model assms)
  have serve: "bill 6 1 1 1 st (snd (serve_required_frontier c env f w ?q st))" for f w
    using up [OF frontier_costs [of st c env f 0 "q_model ?q" ?q]]
    by (cases "frontier_execute_hop c env f 0 (q_model ?q) ?q st") (simp add: serve_required_frontier_def)
  have cap: "bill 6 1 1 1 st (snd (serve_capability_frontier c env ?q st))"
    using up [OF frontier_costs [of st c env "''capability''" 0 "q_model ?q" ?q]]
    by (cases "frontier_execute_hop c env ''capability'' 0 (q_model ?q) ?q st") (simp add: serve_capability_frontier_def)
  have replay: "bill 6 1 1 1 st (maybe_shadow_check c env ?q content pf st)" for content
    by (auto simp: bill_def maybe_check_sends)
  have ask: "bill 6 1 1 1 st (snd (route_ask c env lk ?q pf st))"
  proof -
    let ?lu = "last_user_text (q_messages ?q)"
    obtain r st1 where d: "resolve_deterministic_tier c env lk ?q ?lu (match_dev_command ?lu) st = (r, st1)" by (rule prod.exhaust)
    then have one: "costs 1 0 0 st st1" "r = None \<longrightarrow> st1 = st" using deterministic_costs [OF d] by simp_all
    have "bill 6 1 1 1 st st1" by (rule up [OF one(1)]) simp_all
    then show ?thesis using d one(2) fill replay by (auto simp: route_ask_def Let_def split: option.split)
  qed
  have "bill 6 1 1 1 st (snd (route_cached c env lk ?q pf st))"
    using ask fill by (auto simp: route_cached_def Let_def split: option.split)
  then show ?thesis using serve cap unfolding route_impl_def Let_def by (simp split: option.split)
qed

lemma replay_costs: "bill 0 0 0 1 st (maybe_tier_shadow c env q pf r st)"
  by (auto simp: bill_def maybe_tier_sends split: option.split)

text \<open>
  C15. A request that names no virtual model costs at most six calls of local tiers, each with at most
  one call of the L3 model for a summary of the history, one call of the organisation's pool and one
  of the frontier, whatever fails on the way; and at most two evaluation replays, one for a
  near-match of the cache and one for the answer.
\<close>
theorem requests_are_bounded:
  assumes "resolve_virtual_candidates (Some (py_strip (q_model q))) (rt_virtual c) = None"
  shows "bill 6 1 1 2 st (snd (snd (route c p env lk w q pins st)))"
proof -
  obtain pf q1 pins1 where prep: "prepare_request c p env lk q pins = ((pf, q1), pins1)" by (metis prod.exhaust)
  then have m: "q_model q1 = q_model q"
    using prepare_same_switches [of q c p env lk pins] by (simp add: same_switches_def)
  show ?thesis
  proof (cases "lk_input lk q1")
    case (Inl r) then show ?thesis using prep by (simp add: route_def)
  next
    case (Inr x)
    obtain ms v where x: "x = (ms, v)" by (rule prod.exhaust)
    let ?q2 = "q1\<lparr>q_messages := ms\<rparr>"
    obtain r st1 where run: "route_impl c env lk ?q2 pf st = (r, st1)" by (rule prod.exhaust)
    then have b: "bill 6 1 1 1 st st1" using route_impl_costs [of ?q2 c st env lk pf] assms m by simp
    have "bill 6 1 1 2 st (maybe_tier_shadow c env ?q2 pf a st1)" for a
      using bill_trans [OF b replay_costs [of st1 c env ?q2 pf a]] by (simp add: numeral_2_eq_2)
    moreover have "bill 6 1 1 2 st st1" by (rule bill_mono [OF b]) simp_all
    ultimately show ?thesis using prep Inr x run by (cases r) (simp_all add: route_def Let_def)
  qed
qed

lemma requests_are_bounded_witness:
  "bill 6 1 1 2 demo_route_state (snd (snd (route demo_route demo_profiles demo_hops demo_lookup None (demo_request [])
     (new_pin_store 60 ''p:'') demo_route_state)))"
  by (rule requests_are_bounded) (simp add: resolve_virtual_candidates_def demo_route_def Let_def)

end
