(* ===== verification/KeyRecords.thy ===== *)
theory KeyRecords
  imports RateLimiter AccessLists
begin

text \<open>
  The records of the virtual key store and the functions on one of them
  (\<open>daari/auth/virtual_keys.py\<close>): budget windows, teams, keys, expiry, cache scopes and admission
  priority.

  A moment is a number of microseconds since 1970. A \<open>key_lib\<close> holds what the standard library
  makes of texts: \<open>json\<close>, \<open>float(text)\<close> and \<open>repr\<close> of a float, \<open>datetime.fromisoformat\<close> (after
  \<open>Z\<close> became \<open>+00:00\<close>, a naive value read as UTC) and \<open>isoformat\<close>. Metadata is a JSON object.
\<close>

record key_lib =
  kl_json :: json_lib
  kl_float :: "pystr \<Rightarrow> pyfloat option"
  kl_repr :: "pyfloat \<Rightarrow> pystr"
  kl_time :: "pystr \<Rightarrow> int option"
  kl_iso :: "int \<Rightarrow> pystr"

type_synonym metadata = "(pystr \<times> json) list"

text \<open>\<open>float(value or d)\<close> and \<open>int(value or d)\<close>; \<open>None\<close> is a ValueError or TypeError.\<close>

definition float_or :: "key_lib \<Rightarrow> pyfloat \<Rightarrow> json \<Rightarrow> pyfloat option" where
  "float_or lib d j =
     (if \<not> truthy j then Some d
      else (case j of JBool b \<Rightarrow> Some 1 | JInt n \<Rightarrow> Some (rat_of_int n) | JFloat x t \<Rightarrow> Some x
              | JStr s \<Rightarrow> kl_float lib s | _ \<Rightarrow> None))"

definition int_or :: "int \<Rightarrow> json \<Rightarrow> int option" where
  "int_or d j =
     (if \<not> truthy j then Some d
      else (case j of JBool b \<Rightarrow> Some 1 | JInt n \<Rightarrow> Some n | JFloat x t \<Rightarrow> Some (py_trunc x)
              | JStr s \<Rightarrow> py_int s | _ \<Rightarrow> None))"

section \<open>Budget windows\<close>

record budget_window =
  bw_duration :: pystr
  bw_max_usd :: pyfloat
  bw_rollover :: bool
  bw_cap_multiple :: pyfloat
  bw_max_requests :: int   \<comment> \<open>0: unlimited\<close>

definition plain_window :: "pystr \<Rightarrow> pyfloat \<Rightarrow> budget_window" where
  "plain_window duration usd =
     \<lparr>bw_duration = duration, bw_max_usd = usd, bw_rollover = False, bw_cap_multiple = 2, bw_max_requests = 0\<rparr>"

definition float_json :: "key_lib \<Rightarrow> pyfloat \<Rightarrow> json" where
  "float_json lib x = JFloat x (kl_repr lib x)"

definition window_as_dict :: "key_lib \<Rightarrow> budget_window \<Rightarrow> json" where
  "window_as_dict lib w = JObj
     ([(''duration'', JStr (bw_duration w)), (''max_usd'', float_json lib (bw_max_usd w))]
      @ (if bw_max_requests w > 0 then [(''max_requests'', JInt (bw_max_requests w))] else [])
      @ (if bw_rollover w then [(''rollover'', JBool True), (''rollover_cap_multiple'', float_json lib (bw_cap_multiple w))]
         else []))"

definition windows_json :: "key_lib \<Rightarrow> budget_window list \<Rightarrow> json" where
  "windows_json lib ws = JList (map (window_as_dict lib) ws)"

text \<open>An unreadable amount skips the window, an unreadable count is 0, a bad multiple is 2.\<close>

definition parse_window :: "key_lib \<Rightarrow> json \<Rightarrow> budget_window option" where
  "parse_window lib item = (case item of
     JObj kvs \<Rightarrow>
       (let d = obj_get kvs ''duration'';
            duration = py_strip (if truthy d then jl_str (kl_json lib) d else '''');
            requests = (case int_or 0 (obj_get kvs ''max_requests'') of None \<Rightarrow> 0 | Some n \<Rightarrow> n);
            multiple = (case float_or lib 2 (obj_get kvs ''rollover_cap_multiple'') of None \<Rightarrow> 2 | Some c \<Rightarrow> c)
        in case float_or lib 0 (obj_get kvs ''max_usd'') of
             None \<Rightarrow> None
           | Some usd \<Rightarrow>
               (if duration \<noteq> '''' \<and> (usd > 0 \<or> requests > 0)
                then Some \<lparr>bw_duration = duration, bw_max_usd = usd, bw_rollover = truthy (obj_get kvs ''rollover''),
                           bw_cap_multiple = (if multiple \<le> 1 then 2 else multiple), bw_max_requests = max 0 requests\<rparr>
                else None))
   | _ \<Rightarrow> None)"

definition parse_windows :: "key_lib \<Rightarrow> json \<Rightarrow> budget_window list" where
  "parse_windows lib payload = (case payload of JList xs \<Rightarrow> List.map_filter (parse_window lib) xs | _ \<Rightarrow> [])"

definition windows_from_flat :: "pyfloat \<Rightarrow> pyfloat \<Rightarrow> budget_window list" where
  "windows_from_flat daily monthly =
     (if daily > 0 then [plain_window ''day'' daily] else [])
     @ (if monthly > 0 then [plain_window ''month'' monthly] else [])"

section \<open>Teams and keys\<close>

record team =
  tm_id :: pystr
  tm_name :: pystr
  tm_windows :: "budget_window list"
  tm_pin :: "pystr option"
  tm_rpm :: int
  tm_tpm :: int
  tm_rpd :: int
  tm_tpd :: int
  tm_models :: "pystr list option"
  tm_groups :: "pystr list option"
  tm_cache_scope :: pystr
  tm_priority :: pystr
  tm_max_in_flight :: int
  tm_service_tiers :: "pystr list option"
  tm_degrade :: bool
  tm_meta :: metadata

record virtual_key =
  vk_id :: pystr
  vk_name :: pystr
  vk_prefix :: pystr
  vk_daily :: pyfloat
  vk_monthly :: pyfloat
  vk_rpm :: int
  vk_tpm :: int
  vk_rpd :: int
  vk_tpd :: int
  vk_tier_cap :: "pystr option"
  vk_client :: "pystr option"
  vk_revoked :: bool
  vk_team :: "pystr option"
  vk_team_name :: "pystr option"
  vk_windows :: "budget_window list"
  vk_meta :: metadata
  vk_expires :: "pystr option"
  vk_prev_expires :: "pystr option"
  vk_user_cap :: pyfloat
  vk_user_rpd :: int
  vk_user_tpd :: int
  vk_pin :: "pystr option"
  vk_models :: "pystr list option"
  vk_groups :: "pystr list option"
  vk_cache_scope :: pystr
  vk_priority :: pystr
  vk_last_used :: "pystr option"
  vk_max_in_flight :: int
  vk_service_tiers :: "pystr list option"
  vk_degrade :: bool

section \<open>Expiry\<close>

text \<open>A text that is not a moment never passes.\<close>

definition is_past :: "key_lib \<Rightarrow> int \<Rightarrow> pystr option \<Rightarrow> bool" where
  "is_past lib now raw =
     (if str_or raw '''' = '''' then False
      else (case kl_time lib (str_or raw '''') of None \<Rightarrow> False | Some t \<Rightarrow> t \<le> now))"

definition key_is_expired :: "key_lib \<Rightarrow> int \<Rightarrow> virtual_key \<Rightarrow> bool" where
  "key_is_expired lib now k = is_past lib now (vk_expires k)"

definition key_status :: "key_lib \<Rightarrow> int \<Rightarrow> virtual_key \<Rightarrow> pystr" where
  "key_status lib now k =
     (if vk_revoked k then ''revoked'' else if key_is_expired lib now k then ''expired'' else ''active'')"

definition KEY_EXPIRY_BUCKETS :: "pystr list" where
  "KEY_EXPIRY_BUCKETS = [''active'', ''expired'', ''expiring_soon'', ''revoked'']"

definition DAY_US :: int where "DAY_US = 86400000000"

definition key_expiry_bucket :: "key_lib \<Rightarrow> int \<Rightarrow> int \<Rightarrow> virtual_key \<Rightarrow> pystr" where
  "key_expiry_bucket lib now warn_days k =
     (if vk_revoked k then ''revoked''
      else if key_is_expired lib now k then ''expired''
      else if str_or (vk_expires k) '''' = '''' then ''active''
      else (case kl_time lib (str_or (vk_expires k) '''') of
          None \<Rightarrow> ''active''
        | Some t \<Rightarrow> (if t \<le> now + max 0 warn_days * DAY_US then ''expiring_soon'' else ''active'')))"

definition count_key_expiry_buckets :: "key_lib \<Rightarrow> int \<Rightarrow> int \<Rightarrow> virtual_key list \<Rightarrow> (pystr \<times> nat) list" where
  "count_key_expiry_buckets lib now warn_days ks =
     map (\<lambda>b. (b, length (filter (\<lambda>k. key_expiry_bucket lib now warn_days k = b) ks))) KEY_EXPIRY_BUCKETS"

text \<open>\<open>None\<close>: an unknown status, or a negative number of days (which is only met on a key).\<close>

definition idle_enough :: "key_lib \<Rightarrow> int \<Rightarrow> int \<Rightarrow> virtual_key \<Rightarrow> bool" where
  "idle_enough lib now days k = (case vk_last_used k of None \<Rightarrow> True
     | Some s \<Rightarrow> (case kl_time lib s of None \<Rightarrow> True | Some t \<Rightarrow> \<not> now - t < days * DAY_US))"

definition filter_virtual_keys ::
    "key_lib \<Rightarrow> int \<Rightarrow> pystr option \<Rightarrow> int option \<Rightarrow> virtual_key list \<Rightarrow> virtual_key list option" where
  "filter_virtual_keys lib now status idle_days ks =
     (let wanted = py_lower (py_strip (str_or status ''''));
          kept = filter (\<lambda>k. wanted = '''' \<or> key_status lib now k = wanted) ks
      in if wanted \<noteq> '''' \<and> wanted \<notin> {''active'', ''expired'', ''revoked''} then None
         else (case idle_days of None \<Rightarrow> Some kept
           | Some days \<Rightarrow> (if kept \<noteq> [] \<and> days < 0 then None else Some (filter (idle_enough lib now days) kept))))"

text \<open>\<open><n>m\<close>, \<open><n>h\<close>, \<open><n>d\<close> in microseconds.\<close>

definition relative_span :: "pystr \<Rightarrow> int option" where
  "relative_span s =
     (if s = '''' \<or> butlast s = '''' \<or> \<not> list_all is_digit (butlast s) then None
      else map_option (\<lambda>u. digits_value 0 (butlast s) * u)
        (map_of [(CHR ''m'', 60000000), (CHR ''h'', 3600000000), (CHR ''d'', DAY_US)] (last s)))"

text \<open>\<open>Inl\<close>: a ValueError. \<open>Inr None\<close>: never.\<close>

definition expiry_from :: "key_lib \<Rightarrow> int \<Rightarrow> pystr option \<Rightarrow> unit + pystr option" where
  "expiry_from lib now raw =
     (let v = py_strip (str_or raw '''') in
      if py_lower v \<in> {'''', ''never'', ''none'', ''0''} then Inr None
      else (case relative_span (py_lower v) of
          Some n \<Rightarrow> (if n \<le> 0 then Inl () else Inr (Some (kl_iso lib (now + n))))
        | None \<Rightarrow> (case kl_time lib v of None \<Rightarrow> Inl () | Some t \<Rightarrow> Inr (Some (kl_iso lib t)))))"

definition grace_from :: "key_lib \<Rightarrow> int \<Rightarrow> pystr option \<Rightarrow> unit + pystr" where
  "grace_from lib now raw =
     (let s = py_lower (py_strip (case raw of None \<Rightarrow> ''24h'' | Some t \<Rightarrow> t)); v = (if s = '''' then ''24h'' else s) in
      if v \<in> {''0'', ''0m'', ''0h'', ''0d''} then Inr (kl_iso lib now)
      else (case relative_span v of
          Some n \<Rightarrow> Inr (kl_iso lib (if n \<le> 0 then now else now + n))
        | None \<Rightarrow> (case expiry_from lib now (Some v) of
            Inl e \<Rightarrow> Inl e | Inr None \<Rightarrow> Inr (kl_iso lib now) | Inr (Some t) \<Rightarrow> Inr t)))"

section \<open>Cache scopes\<close>

definition CACHE_SCOPE_RANK :: "(pystr \<times> nat) list" where
  "CACHE_SCOPE_RANK = [(''global'', 0), (''team'', 1), (''key'', 2)]"

definition scope_text :: "pystr option \<Rightarrow> pystr" where
  "scope_text v = py_lower (py_strip (str_or v ''global''))"

definition coerce_cache_scope :: "pystr option \<Rightarrow> pystr" where
  "coerce_cache_scope v = (if map_of CACHE_SCOPE_RANK (scope_text v) \<noteq> None then scope_text v else ''global'')"

definition normalize_cache_scope :: "pystr option \<Rightarrow> pystr option" where
  "normalize_cache_scope v =
     (let t = (if scope_text v = '''' then ''global'' else scope_text v) in
      if map_of CACHE_SCOPE_RANK t = None then None else Some t)"

definition scope_rank :: "pystr \<Rightarrow> nat" where
  "scope_rank s = the (map_of CACHE_SCOPE_RANK s)"

definition effective_cache_scope :: "pystr option list \<Rightarrow> pystr" where
  "effective_cache_scope scopes =
     fold (\<lambda>s best. if scope_rank (coerce_cache_scope s) > scope_rank best then coerce_cache_scope s else best)
       scopes ''global''"

section \<open>Admission priority\<close>

text \<open>The priority field of a stored key or team is never empty; a key's wins.\<close>

definition meta_text :: "key_lib \<Rightarrow> metadata \<Rightarrow> pystr \<Rightarrow> pystr" where
  "meta_text lib m name = (if truthy (obj_get m name) then jl_str (kl_json lib) (obj_get m name) else '''')"

definition admission_priority_for :: "key_lib \<Rightarrow> virtual_key option \<Rightarrow> team option \<Rightarrow> pystr" where
  "admission_priority_for lib key tm =
     (let k = (case key of None \<Rightarrow> '''' | Some k \<Rightarrow>
                 (if vk_priority k \<noteq> '''' then vk_priority k else meta_text lib (vk_meta k) ''priority''));
          t = (case tm of None \<Rightarrow> '''' | Some t \<Rightarrow> tm_priority t)
      in if k \<noteq> '''' then normalize_priority (Some k)
         else if t \<noteq> '''' then normalize_priority (Some t) else ''normal'')"

definition priority_rank :: "pystr \<Rightarrow> nat" where
  "priority_rank p = the (map_of PRIORITY_RANK p)"

text \<open>The value, and whether the header is invalid.\<close>

definition parse_priority_header :: "pystr option \<Rightarrow> pystr option \<times> bool" where
  "parse_priority_header raw =
     (let t = py_lower (py_strip (str_or raw '''')) in
      if t = '''' then (None, False)
      else if map_of PRIORITY_RANK t \<noteq> None then (Some t, False) else (None, True))"

definition resolve_request_admission_priority ::
    "key_lib \<Rightarrow> virtual_key option \<Rightarrow> team option \<Rightarrow> pystr option \<Rightarrow> bool \<Rightarrow> pystr \<times> pystr option \<times> bool" where
  "resolve_request_admission_priority lib key tm header allow_boost =
     (let baseline = admission_priority_for lib key tm in
      case parse_priority_header header of
        (_, True) \<Rightarrow> (baseline, Some ''invalid_x_daari_priority'', False)
      | (None, False) \<Rightarrow> (baseline, None, False)
      | (Some r, False) \<Rightarrow>
          (if priority_rank r \<ge> priority_rank baseline then (r, None, r \<noteq> baseline)
           else if allow_boost then (r, None, True) else (baseline, None, False)))"

definition admission_priority_outcome :: "pystr option \<Rightarrow> pystr \<Rightarrow> pystr \<Rightarrow> pystr option \<Rightarrow> bool \<Rightarrow> pystr" where
  "admission_priority_outcome header baseline effective warning changed =
     (case parse_priority_header header of (requested, invalid) \<Rightarrow>
       (if invalid \<or> warning = Some ''invalid_x_daari_priority'' then ''ignored''
        else (case requested of None \<Rightarrow> ''baseline''
          | Some r \<Rightarrow>
              (if changed then (if priority_rank effective < priority_rank baseline then ''raised''
                                else if priority_rank effective > priority_rank baseline then ''lowered'' else ''baseline'')
               else if priority_rank r < priority_rank baseline then ''ignored'' else ''baseline''))))"

end
