(* ===== verification/UsageLedger.thy ===== *)
theory UsageLedger
  imports Pricing AccessLists
begin

text \<open>
  The usage ledger (\<open>daari/observability/usage.py\<close>): three tables of counters by day, tier and
  model, what they say a client, a user or a group of models has spent, and the carry of rolling
  budget windows.

  A day \<open>YYYY-MM-DD\<close> is its number since 1970-01-01, a month \<open>YYYY-MM\<close> the number of months
  since year 0; both orders are those of the texts. A table is an association list from the
  primary key to the counters, a statement that raises is an argument \<open>ok = False\<close>: the methods
  swallow the exception.
\<close>

section \<open>Calendar\<close>

definition month_of_day :: "int \<Rightarrow> int" where
  "month_of_day d =
     (let z = d + 719468; era = z div 146097; doe = z mod 146097;
          yoe = (doe - doe div 1460 + doe div 36524 - doe div 146096) div 365;
          doy = doe - (365 * yoe + yoe div 4 - yoe div 100);
          mp = (5 * doy + 2) div 153;
          m = (if mp < 10 then mp + 3 else mp - 9);
          y = yoe + era * 400 + (if m \<le> 2 then 1 else 0)
      in 12 * y + m - 1)"

definition first_day_of_month :: "int \<Rightarrow> int" where
  "first_day_of_month i =
     (let m = i mod 12 + 1; y = i div 12 - (if m \<le> 2 then 1 else 0);
          era = y div 400; yoe = y mod 400;
          doy = (153 * (if m > 2 then m - 3 else m + 9) + 2) div 5;
          doe = yoe * 365 + yoe div 4 - yoe div 100 + doy
      in era * 146097 + doe - 719468)"

section \<open>Tables\<close>

record counters =
  uc_requests :: int
  uc_cache_hits :: int
  uc_prompt_chars :: int
  uc_completion_chars :: int
  uc_input :: int
  uc_output :: int
  uc_cached :: int
  uc_write :: int

type_synonym client_key = "int \<times> pystr \<times> pystr \<times> pystr"   \<comment> \<open>day, client, tier, model\<close>
type_synonym user_key = "int \<times> pystr \<times> pystr \<times> pystr \<times> pystr"   \<comment> \<open>day, client, user, tier, model\<close>
type_synonym usage_key = "int \<times> pystr \<times> pystr"   \<comment> \<open>day, tier, model\<close>

text \<open>
  The texts of \<open>period_id\<close>: the day, the ISO week (its Monday), the month, the bucket \<open>7d:2955\<close>,
  \<open>lifetime\<close>.
\<close>

datatype period = PeriodDay int | PeriodWeek int | PeriodMonth int | PeriodBucket int char int | PeriodLifetime

record ledger =
  lg_enabled :: bool
  lg_usage :: "(usage_key \<times> counters) list"
  lg_providers :: "(usage_key \<times> pystr) list"   \<comment> \<open>the column of that name, last writer\<close>
  lg_clients :: "(client_key \<times> counters) list"
  lg_users :: "(user_key \<times> counters) list"
  lg_carry :: "((pystr \<times> pystr \<times> pystr) \<times> (period \<times> pyfloat)) list"   \<comment> \<open>scope, id, duration: period, carry\<close>

definition no_usage :: ledger where
  "no_usage = \<lparr>lg_enabled = True, lg_usage = [], lg_providers = [], lg_clients = [], lg_users = [], lg_carry = []\<rparr>"

definition add_counters :: "counters \<Rightarrow> counters \<Rightarrow> counters" where
  "add_counters a b =
     \<lparr>uc_requests = uc_requests a + uc_requests b, uc_cache_hits = uc_cache_hits a + uc_cache_hits b,
      uc_prompt_chars = uc_prompt_chars a + uc_prompt_chars b,
      uc_completion_chars = uc_completion_chars a + uc_completion_chars b,
      uc_input = uc_input a + uc_input b, uc_output = uc_output a + uc_output b,
      uc_cached = uc_cached a + uc_cached b, uc_write = uc_write a + uc_write b\<rparr>"

text \<open>\<open>INSERT .. ON CONFLICT DO UPDATE SET n = n + excluded.n\<close>\<close>

fun bump :: "'k \<Rightarrow> counters \<Rightarrow> ('k \<times> counters) list \<Rightarrow> ('k \<times> counters) list" where
  "bump k c [] = [(k, c)]"
| "bump k c ((k', c') # rows) = (if k' = k then (k', add_counters c' c) # rows else (k', c') # bump k c rows)"

record recorded =
  ev_day :: int
  ev_tier :: pystr
  ev_cache_hit :: bool
  ev_prompt_chars :: int
  ev_completion_chars :: int
  ev_client :: "pystr option"
  ev_user :: "pystr option"
  ev_model :: "pystr option"
  ev_provider :: "pystr option"
  ev_input :: "int option"
  ev_output :: "int option"
  ev_cached :: "int option"
  ev_write :: "int option"

text \<open>Reported tokens, or a quarter of the characters.\<close>

definition tokens_in :: "recorded \<Rightarrow> int" where
  "tokens_in e = max 0 (case ev_input e of Some n \<Rightarrow> n | None \<Rightarrow> ev_prompt_chars e div 4)"

definition tokens_out :: "recorded \<Rightarrow> int" where
  "tokens_out e = max 0 (case ev_output e of Some n \<Rightarrow> n | None \<Rightarrow> ev_completion_chars e div 4)"

definition counted :: "recorded \<Rightarrow> counters" where
  "counted e =
     \<lparr>uc_requests = 1, uc_cache_hits = (if ev_cache_hit e then 1 else 0),
      uc_prompt_chars = max 0 (ev_prompt_chars e), uc_completion_chars = max 0 (ev_completion_chars e),
      uc_input = tokens_in e, uc_output = tokens_out e,
      uc_cached = max 0 (num_or (ev_cached e) 0), uc_write = max 0 (num_or (ev_write e) 0)\<rparr>"

definition ledger_record :: "bool \<Rightarrow> recorded \<Rightarrow> ledger \<Rightarrow> ledger" where
  "ledger_record ok e l =
     (let d = ev_day e; t = ev_tier e; m = str_or (ev_model e) ''''; c = str_or (ev_client e) ''unknown'';
          u = str_or (ev_user e) ''unknown''
      in if \<not> lg_enabled l \<or> \<not> ok then l
         else l\<lparr>lg_usage := bump (d, t, m) (counted e) (lg_usage l),
                lg_providers := AList.update (d, t, m) (str_or (ev_provider e) '''') (lg_providers l),
                lg_clients := bump (d, c, t, m) (counted e) (lg_clients l),
                lg_users := bump (d, c, u, t, m) (counted e) (lg_users l)\<rparr>)"

section \<open>Spend\<close>

definition FRONTIER_TIER :: pystr where "FRONTIER_TIER = ''L6''"

text \<open>\<open>tier = 'L6' OR model LIKE '%:cloud'\<close>; \<open>LIKE\<close> does not look at the case of ASCII letters.\<close>

definition metered :: "pystr \<Rightarrow> pystr \<Rightarrow> bool" where
  "metered tier model = (tier = FRONTIER_TIER \<or> ends_with (py_lower model) '':cloud'')"

definition plain_usage :: "int \<Rightarrow> int \<Rightarrow> usage" where
  "plain_usage i out = \<lparr>us_input = i, us_output = out, us_cached = 0, us_write = 0, us_cache_ttl = None,
     us_service_tier = None, us_region_pin = None, us_speed = None\<rparr>"

definition model_cost :: "price_table \<Rightarrow> pyfloat \<Rightarrow> pystr \<Rightarrow> int \<Rightarrow> int \<Rightarrow> pyfloat" where
  "model_cost table per_1k model i out =
     cost_usd table per_1k None (if model = '''' then None else Some model) (plain_usage i out)"

text \<open>The rows of a query as tier, model and counters, and their sums by model.\<close>

type_synonym spend_row = "pystr \<times> pystr \<times> counters"

definition summed_by_model :: "(pystr \<Rightarrow> bool) \<Rightarrow> price_table \<Rightarrow> pyfloat \<Rightarrow> spend_row list \<Rightarrow> pyfloat" where
  "summed_by_model wanted table per_1k rows =
     (let hits = map snd (filter (\<lambda>(t, m, c). metered t m) rows) in
      sum_list (map (\<lambda>m. model_cost table per_1k m
            (sum_list (map (\<lambda>(m', c). if m' = m then uc_input c else 0) hits))
            (sum_list (map (\<lambda>(m', c). if m' = m then uc_output c else 0) hits)))
          (filter wanted (remdups (map fst hits)))))"

definition spend_for :: "bool \<Rightarrow> price_table \<Rightarrow> pyfloat \<Rightarrow> spend_row list \<Rightarrow> pyfloat" where
  "spend_for ok table per_1k rows = (if ok then summed_by_model (\<lambda>m. True) table per_1k rows else 0)"

text \<open>The span a query asks for.\<close>

datatype span = OneDay int | OneMonth int | SinceDay int | Lifetime

definition in_span :: "span \<Rightarrow> int \<Rightarrow> bool" where
  "in_span s d = (case s of OneDay x \<Rightarrow> d = x | OneMonth m \<Rightarrow> month_of_day d = m | SinceDay x \<Rightarrow> x \<le> d | Lifetime \<Rightarrow> True)"

text \<open>The last \<open>n\<close> calendar days.\<close>

definition days_span :: "int \<Rightarrow> int \<Rightarrow> span" where
  "days_span today n = SinceDay (today - max 0 (n - 1))"

definition client_rows :: "(pystr \<Rightarrow> bool) \<Rightarrow> span \<Rightarrow> ledger \<Rightarrow> spend_row list" where
  "client_rows who s l = map (\<lambda>((d, c, t, m), n). (t, m, n)) (filter (\<lambda>((d, c, t, m), n). who c \<and> in_span s d) (lg_clients l))"

definition user_rows :: "pystr \<Rightarrow> pystr \<Rightarrow> span \<Rightarrow> ledger \<Rightarrow> spend_row list" where
  "user_rows client user s l =
     map (\<lambda>((d, c, u, t, m), n). (t, m, n)) (filter (\<lambda>((d, c, u, t, m), n). c = client \<and> u = user \<and> in_span s d) (lg_users l))"

definition usage_rows :: "span \<Rightarrow> ledger \<Rightarrow> spend_row list" where
  "usage_rows s l = map (\<lambda>((d, t, m), n). (t, m, n)) (filter (\<lambda>((d, t, m), n). in_span s d) (lg_usage l))"

definition frontier_spend :: "bool \<Rightarrow> price_table \<Rightarrow> pyfloat \<Rightarrow> span \<Rightarrow> ledger \<Rightarrow> pyfloat" where
  "frontier_spend ok table per_1k s l =
     (if \<not> lg_enabled l then 0 else spend_for ok table per_1k (usage_rows s l))"

definition client_spend :: "bool \<Rightarrow> price_table \<Rightarrow> pyfloat \<Rightarrow> pystr \<Rightarrow> span \<Rightarrow> ledger \<Rightarrow> pyfloat" where
  "client_spend ok table per_1k client s l =
     (if \<not> lg_enabled l \<or> client = '''' then 0
      else spend_for ok table per_1k (client_rows (\<lambda>c. c = client) s l))"

text \<open>A count of days that is not positive asks for nothing.\<close>

definition client_spend_days :: "bool \<Rightarrow> price_table \<Rightarrow> pyfloat \<Rightarrow> pystr \<Rightarrow> int \<Rightarrow> int \<Rightarrow> ledger \<Rightarrow> pyfloat" where
  "client_spend_days ok table per_1k client today days l =
     (if days \<le> 0 then 0 else client_spend ok table per_1k client (days_span today days) l)"

definition user_spend :: "bool \<Rightarrow> price_table \<Rightarrow> pyfloat \<Rightarrow> pystr \<Rightarrow> pystr \<Rightarrow> span \<Rightarrow> ledger \<Rightarrow> pyfloat" where
  "user_spend ok table per_1k client user s l =
     (if \<not> lg_enabled l \<or> client = '''' \<or> user = '''' then 0
      else spend_for ok table per_1k (user_rows client user s l))"

definition nonblank_names :: "pystr list \<Rightarrow> pystr list" where
  "nonblank_names xs = filter (\<lambda>x. x \<noteq> '''') (map py_strip xs)"

definition pattern_spend ::
    "bool \<Rightarrow> price_table \<Rightarrow> pyfloat \<Rightarrow> pystr list \<Rightarrow> span \<Rightarrow> pystr list \<Rightarrow> ledger \<Rightarrow> pyfloat" where
  "pattern_spend ok table per_1k patterns s clients l =
     (let exprs = nonblank_names patterns; ids = nonblank_names clients;
          rows = (if ids = [] then usage_rows s l else client_rows (\<lambda>c. c \<in> set ids) s l)
      in if \<not> lg_enabled l \<or> exprs = [] \<or> \<not> ok then 0
         else summed_by_model (\<lambda>m. list_ex (fnmatchcase m) exprs) table per_1k rows)"

definition request_count :: "bool \<Rightarrow> pystr \<Rightarrow> span \<Rightarrow> ledger \<Rightarrow> int" where
  "request_count ok client s l =
     (let rows = client_rows (\<lambda>c. c = client) s l in
      if \<not> lg_enabled l \<or> client = '''' \<or> \<not> ok then 0
      else max 0 (sum_list (map (\<lambda>(t, m, n). uc_requests n) rows) - sum_list (map (\<lambda>(t, m, n). uc_cache_hits n) rows)))"

definition request_count_days :: "bool \<Rightarrow> pystr \<Rightarrow> int \<Rightarrow> int \<Rightarrow> ledger \<Rightarrow> int" where
  "request_count_days ok client today days l =
     (if days \<le> 0 then 0 else request_count ok client (days_span today days) l)"

definition get_window_state :: "bool \<Rightarrow> pystr \<Rightarrow> pystr \<Rightarrow> pystr \<Rightarrow> ledger \<Rightarrow> (period \<times> pyfloat) option" where
  "get_window_state ok scope scope_id duration l =
     (if \<not> lg_enabled l \<or> \<not> ok then None else map_of (lg_carry l) (scope, scope_id, duration))"

definition put_window_state :: "bool \<Rightarrow> pystr \<Rightarrow> pystr \<Rightarrow> pystr \<Rightarrow> period \<Rightarrow> pyfloat \<Rightarrow> ledger \<Rightarrow> ledger" where
  "put_window_state ok scope scope_id duration period carry l =
     (if \<not> lg_enabled l \<or> \<not> ok then l
      else l\<lparr>lg_carry := AList.update (scope, scope_id, duration) (period, carry) (lg_carry l)\<rparr>)"

lemma demo_calendar:
  "month_of_day 20691 = 24319" "month_of_day 20665 = 24318"
  "first_day_of_month 24319 = 20666" "first_day_of_month 24290 = 19783"
  by code_simp+

section \<open>What a ledger adds up\<close>

text \<open>No entry, resolved through its aliases, has a price of its own for long contexts.\<close>

definition flat_table :: "price_table \<Rightarrow> bool" where
  "flat_table table = list_all (\<lambda>k. case merged_rate_entry table [k] (the (map_of table k)) of
       None \<Rightarrow> True | Some m \<Rightarrow> r_threshold m = None) (map fst table)"

definition model_price :: "price_table \<Rightarrow> pyfloat \<Rightarrow> pystr \<Rightarrow> resolved_price" where
  "model_price table per_1k model = resolve_price table per_1k 0 None (if model = '''' then None else Some model)"

lemma flat_resolve:
  assumes "flat_table table"
  shows "resolve_price table per_1k n None model = resolve_price table per_1k 0 None model"
proof (cases "matching_model_key (str_or model '''') (map fst table)")
  case None
  then show ?thesis by (simp add: resolve_price_def Let_def)
next
  case (Some k)
  then have "k \<in> set (map fst table)" by (rule matching_key_props(1))
  then have "case merged_rate_entry table [k] (the (map_of table k)) of None \<Rightarrow> True | Some m \<Rightarrow> r_threshold m = None"
    using assms unfolding flat_table_def list_all_iff by blast
  then show ?thesis using Some
    by (auto simp: resolve_price_def Let_def resolved_from_entry_def resolved_from_rates_def above_threshold_def
        split: option.splits)
qed

lemma flat_model_cost:
  assumes "flat_table table" "0 \<le> i" "0 \<le> out"
  shows "model_cost table per_1k m i out
    = rat_of_int i * (p_input (model_price table per_1k m) / 1000000)
      + rat_of_int out * (p_output (model_price table per_1k m) / 1000000)"
  using assms(2,3) flat_resolve [OF assms(1), of per_1k i]
  by (simp add: model_cost_def cost_usd_def Let_def plain_usage_def model_price_def service_tier_factor_def
      regional_processing_factor_def anthropic_speed_factor_def max_def clean_option_def SERVICE_TIER_FACTORS_def)

lemma sum_by_name:
  fixes f :: "'a \<Rightarrow> int" and A :: "pystr \<Rightarrow> pyfloat"
  shows "sum_list (map (\<lambda>m. rat_of_int (sum_list (map (\<lambda>(m', c). if m' = m then f c else 0) hits)) * A m)
           (remdups (map fst hits)))
    = sum_list (map (\<lambda>(m, c). rat_of_int (f c) * A m) hits)"
proof -
  have "sum_list (map (\<lambda>m. rat_of_int (sum_list (map (\<lambda>(m', c). if m' = m then f c else 0) hits)) * A m) ms)
      = sum_list (map (\<lambda>(m, c). if m \<in> set ms then rat_of_int (f c) * A m else 0) hits)" if "distinct ms" for ms
    using that
  proof (induction ms)
    case Nil
    show ?case by (induction hits) auto
  next
    case (Cons x xs)
    have "rat_of_int (sum_list (map (\<lambda>(m', c). if m' = x then f c else 0) hs)) * A x
        + sum_list (map (\<lambda>(m, c). if m \<in> set xs then rat_of_int (f c) * A m else 0) hs)
        = sum_list (map (\<lambda>(m, c). if m \<in> set (x # xs) then rat_of_int (f c) * A m else 0) hs)" for hs
      using Cons.prems by (induction hs) (auto simp: algebra_simps)
    then show ?case using Cons by simp
  qed
  from this [of "remdups (map fst hits)"]
  have "sum_list (map (\<lambda>m. rat_of_int (sum_list (map (\<lambda>(m', c). if m' = m then f c else 0) hits)) * A m)
           (remdups (map fst hits)))
      = sum_list (map (\<lambda>(m, c). if m \<in> fst ` set hits then rat_of_int (f c) * A m else 0) hits)" by simp
  also have "\<dots> = sum_list (map (\<lambda>(m, c). rat_of_int (f c) * A m) hits)"
    by (intro arg_cong [where f = sum_list] map_cong) (auto simp: image_iff split: prod.splits)
  finally show ?thesis .
qed

lemma bump_sum:
  assumes "\<And>a b. g (k, add_counters a b) = g (k, a) + (g (k, b) :: pyfloat)"
  shows "sum_list (map g (bump k c rows)) = sum_list (map g rows) + g (k, c)"
  by (induction rows) (auto simp: assms algebra_simps)

definition filled :: "counters \<Rightarrow> bool" where
  "filled c = (0 \<le> uc_input c \<and> 0 \<le> uc_output c)"

lemma filled_bump: "list_all (filled \<circ> snd) rows \<Longrightarrow> filled c \<Longrightarrow> list_all (filled \<circ> snd) (bump k c rows)"
  by (induction rows) (auto simp: filled_def add_counters_def)

lemma filled_counted [simp]: "filled (counted e)"
  by (simp add: filled_def counted_def tokens_in_def tokens_out_def)

section \<open>The ledger and the calls\<close>

definition call_cost :: "price_table \<Rightarrow> pyfloat \<Rightarrow> recorded \<Rightarrow> pyfloat" where
  "call_cost table per_1k e =
     (let m = str_or (ev_model e) '''' in
      if metered (ev_tier e) m then model_cost table per_1k m (tokens_in e) (tokens_out e) else 0)"

definition recorded_ledger :: "recorded list \<Rightarrow> ledger" where
  "recorded_ledger es = fold (ledger_record True) es no_usage"

definition row_cost :: "price_table \<Rightarrow> pyfloat \<Rightarrow> pystr \<Rightarrow> counters \<Rightarrow> pyfloat" where
  "row_cost table per_1k m c =
     rat_of_int (uc_input c) * (p_input (model_price table per_1k m) / 1000000)
     + rat_of_int (uc_output c) * (p_output (model_price table per_1k m) / 1000000)"

lemma filled_sum:
  "list_all (filled \<circ> snd) hits \<Longrightarrow>
     0 \<le> sum_list (map (\<lambda>(m', c). if m' = m then uc_input c else 0) hits)
     \<and> 0 \<le> sum_list (map (\<lambda>(m', c). if m' = m then uc_output c else 0) hits)"
  by (induction hits) (auto simp: filled_def)

lemma summed_rows:
  assumes "flat_table table" and "list_all (\<lambda>(t, m, c). filled c) rows"
  shows "summed_by_model (\<lambda>m. True) table per_1k rows
    = sum_list (map (\<lambda>(t, m, c). if metered t m then row_cost table per_1k m c else 0) rows)"
proof -
  let ?hits = "map snd (filter (\<lambda>(t, m, c). metered t m) rows)"
  have f: "list_all (filled \<circ> snd) ?hits" using assms(2) by (induction rows) (auto split: prod.splits)
  have "summed_by_model (\<lambda>m. True) table per_1k rows
      = sum_list (map (\<lambda>m. rat_of_int (sum_list (map (\<lambda>(m', c). if m' = m then uc_input c else 0) ?hits))
              * (p_input (model_price table per_1k m) / 1000000)
            + rat_of_int (sum_list (map (\<lambda>(m', c). if m' = m then uc_output c else 0) ?hits))
              * (p_output (model_price table per_1k m) / 1000000)) (remdups (map fst ?hits)))"
    unfolding summed_by_model_def Let_def filter_True
    by (intro arg_cong [where f = sum_list] map_cong refl flat_model_cost [OF assms(1)]) (use filled_sum [OF f] in auto)
  also have "\<dots> = sum_list (map (\<lambda>(m, c). row_cost table per_1k m c) ?hits)"
    unfolding sum_list_addf sum_by_name row_cost_def
    by (simp add: sum_list_addf [symmetric] case_prod_beta comp_def)
  also have "\<dots> = sum_list (map (\<lambda>(t, m, c). if metered t m then row_cost table per_1k m c else 0) rows)"
    by (induction rows) auto
  finally show ?thesis .
qed

text \<open>One client table after a list of calls: nonnegative, and any additive measure is that of the calls.\<close>

definition client_key_of :: "recorded \<Rightarrow> client_key" where
  "client_key_of e = (ev_day e, str_or (ev_client e) ''unknown'', ev_tier e, str_or (ev_model e) '''')"

lemma record_clients:
  "lg_enabled l \<Longrightarrow> lg_clients (ledger_record True e l) = bump (client_key_of e) (counted e) (lg_clients l)
     \<and> lg_enabled (ledger_record True e l)"
  by (simp add: ledger_record_def client_key_of_def Let_def)

lemma recorded_clients:
  "lg_enabled l \<Longrightarrow> lg_clients (fold (ledger_record True) es l)
      = fold (\<lambda>e. bump (client_key_of e) (counted e)) es (lg_clients l)
     \<and> lg_enabled (fold (ledger_record True) es l)"
  by (induction es arbitrary: l) (auto simp: record_clients)

lemma bumped_measure:
  fixes g :: "client_key \<times> counters \<Rightarrow> pyfloat"
  assumes "\<And>k a b. g (k, add_counters a b) = g (k, a) + g (k, b)"
  shows "sum_list (map g (fold (\<lambda>e. bump (client_key_of e) (counted e)) es rows))
    = sum_list (map g rows) + sum_list (map (\<lambda>e. g (client_key_of e, counted e)) es)"
  by (induction es arbitrary: rows) (simp_all add: bump_sum [where g = g, OF assms] algebra_simps)

lemma bumped_filled:
  "list_all (filled \<circ> snd) rows \<Longrightarrow> list_all (filled \<circ> snd) (fold (\<lambda>e. bump (client_key_of e) (counted e)) es rows)"
  by (induction es arbitrary: rows) (auto simp: filled_bump)

lemma client_rows_filled:
  "list_all (filled \<circ> snd) (lg_clients l) \<Longrightarrow> list_all (\<lambda>(t, m, c). filled c) (client_rows who s l)"
  unfolding client_rows_def by (induction "lg_clients l" arbitrary: l) (auto simp: list_all_iff)

lemma client_rows_sum:
  fixes h :: "pystr \<times> pystr \<times> counters \<Rightarrow> pyfloat"
  shows "sum_list (map h (client_rows who s l))
    = sum_list (map (\<lambda>((d, c, t, m), n). if who c \<and> in_span s d then h (t, m, n) else 0) (lg_clients l))"
proof -
  have "sum_list (map h (map (\<lambda>((d, c, t, m), n). (t, m, n)) (filter (\<lambda>((d, c, t, m), n). who c \<and> in_span s d) rows)))
      = sum_list (map (\<lambda>((d, c, t, m), n). if who c \<and> in_span s d then h (t, m, n) else 0) rows)" for rows
    by (induction rows) (auto split: prod.splits)
  then show ?thesis by (simp add: client_rows_def)
qed

lemma client_spend_of_calls:
  assumes "flat_table table" and "client \<noteq> ''''"
  shows "client_spend True table per_1k client s (recorded_ledger es)
    = sum_list (map (call_cost table per_1k)
        (filter (\<lambda>e. str_or (ev_client e) ''unknown'' = client \<and> in_span s (ev_day e)) es))"
proof -
  let ?g = "\<lambda>((d, c, t, m), n). if c = client \<and> in_span s d \<and> metered t m then row_cost table per_1k m n else 0"
  let ?rows = "fold (\<lambda>e. bump (client_key_of e) (counted e)) es []"
  have g: "?g (k, add_counters a b) = ?g (k, a) + ?g (k, b)" for k a b
    by (auto simp: row_cost_def add_counters_def algebra_simps add_divide_distrib split: prod.splits)
  have l: "lg_clients (recorded_ledger es) = ?rows" "lg_enabled (recorded_ledger es)"
    using recorded_clients [of no_usage es] by (simp_all add: recorded_ledger_def no_usage_def)
  have "list_all (filled \<circ> snd) ?rows" by (rule bumped_filled) simp
  then have f: "list_all (\<lambda>(t, m, c). filled c) (client_rows (\<lambda>c. c = client) s (recorded_ledger es))"
    by (intro client_rows_filled) (simp add: l)
  have "client_spend True table per_1k client s (recorded_ledger es)
      = sum_list (map (\<lambda>(t, m, c). if metered t m then row_cost table per_1k m c else 0)
          (client_rows (\<lambda>c. c = client) s (recorded_ledger es)))"
    using assms l(2) summed_rows [OF assms(1) f] by (simp add: client_spend_def spend_for_def)
  also have "\<dots> = sum_list (map ?g ?rows)"
    unfolding client_rows_sum l by (intro arg_cong [where f = sum_list] map_cong) (auto split: prod.splits)
  also have "\<dots> = sum_list (map (\<lambda>e. ?g (client_key_of e, counted e)) es)"
    using bumped_measure [where g = ?g and es = es and rows = "[]", OF g] by simp
  also have "\<dots> = sum_list (map (call_cost table per_1k)
      (filter (\<lambda>e. str_or (ev_client e) ''unknown'' = client \<and> in_span s (ev_day e)) es))"
  proof (induction es)
    case (Cons e es)
    have "0 \<le> tokens_in e" "0 \<le> tokens_out e" by (simp_all add: tokens_in_def tokens_out_def)
    then have "model_cost table per_1k (str_or (ev_model e) '''') (tokens_in e) (tokens_out e)
        = row_cost table per_1k (str_or (ev_model e) '''') (counted e)"
      by (simp add: flat_model_cost [OF assms(1)] row_cost_def counted_def)
    then show ?case using Cons by (auto simp: client_key_of_def call_cost_def Let_def)
  qed simp
  finally show ?thesis .
qed

text \<open>
  What the ledger says a client has spent is what its calls cost one by one: when no model has
  a price of its own for long contexts, the spend over any day, month, run of days or lifetime is
  the sum of the metered calls in it, each at its tokens' plain price, however the rows merged
  them.
\<close>
theorem ledger_spend_is_the_sum_of_calls:
  assumes "flat_table table" and "client \<noteq> ''''"
  shows "client_spend True table per_1k client s (recorded_ledger es)
    = sum_list (map (call_cost table per_1k)
        (filter (\<lambda>e. str_or (ev_client e) ''unknown'' = client \<and> in_span s (ev_day e)) es))"
  using assms by (rule client_spend_of_calls)

definition demo_rates :: "int option \<Rightarrow> price_table" where
  "demo_rates threshold = [(''opus'', \<lparr>pe_rates = no_rates\<lparr>r_input := Some 5, r_output := Some 25, r_threshold := threshold,
     r_above_input := Some 10, r_above_output := Some 50\<rparr>, pe_alias_of = None, pe_provider = None\<rparr>)]"

definition demo_call :: "int \<Rightarrow> pystr \<Rightarrow> recorded" where
  "demo_call n user = \<lparr>ev_day = 20691, ev_tier = ''L6'', ev_cache_hit = False, ev_prompt_chars = 4 * n, ev_completion_chars = 0,
     ev_client = Some ''ci'', ev_user = Some user, ev_model = Some ''opus'', ev_provider = None, ev_input = None,
     ev_output = Some 0, ev_cached = None, ev_write = None\<rparr>"

lemma demo_merged_rates: "merged_rate_entry (demo_rates t) [''opus''] (the (map_of (demo_rates t) ''opus''))
    = Some (pe_rates (the (map_of (demo_rates t) ''opus'')))"
  by (subst merged_rate_entry.simps)
     (simp add: demo_rates_def complete_rates_def alias_step_def alias_target_def override_rates_def no_rates_def own_or_def)

theorem ledger_spend_is_the_sum_of_calls_witness:
  "client_spend True (demo_rates None) 0 ''ci'' (OneMonth 24319) (recorded_ledger [demo_call 150000 ''a'', demo_call 150000 ''b''])
     = sum_list (map (call_cost (demo_rates None) 0) [demo_call 150000 ''a'', demo_call 150000 ''b''])"
proof -
  have "month_of_day 20691 = 24319" by code_simp
  moreover have "flat_table (demo_rates None)"
    using demo_merged_rates [of None] by (simp add: flat_table_def demo_rates_def no_rates_def)
  ultimately show ?thesis
    using ledger_spend_is_the_sum_of_calls [of "demo_rates None" "''ci''" 0 "OneMonth 24319"
        "[demo_call 150000 ''a'', demo_call 150000 ''b'']"]
    by (simp add: demo_call_def in_span_def)
qed

lemma demo_price:
  "resolve_price (demo_rates t) 0 n None (Some ''opus'') = resolved_from_rates n (pe_rates (the (map_of (demo_rates t) ''opus'')))"
proof -
  have "matching_model_key ''opus'' (map fst (demo_rates t)) = Some ''opus''" unfolding demo_rates_def by simp code_simp
  then show ?thesis using demo_merged_rates [of t] by (simp add: resolve_price_def Let_def resolved_from_entry_def)
qed

text \<open>
  The ledger prices a day, not a call: it asks for the price of the day's summed tokens, so two
  calls of 150000 tokens, each under a long-context threshold of 200000 and each costing 75 cents,
  are charged against the client's budget at the long-context rate, at twice what they cost.
\<close>
theorem short_calls_are_billed_as_one_long:
  "sum_list (map (call_cost (demo_rates (Some 200000)) 0) [demo_call 150000 ''a'', demo_call 150000 ''b'']) = 3 / 2
   \<and> client_spend True (demo_rates (Some 200000)) 0 ''ci'' (OneDay 20691)
       (recorded_ledger [demo_call 150000 ''a'', demo_call 150000 ''b'']) = 3"

proof -
  have m: "metered ''L6'' ''opus''" by (simp add: metered_def FRONTIER_TIER_def)
  have i: "model_cost (demo_rates (Some 200000)) 0 ''opus'' 150000 0 = 3 / 4"
    "model_cost (demo_rates (Some 200000)) 0 ''opus'' 300000 0 = 3"
    by (simp_all add: model_cost_def cost_usd_def Let_def plain_usage_def service_tier_factor_def SERVICE_TIER_FACTORS_def
        regional_processing_factor_def anthropic_speed_factor_def clean_option_def demo_price)
      (simp_all add: resolved_from_rates_def above_threshold_def demo_rates_def no_rates_def rate_or_zero_def Let_def)
  have r: "client_rows (\<lambda>c. c = ''ci'') (OneDay 20691) (recorded_ledger [demo_call 150000 ''a'', demo_call 150000 ''b''])
      = [(''L6'', ''opus'', add_counters (counted (demo_call 150000 ''a'')) (counted (demo_call 150000 ''b'')))]"
    by (simp add: recorded_ledger_def no_usage_def ledger_record_def Let_def demo_call_def client_rows_def in_span_def)
  show ?thesis
    using i m r by (simp add: call_cost_def demo_call_def tokens_in_def tokens_out_def Let_def client_spend_def
        recorded_ledger_def no_usage_def ledger_record_def spend_for_def summed_by_model_def add_counters_def counted_def)
qed

end
