(* ===== verification/Budgets.thy ===== *)
theory Budgets
  imports KeyRecords UsageLedger "HOL-Library.List_Lexorder" "HOL-Library.Char_ord" "HOL-Library.Product_Lexorder"
begin

text \<open>
  Budgets of virtual keys and their teams (\<open>daari/auth/budgets.py\<close>): durations and periods, merging
  the caps of a key and its team, temporary boosts, the carry of rolling windows, and what is left.

  The ledger is the one of \<open>UsageLedger\<close>. The windows of the merged caps come out in the order of
  iterating over a Python set of strings, which is a parameter. \<open>None\<close> as the result of a
  function that measures a budget is the ValueError or TypeError it raises.
\<close>

section \<open>Durations\<close>

definition duration_parts :: "pystr \<Rightarrow> (int \<times> char) option" where
  "duration_parts s =
     (if s = '''' \<or> butlast s = '''' \<or> \<not> list_all is_digit (butlast s) \<or> last s \<notin> {CHR ''h'', CHR ''d''} then None
      else Some (digits_value 0 (butlast s), last s))"

definition normalize_duration :: "pystr \<Rightarrow> pystr option" where
  "normalize_duration raw =
     (let v = py_lower (py_strip raw) in
      if v \<in> {''day'', ''daily'', ''24h''} then Some ''day''
      else if v \<in> {''week'', ''weekly'', ''rpw'', ''1w''} then Some ''week''
      else if v \<in> {''month'', ''monthly'', ''30d''} then Some ''month''
      else if v \<in> {''lifetime'', ''total'', ''all'', ''alltime'', ''all-time''} then Some ''lifetime''
      else if duration_parts v \<noteq> None then Some v else None)"

definition window_label :: "pystr \<Rightarrow> pystr option" where
  "window_label d = map_option (\<lambda>c. if c = ''day'' then ''daily'' else if c = ''week'' then ''weekly''
     else if c = ''month'' then ''monthly'' else c) (normalize_duration d)"

definition window_header_label :: "pystr \<Rightarrow> pystr option" where
  "window_header_label d = map_option (\<lambda>c. if c = ''day'' then ''1d'' else if c = ''week'' then ''1w''
     else if c = ''month'' then ''1mo'' else c) (normalize_duration d)"

definition US_PER_HOUR :: int where "US_PER_HOUR = 3600000000"

definition day_of :: "int \<Rightarrow> int" where "day_of now = now div DAY_US"

definition span_us :: "int \<Rightarrow> char \<Rightarrow> int" where
  "span_us n u = n * (if u = CHR ''h'' then US_PER_HOUR else DAY_US)"

text \<open>1970-01-01 was a Thursday; a week is the number of Mondays before it ends.\<close>

definition isoweekday :: "int \<Rightarrow> int" where "isoweekday d = (d + 3) mod 7 + 1"

definition week_of :: "int \<Rightarrow> int" where "week_of d = (d + 3) div 7"

text \<open>\<open>None\<close>: a lifetime never resets. The functions below take canonical durations.\<close>

definition reset_at :: "pystr \<Rightarrow> int \<Rightarrow> int option" where
  "reset_at c now =
     (let d = day_of now in
      if c = ''lifetime'' then None
      else if c = ''day'' then Some ((d + 1) * DAY_US)
      else if c = ''week'' then
        Some ((d + (let n = (8 - isoweekday d) mod 7 in if n = 0 then 7 else n)) * DAY_US)
      else if c = ''month'' then Some (first_day_of_month (month_of_day d + 1) * DAY_US)
      else (case duration_parts c of Some (n, u) \<Rightarrow> Some (now + span_us n u) | None \<Rightarrow> Some now))"

definition period_id :: "pystr \<Rightarrow> int \<Rightarrow> period" where
  "period_id c now =
     (if c = ''lifetime'' then PeriodLifetime
      else if c = ''day'' then PeriodDay (day_of now)
      else if c = ''week'' then PeriodWeek (week_of (day_of now))
      else if c = ''month'' then PeriodMonth (month_of_day (day_of now))
      else (case duration_parts c of
          Some (n, u) \<Rightarrow> PeriodBucket n u (now div (if u = CHR ''d'' then DAY_US else US_PER_HOUR) div max 1 n)
        | None \<Rightarrow> PeriodDay (day_of now)))"

definition previous_period_id :: "pystr \<Rightarrow> int \<Rightarrow> period" where
  "previous_period_id c now =
     (if c = ''day'' then PeriodDay (day_of now - 1)
      else if c = ''week'' then PeriodWeek (week_of (day_of now - (isoweekday (day_of now) - 1) - 7))
      else if c = ''month'' then PeriodMonth (month_of_day (day_of now) - 1)
      else (case duration_parts c of
          Some (n, u) \<Rightarrow> period_id c (now - span_us n u)
        | None \<Rightarrow> PeriodDay (day_of now - 1)))"

datatype ledger_kind = KindDay | KindDays int | KindMonth | KindLifetime

text \<open>The ledger has days only: hours collapse to the current day, a week is seven days.\<close>

definition ledger_window :: "pystr \<Rightarrow> ledger_kind" where
  "ledger_window c =
     (if c = ''lifetime'' then KindLifetime else if c = ''day'' then KindDay
      else if c = ''week'' then KindDays 7 else if c = ''month'' then KindMonth
      else (case duration_parts c of Some (n, u) \<Rightarrow> (if u = CHR ''d'' then KindDays n else KindDay) | None \<Rightarrow> KindDay))"

section \<open>Merging caps\<close>

definition clone_window :: "budget_window \<Rightarrow> pystr \<Rightarrow> budget_window" where
  "clone_window w d = w\<lparr>bw_duration := d, bw_rollover := bw_rollover w \<and> d \<noteq> ''lifetime'',
     bw_cap_multiple := (if bw_cap_multiple w = 0 then 2 else bw_cap_multiple w)\<rparr>"

text \<open>The windows by canonical duration; an unknown duration raises.\<close>

definition canonical_windows :: "budget_window list \<Rightarrow> (pystr \<times> budget_window) list option" where
  "canonical_windows ws = those (map (\<lambda>w. map_option (\<lambda>d. (d, w)) (normalize_duration (bw_duration w))) ws)"

definition tighter :: "'a::linordered_idom \<Rightarrow> 'a \<Rightarrow> 'a" where
  "tighter old new = (if new > 0 then (if old \<le> 0 then new else min old new) else old)"

definition coalesce_one :: "pystr \<times> budget_window \<Rightarrow> (pystr \<times> budget_window) list \<Rightarrow> (pystr \<times> budget_window) list" where
  "coalesce_one dw merged =
     (let d = fst dw; w = snd dw in
      if bw_max_usd w \<le> 0 \<and> bw_max_requests w \<le> 0 then merged
      else (case map_of merged d of
          None \<Rightarrow> AList.update d (clone_window w d) merged
        | Some e \<Rightarrow> AList.update d
            \<lparr>bw_duration = d, bw_max_usd = tighter (bw_max_usd e) (bw_max_usd w),
             bw_rollover = (bw_rollover e \<or> bw_rollover w),
             bw_cap_multiple = (if bw_cap_multiple e \<noteq> 0 then bw_cap_multiple e
                                else if bw_cap_multiple w \<noteq> 0 then bw_cap_multiple w else 2),
             bw_max_requests = tighter (bw_max_requests e) (bw_max_requests w)\<rparr> merged))"

definition coalesce_windows :: "budget_window list \<Rightarrow> budget_window list option" where
  "coalesce_windows ws = map_option (\<lambda>cs. map snd (fold coalesce_one cs [])) (canonical_windows ws)"

datatype budget_scope = ScopeKey | ScopeTeam | ScopeUser | ScopeModelGroup | ScopeModel

primrec scope_name :: "budget_scope \<Rightarrow> pystr" where
  "scope_name ScopeKey = ''key''" | "scope_name ScopeTeam = ''team''" | "scope_name ScopeUser = ''user''"
| "scope_name ScopeModelGroup = ''model_group''" | "scope_name ScopeModel = ''model''"

record merged_caps =
  mc_window :: budget_window
  mc_usd_scope :: "budget_scope option"
  mc_request_scope :: "budget_scope option"

type_synonym usd_caps = "(pystr \<times> (pyfloat \<times> budget_scope \<times> budget_window)) list"
type_synonym request_caps = "(pystr \<times> (int \<times> budget_scope)) list"

definition take_usd :: "budget_scope \<Rightarrow> pystr \<times> budget_window \<Rightarrow> usd_caps \<Rightarrow> usd_caps" where
  "take_usd scope dw caps =
     (case dw of (d, w) \<Rightarrow>
       (if bw_max_usd w > 0 \<and> (case map_of caps d of None \<Rightarrow> True | Some (a, _) \<Rightarrow> bw_max_usd w < a)
        then AList.update d (bw_max_usd w, scope, w) caps else caps))"

definition take_requests :: "budget_scope \<Rightarrow> pystr \<times> budget_window \<Rightarrow> request_caps \<Rightarrow> request_caps" where
  "take_requests scope dw caps =
     (case dw of (d, w) \<Rightarrow>
       (if bw_max_requests w > 0 \<and> (case map_of caps d of None \<Rightarrow> True | Some (n, _) \<Rightarrow> bw_max_requests w < n)
        then AList.update d (bw_max_requests w, scope) caps else caps))"

definition caps_of_duration :: "usd_caps \<Rightarrow> request_caps \<Rightarrow> pystr \<Rightarrow> merged_caps" where
  "caps_of_duration usd req d =
     (let r = (case map_of req d of None \<Rightarrow> 0 | Some (n, _) \<Rightarrow> n);
          rs = map_option snd (map_of req d)
      in case map_of usd d of
           None \<Rightarrow> \<lparr>mc_window = (plain_window d 0)\<lparr>bw_max_requests := r\<rparr>, mc_usd_scope = None, mc_request_scope = rs\<rparr>
         | Some (a, scope, w) \<Rightarrow>
             \<lparr>mc_window = \<lparr>bw_duration = d, bw_max_usd = a, bw_rollover = bw_rollover w,
                bw_cap_multiple = (if bw_cap_multiple w = 0 then 2 else bw_cap_multiple w), bw_max_requests = r\<rparr>,
              mc_usd_scope = Some scope, mc_request_scope = rs\<rparr>)"

definition merge_window_scopes ::
    "(pystr list \<Rightarrow> pystr list) \<Rightarrow> budget_window list \<Rightarrow> budget_window list \<Rightarrow> merged_caps list option" where
  "merge_window_scopes order key_windows team_windows =
     (case (canonical_windows team_windows, canonical_windows key_windows) of
        (Some ts, Some ks) \<Rightarrow>
          (let usd = fold (take_usd ScopeKey) ks (fold (take_usd ScopeTeam) ts []);
               req = fold (take_requests ScopeKey) ks (fold (take_requests ScopeTeam) ts [])
           in Some (map (caps_of_duration usd req) (order (remdups (map fst usd @ map fst req)))))
      | _ \<Rightarrow> None)"

definition merge_windows ::
    "(pystr list \<Rightarrow> pystr list) \<Rightarrow> budget_window list \<Rightarrow> budget_window list \<Rightarrow> (budget_window \<times> budget_scope) list option" where
  "merge_windows order key_windows team_windows =
     map_option (map (\<lambda>c. (mc_window c, case mc_usd_scope c of Some s \<Rightarrow> s
        | None \<Rightarrow> (case mc_request_scope c of Some s \<Rightarrow> s | None \<Rightarrow> ScopeKey))))
       (merge_window_scopes order key_windows team_windows)"

definition effective_caps :: "(pystr list \<Rightarrow> pystr list) \<Rightarrow> virtual_key \<Rightarrow> team option \<Rightarrow> merged_caps list option" where
  "effective_caps order key tm =
     merge_window_scopes order
       (if vk_windows key \<noteq> [] then vk_windows key else windows_from_flat (vk_daily key) (vk_monthly key))
       (case tm of None \<Rightarrow> [] | Some t \<Rightarrow> tm_windows t)"

section \<open>Rolling windows\<close>

definition multiple_of :: "pyfloat \<Rightarrow> pyfloat" where
  "multiple_of m = max 1 (if m = 0 then 2 else m)"

definition effective_limit :: "pyfloat \<Rightarrow> pyfloat \<Rightarrow> pyfloat \<Rightarrow> pyfloat" where
  "effective_limit base carry multiple =
     (if base \<le> 0 then 0 else min (base + max 0 carry) (base * multiple_of multiple))"

definition compute_carry_usd :: "pyfloat \<Rightarrow> pyfloat \<Rightarrow> pyfloat \<Rightarrow> pyfloat \<Rightarrow> pyfloat" where
  "compute_carry_usd base prev_limit prev_spent multiple =
     (if base \<le> 0 then 0 else min (max 0 (prev_limit - prev_spent)) (base * (multiple_of multiple - 1)))"

text \<open>\<open>bv_ok\<close>: the ledger's database answers.\<close>

record budget_env =
  bv_lib :: key_lib
  bv_prices :: price_table
  bv_per_1k :: pyfloat
  bv_ok :: bool
  bv_now :: int
  bv_order :: "pystr list \<Rightarrow> pystr list"

definition clients_span_spend :: "budget_env \<Rightarrow> pystr list \<Rightarrow> span \<Rightarrow> ledger \<Rightarrow> pyfloat" where
  "clients_span_spend env ids s l =
     sum_list (map (\<lambda>c. client_spend (bv_ok env) (bv_prices env) (bv_per_1k env) c s l) ids)"

text \<open>\<open>days or 1\<close>\<close>

definition window_span :: "budget_env \<Rightarrow> pystr \<Rightarrow> int option \<Rightarrow> int option \<Rightarrow> span" where
  "window_span env c day month =
     (case ledger_window c of
        KindLifetime \<Rightarrow> Lifetime
      | KindDays n \<Rightarrow> days_span (day_of (bv_now env)) (if n = 0 then 1 else n)
      | KindMonth \<Rightarrow> OneMonth (case month of Some m \<Rightarrow> m | None \<Rightarrow> month_of_day (day_of (bv_now env)))
      | KindDay \<Rightarrow> OneDay (case day of Some d \<Rightarrow> d | None \<Rightarrow> day_of (bv_now env)))"

definition spend_for_window :: "budget_env \<Rightarrow> pystr list \<Rightarrow> pystr \<Rightarrow> ledger \<Rightarrow> pyfloat" where
  "spend_for_window env ids c l = clients_span_spend env ids (window_span env c None None) l"

definition requests_for_window :: "budget_env \<Rightarrow> pystr list \<Rightarrow> pystr \<Rightarrow> ledger \<Rightarrow> int" where
  "requests_for_window env ids c l =
     sum_list (map (\<lambda>i. request_count (bv_ok env) i (window_span env c None None) l) ids)"

text \<open>Months and days have a past period to ask for; every other duration asks for yesterday.\<close>

definition previous_period_spend :: "budget_env \<Rightarrow> pystr list \<Rightarrow> pystr \<Rightarrow> ledger \<Rightarrow> pyfloat" where
  "previous_period_spend env ids c l =
     (let today = day_of (bv_now env) in
      if c = ''month'' then clients_span_spend env ids (window_span env c None (Some (month_of_day today - 1))) l
      else clients_span_spend env ids (OneDay (today - 1)) l)"

definition carried :: "(period \<times> pyfloat) option \<Rightarrow> period \<Rightarrow> pyfloat option" where
  "carried row p = (case row of None \<Rightarrow> None | Some (q, carry) \<Rightarrow> if q = p then Some (max 0 carry) else None)"

definition new_carry :: "budget_env \<Rightarrow> budget_window \<Rightarrow> pystr list \<Rightarrow> (period \<times> pyfloat) option \<Rightarrow> ledger \<Rightarrow> pyfloat" where
  "new_carry env w ids row l =
     (let old = (case carried row (previous_period_id (bw_duration w) (bv_now env)) of None \<Rightarrow> 0 | Some x \<Rightarrow> x);
          prev_limit = effective_limit (bw_max_usd w) old (bw_cap_multiple w)
      in compute_carry_usd (bw_max_usd w) prev_limit (previous_period_spend env ids (bw_duration w) l) (bw_cap_multiple w))"

definition resolve_carry_usd ::
    "budget_env \<Rightarrow> budget_window \<Rightarrow> budget_scope \<Rightarrow> pystr \<Rightarrow> pystr list \<Rightarrow> ledger \<Rightarrow> pyfloat \<times> ledger" where
  "resolve_carry_usd env w scope scope_id ids l =
     (let c = bw_duration w; current = period_id c (bv_now env);
          row = get_window_state (bv_ok env) (scope_name scope) scope_id c l
      in if \<not> bw_rollover w \<or> c = ''lifetime'' then (0, l)
         else (case carried row current of
             Some x \<Rightarrow> (x, l)
           | None \<Rightarrow> (let carry = new_carry env w ids row l in
               (carry, put_window_state (bv_ok env) (scope_name scope) scope_id c current carry l))))"

section \<open>Boosts\<close>

definition parse_until :: "key_lib \<Rightarrow> json \<Rightarrow> int option" where
  "parse_until lib raw = (if \<not> truthy raw then None else kl_time lib (py_strip (jl_str (kl_json lib) raw)))"

definition boost_rows :: "metadata \<Rightarrow> metadata list" where
  "boost_rows m = (case obj_get m ''budget_boosts'' of
      JList xs \<Rightarrow> List.map_filter (\<lambda>x. case x of JObj kvs \<Rightarrow> Some kvs | _ \<Rightarrow> None) xs
    | _ \<Rightarrow> [])"

text \<open>Dollars and requests of the boosts that run; a bad number raises.\<close>

definition boost_amounts :: "key_lib \<Rightarrow> metadata \<Rightarrow> (pyfloat \<times> int) option" where
  "boost_amounts lib item =
     (case (float_or lib 0 (obj_get item ''usd''), int_or 0 (obj_get item ''requests'')) of
        (Some usd, Some n) \<Rightarrow> Some (usd, n) | _ \<Rightarrow> None)"

definition runs_until :: "key_lib \<Rightarrow> int \<Rightarrow> metadata \<Rightarrow> bool" where
  "runs_until lib now item = (case parse_until lib (obj_get item ''until'') of None \<Rightarrow> False | Some t \<Rightarrow> now < t)"

definition active_budget_boosts :: "key_lib \<Rightarrow> int \<Rightarrow> metadata \<Rightarrow> (pyfloat \<times> int) list option" where
  "active_budget_boosts lib now m =
     map_option (filter (\<lambda>(usd, n). usd > 0 \<or> n > 0))
       (those (map (boost_amounts lib) (filter (runs_until lib now) (boost_rows m))))"

definition ended :: "key_lib \<Rightarrow> int \<Rightarrow> metadata \<Rightarrow> bool" where
  "ended lib now item = (case parse_until lib (obj_get item ''until'') of None \<Rightarrow> False | Some t \<Rightarrow> t \<le> now)"

definition expired_budget_boosts :: "key_lib \<Rightarrow> int \<Rightarrow> metadata \<Rightarrow> metadata list" where
  "expired_budget_boosts lib now m = filter (ended lib now) (boost_rows m)"

definition apply_boost :: "key_lib \<Rightarrow> int \<Rightarrow> metadata \<Rightarrow> (pyfloat \<times> int) option" where
  "apply_boost lib now m =
     map_option (\<lambda>bs. (sum_list (map fst bs), sum_list (map snd bs))) (active_budget_boosts lib now m)"

definition boost_id :: "key_lib \<Rightarrow> metadata \<Rightarrow> pystr" where
  "boost_id lib item = meta_text lib item ''id''"

text \<open>The metadata without the boosts that have ended, and those.\<close>

definition prune_expired_boosts :: "key_lib \<Rightarrow> int \<Rightarrow> metadata \<Rightarrow> metadata \<times> metadata list" where
  "prune_expired_boosts lib now m =
     (let expired = expired_budget_boosts lib now m;
          kept = filter (\<lambda>b. boost_id lib b \<notin> set (map (boost_id lib) expired)) (boost_rows m)
      in if expired = [] then (m, [])
         else (if kept \<noteq> [] then AList.update ''budget_boosts'' (JList (map JObj kept)) m
               else AList.delete ''budget_boosts'' m, expired))"

text \<open>\<open>fresh\<close> is the token of \<open>secrets\<close>; \<open>None\<close> is a ValueError.\<close>

definition make_budget_boost :: "key_lib \<Rightarrow> pystr \<Rightarrow> int \<Rightarrow> pyfloat \<Rightarrow> int \<Rightarrow> pystr \<Rightarrow> metadata option" where
  "make_budget_boost lib fresh now usd requests until_text =
     (case kl_time lib (py_strip until_text) of
        None \<Rightarrow> None
      | Some t \<Rightarrow>
          (if until_text = '''' \<or> (usd \<le> 0 \<and> requests \<le> 0) then None
           else Some [(''id'', JStr fresh), (''usd'', float_json lib (if usd > 0 then usd else 0)),
                      (''requests'', JInt (if requests > 0 then requests else 0)),
                      (''until'', JStr (kl_iso lib t)), (''granted_at'', JStr (kl_iso lib now))]))"

section \<open>Status\<close>

datatype quota = QuotaUsd | QuotaRequests

record window_status =
  ws_window :: budget_window
  ws_scope :: budget_scope
  ws_spend :: pyfloat
  ws_carry :: pyfloat
  ws_quota :: quota
  ws_boost_usd :: pyfloat
  ws_boost_requests :: int

definition ws_limit :: "window_status \<Rightarrow> pyfloat" where
  "ws_limit s = (case ws_quota s of
      QuotaRequests \<Rightarrow> rat_of_int (bw_max_requests (ws_window s) + ws_boost_requests s)
    | QuotaUsd \<Rightarrow> effective_limit (bw_max_usd (ws_window s)) (if bw_rollover (ws_window s) then ws_carry s else 0)
                   (bw_cap_multiple (ws_window s)) + max 0 (ws_boost_usd s))"

definition ws_remaining :: "window_status \<Rightarrow> pyfloat" where "ws_remaining s = max 0 (ws_limit s - ws_spend s)"

definition ws_exceeded :: "window_status \<Rightarrow> bool" where
  "ws_exceeded s = (case ws_quota s of
      QuotaRequests \<Rightarrow> py_trunc (ws_spend s) \<ge> py_trunc (ws_limit s) | QuotaUsd \<Rightarrow> ws_spend s \<ge> ws_limit s)"

definition ws_ratio :: "window_status \<Rightarrow> pyfloat" where
  "ws_ratio s = (if ws_limit s \<le> 0 then 0 else ws_spend s / ws_limit s)"

definition in_soft_budget_band :: "pyfloat \<Rightarrow> window_status \<Rightarrow> bool" where
  "in_soft_budget_band mark s = (\<not> (mark \<le> 0 \<or> mark > 1 \<or> ws_exceeded s) \<and> ws_ratio s \<ge> mark)"

definition boost_for_scope :: "budget_env \<Rightarrow> virtual_key \<Rightarrow> team option \<Rightarrow> budget_scope \<Rightarrow> (pyfloat \<times> int) option" where
  "boost_for_scope env key tm scope =
     apply_boost (bv_lib env) (bv_now env)
       (case tm of Some t \<Rightarrow> (if scope = ScopeTeam then tm_meta t else vk_meta key) | None \<Rightarrow> vk_meta key)"

definition usd_status ::
    "budget_env \<Rightarrow> virtual_key \<Rightarrow> team option \<Rightarrow> pystr \<Rightarrow> pystr list \<Rightarrow> merged_caps \<Rightarrow> ledger \<Rightarrow>
     window_status list option \<times> ledger" where
  "usd_status env key tm client team_ids caps l =
     (let w = mc_window caps in
      case mc_usd_scope caps of
        None \<Rightarrow> (Some [], l)
      | Some scope \<Rightarrow>
          (if bw_max_usd w \<le> 0 then (Some [], l)
           else (let ids = (if scope = ScopeTeam then team_ids else [client]);
                     scope_id = (if scope = ScopeKey then client else case tm of Some t \<Rightarrow> tm_id t | None \<Rightarrow> client)
                 in case resolve_carry_usd env w scope scope_id ids l of (carry, l') \<Rightarrow>
                      (map_option (\<lambda>(usd, n). [\<lparr>ws_window = w, ws_scope = scope,
                           ws_spend = spend_for_window env ids (bw_duration w) l, ws_carry = carry, ws_quota = QuotaUsd,
                           ws_boost_usd = usd, ws_boost_requests = 0\<rparr>]) (boost_for_scope env key tm scope), l'))))"

definition request_status ::
    "budget_env \<Rightarrow> virtual_key \<Rightarrow> team option \<Rightarrow> pystr \<Rightarrow> pystr list \<Rightarrow> merged_caps \<Rightarrow> ledger \<Rightarrow>
     window_status list option" where
  "request_status env key tm client team_ids caps l =
     (let w = mc_window caps in
      case mc_request_scope caps of
        None \<Rightarrow> Some []
      | Some scope \<Rightarrow>
          (if bw_max_requests w \<le> 0 then Some []
           else (let ids = (if scope = ScopeTeam then team_ids else [client])
                 in map_option (\<lambda>(usd, n). [\<lparr>ws_window = w, ws_scope = scope,
                        ws_spend = rat_of_int (requests_for_window env ids (bw_duration w) l), ws_carry = 0,
                        ws_quota = QuotaRequests, ws_boost_usd = 0, ws_boost_requests = n\<rparr>])
                      (boost_for_scope env key tm scope))))"

fun caps_statuses ::
    "budget_env \<Rightarrow> virtual_key \<Rightarrow> team option \<Rightarrow> pystr \<Rightarrow> pystr list \<Rightarrow> merged_caps list \<Rightarrow> ledger \<Rightarrow>
     window_status list option \<times> ledger" where
  "caps_statuses env key tm client team_ids [] l = (Some [], l)"
| "caps_statuses env key tm client team_ids (c # cs) l =
     (case usd_status env key tm client team_ids c l of
        (None, l1) \<Rightarrow> (None, l1)
      | (Some us, l1) \<Rightarrow>
          (case request_status env key tm client team_ids c l1 of
             None \<Rightarrow> (None, l1)
           | Some rs \<Rightarrow> (case caps_statuses env key tm client team_ids cs l1 of
               (rest, l2) \<Rightarrow> (map_option (\<lambda>x. us @ rs @ x) rest, l2))))"

definition budget_status ::
    "budget_env \<Rightarrow> virtual_key \<Rightarrow> team option \<Rightarrow> pystr \<Rightarrow> pystr list \<Rightarrow> ledger \<Rightarrow> window_status list option \<times> ledger" where
  "budget_status env key tm client team_ids l =
     (case effective_caps (bv_order env) key tm of
        None \<Rightarrow> (None, l) | Some caps \<Rightarrow> caps_statuses env key tm client team_ids caps l)"

fun least_remaining :: "window_status list \<Rightarrow> window_status option" where
  "least_remaining [] = None"
| "least_remaining (s # ss) = (case least_remaining ss of None \<Rightarrow> Some s
     | Some t \<Rightarrow> (if ws_remaining t < ws_remaining s then Some t else Some s))"

definition tightest_window :: "window_status list \<Rightarrow> window_status option" where
  "tightest_window ss =
     (let usd = filter (\<lambda>s. ws_quota s = QuotaUsd) ss in least_remaining (if usd \<noteq> [] then usd else ss))"

definition tightest_request_window :: "window_status list \<Rightarrow> window_status option" where
  "tightest_request_window ss = least_remaining (filter (\<lambda>s. ws_quota s = QuotaRequests) ss)"

text \<open>The window that refuses the request.\<close>

definition first_exceeded_window ::
    "budget_env \<Rightarrow> virtual_key \<Rightarrow> team option \<Rightarrow> pystr \<Rightarrow> pystr list \<Rightarrow> ledger \<Rightarrow> window_status option option \<times> ledger" where
  "first_exceeded_window env key tm client team_ids l =
     (case budget_status env key tm client team_ids l of (ss, l') \<Rightarrow> (map_option (find ws_exceeded) ss, l'))"

text \<open>The cap of one named end user of a shared key: lifetime first, then the day.\<close>

definition user_cap_exceeded ::
    "budget_env \<Rightarrow> virtual_key \<Rightarrow> pystr \<Rightarrow> pystr option \<Rightarrow> ledger \<Rightarrow> (pystr \<times> pyfloat \<times> pyfloat) option option" where
  "user_cap_exceeded env key client user l =
     (let named = py_strip (str_or user '''');
          spend = (\<lambda>s. user_spend (bv_ok env) (bv_prices env) (bv_per_1k env) client named s l)
      in if named = '''' then Some None
         else (case float_or (bv_lib env) 0 (obj_get (vk_meta key) ''user_lifetime_usd_cap'') of
             None \<Rightarrow> None
           | Some lifetime \<Rightarrow>
               (let today = OneDay (day_of (bv_now env)) in
                Some (if lifetime > 0 \<and> spend Lifetime \<ge> lifetime then Some (''lifetime'', spend Lifetime, lifetime)
                      else if vk_user_cap key \<le> 0 \<or> spend today < vk_user_cap key then None
                      else Some (''day'', spend today, vk_user_cap key)))))"

section \<open>Budgets of model groups and models\<close>

text \<open>One window of a metadata object: no window without a positive amount; a bad amount or duration raises.\<close>

definition budget_item :: "key_lib \<Rightarrow> metadata \<Rightarrow> budget_window list option" where
  "budget_item lib kvs =
     (case float_or lib 0 (obj_get kvs ''max_usd'') of
        None \<Rightarrow> None
      | Some usd \<Rightarrow>
          (if usd \<le> 0 then Some []
           else (case (normalize_duration (let d = meta_text lib kvs ''duration'' in if d = '''' then ''day'' else d),
                       float_or lib 2 (obj_get kvs ''rollover_cap_multiple'')) of
               (Some d, Some m) \<Rightarrow> Some [\<lparr>bw_duration = d, bw_max_usd = usd, bw_rollover = truthy (obj_get kvs ''rollover''),
                                        bw_cap_multiple = m, bw_max_requests = 0\<rparr>]
             | _ \<Rightarrow> None)))"

definition concat_those :: "'a list option list \<Rightarrow> 'a list option" where
  "concat_those xs = map_option concat (those xs)"

definition parse_group_windows :: "key_lib \<Rightarrow> json \<Rightarrow> budget_window list option" where
  "parse_group_windows lib ws = (case ws of
      JList xs \<Rightarrow> concat_those (map (\<lambda>x. case x of JObj kvs \<Rightarrow> budget_item lib kvs | _ \<Rightarrow> Some []) xs)
    | _ \<Rightarrow> Some [])"

definition number_window :: "json \<Rightarrow> budget_window list" where
  "number_window j = (case j of
      JInt n \<Rightarrow> (if n > 0 then [plain_window ''day'' (rat_of_int n)] else [])
    | JFloat x t \<Rightarrow> (if x > 0 then [plain_window ''day'' x] else [])
    | JBool b \<Rightarrow> (if b then [plain_window ''day'' 1] else [])
    | _ \<Rightarrow> [])"

definition parse_model_windows :: "key_lib \<Rightarrow> json \<Rightarrow> budget_window list option" where
  "parse_model_windows lib v = (case v of
      JObj kvs \<Rightarrow> budget_item lib kvs
    | JList xs \<Rightarrow> concat_those (map (\<lambda>x. case x of JObj kvs \<Rightarrow> budget_item lib kvs | _ \<Rightarrow> Some (number_window x)) xs)
    | _ \<Rightarrow> Some (number_window v))"

type_synonym named_budgets = "(pystr \<times> budget_window list) list"

text \<open>A map from stripped names to coalesced windows; later entries of a name win.\<close>

definition parse_named_budgets :: "(json \<Rightarrow> budget_window list option) \<Rightarrow> json \<Rightarrow> named_budgets option" where
  "parse_named_budgets windows raw = (case raw of
      JObj kvs \<Rightarrow>
        map_option (\<lambda>xs. fold (\<lambda>(name, ws) acc. if ws = [] then acc else AList.update name ws acc) xs [])
          (those (map (\<lambda>(name, v). map_option (Pair (py_strip name))
               (if py_strip name = '''' then Some [] else Option.bind (windows v) coalesce_windows)) kvs))
    | _ \<Rightarrow> Some [])"

definition model_group_budgets_of :: "key_lib \<Rightarrow> metadata \<Rightarrow> named_budgets option" where
  "model_group_budgets_of lib m = parse_named_budgets (parse_group_windows lib) (obj_get m ''model_group_budgets'')"

definition model_max_budget_of :: "key_lib \<Rightarrow> metadata \<Rightarrow> named_budgets option" where
  "model_max_budget_of lib m = parse_named_budgets (parse_model_windows lib) (obj_get m ''model_max_budget'')"

type_synonym group_slots = "((pystr \<times> pystr) \<times> budget_window) list"

definition ingest_group :: "(pystr \<times> budget_window) \<Rightarrow> group_slots \<Rightarrow> group_slots" where
  "ingest_group gw merged =
     (case gw of (g, w) \<Rightarrow>
       (case normalize_duration (bw_duration w) of
          None \<Rightarrow> merged
        | Some d \<Rightarrow>
            (if bw_max_usd w > 0 \<and> (case map_of merged (g, d) of None \<Rightarrow> True | Some e \<Rightarrow> bw_max_usd w < bw_max_usd e)
             then AList.update (g, d) (clone_window w d) merged else merged)))"

definition flat_budgets :: "named_budgets \<Rightarrow> (pystr \<times> budget_window) list" where
  "flat_budgets bs = concat (map (\<lambda>(name, ws). map (Pair name) ws) bs)"

text \<open>The team first, then the key; parsed durations are canonical.\<close>

definition merge_model_group_budgets :: "key_lib \<Rightarrow> virtual_key \<Rightarrow> team option \<Rightarrow> (pystr \<times> budget_window) list option" where
  "merge_model_group_budgets lib key tm =
     (case (case tm of None \<Rightarrow> Some [] | Some t \<Rightarrow> model_group_budgets_of lib (tm_meta t), model_group_budgets_of lib (vk_meta key)) of
        (Some ts, Some ks) \<Rightarrow>
          Some (map (\<lambda>((g, d), w). (g, w)) (sort_key fst (fold ingest_group (flat_budgets ts @ flat_budgets ks) [])))
      | _ \<Rightarrow> None)"

definition group_patterns :: "catalog option \<Rightarrow> pystr \<Rightarrow> pystr list" where
  "group_patterns cat g = (case cat of None \<Rightarrow> []
     | Some c \<Rightarrow> (case map_of c g of None \<Rightarrow> [] | Some m \<Rightarrow> nonblank_names (members_list m)))"

definition pattern_window_spend :: "budget_env \<Rightarrow> pystr list \<Rightarrow> pystr \<Rightarrow> pystr list \<Rightarrow> ledger \<Rightarrow> pyfloat" where
  "pattern_window_spend env patterns duration ids l =
     pattern_spend (bv_ok env) (bv_prices env) (bv_per_1k env) patterns (window_span env duration None None) ids l"

definition usd_window_status :: "budget_scope \<Rightarrow> budget_window \<Rightarrow> pyfloat \<Rightarrow> window_status" where
  "usd_window_status scope w spend = \<lparr>ws_window = w, ws_scope = scope, ws_spend = spend, ws_carry = 0,
     ws_quota = QuotaUsd, ws_boost_usd = 0, ws_boost_requests = 0\<rparr>"

text \<open>Spend on a group is summed over every client.\<close>

definition model_group_budget_status ::
    "budget_env \<Rightarrow> catalog option \<Rightarrow> pystr \<Rightarrow> virtual_key \<Rightarrow> team option \<Rightarrow> ledger \<Rightarrow>
     (pystr \<times> window_status) list option" where
  "model_group_budget_status env cat model key tm l =
     map_option (\<lambda>attached.
         map (\<lambda>(g, w). (g, usd_window_status ScopeModelGroup w
                (pattern_window_spend env (group_patterns cat g) (bw_duration w) [] l)))
           (filter (\<lambda>(g, w). g \<in> set (groups_for_model model cat)) attached))
       (merge_model_group_budgets (bv_lib env) key tm)"

definition effective_model_max_budget :: "key_lib \<Rightarrow> virtual_key \<Rightarrow> team option \<Rightarrow> named_budgets option" where
  "effective_model_max_budget lib key tm =
     (case (case tm of None \<Rightarrow> Some [] | Some t \<Rightarrow> model_max_budget_of lib (tm_meta t), model_max_budget_of lib (vk_meta key)) of
        (Some ts, Some ks) \<Rightarrow> Some (fold (\<lambda>(p, ws). AList.update p ws) ks ts)
      | _ \<Rightarrow> None)"

definition model_max_budget_status ::
    "budget_env \<Rightarrow> pystr \<Rightarrow> virtual_key \<Rightarrow> team option \<Rightarrow> pystr \<Rightarrow> pystr list \<Rightarrow> ledger \<Rightarrow>
     (pystr \<times> window_status) list option" where
  "model_max_budget_status env model key tm client team_ids l =
     (let name = py_strip model; ids = (if tm \<noteq> None \<and> team_ids \<noteq> [] then team_ids else [client]) in
      map_option (\<lambda>attached. if name = '''' then [] else
          map (\<lambda>(p, w). (p, usd_window_status ScopeModel w (pattern_window_spend env [p] (bw_duration w) ids l)))
            (flat_budgets (filter (\<lambda>(p, ws). pattern_matches name p) attached)))
        (effective_model_max_budget (bv_lib env) key tm))"

section \<open>Laws\<close>

lemma multiple_ge_1: "1 \<le> multiple_of m"
  by (simp add: multiple_of_def)

lemma effective_limit_bounds:
  assumes "0 < base"
  shows "base \<le> effective_limit base carry m \<and> effective_limit base carry m \<le> base * multiple_of m
    \<and> effective_limit base carry m \<le> base + max 0 carry"
proof -
  have "base * 1 \<le> base * multiple_of m" using assms multiple_ge_1 [of m] by (intro mult_left_mono) auto
  then show ?thesis using assms by (simp add: effective_limit_def)
qed

lemma compute_carry_bounds:
  assumes "0 < base"
  shows "0 \<le> compute_carry_usd base prev spent m \<and> compute_carry_usd base prev spent m \<le> base * (multiple_of m - 1)
    \<and> compute_carry_usd base prev spent m \<le> max 0 (prev - spent)"
  using assms multiple_ge_1 [of m] by (simp add: compute_carry_usd_def)

text \<open>Every merged cap is one of the given ones, the smallest of its duration.\<close>

definition usd_of :: "(pystr \<times> budget_window) list \<Rightarrow> pystr \<Rightarrow> pyfloat list" where
  "usd_of dws d = map (bw_max_usd \<circ> snd) (filter (\<lambda>(d', w). d' = d \<and> bw_max_usd w > 0) dws)"

definition requests_of :: "(pystr \<times> budget_window) list \<Rightarrow> pystr \<Rightarrow> int list" where
  "requests_of dws d = map (bw_max_requests \<circ> snd) (filter (\<lambda>(d', w). d' = d \<and> bw_max_requests w > 0) dws)"

definition least_usd :: "usd_caps \<Rightarrow> pystr \<Rightarrow> pyfloat list \<Rightarrow> bool" where
  "least_usd caps d xs = (case map_of caps d of None \<Rightarrow> xs = []
     | Some (a, s, w) \<Rightarrow> a \<in> set xs \<and> (\<forall>x \<in> set xs. a \<le> x) \<and> a = bw_max_usd w)"

definition least_requests :: "request_caps \<Rightarrow> pystr \<Rightarrow> int list \<Rightarrow> bool" where
  "least_requests caps d xs = (case map_of caps d of None \<Rightarrow> xs = []
     | Some (a, s) \<Rightarrow> a \<in> set xs \<and> (\<forall>x \<in> set xs. a \<le> x))"

lemma take_usd_least:
  "least_usd caps d xs \<Longrightarrow> least_usd (take_usd scope dw caps) d (xs @ usd_of [dw] d)"
  by (cases dw) (auto simp: least_usd_def take_usd_def usd_of_def update_conv' split: option.splits if_splits)

lemma take_requests_least:
  "least_requests caps d xs \<Longrightarrow> least_requests (take_requests scope dw caps) d (xs @ requests_of [dw] d)"
  by (cases dw) (auto simp: least_requests_def take_requests_def requests_of_def update_conv' split: option.splits if_splits)

lemma usd_of_Cons: "usd_of (dw # dws) d = usd_of [dw] d @ usd_of dws d"
  by (simp add: usd_of_def)

lemma requests_of_Cons: "requests_of (dw # dws) d = requests_of [dw] d @ requests_of dws d"
  by (simp add: requests_of_def)

lemma usd_of_append: "usd_of (xs @ ys) d = usd_of xs d @ usd_of ys d"
  by (simp add: usd_of_def)

lemma requests_of_append: "requests_of (xs @ ys) d = requests_of xs d @ requests_of ys d"
  by (simp add: requests_of_def)

lemma usd_of_member: "x \<in> set (usd_of dws d) \<longleftrightarrow> (\<exists>w. (d, w) \<in> set dws \<and> 0 < x \<and> x = bw_max_usd w)"
  by (auto simp: usd_of_def image_iff)

lemma requests_of_member: "x \<in> set (requests_of dws d) \<longleftrightarrow> (\<exists>w. (d, w) \<in> set dws \<and> 0 < x \<and> x = bw_max_requests w)"
  by (auto simp: requests_of_def image_iff)

lemma least_usd_Nil: "least_usd [] d []"
  by (simp add: least_usd_def)

lemma least_requests_Nil: "least_requests [] d []"
  by (simp add: least_requests_def)

lemma fold_usd_least:
  "least_usd caps d xs \<Longrightarrow> least_usd (fold (take_usd scope) dws caps) d (xs @ usd_of dws d)"
proof (induction dws arbitrary: caps xs)
  case Nil
  then show ?case by (simp add: usd_of_def)
next
  case (Cons dw dws)
  from Cons.IH [OF take_usd_least [OF Cons.prems, of scope dw]] show ?case
    by (simp add: usd_of_Cons [of dw dws])
qed

lemma fold_requests_least:
  "least_requests caps d xs \<Longrightarrow> least_requests (fold (take_requests scope) dws caps) d (xs @ requests_of dws d)"
proof (induction dws arbitrary: caps xs)
  case Nil
  then show ?case by (simp add: requests_of_def)
next
  case (Cons dw dws)
  from Cons.IH [OF take_requests_least [OF Cons.prems, of scope dw]] show ?case
    by (simp add: requests_of_Cons [of dw dws])
qed

lemma canonical_members:
  "canonical_windows ws = Some dws \<Longrightarrow>
     (d, w) \<in> set dws \<longleftrightarrow> w \<in> set ws \<and> normalize_duration (bw_duration w) = Some d"
proof (induction ws arbitrary: dws)
  case (Cons v ws)
  then obtain d' ds where "normalize_duration (bw_duration v) = Some d'" "canonical_windows ws = Some ds" "dws = (d', v) # ds"
    by (auto simp: canonical_windows_def split: option.splits)
  then show ?case using Cons.IH by auto
qed (simp add: canonical_windows_def)

lemma merged_caps_shape:
  assumes "merge_window_scopes order kws tws = Some caps" and "\<forall>xs. set (order xs) = set xs"
  obtains ks ts usd req where "canonical_windows kws = Some ks" "canonical_windows tws = Some ts"
    "\<forall>d. least_usd usd d (usd_of (ts @ ks) d)" "\<forall>d. least_requests req d (requests_of (ts @ ks) d)"
    "set caps = caps_of_duration usd req ` {d. map_of usd d \<noteq> None \<or> map_of req d \<noteq> None}"
proof -
  obtain ts ks where c: "canonical_windows tws = Some ts" "canonical_windows kws = Some ks"
    using assms(1) by (auto simp: merge_window_scopes_def split: option.splits)
  let ?usd = "fold (take_usd ScopeKey) ks (fold (take_usd ScopeTeam) ts [])"
  let ?req = "fold (take_requests ScopeKey) ks (fold (take_requests ScopeTeam) ts [])"
  have caps: "caps = map (caps_of_duration ?usd ?req) (order (remdups (map fst ?usd @ map fst ?req)))"
    using assms(1) c by (simp add: merge_window_scopes_def Let_def)
  have u: "least_usd ?usd d (usd_of (ts @ ks) d)" for d
    using fold_usd_least [OF fold_usd_least [OF least_usd_Nil, of ScopeTeam ts], of ScopeKey ks d]
    by (simp only: usd_of_append append_Nil)
  have r: "least_requests ?req d (requests_of (ts @ ks) d)" for d
    using fold_requests_least [OF fold_requests_least [OF least_requests_Nil, of ScopeTeam ts], of ScopeKey ks d]
    by (simp only: requests_of_append append_Nil)
  have "set caps = caps_of_duration ?usd ?req ` {d. map_of ?usd d \<noteq> None \<or> map_of ?req d \<noteq> None}"
  proof -
    have "set (order (remdups (map fst ?usd @ map fst ?req))) = {d. map_of ?usd d \<noteq> None \<or> map_of ?req d \<noteq> None}"
      unfolding assms(2) [rule_format] by (simp add: map_of_eq_None_iff Un_def)
    then show ?thesis unfolding caps set_map by (rule arg_cong)
  qed
  with c u r show ?thesis by (intro that [of ks ts ?usd ?req]) simp_all
qed

lemma caps_of_duration_fields [simp]:
  "bw_duration (mc_window (caps_of_duration usd req d)) = d"
  "bw_max_usd (mc_window (caps_of_duration usd req d)) = (case map_of usd d of None \<Rightarrow> 0 | Some (a, s) \<Rightarrow> a)"
  "bw_max_requests (mc_window (caps_of_duration usd req d)) = (case map_of req d of None \<Rightarrow> 0 | Some (n, s) \<Rightarrow> n)"
  "mc_usd_scope (caps_of_duration usd req d) = map_option (fst \<circ> snd) (map_of usd d)"
  "mc_request_scope (caps_of_duration usd req d) = map_option snd (map_of req d)"
  by (auto simp: caps_of_duration_def plain_window_def Let_def split: option.splits prod.splits)

text \<open>
  Per duration, the tighter of key and team wins, for dollars and for requests apart, and no
  window is forgotten: whatever the order of the merged durations, every window of the key or
  its team with an amount has a merged window of its canonical duration whose amount is no
  larger, and every merged amount is one that was configured.
\<close>
theorem tighter_cap_wins:
  assumes "merge_window_scopes order kws tws = Some caps" and "\<forall>xs. set (order xs) = set xs"
  shows "(\<forall>w \<in> set (kws @ tws). \<forall>d. normalize_duration (bw_duration w) = Some d \<longrightarrow>
           (0 < bw_max_usd w \<longrightarrow> (\<exists>c \<in> set caps. bw_duration (mc_window c) = d \<and> mc_usd_scope c \<noteq> None
              \<and> 0 < bw_max_usd (mc_window c) \<and> bw_max_usd (mc_window c) \<le> bw_max_usd w))
           \<and> (0 < bw_max_requests w \<longrightarrow> (\<exists>c \<in> set caps. bw_duration (mc_window c) = d \<and> mc_request_scope c \<noteq> None
              \<and> 0 < bw_max_requests (mc_window c) \<and> bw_max_requests (mc_window c) \<le> bw_max_requests w)))
       \<and> (\<forall>c \<in> set caps. (mc_usd_scope c \<noteq> None \<longrightarrow> (\<exists>w \<in> set (kws @ tws).
              normalize_duration (bw_duration w) = Some (bw_duration (mc_window c)) \<and> bw_max_usd w = bw_max_usd (mc_window c)))
           \<and> (mc_request_scope c \<noteq> None \<longrightarrow> (\<exists>w \<in> set (kws @ tws).
              normalize_duration (bw_duration w) = Some (bw_duration (mc_window c))
              \<and> bw_max_requests w = bw_max_requests (mc_window c))))"
proof -
  from merged_caps_shape [OF assms] obtain ks ts usd req where s: "canonical_windows kws = Some ks" "canonical_windows tws = Some ts"
    "\<forall>d. least_usd usd d (usd_of (ts @ ks) d)" "\<forall>d. least_requests req d (requests_of (ts @ ks) d)"
    "set caps = caps_of_duration usd req ` {d. map_of usd d \<noteq> None \<or> map_of req d \<noteq> None}" .
  have mem: "(d, w) \<in> set (ts @ ks) \<longleftrightarrow> w \<in> set (kws @ tws) \<and> normalize_duration (bw_duration w) = Some d" for d w
    using canonical_members [OF s(1)] canonical_members [OF s(2)] by auto
  have usd: "x \<in> set (usd_of (ts @ ks) d) \<longleftrightarrow>
      (\<exists>w \<in> set (kws @ tws). normalize_duration (bw_duration w) = Some d \<and> 0 < x \<and> x = bw_max_usd w)" for x d
    unfolding usd_of_member mem by blast
  have req: "x \<in> set (requests_of (ts @ ks) d) \<longleftrightarrow>
      (\<exists>w \<in> set (kws @ tws). normalize_duration (bw_duration w) = Some d \<and> 0 < x \<and> x = bw_max_requests w)" for x d
    unfolding requests_of_member mem by blast
  have U: "case map_of usd d of None \<Rightarrow> usd_of (ts @ ks) d = []
      | Some (a, s, w) \<Rightarrow> a \<in> set (usd_of (ts @ ks) d) \<and> (\<forall>x \<in> set (usd_of (ts @ ks) d). a \<le> x)" for d
    using s(3) [rule_format, of d] by (auto simp: least_usd_def split: option.splits)
  have R: "case map_of req d of None \<Rightarrow> requests_of (ts @ ks) d = []
      | Some (a, s) \<Rightarrow> a \<in> set (requests_of (ts @ ks) d) \<and> (\<forall>x \<in> set (requests_of (ts @ ks) d). a \<le> x)" for d
    using s(4) [rule_format, of d] by (auto simp: least_requests_def split: option.splits)
  show ?thesis
  proof (intro conjI ballI allI impI)
    fix w d assume w: "w \<in> set (kws @ tws)" "normalize_duration (bw_duration w) = Some d" "0 < bw_max_usd w"
    then have "bw_max_usd w \<in> set (usd_of (ts @ ks) d)" unfolding usd by blast
    then obtain a t where a: "map_of usd d = Some (a, t)" "a \<le> bw_max_usd w" "a \<in> set (usd_of (ts @ ks) d)"
      using U [of d] by (auto split: option.splits)
    then have "0 < a" unfolding usd by blast
    then show "\<exists>c \<in> set caps. bw_duration (mc_window c) = d \<and> mc_usd_scope c \<noteq> None
        \<and> 0 < bw_max_usd (mc_window c) \<and> bw_max_usd (mc_window c) \<le> bw_max_usd w"
      using a by (auto simp: s(5) intro!: bexI [of _ "caps_of_duration usd req d"])
  next
    fix w d assume w: "w \<in> set (kws @ tws)" "normalize_duration (bw_duration w) = Some d" "0 < bw_max_requests w"
    then have "bw_max_requests w \<in> set (requests_of (ts @ ks) d)" unfolding req by blast
    then obtain a t where a: "map_of req d = Some (a, t)" "a \<le> bw_max_requests w" "a \<in> set (requests_of (ts @ ks) d)"
      using R [of d] by (auto split: option.splits)
    then have "0 < a" unfolding req by blast
    then show "\<exists>c \<in> set caps. bw_duration (mc_window c) = d \<and> mc_request_scope c \<noteq> None
        \<and> 0 < bw_max_requests (mc_window c) \<and> bw_max_requests (mc_window c) \<le> bw_max_requests w"
      using a by (auto simp: s(5) intro!: bexI [of _ "caps_of_duration usd req d"])
  next
    fix c assume "c \<in> set caps" "mc_usd_scope c \<noteq> None"
    then obtain d where d: "c = caps_of_duration usd req d" "map_of usd d \<noteq> None" by (auto simp: s(5))
    then have "bw_max_usd (mc_window c) \<in> set (usd_of (ts @ ks) d)" using U [of d] by (auto split: option.splits)
    then show "\<exists>w \<in> set (kws @ tws). normalize_duration (bw_duration w) = Some (bw_duration (mc_window c))
        \<and> bw_max_usd w = bw_max_usd (mc_window c)" unfolding usd using d(1) by fastforce
  next
    fix c assume "c \<in> set caps" "mc_request_scope c \<noteq> None"
    then obtain d where d: "c = caps_of_duration usd req d" "map_of req d \<noteq> None" by (auto simp: s(5))
    then have "bw_max_requests (mc_window c) \<in> set (requests_of (ts @ ks) d)" using R [of d] by (auto split: option.splits)
    then show "\<exists>w \<in> set (kws @ tws). normalize_duration (bw_duration w) = Some (bw_duration (mc_window c))
        \<and> bw_max_requests w = bw_max_requests (mc_window c)" unfolding req using d(1) by fastforce
  qed
qed

theorem tighter_cap_wins_witness:
  "\<exists>c. merge_window_scopes id [plain_window ''24h'' 5] [plain_window ''day'' 10, plain_window ''month'' 50]
     = Some [caps_of_duration [(''day'', 5, ScopeKey, plain_window ''24h'' 5), (''month'', 50, ScopeTeam, plain_window ''month'' 50)] [] ''day'', c]
   \<and> 0 < bw_max_usd (mc_window c) \<and> bw_max_usd (mc_window c) \<le> 50"
proof -
  have m: "merge_window_scopes id [plain_window ''24h'' 5] [plain_window ''day'' 10, plain_window ''month'' 50]
     = Some (map (caps_of_duration [(''day'', 5, ScopeKey, plain_window ''24h'' 5), (''month'', 50, ScopeTeam, plain_window ''month'' 50)] [])
         [''day'', ''month''])" by code_simp
  have "normalize_duration (bw_duration (plain_window ''month'' 50)) = Some ''month''" by code_simp
  moreover have "0 < bw_max_usd (plain_window ''month'' 50)" by (simp add: plain_window_def)
  ultimately obtain c where "c \<in> set (map (caps_of_duration [(''day'', 5, ScopeKey, plain_window ''24h'' 5), (''month'', 50, ScopeTeam, plain_window ''month'' 50)] [])
         [''day'', ''month''])" "bw_duration (mc_window c) = ''month''" "0 < bw_max_usd (mc_window c)" "bw_max_usd (mc_window c) \<le> bw_max_usd (plain_window ''month'' 50)"
    using tighter_cap_wins [OF m] by fastforce
  then show ?thesis using m by (auto simp: plain_window_def)
qed

lemma carried_put [simp]: "carried (Some (p, x)) p = Some (max 0 x)"
  by (simp add: carried_def)

lemma get_put_window [simp]:
  "lg_enabled l \<Longrightarrow> get_window_state True s i d (put_window_state True s i d p x l) = Some (p, x)"
  by (simp add: get_window_state_def put_window_state_def)

lemma record_keeps_carry: "lg_carry (ledger_record ok e l) = lg_carry l \<and> lg_enabled (ledger_record ok e l) = lg_enabled l"
  by (simp add: ledger_record_def Let_def)

lemma records_keep_carry:
  "lg_carry (fold (ledger_record ok) es l) = lg_carry l \<and> lg_enabled (fold (ledger_record ok) es l) = lg_enabled l"
  by (induction es arbitrary: l) (auto simp: record_keeps_carry)

lemma records_keep_window_state:
  "get_window_state ok' s i d (fold (ledger_record ok) es l) = get_window_state ok' s i d l"
  by (simp add: get_window_state_def records_keep_carry)

text \<open>
  C24. A rolling window never makes money: in the first look of a period at a window of a day or a
  month, what is carried over is at most what the period before had left, that is its base and
  its own carry less what was spent, and never more than the multiple allows; the limit it gives
  lies between the base and the base times the multiple; and for the rest of the period, whatever
  is spent meanwhile, the window carries the same amount.
\<close>
theorem rollover_makes_no_money:
  assumes "bw_rollover w" and "0 < bw_max_usd w" and "bw_duration w \<in> {''day'', ''month''}"
    and "bv_ok env" and "lg_enabled l"
    and "carried (get_window_state True (scope_name scope) sid (bw_duration w) l) (period_id (bw_duration w) (bv_now env)) = None"
    and "resolve_carry_usd env w scope sid ids l = (carry, l')"
  shows "(let old = (case carried (get_window_state True (scope_name scope) sid (bw_duration w) l)
                          (previous_period_id (bw_duration w) (bv_now env)) of None \<Rightarrow> 0 | Some x \<Rightarrow> x)
          in 0 \<le> carry \<and> carry \<le> max 0 (bw_max_usd w + old - previous_period_spend env ids (bw_duration w) l)
           \<and> carry \<le> bw_max_usd w * (multiple_of (bw_cap_multiple w) - 1)
           \<and> bw_max_usd w \<le> effective_limit (bw_max_usd w) carry (bw_cap_multiple w)
           \<and> effective_limit (bw_max_usd w) carry (bw_cap_multiple w) \<le> bw_max_usd w * multiple_of (bw_cap_multiple w))
       \<and> (\<forall>es now. period_id (bw_duration w) now = period_id (bw_duration w) (bv_now env) \<longrightarrow>
            fst (resolve_carry_usd (env\<lparr>bv_now := now\<rparr>) w scope sid ids (fold (ledger_record True) es l')) = carry)"
proof -
  let ?row = "get_window_state True (scope_name scope) sid (bw_duration w) l"
  define old where "old = (case carried ?row (previous_period_id (bw_duration w) (bv_now env)) of None \<Rightarrow> 0 | Some x \<Rightarrow> x)"
  have old: "0 \<le> old" by (auto simp: old_def carried_def split: option.splits prod.splits if_splits)
  have nl: "bw_duration w \<noteq> ''lifetime''" using assms(3) by auto
  have c: "carry = new_carry env w ids ?row l"
    "l' = put_window_state True (scope_name scope) sid (bw_duration w) (period_id (bw_duration w) (bv_now env)) carry l"
    using assms(1,4,6,7) nl by (auto simp: resolve_carry_usd_def Let_def)
  let ?prev = "effective_limit (bw_max_usd w) old (bw_cap_multiple w)"
  have c2: "carry = compute_carry_usd (bw_max_usd w) ?prev (previous_period_spend env ids (bw_duration w) l) (bw_cap_multiple w)"
    by (simp add: c(1) new_carry_def old_def Let_def)
  have b: "0 \<le> carry" "carry \<le> bw_max_usd w * (multiple_of (bw_cap_multiple w) - 1)"
    "carry \<le> max 0 (?prev - previous_period_spend env ids (bw_duration w) l)"
    using compute_carry_bounds [OF assms(2)] unfolding c2 by blast+
  have "?prev \<le> bw_max_usd w + old" using effective_limit_bounds [OF assms(2), of old "bw_cap_multiple w"] old by simp
  then have b3: "carry \<le> max 0 (bw_max_usd w + old - previous_period_spend env ids (bw_duration w) l)" using b(3) by linarith
  have s: "get_window_state True (scope_name scope) sid (bw_duration w) (fold (ledger_record True) es l')
      = Some (period_id (bw_duration w) (bv_now env), carry)" for es
    unfolding records_keep_window_state c(2) using assms(5) by simp
  show ?thesis
    using b b3 effective_limit_bounds [OF assms(2), of carry "bw_cap_multiple w"] s assms(1,4) nl
    by (auto simp: old_def [symmetric] Let_def resolve_carry_usd_def)
qed

definition demo_lib :: key_lib where
  "demo_lib = \<lparr>kl_json = \<lparr>jl_loads = (\<lambda>s. None), jl_dumps = (\<lambda>j. ''''), jl_str = (\<lambda>j. case j of JStr s \<Rightarrow> s | _ \<Rightarrow> '''')\<rparr>,
     kl_float = (\<lambda>s. None), kl_repr = (\<lambda>x. ''''), kl_time = parse_nat_text, kl_iso = (\<lambda>t. digits_of (nat t))\<rparr>"

definition demo_budget_env :: "int \<Rightarrow> budget_env" where
  "demo_budget_env now = \<lparr>bv_lib = demo_lib, bv_prices = demo_rates None, bv_per_1k = 0, bv_ok = True, bv_now = now, bv_order = id\<rparr>"

definition rolling :: "pystr \<Rightarrow> pyfloat \<Rightarrow> budget_window" where
  "rolling duration usd = (plain_window duration usd)\<lparr>bw_rollover := True\<rparr>"

lemma demo_spent:
  "client_spend True (demo_rates None) 0 ''ci'' s (recorded_ledger [demo_call n ''a''])
     = (if in_span s 20691 then rat_of_int (max 0 n) * 5 / 1000000 else 0)"
proof -
  have f: "flat_table (demo_rates None)"
    using demo_merged_rates [of None] by (simp add: flat_table_def demo_rates_def no_rates_def)
  have "p_input (model_price (demo_rates None) 0 ''opus'') = 5"
    unfolding model_price_def by (simp add: demo_price) (simp add: resolved_from_rates_def above_threshold_def demo_rates_def no_rates_def rate_or_zero_def Let_def)
  then have "call_cost (demo_rates None) 0 (demo_call n ''a'') = rat_of_int (max 0 n) * 5 / 1000000"
    using flat_model_cost [OF f, of "max 0 n" 0 0 "''opus''"]
    by (simp add: call_cost_def demo_call_def tokens_in_def tokens_out_def metered_def FRONTIER_TIER_def)
  then show ?thesis
    using client_spend_of_calls [OF f, of "''ci''" 0 s "[demo_call n ''a'']"] by (simp add: demo_call_def)
qed

text \<open>
  A rolling week looks at one day only. A client that has spent its whole weekly budget of 10
  dollars on Wednesday gets, on the Monday after, the full base carried over (the limit doubles to
  20), because the week before is read as the Sunday alone; a month or a day in the same place
  carries nothing.
\<close>
theorem weekly_rollover_forgets_the_week:
  "client_spend True (demo_rates None) 0 ''ci'' (SinceDay 20689) (recorded_ledger [demo_call 2000000 ''a'']) = 10
   \<and> week_of 20691 + 1 = week_of 20696 \<and> isoweekday 20696 = 1
   \<and> fst (resolve_carry_usd (demo_budget_env (20696 * DAY_US)) (rolling ''week'' 10) ScopeKey ''ci'' [''ci'']
            (recorded_ledger [demo_call 2000000 ''a''])) = 10
   \<and> fst (resolve_carry_usd (demo_budget_env (20692 * DAY_US)) (rolling ''day'' 10) ScopeKey ''ci'' [''ci'']
            (recorded_ledger [demo_call 2000000 ''a''])) = 0"
proof -
  let ?l = "recorded_ledger [demo_call 2000000 ''a'']"
  have carry: "lg_carry ?l = []" "lg_enabled ?l"
    by (simp_all add: recorded_ledger_def no_usage_def ledger_record_def Let_def)
  have w: "week_of 20691 + 1 = week_of 20696" "isoweekday 20696 = 1" by code_simp+
  have d: "day_of (20696 * DAY_US) = 20696" "day_of (20692 * DAY_US) = 20692" by (simp_all add: day_of_def DAY_US_def)
  have "fst (resolve_carry_usd (demo_budget_env (20696 * DAY_US)) (rolling ''week'' 10) ScopeKey ''ci'' [''ci''] ?l) = 10"
    by (simp add: resolve_carry_usd_def Let_def rolling_def plain_window_def get_window_state_def carry carried_def
        new_carry_def previous_period_spend_def clients_span_spend_def demo_budget_env_def d demo_spent in_span_def
        effective_limit_def compute_carry_usd_def multiple_of_def)
  moreover have "fst (resolve_carry_usd (demo_budget_env (20692 * DAY_US)) (rolling ''day'' 10) ScopeKey ''ci'' [''ci''] ?l) = 0"
    by (simp add: resolve_carry_usd_def Let_def rolling_def plain_window_def get_window_state_def carry carried_def
        new_carry_def previous_period_spend_def clients_span_spend_def demo_budget_env_def d demo_spent in_span_def
        effective_limit_def compute_carry_usd_def multiple_of_def)
  ultimately show ?thesis using w by (simp add: demo_spent in_span_def)
qed

theorem rollover_makes_no_money_witness:
  "(let carry = fst (resolve_carry_usd (demo_budget_env (20692 * DAY_US)) (rolling ''day'' 15) ScopeKey ''ci'' [''ci'']
                      (recorded_ledger [demo_call 2000000 ''a'']))
    in 0 \<le> carry \<and> carry \<le> max 0 (15 + 0 - 10))"
proof -
  let ?l = "recorded_ledger [demo_call 2000000 ''a'']" and ?env = "demo_budget_env (20692 * DAY_US)"
  let ?w = "rolling ''day'' 15"
  have carry: "lg_carry ?l = []" "lg_enabled ?l"
    by (simp_all add: recorded_ledger_def no_usage_def ledger_record_def Let_def)
  have d: "day_of (20692 * DAY_US) = 20692" by (simp add: day_of_def DAY_US_def)
  have p: "previous_period_spend ?env [''ci''] ''day'' ?l = 10"
    by (simp add: previous_period_spend_def Let_def clients_span_spend_def demo_budget_env_def d demo_spent in_span_def)
  have r: "carried (get_window_state True (scope_name ScopeKey) ''ci'' ''day'' ?l) p = None" for p
    by (simp add: get_window_state_def carry carried_def)
  obtain x l' where x: "resolve_carry_usd ?env ?w ScopeKey ''ci'' [''ci''] ?l = (x, l')" by (rule prod.exhaust)
  have w: "bw_rollover ?w" "bw_max_usd ?w = 15" "bw_duration ?w = ''day''" "bv_ok ?env"
    by (simp_all add: rolling_def plain_window_def demo_budget_env_def)
  from rollover_makes_no_money [OF w(1) _ _ w(4) carry(2) _ x]
  show ?thesis using w p r x by (simp add: Let_def)
qed

text \<open>
  The aggregate cap of a team is not looked at for a member with a tighter cap of its own: when
  a key's daily cap is below the daily cap of its team, what the middleware measures for the key,
  and so whether it refuses, is the same whoever the members of the team are and whatever they
  have spent. The documentation says that team caps apply to every key of the team.
\<close>
theorem tighter_key_hides_team_spend:
  assumes "vk_windows key = [plain_window ''day'' a]" and "tm_windows t = [plain_window ''day'' b]"
    and "0 < a" and "a < b" and "\<forall>xs. set (bv_order env xs) = set xs \<and> length (bv_order env xs) = length xs"
  shows "first_exceeded_window env key (Some t) client members l = first_exceeded_window env key (Some t) client others l
       \<and> (\<forall>ss l'. budget_status env key (Some t) client members l = (Some ss, l') \<longrightarrow>
            (\<forall>s \<in> set ss. ws_scope s = ScopeKey \<and> ws_spend s = spend_for_window env [client] ''day'' l))"
proof -
  let ?usd = "[(''day'', a, ScopeKey, plain_window ''day'' a)]"
  have o1: "bv_order env [''day''] = [''day'']"
    using assms(5) [rule_format, of "[''day'']"] by (cases "bv_order env [''day'']") auto
  have n: "normalize_duration ''day'' = Some ''day''" by code_simp
  have caps: "effective_caps (bv_order env) key (Some t) = Some [caps_of_duration ?usd [] ''day'']"
    using assms(1-4) o1 by (simp add: effective_caps_def merge_window_scopes_def canonical_windows_def plain_window_def n
        take_usd_def take_requests_def Let_def)
  have s: "caps_statuses env key (Some t) client ids [caps_of_duration ?usd [] ''day''] l
      = (map_option (\<lambda>(usd, n). [\<lparr>ws_window = mc_window (caps_of_duration ?usd [] ''day''), ws_scope = ScopeKey,
           ws_spend = spend_for_window env [client] ''day'' l, ws_carry = 0, ws_quota = QuotaUsd,
           ws_boost_usd = usd, ws_boost_requests = 0\<rparr>]) (boost_for_scope env key (Some t) ScopeKey), l)" for ids
    using assms(3) by (auto simp: usd_status_def request_status_def Let_def resolve_carry_usd_def caps_of_duration_def
        plain_window_def split: option.splits prod.splits)
  have st: "budget_status env key (Some t) client ids l = caps_statuses env key (Some t) client ids [caps_of_duration ?usd [] ''day''] l" for ids
    by (simp only: budget_status_def caps option.case)
  show ?thesis unfolding first_exceeded_window_def st s by (auto split: prod.splits)
qed

definition demo_team :: "budget_window list \<Rightarrow> team" where
  "demo_team ws = \<lparr>tm_id = ''t1'', tm_name = ''eng'', tm_windows = ws, tm_pin = None, tm_rpm = 0, tm_tpm = 0, tm_rpd = 0,
     tm_tpd = 0, tm_models = None, tm_groups = None, tm_cache_scope = ''global'', tm_priority = ''normal'', tm_max_in_flight = 0,
     tm_service_tiers = None, tm_degrade = False, tm_meta = []\<rparr>"

definition demo_key :: "budget_window list \<Rightarrow> virtual_key" where
  "demo_key ws = \<lparr>vk_id = ''ci'', vk_name = ''ci'', vk_prefix = ''dk_ci'', vk_daily = 0, vk_monthly = 0, vk_rpm = 0,
     vk_tpm = 0, vk_rpd = 0, vk_tpd = 0, vk_tier_cap = None, vk_client = None, vk_revoked = False, vk_team = Some ''t1'',
     vk_team_name = Some ''eng'', vk_windows = ws, vk_meta = [], vk_expires = None, vk_prev_expires = None, vk_user_cap = 0,
     vk_user_rpd = 0, vk_user_tpd = 0, vk_pin = None, vk_models = None, vk_groups = None, vk_cache_scope = ''global'',
     vk_priority = ''normal'', vk_last_used = None, vk_max_in_flight = 0, vk_service_tiers = None, vk_degrade = False\<rparr>"

theorem tighter_key_hides_team_spend_witness:
  "first_exceeded_window (demo_budget_env 0) (demo_key [plain_window ''day'' 5]) (Some (demo_team [plain_window ''day'' 10]))
      ''ann'' [''ann'', ''ci''] (recorded_ledger [demo_call 4000000 ''a''])
   = first_exceeded_window (demo_budget_env 0) (demo_key [plain_window ''day'' 5]) (Some (demo_team [plain_window ''day'' 10]))
      ''ann'' [] (recorded_ledger [demo_call 4000000 ''a''])"
  using tighter_key_hides_team_spend [of "demo_key [plain_window ''day'' 5]" 5 "demo_team [plain_window ''day'' 10]" 10
      "demo_budget_env 0"]
  by (simp add: demo_key_def demo_team_def demo_budget_env_def)

end
