(* ===== verification/VirtualKeys.thy ===== *)
theory VirtualKeys
  imports Budgets
begin

text \<open>
  The virtual key store (\<open>VirtualKeyStore\<close> in \<open>daari/auth/virtual_keys.py\<close>) as a state machine:
  teams, keys and memberships in SQLite, and the operations that issue, rotate, revoke, change and
  resolve keys.

  A row holds its columns; a JSON column is the value it encodes. The hash of a secret is an
  argument \<open>digest\<close>, and so are the fresh tokens of \<open>secrets\<close> and the clock. The rows are in the order
  of insertion. A transaction that raises leaves the store as it was.
\<close>

section \<open>State\<close>

record key_row =
  kr_hash :: pystr
  kr_id :: pystr
  kr_name :: pystr
  kr_prefix :: pystr
  kr_created :: pystr
  kr_revoked :: "pystr option"
  kr_expires :: "pystr option"
  kr_daily :: pyfloat
  kr_monthly :: pyfloat
  kr_rpm :: int
  kr_tpm :: int
  kr_rpd :: int
  kr_tpd :: int
  kr_tier_cap :: "pystr option"
  kr_client :: "pystr option"
  kr_team :: "pystr option"
  kr_windows :: json
  kr_meta :: metadata
  kr_user_cap :: pyfloat
  kr_user_rpd :: int
  kr_user_tpd :: int
  kr_prev_hash :: "pystr option"
  kr_prev_prefix :: "pystr option"
  kr_prev_expires :: "pystr option"
  kr_pin :: "pystr option"
  kr_models :: "pystr list option"
  kr_groups :: "pystr list option"
  kr_scope :: pystr
  kr_priority :: pystr
  kr_last_used :: "pystr option"

record team_row =
  tr_id :: pystr
  tr_name :: pystr
  tr_windows :: json
  tr_created :: pystr
  tr_pin :: "pystr option"
  tr_rpm :: int
  tr_tpm :: int
  tr_rpd :: int
  tr_tpd :: int
  tr_models :: "pystr list option"
  tr_groups :: "pystr list option"
  tr_scope :: pystr
  tr_priority :: pystr
  tr_meta :: metadata

record key_store =
  ks_enabled :: bool
  ks_keys :: "key_row list"
  ks_teams :: "team_row list"
  ks_members :: "(pystr \<times> pystr) list"
  ks_touched :: "(pystr \<times> int) list"   \<comment> \<open>in the process: when a key was last stamped\<close>
  ks_hits :: "(pystr \<times> pyfloat) list"

definition empty_store :: key_store where
  "empty_store = \<lparr>ks_enabled = True, ks_keys = [], ks_teams = [], ks_members = [], ks_touched = [], ks_hits = []\<rparr>"

datatype key_error = StoreDisabled | BadValue | NoSuchKey | HashConflict

text \<open>The arguments of \<open>create\<close>, and of \<open>create_team\<close> where they are the same.\<close>

record key_spec =
  ns_name :: pystr
  ns_daily :: pyfloat
  ns_monthly :: pyfloat
  ns_rpm :: int
  ns_tpm :: int
  ns_rpd :: int
  ns_tpd :: int
  ns_tier_cap :: "pystr option"
  ns_client :: "pystr option"
  ns_team :: "pystr option"
  ns_windows :: "budget_window list"
  ns_meta :: metadata
  ns_expires :: "pystr option"
  ns_user_cap :: pyfloat
  ns_user_rpd :: int
  ns_user_tpd :: int
  ns_pin :: "pystr option"
  ns_models :: "pystr list option"
  ns_groups :: "pystr list option"
  ns_scope :: pystr
  ns_priority :: pystr
  ns_max_in_flight :: int
  ns_group_budgets :: named_budgets
  ns_model_budgets :: named_budgets
  ns_signals :: "json list option"   \<comment> \<open>the encoded rules\<close>
  ns_tiers :: "pystr list option"
  ns_degrade :: bool

definition no_spec :: "pystr \<Rightarrow> key_spec" where
  "no_spec name = \<lparr>ns_name = name, ns_daily = 0, ns_monthly = 0, ns_rpm = 0, ns_tpm = 0, ns_rpd = 0, ns_tpd = 0,
     ns_tier_cap = None, ns_client = None, ns_team = None, ns_windows = [], ns_meta = [], ns_expires = None, ns_user_cap = 0,
     ns_user_rpd = 0, ns_user_tpd = 0, ns_pin = None, ns_models = None, ns_groups = None, ns_scope = ''global'',
     ns_priority = ''normal'', ns_max_in_flight = 0, ns_group_budgets = [], ns_model_budgets = [], ns_signals = None,
     ns_tiers = None, ns_degrade = False\<rparr>"

section \<open>Metadata\<close>

definition encode_named :: "key_lib \<Rightarrow> named_budgets \<Rightarrow> json" where
  "encode_named lib bs = JObj (map (\<lambda>(n, ws). (n, windows_json lib ws)) (filter (\<lambda>(n, ws). ws \<noteq> []) bs))"

definition encode_model_budgets :: "key_lib \<Rightarrow> named_budgets \<Rightarrow> json" where
  "encode_model_budgets lib bs = encode_named lib (map (\<lambda>(n, ws). (n, filter (\<lambda>w. bw_max_usd w > 0) ws)) bs)"

definition put_meta :: "bool \<Rightarrow> pystr \<Rightarrow> json \<Rightarrow> metadata \<Rightarrow> metadata" where
  "put_meta c name v m = (if c then AList.update name v m else m)"

definition write_signals :: "json list option \<Rightarrow> metadata \<Rightarrow> metadata" where
  "write_signals rules m = (case rules of None \<Rightarrow> m
     | Some rs \<Rightarrow> (if rs \<noteq> [] then AList.update ''signal_overrides'' (JList rs) m else AList.delete ''signal_overrides'' m))"

definition clean_pin :: "pystr option \<Rightarrow> pystr option" where
  "clean_pin p = (let t = py_strip (str_or p '''') in if t = '''' then None else Some t)"

definition budget_meta :: "key_lib \<Rightarrow> key_spec \<Rightarrow> metadata" where
  "budget_meta lib sp =
     put_meta (ns_model_budgets sp \<noteq> []) ''model_max_budget'' (encode_model_budgets lib (ns_model_budgets sp))
     (put_meta (ns_group_budgets sp \<noteq> []) ''model_group_budgets'' (encode_named lib (ns_group_budgets sp))
     (put_meta (ns_max_in_flight sp > 0) ''max_in_flight'' (JInt (ns_max_in_flight sp)) (ns_meta sp)))"

definition key_meta :: "key_lib \<Rightarrow> key_spec \<Rightarrow> metadata" where
  "key_meta lib sp =
     (let m1 = (case clean_pin (ns_pin sp) of None \<Rightarrow> budget_meta lib sp
                | Some p \<Rightarrow> AList.update ''region_pin'' (JStr p) (budget_meta lib sp));
          m2 = put_meta (map_of m1 ''priority'' \<noteq> None \<or> ns_priority sp \<noteq> ''normal'') ''priority''
                 (JStr (normalize_priority (Some (ns_priority sp)))) m1
      in write_tiers_to_meta (write_signals (ns_signals sp) m2) (Some (ns_tiers sp)) (Some (ns_degrade sp)))"

definition team_meta :: "key_lib \<Rightarrow> key_spec \<Rightarrow> metadata" where
  "team_meta lib sp =
     write_tiers_to_meta (write_signals (ns_signals sp) (budget_meta lib sp)) (Some (ns_tiers sp)) (Some (ns_degrade sp))"

definition max_in_flight_from_meta :: "metadata \<Rightarrow> int" where
  "max_in_flight_from_meta m = (case int_or 0 (obj_get m ''max_in_flight'') of None \<Rightarrow> 0 | Some n \<Rightarrow> max 0 n)"

section \<open>Teams\<close>

definition team_of_row :: "key_lib \<Rightarrow> team_row \<Rightarrow> team" where
  "team_of_row lib r =
     \<lparr>tm_id = tr_id r, tm_name = tr_name r, tm_windows = parse_windows lib (tr_windows r), tm_pin = tr_pin r,
      tm_rpm = tr_rpm r, tm_tpm = tr_tpm r, tm_rpd = tr_rpd r, tm_tpd = tr_tpd r, tm_models = tr_models r,
      tm_groups = tr_groups r, tm_cache_scope = coerce_cache_scope (Some (tr_scope r)),
      tm_priority = normalize_priority (Some (tr_priority r)), tm_max_in_flight = max_in_flight_from_meta (tr_meta r),
      tm_service_tiers = tiers_from_meta (kl_json lib) (JObj (tr_meta r)),
      tm_degrade = degrade_from_meta (JObj (tr_meta r)), tm_meta = tr_meta r\<rparr>"

definition team_windows_of :: "budget_window list \<Rightarrow> pyfloat \<Rightarrow> pyfloat \<Rightarrow> budget_window list option" where
  "team_windows_of ws daily monthly = coalesce_windows (if ws \<noteq> [] then ws else windows_from_flat daily monthly)"

text \<open>An existing team of that name is returned as it is.\<close>

definition create_team ::
    "key_lib \<Rightarrow> pystr \<Rightarrow> int \<Rightarrow> key_spec \<Rightarrow> key_store \<Rightarrow> (key_error + team) \<times> key_store" where
  "create_team lib tid now sp s =
     (if \<not> ks_enabled s then (Inl StoreDisabled, s)
      else (case (team_windows_of (ns_windows sp) (ns_daily sp) (ns_monthly sp), normalize_cache_scope (Some (ns_scope sp))) of
          (Some ws, Some scope) \<Rightarrow>
            (case find (\<lambda>r. tr_name r = ns_name sp) (ks_teams s) of
               Some r \<Rightarrow> (Inr (team_of_row lib r), s)
             | None \<Rightarrow>
                 (if \<exists>r \<in> set (ks_teams s). tr_id r = tid then (Inl HashConflict, s)
                  else (let r = \<lparr>tr_id = tid, tr_name = ns_name sp, tr_windows = windows_json lib ws, tr_created = kl_iso lib now,
                          tr_pin = clean_pin (ns_pin sp), tr_rpm = max 0 (ns_rpm sp), tr_tpm = max 0 (ns_tpm sp),
                          tr_rpd = max 0 (ns_rpd sp), tr_tpd = max 0 (ns_tpd sp), tr_models = coerce_names (ns_models sp),
                          tr_groups = coerce_names (ns_groups sp), tr_scope = scope,
                          tr_priority = normalize_priority (Some (ns_priority sp)), tr_meta = team_meta lib sp\<rparr>
                        in (Inr ((team_of_row lib r)\<lparr>tm_windows := ws, tm_service_tiers := coerce_tiers (ns_tiers sp),
                                   tm_max_in_flight := max 0 (ns_max_in_flight sp), tm_degrade := ns_degrade sp\<rparr>),
                            s\<lparr>ks_teams := ks_teams s @ [r]\<rparr>))))
        | _ \<Rightarrow> (Inl BadValue, s)))"

definition get_team :: "key_lib \<Rightarrow> pystr option \<Rightarrow> pystr option \<Rightarrow> key_store \<Rightarrow> team option" where
  "get_team lib tid name s =
     (if \<not> ks_enabled s then None
      else if str_or tid '''' \<noteq> '''' then map_option (team_of_row lib) (find (\<lambda>r. tr_id r = str_or tid '''') (ks_teams s))
      else if str_or name '''' \<noteq> '''' then map_option (team_of_row lib) (find (\<lambda>r. tr_name r = str_or name '''') (ks_teams s))
      else None)"

text \<open>Budgets are replaced even when none are given; a \<open>None\<close> of the other arguments leaves the value.\<close>

record team_update =
  tu_windows :: "budget_window list"
  tu_daily :: pyfloat
  tu_monthly :: pyfloat
  tu_pin :: "pystr option"
  tu_rpm :: "int option"
  tu_tpm :: "int option"
  tu_rpd :: "int option"
  tu_tpd :: "int option"
  tu_models :: "pystr list option option"
  tu_groups :: "pystr list option option"
  tu_signals :: "json list option"

definition change_team :: "key_lib \<Rightarrow> team_update \<Rightarrow> budget_window list \<Rightarrow> team_row \<Rightarrow> team_row" where
  "change_team lib u ws r =
     (let limit = (\<lambda>new old. case new of None \<Rightarrow> old | Some n \<Rightarrow> max 0 n) in
      r\<lparr>tr_windows := windows_json lib ws,
        tr_pin := (if tu_pin u = None then tr_pin r else clean_pin (tu_pin u)),
        tr_rpm := limit (tu_rpm u) (tr_rpm r), tr_tpm := limit (tu_tpm u) (tr_tpm r),
        tr_rpd := limit (tu_rpd u) (tr_rpd r), tr_tpd := limit (tu_tpd u) (tr_tpd r),
        tr_models := (case tu_models u of None \<Rightarrow> tr_models r | Some m \<Rightarrow> coerce_names m),
        tr_groups := (case tu_groups u of None \<Rightarrow> tr_groups r | Some m \<Rightarrow> coerce_names m),
        tr_meta := write_signals (tu_signals u) (tr_meta r)\<rparr>)"

definition update_team :: "key_lib \<Rightarrow> pystr \<Rightarrow> team_update \<Rightarrow> key_store \<Rightarrow> (key_error + team_row) \<times> key_store" where
  "update_team lib tid u s =
     (if \<not> ks_enabled s then (Inl StoreDisabled, s)
      else (case team_windows_of (tu_windows u) (tu_daily u) (tu_monthly u) of
          None \<Rightarrow> (Inl BadValue, s)
        | Some ws \<Rightarrow>
            (case find (\<lambda>r. tr_id r = tid) (ks_teams s) of
               None \<Rightarrow> (Inl NoSuchKey, s)
             | Some r \<Rightarrow> (Inr (change_team lib u ws r),
                 s\<lparr>ks_teams := map (\<lambda>x. if tr_id x = tid then change_team lib u ws x else x) (ks_teams s)\<rparr>))))"

definition team_client_ids :: "pystr \<Rightarrow> key_store \<Rightarrow> pystr list" where
  "team_client_ids tid s =
     (if \<not> ks_enabled s then []
      else map (\<lambda>r. str_or (kr_client r) (kr_id r)) (filter (\<lambda>r. kr_team r = Some tid \<and> kr_revoked r = None) (ks_keys s)))"

definition set_team_memberships :: "pystr \<Rightarrow> pystr list \<Rightarrow> key_store \<Rightarrow> key_store" where
  "set_team_memberships subject tids s =
     (let sub = py_strip subject in
      if \<not> ks_enabled s \<or> sub = '''' then s
      else s\<lparr>ks_members := filter (\<lambda>(x, t). x \<noteq> sub) (ks_members s) @ map (Pair sub) (remdups (nonblank_names tids))\<rparr>)"

definition add_team_membership :: "pystr \<Rightarrow> pystr \<Rightarrow> key_store \<Rightarrow> key_store" where
  "add_team_membership subject tid s =
     (let m = (py_strip subject, py_strip tid) in
      if \<not> ks_enabled s \<or> fst m = '''' \<or> snd m = '''' \<or> m \<in> set (ks_members s) then s
      else s\<lparr>ks_members := ks_members s @ [m]\<rparr>)"

definition list_team_memberships :: "pystr \<Rightarrow> key_store \<Rightarrow> pystr list" where
  "list_team_memberships subject s =
     (if \<not> ks_enabled s \<or> py_strip subject = '''' then []
      else sort (map snd (filter (\<lambda>(x, t). x = py_strip subject) (ks_members s))))"

definition is_team_member :: "pystr \<Rightarrow> pystr \<Rightarrow> key_store \<Rightarrow> bool" where
  "is_team_member subject tid s =
     (ks_enabled s \<and> py_strip subject \<noteq> '''' \<and> py_strip tid \<noteq> '''' \<and> (py_strip subject, py_strip tid) \<in> set (ks_members s))"

section \<open>Issuing and resolving\<close>

definition key_of_row :: "key_lib \<Rightarrow> key_store \<Rightarrow> key_row \<Rightarrow> virtual_key" where
  "key_of_row lib s r =
     (let ws = parse_windows lib (kr_windows r); m = kr_meta r in
      \<lparr>vk_id = kr_id r, vk_name = kr_name r, vk_prefix = kr_prefix r, vk_daily = kr_daily r, vk_monthly = kr_monthly r,
       vk_rpm = kr_rpm r, vk_tpm = kr_tpm r, vk_rpd = kr_rpd r, vk_tpd = max 0 (kr_tpd r), vk_tier_cap = kr_tier_cap r,
       vk_client = kr_client r, vk_revoked = (kr_revoked r \<noteq> None), vk_team = kr_team r,
       vk_team_name = (case kr_team r of None \<Rightarrow> None | Some t \<Rightarrow> map_option tr_name (find (\<lambda>x. tr_id x = t) (ks_teams s))),
       vk_windows = (if ws \<noteq> [] then ws else windows_from_flat (kr_daily r) (kr_monthly r)), vk_meta = m,
       vk_expires = kr_expires r, vk_prev_expires = kr_prev_expires r, vk_user_cap = kr_user_cap r,
       vk_user_rpd = max 0 (kr_user_rpd r), vk_user_tpd = max 0 (kr_user_tpd r),
       vk_pin = clean_pin (Some (meta_text lib m ''region_pin'')), vk_models = kr_models r, vk_groups = kr_groups r,
       vk_cache_scope = coerce_cache_scope (Some (kr_scope r)),
       vk_priority = normalize_priority (Some (meta_text lib m ''priority'')), vk_last_used = kr_last_used r,
       vk_max_in_flight = max_in_flight_from_meta m, vk_service_tiers = tiers_from_meta (kl_json lib) (JObj m),
       vk_degrade = degrade_from_meta (JObj m)\<rparr>)"

definition owns_hash :: "pystr \<Rightarrow> key_row \<Rightarrow> bool" where
  "owns_hash h r = (kr_hash r = h \<or> kr_prev_hash r = Some h)"

text \<open>With the previous secret the key carries the end of the grace as its expiry.\<close>

definition resolve_key :: "key_lib \<Rightarrow> (pystr \<Rightarrow> pystr) \<Rightarrow> pystr \<Rightarrow> key_store \<Rightarrow> virtual_key option" where
  "resolve_key lib digest secret s =
     (let h = digest secret in
      if \<not> ks_enabled s \<or> secret = '''' then None
      else (case find (owns_hash h) (ks_keys s) of
          None \<Rightarrow> None
        | Some r \<Rightarrow>
            (if kr_revoked r \<noteq> None then None
             else Some ((key_of_row lib s r)
               \<lparr>vk_expires := (if kr_prev_hash r = Some h \<and> h \<noteq> '''' then kr_prev_expires r else kr_expires r),
                vk_prev_expires := (if h = kr_hash r then kr_prev_expires r else None)\<rparr>))))"

text \<open>The row \<open>create\<close> inserts; \<open>secret\<close> is \<open>dk_\<close> and a fresh token.\<close>

definition row_of_spec ::
    "key_lib \<Rightarrow> (pystr \<Rightarrow> pystr) \<Rightarrow> pystr \<Rightarrow> pystr \<Rightarrow> int \<Rightarrow> key_spec \<Rightarrow> pystr option \<Rightarrow> pystr option \<Rightarrow>
     budget_window list \<Rightarrow> pystr \<Rightarrow> key_row" where
  "row_of_spec lib digest secret kid now sp tid expires ws scope =
     \<lparr>kr_hash = digest secret, kr_id = kid, kr_name = ns_name sp, kr_prefix = take 10 secret, kr_created = kl_iso lib now,
      kr_revoked = None, kr_expires = expires, kr_daily = ns_daily sp, kr_monthly = ns_monthly sp, kr_rpm = ns_rpm sp,
      kr_tpm = ns_tpm sp, kr_rpd = max 0 (ns_rpd sp), kr_tpd = max 0 (ns_tpd sp), kr_tier_cap = ns_tier_cap sp,
      kr_client = ns_client sp, kr_team = tid, kr_windows = windows_json lib ws, kr_meta = key_meta lib sp,
      kr_user_cap = ns_user_cap sp, kr_user_rpd = max 0 (ns_user_rpd sp), kr_user_tpd = max 0 (ns_user_tpd sp),
      kr_prev_hash = None, kr_prev_prefix = None, kr_prev_expires = None, kr_pin = clean_pin (ns_pin sp),
      kr_models = coerce_names (ns_models sp), kr_groups = coerce_names (ns_groups sp), kr_scope = scope,
      kr_priority = normalize_priority (Some (ns_priority sp)), kr_last_used = None\<rparr>"

definition team_for_key ::
    "key_lib \<Rightarrow> pystr \<Rightarrow> int \<Rightarrow> pystr option \<Rightarrow> key_store \<Rightarrow> (key_error + team option) \<times> key_store" where
  "team_for_key lib tid now name s =
     (if str_or name '''' = '''' then (Inr None, s)
      else (case create_team lib tid now (no_spec (str_or name '''')) s of (r, s') \<Rightarrow> (map_sum id Some r, s')))"

definition created_key :: "key_lib \<Rightarrow> key_spec \<Rightarrow> budget_window list \<Rightarrow> team option \<Rightarrow> key_row \<Rightarrow> virtual_key" where
  "created_key lib sp ws tm r =
     \<lparr>vk_id = kr_id r, vk_name = kr_name r, vk_prefix = kr_prefix r, vk_daily = kr_daily r, vk_monthly = kr_monthly r,
      vk_rpm = kr_rpm r, vk_tpm = kr_tpm r, vk_rpd = kr_rpd r, vk_tpd = kr_tpd r, vk_tier_cap = kr_tier_cap r,
      vk_client = kr_client r, vk_revoked = False, vk_team = kr_team r, vk_team_name = map_option tm_name tm,
      vk_windows = ws, vk_meta = kr_meta r, vk_expires = kr_expires r, vk_prev_expires = None, vk_user_cap = kr_user_cap r,
      vk_user_rpd = kr_user_rpd r, vk_user_tpd = kr_user_tpd r, vk_pin = kr_pin r, vk_models = kr_models r,
      vk_groups = kr_groups r, vk_cache_scope = kr_scope r, vk_priority = kr_priority r, vk_last_used = None,
      vk_max_in_flight = max 0 (ns_max_in_flight sp), vk_service_tiers = coerce_tiers (ns_tiers sp),
      vk_degrade = ns_degrade sp\<rparr>"

definition create_key ::
    "key_lib \<Rightarrow> (pystr \<Rightarrow> pystr) \<Rightarrow> pystr \<Rightarrow> pystr \<Rightarrow> pystr \<Rightarrow> int \<Rightarrow> key_spec \<Rightarrow> key_store \<Rightarrow>
     (key_error + virtual_key) \<times> key_store" where
  "create_key lib digest secret kid tid now sp s =
     (if \<not> ks_enabled s then (Inl StoreDisabled, s)
      else (case expiry_from lib now (ns_expires sp) of
          Inl _ \<Rightarrow> (Inl BadValue, s)
        | Inr expires \<Rightarrow>
            (case team_for_key lib tid now (ns_team sp) s of
               (Inl e, s1) \<Rightarrow> (Inl e, s1)
             | (Inr tm, s1) \<Rightarrow>
                 (case (coalesce_windows (ns_windows sp @ windows_from_flat (ns_daily sp) (ns_monthly sp)),
                        normalize_cache_scope (Some (ns_scope sp))) of
                    (Some ws, Some scope) \<Rightarrow>
                      (let r = row_of_spec lib digest secret kid now sp (map_option tm_id tm) expires ws scope in
                       if \<exists>x \<in> set (ks_keys s1). kr_hash x = kr_hash r \<or> kr_id x = kid then (Inl HashConflict, s1)
                       else (Inr (created_key lib sp ws tm r), s1\<lparr>ks_keys := ks_keys s1 @ [r]\<rparr>))
                  | _ \<Rightarrow> (Inl BadValue, s1)))))"

section \<open>Changing keys\<close>

definition active_row :: "pystr \<Rightarrow> key_row \<Rightarrow> bool" where
  "active_row kid r = (kr_id r = kid \<and> kr_revoked r = None)"

text \<open>\<open>UPDATE .. WHERE key_id = ? AND revoked_at IS NULL\<close>, and whether a row was there.\<close>

definition update_active :: "pystr \<Rightarrow> (key_row \<Rightarrow> key_row) \<Rightarrow> key_store \<Rightarrow> bool \<times> key_store" where
  "update_active kid f s =
     (if \<not> ks_enabled s then (False, s)
      else (list_ex (active_row kid) (ks_keys s),
            s\<lparr>ks_keys := map (\<lambda>r. if active_row kid r then f r else r) (ks_keys s)\<rparr>))"

record limits =
  li_daily :: pyfloat
  li_monthly :: pyfloat
  li_rpm :: int
  li_tpm :: int
  li_tier_cap :: "pystr option"
  li_team :: "pystr option"
  li_windows :: "budget_window list"
  li_meta :: metadata
  li_user_cap :: "pyfloat option"

definition set_limits :: "key_lib \<Rightarrow> limits \<Rightarrow> pystr option \<Rightarrow> budget_window list \<Rightarrow> key_row \<Rightarrow> key_row" where
  "set_limits lib li tid ws r =
     r\<lparr>kr_daily := li_daily li, kr_monthly := li_monthly li, kr_rpm := li_rpm li, kr_tpm := li_tpm li,
       kr_tier_cap := li_tier_cap li, kr_team := tid, kr_windows := windows_json lib ws, kr_meta := li_meta li,
       kr_user_cap := (case li_user_cap li of None \<Rightarrow> kr_user_cap r | Some c \<Rightarrow> c)\<rparr>"

definition update_limits ::
    "key_lib \<Rightarrow> pystr \<Rightarrow> int \<Rightarrow> pystr \<Rightarrow> limits \<Rightarrow> key_store \<Rightarrow> (key_error + bool) \<times> key_store" where
  "update_limits lib tid now kid li s =
     (if \<not> ks_enabled s then (Inr False, s)
      else (case team_for_key lib tid now (li_team li) s of
          (Inl e, s1) \<Rightarrow> (Inl e, s1)
        | (Inr tm, s1) \<Rightarrow>
            (case coalesce_windows (li_windows li @ windows_from_flat (li_daily li) (li_monthly li)) of
               None \<Rightarrow> (Inl BadValue, s1)
             | Some ws \<Rightarrow> (case update_active kid (set_limits lib li (map_option tm_id tm) ws) s1 of
                 (ok, s2) \<Rightarrow> (Inr ok, s2)))))"

definition update_rpd :: "pystr \<Rightarrow> int \<Rightarrow> key_store \<Rightarrow> bool \<times> key_store" where
  "update_rpd kid n = update_active kid (\<lambda>r. r\<lparr>kr_rpd := max 0 n\<rparr>)"

definition update_user_rpd :: "pystr \<Rightarrow> int \<Rightarrow> key_store \<Rightarrow> bool \<times> key_store" where
  "update_user_rpd kid n = update_active kid (\<lambda>r. r\<lparr>kr_user_rpd := max 0 n\<rparr>)"

definition update_tpd :: "pystr \<Rightarrow> int \<Rightarrow> key_store \<Rightarrow> bool \<times> key_store" where
  "update_tpd kid n = update_active kid (\<lambda>r. r\<lparr>kr_tpd := max 0 n\<rparr>)"

definition update_user_tpd :: "pystr \<Rightarrow> int \<Rightarrow> key_store \<Rightarrow> bool \<times> key_store" where
  "update_user_tpd kid n = update_active kid (\<lambda>r. r\<lparr>kr_user_tpd := max 0 n\<rparr>)"

text \<open>\<open>None\<close> leaves a side unchanged, \<open>Some None\<close> clears it.\<close>

definition update_model_access ::
    "pystr \<Rightarrow> pystr list option option \<Rightarrow> pystr list option option \<Rightarrow> key_store \<Rightarrow> bool \<times> key_store" where
  "update_model_access kid models groups =
     update_active kid (\<lambda>r. r\<lparr>kr_models := (case models of None \<Rightarrow> kr_models r | Some m \<Rightarrow> coerce_names m),
                              kr_groups := (case groups of None \<Rightarrow> kr_groups r | Some m \<Rightarrow> coerce_names m)\<rparr>)"

definition update_service_tier_access ::
    "pystr \<Rightarrow> pystr list option option \<Rightarrow> bool option \<Rightarrow> key_store \<Rightarrow> bool \<times> key_store" where
  "update_service_tier_access kid tiers degrade =
     update_active kid (\<lambda>r. r\<lparr>kr_meta := write_tiers_to_meta (kr_meta r) tiers degrade\<rparr>)"

definition update_signal_overrides :: "pystr \<Rightarrow> json list \<Rightarrow> key_store \<Rightarrow> bool \<times> key_store" where
  "update_signal_overrides kid rules = update_active kid (\<lambda>r. r\<lparr>kr_meta := write_signals (Some rules) (kr_meta r)\<rparr>)"

definition update_team_signal_overrides :: "pystr \<Rightarrow> json list \<Rightarrow> key_store \<Rightarrow> bool \<times> key_store" where
  "update_team_signal_overrides tid rules s =
     (if \<not> ks_enabled s then (False, s)
      else (list_ex (\<lambda>r. tr_id r = tid) (ks_teams s),
            s\<lparr>ks_teams := map (\<lambda>r. if tr_id r = tid then r\<lparr>tr_meta := write_signals (Some rules) (tr_meta r)\<rparr> else r) (ks_teams s)\<rparr>))"

definition add_boost :: "metadata \<Rightarrow> metadata \<Rightarrow> metadata" where
  "add_boost boost m = AList.update ''budget_boosts''
     (JList ((case obj_get m ''budget_boosts'' of JList xs \<Rightarrow> xs | _ \<Rightarrow> []) @ [JObj boost])) m"

text \<open>\<open>Inl\<close>: a ValueError; \<open>Inr None\<close>: no such key.\<close>

definition grant_budget_boost ::
    "key_lib \<Rightarrow> pystr \<Rightarrow> int \<Rightarrow> pystr \<Rightarrow> pyfloat \<Rightarrow> int \<Rightarrow> pystr \<Rightarrow> key_store \<Rightarrow> (key_error + metadata option) \<times> key_store" where
  "grant_budget_boost lib fresh now kid usd requests until_text s =
     (if \<not> ks_enabled s then (Inr None, s)
      else (case make_budget_boost lib fresh now usd requests until_text of
          None \<Rightarrow> (Inl BadValue, s)
        | Some b \<Rightarrow> (case update_active kid (\<lambda>r. r\<lparr>kr_meta := add_boost b (kr_meta r)\<rparr>) s of
            (ok, s') \<Rightarrow> (Inr (if ok then Some b else None), s'))))"

definition grant_team_budget_boost ::
    "key_lib \<Rightarrow> pystr \<Rightarrow> int \<Rightarrow> pystr \<Rightarrow> pyfloat \<Rightarrow> int \<Rightarrow> pystr \<Rightarrow> key_store \<Rightarrow> (key_error + metadata option) \<times> key_store" where
  "grant_team_budget_boost lib fresh now tid usd requests until_text s =
     (if \<not> ks_enabled s then (Inr None, s)
      else (case make_budget_boost lib fresh now usd requests until_text of
          None \<Rightarrow> (Inl BadValue, s)
        | Some b \<Rightarrow> (Inr (if list_ex (\<lambda>r. tr_id r = tid) (ks_teams s) then Some b else None),
            s\<lparr>ks_teams := map (\<lambda>r. if tr_id r = tid then r\<lparr>tr_meta := add_boost b (tr_meta r)\<rparr> else r) (ks_teams s)\<rparr>)))"

definition prune_key_budget_boosts :: "key_lib \<Rightarrow> int \<Rightarrow> pystr \<Rightarrow> key_store \<Rightarrow> metadata list \<times> key_store" where
  "prune_key_budget_boosts lib now kid s =
     (if \<not> ks_enabled s then ([], s)
      else (case find (active_row kid) (ks_keys s) of
          None \<Rightarrow> ([], s)
        | Some r \<Rightarrow> (case prune_expired_boosts lib now (kr_meta r) of (m, expired) \<Rightarrow>
            (expired, if expired = [] then s else snd (update_active kid (\<lambda>x. x\<lparr>kr_meta := m\<rparr>) s)))))"

definition revoke_key :: "key_lib \<Rightarrow> int \<Rightarrow> pystr \<Rightarrow> key_store \<Rightarrow> bool \<times> key_store" where
  "revoke_key lib now kid = update_active kid (\<lambda>r. r\<lparr>kr_revoked := Some (kl_iso lib now)\<rparr>)"

definition rotate_row :: "(pystr \<Rightarrow> pystr) \<Rightarrow> pystr \<Rightarrow> pystr \<Rightarrow> key_row \<Rightarrow> key_row" where
  "rotate_row digest secret grace r =
     r\<lparr>kr_hash := digest secret, kr_prefix := take 10 secret, kr_prev_hash := Some (kr_hash r),
       kr_prev_prefix := Some (kr_prefix r), kr_prev_expires := Some grace\<rparr>"

definition rotate_key ::
    "key_lib \<Rightarrow> (pystr \<Rightarrow> pystr) \<Rightarrow> pystr \<Rightarrow> int \<Rightarrow> pystr \<Rightarrow> pystr option \<Rightarrow> key_store \<Rightarrow>
     (key_error + key_row) \<times> key_store" where
  "rotate_key lib digest secret now kid grace s =
     (if \<not> ks_enabled s then (Inl StoreDisabled, s)
      else (case grace_from lib now grace of
          Inl _ \<Rightarrow> (Inl BadValue, s)
        | Inr until_text \<Rightarrow>
            (case find (active_row kid) (ks_keys s) of
               None \<Rightarrow> (Inl NoSuchKey, s)
             | Some r \<Rightarrow>
                 (if \<exists>x \<in> set (ks_keys s). kr_hash x = digest secret then (Inl HashConflict, s)
                  else (Inr (rotate_row digest secret until_text r),
                        snd (update_active kid (rotate_row digest secret until_text) s))))))"

text \<open>A stamp at most once in \<open>min_interval\<close> microseconds and process.\<close>

definition touch_last_used :: "key_lib \<Rightarrow> int \<Rightarrow> int \<Rightarrow> pystr \<Rightarrow> key_store \<Rightarrow> bool \<times> key_store" where
  "touch_last_used lib min_interval now kid s =
     (if \<not> ks_enabled s \<or> kid = '''' then (False, s)
      else if (case map_of (ks_touched s) kid of None \<Rightarrow> False | Some t \<Rightarrow> now - t < min_interval) then (False, s)
      else (case update_active kid (\<lambda>r. r\<lparr>kr_last_used := Some (kl_iso lib now)\<rparr>) s of
          (ok, s') \<Rightarrow> (ok, if ok then s'\<lparr>ks_touched := AList.update kid now (ks_touched s')\<rparr> else s')))"

definition check_rpm :: "pyfloat \<Rightarrow> virtual_key \<Rightarrow> key_store \<Rightarrow> bool \<times> key_store" where
  "check_rpm now k s =
     (let hits = filter (\<lambda>(i, t). \<not> t < now - 60) (ks_hits s);
          n = int (length (filter (\<lambda>(i, t). i = vk_id k \<and> t \<ge> now - 60) hits))
      in if \<not> ks_enabled s \<or> vk_rpm k \<le> 0 then (True, s)
         else if n \<ge> vk_rpm k then (False, s\<lparr>ks_hits := hits\<rparr>)
         else (True, s\<lparr>ks_hits := hits @ [(vk_id k, now)]\<rparr>))"

definition list_keys :: "key_lib \<Rightarrow> key_store \<Rightarrow> virtual_key list" where
  "list_keys lib s = (if \<not> ks_enabled s then [] else map (key_of_row lib s) (rev (ks_keys s)))"

definition get_key :: "key_lib \<Rightarrow> pystr \<Rightarrow> key_store \<Rightarrow> virtual_key option" where
  "get_key lib kid s = (if kid = '''' then None else find (\<lambda>k. vk_id k = kid) (list_keys lib s))"

section \<open>Importing a backup\<close>

text \<open>
  \<open>import_document\<close> writes teams and keys by their ids, in one transaction: whatever raises, no row of the
  document is kept. \<open>sqlt\<close> is SQLite's text of a REAL bound to a TEXT column.
\<close>

definition KEYS_EXPORT_SCHEMA :: int where "KEYS_EXPORT_SCHEMA = 1"

definition schema_known :: "json \<Rightarrow> bool" where
  "schema_known j = (case j of JInt n \<Rightarrow> n = KEYS_EXPORT_SCHEMA | JBool b \<Rightarrow> b | JFloat x t \<Rightarrow> x = of_int KEYS_EXPORT_SCHEMA
     | _ \<Rightarrow> False)"

text \<open>\<open>list(value or [])\<close>; \<open>None\<close>: not iterable.\<close>

definition listed :: "json \<Rightarrow> json list option" where
  "listed j = (if \<not> truthy j then Some []
     else (case j of JList xs \<Rightarrow> Some xs | JObj kvs \<Rightarrow> Some (map (JStr \<circ> fst) kvs) | JStr s \<Rightarrow> Some (map (\<lambda>c. JStr [c]) s)
       | _ \<Rightarrow> None))"

definition is_number :: "json \<Rightarrow> bool" where
  "is_number j = (case j of JBool b \<Rightarrow> True | JInt n \<Rightarrow> True | JFloat x t \<Rightarrow> True | _ \<Rightarrow> False)"

definition windows_payload :: "key_lib \<Rightarrow> json \<Rightarrow> budget_window list option" where
  "windows_payload lib raw =
     (if \<not> truthy raw then Some []
      else (case raw of
          JStr s \<Rightarrow> (case jl_loads (kl_json lib) s of None \<Rightarrow> Some []
            | Some p \<Rightarrow> (if truthy p \<and> is_number p then None else Some (parse_windows lib p)))
        | JList xs \<Rightarrow> Some (parse_windows lib raw)
        | _ \<Rightarrow> Some []))"

text \<open>A text column: what is written, whether it can be bound at all, and whether a column holds it already.\<close>

definition sql_text :: "(pyfloat \<Rightarrow> pystr) \<Rightarrow> json \<Rightarrow> pystr option" where
  "sql_text sqlt j = (case j of JStr s \<Rightarrow> Some s | JInt n \<Rightarrow> Some (str_of_int n) | JBool b \<Rightarrow> Some (if b then ''1'' else ''0'')
     | JFloat x t \<Rightarrow> Some (sqlt x) | _ \<Rightarrow> None)"

definition sql_int :: "int \<Rightarrow> bool" where
  "sql_int n = (- (2 ^ 63) \<le> n \<and> n < 2 ^ 63)"

definition bindable :: "json \<Rightarrow> bool" where
  "bindable j = (case j of JList xs \<Rightarrow> False | JObj kvs \<Rightarrow> False | JInt n \<Rightarrow> sql_int n | _ \<Rightarrow> True)"

definition same_column :: "json \<Rightarrow> pystr option \<Rightarrow> bool" where
  "same_column j x = (case j of JNull \<Rightarrow> x = None | JStr s \<Rightarrow> x = Some s | _ \<Rightarrow> False)"

definition pin_field :: "metadata \<Rightarrow> json" where
  "pin_field kvs = (case obj_get kvs ''region_pin'' of
     JStr s \<Rightarrow> (if py_strip s = '''' then JNull else JStr (py_strip s)) | j \<Rightarrow> (if truthy j then j else JNull))"

definition created_field :: "key_lib \<Rightarrow> int \<Rightarrow> metadata \<Rightarrow> json" where
  "created_field lib now kvs = json_or (obj_get kvs ''created_at'') (JStr (kl_iso lib now))"

definition object_field :: "metadata \<Rightarrow> metadata" where
  "object_field kvs = (case obj_get kvs ''metadata'' of JObj m \<Rightarrow> m | _ \<Rightarrow> [])"

text \<open>\<open>None\<close>: a truthy value that is no text has no \<open>strip\<close>.\<close>

definition scope_field :: "metadata \<Rightarrow> pystr option" where
  "scope_field kvs = (let j = obj_get kvs ''cache_scope'' in
     if \<not> truthy j then Some ''global'' else (case j of JStr s \<Rightarrow> Some s | _ \<Rightarrow> None))"

definition int_field :: "metadata \<Rightarrow> pystr \<Rightarrow> int" where
  "int_field kvs name = (case int_or 0 (obj_get kvs name) of None \<Rightarrow> 0 | Some n \<Rightarrow> max 0 n)"

definition float_field :: "key_lib \<Rightarrow> metadata \<Rightarrow> pystr \<Rightarrow> pyfloat" where
  "float_field lib kvs name = (case float_or lib 0 (obj_get kvs name) of None \<Rightarrow> 0 | Some x \<Rightarrow> x)"

definition ints_readable :: "pystr list \<Rightarrow> metadata \<Rightarrow> bool" where
  "ints_readable names kvs = list_all (\<lambda>n. int_or 0 (obj_get kvs n) \<noteq> None) names"

definition ints_fit :: "pystr list \<Rightarrow> metadata \<Rightarrow> bool" where
  "ints_fit names kvs = list_all (\<lambda>n. sql_int (int_field kvs n)) names"

definition TEAM_INTS :: "pystr list" where "TEAM_INTS = [''rpm'', ''tpm'', ''rpd'', ''tpd'']"
definition KEY_INTS :: "pystr list" where "KEY_INTS = [''rpm'', ''tpm'', ''rpd'', ''user_rpd'', ''tpd'', ''user_tpd'']"

definition KEY_TEXTS :: "pystr list" where
  "KEY_TEXTS = [''revoked_at'', ''expires_at'', ''tier_cap'', ''client_id'', ''team_id'', ''previous_key_hash'',
     ''previous_prefix'', ''previous_expires_at'']"

text \<open>Equality of Python values: the members of a dict in any order, numbers by value.\<close>

primrec plain_json :: "json \<Rightarrow> json" where
  "plain_json JNull = JNull"
| "plain_json (JBool b) = JInt (if b then 1 else 0)"
| "plain_json (JInt n) = JInt n"
| "plain_json (JFloat x t) = (if of_int (floor x) = x then JInt (floor x) else JFloat x [])"
| "plain_json (JStr s) = JStr s"
| "plain_json (JList xs) = JList (map plain_json xs)"
| "plain_json (JObj kvs) = JObj (sort_key fst (map (map_prod id plain_json) kvs))"

definition json_eq :: "json \<Rightarrow> json \<Rightarrow> bool" where
  "json_eq a b = (plain_json a = plain_json b)"

subsection \<open>One team\<close>

record import_count =
  ic_created :: nat
  ic_updated :: nat
  ic_skipped :: nat

definition team_entry_ok :: "key_lib \<Rightarrow> metadata \<Rightarrow> bool" where
  "team_entry_ok lib kvs = (meta_text lib kvs ''team_id'' \<noteq> [] \<and> meta_text lib kvs ''name'' \<noteq> [] \<and> ints_readable TEAM_INTS kvs)"

definition team_of_entry :: "key_lib \<Rightarrow> (pyfloat \<Rightarrow> pystr) \<Rightarrow> int \<Rightarrow> metadata \<Rightarrow> budget_window list \<Rightarrow> pystr \<Rightarrow> team_row" where
  "team_of_entry lib sqlt now kvs ws scope =
     \<lparr>tr_id = meta_text lib kvs ''team_id'', tr_name = meta_text lib kvs ''name'', tr_windows = windows_json lib ws,
      tr_created = str_or (sql_text sqlt (created_field lib now kvs)) [], tr_pin = sql_text sqlt (pin_field kvs),
      tr_rpm = int_field kvs ''rpm'', tr_tpm = int_field kvs ''tpm'', tr_rpd = int_field kvs ''rpd'', tr_tpd = int_field kvs ''tpd'',
      tr_models = decode_names (kl_json lib) (obj_get kvs ''allowed_models''),
      tr_groups = decode_names (kl_json lib) (obj_get kvs ''model_groups''), tr_scope = coerce_cache_scope (Some scope),
      tr_priority = normalize_priority (Some (meta_text lib kvs ''priority'')), tr_meta = object_field kvs\<rparr>"

definition same_team :: "key_lib \<Rightarrow> metadata \<Rightarrow> team_row \<Rightarrow> team_row \<Rightarrow> bool" where
  "same_team lib kvs r old =
     (tr_name old = tr_name r \<and> windows_json lib (parse_windows lib (tr_windows old)) = tr_windows r
      \<and> same_column (pin_field kvs) (tr_pin old) \<and> tr_rpm old = tr_rpm r \<and> tr_tpm old = tr_tpm r \<and> tr_models old = tr_models r
      \<and> tr_groups old = tr_groups r \<and> tr_rpd old = tr_rpd r \<and> coerce_cache_scope (Some (tr_scope old)) = tr_scope r
      \<and> normalize_priority (Some (tr_priority old)) = tr_priority r \<and> json_eq (JObj (tr_meta old)) (JObj (tr_meta r))
      \<and> tr_tpd old = tr_tpd r)"

text \<open>\<open>None\<close>: an exception.\<close>

definition import_team ::
    "key_lib \<Rightarrow> (pyfloat \<Rightarrow> pystr) \<Rightarrow> int \<Rightarrow> bool \<Rightarrow> json \<Rightarrow> key_store \<times> import_count \<Rightarrow> (key_store \<times> import_count) option" where
  "import_team lib sqlt now dry item st =
     (case (item, st) of
        (JObj kvs, (s, n)) \<Rightarrow>
          (case (windows_payload lib (obj_get kvs ''budget_windows''), scope_field kvs) of
             (Some ws, Some scope) \<Rightarrow>
               (let r = team_of_entry lib sqlt now kvs ws scope;
                    writable = (bindable (pin_field kvs) \<and> ints_fit TEAM_INTS kvs);
                    taken = (\<exists>x \<in> set (ks_teams s). tr_id x \<noteq> tr_id r \<and> tr_name x = tr_name r)
                in if \<not> team_entry_ok lib kvs then None
                   else (case find (\<lambda>x. tr_id x = tr_id r) (ks_teams s) of
                       None \<Rightarrow>
                         (if dry then Some (s, n\<lparr>ic_created := ic_created n + 1\<rparr>)
                          else if \<not> writable \<or> \<not> bindable (created_field lib now kvs) \<or> taken then None
                          else Some (s\<lparr>ks_teams := ks_teams s @ [r]\<rparr>, n\<lparr>ic_created := ic_created n + 1\<rparr>))
                     | Some old \<Rightarrow>
                         (if same_team lib kvs r old then Some (s, n\<lparr>ic_skipped := ic_skipped n + 1\<rparr>)
                          else if dry then Some (s, n\<lparr>ic_updated := ic_updated n + 1\<rparr>)
                          else if \<not> writable \<or> taken then None
                          else Some (s\<lparr>ks_teams := map (\<lambda>x. if tr_id x = tr_id r then r\<lparr>tr_created := tr_created x\<rparr> else x) (ks_teams s)\<rparr>,
                                     n\<lparr>ic_updated := ic_updated n + 1\<rparr>))))
           | _ \<Rightarrow> None)
      | _ \<Rightarrow> None)"

subsection \<open>One key\<close>

definition key_entry_ok :: "key_lib \<Rightarrow> metadata \<Rightarrow> bool" where
  "key_entry_ok lib kvs =
     (list_all (\<lambda>n. meta_text lib kvs n \<noteq> []) [''key_id'', ''key_hash'', ''name'', ''prefix''] \<and> ints_readable KEY_INTS kvs
      \<and> list_all (\<lambda>n. float_or lib 0 (obj_get kvs n) \<noteq> None) [''daily_budget_usd'', ''monthly_budget_usd'', ''user_daily_usd_cap''])"

text \<open>The team is copied as it stands, whether it exists or not, and so are the moments of revocation and expiry.\<close>

definition key_of_entry :: "key_lib \<Rightarrow> (pyfloat \<Rightarrow> pystr) \<Rightarrow> int \<Rightarrow> metadata \<Rightarrow> budget_window list \<Rightarrow> pystr \<Rightarrow> key_row" where
  "key_of_entry lib sqlt now kvs ws scope =
     (let column = (\<lambda>n. sql_text sqlt (obj_get kvs n)); prio = normalize_priority (Some (meta_text lib kvs ''priority''));
          m = object_field kvs; used = obj_get kvs ''last_used_at'';
          stamp = (if used = JNull then [] else py_strip (jl_str (kl_json lib) used))
      in \<lparr>kr_hash = meta_text lib kvs ''key_hash'', kr_id = meta_text lib kvs ''key_id'', kr_name = meta_text lib kvs ''name'',
          kr_prefix = meta_text lib kvs ''prefix'', kr_created = str_or (sql_text sqlt (created_field lib now kvs)) [],
          kr_revoked = column ''revoked_at'', kr_expires = column ''expires_at'', kr_daily = float_field lib kvs ''daily_budget_usd'',
          kr_monthly = float_field lib kvs ''monthly_budget_usd'', kr_rpm = int_field kvs ''rpm'', kr_tpm = int_field kvs ''tpm'',
          kr_rpd = int_field kvs ''rpd'', kr_tpd = int_field kvs ''tpd'', kr_tier_cap = column ''tier_cap'',
          kr_client = column ''client_id'', kr_team = column ''team_id'', kr_windows = windows_json lib ws,
          kr_meta = put_meta (map_of m ''priority'' \<noteq> None \<or> prio \<noteq> ''normal'') ''priority'' (JStr prio) m,
          kr_user_cap = float_field lib kvs ''user_daily_usd_cap'', kr_user_rpd = int_field kvs ''user_rpd'',
          kr_user_tpd = int_field kvs ''user_tpd'', kr_prev_hash = column ''previous_key_hash'',
          kr_prev_prefix = column ''previous_prefix'', kr_prev_expires = column ''previous_expires_at'',
          kr_pin = sql_text sqlt (pin_field kvs), kr_models = decode_names (kl_json lib) (obj_get kvs ''allowed_models''),
          kr_groups = decode_names (kl_json lib) (obj_get kvs ''model_groups''), kr_scope = scope, kr_priority = prio,
          kr_last_used = (if stamp = [] then None else Some stamp)\<rparr>)"

definition same_key :: "key_lib \<Rightarrow> metadata \<Rightarrow> key_row \<Rightarrow> key_row \<Rightarrow> bool" where
  "same_key lib kvs r old =
     (kr_hash old = kr_hash r \<and> kr_name old = kr_name r \<and> kr_prefix old = kr_prefix r
      \<and> list_all (\<lambda>(n, column). same_column (obj_get kvs n) (column old)) (zip KEY_TEXTS
          [kr_revoked, kr_expires, kr_tier_cap, kr_client, kr_team, kr_prev_hash, kr_prev_prefix, kr_prev_expires])
      \<and> kr_daily old = kr_daily r \<and> kr_monthly old = kr_monthly r \<and> kr_rpm old = kr_rpm r \<and> kr_tpm old = kr_tpm r
      \<and> windows_json lib (parse_windows lib (kr_windows old)) = kr_windows r
      \<and> jl_dumps (kl_json lib) (JObj (kr_meta old)) = jl_dumps (kl_json lib) (JObj (kr_meta r))
      \<and> kr_user_cap old = kr_user_cap r \<and> same_column (pin_field kvs) (kr_pin old) \<and> kr_models old = kr_models r
      \<and> kr_groups old = kr_groups r \<and> kr_rpd old = kr_rpd r \<and> coerce_cache_scope (Some (kr_scope old)) = kr_scope r
      \<and> normalize_priority (Some (kr_priority old)) = kr_priority r \<and> kr_last_used old = kr_last_used r
      \<and> kr_user_rpd old = kr_user_rpd r \<and> kr_tpd old = kr_tpd r \<and> kr_user_tpd old = kr_user_tpd r)"

definition import_key ::
    "key_lib \<Rightarrow> (pyfloat \<Rightarrow> pystr) \<Rightarrow> int \<Rightarrow> bool \<Rightarrow> json \<Rightarrow> key_store \<times> import_count \<Rightarrow> (key_store \<times> import_count) option" where
  "import_key lib sqlt now dry item st =
     (case (item, st) of
        (JObj kvs, (s, n)) \<Rightarrow>
          (case (windows_payload lib (obj_get kvs ''budget_windows''), Option.bind (scope_field kvs) (normalize_cache_scope \<circ> Some)) of
             (Some ws, Some scope) \<Rightarrow>
               (let r = key_of_entry lib sqlt now kvs ws scope;
                    writable = (list_all (\<lambda>f. bindable (obj_get kvs f)) KEY_TEXTS \<and> bindable (pin_field kvs) \<and> ints_fit KEY_INTS kvs);
                    taken = (\<exists>x \<in> set (ks_keys s). kr_id x \<noteq> kr_id r \<and> kr_hash x = kr_hash r)
                in if \<not> key_entry_ok lib kvs then None
                   else (case find (\<lambda>x. kr_id x = kr_id r) (ks_keys s) of
                       None \<Rightarrow>
                         (if dry then Some (s, n\<lparr>ic_created := ic_created n + 1\<rparr>)
                          else if \<not> writable \<or> \<not> bindable (created_field lib now kvs) \<or> taken then None
                          else Some (s\<lparr>ks_keys := ks_keys s @ [r]\<rparr>, n\<lparr>ic_created := ic_created n + 1\<rparr>))
                     | Some old \<Rightarrow>
                         (if same_key lib kvs r old then Some (s, n\<lparr>ic_skipped := ic_skipped n + 1\<rparr>)
                          else if dry then Some (s, n\<lparr>ic_updated := ic_updated n + 1\<rparr>)
                          else if \<not> writable \<or> taken then None
                          else Some (s\<lparr>ks_keys := map (\<lambda>x. if kr_id x = kr_id r then r\<lparr>kr_created := kr_created x\<rparr> else x) (ks_keys s)\<rparr>,
                                     n\<lparr>ic_updated := ic_updated n + 1\<rparr>))))
           | _ \<Rightarrow> None)
      | _ \<Rightarrow> None)"

subsection \<open>The document\<close>

primrec import_each :: "(json \<Rightarrow> 'a \<Rightarrow> 'a option) \<Rightarrow> json list \<Rightarrow> 'a \<Rightarrow> 'a option" where
  "import_each f [] st = Some st"
| "import_each f (x # xs) st = Option.bind (f x st) (import_each f xs)"

definition no_count :: import_count where
  "no_count = \<lparr>ic_created = 0, ic_updated = 0, ic_skipped = 0\<rparr>"

text \<open>What was done with the teams and with the keys.\<close>

definition import_document ::
    "key_lib \<Rightarrow> (pyfloat \<Rightarrow> pystr) \<Rightarrow> int \<Rightarrow> bool \<Rightarrow> json \<Rightarrow> key_store \<Rightarrow>
     (key_error + import_count \<times> import_count) \<times> key_store" where
  "import_document lib sqlt now dry doc s =
     (if \<not> ks_enabled s then (Inl StoreDisabled, s)
      else (case doc of
          JObj kvs \<Rightarrow>
            (if \<not> schema_known (obj_get kvs ''schema'') then (Inl BadValue, s)
             else (case (listed (obj_get kvs ''teams''), listed (obj_get kvs ''keys'')) of
                 (Some teams, Some keys) \<Rightarrow>
                   (case import_each (import_team lib sqlt now dry) teams (s, no_count) of
                      None \<Rightarrow> (Inl BadValue, s)
                    | Some (s1, tn) \<Rightarrow>
                        (case import_each (import_key lib sqlt now dry) keys (s1, no_count) of
                           None \<Rightarrow> (Inl BadValue, s)
                         | Some (s2, kn) \<Rightarrow> (Inr (tn, kn), s2)))
               | _ \<Rightarrow> (Inl BadValue, s)))
        | _ \<Rightarrow> (Inl BadValue, s)))"

text \<open>The key ids a document writes.\<close>

definition document_keys :: "key_lib \<Rightarrow> json \<Rightarrow> pystr list" where
  "document_keys lib doc = (case doc of
     JObj kvs \<Rightarrow> (case listed (obj_get kvs ''keys'') of None \<Rightarrow> []
       | Some xs \<Rightarrow> List.map_filter (\<lambda>x. case x of JObj f \<Rightarrow> Some (meta_text lib f ''key_id'') | _ \<Rightarrow> None) xs)
   | _ \<Rightarrow> [])"

section \<open>Runs\<close>

datatype key_op =
    OpCreateTeam pystr int key_spec
  | OpUpdateTeam pystr team_update
  | OpTeamSignals pystr "json list"
  | OpTeamBoost pystr int pystr pyfloat int pystr
  | OpMemberships pystr "pystr list"
  | OpMembership pystr pystr
  | OpCreate pystr pystr pystr int key_spec
  | OpLimits pystr int pystr limits
  | OpRpd pystr int
  | OpUserRpd pystr int
  | OpTpd pystr int
  | OpUserTpd pystr int
  | OpModels pystr "pystr list option option" "pystr list option option"
  | OpTiers pystr "pystr list option option" "bool option"
  | OpSignals pystr "json list"
  | OpBoost pystr int pystr pyfloat int pystr
  | OpPrune int pystr
  | OpRevoke int pystr
  | OpRotate pystr int pystr "pystr option"
  | OpTouch int int pystr
  | OpCheckRpm pyfloat virtual_key
  | OpImport "pyfloat \<Rightarrow> pystr" int bool json

primrec store_step :: "key_lib \<Rightarrow> (pystr \<Rightarrow> pystr) \<Rightarrow> key_op \<Rightarrow> key_store \<Rightarrow> key_store" where
  "store_step lib digest (OpCreateTeam tid now sp) s = snd (create_team lib tid now sp s)"
| "store_step lib digest (OpUpdateTeam tid u) s = snd (update_team lib tid u s)"
| "store_step lib digest (OpTeamSignals tid rules) s = snd (update_team_signal_overrides tid rules s)"
| "store_step lib digest (OpTeamBoost fresh now tid usd n u) s = snd (grant_team_budget_boost lib fresh now tid usd n u s)"
| "store_step lib digest (OpMemberships sub tids) s = set_team_memberships sub tids s"
| "store_step lib digest (OpMembership sub tid) s = add_team_membership sub tid s"
| "store_step lib digest (OpCreate secret kid tid now sp) s = snd (create_key lib digest secret kid tid now sp s)"
| "store_step lib digest (OpLimits tid now kid li) s = snd (update_limits lib tid now kid li s)"
| "store_step lib digest (OpRpd kid n) s = snd (update_rpd kid n s)"
| "store_step lib digest (OpUserRpd kid n) s = snd (update_user_rpd kid n s)"
| "store_step lib digest (OpTpd kid n) s = snd (update_tpd kid n s)"
| "store_step lib digest (OpUserTpd kid n) s = snd (update_user_tpd kid n s)"
| "store_step lib digest (OpModels kid m g) s = snd (update_model_access kid m g s)"
| "store_step lib digest (OpTiers kid t d) s = snd (update_service_tier_access kid t d s)"
| "store_step lib digest (OpSignals kid rules) s = snd (update_signal_overrides kid rules s)"
| "store_step lib digest (OpBoost fresh now kid usd n u) s = snd (grant_budget_boost lib fresh now kid usd n u s)"
| "store_step lib digest (OpPrune now kid) s = snd (prune_key_budget_boosts lib now kid s)"
| "store_step lib digest (OpRevoke now kid) s = snd (revoke_key lib now kid s)"
| "store_step lib digest (OpRotate secret now kid grace) s = snd (rotate_key lib digest secret now kid grace s)"
| "store_step lib digest (OpTouch interval now kid) s = snd (touch_last_used lib interval now kid s)"
| "store_step lib digest (OpCheckRpm now k) s = snd (check_rpm now k s)"
| "store_step lib digest (OpImport sqlt now dry doc) s = snd (import_document lib sqlt now dry doc s)"

section \<open>What an operation may do\<close>

definition row_ok :: "key_row \<Rightarrow> bool" where
  "row_ok r = (kr_scope r \<in> {''global'', ''team'', ''key''} \<and> kr_priority r \<in> {''high'', ''normal'', ''low''}
     \<and> 0 \<le> kr_rpd r \<and> 0 \<le> kr_tpd r \<and> 0 \<le> kr_user_rpd r \<and> 0 \<le> kr_user_tpd r)"

definition team_row_ok :: "team_row \<Rightarrow> bool" where
  "team_row_ok r = (tr_scope r \<in> {''global'', ''team'', ''key''} \<and> tr_priority r \<in> {''high'', ''normal'', ''low''}
     \<and> 0 \<le> tr_rpm r \<and> 0 \<le> tr_tpm r \<and> 0 \<le> tr_rpd r \<and> 0 \<le> tr_tpd r)"

text \<open>A change that keeps the identity and the secrets of a row, and names a known team.\<close>

definition keeps_identity :: "team_row list \<Rightarrow> (key_row \<Rightarrow> key_row) \<Rightarrow> bool" where
  "keeps_identity teams f = (\<forall>r. kr_id (f r) = kr_id r \<and> kr_hash (f r) = kr_hash r \<and> kr_prev_hash (f r) = kr_prev_hash r
     \<and> (row_ok r \<longrightarrow> row_ok (f r)) \<and> (kr_team (f r) = kr_team r \<or> kr_team (f r) = None
        \<or> (\<exists>t \<in> set teams. kr_team (f r) = Some (tr_id t))))"

definition keeps_team_identity :: "(team_row \<Rightarrow> team_row) \<Rightarrow> bool" where
  "keeps_team_identity f = (\<forall>r. tr_id (f r) = tr_id r \<and> tr_name (f r) = tr_name r \<and> (team_row_ok r \<longrightarrow> team_row_ok (f r)))"

inductive admin_step :: "key_store \<Rightarrow> key_store \<Rightarrow> bool" where
  aside: "ks_keys s' = ks_keys s \<Longrightarrow> ks_teams s' = ks_teams s \<Longrightarrow>
    (distinct (ks_members s) \<longrightarrow> distinct (ks_members s')) \<Longrightarrow> admin_step s s'"
| new_team: "team_row_ok r \<Longrightarrow> \<forall>x \<in> set (ks_teams s). tr_id x \<noteq> tr_id r \<and> tr_name x \<noteq> tr_name r \<Longrightarrow>
    admin_step s (s\<lparr>ks_teams := ks_teams s @ [r]\<rparr>)"
| edit_teams: "keeps_team_identity f \<Longrightarrow> admin_step s (s\<lparr>ks_teams := map f (ks_teams s)\<rparr>)"
| new_key: "row_ok r \<Longrightarrow> \<forall>x \<in> set (ks_keys s). kr_hash x \<noteq> kr_hash r \<and> kr_id x \<noteq> kr_id r \<Longrightarrow>
    (kr_team r = None \<or> (\<exists>t \<in> set (ks_teams s). kr_team r = Some (tr_id t))) \<Longrightarrow>
    admin_step s (s\<lparr>ks_keys := ks_keys s @ [r]\<rparr>)"
| edit_key: "keeps_identity (ks_teams s) f \<Longrightarrow>
    admin_step s (s\<lparr>ks_keys := map (\<lambda>r. if active_row kid r then f r else r) (ks_keys s)\<rparr>)"
| new_secret: "\<forall>x \<in> set (ks_keys s). kr_hash x \<noteq> digest secret \<Longrightarrow>
    admin_step s (s\<lparr>ks_keys := map (\<lambda>r. if active_row kid r then rotate_row digest secret g r else r) (ks_keys s)\<rparr>)"

inductive_cases admin_stepE: "admin_step s s'"

abbreviation admin_steps :: "key_store \<Rightarrow> key_store \<Rightarrow> bool" where
  "admin_steps \<equiv> admin_step\<^sup>*\<^sup>*"

lemma admin_refl: "admin_step s s"
  by (rule aside) simp_all

lemma update_active_step:
  "keeps_identity (ks_teams s) f \<Longrightarrow> admin_step s (snd (update_active kid f s))"
  by (auto simp: update_active_def admin_refl intro: edit_key)

lemma update_active_steps:
  "keeps_identity (ks_teams s) f \<Longrightarrow> admin_steps s (snd (update_active kid f s))"
  by (rule r_into_rtranclp) (rule update_active_step)

lemma normal_scope: "normalize_cache_scope v = Some x \<Longrightarrow> x \<in> {''global'', ''team'', ''key''}"
  by (auto simp: normalize_cache_scope_def CACHE_SCOPE_RANK_def Let_def split: if_splits)

lemma normal_priority: "normalize_priority v \<in> {''high'', ''normal'', ''low''}"
  by (auto simp: normalize_priority_def PRIORITY_RANK_def Let_def split: if_splits)

lemma create_team_step: "admin_step s (snd (create_team lib tid now sp s))"
proof -
  have "\<forall>x \<in> set (ks_teams s). tr_name x \<noteq> ns_name sp" if "find (\<lambda>r. tr_name r = ns_name sp) (ks_teams s) = None"
    using that by (auto simp: find_None_iff)
  then show ?thesis
    by (auto simp: create_team_def Let_def team_row_ok_def normal_priority [simplified] admin_refl
        dest: normal_scope split: option.splits intro!: new_team)
qed

lemma found_team: "find p xs = Some (r :: team_row) \<Longrightarrow> r \<in> set xs \<and> p r"
  by (auto simp: find_Some_iff)

lemma create_team_known:
  "create_team lib tid now sp s = (Inr t, s') \<Longrightarrow> \<exists>r \<in> set (ks_teams s'). tr_id r = tm_id t"
  by (auto simp: create_team_def Let_def team_of_row_def split: option.splits if_splits dest: found_team)

lemma create_team_keys: "create_team lib tid now sp s = (x, s') \<Longrightarrow> ks_keys s' = ks_keys s \<and> ks_enabled s' = ks_enabled s"
  by (auto simp: create_team_def Let_def split: option.splits if_splits)

lemma team_for_key_steps:
  assumes "team_for_key lib tid now name s = (x, s')"
  shows "admin_steps s s' \<and> ks_keys s' = ks_keys s \<and> ks_enabled s' = ks_enabled s
    \<and> (\<forall>t. x = Inr (Some t) \<longrightarrow> (\<exists>r \<in> set (ks_teams s'). tr_id r = tm_id t))"
proof (cases "str_or name '''' = ''''")
  case True
  then show ?thesis using assms by (auto simp: team_for_key_def)
next
  case False
  obtain y s1 where c: "create_team lib tid now (no_spec (str_or name '''')) s = (y, s1)" by (rule prod.exhaust)
  then have "x = map_sum id Some y" "s' = s1" using False assms by (auto simp: team_for_key_def)
  moreover have "admin_step s s1"
    using create_team_step [of s lib tid now "no_spec (str_or name '''')"] c by simp
  ultimately show ?thesis
    using create_team_keys [OF c] create_team_known [of lib tid now "no_spec (str_or name '''')" s _ s1] c
    by (cases y) auto
qed

named_theorems store_steps

lemma team_limit_row: "row_ok r \<Longrightarrow> row_ok (set_limits lib li tid ws r)"
  by (simp add: row_ok_def set_limits_def)

lemma step_create_team [store_steps]: "admin_steps s (snd (create_team lib tid now sp s))"
  by (rule r_into_rtranclp) (rule create_team_step)

lemma team_edit_steps: "keeps_team_identity f \<Longrightarrow> admin_steps s (s\<lparr>ks_teams := map f (ks_teams s)\<rparr>)"
  by (rule r_into_rtranclp) (rule edit_teams)

lemma step_update_team [store_steps]: "admin_steps s (snd (update_team lib tid u s))"
proof -
  have "keeps_team_identity (\<lambda>x. if tr_id x = tid then change_team lib u ws x else x)" for ws
    by (auto simp: keeps_team_identity_def team_row_ok_def change_team_def Let_def split: option.splits)
  then show ?thesis by (auto simp: update_team_def team_edit_steps split: option.splits)
qed

lemma step_team_meta: "admin_steps s (s\<lparr>ks_teams := map (\<lambda>r. if tr_id r = tid then r\<lparr>tr_meta := g r\<rparr> else r) (ks_teams s)\<rparr>)"
  by (rule team_edit_steps) (simp add: keeps_team_identity_def team_row_ok_def)

lemma step_team_signals [store_steps]: "admin_steps s (snd (update_team_signal_overrides tid rules s))"
  by (simp add: update_team_signal_overrides_def step_team_meta)

lemma step_team_boost [store_steps]: "admin_steps s (snd (grant_team_budget_boost lib fresh now tid usd n u s))"
  by (simp add: grant_team_budget_boost_def step_team_meta split: option.splits)

lemma step_aside:
  "ks_keys s' = ks_keys s \<Longrightarrow> ks_teams s' = ks_teams s \<Longrightarrow> (distinct (ks_members s) \<longrightarrow> distinct (ks_members s')) \<Longrightarrow>
   admin_steps s s'"
  by (rule r_into_rtranclp) (rule aside)

lemma step_memberships [store_steps]: "admin_steps s (set_team_memberships sub tids s)"
  by (rule step_aside) (auto simp: set_team_memberships_def Let_def distinct_map inj_on_def)

lemma step_membership [store_steps]: "admin_steps s (add_team_membership sub tid s)"
  by (rule step_aside) (auto simp: add_team_membership_def Let_def)

lemma step_create [store_steps]: "admin_steps s (snd (create_key lib digest secret kid tid now sp s))"
proof -
  have new: "admin_steps s (s1\<lparr>ks_keys := ks_keys s1 @ [r]\<rparr>)"
    if t: "team_for_key lib tid now (ns_team sp) s = (Inr tm, s1)"
      and r: "r = row_of_spec lib digest secret kid now sp (map_option tm_id tm) expires ws scope"
      and sc: "normalize_cache_scope (Some (ns_scope sp)) = Some scope"
      and fresh: "\<not> (\<exists>x \<in> set (ks_keys s1). kr_hash x = kr_hash r \<or> kr_id x = kid)" for tm s1 r expires ws scope
  proof -
    have "row_ok r"
      using normal_scope [OF sc] normal_priority [of "Some (ns_priority sp)"] by (simp add: r row_of_spec_def row_ok_def)
    moreover have "kr_team r = None \<or> (\<exists>x \<in> set (ks_teams s1). kr_team r = Some (tr_id x))"
      using team_for_key_steps [OF t] by (cases tm) (fastforce simp: r row_of_spec_def)+
    moreover have "\<forall>x \<in> set (ks_keys s1). kr_hash x \<noteq> kr_hash r \<and> kr_id x \<noteq> kr_id r"
      using fresh by (simp add: r row_of_spec_def)
    ultimately have "admin_step s1 (s1\<lparr>ks_keys := ks_keys s1 @ [r]\<rparr>)"
      by (intro new_key)
    then show ?thesis using team_for_key_steps [OF t] by (auto intro: rtranclp.rtrancl_into_rtrancl)
  qed
  obtain x s1 where t: "team_for_key lib tid now (ns_team sp) s = (x, s1)" by (rule prod.exhaust)
  show ?thesis
    using team_for_key_steps [OF t, THEN conjunct1] t
    by (auto simp: create_key_def Let_def split: sum.splits option.splits intro!: new)
qed

lemma step_limits [store_steps]: "admin_steps s (snd (update_limits lib tid now kid li s))"
proof -
  obtain x s1 where t: "team_for_key lib tid now (li_team li) s = (x, s1)" by (rule prod.exhaust)
  have "admin_steps s (snd (update_active kid (set_limits lib li (map_option tm_id tm) ws) s1))" if x: "x = Inr tm" for tm ws
  proof -
    have "keeps_identity (ks_teams s1) (set_limits lib li (map_option tm_id tm) ws)"
      using team_for_key_steps [OF t] x
      by (cases tm) (auto simp: keeps_identity_def team_limit_row, auto simp: set_limits_def)
    then show ?thesis
      using team_for_key_steps [OF t] update_active_steps by (meson rtranclp_trans)
  qed
  moreover have "snd (case update_active kid f s1 of (ok, s2) \<Rightarrow> (Inr ok :: key_error + bool, s2)) = snd (update_active kid f s1)" for f
    by (simp split: prod.splits)
  ultimately show ?thesis
    using team_for_key_steps [OF t] by (simp add: update_limits_def t split: sum.splits option.splits)
qed

lemma plain_edit: "(\<And>r. kr_id (f r) = kr_id r \<and> kr_hash (f r) = kr_hash r \<and> kr_prev_hash (f r) = kr_prev_hash r
    \<and> (row_ok r \<longrightarrow> row_ok (f r)) \<and> kr_team (f r) = kr_team r) \<Longrightarrow> admin_steps s (snd (update_active kid f s))"
  by (rule update_active_steps) (simp add: keeps_identity_def)

lemma step_edits [store_steps]:
  "admin_steps s (snd (update_rpd kid n s))" "admin_steps s (snd (update_user_rpd kid n s))"
  "admin_steps s (snd (update_tpd kid n s))" "admin_steps s (snd (update_user_tpd kid n s))"
  "admin_steps s (snd (update_model_access kid m g s))" "admin_steps s (snd (update_service_tier_access kid t d s))"
  "admin_steps s (snd (update_signal_overrides kid rules s))" "admin_steps s (snd (revoke_key lib now kid s))"
  by (auto simp: update_rpd_def update_user_rpd_def update_tpd_def update_user_tpd_def update_model_access_def
      update_service_tier_access_def update_signal_overrides_def revoke_key_def row_ok_def intro!: plain_edit)

lemma step_meta_edit: "admin_steps s (snd (update_active kid (\<lambda>r. r\<lparr>kr_meta := g r\<rparr>) s))"
  by (rule plain_edit) (simp add: row_ok_def)

lemma step_boost [store_steps]: "admin_steps s (snd (grant_budget_boost lib fresh now kid usd n u s))"
proof -
  have "snd (case update_active kid f s of (ok, s') \<Rightarrow> (Inr (if ok then Some b else None) :: key_error + metadata option, s'))
      = snd (update_active kid f s)" for f b
    by (simp split: prod.splits)
  then show ?thesis by (simp add: grant_budget_boost_def step_meta_edit split: option.splits)
qed

lemma step_prune [store_steps]: "admin_steps s (snd (prune_key_budget_boosts lib now kid s))"
  by (auto simp: prune_key_budget_boosts_def step_meta_edit split: option.splits prod.splits)

lemma step_rotate [store_steps]: "admin_steps s (snd (rotate_key lib digest secret now kid grace s))"
  by (auto simp: rotate_key_def update_active_def split: sum.splits option.splits intro!: r_into_rtranclp new_secret)

lemma step_touch [store_steps]: "admin_steps s (snd (touch_last_used lib interval now kid s))"
proof -
  obtain ok s' where u: "update_active kid (\<lambda>r. r\<lparr>kr_last_used := Some (kl_iso lib now)\<rparr>) s = (ok, s')" by (rule prod.exhaust)
  have "admin_steps s s'"
    using plain_edit [of "\<lambda>r. r\<lparr>kr_last_used := Some (kl_iso lib now)\<rparr>" s kid] u by (simp add: row_ok_def)
  moreover have "admin_steps s' (s'\<lparr>ks_touched := x\<rparr>)" for x by (rule step_aside) simp_all
  ultimately show ?thesis
    by (auto simp: touch_last_used_def u intro: rtranclp_trans)
qed

lemma step_check_rpm [store_steps]: "admin_steps s (snd (check_rpm now k s))"
  by (rule step_aside) (auto simp: check_rpm_def Let_def)

definition is_import :: "key_op \<Rightarrow> bool" where
  "is_import op = (case op of OpImport sqlt now dry doc \<Rightarrow> True | _ \<Rightarrow> False)"

lemma store_step_refines: "\<not> is_import op \<Longrightarrow> admin_steps s (store_step lib digest op s)"
  by (cases op) (simp_all add: store_steps is_import_def)

definition run_store :: "key_lib \<Rightarrow> (pystr \<Rightarrow> pystr) \<Rightarrow> key_op list \<Rightarrow> key_store \<Rightarrow> key_store" where
  "run_store lib digest ops s = fold (store_step lib digest) ops s"

lemma run_store_keeps:
  assumes "\<And>op s. op \<in> set ops \<Longrightarrow> P s \<Longrightarrow> P (store_step lib digest op s)" "P s"
  shows "P (run_store lib digest ops s)"
  using assms unfolding run_store_def by (induction ops arbitrary: s) simp_all

section \<open>What every run keeps\<close>

definition key_rows_ok :: "key_store \<Rightarrow> bool" where
  "key_rows_ok s = (distinct (map kr_hash (ks_keys s)) \<and> distinct (map kr_id (ks_keys s)) \<and> (\<forall>r \<in> set (ks_keys s). row_ok r))"

definition team_rows_ok :: "key_store \<Rightarrow> bool" where
  "team_rows_ok s = (distinct (map tr_id (ks_teams s)) \<and> distinct (map tr_name (ks_teams s))
     \<and> (\<forall>r \<in> set (ks_teams s). team_row_ok r) \<and> distinct (ks_members s))"

definition store_ok :: "key_store \<Rightarrow> bool" where
  "store_ok s = (key_rows_ok s \<and> team_rows_ok s)"

definition teams_known :: "key_store \<Rightarrow> bool" where
  "teams_known s = list_all (\<lambda>r. case kr_team r of None \<Rightarrow> True | Some t \<Rightarrow> t \<in> set (map tr_id (ks_teams s))) (ks_keys s)"

lemma teams_known_iff:
  "teams_known s = (\<forall>r \<in> set (ks_keys s). \<forall>t. kr_team r = Some t \<longrightarrow> t \<in> tr_id ` set (ks_teams s))"
  by (force simp: teams_known_def list_all_iff split: option.splits)

lemma mapped_rows_ok:
  assumes "key_rows_ok s" "distinct (map (\<lambda>r. kr_hash (g r)) (ks_keys s))" "\<And>r. kr_id (g r) = kr_id r"
    and "\<And>r. r \<in> set (ks_keys s) \<Longrightarrow> row_ok (g r)"
  shows "key_rows_ok (s\<lparr>ks_keys := map g (ks_keys s)\<rparr>)"
  using assms by (simp add: key_rows_ok_def o_def)

lemma edit_keeps_rows:
  assumes ok: "key_rows_ok s" and f: "keeps_identity (ks_teams s) f"
  shows "key_rows_ok (s\<lparr>ks_keys := map (\<lambda>r. if active_row kid r then f r else r) (ks_keys s)\<rparr>)"
proof (rule mapped_rows_ok [OF ok])
  let ?g = "\<lambda>r. if active_row kid r then f r else r"
  have "kr_hash (?g r) = kr_hash r" for r using f by (simp add: keeps_identity_def)
  then show "distinct (map (\<lambda>r. kr_hash (?g r)) (ks_keys s))" using ok by (simp add: key_rows_ok_def)
  show "kr_id (?g r) = kr_id r" for r using f by (simp add: keeps_identity_def)
  show "row_ok (?g r)" if "r \<in> set (ks_keys s)" for r
    using ok f that by (simp add: key_rows_ok_def keeps_identity_def)
qed

lemma distinct_one_changed:
  assumes "distinct (map h xs)" "distinct (map i xs)" "v \<notin> h ` set xs" "\<And>x. x \<in> set xs \<Longrightarrow> P x \<Longrightarrow> i x = kid"
  shows "distinct (map (\<lambda>x. if P x then v else h x) xs)"
  using assms
proof (induction xs)
  case (Cons a xs)
  have "\<not> P x" if "P a" "x \<in> set xs" for x
  proof
    assume "P x"
    then have "i x = kid" "i a = kid" using Cons.prems(4) that by simp_all
    then have "i a \<in> i ` set xs" using that(2) by (metis image_eqI)
    then show False using Cons.prems(2) by simp
  qed
  then show ?case using Cons by (auto simp: image_iff split: if_splits)
qed simp

lemma rotation_keeps_rows:
  assumes ok: "key_rows_ok s" and fresh: "\<forall>x \<in> set (ks_keys s). kr_hash x \<noteq> digest secret"
  shows "key_rows_ok (s\<lparr>ks_keys := map (\<lambda>r. if active_row kid r then rotate_row digest secret g r else r) (ks_keys s)\<rparr>)"
proof (rule mapped_rows_ok [OF ok])
  let ?g = "\<lambda>r. if active_row kid r then rotate_row digest secret g r else r"
  have h: "kr_hash (?g r) = (if active_row kid r then digest secret else kr_hash r)" for r by (simp add: rotate_row_def)
  show "distinct (map (\<lambda>r. kr_hash (?g r)) (ks_keys s))"
    unfolding h using ok fresh
    by (intro distinct_one_changed [where i = kr_id and kid = kid]) (auto simp: key_rows_ok_def active_row_def)
  show "kr_id (?g r) = kr_id r" for r by (simp add: rotate_row_def)
  show "row_ok (?g r)" if "r \<in> set (ks_keys s)" for r
    using ok that by (simp add: key_rows_ok_def rotate_row_def row_ok_def)
qed

lemma admin_step_ok: "admin_step s s' \<Longrightarrow> store_ok s \<Longrightarrow> store_ok s'"
proof (induction rule: admin_step.induct)
  case (aside s' s)
  then show ?case by (simp add: store_ok_def key_rows_ok_def team_rows_ok_def)
next
  case (new_team r s)
  then show ?case by (auto simp: store_ok_def key_rows_ok_def team_rows_ok_def)
next
  case (edit_teams f s)
  then have "map tr_id (map f (ks_teams s)) = map tr_id (ks_teams s)" "map tr_name (map f (ks_teams s)) = map tr_name (ks_teams s)"
    "tr_id ` set (map f (ks_teams s)) = tr_id ` set (ks_teams s)"
    by (simp_all add: keeps_team_identity_def image_image)
  then show ?case using edit_teams
    by (simp add: store_ok_def key_rows_ok_def team_rows_ok_def keeps_team_identity_def del: map_map set_map list.set_map) simp
next
  case (new_key r s)
  then show ?case by (auto simp: store_ok_def key_rows_ok_def team_rows_ok_def)
next
  case (edit_key s f kid)
  then show ?case using edit_keeps_rows by (simp add: store_ok_def team_rows_ok_def)
next
  case (new_secret s digest secret kid g)
  then show ?case using rotation_keeps_rows by (simp add: store_ok_def team_rows_ok_def)
qed

lemma admin_steps_ok: "admin_steps s s' \<Longrightarrow> store_ok s \<Longrightarrow> store_ok s'"
  by (induction rule: rtranclp_induct) (auto intro: admin_step_ok)

lemma admin_step_teams: "admin_step s s' \<Longrightarrow> teams_known s \<Longrightarrow> teams_known s'"
proof (induction rule: admin_step.induct)
  case (edit_teams f s)
  then have "tr_id ` set (map f (ks_teams s)) = tr_id ` set (ks_teams s)" by (simp add: keeps_team_identity_def image_image)
  then show ?case using edit_teams by (simp add: teams_known_iff del: list.set_map set_map)
next
  case (edit_key s f kid)
  then have "kr_team (f r) = kr_team r \<or> kr_team (f r) = None \<or> (\<exists>x \<in> set (ks_teams s). kr_team (f r) = Some (tr_id x))" for r
    by (simp add: keeps_identity_def)
  then have "kr_team (f r) = Some t \<Longrightarrow> kr_team r = Some t \<or> t \<in> tr_id ` set (ks_teams s)" for r t by (metis image_eqI option.distinct(1) option.inject)
  then have "r \<in> set (ks_keys s) \<Longrightarrow> kr_team (f r) = Some t \<Longrightarrow> t \<in> tr_id ` set (ks_teams s)" for r t
    using edit_key(2) by (metis teams_known_iff)
  then show ?case using edit_key(2) by (auto simp: teams_known_iff)
qed (auto simp: teams_known_iff rotate_row_def)

lemma admin_steps_teams: "admin_steps s s' \<Longrightarrow> teams_known s \<Longrightarrow> teams_known s'"
  by (induction rule: rtranclp_induct) (auto intro: admin_step_teams)

subsection \<open>Imports\<close>

lemma int_field_nonneg: "0 \<le> int_field kvs n"
  by (simp add: int_field_def split: option.split)

lemma entry_row_ok: "normalize_cache_scope v = Some scope \<Longrightarrow> row_ok (key_of_entry lib sqlt now kvs ws scope)"
  using normal_scope [of v scope] normal_priority [of "Some (meta_text lib kvs ''priority'')"]
  by (auto simp: row_ok_def key_of_entry_def Let_def int_field_nonneg)

lemma coerced_scope: "coerce_cache_scope v \<in> {''global'', ''team'', ''key''}"
  by (auto simp: coerce_cache_scope_def CACHE_SCOPE_RANK_def split: if_splits)

lemma entry_team_ok: "team_row_ok (team_of_entry lib sqlt now kvs ws scope)"
  using coerced_scope [of "Some scope"] normal_priority [of "Some (meta_text lib kvs ''priority'')"]
  by (auto simp: team_row_ok_def team_of_entry_def int_field_nonneg)

text \<open>What a map that replaces the row of one id does to another column.\<close>

lemma distinct_replaced:
  assumes "distinct (map h xs)" "distinct (map i xs)" "\<forall>x \<in> set xs. i x \<noteq> k \<longrightarrow> h x \<noteq> v" "\<And>x. h (u x) = v"
  shows "distinct (map h (map (\<lambda>x. if i x = k then u x else x) xs))"
proof -
  have e: "map h (map (\<lambda>x. if i x = k then u x else x) xs) = map (\<lambda>x. if i x = k then v else h x) xs" using assms(4) by simp
  show ?thesis unfolding e using assms(1,2,3) by (induction xs) (auto simp: image_iff)
qed

lemma same_ids_replaced: "(\<And>x. i (u x) = k) \<Longrightarrow> map i (map (\<lambda>x. if i x = k then u x else x) xs) = map i xs"
  by (induction xs) auto

lemma replaced_teams_ok:
  assumes "team_rows_ok s" "team_row_ok r" "\<forall>x \<in> set (ks_teams s). tr_id x \<noteq> tr_id r \<longrightarrow> tr_name x \<noteq> tr_name r"
  shows "team_rows_ok (s\<lparr>ks_teams := map (\<lambda>x. if tr_id x = tr_id r then r\<lparr>tr_created := tr_created x\<rparr> else x) (ks_teams s)\<rparr>)"
proof -
  have "team_row_ok (r\<lparr>tr_created := c\<rparr>)" for c using assms(2) by (simp add: team_row_ok_def)
  then show ?thesis
    using assms(1) distinct_replaced [OF _ _ assms(3), of "\<lambda>x. r\<lparr>tr_created := tr_created x\<rparr>"]
      same_ids_replaced [of tr_id "\<lambda>x. r\<lparr>tr_created := tr_created x\<rparr>" "tr_id r" "ks_teams s"]
    by (auto simp: team_rows_ok_def simp del: map_map)
qed

lemma replaced_keys_ok:
  assumes "key_rows_ok s" "row_ok r" "\<forall>x \<in> set (ks_keys s). kr_id x \<noteq> kr_id r \<longrightarrow> kr_hash x \<noteq> kr_hash r"
  shows "key_rows_ok (s\<lparr>ks_keys := map (\<lambda>x. if kr_id x = kr_id r then r\<lparr>kr_created := kr_created x\<rparr> else x) (ks_keys s)\<rparr>)"
proof -
  have "row_ok (r\<lparr>kr_created := c\<rparr>)" for c using assms(2) by (simp add: row_ok_def)
  then show ?thesis
    using assms(1) distinct_replaced [OF _ _ assms(3), of "\<lambda>x. r\<lparr>kr_created := kr_created x\<rparr>"]
      same_ids_replaced [of kr_id "\<lambda>x. r\<lparr>kr_created := kr_created x\<rparr>" "kr_id r" "ks_keys s"]
    by (auto simp: key_rows_ok_def simp del: map_map)
qed

lemma import_team_keeps:
  assumes "import_team lib sqlt now dry item (s, n) = Some (s', n')" "store_ok s"
  shows "store_ok s' \<and> ks_keys s' = ks_keys s \<and> ks_enabled s' = ks_enabled s"
proof -
  obtain kvs ws scope where e: "item = JObj kvs" "windows_payload lib (obj_get kvs ''budget_windows'') = Some ws" "scope_field kvs = Some scope"
    using assms(1) by (auto simp: import_team_def split: json.splits option.splits)
  let ?r = "team_of_entry lib sqlt now kvs ws scope"
  have cases: "s' = s \<or> (s' = s\<lparr>ks_teams := ks_teams s @ [?r]\<rparr> \<and> (\<forall>x \<in> set (ks_teams s). tr_id x \<noteq> tr_id ?r \<and> tr_name x \<noteq> tr_name ?r))
    \<or> (s' = s\<lparr>ks_teams := map (\<lambda>x. if tr_id x = tr_id ?r then ?r\<lparr>tr_created := tr_created x\<rparr> else x) (ks_teams s)\<rparr>
       \<and> (\<forall>x \<in> set (ks_teams s). tr_id x \<noteq> tr_id ?r \<longrightarrow> tr_name x \<noteq> tr_name ?r))"
    using assms(1) e by (auto simp: import_team_def Let_def find_None_iff split: if_splits option.splits)
  then show ?thesis
  proof (elim disjE conjE)
    assume s': "s' = s\<lparr>ks_teams := map (\<lambda>x. if tr_id x = tr_id ?r then ?r\<lparr>tr_created := tr_created x\<rparr> else x) (ks_teams s)\<rparr>"
      and free: "\<forall>x \<in> set (ks_teams s). tr_id x \<noteq> tr_id ?r \<longrightarrow> tr_name x \<noteq> tr_name ?r"
    show ?thesis using assms(2) replaced_teams_ok [OF _ entry_team_ok free] by (simp add: s' store_ok_def key_rows_ok_def)
  qed (use assms(2) entry_team_ok in \<open>auto simp: store_ok_def team_rows_ok_def key_rows_ok_def\<close>)
qed

lemma import_key_keeps:
  assumes "import_key lib sqlt now dry item (s, n) = Some (s', n')" "store_ok s"
  shows "store_ok s' \<and> ks_teams s' = ks_teams s \<and> ks_enabled s' = ks_enabled s
    \<and> (\<exists>kvs r. item = JObj kvs \<and> kr_id r = meta_text lib kvs ''key_id''
        \<and> (ks_keys s' = ks_keys s \<or> ks_keys s' = ks_keys s @ [r] \<or> ks_keys s' = map (\<lambda>x. if kr_id x = kr_id r then r\<lparr>kr_created := kr_created x\<rparr> else x) (ks_keys s)))"
proof -
  obtain kvs ws raw scope where e: "item = JObj kvs" "windows_payload lib (obj_get kvs ''budget_windows'') = Some ws"
    "scope_field kvs = Some raw" "normalize_cache_scope (Some raw) = Some scope"
    using assms(1) by (auto simp: import_key_def bind_eq_Some_conv split: json.splits option.splits)
  let ?r = "key_of_entry lib sqlt now kvs ws scope"
  have id: "kr_id ?r = meta_text lib kvs ''key_id''" by (simp add: key_of_entry_def Let_def)
  have row: "row_ok ?r" by (rule entry_row_ok [OF e(4)])
  have cases: "s' = s \<or> (s' = s\<lparr>ks_keys := ks_keys s @ [?r]\<rparr> \<and> (\<forall>x \<in> set (ks_keys s). kr_id x \<noteq> kr_id ?r \<and> kr_hash x \<noteq> kr_hash ?r))
    \<or> (s' = s\<lparr>ks_keys := map (\<lambda>x. if kr_id x = kr_id ?r then ?r\<lparr>kr_created := kr_created x\<rparr> else x) (ks_keys s)\<rparr>
       \<and> (\<forall>x \<in> set (ks_keys s). kr_id x \<noteq> kr_id ?r \<longrightarrow> kr_hash x \<noteq> kr_hash ?r))"
    using assms(1) e by (auto simp: import_key_def Let_def find_None_iff split: if_splits option.splits)
  then have "store_ok s' \<and> ks_teams s' = ks_teams s \<and> ks_enabled s' = ks_enabled s"
  proof (elim disjE conjE)
    assume s': "s' = s\<lparr>ks_keys := map (\<lambda>x. if kr_id x = kr_id ?r then ?r\<lparr>kr_created := kr_created x\<rparr> else x) (ks_keys s)\<rparr>"
      and free: "\<forall>x \<in> set (ks_keys s). kr_id x \<noteq> kr_id ?r \<longrightarrow> kr_hash x \<noteq> kr_hash ?r"
    show ?thesis using assms(2) replaced_keys_ok [OF _ row free] by (simp add: s' store_ok_def team_rows_ok_def)
  qed (use assms(2) row in \<open>auto simp: store_ok_def team_rows_ok_def key_rows_ok_def\<close>)
  then show ?thesis using cases e(1) id by (intro conjI exI [of _ kvs] exI [of _ ?r]) auto
qed

lemma import_each_keeps:
  "import_each f xs st = Some st' \<Longrightarrow> P st \<Longrightarrow> (\<And>x st st'. x \<in> set xs \<Longrightarrow> f x st = Some st' \<Longrightarrow> P st \<Longrightarrow> P st') \<Longrightarrow> P st'"
proof (induction xs arbitrary: st)
  case (Cons x xs)
  then obtain st1 where "f x st = Some st1" "import_each f xs st1 = Some st'" by (auto simp: bind_eq_Some_conv)
  then show ?case using Cons by (metis list.set_intros)
qed simp

text \<open>Whatever the document, nothing but the rows it names changes.\<close>

lemma import_document_keeps:
  assumes "store_ok s"
  shows "store_ok (snd (import_document lib sqlt now dry doc s))"
    and "kid \<notin> set (document_keys lib doc) \<Longrightarrow> kr_id r = kid \<Longrightarrow>
      r \<in> set (ks_keys (snd (import_document lib sqlt now dry doc s))) \<longleftrightarrow> r \<in> set (ks_keys s)"
proof -
  have "store_ok (snd (import_document lib sqlt now dry doc s)) \<and> (kid \<notin> set (document_keys lib doc) \<longrightarrow>
      (\<forall>r. kr_id r = kid \<longrightarrow> (r \<in> set (ks_keys (snd (import_document lib sqlt now dry doc s))) \<longleftrightarrow> r \<in> set (ks_keys s))))"
  proof (cases "\<exists>out. fst (import_document lib sqlt now dry doc s) = Inr out")
    case False
    then have "snd (import_document lib sqlt now dry doc s) = s"
      by (auto simp: import_document_def split: if_splits json.splits option.splits)
    then show ?thesis using assms by simp
  next
    case True
    then obtain kvs teams keys s1 tn s2 kn where d: "doc = JObj kvs" "listed (obj_get kvs ''keys'') = Some keys"
      "import_each (import_team lib sqlt now dry) teams (s, no_count) = Some (s1, tn)"
      "import_each (import_key lib sqlt now dry) keys (s1, no_count) = Some (s2, kn)"
      and s2: "snd (import_document lib sqlt now dry doc s) = s2"
      by (auto simp: import_document_def split: if_splits json.splits option.splits)
    have one: "store_ok s1 \<and> ks_keys s1 = ks_keys s"
      using import_each_keeps [OF d(3), where P = "\<lambda>(x, n). store_ok x \<and> ks_keys x = ks_keys s"] import_team_keeps assms
      by (fastforce split: prod.splits)
    define Q where "Q = (\<lambda>(x :: key_store, n :: import_count). store_ok x \<and> (kid \<notin> set (document_keys lib doc) \<longrightarrow>
        (\<forall>r. kr_id r = kid \<longrightarrow> (r \<in> set (ks_keys x) \<longleftrightarrow> r \<in> set (ks_keys s1)))))"
    have "Q (s2, kn)"
    proof (rule import_each_keeps [OF d(4)])
      show "Q (s1, no_count)" using one by (simp add: Q_def)
      fix item st st'
      assume item: "item \<in> set keys" and step: "import_key lib sqlt now dry item st = Some st'" and ih: "Q st"
      obtain x n x' n' where st: "st = (x, n)" "st' = (x', n')" by (metis prod.exhaust)
      have ok: "store_ok x" using ih by (simp add: Q_def st)
      obtain f r0 where k: "store_ok x'" "item = JObj f" "kr_id r0 = meta_text lib f ''key_id''"
        "ks_keys x' = ks_keys x \<or> ks_keys x' = ks_keys x @ [r0]
         \<or> ks_keys x' = map (\<lambda>y. if kr_id y = kr_id r0 then r0\<lparr>kr_created := kr_created y\<rparr> else y) (ks_keys x)"
        using import_key_keeps [OF step [unfolded st] ok] by blast
      have "meta_text lib f ''key_id'' \<in> set (document_keys lib doc)"
        using item k(2) d(1,2) by (force simp: document_keys_def map_filter_def)
      then have "kid \<notin> set (document_keys lib doc) \<Longrightarrow> kr_id r = kid \<Longrightarrow> (r \<in> set (ks_keys x')) = (r \<in> set (ks_keys x))" for r
        using k(3,4) by auto
      then show "Q st'" using k(1) ih by (simp add: Q_def st)
    qed
    then have "store_ok s2 \<and> (kid \<notin> set (document_keys lib doc) \<longrightarrow>
        (\<forall>r. kr_id r = kid \<longrightarrow> (r \<in> set (ks_keys s2) \<longleftrightarrow> r \<in> set (ks_keys s1))))" by (simp add: Q_def)
    then show ?thesis using one s2 by simp
  qed
  then show "store_ok (snd (import_document lib sqlt now dry doc s))"
    "kid \<notin> set (document_keys lib doc) \<Longrightarrow> kr_id r = kid \<Longrightarrow>
      r \<in> set (ks_keys (snd (import_document lib sqlt now dry doc s))) \<longleftrightarrow> r \<in> set (ks_keys s)" by blast+
qed

lemma store_step_ok: "store_ok s \<Longrightarrow> store_ok (store_step lib digest op s)"
proof (cases "is_import op")
  case True
  then show "store_ok s \<Longrightarrow> ?thesis" using import_document_keeps(1) by (cases op) (simp_all add: is_import_def)
next
  case False
  then show "store_ok s \<Longrightarrow> ?thesis" using store_step_refines admin_steps_ok by blast
qed

text \<open>C12. After any sequence of operations on a new store, imports of backups included, key hashes, key ids, team
  ids and team names are distinct, no membership is listed twice, and the cache scope and the priority of every row,
  the four limits of every team and the daily limits of every key (requests and tokens, its own and per user) are in
  range; and if the sequence imports nothing, every team a key names exists.\<close>

theorem store_stays_well_formed:
  "store_ok (run_store lib digest ops empty_store)
   \<and> (list_ex is_import ops \<or> teams_known (run_store lib digest ops empty_store))"
proof -
  have "store_ok empty_store" "teams_known empty_store"
    by (simp_all add: store_ok_def key_rows_ok_def team_rows_ok_def empty_store_def teams_known_def)
  moreover have "teams_known (store_step lib digest op s)" if "\<not> is_import op" "teams_known s" for op s
    using admin_steps_teams [OF store_step_refines [OF that(1)]] that(2) by blast
  ultimately show ?thesis
    using run_store_keeps [of ops store_ok lib digest empty_store] run_store_keeps [of ops teams_known lib digest empty_store] store_step_ok
    by (auto simp: list_ex_iff)
qed

section \<open>Revocation\<close>

definition is_revoked :: "pystr \<Rightarrow> key_store \<Rightarrow> bool" where
  "is_revoked kid s = (kid \<in> kr_id ` set (ks_keys s) \<and> (\<forall>r \<in> set (ks_keys s). kr_id r = kid \<longrightarrow> kr_revoked r \<noteq> None))"

lemma mapped_revoked:
  assumes "\<And>r. kr_id (g r) = kr_id r" "kid \<in> kr_id ` set (ks_keys s)"
    and "\<And>r. r \<in> set (ks_keys s) \<Longrightarrow> kr_id r = kid \<Longrightarrow> kr_revoked (g r) \<noteq> None"
  shows "is_revoked kid (s\<lparr>ks_keys := map g (ks_keys s)\<rparr>)"
  using assms by (simp add: is_revoked_def image_image)

lemma revoked_rows_stay:
  assumes "is_revoked kid s" and "\<And>r. kr_id (f r) = kr_id r"
  shows "is_revoked kid (s\<lparr>ks_keys := map (\<lambda>r. if active_row i r then f r else r) (ks_keys s)\<rparr>)"
  using assms by (intro mapped_revoked) (auto simp: is_revoked_def active_row_def)

lemma admin_step_revoked: "admin_step s s' \<Longrightarrow> is_revoked kid s \<Longrightarrow> is_revoked kid s'"
proof (induction rule: admin_step.induct)
  case (edit_key s f i)
  then show ?case by (intro revoked_rows_stay) (simp_all add: keeps_identity_def)
next
  case (new_secret s digest secret i g)
  then show ?case by (intro revoked_rows_stay) (simp_all add: rotate_row_def)
qed (auto simp: is_revoked_def)

lemma admin_steps_revoked: "admin_steps s s' \<Longrightarrow> is_revoked kid s \<Longrightarrow> is_revoked kid s'"
  by (induction rule: rtranclp_induct) (auto intro: admin_step_revoked)

lemma revoke_revokes:
  assumes "revoke_key lib now kid s = (True, s')"
  shows "is_revoked kid s'"
proof -
  let ?g = "\<lambda>r. if active_row kid r then r\<lparr>kr_revoked := Some (kl_iso lib now)\<rparr> else r"
  have s': "s' = s\<lparr>ks_keys := map ?g (ks_keys s)\<rparr>" and a: "list_ex (active_row kid) (ks_keys s)"
    using assms by (auto simp: revoke_key_def update_active_def split: if_splits)
  show ?thesis
    unfolding s' using a by (intro mapped_revoked) (auto simp: list_ex_iff active_row_def)
qed

lemma resolved_row:
  "resolve_key lib digest secret s = Some k \<Longrightarrow>
   \<exists>r \<in> set (ks_keys s). owns_hash (digest secret) r \<and> kr_revoked r = None \<and> vk_id k = kr_id r"
  by (auto simp: resolve_key_def Let_def key_of_row_def find_Some_iff split: if_splits option.splits)

definition imports_key :: "key_lib \<Rightarrow> pystr \<Rightarrow> key_op \<Rightarrow> bool" where
  "imports_key lib kid op = (case op of OpImport sqlt now dry doc \<Rightarrow> kid \<in> set (document_keys lib doc) | _ \<Rightarrow> False)"

lemma step_keeps_revoked:
  assumes "store_ok s" "is_revoked kid s" "\<not> imports_key lib kid op"
  shows "is_revoked kid (store_step lib digest op s)"
proof (cases "is_import op")
  case True
  then obtain sqlt now dry doc where op: "op = OpImport sqlt now dry doc" by (cases op) (simp_all add: is_import_def)
  then have "kr_id r = kid \<Longrightarrow> r \<in> set (ks_keys (store_step lib digest op s)) \<longleftrightarrow> r \<in> set (ks_keys s)" for r
    using import_document_keeps(2) [OF assms(1)] assms(3) by (simp add: imports_key_def)
  then show ?thesis using assms(2) by (auto simp: is_revoked_def image_iff)
next
  case False
  show ?thesis by (rule admin_steps_revoked [OF store_step_refines [OF False] assms(2)])
qed

lemma run_keeps_revoked:
  assumes "store_ok s" "is_revoked kid s" "\<not> list_ex (imports_key lib kid) ops"
  shows "is_revoked kid (run_store lib digest ops s)"
  using run_store_keeps [of ops "\<lambda>s. store_ok s \<and> is_revoked kid s" lib digest s] step_keeps_revoked store_step_ok assms
  by (auto simp: list_ex_iff)

lemma revoke_ok: "revoke_key lib now kid s = (b, s') \<Longrightarrow> store_ok s \<Longrightarrow> store_ok s'"
  using store_step_ok [of s lib "\<lambda>x. x" "OpRevoke now kid"] by simp

text \<open>Once a key is revoked, no secret ever resolves to it again, whatever operations follow, unless one of them imports
  a backup that names the key.\<close>

theorem revocation_is_final:
  assumes "store_ok s" and "revoke_key lib now kid s = (True, s')" and "\<not> list_ex (imports_key lib kid) ops"
    and "resolve_key lib digest secret (run_store lib digest ops s') = Some k"
  shows "vk_id k \<noteq> kid"
  using resolved_row [OF assms(4)] run_keeps_revoked [OF revoke_ok [OF assms(2,1)] revoke_revokes [OF assms(2)] assms(3), of digest]
  by (auto simp: is_revoked_def)

section \<open>Rotation\<close>

lemma find_in_mapped: "(\<And>x. P (g x) = Q x) \<Longrightarrow> find P (map g xs) = map_option g (find Q xs)"
  by (induction xs) auto

lemma same_by: "distinct (map f xs) \<Longrightarrow> x \<in> set xs \<Longrightarrow> y \<in> set xs \<Longrightarrow> f x = f y \<Longrightarrow> x = y"
  by (simp add: distinct_map inj_on_def)

lemma unique_find:
  assumes "distinct (map f rs)" "r \<in> set rs" "P r" "\<And>x. x \<in> set rs \<Longrightarrow> P x \<Longrightarrow> f x = f r"
  shows "find P rs = Some r"
proof -
  have one: "x = r" if "x \<in> set rs" "P x" for x using same_by [OF assms(1)] assms that by blast
  obtain x where x: "find P rs = Some x" using assms(2,3) by (cases "find P rs") (auto simp: find_None_iff)
  then have "x \<in> set rs" "P x" by (auto simp: find_Some_iff)
  then show ?thesis using one x by simp
qed

lemma rotated_rows:
  assumes rot: "rotate_key lib digest secret now kid grace s = (Inr r', s')" and ok: "store_ok s"
    and r: "r \<in> set (ks_keys s)" "kr_id r = kid"
    and other: "\<forall>x \<in> set (ks_keys s). kr_prev_hash x \<noteq> Some (kr_hash r) \<and> kr_prev_hash x \<noteq> Some (digest secret)"
  shows "\<exists>until_text. grace_from lib now grace = Inr until_text \<and> ks_enabled s' \<and> kr_revoked r = None \<and> digest secret \<noteq> kr_hash r
    \<and> find (owns_hash (kr_hash r)) (ks_keys s') = Some (rotate_row digest secret until_text r)
    \<and> find (owns_hash (digest secret)) (ks_keys s') = Some (rotate_row digest secret until_text r)"
proof -
  obtain until_text r0 where g: "grace_from lib now grace = Inr until_text" "ks_enabled s"
    "find (active_row kid) (ks_keys s) = Some r0" "\<forall>x \<in> set (ks_keys s). kr_hash x \<noteq> digest secret"
    "s' = s\<lparr>ks_keys := map (\<lambda>r. if active_row kid r then rotate_row digest secret until_text r else r) (ks_keys s)\<rparr>"
    using rot by (auto simp: rotate_key_def update_active_def split: if_splits sum.splits option.splits)
  let ?g = "\<lambda>r. if active_row kid r then rotate_row digest secret until_text r else r"
  have ids: "distinct (map kr_id (ks_keys s))" "distinct (map kr_hash (ks_keys s))"
    using ok by (simp_all add: store_ok_def key_rows_ok_def)
  have "r0 \<in> set (ks_keys s)" "active_row kid r0" using g(3) by (auto simp: find_Some_iff)
  then have act: "active_row kid r" using same_by [OF ids(1) r(1)] r(2) by (auto simp: active_row_def)
  have kid: "kr_id (?g x) = kr_id x" for x by (simp add: rotate_row_def)
  have d: "distinct (map kr_id (map ?g (ks_keys s)))" using ids(1) by (simp only: map_map o_def kid)
  have found: "find (owns_hash h) (map ?g (ks_keys s)) = Some (rotate_row digest secret until_text r)"
    if h: "h = kr_hash r \<or> h = digest secret" for h
  proof (rule unique_find [OF d])
    show "rotate_row digest secret until_text r \<in> set (map ?g (ks_keys s))" using r(1) act by auto
    show "owns_hash h (rotate_row digest secret until_text r)" using h by (auto simp: owns_hash_def rotate_row_def)
    fix x assume "x \<in> set (map ?g (ks_keys s))" and p: "owns_hash h x"
    then obtain y where y: "y \<in> set (ks_keys s)" "x = ?g y" by auto
    show "kr_id x = kr_id (rotate_row digest secret until_text r)"
    proof (cases "active_row kid y")
      case True
      then show ?thesis using r(2) y(2) by (simp add: rotate_row_def active_row_def)
    next
      case False
      then have "kr_hash y = kr_hash r" using p other g(4) h y by (auto simp: owns_hash_def)
      then show ?thesis using same_by [OF ids(2) y(1) r(1)] False act by simp
    qed
  qed
  show ?thesis
    using g(1,2,4) act r(1) found by (auto simp: g(5) active_row_def)
qed

lemma default_grace: "grace_from lib now None = Inr (kl_iso lib (now + DAY_US))"
  by (simp add: grace_from_def DAY_US_def) (code_simp)

text \<open>A rotation brings the secret of an expired key back to life: with the default grace the old secret
  is valid for another day although the key has expired, and the new secret is the one that is refused.\<close>

theorem rotation_revives_an_expired_secret:
  assumes "rotate_key lib digest secret now kid None s = (Inr r', s')" and "store_ok s"
    and "r \<in> set (ks_keys s)" and "kr_id r = kid" and "kr_hash r = digest old" and "is_past lib now (kr_expires r)"
    and "\<forall>x \<in> set (ks_keys s). kr_prev_hash x \<noteq> Some (digest old) \<and> kr_prev_hash x \<noteq> Some (digest secret)"
    and "old \<noteq> ''''" and "secret \<noteq> ''''" and "digest old \<noteq> ''''" and "\<forall>t. kl_time lib (kl_iso lib t) = Some t"
  shows "\<exists>k k'. resolve_key lib digest old s' = Some k \<and> vk_id k = kid \<and> \<not> key_is_expired lib now k
    \<and> resolve_key lib digest secret s' = Some k' \<and> vk_id k' = kid \<and> key_is_expired lib now k'"
proof -
  have e: "str_or (Some t) '''' = t" for t by (simp add: str_or_def)
  show ?thesis
    using rotated_rows [OF assms(1-4)] assms(4-) default_grace [of lib now]
    by (auto simp: resolve_key_def Let_def key_of_row_def rotate_row_def key_is_expired_def is_past_def DAY_US_def e)
qed

section \<open>Backups\<close>

text \<open>The document with one key.\<close>

definition one_key_backup :: "metadata \<Rightarrow> json" where
  "one_key_backup kvs = JObj [(''schema'', JInt 1), (''keys'', JList [JObj kvs])]"

definition plain_entry :: "key_lib \<Rightarrow> metadata \<Rightarrow> bool" where
  "plain_entry lib kvs = (key_entry_ok lib kvs \<and> obj_get kvs ''budget_windows'' = JNull \<and> obj_get kvs ''cache_scope'' = JNull
     \<and> obj_get kvs ''revoked_at'' = JNull \<and> list_all (\<lambda>f. bindable (obj_get kvs f)) KEY_TEXTS \<and> bindable (pin_field kvs)
     \<and> ints_fit KEY_INTS kvs)"

text \<open>A backup from before a revocation takes the revocation back: importing it, even with nothing else in it, brings the
  key's secret back to life.\<close>

theorem import_revives_a_revoked_key:
  assumes "store_ok s" and "ks_enabled s" and "is_revoked kid s"
    and "plain_entry lib kvs" and "meta_text lib kvs ''key_id'' = kid" and "meta_text lib kvs ''key_hash'' = digest secret"
    and "secret \<noteq> ''''" and "\<forall>x \<in> set (ks_keys s). kr_id x = kid \<or> \<not> owns_hash (digest secret) x"
  shows "\<exists>k. resolve_key lib digest secret (snd (import_document lib sqlt now False (one_key_backup kvs) s)) = Some k \<and> vk_id k = kid"
proof -
  let ?r = "key_of_entry lib sqlt now kvs [] ''global''"
  have g: "normalize_cache_scope (Some ''global'') = Some ''global''" by code_simp
  have r: "kr_id ?r = kid" "kr_hash ?r = digest secret" "kr_revoked ?r = None"
    using assms(4-6) by (simp_all add: key_of_entry_def Let_def plain_entry_def sql_text_def)
  obtain old where old: "old \<in> set (ks_keys s)" "kr_id old = kid" using assms(3) by (auto simp: is_revoked_def)
  have d: "distinct (map kr_id (ks_keys s))" using assms(1) by (simp add: store_ok_def key_rows_ok_def)
  have found: "find (\<lambda>x. kr_id x = kid) (ks_keys s) = Some old"
    using d old by (intro unique_find [where f = kr_id]) auto
  have "kr_revoked old \<noteq> None" using assms(3) old by (simp add: is_revoked_def)
  then have new: "\<not> same_key lib kvs ?r old"
    using assms(4) by (auto simp: same_key_def KEY_TEXTS_def plain_entry_def same_column_def)
  have free: "\<not> (\<exists>x \<in> set (ks_keys s). kr_id x \<noteq> kid \<and> kr_hash x = digest secret)"
    using assms(8) by (auto simp: owns_hash_def)
  let ?g = "\<lambda>x. if kr_id x = kid then ?r\<lparr>kr_created := kr_created x\<rparr> else x"
  have step: "import_key lib sqlt now False (JObj kvs) (s, no_count) = Some (s\<lparr>ks_keys := map ?g (ks_keys s)\<rparr>, no_count\<lparr>ic_updated := 1\<rparr>)"
    using assms(4) r(1,2) found new free
    by (simp add: import_key_def Let_def plain_entry_def windows_payload_def scope_field_def g no_count_def)
  have imp: "snd (import_document lib sqlt now False (one_key_backup kvs) s) = s\<lparr>ks_keys := map ?g (ks_keys s)\<rparr>"
    using assms(2) step by (simp add: import_document_def one_key_backup_def obj_get_def schema_known_def KEYS_EXPORT_SCHEMA_def listed_def)
  have ids: "map kr_id (map ?g (ks_keys s)) = map kr_id (ks_keys s)" using r(1) by (induction "ks_keys s") auto
  have "find (owns_hash (digest secret)) (map ?g (ks_keys s)) = Some (?g old)"
  proof (rule unique_find [where f = kr_id])
    show "distinct (map kr_id (map ?g (ks_keys s)))" unfolding ids by (rule d)
    show "?g old \<in> set (map ?g (ks_keys s))" using old(1) by auto
    show "owns_hash (digest secret) (?g old)" using old(2) r(2) by (simp add: owns_hash_def)
    show "kr_id x = kr_id (?g old)" if "x \<in> set (map ?g (ks_keys s))" "owns_hash (digest secret) x" for x
      using that old(2) r(1) assms(8) by (auto split: if_splits)
  qed
  then show ?thesis unfolding imp using assms(2,7) old(2) r
    by (auto simp: resolve_key_def Let_def key_of_row_def)
qed

section \<open>Limits and priority\<close>

lemma resolve_after_edit:
  assumes u: "update_active kid f s = (ok, s')" and r: "resolve_key lib digest secret s = Some k" "vk_id k = kid"
    and f: "\<And>r. kr_id (f r) = kr_id r \<and> kr_hash (f r) = kr_hash r \<and> kr_prev_hash (f r) = kr_prev_hash r \<and> kr_revoked (f r) = kr_revoked r"
  shows "\<exists>r. r \<in> set (ks_keys s) \<and> ks_enabled s' \<and> find (owns_hash (digest secret)) (ks_keys s') = Some (f r) \<and> kr_revoked (f r) = None
    \<and> kr_id r = kid"
proof -
  let ?g = "\<lambda>r. if active_row kid r then f r else r"
  obtain r where f0: "ks_enabled s" "find (owns_hash (digest secret)) (ks_keys s) = Some r" "kr_revoked r = None" "kr_id r = kid"
    using r by (auto simp: resolve_key_def Let_def key_of_row_def split: if_splits option.splits)
  have s': "s' = s\<lparr>ks_keys := map ?g (ks_keys s)\<rparr>" using u f0(1) by (auto simp: update_active_def)
  have "owns_hash h (?g x) = owns_hash h x" for h x using f by (simp add: owns_hash_def)
  then have "find (owns_hash (digest secret)) (map ?g (ks_keys s)) = Some (?g r)"
    using find_in_mapped [of "owns_hash (digest secret)" ?g "owns_hash (digest secret)"] f0(2) by simp
  moreover have "active_row kid r" "r \<in> set (ks_keys s)" using f0 by (auto simp: active_row_def find_Some_iff)
  ultimately show ?thesis using f0 f by (auto simp: s')
qed

lemma team_for_key_unchanged_resolve:
  assumes "team_for_key lib tid now name s = (x, s1)" "resolve_key lib digest secret s = Some k"
  shows "\<exists>k1. resolve_key lib digest secret s1 = Some k1 \<and> vk_id k1 = vk_id k"
  using team_for_key_steps [OF assms(1)] assms(2)
  by (auto simp: resolve_key_def Let_def key_of_row_def split: if_splits option.splits)

text \<open>A change of limits replaces the metadata as a whole: unless the caller repeats them, the region pin
  and the service tiers of the key are gone, and requests with it may leave the region.\<close>

theorem limit_change_lifts_the_pin:
  assumes "resolve_key lib digest secret s = Some k" and "vk_id k = kid"
    and "update_limits lib tid now kid li s = (Inr ok, s')"
    and "map_of (li_meta li) ''region_pin'' = None" and "map_of (li_meta li) ''allowed_service_tiers'' = None"
  shows "\<exists>k'. resolve_key lib digest secret s' = Some k' \<and> vk_id k' = kid \<and> vk_pin k' = None \<and> vk_service_tiers k' = None"
proof -
  have en: "ks_enabled s" using assms(1) by (simp add: resolve_key_def Let_def split: if_splits)
  then obtain tm s1 ws where t: "team_for_key lib tid now (li_team li) s = (Inr tm, s1)"
    and u: "update_active kid (set_limits lib li (map_option tm_id tm) ws) s1 = (ok, s')"
    using assms(3) by (auto simp: update_limits_def split: prod.splits sum.splits option.splits)
  obtain k1 where k1: "resolve_key lib digest secret s1 = Some k1" "vk_id k1 = kid"
    using team_for_key_unchanged_resolve [OF t assms(1)] assms(2) by auto
  have "secret \<noteq> ''''" using assms(1) by (auto simp: resolve_key_def Let_def split: if_splits)
  then show ?thesis
    using resolve_after_edit [OF u k1] assms(4,5)
    by (auto simp: set_limits_def resolve_key_def Let_def key_of_row_def meta_text_def obj_get_def clean_pin_def tiers_from_meta_def)
qed

lemma resolved_priority:
  "resolve_key lib digest secret s = Some k \<Longrightarrow> \<exists>v. vk_priority k = normalize_priority v"
  by (auto simp: resolve_key_def Let_def key_of_row_def split: if_splits option.splits)

text \<open>The priority of a team has no effect: a key that resolves always carries a priority of its own, so the
  admission priority of a request with it is the same whatever the team's is.\<close>

theorem team_priority_is_dead:
  assumes "resolve_key lib digest secret s = Some k"
  shows "resolve_request_admission_priority lib (Some k) tm header boost
    = resolve_request_admission_priority lib (Some k) None header boost"
proof -
  have n: "normalize_priority v \<noteq> ''''" for v using normal_priority [of v] by auto
  have "vk_priority k \<noteq> ''''" using resolved_priority [OF assms] n by metis
  then show ?thesis by (simp add: resolve_request_admission_priority_def admission_priority_for_def)
qed

section \<open>A key that was just created\<close>

lemma map_of_put_meta [simp]: "map_of (put_meta c n v m) = (if c then (map_of m)(n \<mapsto> v) else map_of m)"
  by (simp add: put_meta_def update_conv)

lemma map_of_write_signals: "n \<noteq> ''signal_overrides'' \<Longrightarrow> map_of (write_signals rules m) n = map_of m n"
  by (simp add: write_signals_def update_conv delete_conv split: option.split)

lemma map_of_write_tiers: "n \<noteq> ''allowed_service_tiers'' \<Longrightarrow> n \<noteq> ''degrade_disallowed_service_tier'' \<Longrightarrow>
    map_of (write_tiers_to_meta m tiers degrade) n = map_of m n"
  by (simp add: write_tiers_to_meta_def Let_def update_conv delete_conv split: option.split bool.split)

lemma key_meta_entries:
  assumes "ns_meta sp = []"
  shows "map_of (key_meta lib sp) ''region_pin'' = map_option JStr (clean_pin (ns_pin sp))"
    and "map_of (key_meta lib sp) ''priority''
      = (if ns_priority sp \<noteq> ''normal'' then Some (JStr (normalize_priority (Some (ns_priority sp)))) else None)"
    and "map_of (key_meta lib sp) ''max_in_flight'' = (if ns_max_in_flight sp > 0 then Some (JInt (ns_max_in_flight sp)) else None)"
  using assms
  by (auto simp: key_meta_def budget_meta_def Let_def map_of_write_tiers map_of_write_signals update_conv split: option.split)

lemma key_meta_degrade: "ns_meta sp = [] \<Longrightarrow> degrade_from_meta (JObj (key_meta lib sp)) = ns_degrade sp"
  by (cases "ns_degrade sp")
     (simp_all add: key_meta_def Let_def write_tiers_to_meta_def degrade_from_meta_def obj_get_def update_conv delete_conv)

lemma key_meta_tiers:
  assumes m: "ns_meta sp = []" and str: "\<And>t. jl_str (kl_json lib) (JStr t) = t"
  shows "tiers_from_meta (kl_json lib) (JObj (key_meta lib sp)) = coerce_tiers (ns_tiers sp)"
proof (cases "ns_tiers sp")
  case None
  then show ?thesis
    by (simp add: key_meta_def Let_def write_tiers_to_meta_def tiers_from_meta_def update_conv delete_conv split: bool.split)
next
  case (Some ts)
  then show ?thesis using tiers_round_trip [of "kl_json lib", OF str] by (simp add: key_meta_def Let_def)
qed

lemma clean_pin_stable: "clean_pin (Some (case clean_pin p of None \<Rightarrow> '''' | Some t \<Rightarrow> t)) = clean_pin p"
  by (auto simp: clean_pin_def Let_def str_or_def split: option.splits)

lemma normal_priority_stable: "normalize_priority (Some (normalize_priority v)) = normalize_priority v"
proof -
  have "normalize_priority (Some x) = x" if "x \<in> {''high'', ''normal'', ''low''}" for x
    using that by auto (simp_all add: normalize_priority_def PRIORITY_RANK_def str_or_def py_strip_def py_lstrip_def
      py_rstrip_def is_space_def py_lower_def lower_char_def)
  then show ?thesis using normal_priority by blast
qed

lemma flat_windows_coalesce: "coalesce_windows (windows_from_flat d m) = Some (windows_from_flat d m)"
proof -
  have n: "normalize_duration ''day'' = Some ''day''" "normalize_duration ''month'' = Some ''month''" by code_simp+
  show ?thesis
    by (simp add: coalesce_windows_def canonical_windows_def windows_from_flat_def plain_window_def coalesce_one_def n
        clone_window_def Let_def)
qed

lemma flat_windows_round_trip:
  assumes "\<And>t. jl_str (kl_json lib) (JStr t) = t"
  shows "parse_windows lib (windows_json lib (windows_from_flat d m)) = windows_from_flat d m"
proof -
  have n: "py_strip ''day'' = ''day''" "py_strip ''month'' = ''month''" by code_simp+
  show ?thesis
    using assms by (simp add: parse_windows_def windows_json_def windows_from_flat_def plain_window_def map_filter_simps
        window_as_dict_def parse_window_def obj_get_def float_or_def int_or_def float_json_def n)
qed

lemma scope_stable: "normalize_cache_scope v = Some c \<Longrightarrow> coerce_cache_scope (Some c) = c"
proof -
  have "coerce_cache_scope (Some x) = x" if "x \<in> {''global'', ''team'', ''key''}" for x
    using that by auto (code_simp+)
  then show "normalize_cache_scope v = Some c \<Longrightarrow> coerce_cache_scope (Some c) = c" using normal_scope by blast
qed

lemma team_for_key_name:
  assumes "team_for_key lib tid now name s = (Inr tm, s1)" "store_ok s"
  shows "(case map_option tm_id tm of None \<Rightarrow> None | Some t \<Rightarrow> map_option tr_name (find (\<lambda>x. tr_id x = t) (ks_teams s1)))
    = map_option tm_name tm"
proof (cases tm)
  case (Some t)
  have "admin_steps s s1" using team_for_key_steps [OF assms(1)] by simp
  then have "store_ok s1" using assms(2) admin_steps_ok by blast
  then have d: "distinct (map tr_id (ks_teams s1))" by (simp add: store_ok_def team_rows_ok_def)
  have "\<exists>r \<in> set (ks_teams s1). tr_id r = tm_id t \<and> tr_name r = tm_name t"
    using assms(1) Some
    by (auto simp: team_for_key_def create_team_def Let_def team_of_row_def split: option.splits if_splits prod.splits sum.splits
        dest: found_team)
  then obtain r where r: "r \<in> set (ks_teams s1)" "tr_id r = tm_id t" "tr_name r = tm_name t" by blast
  then have "find (\<lambda>x. tr_id x = tm_id t) (ks_teams s1) = Some r" using d by (intro unique_find [where f = tr_id]) auto
  then show ?thesis using Some r by simp
qed simp

text \<open>C13. The secret of a key that was just created resolves to the key \<open>create\<close> returned, every field of it, when
  the key is made of flat budgets and no raw metadata.\<close>

theorem created_key_resolves:
  assumes c: "create_key lib digest secret kid tid now sp s = (Inr k, s')" and ok: "store_ok s"
    and fresh: "secret \<noteq> ''''" "\<forall>r \<in> set (ks_keys s). kr_prev_hash r \<noteq> Some (digest secret)"
    and plain: "ns_meta sp = []" "ns_windows sp = []" and str: "\<forall>t. jl_str (kl_json lib) (JStr t) = t"
  shows "resolve_key lib digest secret s' = Some k"
proof -
  obtain expires tm s1 scope where e: "expiry_from lib now (ns_expires sp) = Inr expires" "ks_enabled s"
    and t: "team_for_key lib tid now (ns_team sp) s = (Inr tm, s1)"
    and sc: "normalize_cache_scope (Some (ns_scope sp)) = Some scope"
    and r: "\<not> (\<exists>x \<in> set (ks_keys s1). kr_hash x = digest secret \<or> kr_id x = kid)"
    and k: "k = created_key lib sp (windows_from_flat (ns_daily sp) (ns_monthly sp)) tm
      (row_of_spec lib digest secret kid now sp (map_option tm_id tm) expires (windows_from_flat (ns_daily sp) (ns_monthly sp)) scope)"
    and s': "s' = s1\<lparr>ks_keys := ks_keys s1 @
      [row_of_spec lib digest secret kid now sp (map_option tm_id tm) expires (windows_from_flat (ns_daily sp) (ns_monthly sp)) scope]\<rparr>"
    using c plain(2)
    by (auto simp: create_key_def flat_windows_coalesce Let_def row_of_spec_def split: if_splits sum.splits prod.splits option.splits)
  have st: "ks_keys s1 = ks_keys s" "ks_enabled s1" using team_for_key_steps [OF t] e(2) by simp_all
  have none: "find (owns_hash (digest secret)) (ks_keys s1) = None"
    using r fresh(2) st by (auto simp: find_None_iff owns_hash_def)
  have app: "find P xs = None \<Longrightarrow> find P (xs @ [y]) = (if P y then Some y else None)" for P :: "key_row \<Rightarrow> bool" and xs y
    by (induction xs) auto
  have tx: "meta_text lib m n = (case map_of m n of Some (JStr x) \<Rightarrow> x | _ \<Rightarrow> meta_text lib m n)" for m n
    using str by (simp add: meta_text_def obj_get_def split: option.split json.split)
  have pin: "meta_text lib (key_meta lib sp) ''region_pin'' = (case clean_pin (ns_pin sp) of None \<Rightarrow> '''' | Some x \<Rightarrow> x)"
    using tx [of "key_meta lib sp" "''region_pin''"] key_meta_entries(1) [OF plain(1), of lib]
    by (auto simp: meta_text_def obj_get_def split: option.splits)
  have prio: "normalize_priority (Some (meta_text lib (key_meta lib sp) ''priority'')) = normalize_priority (Some (ns_priority sp))"
  proof (cases "ns_priority sp = ''normal''")
    case True
    then have "meta_text lib (key_meta lib sp) ''priority'' = ''''"
      using key_meta_entries(2) [OF plain(1), of lib] by (simp add: meta_text_def obj_get_def)
    then show ?thesis unfolding True by simp (code_simp)
  next
    case False
    then show ?thesis
      using tx [of "key_meta lib sp" "''priority''"] key_meta_entries(2) [OF plain(1), of lib] normal_priority_stable by simp
  qed
  have fl: "max_in_flight_from_meta (key_meta lib sp) = max 0 (ns_max_in_flight sp)"
    using key_meta_entries(3) [OF plain(1), of lib]
    by (simp add: max_in_flight_from_meta_def int_or_def obj_get_def)
  have tiers: "tiers_from_meta (kl_json lib) (JObj (key_meta lib sp)) = coerce_tiers (ns_tiers sp)"
    using str by (intro key_meta_tiers [OF plain(1)]) simp
  have ws: "parse_windows lib (windows_json lib (windows_from_flat d m)) = windows_from_flat d m" for d m
    using str by (intro flat_windows_round_trip) simp
  show ?thesis
    using e(2) st fresh(1) none app [OF none] team_for_key_name [OF t ok]
    by (simp add: s' k resolve_key_def Let_def owns_hash_def key_of_row_def created_key_def row_of_spec_def pin prio fl tiers ws
        clean_pin_stable scope_stable [OF sc] key_meta_degrade [OF plain(1)] cong: option.case_cong)
qed

section \<open>Concrete runs\<close>

definition moment_text :: "int \<Rightarrow> pystr" where
  "moment_text t = (if t \<ge> 0 then CHR ''+'' else CHR ''-'') # replicate (nat \<bar>t\<bar>) CHR ''1''"

definition text_moment :: "pystr \<Rightarrow> int option" where
  "text_moment s = (case s of [] \<Rightarrow> None | c # r \<Rightarrow> Some (if c = CHR ''+'' then int (length r) else - int (length r)))"

lemma moment_round_trip: "text_moment (moment_text t) = Some t"
  by (simp add: text_moment_def moment_text_def)

definition demo_keys_lib :: key_lib where
  "demo_keys_lib = \<lparr>kl_json = \<lparr>jl_loads = (\<lambda>s. None), jl_dumps = (\<lambda>j. ''''), jl_str = (\<lambda>j. case j of JStr s \<Rightarrow> s | _ \<Rightarrow> '''')\<rparr>,
     kl_float = (\<lambda>s. None), kl_repr = (\<lambda>x. ''''), kl_time = text_moment, kl_iso = moment_text\<rparr>"

definition demo_spec :: key_spec where
  "demo_spec = (no_spec ''ci'')\<lparr>ns_daily := 5, ns_pin := Some ''eu''\<rparr>"

definition demo_row :: "pystr option \<Rightarrow> key_row" where
  "demo_row expires = row_of_spec demo_keys_lib id ''s1'' ''k1'' 0 demo_spec None expires (windows_from_flat 5 0) ''global''"

definition demo_store :: "pystr option \<Rightarrow> key_store" where
  "demo_store expires = empty_store\<lparr>ks_keys := [demo_row expires]\<rparr>"

lemma demo_row_fields:
  "kr_id (demo_row e) = ''k1''" "kr_hash (demo_row e) = ''s1''" "kr_prev_hash (demo_row e) = None" "kr_revoked (demo_row e) = None"
  "kr_expires (demo_row e) = e" "kr_team (demo_row e) = None"
  by (simp_all add: demo_row_def row_of_spec_def)

lemma demo_store_ok: "store_ok (demo_store e)"
proof -
  have "row_ok (demo_row e)"
    using normal_priority [of "Some ''normal''"] by (simp add: row_ok_def demo_row_def row_of_spec_def demo_spec_def no_spec_def)
  then show ?thesis
    by (simp add: store_ok_def key_rows_ok_def team_rows_ok_def demo_store_def empty_store_def demo_row_fields)
qed

lemma demo_resolves: "\<exists>k. resolve_key demo_keys_lib id ''s1'' (demo_store e) = Some k \<and> vk_id k = ''k1''"
  by (simp add: resolve_key_def demo_store_def empty_store_def owns_hash_def demo_row_fields key_of_row_def Let_def)

theorem created_key_resolves_witness:
  "\<exists>k s'. create_key demo_keys_lib id ''s1'' ''k1'' ''t1'' 0 demo_spec empty_store = (Inr k, s')
     \<and> resolve_key demo_keys_lib id ''s1'' s' = Some k"
proof -
  have n: "normalize_cache_scope (Some ''global'') = Some ''global''" "expiry_from demo_keys_lib 0 None = Inr None"
    by code_simp+
  obtain k s' where c: "create_key demo_keys_lib id ''s1'' ''k1'' ''t1'' 0 demo_spec empty_store = (Inr k, s')"
    by (simp add: create_key_def empty_store_def demo_spec_def no_spec_def team_for_key_def n flat_windows_coalesce Let_def)
  have "store_ok empty_store" by (simp add: store_ok_def key_rows_ok_def team_rows_ok_def empty_store_def)
  then show ?thesis
    using c created_key_resolves [OF c] by (simp add: empty_store_def demo_spec_def no_spec_def demo_keys_lib_def)
qed

theorem revocation_is_final_witness:
  "\<exists>s' k. revoke_key demo_keys_lib 1 ''k1'' (demo_store None) = (True, s')
     \<and> resolve_key demo_keys_lib id ''s9'' (run_store demo_keys_lib id [OpCreate ''s9'' ''k9'' ''t9'' 2 demo_spec] s') = Some k
     \<and> vk_id k \<noteq> ''k1''"
proof -
  have n: "normalize_cache_scope (Some ''global'') = Some ''global''" "expiry_from demo_keys_lib 2 None = Inr None"
    by code_simp+
  obtain s' where r: "revoke_key demo_keys_lib 1 ''k1'' (demo_store None) = (True, s')"
    and ks: "ks_keys s' = [(demo_row None)\<lparr>kr_revoked := Some (moment_text 1)\<rparr>]" "ks_enabled s'"
    by (simp add: revoke_key_def update_active_def active_row_def demo_store_def empty_store_def demo_row_fields demo_keys_lib_def)
  have "\<exists>k. resolve_key demo_keys_lib id ''s9'' (run_store demo_keys_lib id [OpCreate ''s9'' ''k9'' ''t9'' 2 demo_spec] s') = Some k"
    using ks
    by (simp add: run_store_def create_key_def demo_spec_def no_spec_def team_for_key_def n flat_windows_coalesce Let_def
        demo_row_fields row_of_spec_def resolve_key_def owns_hash_def)
  then obtain k where k: "resolve_key demo_keys_lib id ''s9''
      (run_store demo_keys_lib id [OpCreate ''s9'' ''k9'' ''t9'' 2 demo_spec] s') = Some k" by blast
  show ?thesis using r k revocation_is_final [OF demo_store_ok r _ k] by (auto simp: imports_key_def)
qed

definition demo_backup :: metadata where
  "demo_backup = [(''key_id'', JStr ''k1''), (''key_hash'', JStr ''s1''), (''name'', JStr ''ci''), (''prefix'', JStr ''dk_s1'')]"

theorem import_revives_a_revoked_key_witness:
  "\<exists>s' k. revoke_key demo_keys_lib 1 ''k1'' (demo_store None) = (True, s')
     \<and> resolve_key demo_keys_lib id ''s1'' s' = None
     \<and> resolve_key demo_keys_lib id ''s1'' (snd (import_document demo_keys_lib (\<lambda>x. '''') 2 False (one_key_backup demo_backup) s')) = Some k
     \<and> vk_id k = ''k1''"
proof -
  obtain s' where r: "revoke_key demo_keys_lib 1 ''k1'' (demo_store None) = (True, s')"
    and ks: "ks_keys s' = [(demo_row None)\<lparr>kr_revoked := Some (moment_text 1)\<rparr>]" "ks_enabled s'"
    by (simp add: revoke_key_def update_active_def active_row_def demo_store_def empty_store_def demo_row_fields demo_keys_lib_def)
  have p: "plain_entry demo_keys_lib demo_backup" by code_simp
  have t: "meta_text demo_keys_lib demo_backup ''key_id'' = ''k1''" "meta_text demo_keys_lib demo_backup ''key_hash'' = id ''s1''"
    by code_simp+
  have own: "\<forall>x \<in> set (ks_keys s'). kr_id x = ''k1'' \<or> \<not> owns_hash (id ''s1'') x" using ks by (simp add: demo_row_fields)
  have dead: "resolve_key demo_keys_lib id ''s1'' s' = None"
    using ks by (simp add: resolve_key_def owns_hash_def demo_row_fields)
  show ?thesis
    using import_revives_a_revoked_key [where digest = id and secret = "''s1''" and sqlt = "\<lambda>x. ''''" and now = 2,
        OF revoke_ok [OF r demo_store_ok] ks(2) revoke_revokes [OF r] p t _ own] r dead by auto
qed

theorem rotation_revives_an_expired_secret_witness:
  "\<exists>r' s' k k'. rotate_key demo_keys_lib id ''s2'' 10 ''k1'' None (demo_store (Some (moment_text 0))) = (Inr r', s')
     \<and> resolve_key demo_keys_lib id ''s1'' s' = Some k \<and> \<not> key_is_expired demo_keys_lib 10 k
     \<and> resolve_key demo_keys_lib id ''s2'' s' = Some k' \<and> key_is_expired demo_keys_lib 10 k'"
proof -
  let ?e = "Some (moment_text 0)"
  obtain r' s' where r: "rotate_key demo_keys_lib id ''s2'' 10 ''k1'' None (demo_store ?e) = (Inr r', s')"
    by (simp add: rotate_key_def default_grace demo_store_def empty_store_def active_row_def demo_row_fields)
  have "is_past demo_keys_lib 10 ?e"
    by (simp add: is_past_def demo_keys_lib_def str_or_def moment_round_trip) (simp add: moment_text_def)
  then show ?thesis
    using rotation_revives_an_expired_secret [OF r demo_store_ok, of "demo_row ?e" "''s1''"] r
    by (auto simp: demo_store_def demo_row_fields moment_round_trip demo_keys_lib_def)
qed

theorem limit_change_lifts_the_pin_witness:
  "\<exists>s' k'. update_limits demo_keys_lib ''t1'' 1 ''k1''
       \<lparr>li_daily = 3, li_monthly = 0, li_rpm = 0, li_tpm = 0, li_tier_cap = None, li_team = None, li_windows = [], li_meta = [],
        li_user_cap = None\<rparr> (demo_store None) = (Inr True, s')
     \<and> resolve_key demo_keys_lib id ''s1'' s' = Some k' \<and> vk_pin k' = None"
proof -
  let ?li = "\<lparr>li_daily = 3, li_monthly = 0, li_rpm = 0, li_tpm = 0, li_tier_cap = None, li_team = None, li_windows = [], li_meta = [],
        li_user_cap = None\<rparr>"
  obtain s' where u: "update_limits demo_keys_lib ''t1'' 1 ''k1'' ?li (demo_store None) = (Inr True, s')"
    by (simp add: update_limits_def update_active_def demo_store_def empty_store_def team_for_key_def flat_windows_coalesce active_row_def
        demo_row_fields)
  obtain k where k: "resolve_key demo_keys_lib id ''s1'' (demo_store None) = Some k" "vk_id k = ''k1''"
    using demo_resolves by blast
  show ?thesis using u limit_change_lifts_the_pin [OF k u] by auto
qed

definition low_team :: team_row where
  "low_team = \<lparr>tr_id = ''t1'', tr_name = ''ops'', tr_windows = JList [], tr_created = '''', tr_pin = None, tr_rpm = 0, tr_tpm = 0,
     tr_rpd = 0, tr_tpd = 0, tr_models = None, tr_groups = None, tr_scope = ''global'', tr_priority = ''low'', tr_meta = []\<rparr>"

theorem team_priority_is_dead_witness:
  "\<exists>k. resolve_key demo_keys_lib id ''s1'' (demo_store None) = Some k
     \<and> resolve_request_admission_priority demo_keys_lib (Some k) (Some (team_of_row demo_keys_lib low_team)) None False
       = resolve_request_admission_priority demo_keys_lib (Some k) None None False"
proof -
  obtain k where k: "resolve_key demo_keys_lib id ''s1'' (demo_store None) = Some k" using demo_resolves by blast
  show ?thesis using k team_priority_is_dead [OF k, of "Some (team_of_row demo_keys_lib low_team)" None False] by simp
qed

end
