(* ===== verification/KeyClaims.thy ===== *)
theory KeyClaims
  imports VirtualKeys RoutingLaws
begin

text \<open>
  Who a request is and what that fences: authentication (\<open>daari/server/auth.py\<close>), the gate on weak
  master keys (\<open>daari/server/master_key_gate.py\<close>), roles (\<open>daari/enterprise/rbac.py\<close>), and the defaults
  a key, a project profile (\<open>daari/config/project.py\<close>) and a cost tier (\<open>daari/gateway/cost_tier.py\<close>)
  write into a request.

  The store is a handle: \<open>None\<close> when there is none. \<open>sh_unreachable\<close> is the flag of a Postgres store
  found down, \<open>sh_down\<close> says that its queries raise \<open>PostgresBackendUnavailable\<close>. Validation of the
  signal rules of a key or team (pydantic) is an argument; it may raise.
\<close>

section \<open>Master keys\<close>

datatype master_key = NoMaster | OneMaster pystr | ManyMasters "pystr list"

definition normalize_master_keys :: "master_key \<Rightarrow> pystr list" where
  "normalize_master_keys m =
     filter (\<lambda>t. t \<noteq> '''') (map py_strip (case m of NoMaster \<Rightarrow> [] | OneMaster k \<Rightarrow> [k] | ManyMasters ks \<Rightarrow> ks))"

definition constant_time_equals :: "pystr \<Rightarrow> pystr \<Rightarrow> bool" where
  "constant_time_equals supplied candidate = (length supplied = length candidate \<and> supplied = candidate)"

text \<open>Every key is compared, whatever the others gave.\<close>

definition master_key_matches :: "pystr \<Rightarrow> master_key \<Rightarrow> bool" where
  "master_key_matches supplied m =
     (supplied \<noteq> '''' \<and> fold (\<lambda>k matched. constant_time_equals supplied k \<or> matched) (normalize_master_keys m) False)"

definition WEAK_MASTER_KEYS :: "pystr set" where
  "WEAK_MASTER_KEYS = {''sk-1234'', ''changeme'', ''daari-local'', ''replace-me'', ''secret'', ''password'', ''test'', ''testing''}"

datatype gate_refusal = ListEmpty | OnlySpace | Unset | WeakKey pystr

text \<open>\<open>permit\<close> is \<open>server.dangerously_permit_weak_or_unset_api_key\<close>.\<close>

definition master_key_gate_error :: "bool \<Rightarrow> master_key \<Rightarrow> gate_refusal option" where
  "master_key_gate_error permit raw =
     (let keys = normalize_master_keys raw in
      if permit then None
      else if keys = []
      then Some (case raw of ManyMasters ks \<Rightarrow> ListEmpty | OneMaster k \<Rightarrow> (if k \<noteq> '''' then OnlySpace else Unset) | NoMaster \<Rightarrow> Unset)
      else map_option (\<lambda>k. WeakKey (py_lower (py_strip k))) (find (\<lambda>k. py_lower (py_strip k) \<in> WEAK_MASTER_KEYS) keys))"

definition extract_api_key :: "(pystr \<times> pystr) list \<Rightarrow> pystr" where
  "extract_api_key headers =
     (let supplied = str_or (map_of headers ''x-api-key'') '''';
          authorization = str_or (map_of headers ''authorization'') ''''
      in if supplied = '''' \<and> starts_with (py_lower authorization) ''bearer '' then py_strip (drop 7 authorization) else supplied)"

section \<open>The store handle\<close>

record store_handle =
  sh_store :: key_store
  sh_unreachable :: bool
  sh_down :: bool

datatype 'a store_reply = Gives 'a | StoreDown | Raises

fun then_do :: "'a store_reply \<Rightarrow> ('a \<Rightarrow> 'b store_reply) \<Rightarrow> 'b store_reply" where
  "then_do (Gives x) f = f x"
| "then_do StoreDown f = StoreDown"
| "then_do Raises f = Raises"

definition ask_store :: "store_handle \<Rightarrow> (key_store \<Rightarrow> 'a) \<Rightarrow> 'a store_reply" where
  "ask_store h f = (if sh_down h then StoreDown else Gives (f (sh_store h)))"

definition store_enforces_auth :: "key_lib \<Rightarrow> store_handle option \<Rightarrow> bool" where
  "store_enforces_auth lib h = (case h of None \<Rightarrow> False
     | Some h \<Rightarrow> ks_enabled (sh_store h) \<and> (sh_unreachable h \<or> sh_down h \<or> list_keys lib (sh_store h) \<noteq> []))"

section \<open>Claims\<close>

type_synonym rule_reader = "json list \<Rightarrow> signal_rule list option"

text \<open>\<open>signal_overrides_from_meta\<close>; \<open>None\<close> is a validation error.\<close>

definition signal_overrides_from_meta :: "rule_reader \<Rightarrow> metadata \<Rightarrow> signal_rule list option" where
  "signal_overrides_from_meta rules m =
     (let raw = obj_get m ''signal_overrides'' in
      if \<not> truthy raw then Some [] else (case raw of JList xs \<Rightarrow> rules xs | _ \<Rightarrow> None))"

record auth_claims =
  ac_kind :: pystr
  ac_key_id :: "pystr option"
  ac_client :: "pystr option"
  ac_tier_cap :: "pystr option"
  ac_daily :: pyfloat
  ac_monthly :: pyfloat
  ac_key :: "virtual_key option"
  ac_boundary :: json
  ac_pin :: "pystr option"
  ac_models :: "pystr list option"
  ac_groups :: "pystr list option"
  ac_team_models :: "pystr list option"
  ac_team_groups :: "pystr list option"
  ac_scope :: pystr
  ac_selected :: "pystr option"
  ac_team_rules :: "signal_rule list option"

definition claims_of_kind :: "pystr \<Rightarrow> auth_claims" where
  "claims_of_kind kind = \<lparr>ac_kind = kind, ac_key_id = None, ac_client = None, ac_tier_cap = None, ac_daily = 0, ac_monthly = 0,
     ac_key = None, ac_boundary = JNull, ac_pin = None, ac_models = None, ac_groups = None, ac_team_models = None,
     ac_team_groups = None, ac_scope = ''global'', ac_selected = None, ac_team_rules = None\<rparr>"

record auth_env =
  ae_lib :: key_lib
  ae_digest :: "pystr \<Rightarrow> pystr"
  ae_rules :: rule_reader
  ae_now :: int

definition expired_claims :: "virtual_key \<Rightarrow> auth_claims" where
  "expired_claims k = (claims_of_kind ''expired'')
     \<lparr>ac_key_id := Some (vk_id k), ac_client := Some (str_or (vk_client k) (vk_id k)), ac_key := Some k\<rparr>"

definition virtual_claims :: "virtual_key \<Rightarrow> auth_claims" where
  "virtual_claims k = (claims_of_kind ''virtual'')
     \<lparr>ac_key_id := Some (vk_id k), ac_client := Some (str_or (vk_client k) (vk_id k)), ac_tier_cap := vk_tier_cap k,
      ac_daily := vk_daily k, ac_monthly := vk_monthly k, ac_key := Some k,
      ac_boundary := obj_get (vk_meta k) ''boundary_profile'', ac_pin := vk_pin k, ac_models := vk_models k,
      ac_groups := vk_groups k, ac_scope := effective_cache_scope [Some (vk_cache_scope k), Some ''global'']\<rparr>"

definition with_team :: "virtual_key \<Rightarrow> team \<Rightarrow> signal_rule list \<Rightarrow> auth_claims \<Rightarrow> auth_claims" where
  "with_team k t rules c = c\<lparr>ac_pin := (if str_or (ac_pin c) '''' = '''' \<and> str_or (tm_pin t) '''' \<noteq> '''' then tm_pin t else ac_pin c),
     ac_team_models := tm_models t, ac_team_groups := tm_groups t, ac_team_rules := Some rules,
     ac_scope := effective_cache_scope [Some (vk_cache_scope k), Some (tm_cache_scope t)]\<rparr>"

definition claims_for_key :: "auth_env \<Rightarrow> key_store \<Rightarrow> virtual_key \<Rightarrow> auth_claims store_reply" where
  "claims_for_key env s k =
     (if key_is_expired (ae_lib env) (ae_now env) k then Gives (expired_claims k)
      else if str_or (vk_team k) '''' = '''' then Gives (virtual_claims k)
      else (case get_team (ae_lib env) (vk_team k) None s of
          None \<Rightarrow> Gives (virtual_claims k)
        | Some t \<Rightarrow> (case signal_overrides_from_meta (ae_rules env) (tm_meta t) of
            None \<Rightarrow> Raises
          | Some rules \<Rightarrow> Gives (with_team k t rules (virtual_claims k)))))"

text \<open>\<open>Gives None\<close>: authentication failed. Without master key and keys everybody is the master.\<close>

definition resolve_auth :: "auth_env \<Rightarrow> master_key \<Rightarrow> store_handle option \<Rightarrow> pystr \<Rightarrow> auth_claims option store_reply" where
  "resolve_auth env m h supplied =
     (let unmatched = (if normalize_master_keys m \<noteq> [] \<or> store_enforces_auth (ae_lib env) h then Gives None
                       else Gives (Some (claims_of_kind ''master''))) in
      if master_key_matches supplied m then Gives (Some (claims_of_kind ''master''))
      else (case h of None \<Rightarrow> unmatched
        | Some h' \<Rightarrow>
            (if \<not> ks_enabled (sh_store h') \<or> supplied = '''' then unmatched
             else then_do (ask_store h' (resolve_key (ae_lib env) (ae_digest env) supplied)) (\<lambda>found.
               case found of None \<Rightarrow> unmatched
               | Some k \<Rightarrow> then_do (claims_for_key env (sh_store h') k) (\<lambda>c. Gives (Some c))))))"

section \<open>Choosing a team\<close>

definition membership_subject :: "key_lib \<Rightarrow> virtual_key \<Rightarrow> pystr" where
  "membership_subject lib k =
     (case find (\<lambda>f. truthy (obj_get (vk_meta k) f)) [''sso_sub'', ''sub'', ''subject''] of
        Some f \<Rightarrow> py_strip (jl_str (kl_json lib) (obj_get (vk_meta k) f))
      | None \<Rightarrow> py_strip (str_or (vk_client k) (vk_id k)))"

definition key_allows_team_override :: "virtual_key \<Rightarrow> bool" where
  "key_allows_team_override k = truthy (obj_get (vk_meta k) ''allow_team_override'')"

datatype team_error = TeamNotFound pystr | TeamOverrideDenied | TeamMembershipRequired

text \<open>\<open>Inr None\<close>: no selection.\<close>

definition resolve_team_header ::
    "key_lib \<Rightarrow> (pystr \<times> pystr) list \<Rightarrow> auth_claims \<Rightarrow> key_store option \<Rightarrow> team_error + pystr option" where
  "resolve_team_header lib headers c s =
     (case (ac_key c, s) of
        (Some k, Some st) \<Rightarrow>
          (let raw = py_strip (str_or (map_of headers ''x-daari-team'') '''');
               pinned = py_strip (str_or (vk_team k) '''');
               by_id = get_team lib (Some raw) None st
           in if ac_kind c \<noteq> ''virtual'' \<or> raw = '''' then Inr None
              else (case (if by_id \<noteq> None then by_id else get_team lib None (Some raw) st) of
                  None \<Rightarrow> Inl (TeamNotFound raw)
                | Some t \<Rightarrow>
                    (if pinned \<noteq> '''' \<and> tm_id t \<noteq> pinned \<and> \<not> key_allows_team_override k then Inl TeamOverrideDenied
                     else if \<not> is_team_member (membership_subject lib k) (tm_id t) st then Inl TeamMembershipRequired
                     else Inr (Some (tm_id t)))))
      | _ \<Rightarrow> Inr None)"

definition apply_selected_team :: "auth_env \<Rightarrow> pystr \<Rightarrow> key_store \<Rightarrow> auth_claims \<Rightarrow> auth_claims option" where
  "apply_selected_team env tid s c =
     (let c1 = c\<lparr>ac_selected := Some tid\<rparr> in
      case get_team (ae_lib env) (Some tid) None s of
        None \<Rightarrow> Some c1
      | Some t \<Rightarrow> map_option (\<lambda>rules. c1\<lparr>ac_team_models := tm_models t, ac_team_groups := tm_groups t, ac_team_rules := Some rules,
            ac_scope := effective_cache_scope [Some (case ac_key c of None \<Rightarrow> ''global'' | Some k \<Rightarrow> vk_cache_scope k), Some (tm_cache_scope t)],
            ac_pin := (if str_or (ac_pin c) '''' = '''' \<and> str_or (tm_pin t) '''' \<noteq> '''' then tm_pin t else ac_pin c)\<rparr>)
          (signal_overrides_from_meta (ae_rules env) (tm_meta t)))"

section \<open>Token introspection\<close>

record introspection =
  in_active :: bool
  in_client :: "pystr option"
  in_username :: "pystr option"
  in_type :: "pystr option"
  in_exp :: "int option"
  in_team :: "pystr option"
  in_team_name :: "pystr option"
  in_tier_cap :: "pystr option"
  in_limits :: "(pystr \<times> int) list"
  in_scope :: "pystr option"

definition inactive :: introspection where
  "inactive = \<lparr>in_active = False, in_client = None, in_username = None, in_type = None, in_exp = None, in_team = None,
     in_team_name = None, in_tier_cap = None, in_limits = [], in_scope = None\<rparr>"

definition nonempty_text :: "pystr option \<Rightarrow> pystr option" where
  "nonempty_text x = (if str_or x '''' = '''' then None else x)"

definition team_cache_scope :: "key_lib \<Rightarrow> key_store \<Rightarrow> pystr option \<Rightarrow> pystr" where
  "team_cache_scope lib s tid =
     (if str_or tid '''' = '''' \<or> \<not> ks_enabled s then ''global''
      else (case get_team lib tid None s of None \<Rightarrow> ''global'' | Some t \<Rightarrow> tm_cache_scope t))"

definition key_introspection :: "key_lib \<Rightarrow> key_store \<Rightarrow> virtual_key \<Rightarrow> introspection" where
  "key_introspection lib s k =
     \<lparr>in_active = True, in_client = Some (str_or (vk_client k) (vk_id k)), in_username = Some (vk_name k), in_type = Some ''virtual'',
      in_exp = (if str_or (vk_expires k) '''' = '''' then None
                else map_option (\<lambda>t. t div 1000000) (kl_time lib (str_or (vk_expires k) ''''))),
      in_team = nonempty_text (vk_team k), in_team_name = nonempty_text (vk_team_name k), in_tier_cap = nonempty_text (vk_tier_cap k),
      in_limits = filter (\<lambda>(n, v). v > 0)
        [(''rpm'', vk_rpm k), (''tpm'', vk_tpm k), (''rpd'', vk_rpd k), (''tpd'', vk_tpd k), (''user_tpd'', vk_user_tpd k)],
      in_scope = Some (effective_cache_scope [Some (vk_cache_scope k), Some (team_cache_scope lib s (vk_team k))])\<rparr>"

definition introspect_token :: "auth_env \<Rightarrow> master_key \<Rightarrow> store_handle option \<Rightarrow> pystr option \<Rightarrow> introspection store_reply" where
  "introspect_token env m h token =
     (let supplied = py_strip (str_or token '''') in
      if supplied = '''' then Gives inactive
      else if master_key_matches supplied m
      then Gives (inactive\<lparr>in_active := True, in_username := Some ''master'', in_type := Some ''master''\<rparr>)
      else (case h of None \<Rightarrow> Gives inactive
        | Some h' \<Rightarrow>
            (if \<not> ks_enabled (sh_store h') then Gives inactive
             else then_do (ask_store h' (resolve_key (ae_lib env) (ae_digest env) supplied)) (\<lambda>found. Gives
               (case found of None \<Rightarrow> inactive
                | Some k \<Rightarrow> (if key_is_expired (ae_lib env) (ae_now env) k then inactive
                    else key_introspection (ae_lib env) (sh_store h') k))))))"

section \<open>What a key writes into a request\<close>

definition listed_claims :: "auth_claims \<Rightarrow> claims" where
  "listed_claims c = \<lparr>cl_kind = ac_kind c, cl_key = map_option (\<lambda>k. \<lparr>kl_allowed = vk_models k, kl_groups = vk_groups k\<rparr>) (ac_key c),
     cl_allowed = ac_models c, cl_groups = ac_groups c, cl_team_allowed = ac_team_models c, cl_team_groups = ac_team_groups c\<rparr>"

definition fill :: "pystr option \<Rightarrow> pystr option \<Rightarrow> pystr option" where
  "fill old new = (if str_or old '''' = '''' \<and> str_or new '''' \<noteq> '''' then new else old)"

definition key_forbids_frontier :: "auth_claims \<Rightarrow> bool" where
  "key_forbids_frontier c = (case ac_key c of None \<Rightarrow> False | Some k \<Rightarrow> map_of (vk_meta k) ''no_frontier'' = Some (JBool True))"

text \<open>A present list of rules stays, an empty one is an intentional clear; \<open>None\<close> is a validation error.\<close>

definition key_rules_of :: "rule_reader \<Rightarrow> auth_claims \<Rightarrow> signal_rule list option" where
  "key_rules_of rules c = (case ac_key c of None \<Rightarrow> Some [] | Some k \<Rightarrow> signal_overrides_from_meta rules (vk_meta k))"

definition fill_rules :: "signal_rule list option \<Rightarrow> signal_rule list \<Rightarrow> signal_rule list option" where
  "fill_rules old new = (if old = None \<and> new \<noteq> [] then Some new else old)"

definition claimed_team :: "auth_claims \<Rightarrow> pystr option" where
  "claimed_team c = (if str_or (ac_selected c) '''' \<noteq> '''' then ac_selected c
     else (case ac_key c of None \<Rightarrow> None | Some k \<Rightarrow> vk_team k))"

definition apply_auth_claims_to_meta ::
    "rule_reader \<Rightarrow> auth_claims option \<Rightarrow> catalog option \<Rightarrow> internal_request \<Rightarrow> internal_request option" where
  "apply_auth_claims_to_meta rules claims cat q =
     (case claims of None \<Rightarrow> Some q
      | Some c \<Rightarrow>
          (if ac_kind c \<noteq> ''virtual'' then Some q
           else (case (if q_key_rules q = None then key_rules_of rules c else Some []) of
               None \<Rightarrow> None
             | Some own \<Rightarrow>
                 (case patterns_from_claims (Some (listed_claims c)) cat of (key_patterns, team_patterns) \<Rightarrow>
                   Some (q\<lparr>q_client_id := fill (q_client_id q) (ac_client c), q_tier_cap := fill (q_tier_cap q) (ac_tier_cap c),
                     q_no_frontier := q_no_frontier q \<or> key_forbids_frontier c, q_region_pin := fill (q_region_pin q) (ac_pin c),
                     q_key_models := key_patterns, q_team_models := team_patterns, q_key_id := fill (q_key_id q) (ac_key_id c),
                     q_team_id := fill (q_team_id q) (claimed_team c), q_key_rules := fill_rules (q_key_rules q) own,
                     q_team_rules := fill_rules (q_team_rules q) (case ac_team_rules c of None \<Rightarrow> [] | Some rs \<Rightarrow> rs),
                     q_cache_scope := (if ac_scope c \<in> {''team'', ''key''} then ac_scope c else q_cache_scope q)\<rparr>)))))"

text \<open>The boundary profile, a JSON value of the key's metadata.\<close>

definition boundary_after_claims :: "json \<Rightarrow> auth_claims option \<Rightarrow> json" where
  "boundary_after_claims old claims = (case claims of None \<Rightarrow> old
     | Some c \<Rightarrow> (if ac_kind c = ''virtual'' \<and> \<not> truthy old \<and> truthy (ac_boundary c) then ac_boundary c else old))"

section \<open>Project profiles and cost tiers\<close>

record project_profile =
  pp_tier_cap :: "pystr option"
  pp_no_frontier :: bool
  pp_latency :: "int option"
  pp_client :: "pystr option"

text \<open>\<open>loaded\<close> is what the YAML file holds; \<open>None\<close> when it could not be read.\<close>

definition parse_profile :: "json option \<Rightarrow> project_profile" where
  "parse_profile loaded =
     (let top = (case loaded of Some (JObj kvs) \<Rightarrow> kvs | _ \<Rightarrow> []);
          routing = (case obj_get top ''routing'' of JObj kvs \<Rightarrow> kvs | _ \<Rightarrow> [])
      in \<lparr>pp_tier_cap = (case obj_get routing ''max_tier_for_chat'' of
             JStr t \<Rightarrow> (if map upper_char t \<in> {''L3'', ''L4'', ''L5''} then Some (map upper_char t) else None) | _ \<Rightarrow> None),
          pp_no_frontier = (obj_get routing ''no_frontier'' = JBool True),
          pp_latency = (case obj_get routing ''latency_budget_ms'' of JInt n \<Rightarrow> (if n > 0 then Some n else None) | _ \<Rightarrow> None),
          pp_client = (case obj_get top ''client_id'' of JStr t \<Rightarrow> (if py_strip t \<noteq> '''' then Some (py_strip t) else None) | _ \<Rightarrow> None)\<rparr>)"

definition apply_profile_to_meta :: "project_profile option \<Rightarrow> internal_request \<Rightarrow> internal_request" where
  "apply_profile_to_meta profile q = (case profile of None \<Rightarrow> q
     | Some p \<Rightarrow> q\<lparr>q_tier_cap := (if q_tier_cap q = None then pp_tier_cap p else q_tier_cap q),
         q_no_frontier := q_no_frontier q \<or> pp_no_frontier p,
         q_latency_budget := (if q_latency_budget q = None then pp_latency p else q_latency_budget q),
         q_client_id := (if q_client_id q = None then pp_client p else q_client_id q)\<rparr>)"

definition COST_TIER_CAP :: "(pystr \<times> pystr) list" where
  "COST_TIER_CAP = [(''low'', ''L3''), (''medium'', ''L4''), (''high'', ''L5''), (''xhigh'', ''L6''), (''max'', ''L6'')]"

definition extract_cost_tier :: "json_lib \<Rightarrow> metadata \<Rightarrow> metadata \<Rightarrow> pystr option" where
  "extract_cost_tier jl attrs extra =
     (let attr = (\<lambda>n. if obj_get attrs n = JNull then obj_get extra n else obj_get attrs n);
          plugin = (case attr ''plugins'' of
              JList ps \<Rightarrow> find (\<lambda>p. case p of JObj kvs \<Rightarrow> obj_get kvs ''id'' = JStr ''auto-router'' | _ \<Rightarrow> False) ps
            | _ \<Rightarrow> None);
          raw = (if truthy (attr ''cost_tier'') then attr ''cost_tier''
                 else (case plugin of Some (JObj kvs) \<Rightarrow> obj_get kvs ''cost_tier'' | _ \<Rightarrow> attr ''cost_tier''))
      in if raw = JNull then None
         else (let t = py_strip (jl_str jl raw) in if t = '''' then None else Some t))"

text \<open>An explicit cap wins; an unknown value is ignored.\<close>

definition apply_cost_tier :: "json_lib \<Rightarrow> metadata \<Rightarrow> metadata \<Rightarrow> internal_request \<Rightarrow> pystr option \<times> internal_request" where
  "apply_cost_tier jl attrs extra q =
     (case extract_cost_tier jl attrs extra of
        None \<Rightarrow> (None, q)
      | Some raw \<Rightarrow> (case map_of COST_TIER_CAP (py_lower raw) of
            None \<Rightarrow> (None, q)
          | Some mapped \<Rightarrow> (Some mapped,
              if py_strip (str_or (q_tier_cap q) '''') \<noteq> '''' then q else q\<lparr>q_tier_cap := Some mapped\<rparr>)))"

section \<open>Roles\<close>

definition ROLE_RANK :: "(pystr \<times> nat) list" where
  "ROLE_RANK = [(''user'', 0), (''analyst'', 1), (''admin'', 2)]"

definition normalize_role :: "pystr option \<Rightarrow> pystr" where
  "normalize_role r = (let v = py_lower (py_strip (str_or r ''user'')) in if map_of ROLE_RANK v \<noteq> None then v else ''user'')"

definition role_at_least :: "pystr option \<Rightarrow> pystr option \<Rightarrow> bool" where
  "role_at_least r minimum = (the (map_of ROLE_RANK (normalize_role r)) \<ge> the (map_of ROLE_RANK (normalize_role minimum)))"

definition role_from_claims :: "json_lib \<Rightarrow> metadata \<Rightarrow> pystr \<Rightarrow> pystr" where
  "role_from_claims jl claims role_claim =
     (let named = obj_get claims (if role_claim = '''' then ''role'' else role_claim);
          v = (if named = JNull then json_or (obj_get claims ''role'') (obj_get claims ''daari_role'') else named);
          head = (case v of JList (x # xs) \<Rightarrow> x | _ \<Rightarrow> v)
      in if claims = [] then ''user''
         else normalize_role (Some (if truthy head then jl_str jl head else ''user'')))"

definition team_id_from_claims :: "json_lib \<Rightarrow> metadata \<Rightarrow> pystr option" where
  "team_id_from_claims jl claims =
     (let texts = map (\<lambda>f. let v = obj_get claims f in if v = JNull then '''' else py_strip (jl_str jl v))
          [''team_id'', ''daari_team_id'', ''team'']
      in find (\<lambda>t. t \<noteq> '''') texts)"

text \<open>\<open>Inl\<close>: PermissionError.\<close>

definition resolve_team_read_filter :: "pystr \<Rightarrow> pystr option \<Rightarrow> pystr option \<Rightarrow> unit + pystr option" where
  "resolve_team_read_filter role own_team requested =
     (let wanted = nonempty_text (Some (py_strip (str_or requested '''')));
          own = nonempty_text (Some (py_strip (str_or own_team '''')))
      in if role_at_least (Some role) (Some ''admin'') then Inr wanted
         else if own \<noteq> None then (if wanted \<noteq> None \<and> wanted \<noteq> own then Inl () else Inr own)
         else Inr wanted)"

section \<open>Authentication\<close>

lemma master_match_iff: "master_key_matches supplied m \<longleftrightarrow> supplied \<noteq> '''' \<and> supplied \<in> set (normalize_master_keys m)"
proof -
  have "fold (\<lambda>k matched. constant_time_equals supplied k \<or> matched) ks b \<longleftrightarrow> b \<or> supplied \<in> set ks" for ks b
    by (induction ks arbitrary: b) (auto simp: constant_time_equals_def)
  then show ?thesis by (simp add: master_key_matches_def)
qed

lemma then_do_gives: "then_do x f = Gives y \<longleftrightarrow> (\<exists>v. x = Gives v \<and> f v = Gives y)"
  by (cases x) auto

lemma ask_gives: "ask_store h f = Gives y \<longleftrightarrow> \<not> sh_down h \<and> y = f (sh_store h)"
  by (auto simp: ask_store_def)

lemma claims_for_key_shape:
  assumes "claims_for_key env s k = Gives c"
  shows "ac_key c = Some k \<and> ac_key_id c = Some (vk_id k)
    \<and> ac_kind c = (if key_is_expired (ae_lib env) (ae_now env) k then ''expired'' else ''virtual'')"
  using assms
  by (auto simp: claims_for_key_def expired_claims_def virtual_claims_def with_team_def claims_of_kind_def
      split: if_splits option.splits)

definition open_install :: "key_lib \<Rightarrow> master_key \<Rightarrow> store_handle option \<Rightarrow> bool" where
  "open_install lib m h = (normalize_master_keys m = [] \<and> \<not> store_enforces_auth lib h)"

lemma resolve_auth_cases:
  assumes "resolve_auth env m h supplied = Gives (Some c)" and "\<not> master_key_matches supplied m"
  shows "(open_install (ae_lib env) m h \<and> c = claims_of_kind ''master'')
    \<or> (\<exists>h' k. h = Some h' \<and> resolve_key (ae_lib env) (ae_digest env) supplied (sh_store h') = Some k
        \<and> claims_for_key env (sh_store h') k = Gives c)"
  using assms
  by (auto simp: resolve_auth_def Let_def then_do_gives ask_gives open_install_def split: option.splits if_splits)

text \<open>C3. Nobody is authenticated for nothing: claims that are not those of an expired key mean that the
  supplied text is one of the master keys, or the secret of a key that is neither revoked nor expired and whose
  identity the claims carry, or that the install is open: no master key, and a store that is absent, disabled or
  healthy and empty. A store that is down never opens the gateway.\<close>

theorem authentication_is_earned:
  assumes "resolve_auth env m h supplied = Gives (Some c)" and "ac_kind c \<noteq> ''expired''"
  shows "(supplied \<in> set (normalize_master_keys m) \<and> c = claims_of_kind ''master'')
    \<or> (\<exists>h' k r. h = Some h' \<and> resolve_key (ae_lib env) (ae_digest env) supplied (sh_store h') = Some k
         \<and> r \<in> set (ks_keys (sh_store h')) \<and> owns_hash (ae_digest env supplied) r \<and> kr_revoked r = None \<and> kr_id r = vk_id k
         \<and> \<not> key_is_expired (ae_lib env) (ae_now env) k \<and> ac_kind c = ''virtual'' \<and> ac_key c = Some k \<and> ac_key_id c = Some (kr_id r))
    \<or> (normalize_master_keys m = [] \<and> c = claims_of_kind ''master''
         \<and> (case h of None \<Rightarrow> True | Some h' \<Rightarrow> \<not> ks_enabled (sh_store h') \<or> (\<not> sh_unreachable h' \<and> \<not> sh_down h' \<and> ks_keys (sh_store h') = [])))"
proof (cases "master_key_matches supplied m")
  case True
  then show ?thesis using assms(1) by (simp add: resolve_auth_def master_match_iff)
next
  case False
  consider "open_install (ae_lib env) m h" "c = claims_of_kind ''master''"
    | h' k where "h = Some h'" "resolve_key (ae_lib env) (ae_digest env) supplied (sh_store h') = Some k"
        "claims_for_key env (sh_store h') k = Gives c"
    using resolve_auth_cases [OF assms(1) False] by blast
  then show ?thesis
  proof cases
    case 1
    then show ?thesis by (auto simp: open_install_def store_enforces_auth_def list_keys_def split: option.splits)
  next
    case 2
    then show ?thesis using claims_for_key_shape [OF 2(3)] resolved_row [OF 2(2)] assms(2)
      by (auto split: if_splits)
  qed
qed

text \<open>C19. A revoked key no longer authenticates anybody: after the revocation and any further operations on the store,
  as long as none of them imports a backup that names the key, no text that is not a master key gives claims of
  that key, and none gives the claims of the master either, even if the revoked key was the only one: the store goes
  on enforcing authentication. (Tokens of the MCP server, which are no secrets of the store, are not meant here.)\<close>

theorem revoked_key_is_locked_out:
  assumes "revoke_key lib now kid s = (True, s1)" and "run_store lib digest ops s1 = s2" and "ks_enabled s2"
    and "store_ok s" and "\<not> list_ex (imports_key lib kid) ops"
    and "resolve_auth \<lparr>ae_lib = lib, ae_digest = digest, ae_rules = rules, ae_now = t\<rparr> m (Some \<lparr>sh_store = s2, sh_unreachable = u, sh_down = d\<rparr>) supplied
           = Gives (Some c)"
    and "supplied \<notin> set (normalize_master_keys m)"
  shows "ac_kind c \<noteq> ''master'' \<and> ac_key_id c \<noteq> Some kid"
proof -
  let ?h = "\<lparr>sh_store = s2, sh_unreachable = u, sh_down = d\<rparr>"
  let ?env = "\<lparr>ae_lib = lib, ae_digest = digest, ae_rules = rules, ae_now = t\<rparr>"
  have rev: "is_revoked kid s2"
    using run_keeps_revoked [where digest = digest, OF revoke_ok [OF assms(1,4)] revoke_revokes [OF assms(1)] assms(5)] assms(2) by simp
  then have "\<not> open_install lib m (Some ?h)"
    using assms(3) by (auto simp: open_install_def store_enforces_auth_def list_keys_def is_revoked_def)
  moreover have "\<not> master_key_matches supplied m" using assms(7) by (simp add: master_match_iff)
  ultimately obtain k where k: "resolve_key lib digest supplied s2 = Some k" "claims_for_key ?env s2 k = Gives c"
    using resolve_auth_cases [OF assms(6)] by auto
  have "vk_id k \<noteq> kid" using resolved_row [OF k(1)] rev by (auto simp: is_revoked_def)
  then show ?thesis using claims_for_key_shape [OF k(2)] by auto
qed

section \<open>Fences of a key\<close>

lemma applied_claims:
  assumes "apply_auth_claims_to_meta rules (Some c) cat q = Some q1" and "ac_kind c = ''virtual''"
  shows "q_no_frontier q1 = (q_no_frontier q \<or> key_forbids_frontier c)"
    and "q_region_pin q1 = fill (q_region_pin q) (ac_pin c)" and "q_tier_cap q1 = fill (q_tier_cap q) (ac_tier_cap c)"
    and "q_key_models q1 = fst (patterns_from_claims (Some (listed_claims c)) cat)"
    and "q_team_models q1 = snd (patterns_from_claims (Some (listed_claims c)) cat)"
  using assms by (auto simp: apply_auth_claims_to_meta_def split: prod.splits option.splits)

lemma profile_keeps_fences:
  "q_no_frontier (apply_profile_to_meta p q) = (q_no_frontier q \<or> (case p of None \<Rightarrow> False | Some x \<Rightarrow> pp_no_frontier x))"
  "q_region_pin (apply_profile_to_meta p q) = q_region_pin q"
  by (simp_all add: apply_profile_to_meta_def split: option.split)

lemma cost_tier_keeps_fences:
  "q_no_frontier (snd (apply_cost_tier jl attrs extra q)) = q_no_frontier q"
  "q_region_pin (snd (apply_cost_tier jl attrs extra q)) = q_region_pin q"
  by (simp_all add: apply_cost_tier_def split: option.split)


text \<open>A cap a client sends wins over the cap of its key, even one that is no tier: where the key's cap keeps a
  request without the header away from the frontier, any text outside the ladder in \<open>X-Daari-Tier-Cap\<close> removes the
  cap altogether, and the frontier is reachable whenever it would be for a key without a cap.\<close>

theorem header_lifts_the_key_cap:
  assumes "apply_auth_claims_to_meta rules (Some c) cat q = Some q1"
    and "apply_auth_claims_to_meta rules (Some c) cat (q\<lparr>q_tier_cap := None\<rparr>) = Some q0"
    and "ac_kind c = ''virtual''" and "ac_tier_cap c = Some cap" and "upper_ascii cap \<in> set TIER_LADDER"
    and "q_tier_cap q = Some h" and "h \<noteq> ''''" and "upper_ascii h \<notin> set TIER_LADDER"
    and "upper_ascii (str_or (fc_max_tier fc) '''') \<notin> set TIER_LADDER"
  shows "effective_tier_cap fc q0 = Some (upper_ascii cap) \<and> \<not> frontier_reachable fc q0
    \<and> effective_tier_cap fc q1 = None \<and> frontier_reachable fc q1 = frontier_reachable fc (q0\<lparr>q_tier_cap := None\<rparr>)"
proof -
  have cap: "cap \<noteq> ''''" using assms(5) by (auto simp: TIER_LADDER_def upper_ascii_def)
  have e: "'''' \<notin> set TIER_LADDER" by (simp add: TIER_LADDER_def)
  note a1 = applied_claims [OF assms(1,3)] and a0 = applied_claims [OF assms(2,3)]
  have q1: "q_tier_cap q1 = Some h" using a1(3) assms(6,7) by (simp add: fill_def str_or_def)
  have q0: "q_tier_cap q0 = Some cap" using a0(3) assms(4) cap by (simp add: fill_def str_or_def)
  have same: "q_no_frontier q1 = q_no_frontier q0" "q_key_models q1 = q_key_models q0" "q_team_models q1 = q_team_models q0"
    using a1 a0 by simp_all
  have c0: "effective_tier_cap fc q0 = Some (upper_ascii cap)"
    using assms(5) cap by (simp add: effective_tier_cap_def q0 str_or_def)
  have c1: "effective_tier_cap fc q1 = None" using assms(7-9) by (simp add: effective_tier_cap_def q1 str_or_def)
  have c2: "effective_tier_cap fc (q0\<lparr>q_tier_cap := None\<rparr>) = None"
    using assms(9) e by (simp add: effective_tier_cap_def upper_ascii_def)
  show ?thesis using c0 c1 c2 same by (simp add: frontier_reachable_def cong: option.case_cong)
qed

section \<open>Team selection\<close>

lemma team_of_row_id [simp]: "tm_id (team_of_row lib r) = tr_id r"
  by (simp add: team_of_row_def)

lemma get_team_known: "get_team lib tid name s = Some t \<Longrightarrow> \<exists>r \<in> set (ks_teams s). tm_id t = tr_id r"
  by (auto simp: get_team_def split: if_splits dest: found_team)

lemma selected_team_facts:
  assumes "resolve_team_header lib headers c (Some s) = Inr (Some tid)"
  shows "\<exists>k. ac_key c = Some k \<and> ac_kind c = ''virtual'' \<and> (\<exists>r \<in> set (ks_teams s). tr_id r = tid)
    \<and> is_team_member (membership_subject lib k) tid s
    \<and> (py_strip (str_or (vk_team k) '''') = '''' \<or> py_strip (str_or (vk_team k) '''') = tid \<or> key_allows_team_override k)"
proof (cases "ac_key c")
  case None
  then show ?thesis using assms by (simp add: resolve_team_header_def)
next
  case (Some k)
  let ?raw = "py_strip (str_or (map_of headers ''x-daari-team'') '''')"
  let ?t = "if get_team lib (Some ?raw) None s \<noteq> None then get_team lib (Some ?raw) None s else get_team lib None (Some ?raw) s"
  have virt: "ac_kind c = ''virtual''" using assms Some by (simp add: resolve_team_header_def Let_def split: if_splits)
  obtain t where t: "?t = Some t"
    using assms Some by (cases ?t) (simp_all add: resolve_team_header_def Let_def split: if_splits)
  have "\<exists>r \<in> set (ks_teams s). tr_id r = tm_id t"
    using t get_team_known [of lib "Some ?raw" None s t] get_team_known [of lib None "Some ?raw" s t] by (auto split: if_splits)
  moreover have "(py_strip (str_or (vk_team k) '''') = '''' \<or> py_strip (str_or (vk_team k) '''') = tm_id t \<or> key_allows_team_override k)
    \<and> is_team_member (membership_subject lib k) (tm_id t) s \<and> tm_id t = tid"
    using assms Some t by (auto simp: resolve_team_header_def Let_def split: if_splits)
  ultimately show ?thesis using Some virt by auto
qed

text \<open>A request that selects a team with \<open>X-Daari-Team\<close> is let into that team only if it exists, its identity
  is a member of it, and its key is not bound to another team unless the key allows that; and the selection changes
  nothing else of who it is: key, client, tier cap and a region pin it already has.\<close>

theorem team_selection_needs_membership:
  assumes "resolve_team_header lib headers c (Some s) = Inr (Some tid)" and "apply_selected_team env tid s c = Some c'"
  shows "(\<exists>k r. ac_kind c = ''virtual'' \<and> ac_key c = Some k \<and> r \<in> set (ks_teams s) \<and> tr_id r = tid
      \<and> (membership_subject lib k, py_strip tid) \<in> set (ks_members s)
      \<and> (py_strip (str_or (vk_team k) '''') \<in> {'''', tid} \<or> key_allows_team_override k))
    \<and> ac_selected c' = Some tid \<and> ac_kind c' = ac_kind c \<and> ac_key c' = ac_key c \<and> ac_key_id c' = ac_key_id c
    \<and> ac_client c' = ac_client c \<and> ac_tier_cap c' = ac_tier_cap c
    \<and> (str_or (ac_pin c) '''' \<noteq> '''' \<longrightarrow> ac_pin c' = ac_pin c)"
proof -
  obtain k where kt: "ac_key c = Some k" "ac_kind c = ''virtual''" "\<exists>r \<in> set (ks_teams s). tr_id r = tid"
    "is_team_member (membership_subject lib k) tid s"
    "py_strip (str_or (vk_team k) '''') \<in> {'''', tid} \<or> key_allows_team_override k"
    using selected_team_facts [OF assms(1)] by auto
  have "py_strip (membership_subject lib k) = membership_subject lib k"
    by (simp add: membership_subject_def split: option.split)
  then have "(membership_subject lib k, py_strip tid) \<in> set (ks_members s)" using kt(4) by (simp add: is_team_member_def)
  then show ?thesis
    using kt assms(2) by (auto simp: apply_selected_team_def Let_def split: option.splits)
qed

section \<open>Concrete requests\<close>

definition demo_auth :: auth_env where
  "demo_auth = \<lparr>ae_lib = demo_keys_lib, ae_digest = id, ae_rules = (\<lambda>_. Some []), ae_now = 0\<rparr>"

definition demo_handle :: store_handle where
  "demo_handle = \<lparr>sh_store = demo_store None, sh_unreachable = False, sh_down = False\<rparr>"

lemma demo_claims: "\<exists>k. resolve_key demo_keys_lib id ''s1'' (demo_store None) = Some k
    \<and> resolve_auth demo_auth (OneMaster ''m'') (Some demo_handle) ''s1'' = Gives (Some (virtual_claims k)) \<and> vk_id k = ''k1''"
proof -
  obtain k where k: "resolve_key demo_keys_lib id ''s1'' (demo_store None) = Some k" "vk_id k = ''k1''" using demo_resolves by blast
  have e: "vk_expires k = None" "vk_team k = None"
    using k(1) by (auto simp: resolve_key_def demo_store_def empty_store_def owns_hash_def demo_row_fields key_of_row_def Let_def)
  have m: "normalize_master_keys (OneMaster ''m'') = [''m'']" by code_simp
  have en: "ks_enabled (demo_store None)" by (simp add: demo_store_def empty_store_def)
  have "\<not> master_key_matches ''s1'' (OneMaster ''m'')" by (simp add: master_match_iff m)
  then show ?thesis
    using k e en by (simp add: resolve_auth_def demo_auth_def demo_handle_def ask_store_def claims_for_key_def key_is_expired_def is_past_def)
qed

theorem authentication_is_earned_witness:
  "\<exists>c r. resolve_auth demo_auth (OneMaster ''m'') (Some demo_handle) ''s1'' = Gives (Some c) \<and> r \<in> set (ks_keys (sh_store demo_handle))
     \<and> kr_revoked r = None \<and> ac_key_id c = Some (kr_id r)"
proof -
  obtain k where k: "resolve_auth demo_auth (OneMaster ''m'') (Some demo_handle) ''s1'' = Gives (Some (virtual_claims k))"
    using demo_claims by blast
  have m: "normalize_master_keys (OneMaster ''m'') = [''m'']" by code_simp
  have v: "ac_kind (virtual_claims k) = ''virtual''" by (simp add: virtual_claims_def claims_of_kind_def)
  show ?thesis using authentication_is_earned [OF k] k v by (auto simp: m)
qed

theorem revoked_key_is_locked_out_witness:
  "\<exists>s1. revoke_key demo_keys_lib 1 ''k1'' (demo_store None) = (True, s1)
     \<and> \<not> (\<exists>c. resolve_auth \<lparr>ae_lib = demo_keys_lib, ae_digest = id, ae_rules = (\<lambda>_. Some []), ae_now = 2\<rparr> NoMaster
              (Some \<lparr>sh_store = run_store demo_keys_lib id [] s1, sh_unreachable = False, sh_down = False\<rparr>) ''s1'' = Gives (Some c)
            \<and> ac_kind c = ''master'')"
proof -
  obtain s1 where r: "revoke_key demo_keys_lib 1 ''k1'' (demo_store None) = (True, s1)" and en: "ks_enabled s1"
    by (simp add: revoke_key_def update_active_def active_row_def demo_store_def empty_store_def demo_row_fields)
  have "normalize_master_keys NoMaster = []" by code_simp
  then show ?thesis
    using r en demo_store_ok revoked_key_is_locked_out [OF r refl, where digest = id and ops = "[]" and rules = "\<lambda>_. Some []" and t = 2
        and m = NoMaster and u = False and d = False and supplied = "''s1''"]
    by (auto simp: run_store_def)
qed

definition fenced_key_claims :: auth_claims where
  "fenced_key_claims = virtual_claims ((key_of_row demo_keys_lib (demo_store None) (demo_row None))\<lparr>vk_meta := [(''no_frontier'', JBool True)]\<rparr>)"

lemma fenced_key: "ac_kind fenced_key_claims = ''virtual''" "key_forbids_frontier fenced_key_claims" "ac_tier_cap fenced_key_claims = None"
  by (simp_all add: fenced_key_claims_def virtual_claims_def claims_of_kind_def key_forbids_frontier_def key_of_row_def Let_def
      demo_row_def row_of_spec_def demo_spec_def no_spec_def)

lemma claims_apply: "q_key_rules q = Some rs \<Longrightarrow> \<exists>q1. apply_auth_claims_to_meta rules (Some c) cat q = Some q1"
  by (auto simp: apply_auth_claims_to_meta_def split: prod.splits)


theorem header_lifts_the_key_cap_witness:
  "\<exists>q1. apply_auth_claims_to_meta (\<lambda>_. Some []) (Some (fenced_key_claims\<lparr>ac_tier_cap := Some ''L3''\<rparr>)) None
       (demo_request []\<lparr>q_key_rules := Some [], q_tier_cap := Some ''L6''\<rparr>) = Some q1
     \<and> effective_tier_cap demo_fence q1 = None"
proof -
  let ?c = "fenced_key_claims\<lparr>ac_tier_cap := Some ''L3''\<rparr>" and ?q = "demo_request []\<lparr>q_key_rules := Some [], q_tier_cap := Some ''L6''\<rparr>"
  obtain q1 where q1: "apply_auth_claims_to_meta (\<lambda>_. Some []) (Some ?c) None ?q = Some q1"
    using claims_apply [of ?q "[]" "\<lambda>_. Some []" ?c None] by auto
  obtain q0 where q0: "apply_auth_claims_to_meta (\<lambda>_. Some []) (Some ?c) None (?q\<lparr>q_tier_cap := None\<rparr>) = Some q0"
    using claims_apply [of "?q\<lparr>q_tier_cap := None\<rparr>" "[]" "\<lambda>_. Some []" ?c None] by auto
  have u: "upper_ascii ''L3'' \<in> set TIER_LADDER" "upper_ascii ''L6'' \<notin> set TIER_LADDER" by code_simp+
  have f: "upper_ascii (str_or (fc_max_tier demo_fence) '''') \<notin> set TIER_LADDER"
    by (simp add: demo_fence_def TIER_LADDER_def upper_ascii_def)
  show ?thesis
    using header_lifts_the_key_cap [OF q1 q0, of "''L3''" "''L6''" demo_fence] q1 u f fenced_key(1)
    by (auto simp: upper_ascii_def)
qed

definition team_store :: key_store where
  "team_store = (demo_store None)\<lparr>ks_teams := [low_team], ks_members := [(''k1'', ''t1'')]\<rparr>"

theorem team_selection_needs_membership_witness:
  "\<exists>k c'. resolve_team_header demo_keys_lib [(''x-daari-team'', ''ops'')] (virtual_claims k) (Some team_store) = Inr (Some ''t1'')
     \<and> apply_selected_team demo_auth ''t1'' team_store (virtual_claims k) = Some c' \<and> ac_selected c' = Some ''t1''"
proof -
  obtain k where k: "resolve_key demo_keys_lib id ''s1'' (demo_store None) = Some k" "vk_id k = ''k1''" using demo_resolves by blast
  have e: "vk_team k = None" "vk_meta k = kr_meta (demo_row None)" "vk_client k = None"
    using k(1) by (auto simp: resolve_key_def demo_store_def empty_store_def owns_hash_def demo_row_fields key_of_row_def Let_def)
      (simp add: demo_row_def row_of_spec_def demo_spec_def no_spec_def)
  have m: "map_of (kr_meta (demo_row None)) f = None" if "f \<noteq> ''region_pin''" "f \<noteq> ''priority''" for f
    using that by (simp add: demo_row_def row_of_spec_def demo_spec_def no_spec_def key_meta_def budget_meta_def Let_def
        write_tiers_to_meta_def write_signals_def delete_conv update_conv split: option.split)
  have s: "py_strip ''ops'' = ''ops''" "py_strip ''k1'' = ''k1''" "py_strip ''t1'' = ''t1''" by code_simp+
  have sel: "resolve_team_header demo_keys_lib [(''x-daari-team'', ''ops'')] (virtual_claims k) (Some team_store) = Inr (Some ''t1'')"
    using e k(2) by (simp add: resolve_team_header_def Let_def virtual_claims_def claims_of_kind_def get_team_def team_store_def low_team_def
        demo_store_def empty_store_def is_team_member_def membership_subject_def obj_get_def m s)
  obtain c' where c': "apply_selected_team demo_auth ''t1'' team_store (virtual_claims k) = Some c'"
    by (simp add: apply_selected_team_def Let_def demo_auth_def signal_overrides_from_meta_def get_team_def team_store_def demo_store_def
        empty_store_def low_team_def team_of_row_def obj_get_def)
  show ?thesis using sel c' team_selection_needs_membership [OF sel c'] by blast
qed

end
