(* ===== verification/Admission.thy ===== *)
theory Admission
  imports KeyClaims AdmissionGate AuthFailures
begin

text \<open>
  The way of a request into the gateway: the two middlewares \<open>require_api_key\<close> and
  \<open>enforce_rate_limits\<close> of \<open>create_app\<close> (\<open>daari/server/app.py\<close>), composed from the store, the
  rate limiter, the in-flight gate, the invalid-key counters and the budgets. Starlette runs the
  middleware added last first, so the rate limits are the outer one and authentication the inner.

  What is behind both, the handler, is an argument. Of a response the status and the error code are
  kept. The headers of a request have lower-case names. SSO tokens, the OAuth server, retired models
  and the estimate of an upload are arguments; the metrics, the alerts and the audit log are events.
\<close>

section \<open>Requests and state\<close>

record http_request =
  hr_path :: pystr
  hr_method :: pystr
  hr_headers :: "(pystr \<times> pystr) list"
  hr_payload :: metadata                                   \<comment> \<open>the JSON object of the body, or empty\<close>
  hr_estimate :: "(input_field \<times> nat option list) option"  \<comment> \<open>what the token estimate reads of it\<close>
  hr_upload :: "int option"                                \<comment> \<open>the token estimate of a multipart upload\<close>
  hr_peer :: "pystr option option"

datatype front_event =
    SlotTaken
  | SlotGiven
  | GaugesTaken "pystr list"
  | GaugesGiven "pystr list"
  | Limited "pystr option"          \<comment> \<open>the limiter was asked, for this team\<close>
  | Audited pystr
  | Rejected pystr
  | Handled "auth_claims option"

record ('p, 'f) front =
  fw_store :: "store_handle option"
  fw_limiter :: "('p, 'f) limiter"
  fw_gate :: gate
  fw_throttle :: stamp_map
  fw_lockout :: lockout
  fw_ledger :: ledger
  fw_log :: "front_event list"

record ('p, 'f) front_cfg =
  fx_master :: master_key
  fx_auth :: auth_env
  fx_oauth :: "pystr \<Rightarrow> auth_claims option"      \<comment> \<open>the local authorization server, if on\<close>
  fx_sso :: "pystr \<Rightarrow> bool"                      \<comment> \<open>a verified single sign-on token\<close>
  fx_cors :: "pystr set"
  fx_mcp_oauth :: bool
  fx_throttle :: "throttle_cfg option"
  fx_throttle_get :: "int option redis_said"
  fx_throttle_incr :: "int redis_said"
  fx_lockout :: "lockout_cfg option"
  fx_lockout_get :: "(bool \<times> int option \<times> int option) redis_said"
  fx_lockout_incr :: "int redis_said"
  fx_clock :: pyfloat
  fx_ledger_on :: bool
  fx_budget :: budget_env
  fx_limits :: "('p, 'f) limiter_cfg option"
  fx_reads :: env
  fx_boost :: bool
  fx_retired :: "pystr \<Rightarrow> bool"

datatype reply = Reply int pystr | Raised | Waiting

type_synonym ('p, 'f) stage = "('p, 'f) front \<Rightarrow> reply \<times> ('p, 'f) front"
type_synonym ('p, 'f) handler = "auth_claims option \<Rightarrow> ('p, 'f) stage"

definition record_event :: "front_event \<Rightarrow> ('p, 'f) front \<Rightarrow> ('p, 'f) front" where
  "record_event e w = w\<lparr>fw_log := fw_log w @ [e]\<rparr>"

definition header :: "http_request \<Rightarrow> pystr \<Rightarrow> pystr" where
  "header rq name = str_or (map_of (hr_headers rq) name) ''''"

definition store_of :: "('p, 'f) front \<Rightarrow> key_store option" where
  "store_of w = map_option sh_store (fw_store w)"

section \<open>Authentication\<close>

definition open_paths :: "master_key \<Rightarrow> pystr set" where
  "open_paths m =
     {''/health'', ''/ready'', ''/v1/messages/health'', ''/.well-known/oauth-protected-resource'',
      ''/.well-known/oauth-protected-resource/mcp'', ''/.well-known/oauth-authorization-server'', ''/oauth/token'',
      ''/oauth/revoke'', ''/v1/mcp/registry.json'', ''/v1/daari/webhooks/anthropic/org''}
     \<union> (if normalize_master_keys m = [] then {''/metrics''} else {})"

definition is_preflight :: "pystr set \<Rightarrow> http_request \<Rightarrow> bool" where
  "is_preflight cors rq = (cors \<noteq> {} \<and> hr_method rq = ''OPTIONS'' \<and> py_strip (header rq ''origin'') \<in> cors)"

definition control_plane :: "pystr \<Rightarrow> bool" where
  "control_plane path = (starts_with path ''/v1/daari/'' \<or> starts_with path ''/v1/org-learning/'')"

text \<open>No claims: the address is throttled first, then the key prefix.\<close>

definition refuse_locked :: "('p, 'f) front_cfg \<Rightarrow> http_request \<Rightarrow> pystr \<Rightarrow> ('p, 'f) stage" where
  "refuse_locked cfg rq supplied w =
     (let ip = client_ip_from_request (hr_peer rq);
          fail = (Reply 401 (if hr_path rq = ''/mcp'' \<and> fx_mcp_oauth cfg then ''oauth_challenge'' else ''invalid_key''))
      in case fx_lockout cfg of
           None \<Rightarrow> (fail, record_event (Audited ''invalid_key'') w)
         | Some lc \<Rightarrow>
             (case lockout_check lc (fx_lockout_get cfg) (Some supplied) ip (fx_clock cfg) (fw_lockout w) of
                (d, st1) \<Rightarrow>
                  (if \<not> ld_allowed d
                   then (Reply 429 ''auth_key_locked'',
                         record_event (Audited ''auth_key_locked'') (record_event (Rejected ''auth_key_locked'') (w\<lparr>fw_lockout := st1\<rparr>)))
                   else (case lockout_record_failure lc (fx_lockout_incr cfg) (Some supplied) ip (fx_clock cfg) st1 of
                       (n, st2, cmds) \<Rightarrow> (fail, record_event (Audited ''invalid_key'') (w\<lparr>fw_lockout := st2\<rparr>))))))"

definition refuse_unknown :: "('p, 'f) front_cfg \<Rightarrow> http_request \<Rightarrow> pystr \<Rightarrow> ('p, 'f) stage" where
  "refuse_unknown cfg rq supplied w =
     (let ip = client_ip_from_request (hr_peer rq) in
      case fx_throttle cfg of
        None \<Rightarrow> refuse_locked cfg rq supplied w
      | Some tc \<Rightarrow>
          (case throttle_check tc (fx_throttle_get cfg) ip (fx_clock cfg) (fw_throttle w) of
             (d, hits) \<Rightarrow>
               (if \<not> td_allowed d
                then (Reply 429 ''auth_throttled'',
                      record_event (Audited ''auth_throttled'') (record_event (Rejected ''auth_throttled'') (w\<lparr>fw_throttle := hits\<rparr>)))
                else (case throttle_record_failure tc (fx_throttle_incr cfg) ip (fx_clock cfg) hits of
                    (n, hits2, cmds) \<Rightarrow> refuse_locked cfg rq supplied (w\<lparr>fw_throttle := hits2\<rparr>)))))"

section \<open>Budgets of a key\<close>

record budget_notice =
  bn_window :: "window_status option"
  bn_soft :: bool
  bn_requests :: "window_status option"
  bn_requests_soft :: bool

definition no_notice :: budget_notice where
  "no_notice = \<lparr>bn_window = None, bn_soft = False, bn_requests = None, bn_requests_soft = False\<rparr>"

definition notice_of :: "pyfloat \<Rightarrow> window_status list \<Rightarrow> budget_notice" where
  "notice_of mark ss =
     (let usd = tightest_window ss; req = tightest_request_window ss in
      \<lparr>bn_window = (if usd = None then req else usd),
       bn_soft = (case usd of None \<Rightarrow> False | Some s \<Rightarrow> in_soft_budget_band mark s),
       bn_requests = req, bn_requests_soft = (case req of None \<Rightarrow> False | Some s \<Rightarrow> in_soft_budget_band mark s)\<rparr>)"

text \<open>Expired boosts are dropped once, and the key is read again.\<close>

definition prune_boosts :: "('p, 'f) front_cfg \<Rightarrow> store_handle \<Rightarrow> virtual_key \<Rightarrow> ('p, 'f) front \<Rightarrow> virtual_key \<times> ('p, 'f) front" where
  "prune_boosts cfg h k w =
     (case prune_key_budget_boosts (ae_lib (fx_auth cfg)) (ae_now (fx_auth cfg)) (vk_id k) (sh_store h) of
        (expired, s) \<Rightarrow>
          (if expired = [] then (k, w)
           else ((case get_key (ae_lib (fx_auth cfg)) (vk_id k) s of None \<Rightarrow> k | Some fresh \<Rightarrow> fresh),
                 record_event (Audited ''budget.boost.expire'') (w\<lparr>fw_store := Some (h\<lparr>sh_store := s\<rparr>)\<rparr>))))"

definition billed_team :: "key_lib \<Rightarrow> key_store \<Rightarrow> auth_claims \<Rightarrow> virtual_key \<Rightarrow> team option" where
  "billed_team lib s c k =
     (let own = get_team lib (vk_team k) None s in
      if str_or (ac_selected c) '''' = '''' then own
      else (case get_team lib (ac_selected c) None s of None \<Rightarrow> own | Some t \<Rightarrow> Some t))"

definition budget_client :: "auth_claims \<Rightarrow> pystr" where
  "budget_client c = str_or (ac_client c) (str_or (ac_key_id c) '''')"

text \<open>\<open>Inl\<close>: the response; \<open>Inr\<close>: the claims with the key as it is now.\<close>

definition budget_stage ::
    "('p, 'f) front_cfg \<Rightarrow> pyfloat \<Rightarrow> store_handle \<Rightarrow> virtual_key \<Rightarrow> auth_claims \<Rightarrow> ('p, 'f) front \<Rightarrow>
     (reply + auth_claims \<times> budget_notice) \<times> ('p, 'f) front" where
  "budget_stage cfg mark h k c w =
     (if \<not> fx_ledger_on cfg then (Inr (c, no_notice), w)
      else (case prune_boosts cfg h k w of (k1, w1) \<Rightarrow>
        (let c1 = c\<lparr>ac_key := Some k1\<rparr>;
             s = (case store_of w1 of None \<Rightarrow> sh_store h | Some s \<Rightarrow> s);
             tm = billed_team (ae_lib (fx_auth cfg)) s c1 k1;
             ids = (case tm of None \<Rightarrow> [] | Some t \<Rightarrow> team_client_ids (tm_id t) s)
         in case budget_status (fx_budget cfg) k1 tm (budget_client c1) ids (fw_ledger w1) of
              (None, l) \<Rightarrow> (Inl Raised, w1\<lparr>fw_ledger := l\<rparr>)
            | (Some ss, l) \<Rightarrow>
                (let w2 = w1\<lparr>fw_ledger := l\<rparr> in
                 case find ws_exceeded ss of
                   Some e \<Rightarrow> (Inl (Reply 402 ''budget_exceeded''),
                     record_event (Audited ''budget_exceeded'')
                       (record_event (Rejected (if ws_quota e = QuotaRequests then ''request_quota'' else ''budget'')) w2))
                 | None \<Rightarrow> (Inr (c1, notice_of mark ss), w2)))))"

section \<open>\<open>require_api_key\<close>\<close>

definition stamp_use :: "('p, 'f) front_cfg \<Rightarrow> auth_claims \<Rightarrow> ('p, 'f) front \<Rightarrow> ('p, 'f) front" where
  "stamp_use cfg c w = (case fw_store w of None \<Rightarrow> w
     | Some h \<Rightarrow>
         (if ac_kind c = ''virtual'' \<and> str_or (ac_key_id c) '''' \<noteq> '''' \<and> \<not> sh_down h
          then w\<lparr>fw_store := Some (h\<lparr>sh_store := snd (touch_last_used (ae_lib (fx_auth cfg)) 60000000 (ae_now (fx_auth cfg))
                   (str_or (ac_key_id c) '''') (sh_store h))\<rparr>)\<rparr>
          else w))"

definition team_error_code :: "team_error \<Rightarrow> pystr" where
  "team_error_code e = (case e of TeamNotFound t \<Rightarrow> ''team_not_found'' | TeamOverrideDenied \<Rightarrow> ''team_override_denied''
     | TeamMembershipRequired \<Rightarrow> ''team_membership_required'')"

text \<open>The part after the claims are known: team, budgets, stamp, handler.\<close>

definition admit_claims ::
    "('p, 'f) front_cfg \<Rightarrow> pyfloat \<Rightarrow> http_request \<Rightarrow> ('p, 'f) handler \<Rightarrow> auth_claims \<Rightarrow> ('p, 'f) stage" where
  "admit_claims cfg mark rq next c w =
     (case (ac_key c, fw_store w) of
        (Some k, Some h) \<Rightarrow>
          (if ac_kind c \<noteq> ''virtual'' then next (Some c) w
           else if sh_down h \<and> py_strip (header rq ''x-daari-team'') \<noteq> '''' then (Reply 503 ''postgres_unavailable'', w)
           else (case resolve_team_header (ae_lib (fx_auth cfg)) (hr_headers rq) c (Some (sh_store h)) of
               Inl e \<Rightarrow> (Reply 403 (team_error_code e), record_event (Audited ''auth.team_selection_denied'') w)
             | Inr selected \<Rightarrow>
                 (case (case selected of None \<Rightarrow> Some c | Some t \<Rightarrow> apply_selected_team (fx_auth cfg) t (sh_store h) c) of
                    None \<Rightarrow> (Raised, w)
                  | Some c1 \<Rightarrow>
                      (case budget_stage cfg mark h k c1 w of
                         (Inl r, w1) \<Rightarrow> (r, w1)
                       | (Inr (c2, notice), w1) \<Rightarrow> next (Some c2) (stamp_use cfg c2 w1)))))
      | _ \<Rightarrow> next (Some c) (stamp_use cfg c w))"

definition auth_outcome ::
    "('p, 'f) front_cfg \<Rightarrow> pyfloat \<Rightarrow> http_request \<Rightarrow> ('p, 'f) handler \<Rightarrow> pystr \<Rightarrow> auth_claims option \<Rightarrow> ('p, 'f) stage" where
  "auth_outcome cfg mark rq next supplied claims w =
     (case claims of
        Some c \<Rightarrow>
          (if ac_kind c = ''expired'' then (Reply 401 ''key_expired'', record_event (Audited ''auth.key_expired'') w)
           else if ac_kind c = ''insufficient_scope'' then (Reply 403 ''insufficient_scope'', record_event (Audited ''mcp_oauth.token_denied'') w)
           else admit_claims cfg mark rq next c w)
      | None \<Rightarrow>
          (if supplied \<noteq> '''' \<and> fx_sso cfg supplied
           then (if control_plane (hr_path rq) then next None w
                 else (Reply 401 ''sso_key_required'', record_event (Audited ''auth.sso_key_required'') w))
           else refuse_unknown cfg rq supplied w))"

definition require_api_key ::
    "('p, 'f) front_cfg \<Rightarrow> pyfloat \<Rightarrow> http_request \<Rightarrow> ('p, 'f) handler \<Rightarrow> ('p, 'f) stage" where
  "require_api_key cfg mark rq next w =
     (let m = fx_master cfg; supplied = extract_api_key (hr_headers rq) in
      if hr_path rq \<in> open_paths m then next None w
      else if is_preflight (fx_cors cfg) rq then next None w
      else if open_install (ae_lib (fx_auth cfg)) m (fw_store w) then next None w
      else if (case fw_store w of None \<Rightarrow> False | Some h \<Rightarrow> sh_unreachable h) \<and> \<not> master_key_matches supplied m
      then (Reply 503 ''postgres_unavailable'', w)
      else (case resolve_auth (fx_auth cfg) m (fw_store w) supplied of
          StoreDown \<Rightarrow> (Reply 503 ''postgres_unavailable'', w)
        | Raises \<Rightarrow> (Raised, w)
        | Gives claims \<Rightarrow>
            auth_outcome cfg mark rq next supplied
              (if claims = None \<and> supplied \<noteq> '''' then fx_oauth cfg supplied else claims) w))"

section \<open>\<open>enforce_rate_limits\<close>\<close>

definition open_rate_paths :: "pystr set" where
  "open_rate_paths = {''/health'', ''/ready'', ''/v1/messages/health'', ''/metrics'', ''/v1/daari/stats'',
     ''/v1/daari/webhooks/anthropic/org''}"

definition non_interactive :: "pystr \<Rightarrow> bool" where
  "non_interactive path = (starts_with path ''/v1/batches'' \<or> starts_with path ''/v1/files'')"

definition asked_model :: "http_request \<Rightarrow> pystr" where
  "asked_model rq = request_model
     (if should_buffer_body (hr_method rq) then (case obj_get (hr_payload rq) ''model'' of JStr t \<Rightarrow> Some t | _ \<Rightarrow> None) else None)"

definition asked_tokens :: "http_request \<Rightarrow> int" where
  "asked_tokens rq =
     (if \<not> should_buffer_body (hr_method rq) then 0
      else if hr_path rq \<in> {''/v1/audio/transcriptions'', ''/v1/audio/translations'', ''/v1/images/edits'', ''/v1/images/variations''}
      then (case hr_upload rq of None \<Rightarrow> estimate_request_tokens (hr_estimate rq) | Some n \<Rightarrow> n)
      else estimate_request_tokens (hr_estimate rq))"

definition limit_key :: "auth_claims option \<Rightarrow> pystr" where
  "limit_key claims = (case claims of None \<Rightarrow> ''anonymous''
     | Some c \<Rightarrow> (if str_or (ac_key_id c) '''' \<noteq> '''' then str_or (ac_key_id c) ''''
                  else if ac_kind c = ''master'' then ''master'' else ''anonymous''))"

definition claims_key :: "auth_claims option \<Rightarrow> virtual_key option" where
  "claims_key claims = Option.bind claims ac_key"

definition limit_team_id :: "auth_claims option \<Rightarrow> pystr option" where
  "limit_team_id claims =
     (let pinned = Option.bind (claims_key claims) vk_team in
      case claims of None \<Rightarrow> pinned
      | Some c \<Rightarrow> (if str_or (ac_selected c) '''' \<noteq> '''' then ac_selected c else pinned))"

definition positive :: "int \<Rightarrow> int option" where
  "positive n = (if n = 0 then None else Some n)"

definition rate_request ::
    "('p, 'f) front_cfg \<Rightarrow> http_request \<Rightarrow> auth_claims option \<Rightarrow> team option \<Rightarrow> limit_request" where
  "rate_request cfg rq claims tm =
     (let k = claims_key claims; of_key = (\<lambda>f. Option.bind k (\<lambda>k. positive (f k))); of_team = (\<lambda>f. Option.bind tm (\<lambda>t. positive (f t)));
          family = rate_limit_family (hr_path rq);
          fam = family_limits_from_key (map_option vk_meta k) family;
          user = end_user_from_payload (kl_json (ae_lib (fx_auth cfg))) (JObj (if should_buffer_body (hr_method rq) then hr_payload rq else []))
      in \<lparr>rq_key_id = limit_key claims, rq_model = asked_model rq, rq_tokens = asked_tokens rq, rq_rpm = of_key vk_rpm, rq_tpm = of_key vk_tpm,
          rq_model_rpm = None, rq_model_tpm = None, rq_team_id = limit_team_id claims, rq_team_rpm = of_team tm_rpm,
          rq_team_tpm = of_team tm_tpm, rq_rpd = of_key vk_rpd, rq_team_rpd = of_team tm_rpd, rq_tpd = of_key vk_tpd,
          rq_team_tpd = of_team tm_tpd, rq_family = Some family, rq_family_rpm = positive (fst fam), rq_family_tpm = positive (snd fam),
          rq_user_id = (if user = '''' then None else Some user), rq_user_rpd = of_key vk_user_rpd, rq_user_tpd = of_key vk_user_tpd\<rparr>)"

definition gauge_leases ::
    "('p, 'f) limiter_cfg \<Rightarrow> http_request \<Rightarrow> auth_claims option \<Rightarrow> team option \<Rightarrow> (pystr \<times> int option \<times> pystr) list" where
  "gauge_leases lc rq claims tm =
     (let key_max = (case claims_key claims of None \<Rightarrow> 0
            | Some k \<Rightarrow> (if vk_max_in_flight k \<noteq> 0 then vk_max_in_flight k else max_in_flight_from_meta (vk_meta k)));
          team_max = (case tm of None \<Rightarrow> 0
            | Some t \<Rightarrow> (if tm_max_in_flight t \<noteq> 0 then tm_max_in_flight t else max_in_flight_from_meta (tm_meta t)));
          team_id = str_or (limit_team_id claims) '''';
          model_max = snd (snd (resolve_model_limits lc (asked_model rq)))
      in given (key_max > 0) (''inflight:key:'' @ limit_key claims, Some key_max, ''key_concurrency'')
         @ given (team_id \<noteq> '''' \<and> team_max > 0) (''inflight:team:'' @ team_id, Some team_max, ''team_concurrency'')
         @ given (model_max > 0) (''inflight:model:'' @ asked_model rq, Some model_max, ''model_concurrency''))"

text \<open>From the slot on: gauges, handler, and everything handed back. \<open>finally\<close> also runs when the handler raises.\<close>

definition hand_back :: "('p, 'f) front_cfg \<Rightarrow> ('p, 'f) limiter_cfg \<Rightarrow> bool \<Rightarrow> pystr list \<Rightarrow> reply \<Rightarrow> ('p, 'f) stage" where
  "hand_back cfg lc interactive held r w =
     (let w1 = (if interactive then w\<lparr>fw_gate := end_interactive (fw_gate w)\<rparr> else w) in
      case release_gauges lc (fx_reads cfg) held (fw_limiter w1) of
        (None, l) \<Rightarrow> (Raised, w1\<lparr>fw_limiter := l\<rparr>)
      | (Some u, l) \<Rightarrow> (r, record_event SlotGiven (record_event (GaugesGiven held)
            (w1\<lparr>fw_limiter := l, fw_gate := gate_release (fw_gate w1)\<rparr>))))"

definition with_slot ::
    "('p, 'f) front_cfg \<Rightarrow> ('p, 'f) limiter_cfg \<Rightarrow> http_request \<Rightarrow> ('p, 'f) handler \<Rightarrow> auth_claims option \<Rightarrow> team option \<Rightarrow>
     ('p, 'f) stage" where
  "with_slot cfg lc rq next claims tm w =
     (case try_acquire_gauges lc (fx_reads cfg) (gauge_leases lc rq claims tm) (fw_limiter w) of
        (None, l) \<Rightarrow> (Raised, w\<lparr>fw_limiter := l\<rparr>)
      | (Some (d, held), l) \<Rightarrow>
          (let w1 = w\<lparr>fw_limiter := l\<rparr> in
           if \<not> d_allowed d
           then (Reply 503 ''concurrency'',
                 record_event (Audited ''concurrency_exceeded'') (record_event (Rejected (if d_bucket d = '''' then ''key_concurrency'' else d_bucket d))
                   (record_event SlotGiven (w1\<lparr>fw_gate := gate_release (fw_gate w1)\<rparr>))))
           else (let interactive = \<not> non_interactive (hr_path rq);
                     w2 = record_event (GaugesTaken held) (if interactive then w1\<lparr>fw_gate := begin_interactive (fw_gate w1)\<rparr> else w1)
                 in case next claims w2 of (r, w3) \<Rightarrow> hand_back cfg lc interactive held r w3)))"

text \<open>\<open>Waiting\<close>: the request is parked at the gate; \<open>resume_request\<close> goes on with it.\<close>

definition admission_priority :: "('p, 'f) front_cfg \<Rightarrow> http_request \<Rightarrow> auth_claims option \<Rightarrow> team option \<Rightarrow> pystr" where
  "admission_priority cfg rq claims tm = fst (resolve_request_admission_priority (ae_lib (fx_auth cfg)) (claims_key claims) tm
     (map_of (hr_headers rq) ''x-daari-priority'') (fx_boost cfg))"

definition at_gate ::
    "('p, 'f) front_cfg \<Rightarrow> ('p, 'f) limiter_cfg \<Rightarrow> http_request \<Rightarrow> ('p, 'f) handler \<Rightarrow> auth_claims option \<Rightarrow> team option \<Rightarrow>
     ('p, 'f) stage" where
  "at_gate cfg lc rq next claims tm w =
     (case gate_arrive (fx_clock cfg) (Some (admission_priority cfg rq claims tm)) (fw_gate w) of
        (Waits n, g) \<Rightarrow> (Waiting, w\<lparr>fw_gate := g\<rparr>)
      | (Decided d, g) \<Rightarrow>
          (if \<not> d_allowed d
           then (Reply 503 ''concurrency'',
                 record_event (Audited ''concurrency_exceeded'') (record_event (Rejected ''concurrency'') (w\<lparr>fw_gate := g\<rparr>)))
           else with_slot cfg lc rq next claims tm (record_event SlotTaken (w\<lparr>fw_gate := g\<rparr>))))"

definition resume_request ::
    "('p, 'f) front_cfg \<Rightarrow> ('p, 'f) limiter_cfg \<Rightarrow> http_request \<Rightarrow> ('p, 'f) handler \<Rightarrow> auth_claims option \<Rightarrow> team option \<Rightarrow> nat \<Rightarrow>
     ('p, 'f) stage" where
  "resume_request cfg lc rq next claims tm n w =
     (case gate_resume (fx_clock cfg) n (fw_gate w) of
        None \<Rightarrow> (Waiting, w) | Some d \<Rightarrow> with_slot cfg lc rq next claims tm (record_event SlotTaken w))"

definition check_rates ::
    "('p, 'f) front_cfg \<Rightarrow> ('p, 'f) limiter_cfg \<Rightarrow> http_request \<Rightarrow> ('p, 'f) handler \<Rightarrow> auth_claims option \<Rightarrow> ('p, 'f) stage" where
  "check_rates cfg lc rq next claims w =
     (let tid = str_or (limit_team_id claims) '''';
          tm = (case store_of w of None \<Rightarrow> None
            | Some s \<Rightarrow> (if tid = '''' then None else get_team (ae_lib (fx_auth cfg)) (Some tid) None s))
      in if fx_retired cfg (asked_model rq) then (Reply 410 ''model_retired'', w)
         else (case limiter_check lc (fx_reads cfg) (rd_now (fx_reads cfg (li_calls (fw_limiter w)))) (rate_request cfg rq claims tm) (fw_limiter w) of
             (None, l) \<Rightarrow> (Raised, w\<lparr>fw_limiter := l\<rparr>)
           | (Some d, l) \<Rightarrow>
               (let w1 = record_event (Limited (limit_team_id claims)) (w\<lparr>fw_limiter := l\<rparr>) in
                if \<not> d_allowed d
                then (Reply 429 ''rate_limit'',
                      record_event (Audited ''rate_limit_exceeded'') (record_event (Rejected (rate_limit_metric_kind (Some (d_scope d)))) w1))
                else at_gate cfg lc rq next claims tm w1)))"

text \<open>\<open>claims\<close> is what \<open>request.state\<close> holds when the middleware runs: nothing, it is the outer one.\<close>

definition enforce_rate_limits ::
    "('p, 'f) front_cfg \<Rightarrow> http_request \<Rightarrow> ('p, 'f) handler \<Rightarrow> auth_claims option \<Rightarrow> ('p, 'f) stage" where
  "enforce_rate_limits cfg rq next claims w =
     (if hr_path rq \<in> open_rate_paths then next claims w
      else (case fx_limits cfg of None \<Rightarrow> next claims w
        | Some lc \<Rightarrow>
            (case claims of Some c \<Rightarrow> check_rates cfg lc rq next claims w
             | None \<Rightarrow>
                 (case resolve_auth (fx_auth cfg) (fx_master cfg) (fw_store w) (extract_api_key (hr_headers rq)) of
                    StoreDown \<Rightarrow> (Reply 503 ''postgres_unavailable'', w)
                  | Raises \<Rightarrow> (Raised, w)
                  | Gives c \<Rightarrow> check_rates cfg lc rq next c w))))"

text \<open>The application: rate limits around authentication around the handler. With neither master key nor key
  store there is no authentication middleware.\<close>

definition auth_active :: "('p, 'f) front_cfg \<Rightarrow> ('p, 'f) front \<Rightarrow> bool" where
  "auth_active cfg w = (normalize_master_keys (fx_master cfg) \<noteq> [] \<or> fw_store w \<noteq> None)"

text \<open>What the inner middleware leaves in \<open>request.state\<close>: its own claims, else those of the outer one.\<close>

definition authenticated ::
    "('p, 'f) front_cfg \<Rightarrow> pyfloat \<Rightarrow> http_request \<Rightarrow> ('p, 'f) handler \<Rightarrow> ('p, 'f) handler" where
  "authenticated cfg mark rq handler outer w =
     (if \<not> auth_active cfg w then handler outer w
      else require_api_key cfg mark rq (\<lambda>own. handler (if own = None then outer else own)) w)"

definition handled :: "('p, 'f) handler \<Rightarrow> ('p, 'f) handler" where
  "handled handler claims w = handler claims (record_event (Handled claims) w)"

definition serve_front ::
    "('p, 'f) front_cfg \<Rightarrow> pyfloat \<Rightarrow> http_request \<Rightarrow> ('p, 'f) handler \<Rightarrow> ('p, 'f) stage" where
  "serve_front cfg mark rq handler w =
     enforce_rate_limits cfg rq (authenticated cfg mark rq (handled handler)) None w"

section \<open>Traces\<close>

definition logs :: "(front_event \<Rightarrow> bool) \<Rightarrow> ('p, 'f) front \<Rightarrow> ('p, 'f) front \<Rightarrow> bool" where
  "logs Q w w' = (\<exists>hs. fw_log w' = fw_log w @ hs \<and> list_all Q hs)"

named_theorems log_steps

lemma logs_same [log_steps]: "fw_log w' = fw_log w \<Longrightarrow> logs Q w w'"
  by (simp add: logs_def)

lemma logs_trans: "logs Q w w' \<Longrightarrow> logs Q w' w'' \<Longrightarrow> logs Q w w''"
  by (force simp: logs_def)

lemma logs_event: "logs Q w w' \<Longrightarrow> Q e \<Longrightarrow> logs Q w (record_event e w')"
  by (force simp: logs_def record_event_def)

lemma logs_from: "fw_log w1 = fw_log w \<Longrightarrow> logs Q w1 w' \<Longrightarrow> logs Q w w'"
  by (simp add: logs_def)

lemma logs_weaken: "logs Q w w' \<Longrightarrow> (\<And>e. Q e \<Longrightarrow> R e) \<Longrightarrow> logs R w w'"
  by (auto simp: logs_def list_all_iff)

lemma record_event_log [simp]: "fw_log (record_event e w) = fw_log w @ [e]"
  by (simp add: record_event_def)

definition quiet :: "front_event \<Rightarrow> bool" where
  "quiet e = (case e of Audited a \<Rightarrow> True | Rejected k \<Rightarrow> True | _ \<Rightarrow> False)"

lemma refuse_locked_logs: "logs quiet w (snd (refuse_locked cfg rq supplied w))"
proof (cases "fx_lockout cfg")
  case None
  then show ?thesis by (simp add: refuse_locked_def Let_def logs_def quiet_def)
next
  case (Some lc)
  let ?ip = "client_ip_from_request (hr_peer rq)"
  obtain d st1 where c: "lockout_check lc (fx_lockout_get cfg) (Some supplied) ?ip (fx_clock cfg) (fw_lockout w) = (d, st1)"
    by (rule prod.exhaust)
  obtain n st2 cmds where r: "lockout_record_failure lc (fx_lockout_incr cfg) (Some supplied) ?ip (fx_clock cfg) st1 = (n, st2, cmds)"
    by (rule prod_cases3)
  show ?thesis by (simp add: refuse_locked_def Let_def Some c r logs_def quiet_def)
qed

lemma refuse_unknown_logs: "logs quiet w (snd (refuse_unknown cfg rq supplied w))"
proof (cases "fx_throttle cfg")
  case None
  then show ?thesis by (simp add: refuse_unknown_def Let_def refuse_locked_logs)
next
  case (Some tc)
  let ?ip = "client_ip_from_request (hr_peer rq)"
  obtain d hits where c: "throttle_check tc (fx_throttle_get cfg) ?ip (fx_clock cfg) (fw_throttle w) = (d, hits)" by (rule prod.exhaust)
  obtain n hits2 cmds where r: "throttle_record_failure tc (fx_throttle_incr cfg) ?ip (fx_clock cfg) hits = (n, hits2, cmds)"
    by (rule prod_cases3)
  have "logs quiet w (snd (refuse_locked cfg rq supplied (w\<lparr>fw_throttle := hits2\<rparr>)))"
    by (rule logs_from [OF _ refuse_locked_logs]) simp
  then show ?thesis by (auto simp: refuse_unknown_def Let_def Some c r) (simp add: logs_def quiet_def)
qed

lemma prune_boosts_logs: "prune_boosts cfg h k w = (k1, w1) \<Longrightarrow> logs quiet w w1"
  by (auto simp: prune_boosts_def logs_def quiet_def split: prod.splits if_splits)

lemma budget_stage_logs:
  assumes "budget_stage cfg mark h k c w = (x, w1)"
  shows "logs quiet w w1 \<and> (\<forall>c1 n. x = Inr (c1, n) \<longrightarrow> (\<exists>k1. c1 = c\<lparr>ac_key := k1\<rparr>))"
proof (cases "fx_ledger_on cfg")
  case False
  have "\<exists>k1. c = c\<lparr>ac_key := k1\<rparr>" by (rule exI [of _ "ac_key c"]) simp
  then show ?thesis using False assms by (auto simp: budget_stage_def logs_def)
next
  case True
  obtain k1 w0 where p: "prune_boosts cfg h k w = (k1, w0)" by (rule prod.exhaust)
  let ?c = "c\<lparr>ac_key := Some k1\<rparr>"
  let ?s = "case store_of w0 of None \<Rightarrow> sh_store h | Some s \<Rightarrow> s"
  let ?t = "billed_team (ae_lib (fx_auth cfg)) ?s ?c k1"
  let ?ids = "case ?t of None \<Rightarrow> [] | Some t \<Rightarrow> team_client_ids (tm_id t) ?s"
  obtain ss l where b: "budget_status (fx_budget cfg) k1 ?t (budget_client ?c) ?ids (fw_ledger w0) = (ss, l)" by (rule prod.exhaust)
  have l0: "logs quiet w (w0\<lparr>fw_ledger := l\<rparr>)" using prune_boosts_logs [OF p] by (simp add: logs_def)
  show ?thesis
  proof (cases ss)
    case None
    then show ?thesis using assms True p b l0 by (auto simp: budget_stage_def Let_def)
  next
    case (Some rows)
    show ?thesis
    proof (cases "find ws_exceeded rows")
      case None
      then show ?thesis using assms True p b l0 Some by (auto simp: budget_stage_def Let_def)
    next
      case (Some e)
      have "logs quiet w (record_event (Audited ''budget_exceeded'') (record_event (Rejected m) (w0\<lparr>fw_ledger := l\<rparr>)))" for m
        using l0 by (auto simp: quiet_def intro!: logs_event)
      then show ?thesis using assms True p b Some \<open>ss = Some rows\<close> by (auto simp: budget_stage_def Let_def)
    qed
  qed
qed

lemma stamp_use_log [simp]: "fw_log (stamp_use cfg c w) = fw_log w"
  by (simp add: stamp_use_def split: option.split)

section \<open>Who reaches the handler\<close>

definition supplied_key :: "http_request \<Rightarrow> pystr" where
  "supplied_key rq = extract_api_key (hr_headers rq)"

definition credential :: "('p, 'f) front_cfg \<Rightarrow> http_request \<Rightarrow> store_handle option \<Rightarrow> auth_claims \<Rightarrow> bool" where
  "credential cfg rq st c =
     (resolve_auth (fx_auth cfg) (fx_master cfg) st (supplied_key rq) = Gives (Some c)
      \<or> resolve_auth (fx_auth cfg) (fx_master cfg) st (supplied_key rq) = Gives None
        \<and> supplied_key rq \<noteq> '''' \<and> fx_oauth cfg (supplied_key rq) = Some c)"

definition same_identity :: "auth_claims \<Rightarrow> auth_claims \<Rightarrow> bool" where
  "same_identity c c0 = (ac_kind c = ac_kind c0 \<and> ac_key_id c = ac_key_id c0 \<and> ac_client c = ac_client c0 \<and> ac_tier_cap c = ac_tier_cap c0)"

definition needs_no_key :: "('p, 'f) front_cfg \<Rightarrow> http_request \<Rightarrow> store_handle option \<Rightarrow> bool" where
  "needs_no_key cfg rq st = (hr_path rq \<in> open_paths (fx_master cfg) \<or> is_preflight (fx_cors cfg) rq
     \<or> open_install (ae_lib (fx_auth cfg)) (fx_master cfg) st
     \<or> (supplied_key rq \<noteq> '''' \<and> fx_sso cfg (supplied_key rq) \<and> control_plane (hr_path rq)))"

definition let_in :: "('p, 'f) front_cfg \<Rightarrow> http_request \<Rightarrow> store_handle option \<Rightarrow> auth_claims option \<Rightarrow> bool" where
  "let_in cfg rq st claims = (case claims of None \<Rightarrow> needs_no_key cfg rq st
     | Some c \<Rightarrow> \<exists>c0. credential cfg rq st c0 \<and> ac_kind c0 \<notin> {''expired'', ''insufficient_scope''} \<and> same_identity c c0)"

lemma same_identity_refl [simp]: "same_identity c c"
  by (simp add: same_identity_def)

lemma selected_same: "apply_selected_team env t s c = Some c1 \<Longrightarrow> same_identity c1 c"
  by (auto simp: apply_selected_team_def same_identity_def Let_def split: option.splits)

lemma admit_claims_logs:
  assumes Q: "\<And>e. quiet e \<Longrightarrow> Q e" and inner: "\<And>c1 w0. same_identity c1 c \<Longrightarrow> logs Q w0 (snd (next (Some c1) w0))"
  shows "logs Q w (snd (admit_claims cfg mark rq next c w))"
proof -
  have through: "logs Q w (snd (next (Some c1) w1))" if "same_identity c1 c" "logs quiet w w1" for c1 w1
    by (rule logs_trans [OF logs_weaken [OF that(2) Q] inner [OF that(1)]])
  have plain: "logs Q w (snd (next (Some c) (stamp_use cfg c w)))"
    by (rule through) (simp_all add: logs_def)
  show ?thesis
  proof (cases "ac_key c")
    case None
    then show ?thesis using plain by (simp add: admit_claims_def)
  next
    case (Some k)
    show ?thesis
    proof (cases "fw_store w")
      case None
      then show ?thesis using plain Some by (simp add: admit_claims_def)
    next
      case (Some h)
      have budget: "logs Q w (snd (case budget_stage cfg mark h k c1 w of (Inl r, w1) \<Rightarrow> (r, w1)
          | (Inr (c2, notice), w1) \<Rightarrow> next (Some c2) (stamp_use cfg c2 w1)))" if c1: "same_identity c1 c" for c1
      proof -
        obtain x w1 where b: "budget_stage cfg mark h k c1 w = (x, w1)" by (rule prod.exhaust)
        note facts = budget_stage_logs [OF b]
        show ?thesis
        proof (cases x)
          case (Inl r)
          then show ?thesis using facts b Q by (auto intro: logs_weaken)
        next
          case (Inr y)
          obtain c2 n where y: "y = (c2, n)" by (rule prod.exhaust)
          then have "same_identity c2 c" using facts Inr c1 by (auto simp: same_identity_def)
          moreover have "logs quiet w (stamp_use cfg c2 w1)" using facts by (simp add: logs_def)
          ultimately show ?thesis using through b Inr y by simp
        qed
      qed
      have same: "logs Q w w" by (simp add: logs_def)
      have denied: "logs Q w (record_event (Audited a) w)" for a by (simp add: logs_def Q quiet_def)
      let ?sel = "\<lambda>selected. case selected of None \<Rightarrow> Some c | Some t \<Rightarrow> apply_selected_team (fx_auth cfg) t (sh_store h) c"
      have chosen: "same_identity c1 c" if "?sel selected = Some c1" for selected c1
        using that selected_same by (cases selected) auto
      have after: "logs Q w (snd (case ?sel selected of None \<Rightarrow> (Raised, w)
          | Some c1 \<Rightarrow> (case budget_stage cfg mark h k c1 w of (Inl r, w1) \<Rightarrow> (r, w1)
              | (Inr (c2, notice), w1) \<Rightarrow> next (Some c2) (stamp_use cfg c2 w1))))" for selected
        using chosen [of selected] budget same by (cases "?sel selected") simp_all
      have unstamped: "logs Q w (snd (next (Some c) w))" by (rule through) (simp_all add: logs_def)
      show ?thesis
        unfolding admit_claims_def \<open>ac_key c = Some k\<close> Some
        using after denied same unstamped by (simp split: sum.split)
    qed
  qed
qed

lemma require_api_key_logs:
  assumes Q: "\<And>e. quiet e \<Longrightarrow> Q e" and inner: "\<And>cl w0. let_in cfg rq (fw_store w) cl \<Longrightarrow> logs Q w0 (snd (next cl w0))"
  shows "logs Q w (snd (require_api_key cfg mark rq next w))"
proof -
  let ?m = "fx_master cfg" and ?k = "extract_api_key (hr_headers rq)"
  have same: "logs Q w w" by (simp add: logs_def)
  have open_way: "logs Q w (snd (next None w))" if "needs_no_key cfg rq (fw_store w)"
    by (rule inner) (simp add: let_in_def that)
  have out: "logs Q w (snd (auth_outcome cfg mark rq next ?k claims w))"
    if cred: "\<And>c. claims = Some c \<Longrightarrow> credential cfg rq (fw_store w) c" for claims
  proof (cases claims)
    case None
    show ?thesis
    proof (cases "?k \<noteq> '''' \<and> fx_sso cfg ?k")
      case True
      then show ?thesis using None open_way
        by (cases "control_plane (hr_path rq)")
          (simp_all add: auth_outcome_def needs_no_key_def supplied_key_def logs_def Q quiet_def)
    next
      case False
      then have "auth_outcome cfg mark rq next ?k claims w = refuse_unknown cfg rq ?k w"
        using None by (auto simp: auth_outcome_def)
      then show ?thesis using logs_weaken [OF refuse_unknown_logs Q] by simp
    qed
  next
    case (Some c)
    show ?thesis
    proof (cases "ac_kind c \<in> {''expired'', ''insufficient_scope''}")
      case True
      then show ?thesis using Some by (auto simp: auth_outcome_def logs_def Q quiet_def)
    next
      case False
      have "logs Q w (snd (admit_claims cfg mark rq next c w))"
      proof (rule admit_claims_logs [OF Q])
        fix c1 and w0 :: "('a, 'b) front" assume "same_identity c1 c"
        then have "let_in cfg rq (fw_store w) (Some c1)" using cred [OF Some] False by (auto simp: let_in_def)
        then show "logs Q w0 (snd (next (Some c1) w0))" by (rule inner)
      qed
      then show ?thesis using Some False by (simp add: auth_outcome_def)
    qed
  qed
  have resolved: "logs Q w (snd (case resolve_auth (fx_auth cfg) ?m (fw_store w) ?k of StoreDown \<Rightarrow> (Reply 503 ''postgres_unavailable'', w)
      | Raises \<Rightarrow> (Raised, w)
      | Gives claims \<Rightarrow> auth_outcome cfg mark rq next ?k (if claims = None \<and> ?k \<noteq> '''' then fx_oauth cfg ?k else claims) w))"
  proof (cases "resolve_auth (fx_auth cfg) ?m (fw_store w) ?k")
    case (Gives claims)
    then have "logs Q w (snd (auth_outcome cfg mark rq next ?k (if claims = None \<and> ?k \<noteq> '''' then fx_oauth cfg ?k else claims) w))"
      by (intro out) (auto simp: credential_def supplied_key_def split: if_splits)
    then show ?thesis using Gives by simp
  qed (simp_all add: same)
  show ?thesis
    using open_way resolved same by (simp add: require_api_key_def Let_def needs_no_key_def)
qed

text \<open>C8. Where authentication is on, a request reaches the handler only if its path or preflight is exempt, the
  install is open, it is a control-plane request with a verified single sign-on token, or the credential it
  carries was resolved: as a master key, a valid key, or a token of the authorization server. The claims the
  handler then sees have the identity, the client and the tier cap of that credential, never those of an expired
  key; whatever team, budget and counters do in between.\<close>

theorem handler_sees_only_credentials:
  assumes "\<And>cl w0. logs quiet w0 (snd (handler cl w0))"
    and "require_api_key cfg mark rq (handled handler) w = (r, w')" and "Handled cl \<in> set hs" and "fw_log w' = fw_log w @ hs"
  shows "case cl of None \<Rightarrow> needs_no_key cfg rq (fw_store w)
    | Some c \<Rightarrow> \<exists>c0. credential cfg rq (fw_store w) c0 \<and> ac_kind c0 \<notin> {''expired'', ''insufficient_scope''} \<and> same_identity c c0"
proof -
  let ?Q = "\<lambda>e. case e of Handled x \<Rightarrow> let_in cfg rq (fw_store w) x | _ \<Rightarrow> True"
  have q: "quiet e \<Longrightarrow> ?Q e" for e by (simp add: quiet_def split: front_event.splits)
  have "logs ?Q w (snd (require_api_key cfg mark rq (handled handler) w))"
  proof (rule require_api_key_logs [OF q])
    fix x and w0 :: "('a, 'b) front" assume "let_in cfg rq (fw_store w) x"
    then have "logs ?Q w0 (record_event (Handled x) w0)" by (simp add: logs_def)
    then show "logs ?Q w0 (snd (handled handler x w0))"
      unfolding handled_def by (rule logs_trans) (rule logs_weaken [OF assms(1) q])
  qed
  then have "let_in cfg rq (fw_store w) cl" using assms(2-4) by (auto simp: logs_def list_all_iff)
  then show ?thesis by (simp add: let_in_def)
qed

section \<open>Which team is limited\<close>

lemma resolved_selects_nothing: "resolve_auth env m h k = Gives (Some c) \<Longrightarrow> ac_selected c = None"
proof -
  have v: "ac_selected (virtual_claims x) = None" "ac_selected (expired_claims x) = None" "ac_selected (claims_of_kind y) = None" for x y
    by (simp_all add: virtual_claims_def expired_claims_def claims_of_kind_def)
  have "claims_for_key env s x = Gives c \<Longrightarrow> ac_selected c = None" for s x
    by (auto simp: claims_for_key_def v with_team_def split: if_splits option.splits)
  then show "resolve_auth env m h k = Gives (Some c) \<Longrightarrow> ac_selected c = None"
    by (auto simp: resolve_auth_def Let_def then_do_gives ask_gives v split: option.splits if_splits)
qed

definition slot_event :: "front_event \<Rightarrow> bool" where
  "slot_event e = (case e of SlotTaken \<Rightarrow> True | SlotGiven \<Rightarrow> True | GaugesTaken ks \<Rightarrow> True | GaugesGiven ks \<Rightarrow> True | _ \<Rightarrow> False)"

lemma at_gate_logs:
  assumes Q: "\<And>e. quiet e \<or> slot_event e \<Longrightarrow> Q e" and inner: "\<And>cl w0. logs Q w0 (snd (next cl w0))"
  shows "logs Q w (snd (at_gate cfg lc rq next claims tm w))"
proof -
  have handed: "logs Q w0 (snd (hand_back cfg lc i held r w0))" for i held r w0
  proof -
    let ?w = "if i then w0\<lparr>fw_gate := end_interactive (fw_gate w0)\<rparr> else w0"
    obtain u l where "release_gauges lc (fx_reads cfg) held (fw_limiter ?w) = (u, l)" by (rule prod.exhaust)
    then show ?thesis by (cases u) (simp_all add: hand_back_def Let_def logs_def Q slot_event_def)
  qed
  have slot: "logs Q w0 (snd (with_slot cfg lc rq next claims tm w0))" for w0
  proof -
    obtain x l where a: "try_acquire_gauges lc (fx_reads cfg) (gauge_leases lc rq claims tm) (fw_limiter w0) = (x, l)" by (rule prod.exhaust)
    show ?thesis
    proof (cases x)
      case None
      then show ?thesis using a by (simp add: with_slot_def logs_def)
    next
      case (Some y)
      obtain d held where y: "y = (d, held)" by (rule prod.exhaust)
      let ?i = "\<not> non_interactive (hr_path rq)" and ?w1 = "w0\<lparr>fw_limiter := l\<rparr>"
      let ?w2 = "record_event (GaugesTaken held) (if ?i then ?w1\<lparr>fw_gate := begin_interactive (fw_gate ?w1)\<rparr> else ?w1)"
      obtain r w3 where n: "next claims ?w2 = (r, w3)" by (rule prod.exhaust)
      have "logs Q w0 ?w2" by (simp add: logs_def Q slot_event_def)
      moreover have "logs Q ?w2 w3" using inner [of ?w2 claims] n by simp
      ultimately have served: "logs Q w0 (snd (hand_back cfg lc ?i held r w3))" using handed logs_trans by blast
      show ?thesis
      proof (cases "d_allowed d")
        case True
        then show ?thesis using served a Some y n by (simp add: with_slot_def Let_def)
      next
        case False
        then show ?thesis using a Some y by (simp add: with_slot_def Let_def logs_def Q slot_event_def quiet_def)
      qed
    qed
  qed
  obtain x g where a: "gate_arrive (fx_clock cfg) (Some (admission_priority cfg rq claims tm)) (fw_gate w) = (x, g)" by (rule prod.exhaust)
  have "logs Q w (record_event SlotTaken (w\<lparr>fw_gate := g\<rparr>))" by (simp add: logs_def Q slot_event_def)
  then have "logs Q w (snd (with_slot cfg lc rq next claims tm (record_event SlotTaken (w\<lparr>fw_gate := g\<rparr>))))"
    using slot logs_trans by blast
  then show ?thesis using a by (cases x) (simp_all add: at_gate_def logs_def Q quiet_def)
qed

lemma check_rates_logs:
  assumes Q: "\<And>e. quiet e \<or> slot_event e \<Longrightarrow> Q e" and lim: "Q (Limited (limit_team_id claims))"
    and inner: "\<And>cl w0. logs Q w0 (snd (next cl w0))"
  shows "logs Q w (snd (check_rates cfg lc rq next claims w))"
proof -
  define tm where "tm = (case store_of w of None \<Rightarrow> None
            | Some s \<Rightarrow> (if str_or (limit_team_id claims) '''' = '''' then None else get_team (ae_lib (fx_auth cfg)) (Some (str_or (limit_team_id claims) '''')) None s))"
  obtain x l where c: "limiter_check lc (fx_reads cfg) (rd_now (fx_reads cfg (li_calls (fw_limiter w)))) (rate_request cfg rq claims tm) (fw_limiter w) = (x, l)"
    by (rule prod.exhaust)
  let ?w1 = "record_event (Limited (limit_team_id claims)) (w\<lparr>fw_limiter := l\<rparr>)"
  have "logs Q w ?w1" by (simp add: logs_def lim)
  then have go: "logs Q w (snd (at_gate cfg lc rq next claims tm ?w1))"
    by (rule logs_trans) (rule at_gate_logs, auto simp: Q inner)
  show ?thesis
    using c go by (cases x) (simp_all add: check_rates_def tm_def Let_def logs_def Q lim quiet_def)
qed

text \<open>C33. The limits of a team a request selects are never applied. The rate limits run outside authentication, when
  no team has been selected yet, so whatever \<open>X-Daari-Team\<close> says the limiter is asked for the team the key is bound
  to, or for none: the requests of a team's members with other keys use up nothing of the team's allowance.\<close>

theorem selected_team_is_never_limited:
  assumes "\<And>cl w0. logs quiet w0 (snd (handler cl w0))"
    and "serve_front cfg mark rq handler w = (r, w')" and "fw_log w' = fw_log w @ hs" and "Limited t \<in> set hs"
  shows "\<exists>c. resolve_auth (fx_auth cfg) (fx_master cfg) (fw_store w) (supplied_key rq) = Gives c
    \<and> t = Option.bind (Option.bind c ac_key) vk_team"
proof -
  let ?res = "resolve_auth (fx_auth cfg) (fx_master cfg) (fw_store w) (supplied_key rq)"
  define Q where "Q e = (case e of Limited t \<Rightarrow> \<exists>c. ?res = Gives c \<and> t = Option.bind (Option.bind c ac_key) vk_team | _ \<Rightarrow> True)" for e
  have q: "quiet e \<or> slot_event e \<Longrightarrow> Q e" for e by (auto simp: Q_def quiet_def slot_event_def split: front_event.splits)
  have qh: "Q (Handled x)" for x by (simp add: Q_def)
  have hd: "logs Q w0 (snd (handled handler x w0))" for x w0
  proof -
    have "logs Q w0 (record_event (Handled x) w0)" by (simp add: logs_def qh)
    then show ?thesis unfolding handled_def by (rule logs_trans) (rule logs_weaken [OF assms(1)], simp add: q)
  qed
  have inner: "logs Q w0 (snd (authenticated cfg mark rq (handled handler) x w0))" for x w0
    using hd by (simp add: authenticated_def require_api_key_logs [of Q] q)
  have pinned: "limit_team_id c = Option.bind (Option.bind c ac_key) vk_team" if "?res = Gives c" for c
    using resolved_selects_nothing that by (cases c) (auto simp: limit_team_id_def claims_key_def)
  have "logs Q w (snd (serve_front cfg mark rq handler w))"
  proof (cases "hr_path rq \<in> open_rate_paths \<or> fx_limits cfg = None")
    case True
    then show ?thesis using inner [of w None] by (auto simp: serve_front_def enforce_rate_limits_def)
  next
    case False
    then obtain lc where lc: "fx_limits cfg = Some lc" by auto
    show ?thesis
    proof (cases ?res)
      case (Gives c)
      have "logs Q w (snd (check_rates cfg lc rq (authenticated cfg mark rq (handled handler)) c w))"
        using Gives pinned by (intro check_rates_logs [OF q _ inner]) (auto simp: Q_def)
      then show ?thesis using False lc Gives by (simp add: serve_front_def enforce_rate_limits_def supplied_key_def)
    qed (use False lc in \<open>simp_all add: serve_front_def enforce_rate_limits_def supplied_key_def logs_def\<close>)
  qed
  then have "Q (Limited t)" using assms(2-4) by (auto simp: logs_def list_all_iff)
  then show ?thesis by (simp add: Q_def)
qed

section \<open>Slots come back\<close>

definition never_raises :: "('p, 'f) limiter_cfg \<Rightarrow> bool" where
  "never_raises lc = (lc_fallback lc = None \<or> lc_fail_open lc)"

lemma gauge_answers: "never_raises lc \<Longrightarrow> \<exists>v st'. limiter_adjust_gauge lc env k d st = (Some v, st')"
  by (auto simp: limiter_adjust_gauge_def degrade_path_def count_degraded_def never_raises_def Let_def
      split: prod.split option.split)

lemma release_answers: "never_raises lc \<Longrightarrow> \<exists>st'. release_gauges lc env ks st = (Some (), st')"
proof (induction ks arbitrary: st)
  case (Cons k ks)
  obtain v st1 where "limiter_adjust_gauge lc env k (- 1) st = (Some v, st1)" using gauge_answers [OF Cons.prems] by blast
  then show ?case using Cons.IH [OF Cons.prems, of st1] by simp
qed simp

lemma acquire_answers: "never_raises lc \<Longrightarrow> \<exists>d held st'. acquire_loop lc env leases held0 t st = (Some (d, held), st')"
proof (induction leases arbitrary: held0 t st)
  case (Cons l leases)
  obtain k cap b where l: "l = (k, cap, b)" by (rule prod_cases3)
  obtain v st1 where a: "limiter_adjust_gauge lc env k 1 st = (Some v, st1)" using gauge_answers [OF Cons.prems] by blast
  obtain st2 where r: "release_gauges lc env (k # held0) st1 = (Some (), st2)" using release_answers [OF Cons.prems] by blast
  show ?case
    unfolding l acquire_loop.simps a
    using Cons.IH [OF Cons.prems] by (simp only: r Let_def prod.case option.case split: if_split) blast
qed simp

lemma take_answers: "never_raises lc \<Longrightarrow> \<exists>d held st'. try_acquire_gauges lc env leases st = (Some (d, held), st')"
  unfolding try_acquire_gauges_def by (rule acquire_answers)

definition slot_events :: "front_event list \<Rightarrow> front_event list" where
  "slot_events = filter slot_event"

lemma wake_idle: "ga_waiters g = [] \<Longrightarrow> wake_next g = g"
  by (simp add: wake_next.simps)

definition at_rest :: "gate \<Rightarrow> bool" where
  "at_rest g = (ga_waiters g = [] \<and> 0 \<le> ga_in_flight g \<and> 0 \<le> ga_interactive g)"

lemma arrive_at_rest:
  assumes "gate_arrive now p g = (Decided d, g1)" "at_rest g"
  shows "(if d_allowed d then (ga_max g \<le> 0 \<and> g1 = g \<or> 0 < ga_max g \<and> g1 = g\<lparr>ga_in_flight := ga_in_flight g + 1\<rparr>) else g1 = g)"
  using assms
  by (auto simp: gate_arrive_def Let_def at_rest_def wake_idle admit_decision_def deny_concurrency_def split: if_splits)

lemma slot_returned:
  assumes "at_rest g" "ga_max g \<le> 0 \<and> g1 = g \<or> 0 < ga_max g \<and> g1 = g\<lparr>ga_in_flight := ga_in_flight g + 1\<rparr>"
  shows "gate_release g1 = g" and "gate_release (end_interactive (begin_interactive g1)) = g"
  using assms by (auto simp: gate_release_def at_rest_def wake_idle begin_interactive_def end_interactive_def)

lemma slot_cycle:
  assumes lc: "never_raises lc" and rest: "at_rest (fw_gate w)"
    and inner: "\<And>cl w0. fw_gate (snd (next cl w0)) = fw_gate w0 \<and> (\<exists>hs. fw_log (snd (next cl w0)) = fw_log w0 @ hs \<and> slot_events hs = [])"
    and run: "at_gate cfg lc rq next claims tm w = (r, w')"
  shows "\<exists>hs ks. fw_log w' = fw_log w @ hs \<and> (r \<noteq> Waiting \<or> slot_events hs \<noteq> [] \<longrightarrow> fw_gate w' = fw_gate w)
    \<and> slot_events hs \<in> {[], [SlotTaken, SlotGiven], [SlotTaken, GaugesTaken ks, GaugesGiven ks, SlotGiven]}"
proof -
  let ?prio = "Some (admission_priority cfg rq claims tm)"
  obtain x g where a: "gate_arrive (fx_clock cfg) ?prio (fw_gate w) = (x, g)" by (rule prod.exhaust)
  show ?thesis
  proof (cases x)
    case (Waits n)
    then have "r = Waiting" "fw_log w' = fw_log w" using run a by (auto simp: at_gate_def)
    then show ?thesis by (simp add: slot_events_def)
  next
    case (Decided d)
    note rest_g = arrive_at_rest [OF a [unfolded Decided] rest]
    show ?thesis
    proof (cases "d_allowed d")
      case False
      then have "w' = record_event (Audited ''concurrency_exceeded'') (record_event (Rejected ''concurrency'') (w\<lparr>fw_gate := g\<rparr>))"
        using run a Decided by (auto simp: at_gate_def)
      then show ?thesis using rest_g False by (simp add: slot_events_def slot_event_def record_event_def)
    next
      case True
      let ?w0 = "record_event SlotTaken (w\<lparr>fw_gate := g\<rparr>)" and ?i = "\<not> non_interactive (hr_path rq)"
      note g = rest_g [unfolded if_P [OF True]]
      have run0: "with_slot cfg lc rq next claims tm ?w0 = (r, w')" using run a Decided True by (simp add: at_gate_def)
      obtain dg held l where t: "try_acquire_gauges lc (fx_reads cfg) (gauge_leases lc rq claims tm) (fw_limiter ?w0) = (Some (dg, held), l)"
        using take_answers [OF lc] by blast
      show ?thesis
      proof (cases "d_allowed dg")
        case False
        then have "fw_gate w' = fw_gate w" "\<exists>a b. fw_log w' = fw_log w @ [SlotTaken, SlotGiven, Rejected a, Audited b]"
          using run0 t slot_returned(1) [OF rest g] by (auto simp: with_slot_def Let_def record_event_def)
        then show ?thesis by (auto simp: slot_events_def slot_event_def)
      next
        case True
        let ?w1 = "?w0\<lparr>fw_limiter := l\<rparr>"
        let ?w2 = "record_event (GaugesTaken held) (if ?i then ?w1\<lparr>fw_gate := begin_interactive (fw_gate ?w1)\<rparr> else ?w1)"
        obtain r3 w3 where n: "next claims ?w2 = (r3, w3)" by (rule prod.exhaust)
        have hb: "hand_back cfg lc ?i held r3 w3 = (r, w')" using run0 t True n by (simp add: with_slot_def Let_def)
        have w3: "fw_gate w3 = (if ?i then begin_interactive g else g)" using inner [of claims ?w2] n by (simp add: record_event_def)
        obtain hs where hs: "fw_log w3 = fw_log w @ SlotTaken # GaugesTaken held # hs" "slot_events hs = []"
        proof -
          have "fw_log ?w2 = fw_log w @ [SlotTaken, GaugesTaken held]" by (simp add: record_event_def)
          moreover obtain hs where "fw_log (snd (next claims ?w2)) = fw_log ?w2 @ hs" "slot_events hs = []"
            using inner [of claims ?w2] by blast
          ultimately show thesis using n that [of hs] by (simp only: snd_conv append_assoc append_Cons append_Nil)
        qed
        let ?w4 = "if ?i then w3\<lparr>fw_gate := end_interactive (fw_gate w3)\<rparr> else w3"
        obtain l4 where l4: "release_gauges lc (fx_reads cfg) held (fw_limiter ?w4) = (Some (), l4)" using release_answers [OF lc] by blast
        have w': "w' = record_event SlotGiven (record_event (GaugesGiven held) (?w4\<lparr>fw_limiter := l4, fw_gate := gate_release (fw_gate ?w4)\<rparr>))"
          using hb l4 by (simp add: hand_back_def Let_def)
        have "fw_gate w' = fw_gate w" using slot_returned [OF rest g] w3 by (simp add: w' record_event_def)
        moreover have "fw_log w' = fw_log w @ (SlotTaken # GaugesTaken held # hs @ [GaugesGiven held, SlotGiven])"
          using hs(1) by (simp add: w')
        moreover have "slot_events (SlotTaken # GaugesTaken held # hs @ [GaugesGiven held, SlotGiven])
            = [SlotTaken, GaugesTaken held, GaugesGiven held, SlotGiven]"
          using hs(2) by (simp add: slot_events_def slot_event_def)
        ultimately show ?thesis by blast
      qed
    qed
  qed
qed

lemma check_rates_cycle:
  assumes lc: "never_raises lc" and rest: "at_rest (fw_gate w)"
    and inner: "\<And>cl w0. fw_gate (snd (next cl w0)) = fw_gate w0 \<and> (\<exists>hs. fw_log (snd (next cl w0)) = fw_log w0 @ hs \<and> slot_events hs = [])"
    and run: "check_rates cfg lc rq next claims w = (r, w')"
  shows "\<exists>hs ks. fw_log w' = fw_log w @ hs \<and> (r \<noteq> Waiting \<or> slot_events hs \<noteq> [] \<longrightarrow> fw_gate w' = fw_gate w)
    \<and> slot_events hs \<in> {[], [SlotTaken, SlotGiven], [SlotTaken, GaugesTaken ks, GaugesGiven ks, SlotGiven]}"
proof -
  define tm where "tm = (case store_of w of None \<Rightarrow> None
            | Some s \<Rightarrow> (if str_or (limit_team_id claims) '''' = '''' then None else get_team (ae_lib (fx_auth cfg)) (Some (str_or (limit_team_id claims) '''')) None s))"
  obtain x l where c: "limiter_check lc (fx_reads cfg) (rd_now (fx_reads cfg (li_calls (fw_limiter w)))) (rate_request cfg rq claims tm) (fw_limiter w) = (x, l)"
    by (rule prod.exhaust)
  let ?w1 = "record_event (Limited (limit_team_id claims)) (w\<lparr>fw_limiter := l\<rparr>)"
  have idle: ?thesis if "fw_log w' = fw_log w @ hs" "slot_events hs = []" "fw_gate w' = fw_gate w" for hs
    using that by (intro exI [of _ hs]) simp
  have w1: "fw_gate ?w1 = fw_gate w" "fw_log ?w1 = fw_log w @ [Limited (limit_team_id claims)]" by (simp_all add: record_event_def)
  show ?thesis
  proof (cases "fx_retired cfg (asked_model rq)")
    case True
    then show ?thesis using run idle [of "[]"] by (auto simp: check_rates_def Let_def slot_events_def)
  next
    case False
    show ?thesis
    proof (cases x)
      case None
      then show ?thesis using run idle [of "[]"] False c by (auto simp: check_rates_def tm_def Let_def slot_events_def)
    next
      case (Some d)
      show ?thesis
      proof (cases "d_allowed d")
        case True
        then have g: "at_gate cfg lc rq next claims tm ?w1 = (r, w')" using run False c Some by (simp add: check_rates_def tm_def Let_def)
        have r1: "at_rest (fw_gate ?w1)" using rest w1(1) by simp
        obtain hs ks where h: "fw_log w' = fw_log ?w1 @ hs" "r \<noteq> Waiting \<or> slot_events hs \<noteq> [] \<longrightarrow> fw_gate w' = fw_gate ?w1"
          "slot_events hs \<in> {[], [SlotTaken, SlotGiven], [SlotTaken, GaugesTaken ks, GaugesGiven ks, SlotGiven]}"
          using slot_cycle [OF lc r1 inner g] by blast
        have e: "slot_events (Limited t # hs) = slot_events hs" for t by (simp add: slot_events_def slot_event_def)
        show ?thesis
          using h w1 by (intro exI [of _ "Limited (limit_team_id claims) # hs"] exI [of _ ks]) (simp add: e)
      next
        case False
        then have w': "w' = record_event (Audited ''rate_limit_exceeded'') (record_event (Rejected (rate_limit_metric_kind (Some (d_scope d)))) ?w1)"
          using run \<open>\<not> fx_retired cfg (asked_model rq)\<close> c Some by (simp add: check_rates_def tm_def Let_def)
        show ?thesis
          by (rule idle [of "[Limited (limit_team_id claims), Rejected (rate_limit_metric_kind (Some (d_scope d))), Audited ''rate_limit_exceeded'']"])
            (simp_all add: w' slot_events_def slot_event_def, simp add: record_event_def)
      qed
    qed
  qed
qed

text \<open>C4. A request that does not wait leaves the gate as it found it, whatever happens to it: refused by a limit, by
  the gate or by a scoped gauge, answered, or failed with an exception of the handler. Where the counters cannot
  raise, a slot that is taken is given back once, after the gauges taken with it, and the in-flight and interactive
  counts are what they were.\<close>

theorem every_slot_comes_back:
  assumes "fx_limits cfg = Some lc" and "lc_fallback lc = None \<or> lc_fail_open lc"
    and "ga_waiters (fw_gate w) = [] \<and> 0 \<le> ga_in_flight (fw_gate w) \<and> 0 \<le> ga_interactive (fw_gate w)"
    and "\<And>cl w0. fw_gate (snd (next cl w0)) = fw_gate w0 \<and> (\<exists>hs. fw_log (snd (next cl w0)) = fw_log w0 @ hs \<and> slot_events hs = [])"
    and "enforce_rate_limits cfg rq next claims w = (r, w')"
  shows "\<exists>hs ks. fw_log w' = fw_log w @ hs \<and> (r \<noteq> Waiting \<or> slot_events hs \<noteq> [] \<longrightarrow> fw_gate w' = fw_gate w)
    \<and> slot_events hs \<in> {[], [SlotTaken, SlotGiven], [SlotTaken, GaugesTaken ks, GaugesGiven ks, SlotGiven]}"
proof -
  note cycle = check_rates_cycle [OF assms(2) [folded never_raises_def] assms(3) [folded at_rest_def] assms(4)]
  have idle: ?thesis if "next c w = (r, w')" for c
    using assms(4) [of c w] that by auto
  have stopped: ?thesis if "w' = w" using that by (intro exI [of _ "[]"]) (simp add: slot_events_def)
  let ?res = "resolve_auth (fx_auth cfg) (fx_master cfg) (fw_store w) (extract_api_key (hr_headers rq))"
  show ?thesis
  proof (cases "hr_path rq \<in> open_rate_paths")
    case True
    then show ?thesis using assms(5) by (intro idle [of claims]) (simp add: enforce_rate_limits_def)
  next
    case False
    show ?thesis
    proof (cases claims)
      case None
      show ?thesis
      proof (cases ?res)
        case (Gives c)
        then show ?thesis using assms(1,5) False None by (intro cycle [where claims = c]) (simp add: enforce_rate_limits_def)
      qed (use assms(1,5) False None stopped in \<open>auto simp: enforce_rate_limits_def\<close>)
    next
      case (Some c)
      then show ?thesis using assms(1,5) False by (intro cycle [where claims = claims]) (simp add: enforce_rate_limits_def)
    qed
  qed
qed

section \<open>A slot that does not come back\<close>

definition dead_gauges :: "('p, 'f) limiter_cfg \<Rightarrow> bool" where
  "dead_gauges lc = ((\<forall>k d s. fst (be_gauge (lc_primary lc) k d s) = None) \<and> \<not> lc_fail_open lc
     \<and> (\<exists>fb. lc_fallback lc = Some fb \<and> (\<forall>k d s. fst (be_gauge fb k d s) = None)))"

lemma dead_adjust: "dead_gauges lc \<Longrightarrow> \<exists>st'. limiter_adjust_gauge lc env k d st = (None, st')"
proof -
  assume dead: "dead_gauges lc"
  then obtain fb where fb: "lc_fallback lc = Some fb" "\<And>k d s. fst (be_gauge fb k d s) = None" "\<not> lc_fail_open lc"
    "\<And>k d s. fst (be_gauge (lc_primary lc) k d s) = None" by (auto simp: dead_gauges_def)
  have fall: "\<exists>st'. count_degraded lc (\<lambda>f. be_gauge f k d) x = (None, st')" for x
    using fb by (auto simp: count_degraded_def split: prod.splits) (metis fst_conv option.distinct(1))+
  show ?thesis
    using fall fb(4)
    by (auto simp: limiter_adjust_gauge_def degrade_path_def Let_def split: prod.split option.split) (metis fst_conv option.distinct(1))+
qed

text \<open>Requests that reach the gate one after the other, each with the configuration, credentials and handler it has.\<close>

type_synonym ('p, 'f) gate_request =
  "('p, 'f) front_cfg \<times> ('p, 'f) limiter_cfg \<times> http_request \<times> ('p, 'f) handler \<times> auth_claims option \<times> team option"

primrec arrivals :: "('p, 'f) gate_request list \<Rightarrow> ('p, 'f) front \<Rightarrow> reply list \<times> ('p, 'f) front" where
  "arrivals [] w = ([], w)"
| "arrivals (a # xs) w =
     (case a of (cfg, lc, rq, next, claims, tm) \<Rightarrow>
       (case at_gate cfg lc rq next claims tm w of (r, w1) \<Rightarrow> (case arrivals xs w1 of (rs, w2) \<Rightarrow> (r # rs, w2))))"

definition idle_below :: "int \<Rightarrow> gate \<Rightarrow> bool" where
  "idle_below n g = (ga_waiters g = [] \<and> \<not> ga_draining g \<and> 0 < ga_max g \<and> ga_in_flight g + n \<le> ga_max g)"

lemma leaking_request:
  assumes dead: "dead_gauges lc" and key: "claims_key claims = Some k" "0 < vk_max_in_flight k" and gate: "idle_below 1 (fw_gate w)"
  shows "\<exists>w'. at_gate cfg lc rq next claims tm w = (Raised, w') \<and> fw_gate w' = (fw_gate w)\<lparr>ga_in_flight := ga_in_flight (fw_gate w) + 1\<rparr>
    \<and> fw_log w' = fw_log w @ [SlotTaken]"
proof -
  let ?g = "(fw_gate w)\<lparr>ga_in_flight := ga_in_flight (fw_gate w) + 1\<rparr>"
  obtain d where a: "gate_arrive (fx_clock cfg) (Some (admission_priority cfg rq claims tm)) (fw_gate w) = (Decided d, ?g)" "d_allowed d"
    using gate by (simp add: gate_arrive_def Let_def wake_idle idle_below_def admit_decision_def)
  have lease: "\<exists>b ls. gauge_leases lc rq claims tm = (b, Some (vk_max_in_flight k), ''key_concurrency'') # ls"
    using key by (simp add: gauge_leases_def Let_def given_def)
  have "\<exists>l. try_acquire_gauges lc env (gauge_leases lc rq claims tm) st = (None, l)" for env st
  proof -
    obtain b ls where ls: "gauge_leases lc rq claims tm = (b, Some (vk_max_in_flight k), ''key_concurrency'') # ls" using lease by blast
    obtain st' where "limiter_adjust_gauge lc env b 1 st = (None, st')" using dead_adjust [OF dead] by blast
    then show ?thesis using key(2) by (simp add: try_acquire_gauges_def ls num_or_def)
  qed
  then obtain l where "try_acquire_gauges lc (fx_reads cfg) (gauge_leases lc rq claims tm) (fw_limiter w) = (None, l)" by blast
  then show ?thesis
    using a by (simp add: at_gate_def with_slot_def record_event_def)
qed

lemma leaking_requests:
  assumes dead: "dead_gauges lc" and key: "claims_key claims = Some k" "0 < vk_max_in_flight k" and gate: "idle_below (int n) (fw_gate w)"
  shows "\<exists>w'. arrivals (replicate n (cfg, lc, rq, next, claims, tm)) w = (replicate n Raised, w')
    \<and> fw_gate w' = (fw_gate w)\<lparr>ga_in_flight := ga_in_flight (fw_gate w) + int n\<rparr> \<and> fw_log w' = fw_log w @ replicate n SlotTaken"
  using gate
proof (induction n arbitrary: w)
  case (Suc n)
  then have "idle_below 1 (fw_gate w)" by (simp add: idle_below_def)
  then obtain w1 where w1: "at_gate cfg lc rq next claims tm w = (Raised, w1)"
    "fw_gate w1 = (fw_gate w)\<lparr>ga_in_flight := ga_in_flight (fw_gate w) + 1\<rparr>" "fw_log w1 = fw_log w @ [SlotTaken]"
    using leaking_request [OF dead key] by blast
  have "idle_below (int n) (fw_gate w1)" using Suc.prems by (simp add: w1(2) idle_below_def)
  then show ?case using Suc.IH [of w1] w1 by auto
qed simp

text \<open>A gate without a free slot, with nobody granted one.\<close>

definition shut_gate :: "gate \<Rightarrow> bool" where
  "shut_gate g = (0 < ga_max g \<and> ga_max g \<le> ga_in_flight g \<and> (\<forall>n. ga_futures g n \<noteq> Granted))"

lemma wake_shut: "shut_gate g \<Longrightarrow> wake_next g = g"
  by (subst wake_next.simps) (auto simp: shut_gate_def split: list.split)

lemma arrive_shut:
  assumes "shut_gate g" "gate_arrive now p g = (x, g')"
  shows "shut_gate g' \<and> (x = Decided (deny_concurrency now g) \<or> (\<exists>n. x = Waits n))"
  using assms wake_shut [OF assms(1)] by (auto simp: gate_arrive_def Let_def shut_gate_def split: if_splits)

lemma gate_shut:
  assumes "shut_gate (fw_gate w)" "at_gate cfg lc rq next claims tm w = (r, w')"
  shows "shut_gate (fw_gate w') \<and> (r = Reply 503 ''concurrency'' \<or> r = Waiting)"
proof -
  obtain x g where a: "gate_arrive (fx_clock cfg) (Some (admission_priority cfg rq claims tm)) (fw_gate w) = (x, g)" by (rule prod.exhaust)
  show ?thesis
    using arrive_shut [OF assms(1) a] assms(2) a by (auto simp: at_gate_def record_event_def deny_concurrency_def split: if_splits)
qed

lemma arrivals_shut:
  "shut_gate (fw_gate w) \<Longrightarrow> arrivals xs w = (rs, w') \<Longrightarrow>
     shut_gate (fw_gate w') \<and> list_all (\<lambda>r. r = Reply 503 ''concurrency'' \<or> r = Waiting) rs"
proof (induction xs arbitrary: w rs w')
  case (Cons a xs)
  obtain cfg lc rq h claims tm where a: "a = (cfg, lc, rq, h, claims, tm)" by (metis prod.exhaust)
  obtain r w1 where r: "at_gate cfg lc rq h claims tm w = (r, w1)" by (rule prod.exhaust)
  obtain rs' w2 where rest: "arrivals xs w1 = (rs', w2)" by (rule prod.exhaust)
  show ?case using gate_shut [OF Cons.prems(1) r] Cons.IH [OF _ rest] Cons.prems(2) by (auto simp: a r rest)
qed simp

text \<open>C34. An exception of the counters after the slot was taken keeps the slot: \<open>try_acquire_gauges\<close> is called
  before the \<open>try\<close> whose \<open>finally\<close> releases it. Take requests of a key with an in-flight limit that have passed the rate
  limits and come to the gate while Redis and the SQLite fallback both fail (not failing open): as many of them as an
  idle gate has slots all end in an exception, each takes a slot and none is given back. Whatever requests come to the gate
  afterwards, however many, with whatever credentials and also when the counters work again, every one is refused
  with 503 or parked, and none that is parked ever gets its turn.\<close>

theorem leaked_slots_close_the_gateway:
  assumes "\<forall>k d s. fst (be_gauge (lc_primary lc) k d s) = None" and "\<not> lc_fail_open lc" and "lc_fallback lc = Some fb"
    and "\<forall>k d s. fst (be_gauge fb k d s) = None"
    and "claims_key claims = Some k" and "0 < vk_max_in_flight k"
    and "fw_gate w = new_gate m q retry be" and "0 < m"
    and "arrivals (replicate (nat m) (cfg, lc, rq, next, claims, tm)) w = (rs, w1)" and "arrivals later w1 = (rs', w2)"
  shows "rs = replicate (nat m) Raised \<and> fw_log w1 = fw_log w @ replicate (nat m) SlotTaken
    \<and> list_all (\<lambda>r. r = Reply 503 ''concurrency'' \<or> r = Waiting) rs'
    \<and> fst (resume_request cfg' lc' rq' next' claims' tm' n w2) = Waiting"
proof -
  have dead: "dead_gauges lc" using assms(1-4) by (simp add: dead_gauges_def)
  have idle: "idle_below (int (nat m)) (fw_gate w)" using assms(7,8) by (simp add: new_gate_def idle_below_def)
  have l: "rs = replicate (nat m) Raised" "fw_gate w1 = (new_gate m q retry be)\<lparr>ga_in_flight := m\<rparr>"
    "fw_log w1 = fw_log w @ replicate (nat m) SlotTaken"
    using leaking_requests [OF dead assms(5,6) idle, of cfg rq "next" tm] assms(7-9) by (auto simp: new_gate_def)
  have "shut_gate (fw_gate w1)" using assms(8) by (simp add: l(2) shut_gate_def new_gate_def)
  then have shut: "shut_gate (fw_gate w2)" "list_all (\<lambda>r. r = Reply 503 ''concurrency'' \<or> r = Waiting) rs'"
    using arrivals_shut [OF _ assms(10)] by simp_all
  have "gate_resume now n (fw_gate w2) = None" for now using shut(1) by (simp add: gate_resume_def shut_gate_def)
  then show ?thesis using l(1,3) shut(2) by (simp add: resume_request_def)
qed

section \<open>Concrete requests to the application\<close>

definition demo_limits :: "(unit, sqlite_counters) limiter_cfg" where
  "demo_limits = (dead_cfg True dead_redis)\<lparr>lc_default_rpm := 0\<rparr>"

definition demo_app :: "(unit, sqlite_counters) front_cfg" where
  "demo_app = \<lparr>fx_master = OneMaster ''m'', fx_auth = demo_auth, fx_oauth = (\<lambda>t. None), fx_sso = (\<lambda>t. False), fx_cors = {},
     fx_mcp_oauth = False, fx_throttle = None, fx_throttle_get = RedisFailed, fx_throttle_incr = RedisFailed, fx_lockout = None,
     fx_lockout_get = RedisFailed, fx_lockout_incr = RedisFailed, fx_clock = 0, fx_ledger_on = False, fx_budget = demo_budget_env 0,
     fx_limits = Some demo_limits, fx_reads = still_env, fx_boost = False, fx_retired = (\<lambda>m. False)\<rparr>"

definition demo_http :: "(pystr \<times> pystr) list \<Rightarrow> http_request" where
  "demo_http headers = \<lparr>hr_path = ''/v1/chat/completions'', hr_method = ''GET'', hr_headers = headers, hr_payload = [],
     hr_estimate = None, hr_upload = None, hr_peer = None\<rparr>"

definition demo_world :: "key_store \<Rightarrow> (unit, sqlite_counters) front" where
  "demo_world s = \<lparr>fw_store = Some \<lparr>sh_store = s, sh_unreachable = False, sh_down = False\<rparr>, fw_limiter = new_limiter () [],
     fw_gate = new_gate 1 0 1 ''memory'', fw_throttle = [], fw_lockout = \<lparr>lo_hits = [], lo_until = []\<rparr>, fw_ledger = no_usage, fw_log = []\<rparr>"

definition ok_handler :: "('p, 'f) handler" where
  "ok_handler claims w = (Reply 200 '''', w)"

lemma ok_logs: "logs quiet w0 (snd (ok_handler cl w0))"
  by (simp add: ok_handler_def logs_def)

lemma demo_master: "resolve_auth demo_auth (OneMaster ''m'') h ''m'' = Gives (Some (claims_of_kind ''master''))"
proof -
  have "normalize_master_keys (OneMaster ''m'') = [''m'']" by code_simp
  then show ?thesis by (simp add: resolve_auth_def master_match_iff)
qed

theorem handler_sees_only_credentials_witness:
  "\<exists>r w' c0. require_api_key demo_app 0 (demo_http [(''x-api-key'', ''m'')]) (handled ok_handler) (demo_world (demo_store None)) = (r, w')
     \<and> fw_log w' = [Handled (Some (claims_of_kind ''master''))]
     \<and> credential demo_app (demo_http [(''x-api-key'', ''m'')]) (fw_store (demo_world (demo_store None))) c0
     \<and> same_identity (claims_of_kind ''master'') c0"
proof -
  let ?rq = "demo_http [(''x-api-key'', ''m'')]" and ?w = "demo_world (demo_store None)"
  obtain r w' where e: "require_api_key demo_app 0 ?rq (handled ok_handler) ?w = (r, w')" by (rule prod.exhaust)
  have k: "extract_api_key (hr_headers ?rq) = ''m''" by code_simp
  have m: "normalize_master_keys (OneMaster ''m'') = [''m'']" by code_simp
  have kind: "ac_kind (claims_of_kind ''master'') = ''master''" "ac_key (claims_of_kind ''master'') = None" by (simp_all add: claims_of_kind_def)
  have "require_api_key demo_app 0 ?rq (handled ok_handler) ?w
      = handled ok_handler (Some (claims_of_kind ''master'')) (stamp_use demo_app (claims_of_kind ''master'') ?w)"
    unfolding require_api_key_def k Let_def
    by (simp add: demo_app_def demo_http_def demo_world_def open_paths_def m is_preflight_def open_install_def demo_master
        auth_outcome_def admit_claims_def kind)
  then have l: "fw_log w' = fw_log ?w @ [Handled (Some (claims_of_kind ''master''))]"
    using e by (simp add: handled_def ok_handler_def stamp_use_def kind split: option.splits)
  show ?thesis
    using handler_sees_only_credentials [OF ok_logs e _ l, of "Some (claims_of_kind ''master'')"] e l by (auto simp: demo_world_def)
qed

theorem selected_team_is_never_limited_witness:
  "\<exists>r w' hs c. serve_front demo_app 0 (demo_http [(''x-api-key'', ''s1''), (''x-daari-team'', ''ops'')]) ok_handler (demo_world (demo_store None)) = (r, w')
     \<and> fw_log w' = Limited None # hs
     \<and> resolve_auth demo_auth (OneMaster ''m'') (Some demo_handle) ''s1'' = Gives c \<and> Option.bind (Option.bind c ac_key) vk_team = None"
proof -
  let ?rq = "demo_http [(''x-api-key'', ''s1''), (''x-daari-team'', ''ops'')]" and ?w = "demo_world (demo_store None)"
  let ?in = "authenticated demo_app 0 ?rq (handled ok_handler)"
  obtain r w' where e: "serve_front demo_app 0 ?rq ok_handler ?w = (r, w')" by (rule prod.exhaust)
  have k: "extract_api_key (hr_headers ?rq) = ''s1''" by code_simp
  have st: "fw_store ?w = Some demo_handle" "fw_log ?w = []" by (simp_all add: demo_world_def demo_handle_def)
  obtain key where key: "resolve_auth demo_auth (OneMaster ''m'') (Some demo_handle) ''s1'' = Gives (Some (virtual_claims key))"
    "resolve_key demo_keys_lib id ''s1'' (demo_store None) = Some key" using demo_claims by blast
  have nt: "vk_team key = None"
    using key(2) by (auto simp: resolve_key_def demo_store_def empty_store_def owns_hash_def demo_row_fields key_of_row_def Let_def)
  let ?c = "Some (virtual_claims key)"
  have t: "limit_team_id ?c = None" using nt by (simp add: limit_team_id_def claims_key_def virtual_claims_def claims_of_kind_def)
  have app: "fx_auth demo_app = demo_auth" "fx_master demo_app = OneMaster ''m''" "fx_limits demo_app = Some demo_limits" "\<And>m. \<not> fx_retired demo_app m"
    by (simp_all add: demo_app_def)
  have go: "serve_front demo_app 0 ?rq ok_handler ?w = check_rates demo_app demo_limits ?rq ?in ?c ?w"
    by (simp add: serve_front_def enforce_rate_limits_def app st k key open_rate_paths_def) (simp add: demo_http_def)
  have zero: "\<exists>st'. limiter_increment demo_limits env k a ws st = (Some 0, st') \<and> True" for env k a ws st
    by (rule outage_counts_zero) (simp_all add: demo_limits_def dead_cfg_def dead_redis_def)
  define t0 where "t0 = rd_now (fx_reads demo_app (li_calls (fw_limiter ?w)))"
  obtain d l where lim: "limiter_check demo_limits (fx_reads demo_app) t0 (rate_request demo_app ?rq ?c None) (fw_limiter ?w) = (Some d, l)" "d_allowed d"
    using zero_counts_admit_check [where I = "\<lambda>_. True", OF zero] by blast
  let ?w1 = "record_event (Limited None) (?w\<lparr>fw_limiter := l\<rparr>)"
  have run: "check_rates demo_app demo_limits ?rq ?in ?c ?w = at_gate demo_app demo_limits ?rq ?in ?c None ?w1"
    using lim unfolding t0_def check_rates_def Let_def t by (simp add: app split: option.split)
  have "logs (\<lambda>e. True) w0 (snd (?in cl w0))" for cl w0
  proof -
    have h: "logs (\<lambda>e. True) v (snd (handled ok_handler x v))" for x and v :: "(unit, sqlite_counters) front"
      by (simp add: handled_def ok_handler_def logs_def)
    then show ?thesis by (auto simp: authenticated_def intro!: require_api_key_logs h)
  qed
  then have "logs (\<lambda>e. True) ?w1 (snd (at_gate demo_app demo_limits ?rq ?in ?c None ?w1))" by (intro at_gate_logs) simp_all
  then obtain hs where hs: "fw_log w' = Limited None # hs" using e by (auto simp: go run logs_def st(2))
  then have full: "fw_log w' = fw_log ?w @ (Limited None # hs)" by (simp add: st(2))
  have "\<exists>c. resolve_auth demo_auth (OneMaster ''m'') (Some demo_handle) ''s1'' = Gives c \<and> None = Option.bind (Option.bind c ac_key) vk_team"
    using selected_team_is_never_limited [OF ok_logs e full, of None] by (simp add: app st(1) supplied_key_def k)
  then show ?thesis using e hs by fastforce
qed

theorem every_slot_comes_back_witness:
  "\<exists>r w' hs. enforce_rate_limits demo_app (demo_http []) ok_handler None (demo_world (demo_store None)) = (r, w')
     \<and> fw_log w' = hs \<and> (r \<noteq> Waiting \<longrightarrow> fw_gate w' = new_gate 1 0 1 ''memory'')"
proof -
  obtain r w' where e: "enforce_rate_limits demo_app (demo_http []) ok_handler None (demo_world (demo_store None)) = (r, w')" by (rule prod.exhaust)
  have "fx_limits demo_app = Some demo_limits" "lc_fallback demo_limits = None \<or> lc_fail_open demo_limits"
    by (simp_all add: demo_app_def demo_limits_def dead_cfg_def)
  moreover have "ga_waiters (fw_gate (demo_world (demo_store None))) = [] \<and> 0 \<le> ga_in_flight (fw_gate (demo_world (demo_store None)))
      \<and> 0 \<le> ga_interactive (fw_gate (demo_world (demo_store None)))" by (simp add: demo_world_def new_gate_def)
  moreover have "fw_gate (snd (ok_handler cl w0)) = fw_gate w0 \<and> (\<exists>hs. fw_log (snd (ok_handler cl w0)) = fw_log w0 @ hs \<and> slot_events hs = [])" for cl and w0 :: "(unit, sqlite_counters) front"
    by (simp add: ok_handler_def slot_events_def)
  ultimately have "\<exists>hs ks. fw_log w' = fw_log (demo_world (demo_store None)) @ hs \<and> (r \<noteq> Waiting \<or> slot_events hs \<noteq> [] \<longrightarrow> fw_gate w' = fw_gate (demo_world (demo_store None)))
    \<and> slot_events hs \<in> {[], [SlotTaken, SlotGiven], [SlotTaken, GaugesTaken ks, GaugesGiven ks, SlotGiven]}"
    using every_slot_comes_back [OF _ _ _ _ e] by blast
  then show ?thesis using e by (auto simp: demo_world_def)
qed

definition broken_limits :: "(unit, sqlite_counters) limiter_cfg" where
  "broken_limits = (dead_cfg False dead_redis)\<lparr>lc_fallback := Some (sqlite_backend\<lparr>be_gauge := (\<lambda>k d s. (None, s))\<rparr>)\<rparr>"

definition capped_claims :: auth_claims where
  "capped_claims = virtual_claims ((key_of_row demo_keys_lib (demo_store None) (demo_row None))\<lparr>vk_max_in_flight := 2\<rparr>)"

theorem leaked_slots_close_the_gateway_witness:
  "\<exists>w1. arrivals [(demo_app, broken_limits, demo_http [], ok_handler, Some capped_claims, None)] (demo_world (demo_store None)) = ([Raised], w1)
    \<and> fw_log w1 = [SlotTaken]
    \<and> list_all (\<lambda>r. r = Reply 503 ''concurrency'' \<or> r = Waiting)
        (fst (arrivals [(demo_app, demo_limits, demo_http [], ok_handler, None, None), (demo_app, demo_limits, demo_http [], ok_handler, None, None)] w1))"
proof -
  let ?later = "[(demo_app, demo_limits, demo_http [], ok_handler, None, None), (demo_app, demo_limits, demo_http [], ok_handler, None, None)]"
  have k: "claims_key (Some capped_claims) = Some ((key_of_row demo_keys_lib (demo_store None) (demo_row None))\<lparr>vk_max_in_flight := 2\<rparr>)"
    by (simp add: claims_key_def capped_claims_def virtual_claims_def claims_of_kind_def)
  have g: "fw_gate (demo_world (demo_store None)) = new_gate 1 0 1 ''memory''" by (simp add: demo_world_def)
  obtain rs w1 where a: "arrivals (replicate (nat 1) (demo_app, broken_limits, demo_http [], ok_handler, Some capped_claims, None))
      (demo_world (demo_store None)) = (rs, w1)" by (rule prod.exhaust)
  obtain rs' w2 where b: "arrivals ?later w1 = (rs', w2)" by (rule prod.exhaust)
  have "\<forall>k d s. fst (be_gauge (lc_primary broken_limits) k d s) = None" "\<not> lc_fail_open broken_limits"
    "lc_fallback broken_limits = Some (sqlite_backend\<lparr>be_gauge := (\<lambda>k d s. (None, s))\<rparr>)"
    by (simp_all add: broken_limits_def dead_cfg_def dead_redis_def)
  then show ?thesis
    using leaked_slots_close_the_gateway [OF _ _ _ _ k _ g _ a b] a b by (simp add: demo_world_def)
qed

end
