(* ===== verification/Batches.thy ===== *)
theory Batches
  imports Messages
begin

text \<open>
  Batches of chat completions (\<open>daari/gateway/batches.py\<close>, and \<open>parse_batch_jsonl\<close> of
  \<open>daari/gateway/files.py\<close>): the jobs, their rows in SQLite, and the worker that runs one job at a
  time, as a state machine. A step is what the event loop runs without a break: an API call, or the
  worker from one \<open>await\<close> to the next one (\<open>execute_one\<close> or \<open>asyncio.sleep\<close>).

  A step reads the clock once and finds the database working or not. New ids, answers of the idle
  probe and the ids of written files come with the step.
\<close>

section \<open>Jobs\<close>

definition STATUS_VALIDATING :: pystr where "STATUS_VALIDATING = ''validating''"
definition STATUS_FAILED :: pystr where "STATUS_FAILED = ''failed''"
definition STATUS_IN_PROGRESS :: pystr where "STATUS_IN_PROGRESS = ''in_progress''"
definition STATUS_COMPLETED :: pystr where "STATUS_COMPLETED = ''completed''"
definition STATUS_CANCELLING :: pystr where "STATUS_CANCELLING = ''cancelling''"
definition STATUS_CANCELLED :: pystr where "STATUS_CANCELLED = ''cancelled''"
definition STATUS_EXPIRED :: pystr where "STATUS_EXPIRED = ''expired''"

definition TERMINAL_STATUSES :: "pystr set" where
  "TERMINAL_STATUSES = {STATUS_COMPLETED, STATUS_FAILED, STATUS_CANCELLED, STATUS_EXPIRED}"

definition ITEM_PENDING :: pystr where "ITEM_PENDING = ''pending''"
definition ITEM_COMPLETED :: pystr where "ITEM_COMPLETED = ''completed''"
definition ITEM_FAILED :: pystr where "ITEM_FAILED = ''failed''"
definition ITEM_SKIPPED :: pystr where "ITEM_SKIPPED = ''skipped''"

lemmas status_defs = STATUS_VALIDATING_def STATUS_FAILED_def STATUS_IN_PROGRESS_def STATUS_COMPLETED_def
  STATUS_CANCELLING_def STATUS_CANCELLED_def STATUS_EXPIRED_def TERMINAL_STATUSES_def

lemmas item_defs = ITEM_PENDING_def ITEM_COMPLETED_def ITEM_FAILED_def ITEM_SKIPPED_def

type_synonym json_object = "(pystr \<times> json) list"

record batch_governance =
  bg_key :: "pystr option"
  bg_client :: "pystr option"
  bg_tier_cap :: "pystr option"
  bg_no_frontier :: bool
  bg_user :: "pystr option"
  bg_boundary :: json
  bg_kind :: pystr
  bg_latency :: "int option"
  bg_deadline :: "int option"
  bg_session :: "pystr option"
  bg_agent :: "pystr option"
  bg_team :: "pystr option"
  bg_scope :: pystr

record batch_item =
  bi_custom :: pystr
  bi_body :: json_object
  bi_status :: pystr
  bi_response :: json
  bi_error :: json

record batch_job =
  bj_id :: pystr
  bj_endpoint :: pystr
  bj_window :: pystr
  bj_status :: pystr
  bj_input :: "pystr option"
  bj_output :: "pystr option"
  bj_error_file :: "pystr option"
  bj_created :: int
  bj_in_progress :: "int option"
  bj_completed :: "int option"
  bj_failed :: "int option"
  bj_cancelling :: "int option"
  bj_cancelled :: "int option"
  bj_expired :: "int option"
  bj_expires :: "int option"
  bj_metadata :: json
  bj_callback :: "pystr option"
  bj_gov :: "batch_governance option"
  bj_items :: "batch_item list"
  bj_errors :: json
  bj_cancel :: bool
  bj_results :: "json list"

text \<open>\<open>caller\<close>: kind and key id of the claims, if there are any.\<close>

definition batch_visible_to_caller :: "batch_job \<Rightarrow> (pystr \<times> pystr option) option \<Rightarrow> bool" where
  "batch_visible_to_caller j caller =
     (case caller of None \<Rightarrow> True
      | Some (kind, key) \<Rightarrow>
          (let owner = Option.bind (bj_gov j) bg_key in
           if kind \<noteq> ''virtual'' then True
           else if str_or owner '''' = '''' then False
           else owner = key))"

section \<open>Rows\<close>

definition opt_text :: "pystr option \<Rightarrow> json" where
  "opt_text x = (case x of None \<Rightarrow> JNull | Some s \<Rightarrow> JStr s)"

definition opt_number :: "int option \<Rightarrow> json" where
  "opt_number x = (case x of None \<Rightarrow> JNull | Some n \<Rightarrow> JInt n)"

definition governance_json :: "batch_governance \<Rightarrow> json_object" where
  "governance_json g =
     [(''key_id'', opt_text (bg_key g)), (''client_id'', opt_text (bg_client g)), (''tier_cap'', opt_text (bg_tier_cap g)),
      (''no_frontier'', JBool (bg_no_frontier g)), (''user'', opt_text (bg_user g)), (''boundary_profile'', bg_boundary g),
      (''kind'', JStr (bg_kind g)), (''latency_budget_ms'', opt_number (bg_latency g)), (''deadline_ms'', opt_number (bg_deadline g)),
      (''session_id'', opt_text (bg_session g)), (''user_agent'', opt_text (bg_agent g)), (''team_id'', opt_text (bg_team g)),
      (''cache_scope'', JStr (bg_scope g))]"

definition item_json :: "batch_item \<Rightarrow> json" where
  "item_json i = JObj [(''custom_id'', JStr (bi_custom i)), (''body'', JObj (bi_body i)), (''status'', JStr (bi_status i)),
     (''response'', bi_response i), (''error'', bi_error i)]"

definition job_to_payload :: "batch_job \<Rightarrow> json" where
  "job_to_payload j = JObj
     [(''id'', JStr (bj_id j)), (''endpoint'', JStr (bj_endpoint j)), (''completion_window'', JStr (bj_window j)),
      (''status'', JStr (bj_status j)), (''input_file_id'', opt_text (bj_input j)), (''output_file_id'', opt_text (bj_output j)),
      (''error_file_id'', opt_text (bj_error_file j)), (''created_at'', JInt (bj_created j)),
      (''in_progress_at'', opt_number (bj_in_progress j)), (''completed_at'', opt_number (bj_completed j)),
      (''failed_at'', opt_number (bj_failed j)), (''cancelling_at'', opt_number (bj_cancelling j)),
      (''cancelled_at'', opt_number (bj_cancelled j)), (''expired_at'', opt_number (bj_expired j)),
      (''expires_at'', opt_number (bj_expires j)), (''metadata'', bj_metadata j), (''callback_url'', opt_text (bj_callback j)),
      (''governance'', (case bj_gov j of None \<Rightarrow> JNull | Some g \<Rightarrow> JObj (governance_json g))),
      (''items'', JList (map item_json (bj_items j))), (''errors'', bj_errors j), (''cancel_requested'', JBool (bj_cancel j)),
      (''results'', JList (bj_results j))]"

text \<open>
  Reading a row. A row holds what \<open>_persist\<close> wrote, so an optional text or number is one or absent;
  \<open>None\<close> is an exception, for which the row is skipped.
\<close>

definition text_field :: "json \<Rightarrow> pystr option" where
  "text_field v = (case v of JStr s \<Rightarrow> Some s | _ \<Rightarrow> None)"

definition number_field :: "json \<Rightarrow> int option" where
  "number_field v = (case v of JInt n \<Rightarrow> Some n | _ \<Rightarrow> None)"

definition str_field :: "json_lib \<Rightarrow> json \<Rightarrow> pystr \<Rightarrow> pystr" where
  "str_field jl v d = jl_str jl (json_or v (JStr d))"

definition GOVERNANCE_FIELDS :: "pystr list" where
  "GOVERNANCE_FIELDS = [''key_id'', ''client_id'', ''tier_cap'', ''no_frontier'', ''user'', ''boundary_profile'', ''kind'',
     ''latency_budget_ms'', ''deadline_ms'', ''session_id'', ''user_agent'', ''team_id'', ''cache_scope'']"

definition governance_of_json :: "json_object \<Rightarrow> batch_governance option" where
  "governance_of_json kvs =
     (if \<not> set (map fst kvs) \<subseteq> set GOVERNANCE_FIELDS then None
      else Some \<lparr>bg_key = text_field (obj_get kvs ''key_id''), bg_client = text_field (obj_get kvs ''client_id''),
        bg_tier_cap = text_field (obj_get kvs ''tier_cap''), bg_no_frontier = (obj_get kvs ''no_frontier'' = JBool True),
        bg_user = text_field (obj_get kvs ''user''), bg_boundary = obj_get kvs ''boundary_profile'',
        bg_kind = (case text_field (obj_get kvs ''kind'') of None \<Rightarrow> ''master'' | Some t \<Rightarrow> t),
        bg_latency = number_field (obj_get kvs ''latency_budget_ms''), bg_deadline = number_field (obj_get kvs ''deadline_ms''),
        bg_session = text_field (obj_get kvs ''session_id''), bg_agent = text_field (obj_get kvs ''user_agent''),
        bg_team = text_field (obj_get kvs ''team_id''),
        bg_scope = (case text_field (obj_get kvs ''cache_scope'') of None \<Rightarrow> ''global'' | Some t \<Rightarrow> t)\<rparr>)"

definition item_of_json :: "json_lib \<Rightarrow> json_object \<Rightarrow> batch_item option" where
  "item_of_json jl kvs =
     (case json_or (obj_get kvs ''body'') (JObj []) of
        JObj body \<Rightarrow> Some \<lparr>bi_custom = str_field jl (obj_get kvs ''custom_id'') '''', bi_body = body,
          bi_status = str_field jl (obj_get kvs ''status'') ITEM_PENDING, bi_response = obj_get kvs ''response'',
          bi_error = obj_get kvs ''error''\<rparr>
      | _ \<Rightarrow> None)"

text \<open>The objects of a list, all read or none.\<close>

fun items_of_json :: "json_lib \<Rightarrow> json list \<Rightarrow> batch_item list option" where
  "items_of_json jl [] = Some []"
| "items_of_json jl (JObj kvs # xs) =
     (case (item_of_json jl kvs, items_of_json jl xs) of (Some i, Some rest) \<Rightarrow> Some (i # rest) | _ \<Rightarrow> None)"
| "items_of_json jl (x # xs) = items_of_json jl xs"

definition list_field :: "json \<Rightarrow> json list" where
  "list_field v = (case v of JList xs \<Rightarrow> xs | _ \<Rightarrow> [])"

definition job_from_payload :: "json_lib \<Rightarrow> int \<Rightarrow> json \<Rightarrow> batch_job option" where
  "job_from_payload jl now payload =
     (case payload of JObj kvs \<Rightarrow>
        (case (map_of kvs ''id'', items_of_json jl (list_field (obj_get kvs ''items'')),
               (case obj_get kvs ''governance'' of JObj g \<Rightarrow> map_option Some (governance_of_json g) | _ \<Rightarrow> Some None)) of
           (Some i, Some items, Some gov) \<Rightarrow> Some
             \<lparr>bj_id = jl_str jl i, bj_endpoint = str_field jl (obj_get kvs ''endpoint'') ''/v1/chat/completions'',
              bj_window = str_field jl (obj_get kvs ''completion_window'') ''24h'',
              bj_status = str_field jl (obj_get kvs ''status'') STATUS_VALIDATING, bj_input = text_field (obj_get kvs ''input_file_id''),
              bj_output = text_field (obj_get kvs ''output_file_id''), bj_error_file = text_field (obj_get kvs ''error_file_id''),
              bj_created = num_or (number_field (obj_get kvs ''created_at'')) now,
              bj_in_progress = number_field (obj_get kvs ''in_progress_at''), bj_completed = number_field (obj_get kvs ''completed_at''),
              bj_failed = number_field (obj_get kvs ''failed_at''), bj_cancelling = number_field (obj_get kvs ''cancelling_at''),
              bj_cancelled = number_field (obj_get kvs ''cancelled_at''), bj_expired = number_field (obj_get kvs ''expired_at''),
              bj_expires = number_field (obj_get kvs ''expires_at''), bj_metadata = obj_get kvs ''metadata'',
              bj_callback = text_field (obj_get kvs ''callback_url''), bj_gov = gov, bj_items = items,
              bj_errors = obj_get kvs ''errors'', bj_cancel = truthy (obj_get kvs ''cancel_requested''),
              bj_results = list_field (obj_get kvs ''results'')\<rparr>
         | _ \<Rightarrow> None)
      | _ \<Rightarrow> None)"

definition job_wf :: "batch_job \<Rightarrow> bool" where
  "job_wf j = (bj_endpoint j \<noteq> '''' \<and> bj_window j \<noteq> '''' \<and> bj_status j \<noteq> '''' \<and> bj_created j \<noteq> 0
     \<and> list_all (\<lambda>i. bi_status i \<noteq> '''') (bj_items j))"

lemma option_fields [simp]:
  "text_field (opt_text x) = x" "number_field (opt_number n) = n"
  by (simp_all add: text_field_def opt_text_def number_field_def opt_number_def split: option.splits)

lemma governance_round_trip: "governance_of_json (governance_json g) = Some g"
  by (cases g) (simp add: governance_of_json_def governance_json_def GOVERNANCE_FIELDS_def obj_get_def,
    simp add: text_field_def)

lemma item_round_trip:
  assumes "\<And>s. jl_str jl (JStr s) = s" and "bi_status i \<noteq> ''''"
  shows "items_of_json jl (item_json i # xs) = map_option (Cons i) (items_of_json jl xs)"
proof -
  have "json_or (JObj b) (JObj []) = JObj b" for b by (simp add: json_or_def)
  moreover have "str_field jl (JStr s) '''' = s" for s using assms(1) by (simp add: str_field_def json_or_def)
  moreover have "str_field jl (JStr (bi_status i)) d = bi_status i" for d using assms by (simp add: str_field_def json_or_def)
  ultimately show ?thesis by (cases i) (simp add: item_json_def item_of_json_def obj_get_def split: option.split)
qed

lemma items_round_trip:
  assumes "\<And>s. jl_str jl (JStr s) = s" and "list_all (\<lambda>i. bi_status i \<noteq> '''') is"
  shows "items_of_json jl (map item_json is) = Some is"
  using assms(2) by (induction "is") (simp_all add: item_round_trip [OF assms(1)])

lemma payload_read_back:
  assumes "\<And>s. jl_str jl (JStr s) = s" and "job_wf j"
  shows "job_from_payload jl now (job_to_payload j) = Some j"
proof -
  have items: "items_of_json jl (map item_json (bj_items j)) = Some (bj_items j)"
    using assms by (intro items_round_trip) (simp_all add: job_wf_def)
  have str: "s \<noteq> '''' \<Longrightarrow> str_field jl (JStr s) d = s" for s d using assms(1) by (simp add: str_field_def json_or_def)
  have created: "num_or (number_field (JInt (bj_created j))) now = bj_created j"
    using assms(2) by (simp add: number_field_def job_wf_def)
  have lists: "list_field (JList xs) = xs" for xs by (simp add: list_field_def)
  show ?thesis
    using assms items str created unfolding job_from_payload_def job_to_payload_def
    by (cases j) (simp add: obj_get_def lists governance_round_trip job_wf_def split: option.split)
qed

text \<open>C22. What a job writes to its row is read back exactly, whatever its state: id, status, times, governance, items with
  their answers, and result lines. The only condition is what every job of the store satisfies: no empty endpoint,
  window or status, and a creation time.\<close>

theorem batch_rows_round_trip:
  assumes "\<And>s. jl_str jl (JStr s) = s" and "job_wf j"
  shows "job_from_payload jl now (job_to_payload j) = Some j"
  by (rule payload_read_back [OF assms])

section \<open>Input\<close>

text \<open>The line breaks of \<open>str.splitlines\<close> in Latin-1; \<open>cr\<close>: the last line ended with a carriage return.\<close>

definition is_line_break :: "char \<Rightarrow> bool" where
  "is_line_break c = (let n = (of_char c :: nat) in n \<in> {10, 11, 12, 13, 28, 29, 30, 133})"

fun lines_from :: "bool \<Rightarrow> pystr \<Rightarrow> pystr \<Rightarrow> pystr list" where
  "lines_from cr acc [] = (if acc = [] then [] else [rev acc])"
| "lines_from cr acc (c # s) =
     (if cr \<and> c = CHR 0x0A then lines_from False acc s
      else if is_line_break c then rev acc # lines_from (c = CHR 0x0D) [] s
      else lines_from False (c # acc) s)"

definition py_splitlines :: "pystr \<Rightarrow> pystr list" where
  "py_splitlines = lines_from False []"

definition line_error :: "pystr \<Rightarrow> pystr \<Rightarrow> json \<Rightarrow> json" where
  "line_error code why line = JObj [(''code'', JStr code), (''message'', JStr why), (''param'', JStr ''input_file_id''), (''line'', line)]"

text \<open>\<open>complain\<close>: the decoder's message for a text that is not JSON.\<close>

definition parse_batch_line :: "json_lib \<Rightarrow> (pystr \<Rightarrow> pystr) \<Rightarrow> int \<Rightarrow> pystr \<Rightarrow> (json + json) option" where
  "parse_batch_line jl complain index raw =
     (let line = py_strip raw; at_line = ''line '' @ str_of_int index @ '': '' in
      if line = '''' then None
      else (case jl_loads jl line of
          None \<Rightarrow> Some (Inl (line_error ''invalid_json'' (at_line @ complain line) (JInt index)))
        | Some (JObj kvs) \<Rightarrow>
            (if (case obj_get kvs ''body'' of JObj b \<Rightarrow> True | _ \<Rightarrow> map_of kvs ''messages'' \<noteq> None)
             then Some (Inr (JObj kvs))
             else Some (Inl (line_error ''invalid_request''
               (at_line @ ''must be a chat-completion body or {custom_id, method, url, body}'') (JInt index))))
        | Some v \<Rightarrow> Some (Inl (line_error ''invalid_request'' (at_line @ ''expected a JSON object'') (JInt index)))))"

fun parse_batch_lines :: "json_lib \<Rightarrow> (pystr \<Rightarrow> pystr) \<Rightarrow> int \<Rightarrow> pystr list \<Rightarrow> json list \<times> json list" where
  "parse_batch_lines jl complain index [] = ([], [])"
| "parse_batch_lines jl complain index (raw # rest) =
     (case parse_batch_lines jl complain (index + 1) rest of (requests, errors) \<Rightarrow>
        (case parse_batch_line jl complain index raw of
           None \<Rightarrow> (requests, errors) | Some (Inl e) \<Rightarrow> (requests, e # errors) | Some (Inr r) \<Rightarrow> (r # requests, errors)))"

definition parse_batch_jsonl :: "json_lib \<Rightarrow> (pystr \<Rightarrow> pystr) \<Rightarrow> pystr \<Rightarrow> json list \<times> json list" where
  "parse_batch_jsonl jl complain content = parse_batch_lines jl complain 1 (py_splitlines content)"

text \<open>\<open>Inl\<close> is a \<open>ValueError\<close>; \<open>short\<close> gives the eight hexadecimal digits for an entry without id.\<close>

definition request_item :: "json_lib \<Rightarrow> (nat \<Rightarrow> pystr) \<Rightarrow> nat \<Rightarrow> json \<Rightarrow> pystr + batch_item" where
  "request_item jl short index entry =
     (let place = ''requests['' @ str_of_int (int index) @ '']'';
          item = (\<lambda>cid body. Inr \<lparr>bi_custom = cid, bi_body = body, bi_status = ITEM_PENDING, bi_response = JNull, bi_error = JNull\<rparr>) in
      case entry of JObj kvs \<Rightarrow>
        (case obj_get kvs ''body'' of
           JObj body \<Rightarrow> item (str_field jl (obj_get kvs ''custom_id'') (''req_'' @ str_of_int (int index))) body
         | _ \<Rightarrow> (if map_of kvs ''messages'' \<noteq> None
             then item (str_field jl (obj_get kvs ''custom_id'') (''req_'' @ short index)) kvs
             else Inl (place @ '' must be a chat-completion body or {custom_id, method, url, body}'')))
      | _ \<Rightarrow> Inl (place @ '' must be an object''))"

fun normalize_requests :: "json_lib \<Rightarrow> (nat \<Rightarrow> pystr) \<Rightarrow> nat \<Rightarrow> json list \<Rightarrow> pystr + batch_item list" where
  "normalize_requests jl short index [] = Inr []"
| "normalize_requests jl short index (e # es) =
     (case request_item jl short index e of Inl why \<Rightarrow> Inl why
      | Inr i \<Rightarrow> (case normalize_requests jl short (Suc index) es of Inl why \<Rightarrow> Inl why | Inr is \<Rightarrow> Inr (i # is)))"

section \<open>The store\<close>

record batch_cfg =
  bc_lib :: json_lib
  bc_complain :: "pystr \<Rightarrow> pystr"
  bc_durable :: bool                              \<comment> \<open>\<open>batches.path\<close> is set\<close>
  bc_files :: bool                                \<comment> \<open>a file store is attached\<close>
  bc_read :: "pystr \<Rightarrow> pystr option"              \<comment> \<open>\<open>file_store.read_text\<close>\<close>
  bc_yield :: bool
  bc_probe :: bool

text \<open>What one step meets.\<close>

record batch_env =
  be_now :: int
  be_db :: bool
  be_load :: "int option"                         \<comment> \<open>the idle probe; \<open>None\<close>: it raised\<close>
  be_uuid :: pystr
  be_short :: "nat \<Rightarrow> pystr"
  be_output :: "pystr option"                     \<comment> \<open>the id of the output file; \<open>None\<close>: writing raised\<close>
  be_errors :: "pystr option"

datatype batch_worker = NoJob | Executing pystr nat | Sleeping pystr nat

record batch_store =
  bt_jobs :: "(pystr \<times> batch_job) list"           \<comment> \<open>the job objects; the worker may hold one that was deleted\<close>
  bt_batches :: "pystr list"                      \<comment> \<open>keys of \<open>_batches\<close>\<close>
  bt_order :: "pystr list"
  bt_rows :: "(pystr \<times> json) list"
  bt_row_order :: "pystr list"
  bt_running :: "pystr list"
  bt_notified :: "pystr list"
  bt_queue :: "pystr list"                        \<comment> \<open>\<open>run_job\<close> tasks at the semaphore\<close>
  bt_worker :: batch_worker
  bt_hooks :: "(pystr \<times> json) list"               \<comment> \<open>webhooks scheduled by this process\<close>

definition new_batches :: batch_store where
  "new_batches = \<lparr>bt_jobs = [], bt_batches = [], bt_order = [], bt_rows = [], bt_row_order = [], bt_running = [],
     bt_notified = [], bt_queue = [], bt_worker = NoJob, bt_hooks = []\<rparr>"

definition job_of :: "batch_store \<Rightarrow> pystr \<Rightarrow> batch_job" where
  "job_of s i = the (map_of (bt_jobs s) i)"

definition put_job :: "batch_job \<Rightarrow> batch_store \<Rightarrow> batch_store" where
  "put_job j s = s\<lparr>bt_jobs := AList.update (bj_id j) j (bt_jobs s)\<rparr>"

definition count_items :: "pystr \<Rightarrow> batch_job \<Rightarrow> int" where
  "count_items st j = int (length (filter (\<lambda>i. bi_status i = st) (bj_items j)))"

definition as_public :: "batch_job \<Rightarrow> json_object" where
  "as_public j =
     [(''id'', JStr (bj_id j)), (''object'', JStr ''batch''), (''endpoint'', JStr (bj_endpoint j)), (''errors'', bj_errors j),
      (''input_file_id'', opt_text (bj_input j)), (''completion_window'', JStr (bj_window j)), (''status'', JStr (bj_status j)),
      (''output_file_id'', opt_text (bj_output j)), (''error_file_id'', opt_text (bj_error_file j)),
      (''created_at'', JInt (bj_created j)), (''in_progress_at'', opt_number (bj_in_progress j)),
      (''expires_at'', opt_number (bj_expires j)), (''finalizing_at'', JNull), (''completed_at'', opt_number (bj_completed j)),
      (''failed_at'', opt_number (bj_failed j)), (''expired_at'', opt_number (bj_expired j)),
      (''cancelling_at'', opt_number (bj_cancelling j)), (''cancelled_at'', opt_number (bj_cancelled j)),
      (''request_counts'', JObj ([(''total'', JInt (int (length (bj_items j)))), (''completed'', JInt (count_items ITEM_COMPLETED j)),
         (''failed'', JInt (count_items ITEM_FAILED j))]
         @ (if count_items ITEM_SKIPPED j = 0 then [] else [(''skipped'', JInt (count_items ITEM_SKIPPED j))]))),
      (''metadata'', bj_metadata j)]
     @ (if bj_results j = [] then [] else [(''results'', JList (bj_results j))])"

definition persist :: "batch_cfg \<Rightarrow> batch_env \<Rightarrow> batch_job \<Rightarrow> batch_store \<Rightarrow> batch_store" where
  "persist c e j s =
     (if \<not> bc_durable c \<or> \<not> be_db e then s
      else s\<lparr>bt_rows := AList.update (bj_id j) (job_to_payload j) (bt_rows s),
             bt_row_order := (if bj_id j \<in> set (bt_row_order s) then bt_row_order s else bt_row_order s @ [bj_id j])\<rparr>)"

definition notify_terminal :: "batch_job \<Rightarrow> batch_store \<Rightarrow> batch_store" where
  "notify_terminal j s =
     (if bj_status j \<notin> TERMINAL_STATUSES \<or> bj_id j \<in> set (bt_notified s) then s
      else s\<lparr>bt_notified := bj_id j # bt_notified s, bt_hooks := bt_hooks s @ [(bj_id j, JObj (as_public j))]\<rparr>)"

definition skip_item :: "batch_item \<Rightarrow> batch_item" where
  "skip_item i = (if bi_status i = ITEM_PENDING then i\<lparr>bi_status := ITEM_SKIPPED\<rparr> else i)"

definition mark_remaining_skipped :: "batch_job \<Rightarrow> batch_job" where
  "mark_remaining_skipped j = j\<lparr>bj_items := map skip_item (bj_items j)\<rparr>"

definition any_pending :: "batch_job \<Rightarrow> bool" where
  "any_pending j = list_ex (\<lambda>i. bi_status i = ITEM_PENDING) (bj_items j)"

definition maybe_expire :: "int \<Rightarrow> batch_job \<Rightarrow> bool \<times> batch_job" where
  "maybe_expire now j =
     (if bj_status j \<in> TERMINAL_STATUSES then (False, j)
      else if (case bj_expires j of None \<Rightarrow> True | Some t \<Rightarrow> now < t) then (False, j)
      else if \<not> any_pending j then (False, j)
      else (True, (mark_remaining_skipped j)\<lparr>bj_status := STATUS_EXPIRED, bj_expired := Some now\<rparr>))"

definition get_batch :: "batch_cfg \<Rightarrow> batch_env \<Rightarrow> pystr \<Rightarrow> batch_store \<Rightarrow> batch_job option \<times> batch_store" where
  "get_batch c e i s =
     (if i \<notin> set (bt_batches s) then (None, s)
      else (case maybe_expire (be_now e) (job_of s i) of
          (False, j) \<Rightarrow> (Some (job_of s i), s)
        | (True, j) \<Rightarrow> (Some j, notify_terminal j (persist c e j (put_job j s)))))"

fun list_from :: "batch_cfg \<Rightarrow> batch_env \<Rightarrow> int \<Rightarrow> pystr option \<Rightarrow> pystr list \<Rightarrow> batch_job list \<Rightarrow> batch_store \<Rightarrow>
    batch_job list \<times> batch_store" where
  "list_from c e limit owner [] out s = (out, s)"
| "list_from c e limit owner (i # is) out s =
     (case get_batch c e i s of
        (None, s1) \<Rightarrow> list_from c e limit owner is out s1
      | (Some j, s1) \<Rightarrow>
          (if owner \<noteq> None \<and> (bj_gov j = None \<or> Option.bind (bj_gov j) bg_key \<noteq> owner) then list_from c e limit owner is out s1
           else if int (length (out @ [j])) \<ge> max 1 (min limit 1000) then (out @ [j], s1)
           else list_from c e limit owner is (out @ [j]) s1))"

definition list_batches :: "batch_cfg \<Rightarrow> batch_env \<Rightarrow> int \<Rightarrow> pystr option \<Rightarrow> batch_store \<Rightarrow> batch_job list \<times> batch_store" where
  "list_batches c e limit owner s = list_from c e limit owner (rev (bt_order s)) [] s"

definition delete_job :: "batch_cfg \<Rightarrow> batch_env \<Rightarrow> pystr \<Rightarrow> batch_store \<Rightarrow> batch_store" where
  "delete_job c e i s =
     (let s1 = s\<lparr>bt_batches := filter (\<lambda>x. x \<noteq> i) (bt_batches s), bt_order := filter (\<lambda>x. x \<noteq> i) (bt_order s)\<rparr> in
      if bc_durable c \<and> be_db e
      then s1\<lparr>bt_rows := AList.delete i (bt_rows s1), bt_row_order := filter (\<lambda>x. x \<noteq> i) (bt_row_order s1)\<rparr> else s1)"

definition clean_subject :: "pystr option \<Rightarrow> pystr option" where
  "clean_subject x = (let t = py_strip (str_or x '''') in if t = '''' then None else Some t)"

definition subject_matches :: "pystr option \<Rightarrow> pystr option \<Rightarrow> pystr option \<Rightarrow> batch_job \<Rightarrow> bool" where
  "subject_matches key team user j = (case bj_gov j of None \<Rightarrow> False
     | Some g \<Rightarrow> (key \<noteq> None \<and> bg_key g = key) \<or> (team \<noteq> None \<and> bg_team g = team) \<or> (user \<noteq> None \<and> bg_user g = user))"

definition erase_subject ::
    "batch_cfg \<Rightarrow> batch_env \<Rightarrow> pystr option \<Rightarrow> pystr option \<Rightarrow> pystr option \<Rightarrow> bool \<Rightarrow> batch_store \<Rightarrow> nat \<times> batch_store" where
  "erase_subject c e key team user dry s =
     (let k = clean_subject key; t = clean_subject team; u = clean_subject user in
      if k = None \<and> t = None \<and> u = None then (0, s)
      else (let doomed = filter (\<lambda>i. subject_matches k t u (job_of s i)) (bt_batches s) in
        (length doomed, if dry then s else fold (delete_job c e) doomed s)))"

definition prune_older_than :: "batch_cfg \<Rightarrow> batch_env \<Rightarrow> pyfloat \<Rightarrow> bool \<Rightarrow> batch_store \<Rightarrow> nat \<times> batch_store" where
  "prune_older_than c e cutoff dry s =
     (let doomed = filter (\<lambda>i. bj_created (job_of s i) < py_trunc cutoff) (bt_batches s) in
      (length doomed, if dry then s else fold (delete_job c e) doomed s))"

definition cancel_batch :: "batch_cfg \<Rightarrow> batch_env \<Rightarrow> pystr \<Rightarrow> batch_store \<Rightarrow> batch_job option \<times> batch_store" where
  "cancel_batch c e i s =
     (case get_batch c e i s of
        (None, s1) \<Rightarrow> (None, s1)
      | (Some j, s1) \<Rightarrow>
          (if bj_status j \<in> TERMINAL_STATUSES then (Some j, s1)
           else if bj_status j = STATUS_VALIDATING \<or> i \<notin> set (bt_running s1)
           then (let j1 = (mark_remaining_skipped j)\<lparr>bj_cancel := True, bj_status := STATUS_CANCELLED,
                       bj_cancelling := Some (be_now e), bj_cancelled := Some (be_now e)\<rparr>
                 in (Some j1, notify_terminal j1 (persist c e j1 (put_job j1 s1))))
           else (let j1 = j\<lparr>bj_cancel := True, bj_status := STATUS_CANCELLING, bj_cancelling := Some (be_now e)\<rparr>
                 in (Some j1, persist c e j1 (put_job j1 s1)))))"

section \<open>Creating and scheduling\<close>

record batch_spec =
  bs_endpoint :: pystr
  bs_window :: pystr
  bs_input :: "pystr option"
  bs_requests :: "json list option"
  bs_metadata :: json
  bs_callback :: "pystr option"
  bs_gov :: "batch_governance option"

definition load_input_file :: "batch_cfg \<Rightarrow> pystr \<Rightarrow> json list \<times> json list" where
  "load_input_file c i =
     (if \<not> bc_files c then ([], [line_error ''invalid_request'' ''files store is not configured'' JNull])
      else (case bc_read c i of
          None \<Rightarrow> ([], [line_error ''invalid_request'' (''unknown input_file_id: '' @ i) JNull])
        | Some t \<Rightarrow> parse_batch_jsonl (bc_lib c) (bc_complain c) t))"

definition error_list :: "json list \<Rightarrow> json" where
  "error_list es = JObj [(''object'', JStr ''list''), (''data'', JList es)]"

definition no_content_error :: json where
  "no_content_error = line_error ''invalid_request''
     ''input_file_id without uploaded file content is not supported; upload via POST /v1/files or pass an inline requests array'' JNull"

definition new_job :: "batch_env \<Rightarrow> batch_spec \<Rightarrow> json list \<Rightarrow> batch_item list \<Rightarrow> batch_job" where
  "new_job e sp line_errors items =
     (let refused = (items = []);
          errors = (if line_errors \<noteq> [] then error_list line_errors else if refused then error_list [no_content_error] else JNull)
      in \<lparr>bj_id = ''batch_'' @ be_uuid e, bj_endpoint = str_or (Some (bs_endpoint sp)) ''/v1/chat/completions'',
          bj_window = str_or (Some (bs_window sp)) ''24h'', bj_status = (if refused then STATUS_FAILED else STATUS_VALIDATING),
          bj_input = bs_input sp, bj_output = None, bj_error_file = None, bj_created = be_now e, bj_in_progress = None,
          bj_completed = None, bj_failed = (if refused then Some (be_now e) else None), bj_cancelling = None, bj_cancelled = None,
          bj_expired = None, bj_expires = Some (be_now e + 24 * 3600), bj_metadata = bs_metadata sp,
          bj_callback = clean_subject (bs_callback sp), bj_gov = bs_gov sp, bj_items = items, bj_errors = errors,
          bj_cancel = False, bj_results = []\<rparr>)"

definition create_batch :: "batch_cfg \<Rightarrow> batch_env \<Rightarrow> batch_spec \<Rightarrow> batch_store \<Rightarrow> (pystr + batch_job) \<times> batch_store" where
  "create_batch c e sp s =
     (let inline = (case bs_requests sp of None \<Rightarrow> [] | Some rs \<Rightarrow> rs);
          file = str_or (bs_input sp) '''';
          (requests, line_errors) = (if file \<noteq> '''' \<and> inline = [] then load_input_file c file else (inline, []))
      in if file = '''' \<and> inline = [] then (Inl ''Provide input_file_id or an inline requests array'', s)
         else (case normalize_requests (bc_lib c) (be_short e) 0 requests of
             Inl why \<Rightarrow> (Inl why, s)
           | Inr items \<Rightarrow>
               (let j = new_job e sp line_errors items;
                    s1 = (put_job j s)\<lparr>bt_batches := bt_batches s @ [bj_id j], bt_order := bt_order s @ [bj_id j]\<rparr>
                in (Inr j, notify_terminal j (persist c e j s1)))))"

definition RESUMABLE :: "pystr set" where
  "RESUMABLE = {STATUS_VALIDATING, STATUS_IN_PROGRESS}"

definition schedule_batch :: "batch_cfg \<Rightarrow> batch_env \<Rightarrow> pystr \<Rightarrow> batch_store \<Rightarrow> batch_store" where
  "schedule_batch c e i s =
     (case get_batch c e i s of
        (None, s1) \<Rightarrow> s1
      | (Some j, s1) \<Rightarrow> (if bj_items j = [] \<or> bj_status j \<notin> RESUMABLE then s1 else s1\<lparr>bt_queue := bt_queue s1 @ [i]\<rparr>))"

text \<open>The handler of \<open>POST /v1/batches\<close>.\<close>

definition submit_batch :: "batch_cfg \<Rightarrow> batch_env \<Rightarrow> batch_spec \<Rightarrow> batch_store \<Rightarrow> (pystr + batch_job) \<times> batch_store" where
  "submit_batch c e sp s =
     (case create_batch c e sp s of
        (Inl why, s1) \<Rightarrow> (Inl why, s1)
      | (Inr j, s1) \<Rightarrow> (let s2 = schedule_batch c e (bj_id j) s1 in (Inr (job_of s2 (bj_id j)), s2)))"

definition resume_incomplete :: "batch_cfg \<Rightarrow> batch_env \<Rightarrow> batch_store \<Rightarrow> batch_store" where
  "resume_incomplete c e s =
     fold (\<lambda>i s. case get_batch c e i s of
             (None, s1) \<Rightarrow> s1
           | (Some j, s1) \<Rightarrow> (if bj_status j \<notin> RESUMABLE \<or> \<not> any_pending j then s1 else schedule_batch c e i s1))
       (bt_order s) s"

text \<open>A new process: what the database holds, if it can be read, and its unfinished jobs queued again.\<close>

definition load_row :: "json_lib \<Rightarrow> int \<Rightarrow> (pystr \<times> json) list \<Rightarrow> pystr \<Rightarrow> batch_store \<Rightarrow> batch_store" where
  "load_row jl now rows i s =
     (case map_of rows i of None \<Rightarrow> s
      | Some p \<Rightarrow> (case job_from_payload jl now p of None \<Rightarrow> s
          | Some j \<Rightarrow> (put_job j s)\<lparr>bt_batches := (if bj_id j \<in> set (bt_batches s) then bt_batches s else bt_batches s @ [bj_id j]),
                bt_order := bt_order s @ [bj_id j]\<rparr>))"

definition load_from_db :: "batch_cfg \<Rightarrow> batch_env \<Rightarrow> batch_store \<Rightarrow> batch_store" where
  "load_from_db c e s =
     (let empty = new_batches\<lparr>bt_rows := bt_rows s, bt_row_order := bt_row_order s\<rparr> in
      if \<not> bc_durable c \<or> \<not> be_db e then empty
      else fold (load_row (bc_lib c) (be_now e) (bt_rows s)) (bt_row_order s) empty)"

definition restart_store :: "batch_cfg \<Rightarrow> batch_env \<Rightarrow> batch_store \<Rightarrow> batch_store" where
  "restart_store c e s = resume_incomplete c e (load_from_db c e s)"

section \<open>The worker\<close>

text \<open>What \<open>execute_one\<close> does: answer, reject with an error object, or raise anything else.\<close>

datatype item_outcome = Answer json | Reject json_object | Crash pystr

definition reject_type :: "json_lib \<Rightarrow> json_object \<Rightarrow> pystr" where
  "reject_type jl err = str_field jl (json_or (obj_get err ''type'') (obj_get err ''code'')) ''''"

definition reject_status :: "pystr \<Rightarrow> int" where
  "reject_status t =
     (if t = ''budget_exceeded'' then 402 else if t \<in> {''rate_limit_error'', ''rate_limit''} then 429
      else if t = ''model_not_allowed'' then 403 else if t = ''model_retired'' then 410 else 400)"

definition http_part :: "int \<Rightarrow> json \<Rightarrow> json" where
  "http_part code body = JObj [(''status_code'', JInt code), (''request_id'', JNull), (''body'', body)]"

definition result_line :: "pystr \<Rightarrow> pystr \<Rightarrow> json \<Rightarrow> json \<Rightarrow> json" where
  "result_line rid custom response err =
     JObj [(''id'', JStr (''batch_req_'' @ rid)), (''custom_id'', JStr custom), (''response'', response), (''error'', err)]"

definition settle_item :: "json_lib \<Rightarrow> pystr \<Rightarrow> item_outcome \<Rightarrow> batch_item \<Rightarrow> batch_item \<times> json" where
  "settle_item jl rid out i =
     (case out of
        Answer v \<Rightarrow> (i\<lparr>bi_response := v, bi_status := ITEM_COMPLETED\<rparr>, result_line rid (bi_custom i) (http_part 200 v) JNull)
      | Reject err \<Rightarrow> (i\<lparr>bi_status := ITEM_FAILED, bi_error := JObj err\<rparr>,
          result_line rid (bi_custom i) (http_part (reject_status (reject_type jl err)) JNull) (JObj err))
      | Crash why \<Rightarrow> (i\<lparr>bi_status := ITEM_FAILED, bi_error := JStr (take 500 why)\<rparr>,
          result_line rid (bi_custom i) JNull (JObj [(''code'', JStr ''server_error''), (''message'', JStr (take 500 why))])))"

definition settle_job :: "json_lib \<Rightarrow> pystr \<Rightarrow> item_outcome \<Rightarrow> nat \<Rightarrow> batch_job \<Rightarrow> batch_job" where
  "settle_job jl rid out n j =
     (case settle_item jl rid out (bj_items j ! n) of (i, line) \<Rightarrow> j\<lparr>bj_items := (bj_items j)[n := i], bj_results := bj_results j @ [line]\<rparr>)"

definition row_failed :: "json \<Rightarrow> bool" where
  "row_failed row = (case row of JObj kvs \<Rightarrow> obj_get kvs ''error'' \<noteq> JNull | _ \<Rightarrow> False)"

definition write_result_files :: "batch_cfg \<Rightarrow> batch_env \<Rightarrow> batch_job \<Rightarrow> batch_job" where
  "write_result_files c e j =
     (if \<not> bc_files c \<or> bj_results j = [] then j
      else (case be_output e of None \<Rightarrow> j
        | Some f \<Rightarrow> (let j1 = j\<lparr>bj_output := Some f\<rparr> in
            if list_ex row_failed (bj_results j)
            then (case be_errors e of None \<Rightarrow> j1 | Some g \<Rightarrow> j1\<lparr>bj_error_file := Some g\<rparr>) else j1)))"

text \<open>The end of \<open>run_job\<close>, with the \<open>finally\<close>.\<close>

definition final_job :: "batch_cfg \<Rightarrow> batch_env \<Rightarrow> batch_job \<Rightarrow> batch_job" where
  "final_job c e j =
     (if bj_status j = STATUS_EXPIRED then j
      else if bj_cancel j then (mark_remaining_skipped j)\<lparr>bj_status := STATUS_CANCELLED, bj_cancelled := Some (be_now e)\<rparr>
      else write_result_files c e (j\<lparr>bj_status := STATUS_COMPLETED, bj_completed := Some (be_now e)\<rparr>))"

definition finish_job :: "batch_cfg \<Rightarrow> batch_env \<Rightarrow> batch_job \<Rightarrow> batch_store \<Rightarrow> batch_store" where
  "finish_job c e j s =
     (let j1 = final_job c e j; s1 = notify_terminal j1 (persist c e j1 (put_job j1 s))
      in s1\<lparr>bt_running := filter (\<lambda>x. x \<noteq> bj_id j) (bt_running s1), bt_worker := NoJob\<rparr>)"

datatype idle = Idle | Halt | Nap

definition wait_for_idle :: "batch_cfg \<Rightarrow> batch_env \<Rightarrow> batch_job \<Rightarrow> idle \<times> batch_job" where
  "wait_for_idle c e j =
     (if \<not> bc_yield c \<or> \<not> bc_probe c then (Idle, j)
      else if bj_cancel j then (Halt, j)
      else (case maybe_expire (be_now e) j of
          (True, j1) \<Rightarrow> (Halt, j1)
        | (False, j1) \<Rightarrow> (if num_or (be_load e) 0 \<le> 0 then (Idle, j1) else (Nap, j1))))"

text \<open>The loop over the items from a position on, up to the next \<open>await\<close>.\<close>

fun run_items :: "batch_cfg \<Rightarrow> batch_env \<Rightarrow> batch_job \<Rightarrow> nat list \<Rightarrow> batch_store \<Rightarrow> batch_store" where
  "run_items c e j [] s = finish_job c e j s"
| "run_items c e j (n # ns) s =
     (if bj_cancel j then finish_job c e (mark_remaining_skipped j) s
      else (case maybe_expire (be_now e) j of
          (True, j1) \<Rightarrow> finish_job c e j1 s
        | (False, _) \<Rightarrow>
            (if bi_status (bj_items j ! n) \<noteq> ITEM_PENDING then run_items c e j ns s
             else (case wait_for_idle c e j of
                 (Idle, _) \<Rightarrow> s\<lparr>bt_worker := Executing (bj_id j) n\<rparr>
               | (Halt, j1) \<Rightarrow> finish_job c e j1 s
               | (Nap, _) \<Rightarrow> s\<lparr>bt_worker := Sleeping (bj_id j) n\<rparr>))))"

definition run_job :: "batch_cfg \<Rightarrow> batch_env \<Rightarrow> pystr \<Rightarrow> batch_store \<Rightarrow> batch_store" where
  "run_job c e i s =
     (case get_batch c e i s of
        (None, s1) \<Rightarrow> s1
      | (Some j, s1) \<Rightarrow>
          (if bj_status j \<in> TERMINAL_STATUSES then s1
           else if bj_cancel j
           then (let j1 = (mark_remaining_skipped j)\<lparr>bj_status := STATUS_CANCELLED,
                       bj_cancelled := Some (num_or (bj_cancelled j) (be_now e)), bj_cancelling := Some (num_or (bj_cancelling j) (be_now e))\<rparr>
                 in notify_terminal j1 (persist c e j1 (put_job j1 s1)))
           else if bj_items j = [] then s1
           else (let j1 = j\<lparr>bj_status := STATUS_IN_PROGRESS, bj_in_progress := Some (num_or (bj_in_progress j) (be_now e))\<rparr>;
                     s2 = persist c e j1 ((put_job j1 s1)\<lparr>bt_running := i # bt_running s1\<rparr>)
                 in run_items c e j1 [0..<length (bj_items j1)] s2)))"

text \<open>The semaphore lets the next task in.\<close>

definition start_next :: "batch_cfg \<Rightarrow> batch_env \<Rightarrow> batch_store \<Rightarrow> batch_store" where
  "start_next c e s = (case bt_queue s of [] \<Rightarrow> s | i # is \<Rightarrow> run_job c e i (s\<lparr>bt_queue := is\<rparr>))"

definition item_done :: "batch_cfg \<Rightarrow> batch_env \<Rightarrow> item_outcome \<Rightarrow> batch_store \<Rightarrow> batch_store" where
  "item_done c e out s =
     (case bt_worker s of
        Executing i n \<Rightarrow>
          (let j = settle_job (bc_lib c) (be_uuid e) out n (job_of s i)
           in run_items c e j [Suc n..<length (bj_items j)] (persist c e j (put_job j s)))
      | _ \<Rightarrow> s)"

definition nap_over :: "batch_cfg \<Rightarrow> batch_env \<Rightarrow> batch_store \<Rightarrow> batch_store" where
  "nap_over c e s =
     (case bt_worker s of
        Sleeping i n \<Rightarrow> (case wait_for_idle c e (job_of s i) of
            (Idle, _) \<Rightarrow> s\<lparr>bt_worker := Executing i n\<rparr>
          | (Halt, j) \<Rightarrow> finish_job c e j s
          | (Nap, _) \<Rightarrow> s)
      | _ \<Rightarrow> s)"

section \<open>Runs\<close>

text \<open>Every step of one process; a new id is one that was never used.\<close>

inductive batch_step :: "batch_cfg \<Rightarrow> batch_store \<Rightarrow> batch_store \<Rightarrow> bool" for c where
  submit: "''batch_'' @ be_uuid e \<notin> fst ` set (bt_jobs s) \<Longrightarrow> 0 < be_now e \<Longrightarrow> batch_step c s (snd (submit_batch c e sp s))"
| look: "batch_step c s (snd (get_batch c e i s))"
| listing: "batch_step c s (snd (list_batches c e limit owner s))"
| cancel: "batch_step c s (snd (cancel_batch c e i s))"
| erase: "batch_step c s (snd (erase_subject c e key team user dry s))"
| prune: "batch_step c s (snd (prune_older_than c e cutoff dry s))"
| start: "bt_worker s = NoJob \<Longrightarrow> batch_step c s (start_next c e s)"
| answered: "batch_step c s (item_done c e out s)"
| woken: "batch_step c s (nap_over c e s)"

inductive batch_reach :: "batch_cfg \<Rightarrow> batch_store \<Rightarrow> bool" for c where
  new: "batch_reach c new_batches"
| step: "batch_reach c s \<Longrightarrow> batch_step c s s' \<Longrightarrow> batch_reach c s'"
| crash: "batch_reach c s \<Longrightarrow> batch_reach c (restart_store c e s)"

section \<open>What holds of a job\<close>

definition settled :: "batch_item \<Rightarrow> bool" where
  "settled i = (bi_status i = ITEM_COMPLETED \<or> bi_status i = ITEM_FAILED)"

definition settled_upto :: "nat \<Rightarrow> batch_item list \<Rightarrow> bool" where
  "settled_upto k is = (k \<le> length is \<and> (\<forall>i < length is. settled (is ! i) = (i < k)))"

definition result_custom :: "json \<Rightarrow> json" where
  "result_custom row = (case row of JObj kvs \<Rightarrow> obj_get kvs ''custom_id'' | _ \<Rightarrow> JNull)"

definition in_order :: "batch_job \<Rightarrow> bool" where
  "in_order j = (\<exists>k. settled_upto k (bj_items j) \<and> map result_custom (bj_results j) = map (\<lambda>i. JStr (bi_custom i)) (take k (bj_items j)))"

definition any_skipped :: "batch_job \<Rightarrow> bool" where
  "any_skipped j = list_ex (\<lambda>i. bi_status i = ITEM_SKIPPED) (bj_items j)"

definition known_items :: "batch_job \<Rightarrow> bool" where
  "known_items j = list_all (\<lambda>i. bi_status i \<in> {ITEM_PENDING, ITEM_COMPLETED, ITEM_FAILED, ITEM_SKIPPED}) (bj_items j)"

definition stopped :: "batch_job \<Rightarrow> bool" where
  "stopped j = (bj_status j = STATUS_EXPIRED \<or> bj_status j = STATUS_CANCELLED)"

definition job_ok :: "batch_job \<Rightarrow> bool" where
  "job_ok j = (job_wf j \<and> in_order j \<and> known_items j \<and> (if stopped j then \<not> any_pending j else \<not> any_skipped j)
     \<and> (bj_status j = STATUS_COMPLETED \<longrightarrow> list_all settled (bj_items j)))"

lemma settled_upto_unique: "settled_upto k is \<Longrightarrow> settled_upto n is \<Longrightarrow> k = n"
  unfolding settled_upto_def by (metis linorder_neqE_nat order_less_le_trans less_irrefl)

lemma skip_item_keeps [simp]:
  "settled (skip_item i) = settled i" "bi_custom (skip_item i) = bi_custom i" "bi_status (skip_item i) \<noteq> ITEM_PENDING"
  "bi_status i \<noteq> '''' \<Longrightarrow> bi_status (skip_item i) \<noteq> ''''"
  by (simp_all add: skip_item_def settled_def ITEM_PENDING_def ITEM_SKIPPED_def ITEM_COMPLETED_def ITEM_FAILED_def)

lemma skip_items:
  "length (bj_items (mark_remaining_skipped j)) = length (bj_items j)"
  "settled_upto k (bj_items (mark_remaining_skipped j)) = settled_upto k (bj_items j)"
  "map (\<lambda>i. JStr (bi_custom i)) (take k (bj_items (mark_remaining_skipped j))) = map (\<lambda>i. JStr (bi_custom i)) (take k (bj_items j))"
  by (simp_all add: mark_remaining_skipped_def settled_upto_def take_map comp_def)

lemma skip_fields [simp]:
  "bj_id (mark_remaining_skipped j) = bj_id j" "bj_status (mark_remaining_skipped j) = bj_status j"
  "bj_cancel (mark_remaining_skipped j) = bj_cancel j" "bj_results (mark_remaining_skipped j) = bj_results j"
  by (simp_all add: mark_remaining_skipped_def)

lemma skip_leaves:
  "\<not> any_pending (mark_remaining_skipped j)"
  "in_order (mark_remaining_skipped j) = in_order j"
  "known_items j \<Longrightarrow> known_items (mark_remaining_skipped j)"
  "job_wf j \<Longrightarrow> job_wf (mark_remaining_skipped j)"
proof -
  show "\<not> any_pending (mark_remaining_skipped j)"
    by (auto simp: any_pending_def mark_remaining_skipped_def list_ex_iff)
  show "in_order (mark_remaining_skipped j) = in_order j"
    by (simp add: in_order_def skip_items)
  show "known_items j \<Longrightarrow> known_items (mark_remaining_skipped j)"
    by (auto simp: known_items_def mark_remaining_skipped_def list_all_iff skip_item_def)
  show "job_wf j \<Longrightarrow> job_wf (mark_remaining_skipped j)"
    by (auto simp: job_wf_def mark_remaining_skipped_def list_all_iff)
qed

text \<open>Only items and results matter to these, so time stamps and statuses are free.\<close>

lemmas job_facts = in_order_def known_items_def any_pending_def any_skipped_def

text \<open>Ending a job early.\<close>

lemma job_ok_stopped:
  assumes "job_wf j" "in_order j" "known_items j" "\<not> any_pending j" "stopped j"
  shows "job_ok j"
proof -
  have "bj_status j \<noteq> STATUS_COMPLETED" using assms(5) by (auto simp: stopped_def status_defs)
  then show ?thesis using assms by (simp add: job_ok_def)
qed

lemma job_ok_stopped_as:
  assumes "job_wf j" "in_order j" "known_items j" "\<not> any_pending j" "stopped j'"
    and "bj_items j' = bj_items j" "bj_results j' = bj_results j" "bj_endpoint j' = bj_endpoint j" "bj_window j' = bj_window j" "bj_created j' = bj_created j"
  shows "job_ok j'"
proof (rule job_ok_stopped)
  have "bj_status j' \<noteq> []" using assms(5) by (auto simp: stopped_def STATUS_EXPIRED_def STATUS_CANCELLED_def)
  then show "job_wf j'" using assms(1,6-10) by (simp add: job_wf_def)
  show "in_order j'" "known_items j'" "\<not> any_pending j'" "stopped j'" using assms by (simp_all add: job_facts)
qed

section \<open>What holds of the store\<close>

definition final :: "batch_job \<Rightarrow> bool" where
  "final j = (bj_status j \<in> TERMINAL_STATUSES)"

definition hook_ok :: "batch_store \<Rightarrow> pystr \<times> json \<Rightarrow> bool" where
  "hook_ok s h = (\<exists>j kvs. map_of (bt_jobs s) (fst h) = Some j \<and> final j \<and> snd h = JObj kvs \<and> obj_get kvs ''status'' = JStr (bj_status j))"

definition store_base :: "batch_store \<Rightarrow> bool" where
  "store_base s = ((\<forall>i j. map_of (bt_jobs s) i = Some j \<longrightarrow> bj_id j = i \<and> job_ok j)
     \<and> (\<forall>i p. map_of (bt_rows s) i = Some p \<longrightarrow> (\<exists>j. p = job_to_payload j \<and> bj_id j = i \<and> job_ok j))
     \<and> set (bt_batches s) \<subseteq> dom (map_of (bt_jobs s))
     \<and> (\<forall>h \<in> set (bt_hooks s). hook_ok s h) \<and> distinct (map fst (bt_hooks s)) \<and> fst ` set (bt_hooks s) = set (bt_notified s))"

lemma store_baseD:
  assumes "store_base s"
  shows "map_of (bt_jobs s) i = Some j \<Longrightarrow> bj_id j = i \<and> job_ok j"
    "map_of (bt_rows s) i = Some p \<Longrightarrow> \<exists>j. p = job_to_payload j \<and> bj_id j = i \<and> job_ok j"
    "set (bt_batches s) \<subseteq> dom (map_of (bt_jobs s))"
    "h \<in> set (bt_hooks s) \<Longrightarrow> hook_ok s h" "distinct (map fst (bt_hooks s))" "fst ` set (bt_hooks s) = set (bt_notified s)"
  using assms unfolding store_base_def by blast+

lemma store_baseI:
  assumes "\<And>i j. map_of (bt_jobs s) i = Some j \<Longrightarrow> bj_id j = i \<and> job_ok j"
    "\<And>i p. map_of (bt_rows s) i = Some p \<Longrightarrow> \<exists>j. p = job_to_payload j \<and> bj_id j = i \<and> job_ok j"
    "set (bt_batches s) \<subseteq> dom (map_of (bt_jobs s))"
    "\<And>h. h \<in> set (bt_hooks s) \<Longrightarrow> hook_ok s h" "distinct (map fst (bt_hooks s))" "fst ` set (bt_hooks s) = set (bt_notified s)"
  shows "store_base s"
  using assms unfolding store_base_def by blast

lemma store_base_batches:
  assumes "store_base s" "set bs \<subseteq> dom (map_of (bt_jobs s))"
  shows "store_base (s\<lparr>bt_batches := bs, bt_order := os\<rparr>)"
proof (rule store_baseI)
  fix h assume "h \<in> set (bt_hooks (s\<lparr>bt_batches := bs, bt_order := os\<rparr>))"
  then show "hook_ok (s\<lparr>bt_batches := bs, bt_order := os\<rparr>) h" using store_baseD(4) [OF assms(1), of h] by (simp add: hook_ok_def)
qed (use assms(2) store_baseD [OF assms(1)] in simp_all)

text \<open>What was final stays as it is.\<close>

definition keeps_final :: "batch_store \<Rightarrow> batch_store \<Rightarrow> bool" where
  "keeps_final s s' = (\<forall>i j. map_of (bt_jobs s) i = Some j \<and> final j \<longrightarrow> (\<exists>j'. map_of (bt_jobs s') i = Some j' \<and> bj_status j' = bj_status j))"

definition goes :: "batch_store \<Rightarrow> batch_store \<Rightarrow> bool" where
  "goes s s' = (store_base s' \<and> keeps_final s s')"

definition replaces :: "batch_store \<Rightarrow> batch_job \<Rightarrow> bool" where
  "replaces s j = (\<forall>old. map_of (bt_jobs s) (bj_id j) = Some old \<and> final old \<longrightarrow> bj_status j = bj_status old)"

lemma goes_refl: "store_base s \<Longrightarrow> goes s s"
  by (simp add: goes_def keeps_final_def)

lemma goes_trans: "goes s s' \<Longrightarrow> goes s' s'' \<Longrightarrow> goes s s''"
proof -
  assume a: "goes s s'" "goes s' s''"
  have "\<exists>j''. map_of (bt_jobs s'') i = Some j'' \<and> bj_status j'' = bj_status j"
    if j: "map_of (bt_jobs s) i = Some j" "final j" for i j
  proof -
    obtain j' where j': "map_of (bt_jobs s') i = Some j'" "bj_status j' = bj_status j" using a(1) j by (auto simp: goes_def keeps_final_def)
    then have "final j'" using j(2) by (simp add: final_def)
    then obtain j'' where "map_of (bt_jobs s'') i = Some j''" "bj_status j'' = bj_status j'"
      using a(2) j'(1) unfolding goes_def keeps_final_def by blast
    then show ?thesis using j'(2) by simp
  qed
  then show ?thesis using a(2) by (simp add: goes_def keeps_final_def)
qed

lemma put_lookup [simp]: "map_of (bt_jobs (put_job j s)) = (map_of (bt_jobs s))(bj_id j \<mapsto> j)"
  by (simp add: put_job_def)

lemma put_fields [simp]:
  "bt_batches (put_job j s) = bt_batches s" "bt_rows (put_job j s) = bt_rows s" "bt_hooks (put_job j s) = bt_hooks s"
  "bt_notified (put_job j s) = bt_notified s" "bt_running (put_job j s) = bt_running s" "bt_worker (put_job j s) = bt_worker s"
  "bt_order (put_job j s) = bt_order s" "bt_queue (put_job j s) = bt_queue s" "bt_row_order (put_job j s) = bt_row_order s"
  by (simp_all add: put_job_def)

lemma persist_fields [simp]:
  "bt_jobs (persist c e j s) = bt_jobs s" "bt_batches (persist c e j s) = bt_batches s" "bt_hooks (persist c e j s) = bt_hooks s"
  "bt_notified (persist c e j s) = bt_notified s" "bt_running (persist c e j s) = bt_running s" "bt_worker (persist c e j s) = bt_worker s"
  "bt_order (persist c e j s) = bt_order s" "bt_queue (persist c e j s) = bt_queue s"
  by (simp_all add: persist_def)

lemma notify_fields [simp]:
  "bt_jobs (notify_terminal j s) = bt_jobs s" "bt_batches (notify_terminal j s) = bt_batches s" "bt_rows (notify_terminal j s) = bt_rows s"
  "bt_running (notify_terminal j s) = bt_running s" "bt_worker (notify_terminal j s) = bt_worker s"
  "bt_order (notify_terminal j s) = bt_order s" "bt_queue (notify_terminal j s) = bt_queue s" "bt_row_order (notify_terminal j s) = bt_row_order s"
  by (simp_all add: notify_terminal_def)

lemma store_base_worker [simp]:
  "store_base (s\<lparr>bt_worker := x\<rparr>) = store_base s" "store_base (s\<lparr>bt_running := r\<rparr>) = store_base s" "store_base (s\<lparr>bt_queue := q\<rparr>) = store_base s"
  "store_base (s\<lparr>bt_order := q\<rparr>) = store_base s" "store_base (s\<lparr>bt_row_order := q\<rparr>) = store_base s"
  by (simp_all add: store_base_def hook_ok_def)

lemma goes_worker [simp]:
  "goes s (t\<lparr>bt_worker := x\<rparr>) = goes s t" "goes s (t\<lparr>bt_running := r\<rparr>) = goes s t" "goes s (t\<lparr>bt_queue := q\<rparr>) = goes s t"
  "goes s (t\<lparr>bt_order := q\<rparr>) = goes s t" "goes s (t\<lparr>bt_row_order := q\<rparr>) = goes s t"
  by (simp_all add: goes_def keeps_final_def)

lemma goes_put:
  assumes base: "store_base s" and ok: "job_ok j" and old: "replaces s j"
  shows "goes s (put_job j s)"
proof -
  have hook: "hook_ok (put_job j s) h" if "hook_ok s h" for h
    using that old by (auto simp: hook_ok_def replaces_def final_def)
  have "store_base (put_job j s)"
    using base ok hook unfolding store_base_def by (auto simp: subset_iff)
  moreover have "keeps_final s (put_job j s)" using old by (auto simp: keeps_final_def replaces_def)
  ultimately show ?thesis by (simp add: goes_def)
qed

lemma goes_persist: "store_base s \<Longrightarrow> job_ok j \<Longrightarrow> goes s (persist c e j s)"
  by (auto simp: goes_def keeps_final_def store_base_def hook_ok_def persist_def)

lemma public_status: "obj_get (as_public j) ''status'' = JStr (bj_status j)"
  by (simp add: as_public_def obj_get_def)

lemma goes_notify:
  assumes base: "store_base s" and j: "map_of (bt_jobs s) (bj_id j) = Some j"
  shows "goes s (notify_terminal j s)"
proof (cases "final j \<and> bj_id j \<notin> set (bt_notified s)")
  case True
  let ?s = "notify_terminal j s"
  have hooks: "bt_hooks ?s = bt_hooks s @ [(bj_id j, JObj (as_public j))]" "bt_notified ?s = bj_id j # bt_notified s"
    using True by (simp_all add: notify_terminal_def final_def)
  have "hook_ok ?s (bj_id j, JObj (as_public j))" using True j by (simp add: hook_ok_def public_status)
  moreover have "hook_ok ?s h" if "hook_ok s h" for h using that by (simp add: hook_ok_def)
  moreover have "bj_id j \<notin> fst ` set (bt_hooks s)" using True base by (simp add: store_base_def)
  ultimately have "store_base ?s" using base by (auto simp: store_base_def hooks)
  then show ?thesis by (simp add: goes_def keeps_final_def)
next
  case False
  then have "notify_terminal j s = s" by (auto simp: notify_terminal_def final_def)
  then show ?thesis by (simp add: goes_refl base)
qed

text \<open>The usual way a job changes: in place, then its row, then the webhook.\<close>

lemma goes_record:
  assumes "store_base s" "job_ok j" "replaces s j"
  shows "goes s (persist c e j (put_job j s))" "goes s (notify_terminal j (persist c e j (put_job j s)))"
proof -
  have put: "goes s (put_job j s)" by (rule goes_put [OF assms])
  then have b1: "store_base (put_job j s)" by (simp add: goes_def)
  have p: "goes (put_job j s) (persist c e j (put_job j s))" by (rule goes_persist [OF b1 assms(2)])
  show s1: "goes s (persist c e j (put_job j s))" by (rule goes_trans [OF put p])
  have "goes (persist c e j (put_job j s)) (notify_terminal j (persist c e j (put_job j s)))"
    using p by (intro goes_notify) (simp_all add: goes_def)
  then show "goes s (notify_terminal j (persist c e j (put_job j s)))" by (rule goes_trans [OF s1])
qed

section \<open>The steps keep it\<close>

lemma expire_facts:
  assumes "maybe_expire now j = (True, j1)" "job_ok j"
  shows "job_ok j1" "bj_id j1 = bj_id j" "bj_status j1 = STATUS_EXPIRED" "\<not> final j" "final j1" "bj_cancel j1 = bj_cancel j"
    "length (bj_items j1) = length (bj_items j)" "settled_upto k (bj_items j1) = settled_upto k (bj_items j)"
proof -
  have j1: "j1 = (mark_remaining_skipped j)\<lparr>bj_status := STATUS_EXPIRED, bj_expired := Some now\<rparr>" and nf: "\<not> final j"
    using assms(1) by (auto simp: maybe_expire_def final_def split: if_splits)
  have m: "job_wf (mark_remaining_skipped j)" "in_order (mark_remaining_skipped j)" "known_items (mark_remaining_skipped j)"
    "\<not> any_pending (mark_remaining_skipped j)" using assms(2) by (simp_all add: skip_leaves job_ok_def)
  then show "job_ok j1"
    by (rule job_ok_stopped_as) (simp_all add: j1 stopped_def)
  show "\<not> final j" by (rule nf)
  show "bj_id j1 = bj_id j" "bj_status j1 = STATUS_EXPIRED" "final j1" "bj_cancel j1 = bj_cancel j"
    "length (bj_items j1) = length (bj_items j)" "settled_upto k (bj_items j1) = settled_upto k (bj_items j)"
    by (simp_all add: j1 skip_items final_def TERMINAL_STATUSES_def)
qed

lemma expire_not: "maybe_expire now j = (False, j1) \<Longrightarrow> j1 = j"
  by (auto simp: maybe_expire_def split: if_splits)

lemma job_of_known: "store_base s \<Longrightarrow> i \<in> set (bt_batches s) \<Longrightarrow> map_of (bt_jobs s) i = Some (job_of s i) \<and> bj_id (job_of s i) = i \<and> job_ok (job_of s i)"
  by (auto simp: store_base_def job_of_def subset_iff)

text \<open>What the worker holds: the items before its place are settled, no others.\<close>

definition at_work :: "batch_job \<Rightarrow> bool" where
  "at_work j = (if bj_cancel j then bj_status j = STATUS_CANCELLING \<or> bj_status j = STATUS_EXPIRED
     else bj_status j = STATUS_IN_PROGRESS \<or> bj_status j = STATUS_EXPIRED)"

definition holds_place :: "batch_store \<Rightarrow> pystr \<Rightarrow> nat \<Rightarrow> bool" where
  "holds_place s i n = (bt_running s = [i] \<and> (\<exists>j. map_of (bt_jobs s) i = Some j \<and> n < length (bj_items j) \<and> settled_upto n (bj_items j) \<and> at_work j))"

definition worker_ok :: "batch_store \<Rightarrow> bool" where
  "worker_ok s = (case bt_worker s of NoJob \<Rightarrow> bt_running s = [] | Executing i n \<Rightarrow> holds_place s i n | Sleeping i n \<Rightarrow> holds_place s i n)"

text \<open>A change of one job that leaves its place.\<close>

definition same_place :: "batch_store \<Rightarrow> batch_store \<Rightarrow> bool" where
  "same_place s s' = (bt_running s' = bt_running s \<and> bt_worker s' = bt_worker s
     \<and> (\<forall>i j n. map_of (bt_jobs s) i = Some j \<and> at_work j \<and> i \<in> set (bt_running s) \<longrightarrow> (\<exists>j'. map_of (bt_jobs s') i = Some j' \<and> at_work j'
         \<and> length (bj_items j') = length (bj_items j) \<and> (settled_upto n (bj_items j) \<longrightarrow> settled_upto n (bj_items j')))))"

lemma same_place_refl [simp]: "same_place s s"
  by (auto simp: same_place_def)

lemma same_place_trans: "same_place s s' \<Longrightarrow> same_place s' s'' \<Longrightarrow> same_place s s''"
  unfolding same_place_def by (intro conjI allI impI; simp) (metis (no_types, lifting))

lemma same_place_worker: "same_place s s' \<Longrightarrow> worker_ok s \<Longrightarrow> worker_ok s'"
proof -
  assume a: "same_place s s'" "worker_ok s"
  have "holds_place s' i n" if h: "holds_place s i n" for i n
  proof -
    obtain j where j: "map_of (bt_jobs s) i = Some j" "n < length (bj_items j)" "settled_upto n (bj_items j)" "at_work j" "bt_running s = [i]"
      using h by (auto simp: holds_place_def)
    then obtain j' where "map_of (bt_jobs s') i = Some j'" "at_work j'" "length (bj_items j') = length (bj_items j)" "settled_upto n (bj_items j')"
      using a(1) unfolding same_place_def by (metis list.set_intros(1))
    then show ?thesis using a(1) j by (auto simp: holds_place_def same_place_def)
  qed
  then show ?thesis using a by (auto simp: worker_ok_def same_place_def split: batch_worker.splits)
qed

lemma same_place_put:
  assumes "\<And>old. map_of (bt_jobs s) (bj_id j) = Some old \<Longrightarrow> at_work old \<Longrightarrow> bj_id j \<in> set (bt_running s) \<Longrightarrow>
      at_work j \<and> length (bj_items j) = length (bj_items old) \<and> (\<forall>n. settled_upto n (bj_items old) \<longrightarrow> settled_upto n (bj_items j))"
  shows "same_place s (put_job j s)"
  using assms by (auto simp: same_place_def)

lemma same_place_frame:
  "bt_jobs s' = bt_jobs s \<Longrightarrow> bt_running s' = bt_running s \<Longrightarrow> bt_worker s' = bt_worker s \<Longrightarrow> same_place t s' = same_place t s"
  by (simp add: same_place_def)

lemma same_place_record [simp]:
  "same_place t (persist c e j s) = same_place t s" "same_place t (notify_terminal j s) = same_place t s"
  by (rule same_place_frame; simp)+

definition steady_step :: "batch_store \<Rightarrow> batch_store \<Rightarrow> bool" where
  "steady_step s s' = (goes s s' \<and> same_place s s')"

lemma steady_refl: "store_base s \<Longrightarrow> steady_step s s"
  by (simp add: steady_step_def goes_refl)

lemma steady_trans: "steady_step s s' \<Longrightarrow> steady_step s' s'' \<Longrightarrow> steady_step s s''"
  unfolding steady_step_def using goes_trans same_place_trans by blast

lemma steady_base: "steady_step s s' \<Longrightarrow> store_base s'"
  by (simp add: steady_step_def goes_def)

lemma get_steady:
  assumes "store_base s" "get_batch c e i s = (x, s')"
  shows "steady_step s s'" "x = None \<or> (\<exists>j. x = Some j \<and> map_of (bt_jobs s') i = Some j \<and> bj_id j = i \<and> job_ok j \<and> i \<in> set (bt_batches s'))"
proof -
  have "steady_step s s' \<and> (x = None \<or> (\<exists>j. x = Some j \<and> map_of (bt_jobs s') i = Some j \<and> bj_id j = i \<and> job_ok j \<and> i \<in> set (bt_batches s')))"
  proof (cases "i \<in> set (bt_batches s)")
    case False
    then show ?thesis using assms by (auto simp: get_batch_def steady_refl)
  next
    case True
    note k = job_of_known [OF assms(1) True]
    obtain b j1 where m: "maybe_expire (be_now e) (job_of s i) = (b, j1)" by (rule prod.exhaust)
    show ?thesis
    proof (cases b)
      case False
      then show ?thesis using assms m True k by (auto simp: get_batch_def steady_refl)
    next
      case t: True
      note f = expire_facts [OF m [unfolded eqTrueI [OF t]], OF conjunct2 [OF conjunct2 [OF k]]]
      have r: "replaces s j1" using f(2,4) k by (auto simp: replaces_def)
      have e: "x = Some j1" "s' = notify_terminal j1 (persist c e j1 (put_job j1 s))" using assms(2) m True t by (auto simp: get_batch_def)
      have "same_place s (put_job j1 s)"
        using f k by (intro same_place_put) (auto simp: at_work_def)
      then show ?thesis
        using goes_record(2) [OF assms(1) f(1) r] f k True by (auto simp: e steady_step_def)
    qed
  qed
  then show "steady_step s s'" "x = None \<or> (\<exists>j. x = Some j \<and> map_of (bt_jobs s') i = Some j \<and> bj_id j = i \<and> job_ok j \<and> i \<in> set (bt_batches s'))"
    by auto
qed

lemma list_steady: "store_base s \<Longrightarrow> list_from c e limit owner is out s = (x, s') \<Longrightarrow> steady_step s s'"
proof (induction "is" arbitrary: out s)
  case (Cons i "is")
  obtain y s1 where g: "get_batch c e i s = (y, s1)" by (rule prod.exhaust)
  have st: "steady_step s s1" by (rule get_steady(1) [OF Cons.prems(1) g])
  have rest: "list_from c e limit owner is out' s1 = (x, s') \<Longrightarrow> steady_step s s'" for out'
    using Cons.IH [OF steady_base [OF st]] steady_trans [OF st] by blast
  show ?case using Cons.prems(2) g st rest by (auto split: option.splits if_splits)
qed (auto simp: steady_refl)

lemma delete_steady: "store_base s \<Longrightarrow> steady_step s (delete_job c e i s)"
proof -
  assume base: "store_base s"
  let ?s = "delete_job c e i s"
  have f: "bt_jobs ?s = bt_jobs s" "bt_running ?s = bt_running s" "bt_worker ?s = bt_worker s" "bt_hooks ?s = bt_hooks s"
    "bt_notified ?s = bt_notified s" "set (bt_batches ?s) \<subseteq> set (bt_batches s)"
    "\<And>k p. map_of (bt_rows ?s) k = Some p \<Longrightarrow> map_of (bt_rows s) k = Some p"
    by (auto simp: delete_job_def Let_def split: if_splits)
  note base_facts = store_baseD [OF base]
  have "store_base ?s"
  proof (rule store_baseI)
    fix k p assume "map_of (bt_rows ?s) k = Some p"
    then show "\<exists>j. p = job_to_payload j \<and> bj_id j = k \<and> job_ok j" by (rule base_facts(2) [OF f(7)])
  next
    fix h assume "h \<in> set (bt_hooks ?s)"
    then show "hook_ok ?s h" using base_facts(4) [of h] f(1,4) by (simp add: hook_ok_def)
  next
    show "set (bt_batches ?s) \<subseteq> dom (map_of (bt_jobs ?s))" unfolding f(1) by (rule subset_trans [OF f(6) base_facts(3)])
  qed (use base_facts f(1,4,5) in simp_all)
  moreover have "same_place s ?s" using same_place_frame [OF f(1-3)] by simp
  ultimately show ?thesis by (simp add: steady_step_def goes_def keeps_final_def f(1))
qed

lemma deletes_steady: "store_base s \<Longrightarrow> steady_step s (fold (delete_job c e) is s)"
proof (induction "is" arbitrary: s)
  case (Cons i "is")
  have d: "steady_step s (delete_job c e i s)" by (rule delete_steady [OF Cons.prems])
  show ?case using steady_trans [OF d Cons.IH [OF steady_base [OF d]]] by simp
qed (simp add: steady_refl)

lemma cancel_steady:
  assumes base: "store_base s" and run: "cancel_batch c e i s = (x, s')"
  shows "steady_step s s'"
proof -
  obtain y s1 where g: "get_batch c e i s = (y, s1)" by (rule prod.exhaust)
  have st: "steady_step s s1" by (rule get_steady(1) [OF base g])
  show ?thesis
  proof (cases y)
    case None
    then show ?thesis using run g st by (simp add: cancel_batch_def)
  next
    case (Some j)
    have j: "map_of (bt_jobs s1) i = Some j" "bj_id j = i" "job_ok j" using get_steady(2) [OF base g] Some by auto
    show ?thesis
    proof (cases "final j")
      case True
      then show ?thesis using run g st Some by (simp add: cancel_batch_def final_def)
    next
      case False
      have wf: "job_wf j" "in_order j" "known_items j" using j(3) by (simp_all add: job_ok_def)
      show ?thesis
      proof (cases "bj_status j = STATUS_VALIDATING \<or> i \<notin> set (bt_running s1)")
        case True
        define j1 where "j1 = (mark_remaining_skipped j)\<lparr>bj_cancel := True, bj_status := STATUS_CANCELLED,
            bj_cancelling := Some (be_now e), bj_cancelled := Some (be_now e)\<rparr>"
        have ok: "job_ok j1" "bj_id j1 = i"
          using job_ok_stopped_as [OF skip_leaves(4) [OF wf(1)] _ skip_leaves(3) [OF wf(3)] skip_leaves(1)] wf(2) j(2)
          by (simp_all add: j1_def stopped_def skip_leaves)
        have r: "replaces s1 j1" using False j by (auto simp: replaces_def ok)
        have s': "s' = notify_terminal j1 (persist c e j1 (put_job j1 s1))"
          using run g Some False True by (simp add: cancel_batch_def final_def j1_def Let_def)
        have "bj_status j = STATUS_VALIDATING \<Longrightarrow> \<not> at_work j" by (simp add: at_work_def status_defs)
        then have "same_place s1 (put_job j1 s1)" using True j by (intro same_place_put) (auto simp: ok)
        then have "steady_step s1 s'" using goes_record(2) [OF steady_base [OF st] ok(1) r] by (simp add: steady_step_def s')
        then show ?thesis by (rule steady_trans [OF st])
      next
        case busy: False
        define j1 where "j1 = j\<lparr>bj_cancel := True, bj_status := STATUS_CANCELLING, bj_cancelling := Some (be_now e)\<rparr>"
        have skips: "\<not> any_skipped j" using j(3) False by (auto simp: job_ok_def stopped_def final_def TERMINAL_STATUSES_def)
        have ok: "job_ok j1" "bj_id j1 = i"
          using wf skips j(2) by (auto simp: j1_def job_ok_def job_facts job_wf_def stopped_def status_defs)
        have r: "replaces s1 j1" using False j by (auto simp: replaces_def ok)
        have s': "s' = persist c e j1 (put_job j1 s1)"
          using run g Some False busy by (simp add: cancel_batch_def final_def j1_def Let_def)
        have "same_place s1 (put_job j1 s1)"
          using j by (intro same_place_put) (auto simp: ok at_work_def, auto simp: j1_def)
        then have "steady_step s1 s'" using goes_record(1) [OF steady_base [OF st] ok(1) r] by (simp add: steady_step_def s')
        then show ?thesis by (rule steady_trans [OF st])
      qed
    qed
  qed
qed

lemma requests_pending: "normalize_requests jl short n es = Inr is \<Longrightarrow> list_all (\<lambda>i. bi_status i = ITEM_PENDING) is"
proof (induction es arbitrary: n "is")
  case (Cons e es)
  then show ?case
    by (auto simp: request_item_def Let_def split: json.splits sum.splits if_splits)
qed simp

lemma new_job_ok:
  assumes "list_all (\<lambda>i. bi_status i = ITEM_PENDING) is" "0 < be_now e"
  shows "job_ok (new_job e sp errs is)"
proof -
  have "settled_upto 0 is" using assms(1) by (auto simp: settled_upto_def settled_def list_all_length item_defs)
  then show ?thesis
    using assms by (auto simp: new_job_def Let_def job_ok_def job_wf_def in_order_def known_items_def any_skipped_def any_pending_def
        stopped_def status_defs item_defs list_all_iff list_ex_iff str_or_def)
qed

lemma schedule_steady: "store_base s \<Longrightarrow> steady_step s (schedule_batch c e i s)"
proof -
  assume base: "store_base s"
  obtain y s1 where g: "get_batch c e i s = (y, s1)" by (rule prod.exhaust)
  have "steady_step s (s1\<lparr>bt_queue := q\<rparr>)" for q
    using get_steady(1) [OF base g] by (simp add: steady_step_def same_place_def)
  then show ?thesis using g get_steady(1) [OF base g] by (auto simp: schedule_batch_def split: option.split)
qed

lemma submit_steady:
  assumes base: "store_base s" and fresh: "''batch_'' @ be_uuid e \<notin> fst ` set (bt_jobs s)" "0 < be_now e"
  shows "steady_step s (snd (submit_batch c e sp s))"
proof -
  obtain x s1 where cr: "create_batch c e sp s = (x, s1)" by (rule prod.exhaust)
  show ?thesis
  proof (cases x)
    case (Inl why)
    then have "s1 = s" using cr by (auto simp: create_batch_def Let_def split: prod.splits if_splits sum.splits)
    then show ?thesis using cr Inl by (simp add: submit_batch_def steady_refl base)
  next
    case (Inr j)
    obtain errs rs "is" where j: "j = new_job e sp errs is" "normalize_requests (bc_lib c) (be_short e) 0 rs = Inr is"
      and s1: "s1 = notify_terminal j (persist c e j ((put_job j s)\<lparr>bt_batches := bt_batches s @ [bj_id j], bt_order := bt_order s @ [bj_id j]\<rparr>))"
      using cr Inr by (auto simp: create_batch_def Let_def split: prod.splits if_splits sum.splits)
    have ok: "job_ok j" "bj_id j = ''batch_'' @ be_uuid e"
      using new_job_ok [OF requests_pending [OF j(2)] fresh(2)] by (simp_all add: j(1)) (simp add: new_job_def Let_def)
    have none: "map_of (bt_jobs s) (bj_id j) = None" using fresh(1) by (simp add: ok map_of_eq_None_iff)
    have put: "goes s (put_job j s)" using none by (intro goes_put [OF base ok(1)]) (simp add: replaces_def)
    let ?p = "(put_job j s)\<lparr>bt_batches := bt_batches s @ [bj_id j], bt_order := bt_order s @ [bj_id j]\<rparr>"
    have "set (bt_batches s @ [bj_id j]) \<subseteq> dom (map_of (bt_jobs (put_job j s)))" using store_baseD(3) [OF base] by auto
    then have "store_base ?p" using put by (intro store_base_batches) (simp_all add: goes_def)
    then have p: "goes s ?p" using put by (simp add: goes_def keeps_final_def)
    then have "goes ?p (persist c e j ?p)" using ok(1) by (intro goes_persist) (simp_all add: goes_def)
    then have q: "goes s (persist c e j ?p)" by (rule goes_trans [OF p])
    have "goes (persist c e j ?p) s1" unfolding s1 using q by (intro goes_notify) (simp_all add: goes_def)
    then have g: "goes s s1" by (rule goes_trans [OF q])
    have "same_place s (put_job j s)" using none by (intro same_place_put) simp
    then have "same_place s s1" by (simp add: s1 same_place_def)
    then have st: "steady_step s s1" using g by (simp add: steady_step_def)
    show ?thesis
      using steady_trans [OF st schedule_steady [OF steady_base [OF st]]] cr Inr by (simp add: submit_batch_def Let_def)
  qed
qed

section \<open>The worker keeps it\<close>

text \<open>A job the loop may end with.\<close>

definition may_end :: "batch_job \<Rightarrow> bool" where
  "may_end j = (job_wf j \<and> in_order j \<and> known_items j
     \<and> (if bj_status j = STATUS_EXPIRED then \<not> any_pending j else \<not> bj_cancel j \<longrightarrow> list_all settled (bj_items j)))"

lemma written_items [simp]:
  "bj_items (write_result_files c e j) = bj_items j" "bj_results (write_result_files c e j) = bj_results j"
  "bj_status (write_result_files c e j) = bj_status j" "bj_id (write_result_files c e j) = bj_id j"
  "bj_endpoint (write_result_files c e j) = bj_endpoint j" "bj_window (write_result_files c e j) = bj_window j"
  "bj_created (write_result_files c e j) = bj_created j"
  by (simp_all add: write_result_files_def Let_def split: option.split)

lemma settled_known: "list_all settled is \<Longrightarrow> \<not> list_ex (\<lambda>i. bi_status i = ITEM_SKIPPED) is"
  by (auto simp: list_all_iff list_ex_iff settled_def item_defs)

lemma final_job_ok:
  assumes "may_end j"
  shows "job_ok (final_job c e j)" "bj_id (final_job c e j) = bj_id j" "final (final_job c e j)"
    "bj_status j = STATUS_EXPIRED \<Longrightarrow> bj_status (final_job c e j) = STATUS_EXPIRED"
proof -
  note m = assms [unfolded may_end_def]
  show "bj_id (final_job c e j) = bj_id j" "bj_status j = STATUS_EXPIRED \<Longrightarrow> bj_status (final_job c e j) = STATUS_EXPIRED"
    "final (final_job c e j)"
    by (simp_all add: final_job_def final_def TERMINAL_STATUSES_def)
  show "job_ok (final_job c e j)"
  proof (cases "bj_status j = STATUS_EXPIRED")
    case True
    then have "stopped j" "final_job c e j = j" by (simp_all add: stopped_def final_job_def)
    then show ?thesis using m True by (simp add: job_ok_stopped)
  next
    case open_job: False
    show ?thesis
    proof (cases "bj_cancel j")
      case True
      then show ?thesis
        using open_job m skip_leaves [of j] by (intro job_ok_stopped_as [of "mark_remaining_skipped j"]) (simp_all add: final_job_def stopped_def)
    next
      case False
      have all: "list_all settled (bj_items j)" using open_job m False by simp
      let ?j = "final_job c e j"
      have same: "bj_items ?j = bj_items j" "bj_results ?j = bj_results j" "bj_status ?j = STATUS_COMPLETED"
        "bj_endpoint ?j = bj_endpoint j" "bj_window ?j = bj_window j" "bj_created ?j = bj_created j"
        using open_job False by (simp_all add: final_job_def)
      have "\<not> stopped ?j" "bj_status ?j \<noteq> []" by (simp_all add: stopped_def same status_defs)
      then show ?thesis using m settled_known [OF all] all by (simp add: job_ok_def job_facts job_wf_def same)
    qed
  qed
qed

lemma finish_ok:
  assumes base: "store_base s" and old: "map_of (bt_jobs s) (bj_id j) = Some old" "final old \<Longrightarrow> bj_status old = STATUS_EXPIRED \<and> bj_status j = STATUS_EXPIRED"
    and run: "bt_running s = [bj_id j]" and m: "may_end j"
  shows "goes s (finish_job c e j s)" "worker_ok (finish_job c e j s)"
    "bt_worker (finish_job c e j s) = NoJob" "map_of (bt_jobs (finish_job c e j s)) (bj_id j) = Some (final_job c e j)"
proof -
  note f = final_job_ok [OF m, of c e]
  have "replaces s (final_job c e j)" using old f by (auto simp: replaces_def)
  then show "goes s (finish_job c e j s)" using goes_record(2) [OF base f(1)] by (simp add: finish_job_def Let_def)
  show "worker_ok (finish_job c e j s)" "bt_worker (finish_job c e j s) = NoJob"
    "map_of (bt_jobs (finish_job c e j s)) (bj_id j) = Some (final_job c e j)"
    using run by (simp_all add: finish_job_def Let_def worker_ok_def f)
qed

text \<open>The job in the loop, with everything before the place dealt with.\<close>

definition in_loop :: "batch_store \<Rightarrow> batch_job \<Rightarrow> nat \<Rightarrow> bool" where
  "in_loop s j m = (store_base s \<and> map_of (bt_jobs s) (bj_id j) = Some j \<and> bt_running s = [bj_id j] \<and> at_work j
     \<and> m \<le> length (bj_items j) \<and> (\<forall>i < m. bi_status (bj_items j ! i) \<noteq> ITEM_PENDING))"

lemma at_work_final: "at_work j \<Longrightarrow> final j \<Longrightarrow> bj_status j = STATUS_EXPIRED"
  by (auto simp: at_work_def final_def status_defs split: if_splits)

lemma loop_job: "in_loop s j m \<Longrightarrow> job_ok j"
  using store_baseD(1) by (auto simp: in_loop_def)

lemma loop_may_end:
  assumes "in_loop s j (length (bj_items j))"
  shows "may_end j"
proof -
  have ok: "job_ok j" and w: "at_work j" and np: "\<forall>i < length (bj_items j). bi_status (bj_items j ! i) \<noteq> ITEM_PENDING"
    using assms loop_job by (auto simp: in_loop_def)
  have "list_all settled (bj_items j)" if "bj_status j \<noteq> STATUS_EXPIRED" "\<not> bj_cancel j"
  proof -
    have "\<not> stopped j" using that w by (auto simp: at_work_def stopped_def status_defs)
    then have "\<not> any_skipped j" "known_items j" using ok by (simp_all add: job_ok_def)
    then show ?thesis using np by (auto simp: any_skipped_def known_items_def list_all_length list_ex_length settled_def)
  qed
  moreover have "\<not> any_pending j" using np by (auto simp: any_pending_def list_ex_length)
  ultimately show ?thesis using ok by (simp add: may_end_def job_ok_def)
qed

lemma loop_place:
  assumes "in_loop s j n" "n < length (bj_items j)" "bi_status (bj_items j ! n) = ITEM_PENDING"
  shows "holds_place s (bj_id j) n"
proof -
  have ok: "job_ok j" by (rule loop_job [OF assms(1)])
  have "any_pending j" using assms(2,3) by (auto simp: any_pending_def list_ex_length)
  then have "\<not> any_skipped j" "known_items j" using ok by (auto simp: job_ok_def split: if_splits)
  then have known: "i < length (bj_items j) \<Longrightarrow> bi_status (bj_items j ! i) = ITEM_PENDING \<or> settled (bj_items j ! i)" for i
    by (auto simp: any_skipped_def known_items_def list_all_length list_ex_length settled_def)
  have before: "\<forall>i < n. settled (bj_items j ! i)"
  proof (intro allI impI)
    fix i assume "i < n"
    then show "settled (bj_items j ! i)" using known [of i] assms(1,2) by (simp add: in_loop_def)
  qed
  obtain k where k: "settled_upto k (bj_items j)" using ok by (auto simp: job_ok_def in_order_def)
  have "\<not> settled (bj_items j ! n)" using assms(3) by (simp add: settled_def item_defs)
  then have "k \<le> n" using k assms(2) by (auto simp: settled_upto_def)
  moreover have "n \<le> k"
  proof (rule ccontr)
    assume "\<not> n \<le> k"
    then have "settled (bj_items j ! k)" using before by simp
    then show False using k \<open>\<not> n \<le> k\<close> assms(2) by (auto simp: settled_upto_def)
  qed
  ultimately have "settled_upto n (bj_items j)" using k by simp
  then show ?thesis using assms(1,2) by (simp add: holds_place_def in_loop_def)
qed

lemma place_worker: "holds_place s i n \<Longrightarrow> worker_ok (s\<lparr>bt_worker := Executing i n\<rparr>)" "holds_place s i n \<Longrightarrow> worker_ok (s\<lparr>bt_worker := Sleeping i n\<rparr>)"
  by (simp_all add: worker_ok_def holds_place_def)

lemma expired_may_end:
  assumes "job_ok j" "bj_status j = STATUS_EXPIRED"
  shows "may_end j"
  using assms by (auto simp: may_end_def job_ok_def stopped_def)

lemma skipped_may_end:
  assumes "job_ok j" "bj_cancel j"
  shows "may_end (mark_remaining_skipped j)"
  using assms skip_leaves [of j] by (simp add: may_end_def job_ok_def)

text \<open>Where the loop is at the next \<open>await\<close>.\<close>

lemma run_items_ok:
  assumes "in_loop s j m" "ns = [m..<length (bj_items j)]"
  shows "goes s (run_items c e j ns s) \<and> worker_ok (run_items c e j ns s)
    \<and> ((bt_worker (run_items c e j ns s) = NoJob \<and> (\<exists>j'. map_of (bt_jobs (run_items c e j ns s)) (bj_id j) = Some j' \<and> final j'))
       \<or> (\<exists>n. m \<le> n \<and> n < length (bj_items j) \<and> bt_jobs (run_items c e j ns s) = bt_jobs s
            \<and> (bt_worker (run_items c e j ns s) = Executing (bj_id j) n
               \<or> bt_worker (run_items c e j ns s) = Sleeping (bj_id j) n \<and> bc_yield c \<and> bc_probe c \<and> 0 < num_or (be_load e) 0)))"
  using assms
proof (induction ns arbitrary: m)
  case Nil
  then have m: "m = length (bj_items j)" using upt_eq_Nil_conv [of m "length (bj_items j)"] by (auto simp: in_loop_def)
  have base: "store_base s" "map_of (bt_jobs s) (bj_id j) = Some j" "bt_running s = [bj_id j]" "at_work j"
    using Nil.prems(1) by (simp_all add: in_loop_def)
  note fin = finish_ok [OF base(1,2) _ base(3) loop_may_end [OF Nil.prems(1) [unfolded m]], of c e]
  show ?case using fin at_work_final [OF base(4)] final_job_ok(3) [OF loop_may_end [OF Nil.prems(1) [unfolded m]]] by simp
next
  case (Cons n ns)
  have base: "store_base s" "map_of (bt_jobs s) (bj_id j) = Some j" "bt_running s = [bj_id j]" "at_work j"
    using Cons.prems(1) by (simp_all add: in_loop_def)
  have ok: "job_ok j" by (rule loop_job [OF Cons.prems(1)])
  have n: "n = m" "m < length (bj_items j)" "ns = [Suc m..<length (bj_items j)]"
    using Cons.prems(2) by (auto simp: upt_rec [of m] split: if_splits)
  have ends: "goes s (finish_job c e j1 s) \<and> worker_ok (finish_job c e j1 s) \<and> bt_worker (finish_job c e j1 s) = NoJob
      \<and> (\<exists>j'. map_of (bt_jobs (finish_job c e j1 s)) (bj_id j) = Some j' \<and> final j')"
    if "may_end j1" "bj_id j1 = bj_id j" "final j \<Longrightarrow> bj_status j1 = STATUS_EXPIRED" for j1
    using finish_ok [OF base(1), of j1 j c e] final_job_ok(3) [OF that(1)] base(2,3) that at_work_final [OF base(4)] by auto
  show ?case
  proof (cases "bj_cancel j")
    case True
    then show ?thesis using ends [OF skipped_may_end [OF ok True]] at_work_final [OF base(4)] by simp
  next
    case going: False
    obtain b j1 where x: "maybe_expire (be_now e) j = (b, j1)" by (rule prod.exhaust)
    show ?thesis
    proof (cases b)
      case True
      note f = expire_facts [OF x [unfolded eqTrueI [OF True]] ok]
      show ?thesis using going x True ends [OF expired_may_end [OF f(1,3)] f(2)] f(3) by simp
    next
      case False
      show ?thesis
      proof (cases "bi_status (bj_items j ! n) = ITEM_PENDING")
        case True
        have p: "holds_place s (bj_id j) n" using loop_place [OF Cons.prems(1)] n True by simp
        have idle: "wait_for_idle c e j = (if bc_yield c \<and> bc_probe c \<and> 0 < num_or (be_load e) 0 then Nap else Idle, j)"
          using going x False expire_not [of "be_now e" j j1] by (auto simp: wait_for_idle_def)
        show ?thesis
          using going x False True p n place_worker [OF p] by (simp add: idle goes_refl base(1))
      next
        case skip: False
        have "in_loop s j (Suc m)" using Cons.prems(1) n skip by (auto simp: in_loop_def less_Suc_eq)
        then show ?thesis using Cons.IH [of "Suc m"] going x False skip n by (auto intro: Suc_leD)
      qed
    qed
  qed
qed

lemma settle_item_facts:
  assumes "settle_item jl rid out i = (i', line)"
  shows "settled i'" "bi_custom i' = bi_custom i" "result_custom line = JStr (bi_custom i)"
  using assms by (auto simp: settle_item_def settled_def result_custom_def result_line_def obj_get_def split: item_outcome.splits)

lemma settled_status: "settled i \<Longrightarrow> bi_status i \<noteq> '''' \<and> bi_status i \<noteq> ITEM_PENDING \<and> bi_status i \<noteq> ITEM_SKIPPED"
  by (auto simp: settled_def item_defs)

lemma list_all_update: "list_all P xs \<Longrightarrow> P x \<Longrightarrow> list_all P (xs[n := x])"
proof -
  assume "list_all P xs" "P x"
  moreover have "set (xs[n := x]) \<subseteq> insert x (set xs)" by (rule set_update_subset_insert)
  ultimately show ?thesis by (auto simp: list_all_iff)
qed

lemma not_ex_update: "\<not> list_ex P xs \<Longrightarrow> \<not> P x \<Longrightarrow> \<not> list_ex P (xs[n := x])"
  using list_all_update [of "\<lambda>y. \<not> P y" xs x n] by (auto simp: list_all_iff list_ex_iff)

lemma settle_job_ok:
  assumes ok: "job_ok j" and n: "n < length (bj_items j)" "settled_upto n (bj_items j)" and w: "at_work j"
  shows "job_ok (settle_job jl rid out n j)" "settled_upto (Suc n) (bj_items (settle_job jl rid out n j))"
    "at_work (settle_job jl rid out n j)" "bj_id (settle_job jl rid out n j) = bj_id j" "bj_status (settle_job jl rid out n j) = bj_status j"
    "length (bj_items (settle_job jl rid out n j)) = length (bj_items j)"
proof -
  obtain i line where s: "settle_item jl rid out (bj_items j ! n) = (i, line)" by (rule prod.exhaust)
  note f = settle_item_facts [OF s] and g = settled_status [OF settle_item_facts(1) [OF s]]
  let ?j = "settle_job jl rid out n j"
  have j: "?j = j\<lparr>bj_items := (bj_items j)[n := i], bj_results := bj_results j @ [line]\<rparr>" by (simp add: settle_job_def s)
  show up: "settled_upto (Suc n) (bj_items ?j)"
    using n f(1) by (auto simp: j settled_upto_def nth_list_update less_Suc_eq)
  show "at_work ?j" using w by (simp add: j at_work_def)
  show "bj_id ?j = bj_id j" "bj_status ?j = bj_status j" "length (bj_items ?j) = length (bj_items j)" by (simp_all add: j)
  have "in_order j" using ok by (simp add: job_ok_def)
  then have "map result_custom (bj_results j) = map (\<lambda>i. JStr (bi_custom i)) (take n (bj_items j))"
    using settled_upto_unique [OF _ n(2)] by (auto simp: in_order_def)
  then have "map result_custom (bj_results ?j) = map (\<lambda>i. JStr (bi_custom i)) (take (Suc n) (bj_items ?j))"
    using n(1) f by (simp add: j take_Suc_conv_app_nth)
  then have o: "in_order ?j" using up by (auto simp: in_order_def)
  have "known_items ?j" using ok f(1) unfolding job_ok_def known_items_def j
    by (simp del: insert_iff) (rule list_all_update, auto simp: settled_def)
  moreover have "job_wf ?j" using ok g by (simp add: j job_ok_def job_wf_def list_all_update)
  moreover have "if stopped ?j then \<not> any_pending ?j else \<not> any_skipped ?j"
  proof -
    have "\<not> any_pending j \<Longrightarrow> \<not> any_pending ?j" "\<not> any_skipped j \<Longrightarrow> \<not> any_skipped ?j" "stopped ?j = stopped j"
      using g by (simp_all add: j any_pending_def any_skipped_def not_ex_update stopped_def)
    then show ?thesis using ok by (simp add: job_ok_def split: if_splits)
  qed
  moreover have "bj_status ?j \<noteq> STATUS_COMPLETED" using w by (simp add: j at_work_def status_defs split: if_splits) auto
  ultimately show "job_ok ?j" using o by (simp add: job_ok_def)
qed

definition batch_ok :: "batch_store \<Rightarrow> bool" where
  "batch_ok s = (store_base s \<and> worker_ok s)"

lemma steady_ok: "batch_ok s \<Longrightarrow> steady_step s s' \<Longrightarrow> batch_ok s' \<and> keeps_final s s'"
  using same_place_worker by (auto simp: batch_ok_def steady_step_def goes_def)

lemma holds_facts:
  assumes "store_base s" "holds_place s i n"
  shows "map_of (bt_jobs s) i = Some (job_of s i)" "bj_id (job_of s i) = i" "job_ok (job_of s i)" "n < length (bj_items (job_of s i))"
    "settled_upto n (bj_items (job_of s i))" "at_work (job_of s i)" "bt_running s = [i]"
  using assms store_baseD(1) by (auto simp: holds_place_def job_of_def)

text \<open>An answer comes in: the loop goes on after the item.\<close>

lemma done_in_loop:
  assumes "store_base s" "holds_place s i n"
  shows "goes s (persist c e (settle_job jl rid out n (job_of s i)) (put_job (settle_job jl rid out n (job_of s i)) s))"
    "in_loop (persist c e (settle_job jl rid out n (job_of s i)) (put_job (settle_job jl rid out n (job_of s i)) s))
       (settle_job jl rid out n (job_of s i)) (Suc n)"
proof -
  note h = holds_facts [OF assms]
  let ?j = "settle_job jl rid out n (job_of s i)"
  note f = settle_job_ok [OF h(3-6), where jl = jl and rid = rid and out = out]
  have "replaces s ?j" using h by (simp add: replaces_def f)
  then show g: "goes s (persist c e ?j (put_job ?j s))" by (rule goes_record(1) [OF assms(1) f(1)])
  have "\<forall>k < Suc n. bi_status (bj_items ?j ! k) \<noteq> ITEM_PENDING"
    using f(2,6) h(4) settled_status by (auto simp: settled_upto_def)
  then show "in_loop (persist c e ?j (put_job ?j s)) ?j (Suc n)"
    using g f h by (simp add: in_loop_def goes_def)
qed

lemma item_done_ok:
  assumes "batch_ok s"
  shows "batch_ok (item_done c e out s) \<and> keeps_final s (item_done c e out s)"
proof (cases "bt_worker s")
  case (Executing i n)
  have base: "store_base s" "holds_place s i n" using assms Executing by (simp_all add: batch_ok_def worker_ok_def)
  let ?j = "settle_job (bc_lib c) (be_uuid e) out n (job_of s i)"
  note l = done_in_loop [OF base, of c e "bc_lib c" "be_uuid e" out]
  note r = run_items_ok [OF l(2) refl, of c e]
  have "goes s (run_items c e ?j [Suc n..<length (bj_items ?j)] (persist c e ?j (put_job ?j s)))" by (rule goes_trans [OF l(1) conjunct1 [OF r]])
  then show ?thesis using Executing r by (simp add: item_done_def batch_ok_def goes_def Let_def)
qed (use assms goes_refl in \<open>auto simp: item_done_def batch_ok_def goes_def\<close>)

lemma nap_over_ok:
  assumes "batch_ok s"
  shows "batch_ok (nap_over c e s) \<and> keeps_final s (nap_over c e s)"
proof (cases "bt_worker s")
  case (Sleeping i n)
  have base: "store_base s" "holds_place s i n" using assms Sleeping by (simp_all add: batch_ok_def worker_ok_def)
  note h = holds_facts [OF base]
  let ?j = "job_of s i"
  have ends: "batch_ok (finish_job c e j1 s) \<and> keeps_final s (finish_job c e j1 s)"
    if "may_end j1" "bj_id j1 = i" "final ?j \<Longrightarrow> bj_status j1 = STATUS_EXPIRED" for j1
    using finish_ok(1,2) [OF base(1), of j1 ?j c e] h that at_work_final [OF h(6)] by (auto simp: batch_ok_def goes_def)
  have stay: "batch_ok (s\<lparr>bt_worker := Executing i n\<rparr>) \<and> keeps_final s (s\<lparr>bt_worker := Executing i n\<rparr>)" "keeps_final s s"
    using place_worker(1) [OF base(2)] base goes_refl [OF base(1)] by (simp_all add: batch_ok_def) (simp_all add: goes_def keeps_final_def)
  obtain w j1 where x: "wait_for_idle c e ?j = (w, j1)" by (rule prod.exhaust)
  show ?thesis
  proof (cases w)
    case Halt
    then consider (cancel) "bj_cancel ?j" "j1 = ?j" | (expire) "maybe_expire (be_now e) ?j = (True, j1)"
      using x by (auto simp: wait_for_idle_def split: if_splits prod.splits bool.splits)
    then have "may_end j1 \<and> bj_id j1 = i \<and> (final ?j \<longrightarrow> bj_status j1 = STATUS_EXPIRED)"
    proof cases
      case cancel
      have "any_pending ?j \<Longrightarrow> bj_status ?j \<noteq> STATUS_EXPIRED" using h(3) by (auto simp: job_ok_def stopped_def split: if_splits)
      then have "may_end ?j" using h(3) cancel by (auto simp: may_end_def job_ok_def)
      then show ?thesis using cancel h at_work_final [OF h(6)] by simp
    next
      case expire
      note f = expire_facts [OF expire h(3)]
      show ?thesis using expired_may_end [OF f(1,3)] f h by simp
    qed
    then show ?thesis using Sleeping x Halt ends [of j1] by (simp add: nap_over_def)
  qed (use Sleeping x stay assms in \<open>simp_all add: nap_over_def\<close>)
qed (use assms goes_refl in \<open>auto simp: nap_over_def batch_ok_def goes_def\<close>)

lemma start_in_loop:
  assumes base: "store_base s1" and j: "map_of (bt_jobs s1) i = Some j" "bj_id j = i" "job_ok j" "\<not> final j" "\<not> bj_cancel j"
    and run: "bt_running s1 = []" and e: "j1 = j\<lparr>bj_status := STATUS_IN_PROGRESS, bj_in_progress := t\<rparr>"
  shows "goes s1 (persist c e (j1) ((put_job j1 s1)\<lparr>bt_running := i # bt_running s1\<rparr>))"
    "in_loop (persist c e j1 ((put_job j1 s1)\<lparr>bt_running := i # bt_running s1\<rparr>)) j1 0"
proof -
  have "\<not> any_skipped j" using j(3,4) by (auto simp: job_ok_def stopped_def final_def TERMINAL_STATUSES_def)
  then have ok: "job_ok j1" "bj_id j1 = i" using j by (simp_all add: e job_ok_def job_facts job_wf_def stopped_def status_defs)
  have r: "replaces s1 j1" using j by (simp add: replaces_def ok)
  have "goes s1 (put_job j1 s1)" by (rule goes_put [OF base ok(1) r])
  then have p: "goes s1 ((put_job j1 s1)\<lparr>bt_running := i # bt_running s1\<rparr>)" by simp
  have "goes ((put_job j1 s1)\<lparr>bt_running := i # bt_running s1\<rparr>) (persist c e j1 ((put_job j1 s1)\<lparr>bt_running := i # bt_running s1\<rparr>))"
    using p by (intro goes_persist ok) (simp add: goes_def)
  then show g: "goes s1 (persist c e (j1) ((put_job j1 s1)\<lparr>bt_running := i # bt_running s1\<rparr>))" by (rule goes_trans [OF p])
  then show "in_loop (persist c e j1 ((put_job j1 s1)\<lparr>bt_running := i # bt_running s1\<rparr>)) j1 0"
    using j run ok by (simp add: in_loop_def goes_def at_work_def) (simp add: e)
qed

lemma run_job_ok:
  assumes ok: "batch_ok s" and idle: "bt_worker s = NoJob"
  shows "batch_ok (run_job c e i s) \<and> keeps_final s (run_job c e i s)"
proof -
  obtain y s1 where g: "get_batch c e i s = (y, s1)" by (rule prod.exhaust)
  have base: "store_base s" using ok by (simp add: batch_ok_def)
  have st: "steady_step s s1" by (rule get_steady(1) [OF base g])
  have s1: "batch_ok s1" "keeps_final s s1" "store_base s1" "bt_running s1 = []" "bt_worker s1 = NoJob"
    using steady_ok [OF ok st] st ok idle by (simp_all add: batch_ok_def worker_ok_def steady_step_def same_place_def)
  have trans: "batch_ok t \<and> keeps_final s t" if "goes s1 t" "worker_ok t" for t
  proof -
    have "goes s t" using st by (intro goes_trans [OF _ that(1)]) (simp add: steady_step_def)
    then show ?thesis using that(2) by (simp add: batch_ok_def goes_def)
  qed
  show ?thesis
  proof (cases y)
    case None
    then show ?thesis using g s1 by (simp add: run_job_def)
  next
    case (Some j)
    have j: "map_of (bt_jobs s1) i = Some j" "bj_id j = i" "job_ok j" using get_steady(2) [OF base g] Some by auto
    show ?thesis
    proof (cases "final j")
      case True
      then show ?thesis using g s1 Some by (simp add: run_job_def final_def)
    next
      case nf: False
      show ?thesis
      proof (cases "bj_cancel j")
        case True
        define j1 where "j1 = (mark_remaining_skipped j)\<lparr>bj_status := STATUS_CANCELLED,
            bj_cancelled := Some (num_or (bj_cancelled j) (be_now e)), bj_cancelling := Some (num_or (bj_cancelling j) (be_now e))\<rparr>"
        have "job_ok j1" "bj_id j1 = i"
          using job_ok_stopped_as [OF skip_leaves(4) _ skip_leaves(3) skip_leaves(1), of j j1] j by (simp_all add: j1_def stopped_def skip_leaves job_ok_def)
        moreover have "replaces s1 j1" using nf j calculation by (simp add: replaces_def)
        ultimately have "goes s1 (notify_terminal j1 (persist c e j1 (put_job j1 s1)))" using goes_record(2) [OF s1(3)] by blast
        then have "batch_ok (notify_terminal j1 (persist c e j1 (put_job j1 s1))) \<and> keeps_final s (notify_terminal j1 (persist c e j1 (put_job j1 s1)))"
          by (rule trans) (simp add: worker_ok_def s1)
        then show ?thesis using g Some nf True by (simp add: run_job_def final_def j1_def Let_def)
      next
        case False
        show ?thesis
        proof (cases "bj_items j = []")
          case True
          then show ?thesis using g Some nf False s1 by (simp add: run_job_def final_def)
        next
          case items: False
          define j1 where "j1 = j\<lparr>bj_status := STATUS_IN_PROGRESS, bj_in_progress := Some (num_or (bj_in_progress j) (be_now e))\<rparr>"
          let ?s2 = "persist c e j1 ((put_job j1 s1)\<lparr>bt_running := i # bt_running s1\<rparr>)"
          note l = start_in_loop [OF s1(3) j nf False s1(4) j1_def, of c e]
          note r = run_items_ok [OF l(2) refl, of c e]
          have "goes s1 (run_items c e j1 [0..<length (bj_items j1)] ?s2)" by (rule goes_trans [OF l(1) conjunct1 [OF r]])
          then show ?thesis using trans r g Some nf False items by (simp add: run_job_def final_def j1_def Let_def)
        qed
      qed
    qed
  qed
qed

section \<open>Runs keep it\<close>

lemma step_ok: "batch_step c s s' \<Longrightarrow> batch_ok s \<Longrightarrow> batch_ok s' \<and> keeps_final s s'"
proof (induction rule: batch_step.induct)
  case (submit e s sp)
  then have "steady_step s (snd (submit_batch c e sp s))" by (intro submit_steady) (simp_all add: batch_ok_def)
  then show ?case by (rule steady_ok [OF submit.prems])
next
  case (look s e i)
  obtain x t where g: "get_batch c e i s = (x, t)" by (rule prod.exhaust)
  then have "steady_step s (snd (get_batch c e i s))" using get_steady(1) [OF _ g] look by (simp add: batch_ok_def)
  then show ?case by (rule steady_ok [OF look])
next
  case (listing s e limit owner)
  obtain x t where g: "list_from c e limit owner (rev (bt_order s)) [] s = (x, t)" by (rule prod.exhaust)
  then have "steady_step s (snd (list_batches c e limit owner s))" using list_steady [OF _ g] listing by (simp add: list_batches_def batch_ok_def)
  then show ?case by (rule steady_ok [OF listing])
next
  case (cancel s e i)
  obtain x t where g: "cancel_batch c e i s = (x, t)" by (rule prod.exhaust)
  then have "steady_step s (snd (cancel_batch c e i s))" using cancel_steady [OF _ g] cancel by (simp add: batch_ok_def)
  then show ?case by (rule steady_ok [OF cancel])
next
  case (erase s e key team user dry)
  have "steady_step s (snd (erase_subject c e key team user dry s))"
    using erase steady_refl deletes_steady by (simp add: erase_subject_def Let_def batch_ok_def)
  then show ?case using steady_ok erase by blast
next
  case (prune s e cutoff dry)
  have "steady_step s (snd (prune_older_than c e cutoff dry s))"
    using prune steady_refl deletes_steady by (simp add: prune_older_than_def Let_def batch_ok_def)
  then show ?case using steady_ok prune by blast
next
  case (start s e)
  show ?case
  proof (cases "bt_queue s")
    case Nil
    then show ?thesis using start by (simp add: start_next_def keeps_final_def)
  next
    case (Cons i "is")
    have "batch_ok (s\<lparr>bt_queue := is\<rparr>)" using start by (simp add: batch_ok_def worker_ok_def)
    then show ?thesis using run_job_ok [of "s\<lparr>bt_queue := is\<rparr>" c e i] start(1) Cons by (simp add: start_next_def keeps_final_def)
  qed
qed (simp_all add: item_done_ok nap_over_ok)

lemma put_base:
  assumes "store_base s" "job_ok j" "bt_hooks s = []"
  shows "store_base (put_job j s)"
proof (rule store_baseI)
  fix i k assume "map_of (bt_jobs (put_job j s)) i = Some k"
  then show "bj_id k = i \<and> job_ok k" using store_baseD(1) [OF assms(1)] assms(2) by (auto split: if_splits)
qed (use store_baseD [OF assms(1)] assms(3) in auto)

lemma load_row_ok:
  assumes jl: "\<And>s. jl_str jl (JStr s) = s" and rows: "\<forall>i p. map_of rows i = Some p \<longrightarrow> (\<exists>j. p = job_to_payload j \<and> bj_id j = i \<and> job_ok j)"
    and s: "store_base s" "bt_hooks s = []"
  shows "store_base (load_row jl now rows i s) \<and> bt_hooks (load_row jl now rows i s) = []
    \<and> bt_worker (load_row jl now rows i s) = bt_worker s \<and> bt_running (load_row jl now rows i s) = bt_running s"
proof (cases "map_of rows i")
  case None
  then show ?thesis using s by (simp add: load_row_def)
next
  case (Some p)
  then obtain j where j: "p = job_to_payload j" "bj_id j = i" "job_ok j" using rows by blast
  then have same: "job_from_payload jl now p = Some j" using payload_read_back [OF jl, of j now] by (simp add: job_ok_def)
  have b: "store_base (put_job j s)" by (rule put_base [OF s(1) j(3) s(2)])
  show ?thesis using store_base_batches [OF b] store_baseD(3) [OF b] s Some same by (auto simp: load_row_def)
qed

lemma load_rows_ok:
  assumes "\<And>s. jl_str jl (JStr s) = s" "\<forall>i p. map_of rows i = Some p \<longrightarrow> (\<exists>j. p = job_to_payload j \<and> bj_id j = i \<and> job_ok j)"
    and "store_base s" "bt_hooks s = []" "bt_worker s = NoJob" "bt_running s = []"
  shows "batch_ok (fold (load_row jl now rows) is s)"
  using assms(3-)
proof (induction "is" arbitrary: s)
  case (Cons i "is")
  then show ?case using load_row_ok [OF assms(1,2) Cons.prems(1,2), where i = i and now = now] by simp
qed (simp add: batch_ok_def worker_ok_def)

lemma resume_ok: "batch_ok s \<Longrightarrow> batch_ok (resume_incomplete c e s)"
proof -
  assume ok: "batch_ok s"
  have "batch_ok (case get_batch c e i t of (None, s1) \<Rightarrow> s1
      | (Some j, s1) \<Rightarrow> (if bj_status j \<notin> RESUMABLE \<or> \<not> any_pending j then s1 else schedule_batch c e i s1))" if t: "batch_ok t" for i t
  proof -
    obtain y s1 where g: "get_batch c e i t = (y, s1)" by (rule prod.exhaust)
    have st: "steady_step t s1" using get_steady(1) [OF _ g] t by (simp add: batch_ok_def)
    have a: "batch_ok s1" using steady_ok [OF t st] by simp
    moreover have "batch_ok (schedule_batch c e i s1)" using steady_ok [OF a schedule_steady] a by (simp add: batch_ok_def)
    ultimately show ?thesis using g by (simp split: option.split)
  qed
  then show ?thesis unfolding resume_incomplete_def using ok by (intro fold_invariant [where Q = "\<lambda>_. True" and P = batch_ok]) auto
qed

lemma restart_ok:
  assumes "\<And>s. jl_str (bc_lib c) (JStr s) = s" and "batch_ok s"
  shows "batch_ok (restart_store c e s)"
proof -
  let ?s = "new_batches\<lparr>bt_rows := bt_rows s, bt_row_order := bt_row_order s\<rparr>"
  have rows: "\<forall>i p. map_of (bt_rows s) i = Some p \<longrightarrow> (\<exists>j. p = job_to_payload j \<and> bj_id j = i \<and> job_ok j)"
    using assms(2) store_baseD(2) unfolding batch_ok_def by blast
  have "store_base ?s" using rows by (simp add: store_base_def new_batches_def)
  then have "batch_ok (load_from_db c e s)"
    using load_rows_ok [OF assms(1) rows, of ?s] by (simp add: load_from_db_def Let_def, simp add: new_batches_def batch_ok_def worker_ok_def)
  then show ?thesis unfolding restart_store_def by (rule resume_ok)
qed

lemma reach_ok: "batch_reach c s \<Longrightarrow> (\<And>s. jl_str (bc_lib c) (JStr s) = s) \<Longrightarrow> batch_ok s"
proof (induction rule: batch_reach.induct)
  case new
  then show ?case by (simp add: batch_ok_def store_base_def worker_ok_def new_batches_def)
next
  case (step s s')
  then show ?case using step_ok by blast
next
  case (crash s e)
  then show ?case using restart_ok by blast
qed

text \<open>C6. The result lines of a batch are those of its first items, in their order, and a completed batch has run every
  item. This holds of every job of every run: whatever is submitted, read, listed, cancelled, erased and pruned while
  the worker runs, however the items end, whether or not the database works, and across restarts. A batch that is
  neither expired nor cancelled has skipped nothing.\<close>

theorem batches_run_their_items_in_order:
  assumes "batch_reach c s" and "\<And>s. jl_str (bc_lib c) (JStr s) = s" and "map_of (bt_jobs s) i = Some j"
  shows "\<exists>k \<le> length (bj_items j). map result_custom (bj_results j) = map (\<lambda>i. JStr (bi_custom i)) (take k (bj_items j))
      \<and> (\<forall>n < length (bj_items j). settled (bj_items j ! n) = (n < k))
      \<and> (bj_status j = STATUS_COMPLETED \<longrightarrow> k = length (bj_items j))
      \<and> (bj_status j \<noteq> STATUS_EXPIRED \<and> bj_status j \<noteq> STATUS_CANCELLED \<longrightarrow> \<not> any_skipped j)"
proof -
  have "store_base s" using reach_ok [OF assms(1,2)] by (simp add: batch_ok_def)
  then have ok: "job_ok j" using store_baseD(1) [OF _ assms(3)] by blast
  then obtain k where k: "settled_upto k (bj_items j)" "map result_custom (bj_results j) = map (\<lambda>i. JStr (bi_custom i)) (take k (bj_items j))"
    by (auto simp: job_ok_def in_order_def)
  have "k = length (bj_items j)" if "bj_status j = STATUS_COMPLETED"
  proof -
    have "list_all settled (bj_items j)" using ok that by (simp add: job_ok_def)
    then have "settled_upto (length (bj_items j)) (bj_items j)" by (simp add: settled_upto_def list_all_length)
    then show ?thesis by (rule settled_upto_unique [OF k(1)])
  qed
  then show ?thesis using k ok by (intro exI [of _ k]) (auto simp: settled_upto_def job_ok_def stopped_def)
qed

text \<open>C20. A batch that is completed, failed, cancelled or expired stays so while the process lives, and each batch is
  reported to its webhook at most once, with the status it keeps.\<close>

theorem final_batches_stay_and_are_told_once:
  assumes "batch_reach c s" and "\<And>s. jl_str (bc_lib c) (JStr s) = s" and "batch_step c s s'"
  shows "(\<forall>i j. map_of (bt_jobs s) i = Some j \<and> bj_status j \<in> TERMINAL_STATUSES
      \<longrightarrow> (\<exists>j'. map_of (bt_jobs s') i = Some j' \<and> bj_status j' = bj_status j))
    \<and> distinct (map fst (bt_hooks s'))
    \<and> (\<forall>(i, body) \<in> set (bt_hooks s'). \<exists>j kvs. map_of (bt_jobs s') i = Some j \<and> body = JObj kvs
         \<and> obj_get kvs ''status'' = JStr (bj_status j) \<and> bj_status j \<in> TERMINAL_STATUSES)"
proof -
  have g: "batch_ok s'" "keeps_final s s'" using step_ok [OF assms(3) reach_ok [OF assms(1,2)]] by simp_all
  then have b: "store_base s'" by (simp add: batch_ok_def)
  show ?thesis
    using g(2) store_baseD(4,5) [OF b] by (fastforce simp: keeps_final_def final_def hook_ok_def)
qed

section \<open>Every batch ends\<close>

primrec answer_all :: "batch_cfg \<Rightarrow> (batch_env \<times> item_outcome) list \<Rightarrow> batch_store \<Rightarrow> batch_store" where
  "answer_all c [] s = s"
| "answer_all c (x # xs) s = answer_all c xs (item_done c (fst x) (snd x) s)"

definition not_busy :: "batch_cfg \<Rightarrow> batch_env \<Rightarrow> bool" where
  "not_busy c e = (\<not> bc_yield c \<or> \<not> bc_probe c \<or> num_or (be_load e) 0 \<le> 0)"

text \<open>The job is over, or the worker is at an item with at most \<open>r\<close> items from there on.\<close>

definition left_to_do :: "batch_store \<Rightarrow> pystr \<Rightarrow> nat \<Rightarrow> bool" where
  "left_to_do s i r = (batch_ok s
     \<and> ((bt_worker s = NoJob \<and> (\<exists>j. map_of (bt_jobs s) i = Some j \<and> final j))
        \<or> (\<exists>n. bt_worker s = Executing i n \<and> length (bj_items (job_of s i)) \<le> n + r)))"

lemma loop_left:
  assumes "in_loop s j m" "not_busy c e"
  shows "left_to_do (run_items c e j [m..<length (bj_items j)] s) (bj_id j) (length (bj_items j) - m)"
proof -
  let ?t = "run_items c e j [m..<length (bj_items j)] s"
  note r = run_items_ok [OF assms(1) refl, of c e]
  have j: "map_of (bt_jobs s) (bj_id j) = Some j" using assms(1) by (simp add: in_loop_def)
  have ok: "batch_ok ?t" using r by (simp add: batch_ok_def goes_def)
  have nb: "\<not> (bc_yield c \<and> bc_probe c \<and> 0 < num_or (be_load e) 0)" using assms(2) by (auto simp: not_busy_def)
  from r consider (over) "bt_worker ?t = NoJob" "\<exists>j'. map_of (bt_jobs ?t) (bj_id j) = Some j' \<and> final j'"
    | (item) n where "m \<le> n" "bt_jobs ?t = bt_jobs s" "bt_worker ?t = Executing (bj_id j) n"
    using nb by blast
  then show ?thesis
  proof cases
    case over
    then show ?thesis using ok by (simp add: left_to_do_def)
  next
    case item
    then have "job_of ?t (bj_id j) = j" using j by (simp add: job_of_def)
    then show ?thesis using ok item by (auto simp: left_to_do_def)
  qed
qed

lemma answer_leaves_less:
  assumes "left_to_do s i (Suc r)" "not_busy c e"
  shows "left_to_do (item_done c e out s) i r"
proof -
  have ok: "batch_ok s" using assms(1) by (simp add: left_to_do_def)
  from assms(1) consider (over) "bt_worker s = NoJob" "\<exists>j. map_of (bt_jobs s) i = Some j \<and> final j"
    | (item) n where "bt_worker s = Executing i n" "length (bj_items (job_of s i)) \<le> n + Suc r"
    by (auto simp: left_to_do_def)
  then show ?thesis
  proof cases
    case over
    then show ?thesis using ok by (simp add: left_to_do_def item_done_def)
  next
    case item
    have base: "store_base s" "holds_place s i n" using ok item by (simp_all add: batch_ok_def worker_ok_def)
    let ?j = "settle_job (bc_lib c) (be_uuid e) out n (job_of s i)"
    let ?s = "persist c e ?j (put_job ?j s)"
    have l: "in_loop ?s ?j (Suc n)" by (rule done_in_loop(2) [OF base])
    have f: "bj_id ?j = i" "length (bj_items ?j) = length (bj_items (job_of s i))"
      using settle_job_ok(4,6) [OF holds_facts(3-6) [OF base]] holds_facts(2) [OF base] by simp_all
    have t: "left_to_do (run_items c e ?j [Suc n..<length (bj_items ?j)] ?s) (bj_id ?j) (length (bj_items ?j) - Suc n)"
      by (rule loop_left [OF l assms(2)])
    have less: "length (bj_items ?j) - Suc n \<le> r" using item(2) f by simp
    have "item_done c e out s = run_items c e ?j [Suc n..<length (bj_items ?j)] ?s"
      using item(1) by (simp add: item_done_def Let_def)
    then show ?thesis using t less unfolding f by (fastforce simp: left_to_do_def)
  qed
qed

lemma answers_end:
  "left_to_do s i (length rs) \<Longrightarrow> \<forall>x \<in> set rs. not_busy c (fst x) \<Longrightarrow>
     bt_worker (answer_all c rs s) = NoJob \<and> (\<exists>j. map_of (bt_jobs (answer_all c rs s)) i = Some j \<and> final j)"
proof (induction rs arbitrary: s)
  case Nil
  have "\<not> (bt_worker s = Executing i n \<and> length (bj_items (job_of s i)) \<le> n + 0)" for n
    using Nil.prems holds_facts(4) [of s i n] by (auto simp: left_to_do_def batch_ok_def worker_ok_def)
  then show ?case using Nil.prems by (auto simp: left_to_do_def)
next
  case (Cons x rs)
  then show ?case using answer_leaves_less [of s i "length rs" c "fst x" "snd x"] by simp
qed

lemma start_left:
  assumes ok: "batch_ok s" and idle: "bt_worker s = NoJob" "not_busy c e" and i: "i \<in> set (bt_batches s)" "bj_items (job_of s i) \<noteq> []"
  shows "left_to_do (run_job c e i s) i (length (bj_items (job_of s i)))"
proof -
  have base: "store_base s" using ok by (simp add: batch_ok_def)
  obtain y s1 where g: "get_batch c e i s = (y, s1)" by (rule prod.exhaust)
  have st: "steady_step s s1" by (rule get_steady(1) [OF base g])
  have s1: "batch_ok s1" "store_base s1" "bt_running s1 = []" "bt_worker s1 = NoJob"
    using steady_ok [OF ok st] st ok idle by (simp_all add: batch_ok_def worker_ok_def steady_step_def same_place_def)
  have after: "batch_ok (run_job c e i s)" using run_job_ok [OF ok idle(1)] by simp
  have "y \<noteq> None" using g i(1) by (auto simp: get_batch_def split: prod.splits bool.splits)
  then obtain j where y: "y = Some j" by blast
  have j: "map_of (bt_jobs s1) i = Some j" "bj_id j = i" "job_ok j" using get_steady(2) [OF base g] y by auto
  have len: "length (bj_items j) = length (bj_items (job_of s i))"
    using g y i(1) expire_facts(7) job_of_known [OF base i(1)] by (auto simp: get_batch_def split: prod.splits bool.splits)
  show ?thesis
  proof (cases "final j \<or> bj_cancel j")
    case True
    have "bt_worker (run_job c e i s) = NoJob \<and> (\<exists>j. map_of (bt_jobs (run_job c e i s)) i = Some j \<and> final j)"
      using True g y j s1 by (auto simp: run_job_def final_def Let_def TERMINAL_STATUSES_def)
    then show ?thesis using after by (simp add: left_to_do_def)
  next
    case False
    define j1 where "j1 = j\<lparr>bj_status := STATUS_IN_PROGRESS, bj_in_progress := Some (num_or (bj_in_progress j) (be_now e))\<rparr>"
    let ?s2 = "persist c e j1 ((put_job j1 s1)\<lparr>bt_running := i # bt_running s1\<rparr>)"
    have nf: "\<not> final j" "\<not> bj_cancel j" using False by simp_all
    have l: "in_loop ?s2 j1 0" by (rule start_in_loop(2) [OF s1(2) j nf s1(3) j1_def])
    have f: "bj_id j1 = i" "bj_items j1 = bj_items j" by (simp_all add: j1_def j)
    have "bj_items j \<noteq> []" using len i(2) by auto
    then have "run_job c e i s = run_items c e j1 [0..<length (bj_items j1)] ?s2"
      using g y False by (simp add: run_job_def final_def j1_def Let_def)
    then show ?thesis using loop_left [OF l idle(2)] by (simp add: f len)
  qed
qed

text \<open>C14. Every batch ends. When the worker is free and nothing interactive is running, the next batch in line is
  over, completed, expired or cancelled, after no more answers than it has items, whatever they are: replies,
  rejections or errors. Then the worker is free again.\<close>

theorem every_batch_ends:
  assumes "batch_reach c s" and "\<And>s. jl_str (bc_lib c) (JStr s) = s"
    and "bt_worker s = NoJob" and "bt_queue s = i # rest" and "i \<in> set (bt_batches s)" and "bj_items (job_of s i) \<noteq> []"
    and "length rs = length (bj_items (job_of s i))" and "not_busy c e" and "\<forall>x \<in> set rs. not_busy c (fst x)"
  shows "bt_worker (answer_all c rs (start_next c e s)) = NoJob
    \<and> (\<exists>j. map_of (bt_jobs (answer_all c rs (start_next c e s))) i = Some j \<and> bj_status j \<in> TERMINAL_STATUSES)"
proof -
  let ?s = "s\<lparr>bt_queue := rest\<rparr>"
  have ok: "batch_ok ?s" using reach_ok [OF assms(1,2)] assms(3) by (simp add: batch_ok_def worker_ok_def)
  have j: "job_of ?s i = job_of s i" by (simp add: job_of_def)
  have "left_to_do (run_job c e i ?s) i (length rs)"
    using start_left [OF ok _ assms(8), of i, unfolded j] assms(3,5,6,7) by simp
  then show ?thesis using answers_end [OF _ assms(9)] assms(4) by (simp add: start_next_def final_def)
qed

section \<open>Erasing a batch that runs\<close>

definition bodies :: "batch_job \<Rightarrow> json_object list" where
  "bodies j = map bi_body (bj_items j)"

definition row_holds :: "batch_store \<Rightarrow> pystr \<Rightarrow> json_object list \<Rightarrow> bool" where
  "row_holds s i bs = (i \<in> set (bt_row_order s) \<and> (\<exists>j. map_of (bt_rows s) i = Some (job_to_payload j) \<and> bodies j = bs))"

lemma bodies_keep [simp]:
  "bodies (mark_remaining_skipped j) = bodies j" "bodies (write_result_files c e j) = bodies j" "bodies (j\<lparr>bj_status := a\<rparr>) = bodies j"
  "bodies (j\<lparr>bj_expired := t\<rparr>) = bodies j" "bodies (j\<lparr>bj_cancelled := t\<rparr>) = bodies j" "bodies (j\<lparr>bj_completed := t\<rparr>) = bodies j"
  by (simp_all add: bodies_def) (simp add: mark_remaining_skipped_def skip_item_def comp_def)

lemma final_bodies [simp]: "bodies (final_job c e j) = bodies j"
  by (simp add: final_job_def)

lemma settle_bodies: "n < length (bj_items j) \<Longrightarrow> bodies (settle_job jl rid out n j) = bodies j"
proof -
  assume n: "n < length (bj_items j)"
  obtain i line where s: "settle_item jl rid out (bj_items j ! n) = (i, line)" by (rule prod.exhaust)
  then have "bi_body i = bi_body (bj_items j ! n)" by (auto simp: settle_item_def split: item_outcome.splits)
  then have "(map bi_body (bj_items j))[n := bi_body i] = map bi_body (bj_items j)" using n by (simp add: list_update_same_conv)
  then show ?thesis by (simp add: settle_job_def s bodies_def map_update)
qed

lemma persist_row:
  "bc_durable c \<Longrightarrow> be_db e \<Longrightarrow> row_holds (persist c e j s) (bj_id j) (bodies j)"
  "row_holds s i bs \<Longrightarrow> bj_id j = i \<Longrightarrow> bodies j = bs \<Longrightarrow> row_holds (persist c e j s) i bs"
  by (auto simp: row_holds_def persist_def)

lemma row_frame [simp]:
  "row_holds (put_job j s) i bs = row_holds s i bs" "row_holds (notify_terminal j s) i bs = row_holds s i bs"
  "row_holds (s\<lparr>bt_running := r, bt_worker := w\<rparr>) i bs = row_holds s i bs" "row_holds (s\<lparr>bt_worker := w\<rparr>) i bs = row_holds s i bs"
  "row_holds (s\<lparr>bt_running := r\<rparr>) i bs = row_holds s i bs"
  by (simp_all add: row_holds_def)

lemma finish_row: "row_holds s i bs \<Longrightarrow> bj_id j = i \<Longrightarrow> bodies j = bs \<Longrightarrow> row_holds (finish_job c e j s) i bs"
proof -
  assume a: "row_holds s i bs" "bj_id j = i" "bodies j = bs"
  have "bj_id (final_job c e j) = i" using a(2) by (simp add: final_job_def)
  then show ?thesis using a by (simp add: finish_job_def Let_def persist_row(2))
qed

lemma expire_same: "maybe_expire now j = (b, j1) \<Longrightarrow> bj_id j1 = bj_id j \<and> bodies j1 = bodies j"
  by (auto simp: maybe_expire_def split: if_splits)

lemma idle_same: "wait_for_idle c e j = (w, j1) \<Longrightarrow> bj_id j1 = bj_id j \<and> bodies j1 = bodies j"
proof -
  assume w: "wait_for_idle c e j = (w, j1)"
  obtain b j2 where x: "maybe_expire (be_now e) j = (b, j2)" by (rule prod.exhaust)
  show ?thesis using w expire_same [OF x] by (cases b) (auto simp: wait_for_idle_def x split: if_splits)
qed

lemma items_row: "row_holds s (bj_id j) (bodies j) \<Longrightarrow> row_holds (run_items c e j ns s) (bj_id j) (bodies j)"
proof (induction ns)
  case Nil
  then show ?case by (simp add: finish_row)
next
  case (Cons n ns)
  obtain b j1 where x: "maybe_expire (be_now e) j = (b, j1)" by (rule prod.exhaust)
  obtain w j2 where y: "wait_for_idle c e j = (w, j2)" by (rule prod.exhaust)
  show ?case
    using Cons finish_row expire_same [OF x] idle_same [OF y] by (cases b; cases w) (simp_all add: x y finish_row)
qed

lemma done_row:
  assumes "batch_ok s" "bt_worker s = Executing i n" "bc_durable c" "be_db e"
  shows "row_holds (item_done c e out s) i (bodies (job_of s i))"
proof -
  have base: "store_base s" "holds_place s i n" using assms(1,2) by (simp_all add: batch_ok_def worker_ok_def)
  let ?j = "settle_job (bc_lib c) (be_uuid e) out n (job_of s i)"
  have f: "bj_id ?j = i" "bodies ?j = bodies (job_of s i)"
    using settle_job_ok(4) [OF holds_facts(3-6) [OF base]] holds_facts(2,4) [OF base] settle_bodies by simp_all
  have "row_holds (persist c e ?j (put_job ?j s)) (bj_id ?j) (bodies ?j)" by (rule persist_row(1) [OF assms(3,4)])
  then have "row_holds (run_items c e ?j [Suc n..<length (bj_items ?j)] (persist c e ?j (put_job ?j s))) (bj_id ?j) (bodies ?j)" by (rule items_row)
  then show ?thesis using assms(2) by (simp add: item_done_def Let_def f)
qed

lemma deletes_away:
  "i \<in> set is \<or> i \<notin> set (bt_batches s) \<Longrightarrow> i \<notin> set (bt_batches (fold (delete_job c e) is s))"
  "bt_jobs (fold (delete_job c e) is s) = bt_jobs s" "bt_worker (fold (delete_job c e) is s) = bt_worker s"
proof (induction "is" arbitrary: s)
  case (Cons k "is")
  {
    case 1
    then show ?case using Cons.IH(1) [of "delete_job c e k s"] by (auto simp: delete_job_def Let_def)
  next
    case 2
    then show ?case using Cons.IH(2) [of "delete_job c e k s"] by (simp add: delete_job_def Let_def)
  next
    case 3
    then show ?case using Cons.IH(3) [of "delete_job c e k s"] by (simp add: delete_job_def Let_def)
  }
qed simp_all

lemma deletes_rows:
  "bc_durable c \<Longrightarrow> be_db e \<Longrightarrow> i \<in> set is \<or> map_of (bt_rows s) i = None \<Longrightarrow> map_of (bt_rows (fold (delete_job c e) is s)) i = None"
proof (induction "is" arbitrary: s)
  case (Cons k "is")
  then show ?case using Cons.IH [of "delete_job c e k s"] by (auto simp: delete_job_def Let_def)
qed simp

lemma loads_batches:
  "i \<in> set (bt_batches s) \<Longrightarrow> i \<in> set (bt_batches (fold (load_row jl now rows) is s))"
  "(\<And>s. jl_str jl (JStr s) = s) \<Longrightarrow> i \<in> set is \<Longrightarrow> map_of rows i = Some (job_to_payload j) \<Longrightarrow> bj_id j = i \<Longrightarrow> job_wf j \<Longrightarrow>
     i \<in> set (bt_batches (fold (load_row jl now rows) is s))"
proof (induction "is" arbitrary: s)
  case (Cons k "is")
  have keep: "x \<in> set (bt_batches t) \<Longrightarrow> x \<in> set (bt_batches (load_row jl now rows k t))" for x t
    by (simp add: load_row_def split: option.split)
  {
    case 1
    then show ?case using Cons.IH(1) keep by simp
  next
    case 2
    show ?case
    proof (cases "k = i")
      case True
      have "i \<in> set (bt_batches (load_row jl now rows i s))"
        using 2 payload_read_back [OF 2(1), of j now] by (simp add: load_row_def)
      then show ?thesis using Cons.IH(1) True by simp
    next
      case False
      then show ?thesis using Cons.IH(2) 2 by simp
    qed
  }
qed simp_all

lemma get_batches [simp]: "bt_batches (snd (get_batch c e i s)) = bt_batches s"
  by (simp add: get_batch_def split: prod.split bool.split)

lemma schedule_batches: "bt_batches (schedule_batch c e i s) = bt_batches s"
  using get_batches [of c e i s] by (auto simp: schedule_batch_def simp del: get_batches split: prod.splits option.splits)

lemma resume_batches: "bt_batches (resume_incomplete c e s) = bt_batches s"
proof -
  have "bt_batches (case get_batch c e i t of (None, s1) \<Rightarrow> s1
      | (Some j, s1) \<Rightarrow> (if bj_status j \<notin> RESUMABLE \<or> \<not> any_pending j then s1 else schedule_batch c e i s1)) = bt_batches t" for i t
    using get_batches [of c e i t] schedule_batches by (auto simp del: get_batches split: prod.splits option.splits)
  then have "bt_batches (fold (\<lambda>i s. case get_batch c e i s of (None, s1) \<Rightarrow> s1
      | (Some j, s1) \<Rightarrow> (if bj_status j \<notin> RESUMABLE \<or> \<not> any_pending j then s1 else schedule_batch c e i s1)) is t) = bt_batches t" for "is" t
    by (induction "is" arbitrary: t) simp_all
  then show ?thesis unfolding resume_incomplete_def .
qed

text \<open>C35. Erasing a subject does not erase the batch that is running. The erasure removes it from the registry and the
  database, but the worker still holds the job and writes it back after the next item, with the bodies of all its
  items, so after a restart the erased batch is there again.\<close>

theorem erased_batch_comes_again:
  assumes "batch_reach c s" and "\<And>s. jl_str (bc_lib c) (JStr s) = s" and "bt_worker s = Executing i n" and "i \<in> set (bt_batches s)"
    and "bc_durable c" and "be_db e1 \<and> be_db e2 \<and> be_db e3"
    and "bj_gov (job_of s i) = Some g" and "bg_key g = Some k" and "clean_subject key = Some k"
    and "s1 = snd (erase_subject c e1 key None None False s)"
  shows "i \<notin> set (bt_batches s1) \<and> map_of (bt_rows s1) i = None
    \<and> (\<exists>j. map_of (bt_rows (item_done c e2 out s1)) i = Some (job_to_payload j) \<and> bodies j = bodies (job_of s i))
    \<and> i \<in> set (bt_batches (restart_store c e3 (item_done c e2 out s1)))"
proof -
  have ok: "batch_ok s" by (rule reach_ok [OF assms(1,2)])
  let ?doomed = "filter (\<lambda>i. subject_matches (Some k) (clean_subject None) (clean_subject None) (job_of s i)) (bt_batches s)"
  have s1: "s1 = fold (delete_job c e1) ?doomed s" using assms(9,10) by (simp add: erase_subject_def Let_def)
  have "i \<in> set ?doomed" using assms(4,7,8) by (simp add: subject_matches_def)
  then have gone: "i \<notin> set (bt_batches s1)" "map_of (bt_rows s1) i = None"
    using deletes_away(1) deletes_rows assms(5,6) unfolding s1 by blast+
  have same: "job_of s1 i = job_of s i" "bt_worker s1 = Executing i n"
    using assms(3) by (simp_all add: s1 deletes_away job_of_def)
  have ok1: "batch_ok s1"
    using steady_ok [OF ok deletes_steady] ok unfolding s1 by (simp add: batch_ok_def)
  let ?s2 = "item_done c e2 out s1"
  have row: "row_holds ?s2 i (bodies (job_of s i))" using done_row [OF ok1 same(2) assms(5), of e2 out] assms(6) by (simp add: same)
  have ok2: "store_base ?s2" using item_done_ok [OF ok1] by (simp add: batch_ok_def)
  obtain p where p: "map_of (bt_rows ?s2) i = Some p" using row by (auto simp: row_holds_def)
  obtain j where j: "p = job_to_payload j" "bj_id j = i" "job_wf j" using store_baseD(2) [OF ok2 p] by (auto simp: job_ok_def)
  have "i \<in> set (bt_row_order ?s2)" using row by (simp add: row_holds_def)
  then have "i \<in> set (bt_batches (load_from_db c e3 ?s2))"
    using loads_batches(2) [OF assms(2) _ p [unfolded j(1)] j(2,3)] assms(5,6) by (simp add: load_from_db_def Let_def)
  then have "i \<in> set (bt_batches (restart_store c e3 ?s2))" by (simp add: restart_store_def resume_batches)
  then show ?thesis using gone row by (auto simp: row_holds_def)
qed

section \<open>A concrete batch\<close>

definition demo_batch_cfg :: batch_cfg where
  "demo_batch_cfg = \<lparr>bc_lib = \<lparr>jl_loads = (\<lambda>s. None), jl_dumps = (\<lambda>j. ''''), jl_str = (\<lambda>j. case j of JStr s \<Rightarrow> s | _ \<Rightarrow> '''')\<rparr>,
     bc_complain = id, bc_durable = True, bc_files = False, bc_read = (\<lambda>f. None), bc_yield = True, bc_probe = True\<rparr>"

definition demo_batch_env :: "int \<Rightarrow> batch_env" where
  "demo_batch_env t = \<lparr>be_now = t, be_db = True, be_load = Some 0, be_uuid = ''1'', be_short = (\<lambda>n. ''''), be_output = None, be_errors = None\<rparr>"

definition demo_governance :: batch_governance where
  "demo_governance = \<lparr>bg_key = Some ''k1'', bg_client = None, bg_tier_cap = None, bg_no_frontier = False, bg_user = None,
     bg_boundary = JNull, bg_kind = ''virtual'', bg_latency = None, bg_deadline = None, bg_session = None, bg_agent = None,
     bg_team = None, bg_scope = ''global''\<rparr>"

definition demo_batch_spec :: batch_spec where
  "demo_batch_spec = \<lparr>bs_endpoint = '''', bs_window = '''', bs_input = None,
     bs_requests = Some [JObj [(''custom_id'', JStr ''a''), (''body'', JObj [(''model'', JStr ''m'')])]],
     bs_metadata = JNull, bs_callback = None, bs_gov = Some demo_governance\<rparr>"

definition demo_submitted :: batch_store where
  "demo_submitted = snd (submit_batch demo_batch_cfg (demo_batch_env 1) demo_batch_spec new_batches)"

definition demo_running :: batch_store where
  "demo_running = start_next demo_batch_cfg (demo_batch_env 2) demo_submitted"

definition demo_done :: batch_store where
  "demo_done = item_done demo_batch_cfg (demo_batch_env 3) (Answer (JStr ''hi'')) demo_running"

lemma demo_str: "jl_str (bc_lib demo_batch_cfg) (JStr s) = s"
  by (simp add: demo_batch_cfg_def)

lemma demo_submitted_is:
  "bt_worker demo_submitted = NoJob" "bt_queue demo_submitted = [''batch_1'']" "bt_batches demo_submitted = [''batch_1'']"
  "length (bj_items (job_of demo_submitted ''batch_1'')) = 1"
  by code_simp+

lemma demo_running_is:
  "bt_worker demo_running = Executing ''batch_1'' 0" "bt_batches demo_running = [''batch_1'']"
  "bj_gov (job_of demo_running ''batch_1'') = Some demo_governance"
  by code_simp+

lemma demo_done_is:
  "bt_worker demo_done = NoJob" "map_option bj_status (map_of (bt_jobs demo_done) ''batch_1'') = Some ''completed''"
  by code_simp+

lemma demo_reach: "batch_reach demo_batch_cfg demo_submitted" "batch_reach demo_batch_cfg demo_running" "batch_reach demo_batch_cfg demo_done"
proof -
  show s: "batch_reach demo_batch_cfg demo_submitted"
    unfolding demo_submitted_def
    by (rule batch_reach.step [OF batch_reach.new batch_step.submit]) (simp_all add: new_batches_def demo_batch_env_def)
  show r: "batch_reach demo_batch_cfg demo_running"
    unfolding demo_running_def by (rule batch_reach.step [OF s batch_step.start]) (rule demo_submitted_is)
  show "batch_reach demo_batch_cfg demo_done"
    unfolding demo_done_def by (rule batch_reach.step [OF r batch_step.answered])
qed

theorem batch_rows_round_trip_witness:
  "job_wf (job_of demo_done ''batch_1'') \<and> job_from_payload (bc_lib demo_batch_cfg) 9 (job_to_payload (job_of demo_done ''batch_1'')) = Some (job_of demo_done ''batch_1'')"
proof -
  have "job_wf (job_of demo_done ''batch_1'')" by code_simp
  then show ?thesis using batch_rows_round_trip [OF demo_str, of "job_of demo_done ''batch_1''" 9] by simp
qed

theorem batches_run_their_items_in_order_witness:
  "\<exists>j. map_of (bt_jobs demo_done) ''batch_1'' = Some j \<and> bj_status j = STATUS_COMPLETED
     \<and> map result_custom (bj_results j) = map (\<lambda>i. JStr (bi_custom i)) (bj_items j)"
proof -
  obtain j where j: "map_of (bt_jobs demo_done) ''batch_1'' = Some j" "bj_status j = STATUS_COMPLETED"
    using demo_done_is(2) by (auto simp: STATUS_COMPLETED_def)
  then show ?thesis using batches_run_their_items_in_order [OF demo_reach(3) demo_str j(1)] by auto
qed

theorem final_batches_stay_and_are_told_once_witness:
  "\<exists>j'. map_of (bt_jobs (snd (cancel_batch demo_batch_cfg (demo_batch_env 4) ''batch_1'' demo_done))) ''batch_1'' = Some j' \<and> bj_status j' = ''completed''"
proof -
  obtain j where j: "map_of (bt_jobs demo_done) ''batch_1'' = Some j" "bj_status j = ''completed''"
    using demo_done_is(2) by auto
  have "bj_status j \<in> TERMINAL_STATUSES" using j(2) by (simp add: status_defs)
  then show ?thesis
    using final_batches_stay_and_are_told_once [OF demo_reach(3) demo_str batch_step.cancel [where e = "demo_batch_env 4" and i = "''batch_1''"]] j
    by fastforce
qed

theorem every_batch_ends_witness:
  "\<exists>j. map_of (bt_jobs (answer_all demo_batch_cfg [(demo_batch_env 3, Crash ''oom'')] (start_next demo_batch_cfg (demo_batch_env 2) demo_submitted))) ''batch_1'' = Some j
     \<and> bj_status j \<in> TERMINAL_STATUSES"
proof -
  have nb: "not_busy demo_batch_cfg (demo_batch_env t)" for t by (simp add: not_busy_def demo_batch_env_def)
  have "bj_items (job_of demo_submitted ''batch_1'') \<noteq> []" using demo_submitted_is(4) by auto
  then show ?thesis
    using every_batch_ends [OF demo_reach(1) demo_str demo_submitted_is(1,2), of "[(demo_batch_env 3, Crash ''oom'')]" "demo_batch_env 2"]
      demo_submitted_is(3,4) nb by simp
qed

theorem erased_batch_comes_again_witness:
  "\<exists>s1. s1 = snd (erase_subject demo_batch_cfg (demo_batch_env 3) (Some ''k1'') None None False demo_running)
     \<and> ''batch_1'' \<notin> set (bt_batches s1)
     \<and> ''batch_1'' \<in> set (bt_batches (restart_store demo_batch_cfg (demo_batch_env 5) (item_done demo_batch_cfg (demo_batch_env 4) (Answer (JStr ''hi'')) s1)))"
proof -
  have c: "bc_durable demo_batch_cfg" "be_db (demo_batch_env 3) \<and> be_db (demo_batch_env 4) \<and> be_db (demo_batch_env 5)"
    by (simp_all add: demo_batch_cfg_def demo_batch_env_def)
  have k: "bg_key demo_governance = Some ''k1''" "clean_subject (Some ''k1'') = Some ''k1''" by code_simp+
  show ?thesis
    using erased_batch_comes_again [OF demo_reach(2) demo_str demo_running_is(1) _ c demo_running_is(3) k refl, of "Answer (JStr ''hi'')"]
      demo_running_is(2) by auto
qed

end
