(* ===== verification/BatchItems.thy ===== *)
theory BatchItems
  imports Batches Admission Deadline
begin

text \<open>
  The items of a batch (\<open>daari/gateway/openai.py\<close>): what of the creating request is kept for them
  (\<open>_governance_from_batch_request\<close>), the request each becomes, and its checks before the router
  sees it (\<open>_execute_batch_chat_body\<close> and the \<open>_enforce_batch_item_\<close> functions).

  A request's \<open>RequestMeta\<close> is the part of \<open>internal_request\<close> that a header, a key or a profile
  writes; messages, model, tools and sampling come from the item's body and are an argument, as is
  what the router answers. An error object keeps its type.
\<close>

section \<open>What a batch remembers\<close>

text \<open>The \<open>RequestMeta\<close> of a request nothing was said about.\<close>

definition default_meta :: "internal_request \<Rightarrow> internal_request" where
  "default_meta q = q\<lparr>q_no_cache := False, q_no_frontier := False, q_tier_override := None, q_tier_cap := None, q_latency_budget := None,
     q_decision_tier := None, q_region_pin := None, q_key_models := None, q_team_models := None, q_session_id := None, q_user := None,
     q_user_agent := None, q_client_id := None, q_confirm_tool := False, q_rerun := False, q_tags := [], q_key_id := None,
     q_team_id := None, q_cache_scope := ''global'', q_key_rules := None, q_team_rules := None\<rparr>"

definition nonempty :: "pystr \<Rightarrow> pystr option" where
  "nonempty s = (if s = '''' then None else Some s)"

text \<open>What the headers of the creating request say.\<close>

definition header_meta :: "(pystr \<times> pystr) list \<Rightarrow> internal_request \<Rightarrow> internal_request" where
  "header_meta headers q =
     (let get = map_of headers; ua = str_or (get ''user-agent'') '''';
          client = (if truthy_str (get ''x-daari-client-id'') then get ''x-daari-client-id'' else sniff_agent_client_id ua);
          latency = (if truthy_str (get ''x-daari-latency-budget'') then py_int (the (get ''x-daari-latency-budget'')) else None)
      in (default_meta q)\<lparr>q_tier_cap := get ''x-daari-tier-cap'', q_latency_budget := latency, q_client_id := client,
           q_user_agent := nonempty (take 200 ua), q_session_id := nonempty (py_strip (str_or (get ''x-daari-session'') '''')),
           q_no_frontier := (py_lower (str_or (get ''x-daari-no-frontier'') '''') = ''true'')\<rparr>)"

definition header_boundary :: "(pystr \<times> pystr) list \<Rightarrow> json" where
  "header_boundary headers = opt_text (nonempty (py_strip (str_or (map_of headers ''x-daari-boundary-profile'') '''')))"

text \<open>\<open>None\<close>: the rules of the key do not validate. \<open>q\<close> only lends its type.\<close>

definition governance_from_batch_request ::
    "rule_reader \<Rightarrow> (pystr \<times> pystr) list \<Rightarrow> auth_claims option \<Rightarrow> project_profile option \<Rightarrow> internal_request \<Rightarrow> batch_governance option" where
  "governance_from_batch_request rules headers claims profile q =
     (case apply_auth_claims_to_meta rules claims None (header_meta headers q) of
        None \<Rightarrow> None
      | Some q1 \<Rightarrow>
          (let m = apply_profile_to_meta profile q1; kind = (case claims of None \<Rightarrow> ''master'' | Some c \<Rightarrow> ac_kind c)
           in Some \<lparr>bg_key = Option.bind claims ac_key_id, bg_client = q_client_id m, bg_tier_cap = q_tier_cap m,
                bg_no_frontier = q_no_frontier m, bg_user = q_user m,
                bg_boundary = boundary_after_claims (header_boundary headers) claims,
                bg_kind = (if kind \<in> {''master'', ''virtual''} then kind else ''master''), bg_latency = q_latency_budget m,
                bg_deadline = parse_deadline_ms (map_of headers ''x-daari-deadline-ms''), bg_session = q_session_id m,
                bg_agent = q_user_agent m, bg_team = q_team_id m, bg_scope = str_or (Some (q_cache_scope m)) ''global''\<rparr>))"

section \<open>The request of an item\<close>

record item_body =
  ib_request :: internal_request             \<comment> \<open>messages, model, tools and sampling of the body\<close>
  ib_model :: "pystr option"                 \<comment> \<open>\<open>body["model"]\<close>\<close>
  ib_user :: "pystr option"
  ib_attrs :: metadata                       \<comment> \<open>where \<open>cost_tier\<close> and \<open>plugins\<close> are looked up\<close>
  ib_extra :: metadata
  ib_estimate :: "(input_field \<times> nat option list) option"

definition item_meta :: "batch_governance option \<Rightarrow> item_body \<Rightarrow> internal_request" where
  "item_meta gov b =
     (let user = nonempty (py_strip (str_or (ib_user b) '''')); q = default_meta (ib_request b) in
      case gov of None \<Rightarrow> q\<lparr>q_user := user\<rparr>
      | Some g \<Rightarrow> q\<lparr>q_tier_cap := bg_tier_cap g, q_latency_budget := bg_latency g, q_client_id := bg_client g, q_user_agent := bg_agent g,
          q_user := (if user \<noteq> None then user else bg_user g), q_session_id := bg_session g, q_no_frontier := bg_no_frontier g,
          q_key_id := bg_key g, q_team_id := bg_team g, q_cache_scope := str_or (Some (bg_scope g)) ''global''\<rparr>)"

section \<open>The checks of an item\<close>

record ('p, 'f) item_cfg =
  ix_lib :: key_lib
  ix_store :: "key_store option"
  ix_catalog :: catalog
  ix_default_model :: pystr
  ix_retired :: "pystr \<Rightarrow> json_object option"
  ix_limits :: "('p, 'f) limiter_cfg option"
  ix_slots :: bool                           \<comment> \<open>the handler passes the rate limiter\<close>
  ix_reads :: env
  ix_clock :: pyfloat
  ix_budget :: budget_env
  ix_ledger_on :: bool
  ix_frontier :: bool                        \<comment> \<open>enabled, with an API key\<close>
  ix_trouble :: pystr                        \<comment> \<open>the text of an exception of the limiter or ledger\<close>

record ('p, 'f) item_world =
  iw_limiter :: "('p, 'f) limiter"
  iw_gate :: gate
  iw_ledger :: ledger

definition batch_lookup_virtual_key :: "('p, 'f) item_cfg \<Rightarrow> batch_governance \<Rightarrow> virtual_key option" where
  "batch_lookup_virtual_key cfg g =
     (case ix_store cfg of None \<Rightarrow> None
      | Some s \<Rightarrow> (if str_or (bg_key g) '''' = '''' then None
          else find (\<lambda>k. Some (vk_id k) = bg_key g) (list_keys (ix_lib cfg) s)))"

text \<open>The key that governs an item, with its team: \<open>None\<close> for a batch of the master or an unknown key.\<close>

definition governing_key :: "('p, 'f) item_cfg \<Rightarrow> batch_governance option \<Rightarrow> (batch_governance \<times> virtual_key \<times> team option) option" where
  "governing_key cfg gov =
     (case gov of None \<Rightarrow> None
      | Some g \<Rightarrow>
          (if bg_kind g \<noteq> ''virtual'' then None
           else (case batch_lookup_virtual_key cfg g of None \<Rightarrow> None
             | Some k \<Rightarrow> Some (g, k,
                 (case ix_store cfg of None \<Rightarrow> None
                  | Some s \<Rightarrow> (if str_or (vk_team k) '''' = '''' then None else get_team (ix_lib cfg) (vk_team k) None s))))))"

definition error_of :: "pystr \<Rightarrow> json_object" where
  "error_of t = [(''type'', JStr t)]"

definition item_model :: "('p, 'f) item_cfg \<Rightarrow> item_body \<Rightarrow> pystr" where
  "item_model cfg b = py_strip (str_or (ib_model b) (ix_default_model cfg))"

definition enforce_model_access ::
    "('p, 'f) item_cfg \<Rightarrow> batch_governance option \<Rightarrow> item_body \<Rightarrow> internal_request \<Rightarrow> json_object + internal_request" where
  "enforce_model_access cfg gov b q =
     (case ix_retired cfg (item_model cfg b) of
        Some e \<Rightarrow> Inl e
      | None \<Rightarrow>
          (case governing_key cfg gov of
             None \<Rightarrow> Inr q
           | Some (g, k, tm) \<Rightarrow>
               (let own = effective_patterns (vk_models k) (vk_groups k) (Some (ix_catalog cfg));
                    team = (case tm of None \<Rightarrow> None | Some t \<Rightarrow> effective_patterns (tm_models t) (tm_groups t) (Some (ix_catalog cfg)));
                    q1 = q\<lparr>q_key_models := own, q_team_models := team\<rparr>
                in if model_permitted (item_model cfg b) own team then Inr q1
                   else Inl (case model_denial_body (item_model cfg b) of
                       JObj kvs \<Rightarrow> (case obj_get kvs ''error'' of JObj e \<Rightarrow> e | _ \<Rightarrow> []) | _ \<Rightarrow> []))))"

text \<open>The request the router will see: the remembered part, a cost tier of the body, the allowlists.\<close>

definition item_request :: "('p, 'f) item_cfg \<Rightarrow> batch_governance option \<Rightarrow> item_body \<Rightarrow> json_object + internal_request" where
  "item_request cfg gov b =
     enforce_model_access cfg gov b (snd (apply_cost_tier (kl_json (ix_lib cfg)) (ib_attrs b) (ib_extra b) (item_meta gov b)))"

text \<open>No family limit and no end user here; \<open>user_tpd\<close> is passed without the user it would count for.\<close>

definition item_rate_request :: "batch_governance \<Rightarrow> virtual_key \<Rightarrow> team option \<Rightarrow> item_body \<Rightarrow> limit_request" where
  "item_rate_request g k tm b =
     (let of_team = (\<lambda>f. Option.bind tm (\<lambda>t. positive (f t)))
      in \<lparr>rq_key_id = str_or (bg_key g) (vk_id k), rq_model = request_model (ib_model b), rq_tokens = estimate_request_tokens (ib_estimate b),
          rq_rpm = positive (vk_rpm k), rq_tpm = positive (vk_tpm k), rq_model_rpm = None, rq_model_tpm = None,
          rq_team_id = (if truthy_str (vk_team k) then vk_team k else bg_team g), rq_team_rpm = of_team tm_rpm, rq_team_tpm = of_team tm_tpm,
          rq_rpd = positive (vk_rpd k), rq_team_rpd = of_team tm_rpd, rq_tpd = positive (vk_tpd k), rq_team_tpd = of_team tm_tpd,
          rq_family = None, rq_family_rpm = None, rq_family_tpm = None, rq_user_id = None, rq_user_rpd = None,
          rq_user_tpd = positive (vk_user_tpd k)\<rparr>)"

text \<open>\<open>None\<close>: the item may go on.\<close>

definition enforce_rates ::
    "('p, 'f) item_cfg \<Rightarrow> batch_governance option \<Rightarrow> item_body \<Rightarrow> ('p, 'f) item_world \<Rightarrow> item_outcome option \<times> ('p, 'f) item_world" where
  "enforce_rates cfg gov b w =
     (case (governing_key cfg gov, ix_limits cfg) of
        (Some (g, k, tm), Some lc) \<Rightarrow>
          (case limiter_check lc (ix_reads cfg) (rd_now (ix_reads cfg (li_calls (iw_limiter w)))) (item_rate_request g k tm b) (iw_limiter w) of
             (None, l) \<Rightarrow> (Some (Crash (ix_trouble cfg)), w\<lparr>iw_limiter := l\<rparr>)
           | (Some d, l) \<Rightarrow> (if d_allowed d then None else Some (Reject (error_of ''rate_limit_error'')), w\<lparr>iw_limiter := l\<rparr>))
      | _ \<Rightarrow> (None, w))"

definition batch_frontier_allowed :: "('p, 'f) item_cfg \<Rightarrow> internal_request \<Rightarrow> bool" where
  "batch_frontier_allowed cfg q =
     (\<not> q_no_frontier q \<and> map upper_char (str_or (q_tier_cap q) '''') \<notin> {''L3'', ''L4'', ''L5''} \<and> ix_frontier cfg)"

definition enforce_budgets ::
    "('p, 'f) item_cfg \<Rightarrow> batch_governance option \<Rightarrow> internal_request \<Rightarrow> ('p, 'f) item_world \<Rightarrow> item_outcome option \<times> ('p, 'f) item_world" where
  "enforce_budgets cfg gov q w =
     (case governing_key cfg gov of
        None \<Rightarrow> (None, w)
      | Some (g, k, tm) \<Rightarrow>
          (if \<not> batch_frontier_allowed cfg q \<or> \<not> ix_ledger_on cfg then (None, w)
           else (let client = str_or (q_client_id q) (str_or (bg_client g) (str_or (bg_key g) ''''));
                     ids = (case (tm, ix_store cfg) of (Some t, Some s) \<Rightarrow> team_client_ids (tm_id t) s | _ \<Rightarrow> [])
                 in case budget_status (ix_budget cfg) k tm client ids (iw_ledger w) of
                      (None, l) \<Rightarrow> (Some (Crash (ix_trouble cfg)), w\<lparr>iw_ledger := l\<rparr>)
                    | (Some ss, l) \<Rightarrow>
                        (if list_ex ws_exceeded ss then (Some (Reject (error_of ''budget_exceeded'')), w\<lparr>iw_ledger := l\<rparr>)
                         else if vk_user_cap k > 0 \<and> truthy_str (q_user q)
                         then ((case user_cap_exceeded (ix_budget cfg) k client (q_user q) l of
                                  None \<Rightarrow> Some (Crash (ix_trouble cfg)) | Some None \<Rightarrow> None
                                | Some (Some x) \<Rightarrow> Some (Reject (error_of ''budget_exceeded''))), w\<lparr>iw_ledger := l\<rparr>)
                         else (None, w\<lparr>iw_ledger := l\<rparr>)))))"

section \<open>Running an item\<close>

datatype item_stage = Settled item_outcome | Parked nat internal_request

text \<open>With the slot, if there is one; \<open>serve\<close> is the router with the rest of the item.\<close>

definition with_item_slot ::
    "('p, 'f) item_cfg \<Rightarrow> (internal_request \<Rightarrow> item_outcome) \<Rightarrow> batch_governance option \<Rightarrow> item_body \<Rightarrow> internal_request \<Rightarrow> bool \<Rightarrow>
     ('p, 'f) item_world \<Rightarrow> item_stage \<times> ('p, 'f) item_world" where
  "with_item_slot cfg serve gov b q acquired w =
     (let back = (\<lambda>w. if acquired then w\<lparr>iw_gate := gate_release (iw_gate w)\<rparr> else w) in
      case enforce_rates cfg gov b w of
        (Some x, w1) \<Rightarrow> (Settled x, back w1)
      | (None, w1) \<Rightarrow>
          (case enforce_budgets cfg gov q w1 of
             (Some x, w2) \<Rightarrow> (Settled x, back w2)
           | (None, w2) \<Rightarrow> (Settled (serve q), back w2)))"

definition execute_batch_chat_body ::
    "('p, 'f) item_cfg \<Rightarrow> (internal_request \<Rightarrow> item_outcome) \<Rightarrow> batch_governance option \<Rightarrow> item_body \<Rightarrow> ('p, 'f) item_world \<Rightarrow>
     item_stage \<times> ('p, 'f) item_world" where
  "execute_batch_chat_body cfg serve gov b w =
     (case item_request cfg gov b of
        Inl e \<Rightarrow> (Settled (Reject e), w)
      | Inr q \<Rightarrow>
          (if \<not> (ix_slots cfg \<and> ga_max (iw_gate w) > 0) then with_item_slot cfg serve gov b q False w
           else (case gate_arrive (ix_clock cfg) (Some ''low'') (iw_gate w) of
               (Waits n, g) \<Rightarrow> (Parked n q, w\<lparr>iw_gate := g\<rparr>)
             | (Decided d, g) \<Rightarrow>
                 (if \<not> d_allowed d then (Settled (Reject (error_of ''rate_limit_error'')), w\<lparr>iw_gate := g\<rparr>)
                  else with_item_slot cfg serve gov b q True (w\<lparr>iw_gate := g\<rparr>)))))"

text \<open>A parked item whose turn has come.\<close>

definition resume_batch_item ::
    "('p, 'f) item_cfg \<Rightarrow> (internal_request \<Rightarrow> item_outcome) \<Rightarrow> batch_governance option \<Rightarrow> item_body \<Rightarrow> nat \<Rightarrow> internal_request \<Rightarrow>
     ('p, 'f) item_world \<Rightarrow> item_stage \<times> ('p, 'f) item_world" where
  "resume_batch_item cfg serve gov b n q w =
     (case gate_resume (ix_clock cfg) n (iw_gate w) of
        None \<Rightarrow> (Parked n q, w) | Some d \<Rightarrow> with_item_slot cfg serve gov b q True w)"

section \<open>The fence is remembered\<close>

lemma item_meta_fields:
  "q_no_frontier (item_meta (Some g) b) = bg_no_frontier g" "q_region_pin (item_meta gov b) = None"
  "q_key_rules (item_meta gov b) = None" "q_team_rules (item_meta gov b) = None"
  by (cases gov; simp add: item_meta_def default_meta_def Let_def)+

lemma access_keeps:
  assumes "enforce_model_access cfg gov b q = Inr q1"
  shows "q_no_frontier q1 = q_no_frontier q" "q_region_pin q1 = q_region_pin q" "q_key_rules q1 = q_key_rules q" "q_team_rules q1 = q_team_rules q"
  using assms by (auto simp: enforce_model_access_def Let_def split: option.splits prod.splits if_splits)

lemma cost_tier_rules:
  "q_key_rules (snd (apply_cost_tier jl attrs extra q)) = q_key_rules q" "q_team_rules (snd (apply_cost_tier jl attrs extra q)) = q_team_rules q"
  by (simp_all add: apply_cost_tier_def split: option.split)

lemma item_request_fields:
  assumes "item_request cfg gov b = Inr q"
  shows "q_no_frontier q = q_no_frontier (item_meta gov b)" "q_region_pin q = None" "q_key_rules q = None" "q_team_rules q = None"
  using access_keeps [OF assms [unfolded item_request_def]] by (simp_all add: item_meta_fields cost_tier_keeps_fences cost_tier_rules)

lemma governance_fence:
  assumes "governance_from_batch_request rules headers (Some c) profile q = Some g" "ac_kind c = ''virtual''" "key_forbids_frontier c"
  shows "bg_no_frontier g"
proof -
  obtain q1 where q1: "apply_auth_claims_to_meta rules (Some c) None (header_meta headers q) = Some q1"
    and g: "bg_no_frontier g = q_no_frontier (apply_profile_to_meta profile q1)"
    using assms(1) by (auto simp: governance_from_batch_request_def Let_def split: option.splits)
  show ?thesis using applied_claims(1) [OF q1 assms(2)] assms(3) by (simp add: g profile_keeps_fences)
qed


section \<open>The pin is not\<close>

text \<open>C36. A batch forgets the region its key is pinned to and the signal rules of key and team. The same request sent
  directly carries the pin; what the router gets for a batch item carries none, whatever key, headers and body.\<close>

theorem batch_items_lose_the_pin:
  assumes "apply_auth_claims_to_meta rules (Some c) cat (header_meta headers q) = Some direct" and "ac_kind c = ''virtual''"
    and "ac_pin c = Some region" and "region \<noteq> ''''"
    and "governance_from_batch_request rules headers (Some c) profile q = Some g" and "item_request cfg (Some g) b = Inr q1"
  shows "q_region_pin direct = Some region \<and> q_region_pin q1 = None \<and> q_key_rules q1 = None \<and> q_team_rules q1 = None"
proof -
  have "q_region_pin (header_meta headers q) = None" by (simp add: header_meta_def default_meta_def Let_def)
  then have "q_region_pin direct = Some region"
    using applied_claims(2) [OF assms(1,2)] assms(3,4) by (simp add: fill_def str_or_def)
  then show ?thesis using item_request_fields [OF assms(6)] by simp
qed

section \<open>Revocation\<close>

lemma find_map_same:
  assumes "\<And>x. x \<in> set xs \<Longrightarrow> P (f x) = P x"
  shows "find P (map f xs) = map_option f (find P xs)"
  using assms by (induction xs) auto

text \<open>Nothing on the way of an item looks at the mark.\<close>

definition mark_revoked :: "bool \<Rightarrow> virtual_key \<Rightarrow> virtual_key" where
  "mark_revoked b k = k\<lparr>vk_revoked := b\<rparr>"

lemma revoked_fields [simp]:
  "vk_id (mark_revoked b k) = vk_id k" "vk_team (mark_revoked b k) = vk_team k" "vk_models (mark_revoked b k) = vk_models k"
  "vk_groups (mark_revoked b k) = vk_groups k" "vk_windows (mark_revoked b k) = vk_windows k" "vk_daily (mark_revoked b k) = vk_daily k"
  "vk_monthly (mark_revoked b k) = vk_monthly k" "vk_meta (mark_revoked b k) = vk_meta k" "vk_user_cap (mark_revoked b k) = vk_user_cap k"
  "vk_rpm (mark_revoked b k) = vk_rpm k" "vk_tpm (mark_revoked b k) = vk_tpm k" "vk_rpd (mark_revoked b k) = vk_rpd k"
  "vk_tpd (mark_revoked b k) = vk_tpd k" "vk_user_tpd (mark_revoked b k) = vk_user_tpd k"
  by (simp_all add: mark_revoked_def)

text \<open>Rewriting inside the branches of a case.\<close>

lemmas eager = option.case_cong prod.case_cong if_cong

lemma boost_blind: "boost_for_scope env (mark_revoked b k) tm scope = boost_for_scope env k tm scope"
  by (cases tm) (simp_all add: boost_for_scope_def)

lemma statuses_blind:
  "usd_status env (mark_revoked b k) tm client ids caps l = usd_status env k tm client ids caps l"
  "request_status env (mark_revoked b k) tm client ids caps l = request_status env k tm client ids caps l"
  by (simp_all only: usd_status_def request_status_def boost_blind)

lemma budget_blind: "budget_status env (mark_revoked b k) tm client ids l = budget_status env k tm client ids l"
proof -
  have "caps_statuses env (mark_revoked b k) tm client ids caps l = caps_statuses env k tm client ids caps l" for caps l
    by (induction caps arbitrary: l) (simp_all add: statuses_blind cong: eager)
  then show ?thesis by (simp add: budget_status_def effective_caps_def cong: eager)
qed

lemma checks_blind:
  assumes c1: "cfg1 = cfg\<lparr>ix_store := Some s1\<rparr>"
    and key: "governing_key cfg (Some g) = Some (g, k, None)" "governing_key cfg1 (Some g) = Some (g, mark_revoked b k, None)"
  shows "item_request cfg1 (Some g) body = item_request cfg (Some g) body"
    "enforce_rates cfg1 (Some g) body w = enforce_rates cfg (Some g) body w"
    "enforce_budgets cfg1 (Some g) q w = enforce_budgets cfg (Some g) q w"
proof -
  have c: "ix_lib cfg1 = ix_lib cfg" "ix_catalog cfg1 = ix_catalog cfg" "ix_default_model cfg1 = ix_default_model cfg" "ix_retired cfg1 = ix_retired cfg"
    "ix_limits cfg1 = ix_limits cfg" "ix_reads cfg1 = ix_reads cfg" "ix_budget cfg1 = ix_budget cfg" "ix_ledger_on cfg1 = ix_ledger_on cfg"
    "ix_frontier cfg1 = ix_frontier cfg" "ix_trouble cfg1 = ix_trouble cfg" by (simp_all add: c1)
  show "item_request cfg1 (Some g) body = item_request cfg (Some g) body"
    by (simp add: item_request_def enforce_model_access_def key c item_model_def Let_def cong: eager)
  have "item_rate_request g (mark_revoked b k) None body = item_rate_request g k None body"
    by (simp add: item_rate_request_def)
  then show "enforce_rates cfg1 (Some g) body w = enforce_rates cfg (Some g) body w"
    by (simp add: enforce_rates_def key c cong: eager)
  have "user_cap_exceeded env (mark_revoked b k) client u l = user_cap_exceeded env k client u l" for env client u l
    by (simp add: user_cap_exceeded_def Let_def cong: eager)
  then show "enforce_budgets cfg1 (Some g) q w = enforce_budgets cfg (Some g) q w"
    by (simp add: enforce_budgets_def key c budget_blind batch_frontier_allowed_def Let_def cong: eager)
qed


lemma find_map_to: "find P (map f xs) = map_option f (find (\<lambda>x. P (f x)) xs)"
  by (induction xs) auto

lemma found: "find P xs = Some x \<Longrightarrow> x \<in> set xs \<and> P x"
  by (auto simp: find_Some_iff)

lemma lookup_after_revoke:
  assumes "ix_store cfg = Some s" and "revoke_key (ix_lib cfg) now kid s = (ok, s1)" and "bg_key g = Some kid" and "kid \<noteq> ''''"
  shows "batch_lookup_virtual_key (cfg\<lparr>ix_store := Some s1\<rparr>) g = None \<and> batch_lookup_virtual_key cfg g = None
    \<or> (\<exists>r b. r \<in> set (ks_keys s) \<and> kr_id r = kid \<and> batch_lookup_virtual_key cfg g = Some (key_of_row (ix_lib cfg) s r)
         \<and> batch_lookup_virtual_key (cfg\<lparr>ix_store := Some s1\<rparr>) g = Some (mark_revoked b (key_of_row (ix_lib cfg) s r)))"
proof (cases "ks_enabled s")
  case False
  then show ?thesis using assms by (simp add: batch_lookup_virtual_key_def list_keys_def revoke_key_def update_active_def)
next
  case True
  let ?lib = "ix_lib cfg" and ?f = "\<lambda>r. if active_row kid r then r\<lparr>kr_revoked := Some (kl_iso (ix_lib cfg) now)\<rparr> else r"
  have s1: "s1 = s\<lparr>ks_keys := map ?f (ks_keys s)\<rparr>" using assms(2) True by (simp add: revoke_key_def update_active_def)
  have teams: "ks_teams s1 = ks_teams s" by (simp add: s1)
  have row: "key_of_row ?lib s1 (?f r) = mark_revoked (kr_revoked (?f r) \<noteq> None) (key_of_row ?lib s r)" for r
    using teams by (simp add: key_of_row_def mark_revoked_def Let_def cong: eager)
  have old: "batch_lookup_virtual_key cfg g = map_option (key_of_row ?lib s) (find (\<lambda>r. kr_id r = kid) (rev (ks_keys s)))"
    using assms True by (simp add: batch_lookup_virtual_key_def list_keys_def str_or_def find_map_to key_of_row_def Let_def)
  have same: "(\<lambda>r. kr_id (?f r) = kid) = (\<lambda>r. kr_id r = kid)" by (rule ext) simp
  have new: "batch_lookup_virtual_key (cfg\<lparr>ix_store := Some s1\<rparr>) g
      = map_option (\<lambda>r. key_of_row ?lib s1 (?f r)) (find (\<lambda>r. kr_id r = kid) (rev (ks_keys s)))"
  proof -
    have "batch_lookup_virtual_key (cfg\<lparr>ix_store := Some s1\<rparr>) g
        = find (\<lambda>k. vk_id k = kid) (map (\<lambda>r. key_of_row ?lib s1 (?f r)) (rev (ks_keys s)))"
      using assms True by (simp add: batch_lookup_virtual_key_def list_keys_def str_or_def s1 rev_map comp_def)
    also have "\<dots> = map_option (\<lambda>r. key_of_row ?lib s1 (?f r)) (find (\<lambda>r. kr_id r = kid) (rev (ks_keys s)))"
      unfolding find_map_to by (simp add: key_of_row_def Let_def same)
    finally show ?thesis .
  qed
  show ?thesis
  proof (cases "find (\<lambda>r. kr_id r = kid) (rev (ks_keys s))")
    case None
    then show ?thesis by (simp add: old new)
  next
    case (Some r)
    have "r \<in> set (ks_keys s)" "kr_id r = kid" using found [OF Some] by simp_all
    then show ?thesis using row [of r] by (auto simp: old new Some)
  qed
qed

lemma master_checks:
  assumes "governing_key cfg (Some g) = None" and "governing_key (cfg\<lparr>ix_store := st\<rparr>) (Some g) = None"
  shows "item_request (cfg\<lparr>ix_store := st\<rparr>) (Some g) body = item_request cfg (Some g) body"
    "enforce_rates (cfg\<lparr>ix_store := st\<rparr>) (Some g) body w = enforce_rates cfg (Some g) body w"
    "enforce_budgets (cfg\<lparr>ix_store := st\<rparr>) (Some g) q w = enforce_budgets cfg (Some g) q w"
  using assms by (simp_all add: item_request_def enforce_model_access_def item_model_def enforce_rates_def enforce_budgets_def cong: eager)

lemma same_checks_same_run:
  assumes "\<And>body. item_request (cfg\<lparr>ix_store := st\<rparr>) (Some g) body = item_request cfg (Some g) body"
    and "\<And>body w. enforce_rates (cfg\<lparr>ix_store := st\<rparr>) (Some g) body w = enforce_rates cfg (Some g) body w"
    and "\<And>q w. enforce_budgets (cfg\<lparr>ix_store := st\<rparr>) (Some g) q w = enforce_budgets cfg (Some g) q w"
  shows "execute_batch_chat_body (cfg\<lparr>ix_store := st\<rparr>) serve (Some g) body w = execute_batch_chat_body cfg serve (Some g) body w"
    "resume_batch_item (cfg\<lparr>ix_store := st\<rparr>) serve (Some g) body n q w = resume_batch_item cfg serve (Some g) body n q w"
proof -
  have slot: "with_item_slot (cfg\<lparr>ix_store := st\<rparr>) serve (Some g) body q a w = with_item_slot cfg serve (Some g) body q a w" for q a w
    by (simp add: with_item_slot_def assms(2,3) Let_def cong: eager)
  show "execute_batch_chat_body (cfg\<lparr>ix_store := st\<rparr>) serve (Some g) body w = execute_batch_chat_body cfg serve (Some g) body w"
    by (simp add: execute_batch_chat_body_def assms(1) slot cong: sum.case_cong arrival.case_cong eager)
  show "resume_batch_item (cfg\<lparr>ix_store := st\<rparr>) serve (Some g) body n q w = resume_batch_item cfg serve (Some g) body n q w"
    by (simp add: resume_batch_item_def slot cong: eager)
qed

lemma governed_alike:
  assumes "ix_store cfg = Some s" and "revoke_key (ix_lib cfg) now kid s = (ok, s1)" and "bg_key g = Some kid" and "kid \<noteq> ''''"
    and alone: "\<And>r. r \<in> set (ks_keys s) \<Longrightarrow> kr_id r = kid \<Longrightarrow> kr_team r = None"
  obtains "governing_key cfg (Some g) = None" "governing_key (cfg\<lparr>ix_store := Some s1\<rparr>) (Some g) = None"
  | k b where "governing_key cfg (Some g) = Some (g, k, None)" "governing_key (cfg\<lparr>ix_store := Some s1\<rparr>) (Some g) = Some (g, mark_revoked b k, None)"
proof (cases "bg_kind g = ''virtual''")
  case False
  then show ?thesis by (intro that(1)) (simp_all add: governing_key_def)
next
  case True
  show ?thesis using lookup_after_revoke [OF assms(1-4)]
  proof (elim disjE exE conjE)
    assume "batch_lookup_virtual_key cfg g = None" "batch_lookup_virtual_key (cfg\<lparr>ix_store := Some s1\<rparr>) g = None"
    then show ?thesis using True by (intro that(1)) (simp_all add: governing_key_def)
  next
    fix r b
    assume r: "r \<in> set (ks_keys s)" "kr_id r = kid"
      and l: "batch_lookup_virtual_key cfg g = Some (key_of_row (ix_lib cfg) s r)"
        "batch_lookup_virtual_key (cfg\<lparr>ix_store := Some s1\<rparr>) g = Some (mark_revoked b (key_of_row (ix_lib cfg) s r))"
    have "vk_team (key_of_row (ix_lib cfg) s r) = None" using alone [OF r] by (simp add: key_of_row_def Let_def)
    then show ?thesis using True l assms(1)
      by (intro that(2) [of "key_of_row (ix_lib cfg) s r" b]) (simp_all add: governing_key_def str_or_def)
  qed
qed

text \<open>C37. Revoking a key does not stop its batches. Every item of a batch that is still queued, or parked in front of the
  in-flight gate, gets from the revoked key the same decision, the same effects and the same answer as before: the
  lookup of the key lists revoked rows too, and no check reads the mark. (Keys without a team: with one, the spend of
  the revoked key also leaves the team's.)\<close>

theorem revoked_keys_batches_go_on:
  assumes "ix_store cfg = Some s" and "revoke_key (ix_lib cfg) now kid s = (ok, s1)" and "bg_key g = Some kid" and "kid \<noteq> ''''"
    and "\<And>r. r \<in> set (ks_keys s) \<Longrightarrow> kr_id r = kid \<Longrightarrow> kr_team r = None"
  shows "execute_batch_chat_body (cfg\<lparr>ix_store := Some s1\<rparr>) serve (Some g) body w = execute_batch_chat_body cfg serve (Some g) body w
    \<and> resume_batch_item (cfg\<lparr>ix_store := Some s1\<rparr>) serve (Some g) body n q w = resume_batch_item cfg serve (Some g) body n q w"
  using assms
proof (rule governed_alike)
  assume "governing_key cfg (Some g) = None" "governing_key (cfg\<lparr>ix_store := Some s1\<rparr>) (Some g) = None"
  note none = this
  show ?thesis by (intro conjI same_checks_same_run master_checks none)
next
  fix k b
  assume "governing_key cfg (Some g) = Some (g, k, None)" "governing_key (cfg\<lparr>ix_store := Some s1\<rparr>) (Some g) = Some (g, mark_revoked b k, None)"
  note key = this
  show ?thesis by (intro conjI same_checks_same_run checks_blind [OF refl key])
qed

section \<open>A concrete batch\<close>

definition demo_item_cfg :: "(unit, sqlite_counters) item_cfg" where
  "demo_item_cfg = \<lparr>ix_lib = demo_keys_lib, ix_store = Some (demo_store None), ix_catalog = [], ix_default_model = ''daari'',
     ix_retired = (\<lambda>_. None), ix_limits = None, ix_slots = True, ix_reads = still_env, ix_clock = 0,
     ix_budget = demo_budget_env 0, ix_ledger_on = False, ix_frontier = True, ix_trouble = ''''\<rparr>"

definition demo_body :: item_body where
  "demo_body = \<lparr>ib_request = demo_request [plain_message ''user'' ''hello''], ib_model = Some ''small'', ib_user = None, ib_attrs = [],
     ib_extra = [], ib_estimate = None\<rparr>"

definition pinned_claims :: auth_claims where
  "pinned_claims = fenced_key_claims\<lparr>ac_pin := Some ''eu''\<rparr>"

lemma pinned_key: "ac_kind pinned_claims = ''virtual''" "key_forbids_frontier pinned_claims" "ac_pin pinned_claims = Some ''eu''"
  using fenced_key(1,2) by (simp_all add: pinned_claims_def key_forbids_frontier_def)

lemma pinned_rules: "key_rules_of rules pinned_claims = Some []"
  by (simp add: pinned_claims_def fenced_key_claims_def virtual_claims_def claims_of_kind_def key_rules_of_def Let_def
      signal_overrides_from_meta_def obj_get_def)

lemma rules_apply: "\<exists>q1. apply_auth_claims_to_meta rules (Some pinned_claims) cat q = Some q1"
  by (simp add: apply_auth_claims_to_meta_def pinned_rules split: prod.split)

lemma governance_is_made: "\<exists>g. governance_from_batch_request rules headers (Some pinned_claims) profile q = Some g"
proof -
  obtain q1 where "apply_auth_claims_to_meta rules (Some pinned_claims) None (header_meta headers q) = Some q1" using rules_apply by blast
  then show ?thesis by (simp add: governance_from_batch_request_def Let_def)
qed

lemma demo_governed:
  "governing_key demo_item_cfg (Some g) = None \<or> (\<exists>k. governing_key demo_item_cfg (Some g) = Some (g, k, None) \<and> vk_models k = None \<and> vk_groups k = None)"
proof -
  have "list_keys demo_keys_lib (demo_store None) = [key_of_row demo_keys_lib (demo_store None) (demo_row None)]"
    by (simp add: list_keys_def demo_store_def empty_store_def)
  moreover have "vk_team (key_of_row demo_keys_lib (demo_store None) (demo_row None)) = None"
    "vk_models (key_of_row demo_keys_lib (demo_store None) (demo_row None)) = None"
    "vk_groups (key_of_row demo_keys_lib (demo_store None) (demo_row None)) = None"
    by (simp_all add: key_of_row_def Let_def demo_row_def row_of_spec_def demo_spec_def no_spec_def coerce_names_def)
  ultimately show ?thesis
    by (simp add: governing_key_def batch_lookup_virtual_key_def demo_item_cfg_def str_or_def)
qed

lemma demo_item: "\<exists>q1. item_request demo_item_cfg (Some g) demo_body = Inr q1"
proof -
  have "ix_retired demo_item_cfg = (\<lambda>_. None)" by (simp add: demo_item_cfg_def)
  then show ?thesis using demo_governed [of g]
    by (elim disjE exE conjE) (simp_all add: item_request_def enforce_model_access_def effective_patterns_def model_permitted_def Let_def)
qed


theorem batch_items_lose_the_pin_witness:
  "\<exists>direct g q1. apply_auth_claims_to_meta (\<lambda>_. Some []) (Some pinned_claims) None (header_meta [] (ib_request demo_body)) = Some direct
     \<and> governance_from_batch_request (\<lambda>_. Some []) [] (Some pinned_claims) None (ib_request demo_body) = Some g
     \<and> item_request demo_item_cfg (Some g) demo_body = Inr q1 \<and> q_region_pin direct = Some ''eu'' \<and> q_region_pin q1 = None"
proof -
  obtain direct where d: "apply_auth_claims_to_meta (\<lambda>_. Some []) (Some pinned_claims) None (header_meta [] (ib_request demo_body)) = Some direct"
    using rules_apply by blast
  obtain g where g: "governance_from_batch_request (\<lambda>_. Some []) [] (Some pinned_claims) None (ib_request demo_body) = Some g"
    using governance_is_made by blast
  obtain q1 where q1: "item_request demo_item_cfg (Some g) demo_body = Inr q1" using demo_item by blast
  show ?thesis using batch_items_lose_the_pin [OF d pinned_key(1,3) _ g q1] d g q1 by auto
qed

theorem revoked_keys_batches_go_on_witness:
  "\<exists>g s1. governance_from_batch_request (\<lambda>_. Some []) [] (Some pinned_claims) None (ib_request demo_body) = Some g
     \<and> revoke_key demo_keys_lib 1 ''k1'' (demo_store None) = (True, s1)
     \<and> execute_batch_chat_body (demo_item_cfg\<lparr>ix_store := Some s1\<rparr>) (\<lambda>_. Answer JNull) (Some g) demo_body \<lparr>iw_limiter = new_limiter () [], iw_gate = demo_gate, iw_ledger = no_usage\<rparr>
       = execute_batch_chat_body demo_item_cfg (\<lambda>_. Answer JNull) (Some g) demo_body \<lparr>iw_limiter = new_limiter () [], iw_gate = demo_gate, iw_ledger = no_usage\<rparr>"
proof -
  obtain g where g: "governance_from_batch_request (\<lambda>_. Some []) [] (Some pinned_claims) None (ib_request demo_body) = Some g"
    using governance_is_made by blast
  then have key: "bg_key g = Some ''k1''"
    by (auto simp: governance_from_batch_request_def Let_def pinned_claims_def fenced_key_claims_def virtual_claims_def
        claims_of_kind_def key_of_row_def demo_row_fields split: option.splits)
  obtain s1 where r: "revoke_key (ix_lib demo_item_cfg) 1 ''k1'' (demo_store None) = (True, s1)"
    by (simp add: demo_item_cfg_def revoke_key_def update_active_def active_row_def demo_store_def empty_store_def demo_row_fields)
  have "ix_store demo_item_cfg = Some (demo_store None)" "ix_lib demo_item_cfg = demo_keys_lib" by (simp_all add: demo_item_cfg_def)
  then show ?thesis using revoked_keys_batches_go_on [OF _ r key, of "\<lambda>_. Answer JNull"] g r
    by (simp add: demo_store_def empty_store_def demo_row_fields)
qed


end
