(* ===== verification/AuditChain.thy ===== *)
theory AuditChain
  imports Messages
begin

text \<open>
  The audit log of administrative actions (\<open>daari/enterprise/audit.py\<close>): a table whose rows are
  chained by hashes, its verification, retention, queries, and the flood control of invalid keys.

  The digest is \<open>sha256(text.encode()).hexdigest()\<close>; nothing is assumed of it but, where stated, that
  it is not empty. The text that is hashed is written out: the compact JSON of the chained fields.
  A connection of \<open>sqlite3\<close> opens a transaction before a statement that writes, not before a SELECT, so
  the two reads and the insertion of \<open>record\<close> are three steps between which other writers may act.
\<close>

section \<open>JSON of a row\<close>

text \<open>\<open>json.dumps\<close> of a string with \<open>ensure_ascii=False\<close>.\<close>

definition hex_digit :: "nat \<Rightarrow> char" where
  "hex_digit n = (if n < 10 then char_of (48 + n) else char_of (87 + n))"

definition json_escape :: "char \<Rightarrow> pystr" where
  "json_escape c = (let n = of_char c :: nat in
     if n = 34 then [CHR 0x5C, CHR 0x22] else if n = 92 then [CHR 0x5C, CHR 0x5C]
     else if n = 10 then [CHR 0x5C, CHR ''n''] else if n = 13 then [CHR 0x5C, CHR ''r''] else if n = 9 then [CHR 0x5C, CHR ''t'']
     else if n = 12 then [CHR 0x5C, CHR ''f''] else if n = 8 then [CHR 0x5C, CHR ''b'']
     else if n < 32 then CHR 0x5C # ''u00'' @ [hex_digit (n div 16), hex_digit (n mod 16)]
     else [c])"

definition json_text :: "pystr \<Rightarrow> pystr" where
  "json_text s = CHR 0x22 # concat (map json_escape s) @ [CHR 0x22]"

fun json_members :: "(pystr \<times> pystr) list \<Rightarrow> pystr" where
  "json_members [] = ''''"
| "json_members [(k, v)] = json_text k @ '':'' @ v"
| "json_members ((k, v) # m # ms) = json_text k @ '':'' @ v @ '','' @ json_members (m # ms)"

record audit_row =
  ar_seq :: int
  ar_ts :: pystr
  ar_actor :: pystr
  ar_role :: pystr
  ar_action :: pystr
  ar_detail :: pystr
  ar_prev :: "pystr option"
  ar_hash :: "pystr option"

definition row_payload :: "int \<Rightarrow> pystr \<Rightarrow> pystr \<Rightarrow> pystr \<Rightarrow> pystr \<Rightarrow> pystr \<Rightarrow> pystr \<Rightarrow> pystr" where
  "row_payload seq ts actor role action detail prev =
     ''{'' @ json_members
       [(''action'', json_text action), (''actor'', json_text actor), (''detail'', json_text detail), (''prev_hash'', json_text prev),
        (''role'', json_text role), (''seq'', str_of_int seq), (''ts'', json_text ts)] @ ''}''"

definition compute_row_hash ::
    "(pystr \<Rightarrow> pystr) \<Rightarrow> int \<Rightarrow> pystr \<Rightarrow> pystr \<Rightarrow> pystr \<Rightarrow> pystr \<Rightarrow> pystr \<Rightarrow> pystr \<Rightarrow> pystr" where
  "compute_row_hash digest seq ts actor role action detail prev = digest (row_payload seq ts actor role action detail prev)"

subsection \<open>The text determines the row\<close>

definition hex_value :: "char \<Rightarrow> nat" where
  "hex_value c = (let n = of_char c in if n < 58 then n - 48 else n - 87)"

lemma hex_round_trip: "n < 16 \<Longrightarrow> hex_value (hex_digit n) = n"
  by (simp add: hex_value_def hex_digit_def Let_def of_char_of)

text \<open>Reading a JSON string from after its opening quote; used only in proofs.\<close>

fun unescape :: "pystr \<Rightarrow> (pystr \<times> pystr) option" where
  "unescape [] = None"
| "unescape (c # s) =
     (if c = CHR 0x22 then Some ([], s)
      else if c \<noteq> CHR 0x5C then map_option (\<lambda>(a, b). (c # a, b)) (unescape s)
      else (case s of [] \<Rightarrow> None
        | e # s1 \<Rightarrow>
            (if e = CHR ''u'' then (case s1 of z1 # z2 # x # y # s2 \<Rightarrow>
                   map_option (\<lambda>(a, b). (char_of (16 * hex_value x + hex_value y) # a, b)) (unescape s2) | _ \<Rightarrow> None)
             else map_option (\<lambda>(a, b). ((if e = CHR ''n'' then CHR 0x0A else if e = CHR ''r'' then CHR 0x0D
                   else if e = CHR ''t'' then CHR 0x09 else if e = CHR ''f'' then CHR 0x0C else if e = CHR ''b'' then CHR 0x08 else e) # a, b))
                 (unescape s1))))"

declare unescape.simps [simp del]

lemma char_code: "(of_char c = (of_char d :: nat)) = (c = d)"
  by (rule of_char_eq_iff)

lemma escaped_codes:
  "(of_char c = (34 :: nat)) = (c = CHR 0x22)" "(of_char c = (92 :: nat)) = (c = CHR 0x5C)" "(of_char c = (10 :: nat)) = (c = CHR 0x0A)"
  "(of_char c = (13 :: nat)) = (c = CHR 0x0D)" "(of_char c = (9 :: nat)) = (c = CHR 0x09)" "(of_char c = (12 :: nat)) = (c = CHR 0x0C)"
  "(of_char c = (8 :: nat)) = (c = CHR 0x08)"
  using char_code [of c "CHR 0x22"] char_code [of c "CHR 0x5C"] char_code [of c "CHR 0x0A"] char_code [of c "CHR 0x0D"]
    char_code [of c "CHR 0x09"] char_code [of c "CHR 0x0C"] char_code [of c "CHR 0x08"] by simp_all

lemma unescape_step: "unescape (json_escape c @ s) = map_option (\<lambda>(a, b). (c # a, b)) (unescape s)"
proof (cases "c \<in> {CHR 0x22, CHR 0x5C, CHR 0x0A, CHR 0x0D, CHR 0x09, CHR 0x0C, CHR 0x08}")
  case True
  then show ?thesis by (elim insertE emptyE) (simp_all add: json_escape_def unescape.simps)
next
  case plain: False
  let ?n = "of_char c :: nat"
  show ?thesis
  proof (cases "?n < 32")
    case True
    have "?n div 16 < 16" "?n mod 16 < 16" using True by simp_all
    then have "16 * hex_value (hex_digit (?n div 16)) + hex_value (hex_digit (?n mod 16)) = ?n" by (simp add: hex_round_trip)
    then have "char_of (16 * hex_value (hex_digit (?n div 16)) + hex_value (hex_digit (?n mod 16))) = c" by simp
    then show ?thesis using True plain by (simp add: json_escape_def escaped_codes unescape.simps Let_def)
  next
    case False
    then show ?thesis using plain by (simp add: json_escape_def escaped_codes unescape.simps Let_def)
  qed
qed

lemma unescape_text: "unescape (concat (map json_escape s) @ CHR 0x22 # r) = Some (s, r)"
proof (induction s)
  case Nil
  show ?case by (simp add: unescape.simps)
next
  case (Cons c s)
  then show ?case by (simp add: unescape_step)
qed

lemma json_text_split: "(json_text s @ r = json_text t @ r') = (s = t \<and> r = r')"
proof
  assume "json_text s @ r = json_text t @ r'"
  then have "concat (map json_escape s) @ CHR 0x22 # r = concat (map json_escape t) @ CHR 0x22 # r'" by (simp add: json_text_def)
  from arg_cong [OF this, of unescape] show "s = t \<and> r = r'" by (simp only: unescape_text option.inject prod.inject)
qed simp

lemma str_of_int_plain: "c \<in> set (str_of_int i) \<Longrightarrow> is_digit c \<or> c = CHR ''-''"
proof -
  have "is_digit d" if "d \<in> set (digits_of n)" for d n
    using digits_of_all_digits [of n] that by (simp add: list_all_iff)
  then show "c \<in> set (str_of_int i) \<Longrightarrow> is_digit c \<or> c = CHR ''-''" by (auto simp: str_of_int_def split: if_splits)
qed

lemma split_at:
  assumes "c \<notin> set a" "c \<notin> set b" "a @ c # r = b @ c # r'"
  shows "a = b \<and> r = r'"
proof -
  have "takeWhile (\<lambda>x. x \<noteq> c) (d @ c # e) = d" if "c \<notin> set d" for d e
    using that by (subst takeWhile_append2) auto
  then have "a = b" using assms by metis
  then show ?thesis using assms(3) by simp
qed

lemma int_text_split: "(str_of_int i @ CHR '','' # r = str_of_int j @ CHR '','' # r') = (i = j \<and> r = r')"
proof
  assume e: "str_of_int i @ CHR '','' # r = str_of_int j @ CHR '','' # r'"
  have plain: "CHR '','' \<notin> set (str_of_int k)" for k
    using str_of_int_plain [of "CHR '',''" k] by (auto simp: is_digit_def)
  from split_at [OF plain plain e] have s: "str_of_int i = str_of_int j" and r: "r = r'" by (rule conjunct1, rule conjunct2)
  from arg_cong [OF s, of py_int] have "i = j" by (simp only: py_int_str_of_int option.inject)
  with r show "i = j \<and> r = r'" by (rule conjI [rotated])
qed simp

lemma json_text_inj: "(json_text s = json_text t) = (s = t)"
  using json_text_split [of s "[]" t "[]"] by simp

lemma row_payload_inj:
  "(row_payload seq ts actor role action detail prev = row_payload seq' ts' actor' role' action' detail' prev')
     = (seq = seq' \<and> ts = ts' \<and> actor = actor' \<and> role = role' \<and> action = action' \<and> detail = detail' \<and> prev = prev')"
  by (auto simp: row_payload_def json_text_split int_text_split json_text_inj)

section \<open>The table\<close>

text \<open>\<open>"0" * 64\<close>.\<close>

definition GENESIS_HASH :: pystr where "GENESIS_HASH = replicate 64 (CHR ''0'')"

record audit_log =
  al_enabled :: bool
  al_rows :: "audit_row list"              \<comment> \<open>in the order of \<open>seq\<close>, the primary key\<close>

record audit_lib =
  ax_digest :: "pystr \<Rightarrow> pystr"
  ax_dumps :: "json \<Rightarrow> pystr"

record audit_entry =
  ae_actor :: pystr
  ae_role :: pystr
  ae_action :: pystr
  ae_detail :: json

definition hashed :: "audit_row \<Rightarrow> bool" where
  "hashed r = truthy_str (ar_hash r)"

definition hash_of_row :: "(pystr \<Rightarrow> pystr) \<Rightarrow> audit_row \<Rightarrow> pystr \<Rightarrow> pystr" where
  "hash_of_row digest r prev = compute_row_hash digest (ar_seq r) (ar_ts r) (ar_actor r) (ar_role r) (ar_action r) (ar_detail r) prev"

text \<open>The two reads of \<open>record\<close>: the newest hash that is not NULL, and the next number.\<close>

definition audit_tip :: "audit_log \<Rightarrow> pystr" where
  "audit_tip l = (case filter (\<lambda>r. ar_hash r \<noteq> None) (rev (al_rows l)) of [] \<Rightarrow> GENESIS_HASH
     | r # rs \<Rightarrow> (if hashed r then the (ar_hash r) else GENESIS_HASH))"

definition next_seq :: "audit_log \<Rightarrow> int" where
  "next_seq l = (case rev (al_rows l) of [] \<Rightarrow> 1 | r # rs \<Rightarrow> ar_seq r + 1)"

definition new_row :: "audit_lib \<Rightarrow> pystr \<Rightarrow> audit_entry \<Rightarrow> pystr \<Rightarrow> int \<Rightarrow> audit_row" where
  "new_row lib ts e prev seq =
     (let d = ax_dumps lib (json_or (ae_detail e) (JObj [])) in
      \<lparr>ar_seq = seq, ar_ts = ts, ar_actor = ae_actor e, ar_role = ae_role e, ar_action = ae_action e, ar_detail = d, ar_prev = Some prev,
       ar_hash = Some (compute_row_hash (ax_digest lib) seq ts (ae_actor e) (ae_role e) (ae_action e) d prev)\<rparr>)"

text \<open>The INSERT: an IntegrityError when the number is taken; \<open>record\<close> swallows it.\<close>

definition insert_row :: "audit_row \<Rightarrow> audit_log \<Rightarrow> bool \<times> audit_log" where
  "insert_row r l =
     (if ar_seq r \<in> ar_seq ` set (al_rows l) then (False, l) else (True, l\<lparr>al_rows := insort_key ar_seq r (al_rows l)\<rparr>))"

text \<open>\<open>record\<close>, when nobody else writes between its statements. \<open>works\<close> is off when one of them, or the JSON text of
  the detail, raises: the exception is swallowed and the row is lost.\<close>

definition audit_record :: "audit_lib \<Rightarrow> bool \<Rightarrow> pystr \<Rightarrow> audit_entry \<Rightarrow> audit_log \<Rightarrow> audit_log" where
  "audit_record lib works ts e l =
     (if \<not> al_enabled l \<or> \<not> works then l else snd (insert_row (new_row lib ts e (audit_tip l) (next_seq l)) l))"

section \<open>Verification\<close>

record verify_result =
  vr_ok :: bool
  vr_total :: nat
  vr_legacy :: nat
  vr_chained :: nat
  vr_broken :: "int option"
  vr_reason :: "pystr option"

definition broken_at :: "nat \<Rightarrow> nat \<Rightarrow> nat \<Rightarrow> int \<Rightarrow> pystr \<Rightarrow> verify_result" where
  "broken_at tot legacy chained seq reason =
     \<lparr>vr_ok = False, vr_total = tot, vr_legacy = legacy, vr_chained = chained, vr_broken = Some seq, vr_reason = Some reason\<rparr>"

fun verify_from :: "(pystr \<Rightarrow> pystr) \<Rightarrow> nat \<Rightarrow> nat \<Rightarrow> nat \<Rightarrow> pystr \<Rightarrow> int option \<Rightarrow> audit_row list \<Rightarrow> verify_result" where
  "verify_from digest tot legacy chained expected last_seq [] =
     \<lparr>vr_ok = True, vr_total = tot, vr_legacy = legacy, vr_chained = chained, vr_broken = None, vr_reason = None\<rparr>"
| "verify_from digest tot legacy chained expected last_seq (r # rs) =
     (if (case last_seq of None \<Rightarrow> False | Some n \<Rightarrow> ar_seq r \<noteq> n + 1) then broken_at tot legacy chained (ar_seq r) ''seq_gap''
      else if \<not> hashed r then verify_from digest tot (legacy + 1) chained expected (Some (ar_seq r)) rs
      else if ar_prev r \<noteq> Some expected then broken_at tot legacy chained (ar_seq r) ''hash_mismatch''
      else if hash_of_row digest r (str_or (ar_prev r) GENESIS_HASH) \<noteq> the (ar_hash r) then broken_at tot legacy chained (ar_seq r) ''hash_mismatch''
      else verify_from digest tot legacy (chained + 1) (the (ar_hash r)) (Some (ar_seq r)) rs)"

definition not_verified :: "pystr \<Rightarrow> verify_result" where
  "not_verified reason = \<lparr>vr_ok = False, vr_total = 0, vr_legacy = 0, vr_chained = 0, vr_broken = None, vr_reason = Some reason\<rparr>"

text \<open>\<open>readable\<close> says whether the SELECT works.\<close>

definition verify_log :: "(pystr \<Rightarrow> pystr) \<Rightarrow> bool \<Rightarrow> audit_log \<Rightarrow> verify_result" where
  "verify_log digest readable l =
     (if \<not> al_enabled l then not_verified ''disabled'' else if \<not> readable then not_verified ''read_failed''
      else verify_from digest (length (al_rows l)) 0 0 GENESIS_HASH None (al_rows l))"

section \<open>Retention\<close>

fun reanchor :: "(pystr \<Rightarrow> pystr) \<Rightarrow> pystr \<Rightarrow> audit_row list \<Rightarrow> audit_row list" where
  "reanchor digest prev [] = []"
| "reanchor digest prev (r # rs) =
     (if ar_hash r = None then r # reanchor digest prev rs
      else (let h = hash_of_row digest r prev in r\<lparr>ar_prev := Some prev, ar_hash := Some h\<rparr> # reanchor digest h rs))"

definition prune_before :: "audit_lib \<Rightarrow> bool \<Rightarrow> pystr \<Rightarrow> bool \<Rightarrow> audit_log \<Rightarrow> nat \<times> audit_log" where
  "prune_before lib works cutoff dry_run l =
     (if \<not> al_enabled l \<or> \<not> works then (0, l)
      else (let n = length (filter (\<lambda>r. str_less (ar_ts r) cutoff) (al_rows l)) in
        (n, if dry_run \<or> n = 0 then l
            else l\<lparr>al_rows := reanchor (ax_digest lib) GENESIS_HASH (filter (\<lambda>r. \<not> str_less (ar_ts r) cutoff) (al_rows l))\<rparr>)))"

section \<open>What verification accepts\<close>

text \<open>The specification: numbers without gap, and every hashed row continues the chain.\<close>

fun chain_ok :: "(pystr \<Rightarrow> pystr) \<Rightarrow> pystr \<Rightarrow> int option \<Rightarrow> audit_row list \<Rightarrow> bool" where
  "chain_ok digest e last_seq [] = True"
| "chain_ok digest e last_seq (r # rs) =
     ((case last_seq of None \<Rightarrow> True | Some n \<Rightarrow> ar_seq r = n + 1)
      \<and> (if hashed r
         then ar_prev r = Some e \<and> ar_hash r = Some (hash_of_row digest r (str_or (Some e) GENESIS_HASH)) \<and> chain_ok digest (the (ar_hash r)) (Some (ar_seq r)) rs
         else chain_ok digest e (Some (ar_seq r)) rs))"

lemma hashed_some: "hashed r \<Longrightarrow> ar_hash r = Some (the (ar_hash r))"
  by (cases "ar_hash r") (auto simp: hashed_def truthy_str_def)

lemma verify_from_ok: "vr_ok (verify_from digest tot l c e last_seq rows) = chain_ok digest e last_seq rows"
proof (induction rows arbitrary: l c e last_seq)
  case (Cons r rs)
  show ?case
    using hashed_some [of r] Cons.IH by (auto simp: broken_at_def split: option.split)
qed simp

lemma verify_from_counts:
  "chain_ok digest e last_seq rows \<Longrightarrow>
     verify_from digest tot l c e last_seq rows
       = \<lparr>vr_ok = True, vr_total = tot, vr_legacy = l + length (filter (\<lambda>r. \<not> hashed r) rows), vr_chained = c + length (filter hashed rows),
          vr_broken = None, vr_reason = None\<rparr>"
proof (induction rows arbitrary: l c e last_seq)
  case (Cons r rs)
  then show ?case using hashed_some [of r] by (auto split: option.splits)
qed simp

fun tip_after :: "pystr \<Rightarrow> audit_row list \<Rightarrow> pystr" where
  "tip_after e [] = e"
| "tip_after e (r # rs) = tip_after (if hashed r then the (ar_hash r) else e) rs"

fun last_after :: "int option \<Rightarrow> audit_row list \<Rightarrow> int option" where
  "last_after n [] = n"
| "last_after n (r # rs) = last_after (Some (ar_seq r)) rs"

lemma chain_ok_append: "chain_ok digest e n (xs @ ys) = (chain_ok digest e n xs \<and> chain_ok digest (tip_after e xs) (last_after n xs) ys)"
  by (induction xs arbitrary: e n) auto

lemma tip_after_append: "tip_after e (xs @ ys) = tip_after (tip_after e xs) ys"
  by (induction xs arbitrary: e) auto

lemma last_after_append: "last_after n (xs @ ys) = last_after (last_after n xs) ys"
  by (induction xs arbitrary: n) auto

lemma last_after_snoc: "last_after n (xs @ [r]) = Some (ar_seq r)"
  by (simp add: last_after_append)

lemma last_after_last: "rows \<noteq> [] \<Longrightarrow> last_after n rows = Some (ar_seq (last rows))"
  using last_after_snoc [of n "butlast rows" "last rows"] by simp

lemma chain_seqs: "chain_ok digest e (Some n) rows \<Longrightarrow> map ar_seq rows = [n + 1..n + int (length rows)]"
proof (induction rows arbitrary: e n)
  case (Cons r rs)
  have s: "ar_seq r = n + 1" using Cons.prems by simp
  obtain e' where "chain_ok digest e' (Some (n + 1)) rs" using Cons.prems s by (auto split: if_splits)
  from Cons.IH [OF this] have "map ar_seq (r # rs) = (n + 1) # [n + 1 + 1..n + 1 + int (length rs)]" by (simp add: s)
  also have "\<dots> = [n + 1..n + 1 + int (length rs)]" by (subst (2) upto_rec1) simp_all
  finally show ?case by (simp add: algebra_simps)
qed simp

lemma seqs_below:
  assumes "chain_ok digest e n rows" and "last_after n rows = Some m" and "r \<in> set rows"
  shows "ar_seq r \<le> m"
proof -
  obtain x xs where rows: "rows = x # xs" using assms(3) by (cases rows) auto
  obtain e' where "chain_ok digest e' (Some (ar_seq x)) xs" using assms(1) rows by (auto split: if_splits)
  from chain_seqs [OF this] have seqs: "map ar_seq rows = [ar_seq x..ar_seq x + int (length xs)]" by (simp add: rows upto_rec1)
  have "m = ar_seq (last rows)" using assms(2) last_after_last [of rows n] rows by simp
  also have "\<dots> = last (map ar_seq rows)" by (simp add: rows last_map)
  also have "\<dots> = ar_seq x + int (length xs)" unfolding seqs by (subst upto_rec2) auto
  finally have "m = ar_seq x + int (length xs)" .
  moreover have "ar_seq r \<in> set (map ar_seq rows)" using assms(3) by simp
  ultimately show ?thesis unfolding seqs by simp
qed

text \<open>The hashes that are there are not empty.\<close>

definition real_hashes :: "audit_row list \<Rightarrow> bool" where
  "real_hashes rows = (\<forall>r \<in> set rows. ar_hash r \<noteq> Some '''')"

lemma real_hashed: "real_hashes rows \<Longrightarrow> r \<in> set rows \<Longrightarrow> hashed r = (ar_hash r \<noteq> None)"
  by (auto simp: real_hashes_def hashed_def truthy_str_def split: option.split)

lemma audit_tip_after: "real_hashes (al_rows l) \<Longrightarrow> audit_tip l = tip_after GENESIS_HASH (al_rows l)"
proof -
  have "real_hashes rows \<Longrightarrow> (case filter (\<lambda>r. ar_hash r \<noteq> None) (rev rows) of [] \<Rightarrow> e
     | r # rs \<Rightarrow> (if hashed r then the (ar_hash r) else e)) = tip_after e rows" for rows e
  proof (induction rows rule: rev_induct)
    case (snoc r rs)
    then show ?case
      using real_hashed [OF snoc.prems, of r] by (auto simp: tip_after_append real_hashes_def)
  qed simp
  then show "real_hashes (al_rows l) \<Longrightarrow> audit_tip l = tip_after GENESIS_HASH (al_rows l)" by (simp add: audit_tip_def)
qed

lemma next_seq_after: "next_seq l = (case last_after None (al_rows l) of None \<Rightarrow> 1 | Some n \<Rightarrow> n + 1)"
  by (cases "al_rows l" rule: rev_cases) (simp_all add: next_seq_def last_after_snoc)

lemma insort_last: "(\<And>x. x \<in> set rows \<Longrightarrow> ar_seq x < ar_seq r) \<Longrightarrow> insort_key ar_seq r rows = rows @ [r]"
  by (induction rows) force+

lemma fresh_seq:
  assumes "chain_ok digest e None (al_rows l)" and "x \<in> set (al_rows l)"
  shows "ar_seq x < next_seq l"
proof (cases "last_after None (al_rows l)")
  case None
  then show ?thesis using assms(2) by (cases "al_rows l" rule: rev_cases) (auto simp: last_after_snoc)
next
  case (Some m)
  then show ?thesis using seqs_below [OF assms(1) Some assms(2)] by (simp add: next_seq_after)
qed

lemma new_row_fields [simp]:
  "ar_seq (new_row lib ts e prev n) = n" "ar_ts (new_row lib ts e prev n) = ts" "ar_prev (new_row lib ts e prev n) = Some prev"
  "ar_hash (new_row lib ts e prev n) = Some (hash_of_row (ax_digest lib) (new_row lib ts e prev n) prev)"
  by (simp_all add: new_row_def Let_def hash_of_row_def)

lemma insert_appends:
  assumes "chain_ok digest e None (al_rows l)"
  shows "insert_row (new_row lib ts en prev (next_seq l)) l = (True, l\<lparr>al_rows := al_rows l @ [new_row lib ts en prev (next_seq l)]\<rparr>)"
  using fresh_seq [OF assms] insort_last [of "al_rows l" "new_row lib ts en prev (next_seq l)"] by (force simp: insert_row_def)

section \<open>A log that is only recorded to and pruned verifies\<close>

definition times_sorted :: "audit_row list \<Rightarrow> bool" where
  "times_sorted rows = sorted_wrt (\<lambda>a b. \<not> str_less (ar_ts b) (ar_ts a)) rows"

text \<open>One writer after the other, with a clock whose text never goes back. At the start the table is
  empty or holds rows of the time before the chain.\<close>

inductive audit_reach :: "audit_lib \<Rightarrow> pystr \<Rightarrow> audit_log \<Rightarrow> bool" for lib where
  start: "map ar_seq (al_rows l) = [n..n + int (length (al_rows l)) - 1] \<Longrightarrow> list_all (\<lambda>r. ar_hash r = None) (al_rows l) \<Longrightarrow>
     times_sorted (al_rows l) \<Longrightarrow> (\<And>r. r \<in> set (al_rows l) \<Longrightarrow> \<not> str_less now (ar_ts r)) \<Longrightarrow> audit_reach lib now l"
| clock: "audit_reach lib now l \<Longrightarrow> \<not> str_less later now \<Longrightarrow> audit_reach lib later l"
| logged: "audit_reach lib now l \<Longrightarrow> audit_reach lib now (audit_record lib works now e l)"
| pruned: "audit_reach lib now l \<Longrightarrow> audit_reach lib now (snd (prune_before lib works cutoff dry_run l))"

definition audit_inv :: "audit_lib \<Rightarrow> pystr \<Rightarrow> audit_log \<Rightarrow> bool" where
  "audit_inv lib now l =
     (chain_ok (ax_digest lib) GENESIS_HASH None (al_rows l) \<and> real_hashes (al_rows l) \<and> times_sorted (al_rows l)
      \<and> (\<forall>r \<in> set (al_rows l). \<not> str_less now (ar_ts r)))"

lemma str_le_trans: "\<not> str_less b a \<Longrightarrow> \<not> str_less c b \<Longrightarrow> \<not> str_less c a"
  using str_less_total [of a b] str_less_trans [of c a b] by auto

lemma unhashed_chain:
  "map ar_seq rows = [n..n + int (length rows) - 1] \<Longrightarrow> list_all (\<lambda>r. ar_hash r = None) rows \<Longrightarrow>
     (last_seq = None \<or> last_seq = Some (n - 1)) \<Longrightarrow> chain_ok digest e last_seq rows"
proof (induction rows arbitrary: n last_seq)
  case (Cons r rs)
  have "[n..n + int (length (r # rs)) - 1] = n # [n + 1..(n + 1) + int (length rs) - 1]" by (subst upto_rec1) simp_all
  then have "ar_seq r = n" "map ar_seq rs = [n + 1..(n + 1) + int (length rs) - 1]" using Cons.prems(1) by simp_all
  moreover have "chain_ok digest e (Some n) rs" if "map ar_seq rs = [n + 1..(n + 1) + int (length rs) - 1]"
    using Cons.IH [OF that] Cons.prems(2) by simp
  ultimately show ?case using Cons.prems(2,3) by (auto simp: hashed_def truthy_str_def)
qed simp

lemma record_appends:
  assumes "audit_inv lib now l" and "al_enabled l"
  shows "audit_record lib True ts e l = l\<lparr>al_rows := al_rows l @ [new_row lib ts e (audit_tip l) (next_seq l)]\<rparr>"
proof -
  have "chain_ok (ax_digest lib) GENESIS_HASH None (al_rows l)" using assms(1) by (simp add: audit_inv_def)
  then show ?thesis using insert_appends assms(2) by (simp add: audit_record_def)
qed

lemma hash_nonempty: "(\<And>x. ax_digest lib x \<noteq> '''') \<Longrightarrow> hash_of_row (ax_digest lib) r prev \<noteq> ''''"
  by (simp add: hash_of_row_def compute_row_hash_def)

lemma tip_nonempty: "real_hashes rows \<Longrightarrow> e \<noteq> '''' \<Longrightarrow> tip_after e rows \<noteq> ''''"
proof (induction rows arbitrary: e)
  case (Cons r rs)
  then show ?case by (auto simp: real_hashes_def hashed_def truthy_str_def split: option.splits)
qed simp

lemma genesis_nonempty [simp]: "GENESIS_HASH \<noteq> ''''"
  by (simp add: GENESIS_HASH_def)

lemma appended_row:
  assumes "chain_ok (ax_digest lib) GENESIS_HASH None rows" "real_hashes rows" "\<And>x. ax_digest lib x \<noteq> ''''"
  shows "chain_ok (ax_digest lib) GENESIS_HASH None (rows @ [new_row lib ts e (tip_after GENESIS_HASH rows) (next_seq \<lparr>al_enabled = b, al_rows = rows\<rparr>)])"
  using assms tip_nonempty [OF assms(2)] hash_nonempty [of lib, OF assms(3)]
  by (auto simp: chain_ok_append next_seq_after hashed_def truthy_str_def str_or_def split: option.split)

lemma inv_record:
  assumes "audit_inv lib now l" "\<And>x. ax_digest lib x \<noteq> ''''"
  shows "audit_inv lib now (audit_record lib works now e l)"
proof (cases "al_enabled l \<and> works")
  case True
  let ?r = "new_row lib now e (audit_tip l) (next_seq l)"
  have inv: "chain_ok (ax_digest lib) GENESIS_HASH None (al_rows l)" "real_hashes (al_rows l)" "times_sorted (al_rows l)"
    "\<forall>r \<in> set (al_rows l). \<not> str_less now (ar_ts r)" using assms(1) by (simp_all add: audit_inv_def)
  have "l = \<lparr>al_enabled = al_enabled l, al_rows = al_rows l\<rparr>" by simp
  then have "chain_ok (ax_digest lib) GENESIS_HASH None (al_rows l @ [?r])"
    using appended_row [OF inv(1,2) assms(2)] audit_tip_after [OF inv(2)] by metis
  moreover have "real_hashes (al_rows l @ [?r])" using inv(2) hash_nonempty [of lib, OF assms(2)] by (auto simp: real_hashes_def)
  moreover have "times_sorted (al_rows l @ [?r])" using inv(3,4) by (simp add: times_sorted_def sorted_wrt_append)
  ultimately show ?thesis using inv(4) True by (auto simp: record_appends [OF assms(1)] audit_inv_def)
qed (use assms in \<open>simp add: audit_record_def\<close>)

lemma kept_suffix:
  assumes "times_sorted rows"
  shows "\<exists>xs. rows = xs @ filter (\<lambda>r. \<not> str_less (ar_ts r) cutoff) rows"
  using assms
proof (induction rows)
  case (Cons r rs)
  show ?case
  proof (cases "str_less (ar_ts r) cutoff")
    case True
    obtain xs where "rs = xs @ filter (\<lambda>r. \<not> str_less (ar_ts r) cutoff) rs" using Cons by (auto simp: times_sorted_def)
    then have "r # rs = (r # xs) @ filter (\<lambda>r. \<not> str_less (ar_ts r) cutoff) (r # rs)" using True by simp
    then show ?thesis by blast
  next
    case False
    have "\<not> str_less (ar_ts x) cutoff" if "x \<in> set rs" for x
      using Cons.prems that False str_le_trans [of "ar_ts r" cutoff "ar_ts x"] by (auto simp: times_sorted_def)
    then have "r # rs = [] @ filter (\<lambda>r. \<not> str_less (ar_ts r) cutoff) (r # rs)" using False by (simp add: filter_id_conv)
    then show ?thesis by blast
  qed
qed simp

lemma chain_any_start: "chain_ok digest e (Some n) rows \<Longrightarrow> chain_ok digest e None rows"
  by (cases rows) auto

lemma reanchor_chain:
  assumes "\<And>x. digest x \<noteq> ''''" "real_hashes rows" "e' \<noteq> ''''"
  shows "chain_ok digest e n rows \<Longrightarrow> chain_ok digest e' n (reanchor digest e' rows)"
  using assms(2,3)
proof (induction rows arbitrary: e e' n)
  case (Cons r rs)
  have h: "hash_of_row digest r e' \<noteq> ''''" using assms(1) by (simp add: hash_of_row_def compute_row_hash_def)
  have rest: "real_hashes rs" "hashed r = (ar_hash r \<noteq> None)" using Cons.prems(2) real_hashed [OF Cons.prems(2)] by (auto simp: real_hashes_def)
  obtain e2 where e2: "chain_ok digest e2 (Some (ar_seq r)) rs" using Cons.prems(1) by (auto split: if_splits)
  have same: "hash_of_row digest (r\<lparr>ar_prev := p, ar_hash := q\<rparr>) x = hash_of_row digest r x" for p q x by (simp add: hash_of_row_def)
  show ?case
  proof (cases "ar_hash r")
    case None
    then show ?thesis using Cons.IH [OF e2 rest(1) Cons.prems(3)] Cons.prems(1) rest(2) by simp
  next
    case (Some old)
    let ?h = "hash_of_row digest r e'"
    have "hashed (r\<lparr>ar_prev := Some e', ar_hash := Some ?h\<rparr>)" using h by (simp add: hashed_def truthy_str_def)
    then show ?thesis
      using Cons.IH [OF e2 rest(1) h] Cons.prems(1,3) Some by (cases n) (simp_all add: Let_def same str_or_def)
  qed
qed simp

lemma reanchor_rows:
  "r \<in> set (reanchor digest e rows) \<Longrightarrow> \<exists>x \<in> set rows. ar_ts r = ar_ts x \<and> (ar_hash r = ar_hash x \<or> (\<exists>p. ar_hash r = Some (hash_of_row digest x p)))"
  by (induction rows arbitrary: e) (auto simp: Let_def split: if_splits)

lemma reanchor_times: "map ar_ts (reanchor digest e rows) = map ar_ts rows"
  by (induction rows arbitrary: e) (auto simp: Let_def)

lemma times_sorted_map: "times_sorted rows = sorted_wrt (\<lambda>a b. \<not> str_less b a) (map ar_ts rows)"
  by (simp add: times_sorted_def sorted_wrt_map)

lemma inv_prune:
  assumes "audit_inv lib now l" "\<And>x. ax_digest lib x \<noteq> ''''"
  shows "audit_inv lib now (snd (prune_before lib works cutoff dry l))"
proof -
  let ?keep = "filter (\<lambda>r. \<not> str_less (ar_ts r) cutoff) (al_rows l)" and ?d = "ax_digest lib"
  have inv: "chain_ok ?d GENESIS_HASH None (al_rows l)" "real_hashes (al_rows l)" "times_sorted (al_rows l)"
    "\<forall>r \<in> set (al_rows l). \<not> str_less now (ar_ts r)" using assms(1) by (simp_all add: audit_inv_def)
  obtain xs where xs: "al_rows l = xs @ ?keep" using kept_suffix [OF inv(3)] by blast
  have "chain_ok ?d (tip_after GENESIS_HASH xs) (last_after None xs) ?keep" using inv(1) xs by (metis chain_ok_append)
  then have c: "chain_ok ?d (tip_after GENESIS_HASH xs) None ?keep" by (cases "last_after None xs") (auto dest: chain_any_start)
  have real: "real_hashes ?keep" using inv(2) by (simp add: real_hashes_def)
  have "chain_ok ?d GENESIS_HASH None (reanchor ?d GENESIS_HASH ?keep)" by (rule reanchor_chain [OF assms(2) real genesis_nonempty c])
  moreover have "real_hashes (reanchor ?d GENESIS_HASH ?keep)"
    unfolding real_hashes_def
  proof
    fix r assume "r \<in> set (reanchor ?d GENESIS_HASH ?keep)"
    from reanchor_rows [OF this] real hash_nonempty [of lib, OF assms(2)] show "ar_hash r \<noteq> Some ''''"
      by (auto simp: real_hashes_def)
  qed
  moreover have "times_sorted (reanchor ?d GENESIS_HASH ?keep)"
    using inv(3) by (simp add: times_sorted_map reanchor_times) (simp add: times_sorted_map [symmetric] times_sorted_def sorted_wrt_filter)
  moreover have "\<forall>r \<in> set (reanchor ?d GENESIS_HASH ?keep). \<not> str_less now (ar_ts r)"
  proof
    fix r assume "r \<in> set (reanchor ?d GENESIS_HASH ?keep)"
    from reanchor_rows [OF this] inv(4) show "\<not> str_less now (ar_ts r)" by auto
  qed
  ultimately show ?thesis using assms(1) by (simp add: prune_before_def Let_def audit_inv_def)
qed

lemma reach_inv:
  assumes "audit_reach lib now l" "\<And>x. ax_digest lib x \<noteq> ''''"
  shows "audit_inv lib now l"
  using assms(1)
proof induction
  case (start l n now)
  then show ?case
    using unhashed_chain [OF start(1,2), of None] by (auto simp: audit_inv_def real_hashes_def list_all_iff)
next
  case (clock now l later)
  have "\<not> str_less later (ar_ts r)" if "r \<in> set (al_rows l)" for r
    using clock that str_le_trans [of now "ar_ts r" later] by (auto simp: audit_inv_def)
  then show ?case using clock by (simp add: audit_inv_def)
next
  case (logged now l e)
  then show ?case using inv_record assms(2) by blast
next
  case (pruned now l works cutoff dry)
  then show ?case using inv_prune assms(2) by blast
qed

text \<open>C5. An audit log that is only recorded to and pruned, by one writer after the other and with a clock that does not
  go back, always verifies: every row counts as legacy or chained, and a new row is appended at the end whenever its
  write works; a write that fails is dropped without a word and leaves the log as it was. The log may start with rows of
  the time before the chain, numbered without a gap and in the order of time.\<close>

theorem audit_log_always_verifies:
  assumes "audit_reach lib now l" and "al_enabled l" and "\<And>x. ax_digest lib x \<noteq> ''''"
  shows "vr_ok (verify_log (ax_digest lib) True l)
    \<and> vr_legacy (verify_log (ax_digest lib) True l) + vr_chained (verify_log (ax_digest lib) True l) = length (al_rows l)
    \<and> (\<exists>r. al_rows (audit_record lib works now e l) = al_rows l @ (if works then [r] else [])
        \<and> ar_actor r = ae_actor e \<and> ar_action r = ae_action e)"
proof -
  have inv: "audit_inv lib now l" by (rule reach_inv [OF assms(1,3)])
  then have c: "chain_ok (ax_digest lib) GENESIS_HASH None (al_rows l)" by (simp add: audit_inv_def)
  let ?r = "new_row lib now e (audit_tip l) (next_seq l)"
  have "al_rows (audit_record lib works now e l) = al_rows l @ (if works then [?r] else [])"
  proof (cases works)
    case True then show ?thesis using record_appends [OF inv assms(2)] by simp
  next
    case False then show ?thesis by (simp add: audit_record_def)
  qed
  moreover have "ar_actor ?r = ae_actor e \<and> ar_action ?r = ae_action e" by (simp add: new_row_def Let_def)
  moreover have "vr_ok (verify_log (ax_digest lib) True l)
    \<and> vr_legacy (verify_log (ax_digest lib) True l) + vr_chained (verify_log (ax_digest lib) True l) = length (al_rows l)"
    using sum_length_filter_compl [of hashed "al_rows l"] assms(2) by (simp add: verify_log_def verify_from_counts [OF c])
  ultimately show ?thesis by blast
qed

section \<open>Tampering\<close>

definition payload_of :: "audit_row \<Rightarrow> pystr" where
  "payload_of r = row_payload (ar_seq r) (ar_ts r) (ar_actor r) (ar_role r) (ar_action r) (ar_detail r) (str_or (ar_prev r) GENESIS_HASH)"

fun linked :: "(pystr \<Rightarrow> pystr) \<Rightarrow> pystr \<Rightarrow> audit_row list \<Rightarrow> bool" where
  "linked digest e [] = True"
| "linked digest e (r # rs) =
     (hashed r \<and> ar_prev r = Some e \<and> ar_hash r = Some (digest (payload_of r)) \<and> linked digest (the (ar_hash r)) rs)"

lemma chain_linked: "chain_ok digest e n rows \<Longrightarrow> linked digest e (filter hashed rows)"
proof (induction rows arbitrary: e n)
  case (Cons r rs)
  show ?case
  proof (cases "hashed r")
    case True
    have r: "ar_prev r = Some e" "ar_hash r = Some (hash_of_row digest r (str_or (Some e) GENESIS_HASH))"
      and rest: "chain_ok digest (the (ar_hash r)) (Some (ar_seq r)) rs" using Cons.prems unfolding chain_ok.simps if_P [OF True] by blast+
    show ?thesis using True Cons.IH [OF rest] r by (simp add: payload_of_def hash_of_row_def compute_row_hash_def)
  next
    case False
    have "chain_ok digest e (Some (ar_seq r)) rs" using Cons.prems unfolding chain_ok.simps if_not_P [OF False] by blast
    then show ?thesis using Cons.IH False by simp
  qed
qed simp

lemma tip_filter: "tip_after e (filter hashed rows) = tip_after e rows"
  by (induction rows arbitrary: e) auto

lemma linked_append: "linked digest e (xs @ ys) = (linked digest e xs \<and> linked digest (tip_after e xs) ys)"
  by (induction xs arbitrary: e) auto

definition collision :: "(pystr \<Rightarrow> pystr) \<Rightarrow> audit_row list \<Rightarrow> audit_row list \<Rightarrow> bool" where
  "collision digest xs ys = (\<exists>x \<in> set xs. \<exists>y \<in> set ys. payload_of x \<noteq> payload_of y \<and> digest (payload_of x) = digest (payload_of y))"

definition genesis_preimage :: "(pystr \<Rightarrow> pystr) \<Rightarrow> audit_row list \<Rightarrow> bool" where
  "genesis_preimage digest xs = (\<exists>x \<in> set xs. digest (payload_of x) = GENESIS_HASH)"

lemma same_payload_same_row:
  assumes "payload_of x = payload_of y" "ar_prev x = Some p" "ar_prev y = Some q" "p \<noteq> ''''" "q \<noteq> ''''" "ar_hash x = ar_hash y"
  shows "x = y"
  using assms by (cases x; cases y) (simp add: payload_of_def row_payload_inj str_or_def)

lemma linked_tip_nonempty: "linked digest e xs \<Longrightarrow> e \<noteq> '''' \<Longrightarrow> tip_after e xs \<noteq> ''''"
  by (induction xs arbitrary: e) (auto simp: hashed_def truthy_str_def)

lemma linked_same_tip:
  assumes "linked digest GENESIS_HASH xs" "linked digest GENESIS_HASH ys" "tip_after GENESIS_HASH xs = tip_after GENESIS_HASH ys"
  shows "xs = ys \<or> collision digest xs ys \<or> genesis_preimage digest (xs @ ys)"
  using assms
proof (induction xs arbitrary: ys rule: rev_induct)
  case Nil
  then show ?case
    by (cases ys rule: rev_cases) (auto simp: linked_append tip_after_append genesis_preimage_def)
next
  case (snoc x xs)
  have x: "linked digest GENESIS_HASH xs" "hashed x" "ar_prev x = Some (tip_after GENESIS_HASH xs)" "ar_hash x = Some (digest (payload_of x))"
    using snoc.prems(1) by (simp_all add: linked_append)
  show ?case
  proof (cases ys rule: rev_cases)
    case Nil
    then show ?thesis using snoc.prems(3) x(2,4) by (simp add: tip_after_append genesis_preimage_def)
  next
    case (snoc zs z)
    have z: "linked digest GENESIS_HASH zs" "hashed z" "ar_prev z = Some (tip_after GENESIS_HASH zs)" "ar_hash z = Some (digest (payload_of z))"
      using snoc.prems(2) snoc by (simp_all add: linked_append)
    have same: "digest (payload_of x) = digest (payload_of z)" using snoc.prems(3) snoc x z by (simp add: tip_after_append)
    show ?thesis
    proof (cases "payload_of x = payload_of z")
      case False
      then show ?thesis using same snoc by (auto simp: collision_def)
    next
      case True
      have ne: "tip_after GENESIS_HASH xs \<noteq> ''''" "tip_after GENESIS_HASH zs \<noteq> ''''"
        using linked_tip_nonempty [OF x(1)] linked_tip_nonempty [OF z(1)] genesis_nonempty by blast+
      have "x = z" by (rule same_payload_same_row [OF True x(3) z(3) ne]) (simp add: x z same)
      then have "tip_after GENESIS_HASH xs = tip_after GENESIS_HASH zs" using x(3) z(3) by simp
      from snoc.IH [OF x(1) z(1) this] show ?thesis using \<open>x = z\<close> snoc by (auto simp: collision_def genesis_preimage_def)
    qed
  qed
qed

text \<open>C17. The chain is tamper-evident, down to the digest: if two tables both verify and end in the same hash, their chained
  rows are the same in every field, or two rows of them with different texts have the same digest, or the text of one of
  them has the digest of 64 zeros. So who has noted the newest hash will notice any change of an older chained row.\<close>

theorem audit_chain_is_tamper_evident:
  assumes "vr_ok (verify_log digest True \<lparr>al_enabled = True, al_rows = rows\<rparr>)"
    and "vr_ok (verify_log digest True \<lparr>al_enabled = True, al_rows = rows'\<rparr>)"
    and "tip_after GENESIS_HASH rows = tip_after GENESIS_HASH rows'"
  shows "filter hashed rows = filter hashed rows' \<or> collision digest rows rows' \<or> genesis_preimage digest (rows @ rows')"
proof -
  have "linked digest GENESIS_HASH (filter hashed rows)" "linked digest GENESIS_HASH (filter hashed rows')"
    using assms(1,2) chain_linked by (simp_all add: verify_log_def verify_from_ok)
  then have "filter hashed rows = filter hashed rows' \<or> collision digest (filter hashed rows) (filter hashed rows')
      \<or> genesis_preimage digest (filter hashed rows @ filter hashed rows')"
    using assms(3) by (intro linked_same_tip) (simp_all add: tip_filter)
  then show ?thesis by (auto simp: collision_def genesis_preimage_def)
qed

text \<open>C38. But the newest rows are not protected: the hashes need no secret, and a row without a hash passes as a row of the
  time before the chain wherever it stands. Behind any verifying log stand arbitrary rows without a hash, so the newest
  rows of a log can be deleted or exchanged for made-up ones and \<open>verify\<close> still says ok.\<close>

theorem newest_rows_can_be_forged:
  assumes "vr_ok (verify_log digest True \<lparr>al_enabled = True, al_rows = kept @ removed\<rparr>)"
    and "kept \<noteq> []" and "list_all (\<lambda>r. ar_hash r = None) forged"
    and "map ar_seq forged = [ar_seq (last kept) + 1..ar_seq (last kept) + int (length forged)]"
  shows "vr_ok (verify_log digest True \<lparr>al_enabled = True, al_rows = kept @ forged\<rparr>)"
proof -
  have "chain_ok digest GENESIS_HASH None kept" using assms(1) by (simp add: verify_log_def verify_from_ok chain_ok_append)
  moreover have "chain_ok digest (tip_after GENESIS_HASH kept) (last_after None kept) forged"
    using unhashed_chain [of forged "ar_seq (last kept) + 1"] assms(2-4) by (simp add: last_after_last algebra_simps)
  ultimately show ?thesis by (simp add: verify_log_def verify_from_ok chain_ok_append)
qed

section \<open>Two writers\<close>

text \<open>A second process (or an \<open>AuditLog\<close> object with its own lock) works on the same file. The writer
  has read the tip when the other records; then it reads the next number and inserts.\<close>

definition overtaken_record :: "audit_lib \<Rightarrow> pystr \<Rightarrow> audit_entry \<Rightarrow> pystr \<Rightarrow> audit_entry \<Rightarrow> audit_log \<Rightarrow> audit_log" where
  "overtaken_record lib ts mine other_ts other l =
     (let prev = audit_tip l; l1 = audit_record lib True other_ts other l; n = next_seq l1
      in snd (insert_row (new_row lib ts mine prev n) l1))"

text \<open>The other one records after both reads.\<close>

definition late_record :: "audit_lib \<Rightarrow> pystr \<Rightarrow> audit_entry \<Rightarrow> pystr \<Rightarrow> audit_entry \<Rightarrow> audit_log \<Rightarrow> bool \<times> audit_log" where
  "late_record lib ts mine other_ts other l =
     (let prev = audit_tip l; n = next_seq l; l1 = audit_record lib True other_ts other l
      in insert_row (new_row lib ts mine prev n) l1)"

lemma verify_from_append:
  "chain_ok digest e n xs \<Longrightarrow> verify_from digest tot l c e n (xs @ ys)
     = verify_from digest tot (l + length (filter (\<lambda>r. \<not> hashed r) xs)) (c + length (filter hashed xs)) (tip_after e xs) (last_after n xs) ys"
proof (induction xs arbitrary: l c e n)
  case (Cons r rs)
  then show ?case using hashed_some [of r] by (auto split: option.splits)
qed simp

text \<open>C39. With two writers on one database the log breaks or loses rows. If another writer records between the two reads, the
  new row names an old hash: from then on verification reports a hash mismatch at it (unless the digest maps the other
  row onto the tip both started from). If the other one records after both reads, the number is taken, and the row is
  dropped without an error.\<close>

theorem concurrent_writers_break_the_chain:
  assumes "audit_reach lib now l" and "al_enabled l" and "\<And>x. ax_digest lib x \<noteq> ''''"
    and "tip_after GENESIS_HASH (al_rows (audit_record lib True other_ts other l)) \<noteq> audit_tip l"
  shows "verify_log (ax_digest lib) True (overtaken_record lib my_ts mine other_ts other l)
      = broken_at (length (al_rows l) + 2) (length (filter (\<lambda>r. \<not> hashed r) (al_rows l))) (length (filter hashed (al_rows l)) + 1)
          (next_seq l + 1) ''hash_mismatch''
    \<and> late_record lib my_ts mine other_ts other l = (False, audit_record lib True other_ts other l)"
proof -
  have inv: "audit_inv lib now l" by (rule reach_inv [OF assms(1,3)])
  let ?d = "ax_digest lib" and ?r = "new_row lib other_ts other (audit_tip l) (next_seq l)"
  have c: "chain_ok ?d GENESIS_HASH None (al_rows l)" and real: "real_hashes (al_rows l)" using inv by (simp_all add: audit_inv_def)
  have rec: "audit_record lib True other_ts other l = l\<lparr>al_rows := al_rows l @ [?r]\<rparr>" by (rule record_appends [OF inv assms(2)])
  have tip: "audit_tip l = tip_after GENESIS_HASH (al_rows l)" by (rule audit_tip_after [OF real])
  have "l = \<lparr>al_enabled = al_enabled l, al_rows = al_rows l\<rparr>" by simp
  then have c1: "chain_ok ?d GENESIS_HASH None (al_rows l @ [?r])" using appended_row [OF c real assms(3)] tip by metis
  let ?l1 = "l\<lparr>al_rows := al_rows l @ [?r]\<rparr>"
  have n1: "next_seq ?l1 = next_seq l + 1" by (simp add: next_seq_after [of ?l1] last_after_snoc)
  let ?mine = "new_row lib my_ts mine (audit_tip l) (next_seq l + 1)"
  have "insert_row ?mine ?l1 = (True, ?l1\<lparr>al_rows := al_rows ?l1 @ [?mine]\<rparr>)"
    using insert_appends [where l = ?l1 and digest = ?d] c1 n1 by simp
  then have over: "overtaken_record lib my_ts mine other_ts other l = l\<lparr>al_rows := (al_rows l @ [?r]) @ [?mine]\<rparr>"
    by (simp add: overtaken_record_def rec n1 Let_def)
  have h: "hashed ?r" "hashed ?mine" using hash_nonempty [of lib, OF assms(3)] by (simp_all add: hashed_def truthy_str_def)
  have stale: "tip_after GENESIS_HASH (al_rows l @ [?r]) \<noteq> audit_tip l" using assms(4) by (simp add: rec)
  have "verify_from ?d tot 0 0 GENESIS_HASH None ((al_rows l @ [?r]) @ [?mine])
      = broken_at tot (length (filter (\<lambda>r. \<not> hashed r) (al_rows l))) (length (filter hashed (al_rows l)) + 1) (next_seq l + 1) ''hash_mismatch''" for tot
    using stale h by (simp only: verify_from_append [OF c1]) (simp add: last_after_snoc)
  then have first: "verify_log ?d True (overtaken_record lib my_ts mine other_ts other l)
      = broken_at (length (al_rows l) + 2) (length (filter (\<lambda>r. \<not> hashed r) (al_rows l))) (length (filter hashed (al_rows l)) + 1)
          (next_seq l + 1) ''hash_mismatch''" using assms(2) by (simp add: over verify_log_def)
  have "ar_seq ?mine - 1 \<in> ar_seq ` set (al_rows ?l1)" by simp
  then have second: "late_record lib my_ts mine other_ts other l = (False, audit_record lib True other_ts other l)"
    by (simp add: late_record_def rec insert_row_def Let_def)
  show ?thesis using first second by simp
qed

section \<open>Reading the log\<close>

record audit_query =
  aq_actor :: "pystr option"
  aq_action :: "pystr option"
  aq_since :: "pystr option"
  aq_team :: "pystr option"

definition lower_ascii :: "char \<Rightarrow> char" where
  "lower_ascii c = (let n = of_char c :: nat in if 65 \<le> n \<and> n \<le> 90 then char_of (n + 32) else c)"

text \<open>SQLite's \<open>LIKE\<close>.\<close>

fun sql_like :: "pystr \<Rightarrow> pystr \<Rightarrow> bool" where
  "sql_like [] s = (s = [])"
| "sql_like (c # p) [] = (c = CHR ''%'' \<and> sql_like p [])"
| "sql_like (c # p) (d # s) =
     (if c = CHR ''%'' then sql_like p (d # s) \<or> sql_like (c # p) s
      else (c = CHR ''_'' \<or> lower_ascii c = lower_ascii d) \<and> sql_like p s)"

text \<open>The WHERE clause; \<open>team_of\<close> is \<open>json_extract(detail, '$.team_id')\<close>.\<close>

definition row_matches :: "(pystr \<Rightarrow> pystr option) \<Rightarrow> audit_query \<Rightarrow> audit_row \<Rightarrow> bool" where
  "row_matches team_of q r =
     (let actor = py_strip (str_or (aq_actor q) ''''); action = py_strip (str_or (aq_action q) ''''); team = py_strip (str_or (aq_team q) '''') in
      (actor = '''' \<or> ar_actor r = actor) \<and> (action = '''' \<or> sql_like (action @ ''%'') (ar_action r))
      \<and> (\<not> truthy_str (aq_since q) \<or> \<not> str_less (ar_ts r) (the (aq_since q))) \<and> (team = '''' \<or> team_of (ar_detail r) = Some team))"

definition below :: "int option \<Rightarrow> audit_row \<Rightarrow> bool" where
  "below cursor r = (case cursor of None \<Rightarrow> True | Some n \<Rightarrow> ar_seq r < n)"

lemma fewer_below:
  assumes "r \<in> set rows" "below cursor r"
  shows "length (filter (below (Some (ar_seq r))) rows) < length (filter (below cursor) rows)"
proof -
  have "filter (below (Some (ar_seq r))) rows = filter (below (Some (ar_seq r))) (filter (below cursor) rows)"
    using assms(2) by (auto simp: below_def intro!: filter_cong split: option.splits)
  moreover have "r \<in> set (filter (below cursor) rows)" "\<not> below (Some (ar_seq r)) r" using assms by (simp_all add: below_def)
  ultimately show ?thesis using length_filter_less [of r "filter (below cursor) rows" "below (Some (ar_seq r))"] by simp
qed

text \<open>One page per query, the newest first.\<close>

function iter_from ::
    "(pystr \<Rightarrow> pystr option) \<Rightarrow> audit_query \<Rightarrow> nat \<Rightarrow> audit_row list \<Rightarrow> nat option \<Rightarrow> int option \<Rightarrow> audit_row list" where
  "iter_from team_of q batch rows remaining cursor =
     (let n = (case remaining of None \<Rightarrow> batch | Some m \<Rightarrow> min batch m);
          page = take n (filter (\<lambda>r. row_matches team_of q r \<and> below cursor r) (rev rows))
      in if page = [] then []
         else page @ iter_from team_of q batch rows (map_option (\<lambda>m. m - length page) remaining) (Some (ar_seq (last page))))"
  by pat_completeness auto
termination
proof (relation "measure (\<lambda>(team_of, q, batch, rows, remaining, cursor). length (filter (below cursor) rows))", goal_cases)
  case (2 team_of q batch rows remaining cursor n page)
  then have "last page \<in> set page" by simp
  then have "last page \<in> set (filter (\<lambda>r. row_matches team_of q r \<and> below cursor r) (rev rows))"
    using in_set_takeD 2(2) by metis
  then have "last page \<in> set rows" "below cursor (last page)" by simp_all
  then show ?case by (simp add: fewer_below)
qed simp

declare iter_from.simps [simp del]

definition iter_rows :: "(pystr \<Rightarrow> pystr option) \<Rightarrow> audit_query \<Rightarrow> int \<Rightarrow> int option \<Rightarrow> audit_log \<Rightarrow> audit_row list" where
  "iter_rows team_of q batch_size limit l =
     (if \<not> al_enabled l then [] else iter_from team_of q (nat (max 1 batch_size)) (al_rows l) (map_option nat limit) None)"

definition list_rows :: "(pystr \<Rightarrow> pystr option) \<Rightarrow> audit_query \<Rightarrow> int \<Rightarrow> int \<Rightarrow> audit_log \<Rightarrow> audit_row list" where
  "list_rows team_of q limit offset l =
     (let off = max 0 offset; lim = max 0 limit;
          rows = iter_rows team_of q (if lim \<noteq> 0 then max lim 1 else 500) (if lim \<noteq> 0 then Some (off + lim) else None) l
      in if lim \<noteq> 0 then take (nat lim) (drop (nat off) rows) else drop (nat off) rows)"

definition count_rows :: "(pystr \<Rightarrow> pystr option) \<Rightarrow> audit_query \<Rightarrow> audit_log \<Rightarrow> nat" where
  "count_rows team_of q l = (if \<not> al_enabled l then 0 else length (filter (row_matches team_of q) (al_rows l)))"

lemma filter_below_last:
  assumes "sorted_wrt (\<lambda>a b. ar_seq b < ar_seq a) xs" "take n xs \<noteq> []"
  shows "filter (below (Some (ar_seq (last (take n xs))))) xs = drop n xs"
proof -
  let ?m = "last (take n xs)"
  have p: "sorted_wrt (\<lambda>a b. ar_seq b < ar_seq a) (butlast (take n xs) @ [?m] @ drop n xs)"
    using assms append_take_drop_id [of n xs] append_butlast_last_id [OF assms(2)] by (metis append_assoc)
  have "filter (below (Some (ar_seq ?m))) (butlast (take n xs) @ [?m] @ drop n xs) = drop n xs"
    using p by (auto simp: sorted_wrt_append below_def filter_empty_conv filter_id_conv)
  then show ?thesis using append_take_drop_id [of n xs] append_butlast_last_id [OF assms(2)] by (metis append_assoc)
qed

lemma iter_from_all:
  assumes "sorted_wrt (\<lambda>a b. ar_seq a < ar_seq b) rows" "0 < batch"
  shows "iter_from team_of q batch rows remaining cursor
    = (let all = filter (\<lambda>r. row_matches team_of q r \<and> below cursor r) (rev rows) in case remaining of None \<Rightarrow> all | Some m \<Rightarrow> take m all)"
  using assms
proof (induction team_of q batch rows remaining cursor rule: iter_from.induct)
  case (1 team_of q batch rows remaining cursor)
  let ?all = "filter (\<lambda>r. row_matches team_of q r \<and> below cursor r) (rev rows)"
  let ?n = "case remaining of None \<Rightarrow> batch | Some m \<Rightarrow> min batch m"
  let ?page = "take ?n ?all"
  show ?case
  proof (cases "?page = []")
    case True
    then have "?all = [] \<or> remaining = Some 0" using 1(3) by (cases remaining) (auto simp: min_def split: if_splits)
    then show ?thesis using True by (subst iter_from.simps) (auto simp: Let_def split: option.split)
  next
    case False
    let ?c = "Some (ar_seq (last ?page))"
    have "sorted_wrt (\<lambda>a b. ar_seq b < ar_seq a) (rev rows)" using 1(2) by (simp add: sorted_wrt_rev)
    then have desc: "sorted_wrt (\<lambda>a b. ar_seq b < ar_seq a) ?all" by (rule sorted_wrt_filter)
    have "last ?page \<in> set ?all" using False by (metis in_set_takeD last_in_set)
    then have c: "below cursor (last ?page)" by simp
    have "filter (\<lambda>r. row_matches team_of q r \<and> below ?c r) (rev rows) = filter (below ?c) ?all"
      using c by (auto simp: below_def intro!: filter_cong split: option.splits)
    also have "\<dots> = drop ?n ?all" by (rule filter_below_last [OF desc False])
    finally have rest: "filter (\<lambda>r. row_matches team_of q r \<and> below ?c r) (rev rows) = drop ?n ?all" .
    have IH: "iter_from team_of q batch rows (map_option (\<lambda>m. m - length ?page) remaining) ?c
        = (case map_option (\<lambda>m. m - length ?page) remaining of None \<Rightarrow> drop ?n ?all | Some m \<Rightarrow> take m (drop ?n ?all))"
      using 1(1) [OF refl refl False 1(2,3)] by (simp add: rest Let_def)
    have "iter_from team_of q batch rows remaining cursor = ?page @ iter_from team_of q batch rows (map_option (\<lambda>m. m - length ?page) remaining) ?c"
      using False by (subst iter_from.simps) (simp add: Let_def)
    also have "\<dots> = (case remaining of None \<Rightarrow> ?all | Some m \<Rightarrow> take m ?all)"
    proof (cases remaining)
      case (Some m)
      then have "?page @ take (m - length ?page) (drop ?n ?all) = take m ?all"
        by (cases "length ?all \<le> ?n") (auto simp: min_def take_add [symmetric] split: if_splits)
      then show ?thesis unfolding IH by (simp add: Some)
    next
      case None
      then show ?thesis using IH by simp
    qed
    finally show ?thesis by (simp add: Let_def)
  qed
qed

text \<open>C30. Reading the log page by page gives the same rows as one query: the newest matching rows first, \<open>offset\<close> of them
  skipped and \<open>limit\<close> of them kept (all of them for the limit 0), for every page size; and \<open>count\<close> counts them.\<close>

theorem paged_reads_are_one_query:
  assumes "sorted_wrt (\<lambda>a b. ar_seq a < ar_seq b) (al_rows l)" and "al_enabled l"
  shows "list_rows team_of q limit offset l
      = (if 0 < limit then take (nat limit) else id) (drop (nat offset) (filter (row_matches team_of q) (rev (al_rows l))))
    \<and> iter_rows team_of q batch None l = filter (row_matches team_of q) (rev (al_rows l))
    \<and> count_rows team_of q l = length (iter_rows team_of q batch None l)"
proof -
  have all: "iter_rows team_of q b None l = filter (row_matches team_of q) (rev (al_rows l))"
    and some: "iter_rows team_of q b (Some n) l = take (nat n) (filter (row_matches team_of q) (rev (al_rows l)))" for b n
    using assms by (simp_all add: iter_rows_def iter_from_all below_def Let_def)
  have "list_rows team_of q limit offset l
      = (if 0 < limit then take (nat limit) else id) (drop (nat offset) (filter (row_matches team_of q) (rev (al_rows l))))"
  proof (cases "0 < limit")
    case True
    have "nat (max 0 offset + limit) = nat limit + nat offset" using True by simp
    then show ?thesis using True by (simp add: list_rows_def some Let_def take_drop) (simp add: max_def drop_take)
  next
    case False
    then show ?thesis by (simp add: list_rows_def all Let_def max_def)
  qed
  then show ?thesis using assms(2) by (simp add: all count_rows_def rev_filter [symmetric])
qed

section \<open>What is recorded\<close>

text \<open>Invalid keys within a window of the last row for the same pre and path are only counted. \<open>seen\<close> lives
  in the process: per pre and path the moment of the row and how many came since.\<close>

type_synonym flood = "((pystr \<times> pystr) \<times> (pyfloat \<times> nat)) list"

definition key_prefix_for_audit :: "pystr option \<Rightarrow> pystr" where
  "key_prefix_for_audit supplied = take 10 (str_or supplied '''')"

definition invalid_key_entry :: "pystr \<Rightarrow> pystr \<Rightarrow> nat \<Rightarrow> audit_entry" where
  "invalid_key_entry pre path suppressed =
     \<lparr>ae_actor = (if pre = '''' then ''anonymous'' else pre), ae_role = ''anonymous'', ae_action = ''auth.invalid_key'',
      ae_detail = JObj ([(''prefix'', JStr pre), (''path'', JStr path)] @ (if suppressed = 0 then [] else [(''deduped'', JInt (int suppressed))]))\<rparr>"

definition record_invalid_key ::
    "audit_lib \<Rightarrow> bool \<Rightarrow> pyfloat \<Rightarrow> pyfloat \<Rightarrow> pystr \<Rightarrow> pystr option \<Rightarrow> pystr \<Rightarrow> flood \<times> audit_log \<Rightarrow> bool \<times> flood \<times> audit_log" where
  "record_invalid_key lib works window now ts supplied path w =
     (let pre = key_prefix_for_audit supplied;
          (last_at, suppressed) = (case map_of (fst w) (pre, path) of None \<Rightarrow> (0, 0) | Some x \<Rightarrow> x)
      in if last_at > 0 \<and> now - last_at < window then (False, AList.update (pre, path) (last_at, suppressed + 1) (fst w), snd w)
         else (True, AList.update (pre, path) (now, 0) (fst w), audit_record lib works ts (invalid_key_entry pre path suppressed) (snd w)))"

definition key_locked_entry :: "pystr \<Rightarrow> int \<Rightarrow> int \<Rightarrow> audit_entry" where
  "key_locked_entry pre failures retry_after =
     (let shown = take 10 (if pre = '''' then ''anonymous'' else pre) in
      \<lparr>ae_actor = shown, ae_role = ''anonymous'', ae_action = ''auth.key_locked'',
       ae_detail = JObj [(''prefix'', JStr shown), (''failures'', JInt failures), (''retry_after'', JInt retry_after), (''scope'', JStr ''key'')]\<rparr>)"

definition key_unlocked_entry :: "pystr \<Rightarrow> pystr \<Rightarrow> pystr \<Rightarrow> audit_entry" where
  "key_unlocked_entry pre actor role =
     \<lparr>ae_actor = take 64 (if actor = '''' then ''api'' else actor), ae_role = take 32 (if role = '''' then ''admin'' else role),
      ae_action = ''auth.key_unlocked'', ae_detail = JObj [(''prefix'', JStr (take 10 pre)), (''scope'', JStr ''key'')]\<rparr>"

definition throttled_entry :: "pystr \<Rightarrow> int \<Rightarrow> int \<Rightarrow> audit_entry" where
  "throttled_entry ip failures retry_after =
     \<lparr>ae_actor = take 64 (if ip = '''' then ''unknown'' else ip), ae_role = ''anonymous'', ae_action = ''auth.throttled'',
      ae_detail = JObj [(''client_ip'', JStr (take 64 ip)), (''failures'', JInt failures), (''retry_after'', JInt retry_after)]\<rparr>"

definition tenancy_denied_entry :: "pystr option \<Rightarrow> pystr \<Rightarrow> pystr \<Rightarrow> audit_entry" where
  "tenancy_denied_entry key_id kind artifact =
     \<lparr>ae_actor = str_or key_id ''unknown'', ae_role = ''key'', ae_action = ''tenancy.denied'',
      ae_detail = JObj [(''key_id'', (case key_id of None \<Rightarrow> JNull | Some k \<Rightarrow> JStr k)), (''kind'', JStr kind), (''id'', JStr artifact)]\<rparr>"

text \<open>A field that is left out when it is empty, cut to a length.\<close>

definition field_cut :: "pystr \<Rightarrow> nat \<Rightarrow> pystr option \<Rightarrow> (pystr \<times> json) list" where
  "field_cut name n v = (if truthy_str v then [(name, JStr (take n (the v)))] else [])"

definition field_given :: "pystr \<Rightarrow> json option \<Rightarrow> (pystr \<times> json) list" where
  "field_given name v = (case v of None \<Rightarrow> [] | Some j \<Rightarrow> [(name, j)])"

definition quota_entry :: "pystr \<Rightarrow> pystr option \<Rightarrow> pystr option \<Rightarrow> (pystr \<times> json) list \<Rightarrow> audit_entry" where
  "quota_entry action key_id team_id detail =
     \<lparr>ae_actor = take 64 (str_or key_id (str_or team_id ''anonymous'')), ae_role = ''key'', ae_action = action,
      ae_detail = JObj (field_cut ''key_id'' 64 key_id @ field_cut ''team_id'' 64 team_id @ detail)\<rparr>"

definition budget_exceeded_entry ::
    "pystr option \<Rightarrow> pystr option \<Rightarrow> pystr option \<Rightarrow> pystr option \<Rightarrow> json option \<Rightarrow> json option \<Rightarrow> pystr option \<Rightarrow> audit_entry" where
  "budget_exceeded_entry key_id team_id scope window remaining limit quota =
     quota_entry ''budget.exceeded'' key_id team_id
       (field_cut ''scope'' 32 scope @ field_cut ''window'' 32 window @ field_given ''remaining'' remaining @ field_given ''limit'' limit
        @ field_cut ''quota'' 32 quota)"

definition rate_limit_entry ::
    "pystr option \<Rightarrow> pystr option \<Rightarrow> pystr option \<Rightarrow> pystr option \<Rightarrow> pystr option \<Rightarrow> int option \<Rightarrow> int option \<Rightarrow> audit_entry" where
  "rate_limit_entry key_id team_id model scope bucket remaining limit =
     quota_entry ''rate_limit.exceeded'' key_id team_id
       (field_cut ''model'' 128 model @ field_cut ''scope'' 32 scope @ field_cut ''bucket'' 64 bucket
        @ field_given ''remaining'' (map_option JInt remaining) @ field_given ''limit'' (map_option JInt limit))"

definition concurrency_entry ::
    "pystr option \<Rightarrow> pystr option \<Rightarrow> pystr option \<Rightarrow> pystr option \<Rightarrow> int option \<Rightarrow> int option \<Rightarrow> audit_entry" where
  "concurrency_entry key_id team_id model scope remaining limit =
     quota_entry ''concurrency.exceeded'' key_id team_id
       (field_cut ''model'' 128 model @ field_cut ''scope'' 64 scope
        @ field_given ''remaining'' (map_option JInt remaining) @ field_given ''limit'' (map_option JInt limit))"

definition maybe_audit_tenancy_denied ::
    "audit_lib \<Rightarrow> bool \<Rightarrow> pystr \<Rightarrow> pystr option \<Rightarrow> pystr \<Rightarrow> pystr \<Rightarrow> bool \<Rightarrow> bool \<Rightarrow> audit_log \<Rightarrow> audit_log" where
  "maybe_audit_tenancy_denied lib works ts key_id kind artifact stored visible l =
     (if \<not> stored \<or> visible then l else audit_record lib works ts (tenancy_denied_entry key_id kind artifact) l)"

subsection \<open>A storm of invalid keys\<close>

fun storm :: "audit_lib \<Rightarrow> pyfloat \<Rightarrow> pystr option \<Rightarrow> pystr \<Rightarrow> (pyfloat \<times> pystr \<times> bool) list \<Rightarrow> flood \<times> audit_log \<Rightarrow> nat \<times> flood \<times> audit_log" where
  "storm lib window supplied path [] w = (0, w)"
| "storm lib window supplied path ((now, ts, works) # hits) w =
     (case record_invalid_key lib works window now ts supplied path w of
        (wrote, w1) \<Rightarrow> (case storm lib window supplied path hits w1 of (n, w2) \<Rightarrow> ((if wrote then n + 1 else n), w2)))"

lemma storm_quiet:
  assumes "map_of seen (key_prefix_for_audit supplied, path) = Some (t0, k)" "0 < t0" "\<And>h. h \<in> set hits \<Longrightarrow> fst h - t0 < window"
  shows "\<exists>seen'. storm lib window supplied path hits (seen, l) = (0, seen', l)
    \<and> map_of seen' (key_prefix_for_audit supplied, path) = Some (t0, k + length hits)"
  using assms
proof (induction hits arbitrary: seen k)
  case (Cons h hits)
  obtain now ts works where h: "h = (now, ts, works)" by (rule prod_cases3)
  let ?s = "(key_prefix_for_audit supplied, path)"
  have "now - t0 < window" using Cons.prems(3) [of h] h by simp
  then have step: "record_invalid_key lib works window now ts supplied path (seen, l) = (False, AList.update ?s (t0, k + 1) seen, l)"
    using Cons.prems(1,2) by (simp add: record_invalid_key_def Let_def)
  have "map_of (AList.update ?s (t0, k + 1) seen) ?s = Some (t0, k + 1)" by simp
  from Cons.IH [OF this Cons.prems(2)] Cons.prems(3) show ?case by (auto simp: h step)
qed simp

text \<open>A storm of requests with invalid keys of one prefix on one path writes at most one row (one if the write works), however many come within the window,
  and all of them are counted for the next row; the row holds no more than ten characters of the key.\<close>

theorem storm_writes_one_row:
  assumes "map_of seen (key_prefix_for_audit supplied, path) = None" and "0 < t0"
    and "\<And>h. h \<in> set hits \<Longrightarrow> fst h - t0 < window"
  shows "\<exists>seen'. storm lib window supplied path ((t0, ts, works) # hits) (seen, l)
      = (1, seen', audit_record lib works ts (invalid_key_entry (key_prefix_for_audit supplied) path 0) l)
    \<and> map_of seen' (key_prefix_for_audit supplied, path) = Some (t0, length hits)
    \<and> length (key_prefix_for_audit supplied) \<le> 10"
proof -
  let ?s = "(key_prefix_for_audit supplied, path)"
  have step: "record_invalid_key lib works window t0 ts supplied path (seen, l)
      = (True, AList.update ?s (t0, 0) seen, audit_record lib works ts (invalid_key_entry (key_prefix_for_audit supplied) path 0) l)"
    using assms(1) by (simp add: record_invalid_key_def Let_def)
  have "map_of (AList.update ?s (t0, 0) seen) ?s = Some (t0, 0)" by simp
  from storm_quiet [OF this assms(2,3), where hits = hits and lib = lib
      and l = "audit_record lib works ts (invalid_key_entry (key_prefix_for_audit supplied) path 0) l"]
  obtain seen' where "storm lib window supplied path hits (AList.update ?s (t0, 0) seen,
        audit_record lib works ts (invalid_key_entry (key_prefix_for_audit supplied) path 0) l)
      = (0, seen', audit_record lib works ts (invalid_key_entry (key_prefix_for_audit supplied) path 0) l)"
    and "map_of seen' ?s = Some (t0, length hits)" by auto
  moreover have "length (key_prefix_for_audit supplied) \<le> 10" by (simp add: key_prefix_for_audit_def)
  ultimately show ?thesis by (simp add: step)
qed

section \<open>A concrete log\<close>

definition demo_audit :: audit_lib where
  "demo_audit = \<lparr>ax_digest = (\<lambda>s. CHR ''h'' # s), ax_dumps = (\<lambda>j. ''{}'')\<rparr>"

definition demo_entry :: "pystr \<Rightarrow> audit_entry" where
  "demo_entry action = \<lparr>ae_actor = ''ops'', ae_role = ''admin'', ae_action = action, ae_detail = JObj []\<rparr>"

definition empty_log :: audit_log where
  "empty_log = \<lparr>al_enabled = True, al_rows = []\<rparr>"

definition one_row :: audit_log where
  "one_row = audit_record demo_audit True ''t1'' (demo_entry ''key.create'') empty_log"

definition made_up :: "int \<Rightarrow> audit_row" where
  "made_up n = \<lparr>ar_seq = n, ar_ts = ''t1'', ar_actor = ''nobody'', ar_role = '''', ar_action = '''', ar_detail = '''', ar_prev = None, ar_hash = None\<rparr>"

lemma demo_log_reach: "audit_reach demo_audit ''t1'' empty_log" "audit_reach demo_audit ''t1'' one_row"
proof -
  show e: "audit_reach demo_audit ''t1'' empty_log"
    by (rule audit_reach.start [where n = 1]) (simp_all add: empty_log_def times_sorted_def)
  show "audit_reach demo_audit ''t1'' one_row" using audit_reach.logged [OF e] by (simp add: one_row_def)
qed

lemma demo_digest: "ax_digest demo_audit x \<noteq> ''''" "ax_digest demo_audit x \<noteq> GENESIS_HASH"
  by (simp_all add: demo_audit_def GENESIS_HASH_def numeral_eq_Suc)

lemma one_row_rows: "al_enabled one_row" "al_rows one_row = [new_row demo_audit ''t1'' (demo_entry ''key.create'') GENESIS_HASH 1]"
  by (simp_all add: one_row_def audit_record_def empty_log_def insert_row_def next_seq_def audit_tip_def)

lemma one_row_chain: "chain_ok (ax_digest demo_audit) GENESIS_HASH None (al_rows one_row)"
  using reach_inv [OF demo_log_reach(2) demo_digest(1)] by (simp add: audit_inv_def)

theorem audit_log_always_verifies_witness:
  "vr_ok (verify_log (ax_digest demo_audit) True one_row) \<and> length (al_rows one_row) = 1"
  using audit_log_always_verifies [OF demo_log_reach(2) one_row_rows(1) demo_digest(1)] by (simp add: one_row_rows)

theorem audit_chain_is_tamper_evident_witness:
  "vr_ok (verify_log (ax_digest demo_audit) True \<lparr>al_enabled = True, al_rows = al_rows one_row @ [made_up 2]\<rparr>)
    \<and> filter hashed (al_rows one_row) = filter hashed (al_rows one_row @ [made_up 2])"
proof -
  let ?d = "ax_digest demo_audit"
  have a: "vr_ok (verify_log ?d True \<lparr>al_enabled = True, al_rows = al_rows one_row\<rparr>)"
    using one_row_chain by (simp add: verify_log_def verify_from_ok)
  have b: "vr_ok (verify_log ?d True \<lparr>al_enabled = True, al_rows = al_rows one_row @ [made_up 2]\<rparr>)"
    using one_row_chain by (simp add: verify_log_def verify_from_ok chain_ok_append)
      (simp add: one_row_rows made_up_def hashed_def truthy_str_def)
  have tip: "tip_after GENESIS_HASH (al_rows one_row) = tip_after GENESIS_HASH (al_rows one_row @ [made_up 2])"
    by (simp add: tip_after_append) (simp add: made_up_def hashed_def truthy_str_def)
  have "\<not> collision ?d xs ys" "\<not> genesis_preimage ?d xs" for xs ys
    using demo_digest(2) by (auto simp: collision_def genesis_preimage_def demo_audit_def)
  then show ?thesis using audit_chain_is_tamper_evident [OF a b tip] b by simp
qed

theorem newest_rows_can_be_forged_witness:
  "vr_ok (verify_log (ax_digest demo_audit) True \<lparr>al_enabled = True, al_rows = al_rows one_row @ [made_up 2, made_up 3]\<rparr>)"
proof -
  have "vr_ok (verify_log (ax_digest demo_audit) True \<lparr>al_enabled = True, al_rows = al_rows one_row @ []\<rparr>)"
    using one_row_chain by (simp add: verify_log_def verify_from_ok)
  from newest_rows_can_be_forged [OF this, of "[made_up 2, made_up 3]"] show ?thesis
    by (simp add: one_row_rows made_up_def upto_rec1)
qed

theorem concurrent_writers_break_the_chain_witness:
  "vr_broken (verify_log (ax_digest demo_audit) True
      (overtaken_record demo_audit ''t2'' (demo_entry ''key.revoke'') ''t2'' (demo_entry ''team.create'') empty_log)) = Some 2
    \<and> late_record demo_audit ''t2'' (demo_entry ''key.revoke'') ''t2'' (demo_entry ''team.create'') empty_log
        = (False, audit_record demo_audit True ''t2'' (demo_entry ''team.create'') empty_log)"
proof -
  have rows: "al_rows (audit_record demo_audit True ''t2'' (demo_entry ''team.create'') empty_log)
      = [new_row demo_audit ''t2'' (demo_entry ''team.create'') GENESIS_HASH 1]"
    by (simp add: audit_record_def empty_log_def insert_row_def next_seq_def audit_tip_def)
  have "tip_after GENESIS_HASH (al_rows (audit_record demo_audit True ''t2'' (demo_entry ''team.create'') empty_log)) \<noteq> audit_tip empty_log"
    using demo_digest unfolding rows
    by (auto simp: hashed_def truthy_str_def hash_of_row_def compute_row_hash_def audit_tip_def empty_log_def)
  moreover have "al_enabled empty_log" "next_seq empty_log = 1" by (simp_all add: empty_log_def next_seq_def)
  ultimately show ?thesis
    using concurrent_writers_break_the_chain [OF demo_log_reach(1) _ demo_digest(1), where mine = "demo_entry ''key.revoke''" and my_ts = "''t2''"]
    by (simp add: broken_at_def)
qed

theorem paged_reads_are_one_query_witness:
  "list_rows (\<lambda>d. None) \<lparr>aq_actor = Some ''ops'', aq_action = Some ''KEY'', aq_since = None, aq_team = None\<rparr> 5 0 one_row = al_rows one_row"
proof -
  have "sorted_wrt (\<lambda>a b. ar_seq a < ar_seq b) (al_rows one_row)" by (simp add: one_row_rows)
  moreover have "row_matches (\<lambda>d. None) \<lparr>aq_actor = Some ''ops'', aq_action = Some ''KEY'', aq_since = None, aq_team = None\<rparr>
      (new_row demo_audit ''t1'' (demo_entry ''key.create'') GENESIS_HASH 1)"
    by (simp add: new_row_def demo_entry_def) code_simp
  ultimately show ?thesis
    using paged_reads_are_one_query [of one_row "\<lambda>d. None" _ 5 0] one_row_rows by simp
qed

theorem storm_writes_one_row_witness:
  "fst (storm demo_audit 60 (Some ''sk-wrong-key'') ''/v1/chat'' [(1, ''t1'', True), (2, ''t2'', True), (60, ''t3'', False)] ([], empty_log)) = 1"
proof -
  let ?p = "key_prefix_for_audit (Some ''sk-wrong-key'')" and ?hits = "[(2 :: pyfloat, ''t2'', True), (60, ''t3'', False)]"
  have "\<exists>seen'. storm demo_audit 60 (Some ''sk-wrong-key'') ''/v1/chat'' ((1, ''t1'', True) # ?hits) ([], empty_log)
      = (1, seen', audit_record demo_audit True ''t1'' (invalid_key_entry ?p ''/v1/chat'' 0) empty_log)
    \<and> map_of seen' (?p, ''/v1/chat'') = Some (1, length ?hits) \<and> length ?p \<le> 10"
    by (rule storm_writes_one_row) auto
  then show ?thesis by (elim exE conjE) (simp del: storm.simps)
qed

end
