(* ===== verification/McpOAuth.thy ===== *)
theory McpOAuth
  imports BatchItems AuditChain
begin

text \<open>
  The access tokens of the MCP endpoint (\<open>daari/gateway/mcp_oauth.py\<close>): minting, verifying and revoking
  the signed tokens of the on-box authorization server, and the denylist of revoked token ids
  (\<open>daari/gateway/revoked_jti_store.py\<close>) in the process, in Postgres and in Redis.

  Bytes are lists of characters. Base64 is written out as \<open>binascii\<close> decodes it, lenient as it is. HMAC
  with SHA-256, and \<open>json\<close> on the payload, are arguments. The locale \<open>denylist\<close> is what a denylist
  promises; the process-local and the Postgres store interpret it.
\<close>

section \<open>Base64\<close>

definition b64_char :: "nat \<Rightarrow> char" where
  "b64_char n = (if n < 26 then char_of (65 + n) else if n < 52 then char_of (71 + n) else if n < 62 then char_of (n - 4)
     else if n = 62 then CHR ''-'' else CHR ''_'')"

text \<open>The URL-safe decoder translates \<open>-\<close> and \<open>_\<close> and then reads the ordinary alphabet.\<close>

definition b64_value :: "char \<Rightarrow> nat option" where
  "b64_value c = (let n = of_char c :: nat in
     if 65 \<le> n \<and> n \<le> 90 then Some (n - 65) else if 97 \<le> n \<and> n \<le> 122 then Some (n - 71) else if 48 \<le> n \<and> n \<le> 57 then Some (n + 4)
     else if n = 43 \<or> n = 45 then Some 62 else if n = 47 \<or> n = 95 then Some 63 else None)"

fun b64url_encode :: "pystr \<Rightarrow> pystr" where
  "b64url_encode [] = []"
| "b64url_encode [a] = (let x = of_char a in [b64_char (x div 4), b64_char (x mod 4 * 16)])"
| "b64url_encode [a, b] = (let x = of_char a; y = of_char b in
     [b64_char (x div 4), b64_char (x mod 4 * 16 + y div 16), b64_char (y mod 16 * 4)])"
| "b64url_encode (a # b # c # s) = (let x = of_char a; y = of_char b; z = of_char c in
     b64_char (x div 4) # b64_char (x mod 4 * 16 + y div 16) # b64_char (y mod 16 * 4 + z div 64) # b64_char (z mod 64) # b64url_encode s)"

text \<open>\<open>binascii.a2b_base64\<close>: position in the quad, bits left over, padding seen. Other characters are skipped.\<close>

fun a2b_base64 :: "nat \<Rightarrow> nat \<Rightarrow> nat \<Rightarrow> pystr \<Rightarrow> pystr option" where
  "a2b_base64 q l p [] = (if q = 0 then Some [] else None)"
| "a2b_base64 q l p (c # s) =
     (if c = CHR ''='' then (if 2 \<le> q \<and> 4 \<le> q + p + 1 then Some [] else a2b_base64 q l (if 2 \<le> q then p + 1 else p) s)
      else (case b64_value c of None \<Rightarrow> a2b_base64 q l p s
        | Some v \<Rightarrow>
            (if q = 0 then a2b_base64 1 v 0 s
             else if q = 1 then map_option ((#) (char_of (l * 4 + v div 16))) (a2b_base64 2 (v mod 16) 0 s)
             else if q = 2 then map_option ((#) (char_of (l * 16 + v div 4))) (a2b_base64 3 (v mod 4) 0 s)
             else map_option ((#) (char_of (l * 64 + v))) (a2b_base64 0 0 0 s))))"

declare a2b_base64.simps(2) [simp del]

definition is_ascii :: "pystr \<Rightarrow> bool" where
  "is_ascii s = (\<forall>c \<in> set s. of_char c < (128 :: nat))"

definition b64url_decode :: "pystr \<Rightarrow> pystr option" where
  "b64url_decode t = (if is_ascii t then a2b_base64 0 0 0 (t @ replicate ((4 - length t mod 4) mod 4) (CHR ''='')) else None)"

lemma b64_value_char: "n < 64 \<Longrightarrow> b64_value (b64_char n) = Some n"
  by (auto simp: b64_value_def b64_char_def Let_def of_char_of)

lemma b64_char_plain: "n < 64 \<Longrightarrow> b64_char n \<noteq> CHR ''='' \<and> of_char (b64_char n) < (128 :: nat) \<and> b64_char n \<noteq> CHR ''.''"
proof -
  assume "n < 64"
  then have "b64_value (b64_char n) = Some n" by (rule b64_value_char)
  moreover have "b64_value (CHR ''='') = None" "b64_value (CHR ''.'') = None" by (simp_all add: b64_value_def)
  moreover have "of_char (b64_char n) < (128 :: nat)" using \<open>n < 64\<close> by (auto simp: b64_char_def of_char_of)
  ultimately show ?thesis by auto
qed

lemma byte_bound: "of_char (c :: char) < (256 :: nat)"
  by (metis of_char_of of_char_mod_256 mod_less_divisor zero_less_numeral)

lemma six_bits:
  "(of_char c :: nat) div 4 < 64" "(of_char c :: nat) mod 4 * 16 + of_char d div 16 < 64" "(of_char c :: nat) mod 4 * 16 < 64"
  "(of_char c :: nat) mod 16 * 4 + of_char d div 64 < 64" "(of_char c :: nat) mod 16 * 4 < 64" "(of_char c :: nat) mod 64 < 64"
proof -
  have "of_char c < (256 :: nat)" "of_char d < (256 :: nat)" by (rule byte_bound)+
  then show "(of_char c :: nat) div 4 < 64" "(of_char c :: nat) mod 4 * 16 + of_char d div 16 < 64" "(of_char c :: nat) mod 4 * 16 < 64"
    "(of_char c :: nat) mod 16 * 4 + of_char d div 64 < 64" "(of_char c :: nat) mod 16 * 4 < 64" "(of_char c :: nat) mod 64 < 64"
    by linarith+
qed

lemma high_bits:
  "(of_char c :: nat) div 16 div 16 = 0" "(of_char c :: nat) div 16 mod 16 = of_char c div 16"
  "(of_char c :: nat) div 64 div 4 = 0" "(of_char c :: nat) div 64 mod 4 = of_char c div 64"
proof -
  have b: "of_char c < (256 :: nat)" by (rule byte_bound)
  then have "(of_char c :: nat) div 16 < 16" "(of_char c :: nat) div 64 < 4" by linarith+
  then show "(of_char c :: nat) div 16 div 16 = 0" "(of_char c :: nat) div 16 mod 16 = of_char c div 16"
    "(of_char c :: nat) div 64 div 4 = 0" "(of_char c :: nat) div 64 mod 4 = of_char c div 64" by simp_all
qed

lemma a2b_step: "n < 64 \<Longrightarrow> a2b_base64 q l p (b64_char n # s) =
     (if q = 0 then a2b_base64 1 n 0 s
      else if q = 1 then map_option ((#) (char_of (l * 4 + n div 16))) (a2b_base64 2 (n mod 16) 0 s)
      else if q = 2 then map_option ((#) (char_of (l * 16 + n div 4))) (a2b_base64 3 (n mod 4) 0 s)
      else map_option ((#) (char_of (l * 64 + n))) (a2b_base64 0 0 0 s))"
  using b64_char_plain [of n] by (simp add: b64_value_char a2b_base64.simps(2))

lemma a2b_pad:
  "a2b_base64 q l p (CHR ''='' # s) = (if 2 \<le> q \<and> 4 \<le> q + p + 1 then Some [] else a2b_base64 q l (if 2 \<le> q then p + 1 else p) s)"
  by (simp add: a2b_base64.simps(2))

lemma a2b_encoded: "a2b_base64 0 0 0 (b64url_encode s @ replicate ((4 - length (b64url_encode s) mod 4) mod 4) (CHR ''='')) = Some s"
proof (induction s rule: b64url_encode.induct)
  case (4 a b c s)
  have "(4 - length (b64url_encode (a # b # c # s)) mod 4) mod 4 = (4 - length (b64url_encode s) mod 4) mod 4" by (simp add: Let_def)
  then show ?case using 4 by (simp add: Let_def a2b_step a2b_pad six_bits high_bits)
next
  case (2 a)
  have "replicate 2 (CHR ''='') = [CHR ''='', CHR ''='']" by (simp add: numeral_2_eq_2)
  then show ?case by (simp add: Let_def a2b_step a2b_pad six_bits high_bits)
next
  case (3 a b)
  show ?case by (simp add: Let_def a2b_step a2b_pad six_bits high_bits)
qed simp

lemma encoded_chars: "c \<in> set (b64url_encode s) \<Longrightarrow> of_char c < (128 :: nat) \<and> c \<noteq> CHR ''.''"
proof (induction s rule: b64url_encode.induct)
  case (4 a b c s)
  then show ?case using b64_char_plain six_bits by (auto simp: Let_def)
qed (use b64_char_plain six_bits in \<open>auto simp: Let_def\<close>)

lemma b64url_round_trip: "b64url_decode (b64url_encode s) = Some s"
  using encoded_chars a2b_encoded by (simp add: b64url_decode_def is_ascii_def)

section \<open>Denylists\<close>

text \<open>In the process: token ids with the second their token ends.\<close>

type_synonym jti_table = "(pystr \<times> int) list"

definition prune_jtis :: "int \<Rightarrow> jti_table \<Rightarrow> jti_table" where
  "prune_jtis now xs = filter (\<lambda>(j, e). \<not> e < now) xs"

definition is_jti_revoked :: "pystr \<Rightarrow> int \<Rightarrow> jti_table \<Rightarrow> bool \<times> jti_table" where
  "is_jti_revoked jti now xs = (if jti = '''' then (False, xs) else (map_of (prune_jtis now xs) jti \<noteq> None, prune_jtis now xs))"

definition revoke_jti :: "pystr \<Rightarrow> int \<Rightarrow> int \<Rightarrow> jti_table \<Rightarrow> jti_table" where
  "revoke_jti jti until now xs = (if jti = '''' \<or> until < now then xs else prune_jtis now (AList.update jti until xs))"

text \<open>In Postgres: the rows are pruned every thirty seconds of the monotonic clock of the process.
  A moment is the pair of both clocks. A statement that fails raises and is not modelled.\<close>

record pg_denylist =
  pd_enabled :: bool
  pd_rows :: jti_table
  pd_last_prune :: pyfloat

definition prune_on_conn :: "int \<times> pyfloat \<Rightarrow> pg_denylist \<Rightarrow> pg_denylist" where
  "prune_on_conn t s = (if snd t - pd_last_prune s < 30 then s else s\<lparr>pd_rows := prune_jtis (fst t) (pd_rows s), pd_last_prune := snd t\<rparr>)"

definition pg_is_jti_revoked :: "pystr \<Rightarrow> int \<times> pyfloat \<Rightarrow> pg_denylist \<Rightarrow> bool \<times> pg_denylist" where
  "pg_is_jti_revoked jti t s =
     (if jti = '''' \<or> \<not> pd_enabled s then (False, s) else (map_of (pd_rows (prune_on_conn t s)) jti \<noteq> None, prune_on_conn t s))"

definition pg_revoke :: "pystr \<Rightarrow> int \<Rightarrow> int \<times> pyfloat \<Rightarrow> pg_denylist \<Rightarrow> pg_denylist" where
  "pg_revoke jti until t s =
     (if jti = '''' \<or> until < fst t \<or> \<not> pd_enabled s then s else prune_on_conn t (s\<lparr>pd_rows := AList.update jti until (pd_rows s)\<rparr>))"

text \<open>In Redis: a key lives until the server's clock reaches its \<open>EXAT\<close>; a moment is the second \<open>int(time.time())\<close>.
  \<open>works\<close> says whether the client answers; every failure reads as not revoked.\<close>

definition redis_is_jti_revoked :: "bool \<Rightarrow> pystr \<Rightarrow> int \<Rightarrow> jti_table \<Rightarrow> bool \<times> jti_table" where
  "redis_is_jti_revoked works jti now xs =
     (if jti = '''' \<or> \<not> works then (False, xs) else ((case map_of xs jti of None \<Rightarrow> False | Some exat \<Rightarrow> now < exat), xs))"

definition redis_revoke :: "bool \<Rightarrow> pystr \<Rightarrow> int \<Rightarrow> int \<Rightarrow> jti_table \<Rightarrow> jti_table" where
  "redis_revoke works jti until now xs = (if jti = '''' \<or> until < now \<or> \<not> works then xs else AList.update jti until xs)"

text \<open>The contract: a token id is known until the end of its token, whatever else is asked or revoked.\<close>

locale denylist =
  fixes asks :: "pystr \<Rightarrow> 't \<Rightarrow> 's \<Rightarrow> bool \<times> 's"
    and puts :: "pystr \<Rightarrow> int \<Rightarrow> 't \<Rightarrow> 's \<Rightarrow> 's"
    and seconds :: "'t \<Rightarrow> int"
    and up :: "'s \<Rightarrow> bool"
    and ends :: "'s \<Rightarrow> pystr \<Rightarrow> int option"
  assumes asked: "up s \<Longrightarrow> ends s j = Some e \<Longrightarrow> seconds t \<le> e \<Longrightarrow> j \<noteq> '''' \<Longrightarrow> fst (asks j t s)"
    and asked_keeps: "up s \<Longrightarrow> ends s j = Some e \<Longrightarrow> seconds t \<le> e \<Longrightarrow> ends (snd (asks i t s)) j = Some e"
    and put_there: "up s \<Longrightarrow> j \<noteq> '''' \<Longrightarrow> seconds t \<le> e \<Longrightarrow> ends (puts j e t s) j = Some e"
    and put_keeps: "up s \<Longrightarrow> ends s j = Some e \<Longrightarrow> seconds t \<le> e \<Longrightarrow> i \<noteq> j \<Longrightarrow> ends (puts i d t s) j = Some e"
    and stays_up: "up s \<Longrightarrow> up (snd (asks i t s))" "up s \<Longrightarrow> up (puts i d t s)"
begin

fun use_denylist :: "('t \<times> pystr \<times> int option) list \<Rightarrow> 's \<Rightarrow> 's" where
  "use_denylist [] s = s"
| "use_denylist ((t, i, None) # us) s = use_denylist us (snd (asks i t s))"
| "use_denylist ((t, i, Some d) # us) s = use_denylist us (puts i d t s)"

lemma known_stays_known:
  assumes "up s" "ends s j = Some e" "\<And>t i d. (t, i, d) \<in> set us \<Longrightarrow> seconds t \<le> e" "\<And>t d. (t, j, Some d) \<in> set us \<Longrightarrow> d = e" "j \<noteq> ''''"
  shows "up (use_denylist us s) \<and> ends (use_denylist us s) j = Some e"
  using assms(1-4)
proof (induction us s rule: use_denylist.induct)
  case (2 t i us s)
  have "seconds t \<le> e" using 2(4) [of t i None] by simp
  then have "ends (snd (asks i t s)) j = Some e" using asked_keeps 2(2,3) by blast
  moreover have "\<And>t' i' d. (t', i', d) \<in> set us \<Longrightarrow> seconds t' \<le> e" "\<And>t' d. (t', j, Some d) \<in> set us \<Longrightarrow> d = e"
    using 2(4,5) by (meson list.set_intros(2))+
  ultimately show ?case using 2(1) 2(2) stays_up by simp
next
  case (3 t i d us s)
  have t: "seconds t \<le> e" using 3(4) [of t i "Some d"] by simp
  have "ends (puts i d t s) j = Some e"
  proof (cases "i = j")
    case True
    then have "d = e" using 3(5) [of t d] by simp
    then show ?thesis using True put_there [OF 3(2) assms(5) t] by simp
  next
    case False
    then show ?thesis using put_keeps [OF 3(2,3) t] by blast
  qed
  moreover have "\<And>t' i' d'. (t', i', d') \<in> set us \<Longrightarrow> seconds t' \<le> e" "\<And>t' d'. (t', j, Some d') \<in> set us \<Longrightarrow> d' = e"
    using 3(4,5) by (meson list.set_intros(2))+
  ultimately show ?case using 3(1) 3(2) stays_up by simp
qed simp

lemma revoked_stays_revoked:
  assumes "up s" "j \<noteq> ''''" "seconds t0 \<le> e" "\<And>t i d. (t, i, d) \<in> set us \<Longrightarrow> seconds t \<le> e" "\<And>t d. (t, j, Some d) \<in> set us \<Longrightarrow> d = e"
    and "seconds t \<le> e"
  shows "fst (asks j t (use_denylist us (puts j e t0 s)))"
proof -
  have "up (puts j e t0 s)" "ends (puts j e t0 s) j = Some e" using assms(1-3) put_there stays_up by simp_all
  then have "up (use_denylist us (puts j e t0 s)) \<and> ends (use_denylist us (puts j e t0 s)) j = Some e"
    using assms(2) assms(4,5) by (intro known_stays_known)
  then show ?thesis using asked assms(2,6) by blast
qed

end

lemma prune_absent: "j \<notin> fst ` set xs \<Longrightarrow> map_of (prune_jtis now xs) j = None"
  by (auto simp: map_of_eq_None_iff prune_jtis_def)

lemma map_of_prune: "distinct (map fst xs) \<Longrightarrow> map_of (prune_jtis now xs) j = (case map_of xs j of None \<Rightarrow> None | Some e \<Rightarrow> if e < now then None else Some e)"
proof (induction xs)
  case (Cons x xs)
  obtain k e where x: "x = (k, e)" by (cases x)
  have "prune_jtis now (x # xs) = (if e < now then prune_jtis now xs else (k, e) # prune_jtis now xs)" by (simp add: prune_jtis_def x)
  then show ?case using Cons prune_absent [of j xs now] by (auto simp: x)
qed (simp add: prune_jtis_def)

lemma distinct_prune: "distinct (map fst xs) \<Longrightarrow> distinct (map fst (prune_jtis now xs))"
  by (simp add: prune_jtis_def distinct_map_filter)

interpretation local_denylist: denylist is_jti_revoked revoke_jti "\<lambda>now. now" "\<lambda>xs. distinct (map fst xs)" map_of
proof unfold_locales
  fix s :: jti_table and t e d :: int and i j :: pystr
  assume up: "distinct (map fst s)"
  then have upd: "distinct (map fst (AList.update i d s))" for i d by (simp add: distinct_update)
  show "distinct (map fst (snd (is_jti_revoked i t s)))" using up by (simp add: is_jti_revoked_def distinct_prune)
  show "distinct (map fst (revoke_jti i d t s))" using up upd by (simp add: revoke_jti_def distinct_prune)
  show "j \<noteq> [] \<Longrightarrow> t \<le> e \<Longrightarrow> map_of (revoke_jti j e t s) j = Some e" using upd by (simp add: revoke_jti_def map_of_prune)
  assume e: "map_of s j = Some e" "t \<le> e"
  show "j \<noteq> [] \<Longrightarrow> fst (is_jti_revoked j t s)" using map_of_prune [OF up] e by (simp add: is_jti_revoked_def)
  show "map_of (snd (is_jti_revoked i t s)) j = Some e" unfolding is_jti_revoked_def using map_of_prune [OF up, of t j] e by simp
  show "i \<noteq> j \<Longrightarrow> map_of (revoke_jti i d t s) j = Some e"
    unfolding revoke_jti_def using map_of_prune [OF upd, of t i d j] e by simp
qed

lemma pg_rows_after: "distinct (map fst (pd_rows s)) \<Longrightarrow> map_of (pd_rows s) j = Some e \<Longrightarrow> fst t \<le> e \<Longrightarrow> map_of (pd_rows (prune_on_conn t s)) j = Some e"
  by (simp add: prune_on_conn_def map_of_prune)

lemma pg_conn_keeps:
  "distinct (map fst (pd_rows s)) \<Longrightarrow> distinct (map fst (pd_rows (prune_on_conn t s)))" "pd_enabled (prune_on_conn t s) = pd_enabled s"
  by (simp_all add: prune_on_conn_def distinct_prune)

interpretation pg_denylist: denylist pg_is_jti_revoked pg_revoke fst "\<lambda>s. pd_enabled s \<and> distinct (map fst (pd_rows s))" "\<lambda>s. map_of (pd_rows s)"
proof unfold_locales
  fix s :: pg_denylist and t :: "int \<times> pyfloat" and i j :: pystr and e d :: int
  let ?up = "pd_enabled s \<and> distinct (map fst (pd_rows s))"
  show "?up \<Longrightarrow> map_of (pd_rows s) j = Some e \<Longrightarrow> fst t \<le> e \<Longrightarrow> j \<noteq> '''' \<Longrightarrow> fst (pg_is_jti_revoked j t s)"
    and "?up \<Longrightarrow> map_of (pd_rows s) j = Some e \<Longrightarrow> fst t \<le> e \<Longrightarrow> map_of (pd_rows (snd (pg_is_jti_revoked i t s))) j = Some e"
    by (simp_all add: pg_is_jti_revoked_def pg_rows_after)
  have upd: "distinct (map fst (AList.update i d (pd_rows s)))" if ?up for i d using that by (simp add: distinct_update)
  show "?up \<Longrightarrow> j \<noteq> '''' \<Longrightarrow> fst t \<le> e \<Longrightarrow> map_of (pd_rows (pg_revoke j e t s)) j = Some e"
    using upd [of j e] by (simp add: pg_revoke_def pg_rows_after)
  show "?up \<Longrightarrow> map_of (pd_rows s) j = Some e \<Longrightarrow> fst t \<le> e \<Longrightarrow> i \<noteq> j \<Longrightarrow> map_of (pd_rows (pg_revoke i d t s)) j = Some e"
    using upd [of i d] by (simp add: pg_revoke_def pg_rows_after)
  show "?up \<Longrightarrow> pd_enabled (snd (pg_is_jti_revoked i t s)) \<and> distinct (map fst (pd_rows (snd (pg_is_jti_revoked i t s))))"
    by (simp add: pg_is_jti_revoked_def pg_conn_keeps)
  show "?up \<Longrightarrow> pd_enabled (pg_revoke i d t s) \<and> distinct (map fst (pd_rows (pg_revoke i d t s)))"
    using upd [of i d] by (simp add: pg_revoke_def pg_conn_keeps)
qed

section \<open>Tokens\<close>

record token_lib =
  tk_hmac :: "pystr \<Rightarrow> pystr \<Rightarrow> pystr"       \<comment> \<open>HMAC-SHA-256 of key and message, as bytes\<close>
  tk_dumps :: "json \<Rightarrow> pystr"                 \<comment> \<open>\<open>json.dumps\<close>, compact\<close>
  tk_loads :: "pystr \<Rightarrow> json option"          \<comment> \<open>\<open>json.loads\<close> of bytes; \<open>None\<close> raises\<close>
  tk_str :: "json \<Rightarrow> pystr"
  tk_basic :: "pystr \<Rightarrow> pystr option"         \<comment> \<open>\<open>b64decode(..).decode("utf-8")\<close>\<close>
  tk_fingerprint :: "pystr \<Rightarrow> pystr"

record oauth_cfg =
  oc_local_as :: bool
  oc_scopes :: "pystr list"
  oc_signing :: pystr
  oc_ttl :: int
  oc_master :: master_key

definition MCP_OAUTH_ISS :: pystr where "MCP_OAUTH_ISS = ''daari-mcp''"
definition TOKEN_TYP :: pystr where "TOKEN_TYP = ''mcp_at''"
definition REQUIRED_MCP_SCOPE :: pystr where "REQUIRED_MCP_SCOPE = ''mcp''"

definition scopes_supported :: "oauth_cfg \<Rightarrow> pystr list" where
  "scopes_supported cfg = (if oc_scopes cfg = [] then [''mcp''] else oc_scopes cfg)"

text \<open>\<open>str.split()\<close>.\<close>

fun words_from :: "pystr \<Rightarrow> pystr \<Rightarrow> pystr list" where
  "words_from w [] = (if w = [] then [] else [rev w])"
| "words_from w (c # s) = (if is_space c then (if w = [] then words_from [] s else rev w # words_from [] s) else words_from (c # w) s)"

definition parse_scopes :: "pystr \<Rightarrow> pystr list" where
  "parse_scopes scope = words_from [] scope"

definition scope_is_supported :: "oauth_cfg \<Rightarrow> pystr \<Rightarrow> bool" where
  "scope_is_supported cfg scope = list_all (\<lambda>p. p \<in> set (scopes_supported cfg)) (parse_scopes scope)"

definition token_has_required_scope :: "pystr \<Rightarrow> bool" where
  "token_has_required_scope scope = (REQUIRED_MCP_SCOPE \<in> set (parse_scopes scope))"

text \<open>Text to bytes, and bytes to hexadecimal text.\<close>

definition utf8 :: "pystr \<Rightarrow> pystr" where
  "utf8 s = concat (map (\<lambda>c. let n = of_char c :: nat in if n < 128 then [c] else [char_of (192 + n div 64), char_of (128 + n mod 64)]) s)"

definition hex_text :: "pystr \<Rightarrow> pystr" where
  "hex_text s = concat (map (\<lambda>c. let n = of_char c :: nat in [hex_digit (n div 16), hex_digit (n mod 16)]) s)"

definition signing_secret_for :: "token_lib \<Rightarrow> oauth_cfg \<Rightarrow> pystr" where
  "signing_secret_for lib cfg =
     (let configured = py_strip (oc_signing cfg); keys = normalize_master_keys (oc_master cfg) in
      if configured \<noteq> '''' then configured
      else hex_text (tk_hmac lib ''daari-mcp-oauth-v1'' (case keys of [] \<Rightarrow> ''local-as'' | k # ks \<Rightarrow> utf8 k)))"

definition signature_of :: "token_lib \<Rightarrow> oauth_cfg \<Rightarrow> pystr \<Rightarrow> pystr" where
  "signature_of lib cfg input = tk_hmac lib (utf8 (signing_secret_for lib cfg)) input"

definition token_payload :: "auth_claims \<Rightarrow> pystr \<Rightarrow> int \<Rightarrow> int \<Rightarrow> pystr \<Rightarrow> json" where
  "token_payload c scope now ttl jti =
     JObj ([(''iss'', JStr MCP_OAUTH_ISS), (''aud'', JStr ''mcp''), (''iat'', JInt now), (''exp'', JInt (now + ttl)),
        (''scope'', JStr (if scope = '''' then ''mcp'' else scope)), (''typ'', JStr TOKEN_TYP), (''kind'', JStr (ac_kind c)), (''jti'', JStr jti)]
      @ (if ac_kind c = ''virtual'' \<and> truthy_str (ac_key_id c)
         then (''key_id'', JStr (the (ac_key_id c))) # (if truthy_str (ac_client c) then [(''client_id'', JStr (the (ac_client c)))] else [])
         else []))"

definition token_ttl :: "oauth_cfg \<Rightarrow> int" where
  "token_ttl cfg = max 60 (min (if oc_ttl cfg = 0 then 900 else oc_ttl cfg) 86400)"

definition JWT_HEADER :: pystr where
  "JWT_HEADER = ''{'' @ json_text ''alg'' @ '': '' @ json_text ''HS256'' @ '', '' @ json_text ''typ'' @ '': '' @ json_text ''JWT'' @ ''}''"

definition sealed :: "token_lib \<Rightarrow> oauth_cfg \<Rightarrow> json \<Rightarrow> pystr" where
  "sealed lib cfg payload =
     (let input = b64url_encode JWT_HEADER @ ''.'' @ b64url_encode (utf8 (tk_dumps lib payload))
      in input @ ''.'' @ b64url_encode (signature_of lib cfg input))"

definition mint_access_token :: "token_lib \<Rightarrow> oauth_cfg \<Rightarrow> auth_claims \<Rightarrow> pystr \<Rightarrow> int \<Rightarrow> pystr \<Rightarrow> pystr \<times> int" where
  "mint_access_token lib cfg c scope now jti = (sealed lib cfg (token_payload c scope now (token_ttl cfg) jti), token_ttl cfg)"

definition split_token :: "pystr \<Rightarrow> (pystr \<times> pystr \<times> pystr) option" where
  "split_token t = (case split_first (CHR ''.'') t of None \<Rightarrow> None
     | Some (a, r) \<Rightarrow> (case split_first (CHR ''.'') r of None \<Rightarrow> None
         | Some (b, c) \<Rightarrow> (if CHR ''.'' \<in> set c then None else Some (a, b, c))))"

text \<open>\<open>Raises\<close> is the UnicodeEncodeError of a header or body that is not ASCII: it is outside every \<open>try\<close>.\<close>

definition decode_token_claims :: "token_lib \<Rightarrow> oauth_cfg \<Rightarrow> pystr \<Rightarrow> (pystr \<times> json) list option store_reply" where
  "decode_token_claims lib cfg token =
     (case split_token token of None \<Rightarrow> Gives None
      | Some (a, b, c) \<Rightarrow>
          (if \<not> is_ascii a \<or> \<not> is_ascii b then Raises
           else (case b64url_decode c of None \<Rightarrow> Gives None
             | Some actual \<Rightarrow>
                 (if signature_of lib cfg (a @ ''.'' @ b) \<noteq> actual then Gives None
                  else (case Option.bind (b64url_decode b) (tk_loads lib) of
                      Some (JObj doc) \<Rightarrow>
                        (if obj_get doc ''iss'' \<noteq> JStr MCP_OAUTH_ISS \<or> obj_get doc ''typ'' \<noteq> JStr TOKEN_TYP \<or> obj_get doc ''aud'' \<noteq> JStr ''mcp''
                         then Gives None else Gives (Some doc))
                    | _ \<Rightarrow> Gives None)))))"

text \<open>\<open>int(value)\<close>; \<open>None\<close> is a TypeError or ValueError.\<close>

definition int_of_json :: "json \<Rightarrow> int option" where
  "int_of_json j = (case j of JInt i \<Rightarrow> Some i | JBool b \<Rightarrow> Some (if b then 1 else 0) | JFloat x t \<Rightarrow> Some (py_trunc x)
     | JStr s \<Rightarrow> py_int s | _ \<Rightarrow> None)"

definition doc_exp :: "(pystr \<times> json) list \<Rightarrow> int option" where
  "doc_exp doc = int_of_json (obj_get_or doc ''exp'' (JInt 0))"

definition doc_text :: "token_lib \<Rightarrow> (pystr \<times> json) list \<Rightarrow> pystr \<Rightarrow> pystr" where
  "doc_text lib doc name = (if truthy (obj_get doc name) then tk_str lib (obj_get doc name) else '''')"

definition doc_jti :: "token_lib \<Rightarrow> (pystr \<times> json) list \<Rightarrow> pystr" where
  "doc_jti lib doc = py_strip (doc_text lib doc ''jti'')"

section \<open>From a token to claims\<close>

definition key_claims :: "auth_env \<Rightarrow> key_store \<Rightarrow> virtual_key \<Rightarrow> auth_claims" where
  "key_claims env s k =
     (case (if truthy_str (vk_team k) then get_team (ae_lib env) (vk_team k) None s else None) of
        None \<Rightarrow> virtual_claims k
      | Some t \<Rightarrow> (virtual_claims k)\<lparr>ac_pin := (if \<not> truthy_str (vk_pin k) \<and> truthy_str (tm_pin t) then tm_pin t else vk_pin k),
          ac_team_models := tm_models t, ac_team_groups := tm_groups t,
          ac_scope := effective_cache_scope [Some (vk_cache_scope k), Some (tm_cache_scope t)]\<rparr>)"

definition claims_of_doc :: "token_lib \<Rightarrow> auth_env \<Rightarrow> key_store option \<Rightarrow> (pystr \<times> json) list \<Rightarrow> auth_claims option" where
  "claims_of_doc lib env store doc =
     (if \<not> token_has_required_scope (doc_text lib doc ''scope'') then Some (claims_of_kind ''insufficient_scope'')
      else if obj_get doc ''kind'' = JStr ''master'' then Some (claims_of_kind ''master'')
      else if obj_get doc ''kind'' = JStr ''virtual'' then
        (case (obj_get doc ''key_id'', store) of
           (JStr kid, Some s) \<Rightarrow>
             (if kid = '''' \<or> \<not> ks_enabled s then None
              else (case get_key (ae_lib env) kid s of None \<Rightarrow> None
                | Some k \<Rightarrow> Some (if key_is_expired (ae_lib env) (ae_now env) k then expired_claims k else key_claims env s k)))
         | _ \<Rightarrow> None)
      else None)"

text \<open>\<open>asks\<close> is the denylist; \<open>now\<close> the second of the clock.\<close>

definition verify_access_token ::
    "token_lib \<Rightarrow> oauth_cfg \<Rightarrow> auth_env \<Rightarrow> key_store option \<Rightarrow> (pystr \<Rightarrow> 's \<Rightarrow> bool \<times> 's) \<Rightarrow> int \<Rightarrow> pystr \<Rightarrow> 's \<Rightarrow>
     auth_claims option store_reply \<times> 's" where
  "verify_access_token lib cfg env store asks now token s =
     (case decode_token_claims lib cfg token of
        Raises \<Rightarrow> (Raises, s) | StoreDown \<Rightarrow> (StoreDown, s) | Gives None \<Rightarrow> (Gives None, s)
      | Gives (Some doc) \<Rightarrow>
          (case doc_exp doc of None \<Rightarrow> (Gives None, s)
           | Some e \<Rightarrow>
               (if e < now then (Gives None, s)
                else if doc_jti lib doc = '''' then (Gives (claims_of_doc lib env store doc), s)
                else (case asks (doc_jti lib doc) s of (r, s1) \<Rightarrow> (Gives (if r then None else claims_of_doc lib env store doc), s1)))))"

definition revoke_access_token ::
    "token_lib \<Rightarrow> oauth_cfg \<Rightarrow> (pystr \<Rightarrow> 's \<Rightarrow> bool \<times> 's) \<Rightarrow> (pystr \<Rightarrow> int \<Rightarrow> 's \<Rightarrow> 's) \<Rightarrow> int \<Rightarrow> pystr \<Rightarrow> 's \<Rightarrow> bool store_reply \<times> 's" where
  "revoke_access_token lib cfg asks puts now token s =
     (case decode_token_claims lib cfg token of
        Raises \<Rightarrow> (Raises, s) | StoreDown \<Rightarrow> (StoreDown, s) | Gives None \<Rightarrow> (Gives False, s)
      | Gives (Some doc) \<Rightarrow>
          (if doc_jti lib doc = '''' then (Gives False, s)
           else (case doc_exp doc of None \<Rightarrow> (Gives False, s)
             | Some e \<Rightarrow>
                 (if e < now then (Gives False, s)
                  else (case asks (doc_jti lib doc) s of (r, s1) \<Rightarrow> (Gives True, if r then s1 else puts (doc_jti lib doc) e s1))))))"

section \<open>The endpoints\<close>

definition token_audit :: "pystr \<Rightarrow> auth_claims option \<Rightarrow> (pystr \<times> json) list \<Rightarrow> audit_entry" where
  "token_audit action claims detail =
     (let who = (case claims of None \<Rightarrow> (''anonymous'', ''anonymous'')
         | Some c \<Rightarrow> (let kind = (if ac_kind c = '''' then ''anonymous'' else ac_kind c) in
             if kind = ''virtual'' \<and> truthy_str (ac_key_id c) then (the (ac_key_id c), str_or (ac_client c) kind) else (kind, kind)))
      in \<lparr>ae_actor = fst who, ae_role = snd who, ae_action = action, ae_detail = JObj detail\<rparr>)"

definition extract_client_secret :: "token_lib \<Rightarrow> (pystr \<times> pystr) list \<Rightarrow> (pystr \<times> json) list \<Rightarrow> pystr" where
  "extract_client_secret lib headers form =
     (let given = py_strip (doc_text lib form ''client_secret''); auth = str_or (map_of headers ''authorization'') '''' in
      if starts_with (py_lower auth) ''basic '' then
        (case tk_basic lib (py_strip (drop 6 auth)) of None \<Rightarrow> ''''
         | Some d \<Rightarrow> (case split_first (CHR '':'') d of None \<Rightarrow> given | Some (user, secret) \<Rightarrow> secret))
      else given)"

datatype token_reply = TokenError int pystr | TokenGranted pystr int pystr

definition oauth_token ::
    "token_lib \<Rightarrow> oauth_cfg \<Rightarrow> auth_env \<Rightarrow> store_handle option \<Rightarrow> int \<Rightarrow> pystr \<Rightarrow> (pystr \<times> pystr) list \<Rightarrow> (pystr \<times> json) list \<Rightarrow>
     token_reply store_reply \<times> audit_entry list" where
  "oauth_token lib cfg env h now jti headers form =
     (let grant = py_strip (doc_text lib form ''grant_type''); secret = extract_client_secret lib headers form;
          denied = (\<lambda>c detail. [token_audit ''mcp_oauth.token_denied'' c detail])
      in if grant \<noteq> ''client_credentials''
         then (Gives (TokenError 400 ''unsupported_grant_type''),
           denied None [(''reason'', JStr ''unsupported_grant_type''), (''grant_type'', JStr grant)])
         else if secret = ''''
         then (Gives (TokenError 401 ''invalid_client''), denied None [(''reason'', JStr ''invalid_client''), (''cause'', JStr ''missing_client_secret'')])
         else (case resolve_auth env (oc_master cfg) h secret of
             StoreDown \<Rightarrow> (StoreDown, []) | Raises \<Rightarrow> (Raises, [])
           | Gives None \<Rightarrow> (Gives (TokenError 401 ''invalid_client''), denied None [(''reason'', JStr ''invalid_client'')])
           | Gives (Some c) \<Rightarrow>
               (if ac_kind c = ''expired'' then (Gives (TokenError 401 ''invalid_client''), denied (Some c) [(''reason'', JStr ''invalid_client'')])
                else (let asked = py_strip (if truthy (obj_get form ''scope'') then tk_str lib (obj_get form ''scope'') else ''mcp'');
                          scope = (if asked = '''' then ''mcp'' else asked) in
                  if \<not> scope_is_supported cfg scope
                  then (Gives (TokenError 400 ''invalid_scope''), denied (Some c) [(''reason'', JStr ''invalid_scope''), (''scope'', JStr scope),
                      (''scopes_supported'', JList (map JStr (scopes_supported cfg)))])
                  else (case mint_access_token lib cfg c scope now jti of
                      (token, ttl) \<Rightarrow> (Gives (TokenGranted token ttl scope),
                        [token_audit ''mcp_oauth.token_minted'' (Some c) [(''kind'', JStr (ac_kind c)), (''expires_in'', JInt ttl),
                           (''scope'', JStr scope), (''token_fp'', JStr (tk_fingerprint lib token))]]))))))"

definition oauth_revoke ::
    "token_lib \<Rightarrow> oauth_cfg \<Rightarrow> (pystr \<Rightarrow> 's \<Rightarrow> bool \<times> 's) \<Rightarrow> (pystr \<Rightarrow> int \<Rightarrow> 's \<Rightarrow> 's) \<Rightarrow> int \<Rightarrow> (pystr \<times> json) list \<Rightarrow> 's \<Rightarrow>
     unit store_reply \<times> audit_entry list \<times> 's" where
  "oauth_revoke lib cfg asks puts now form s =
     (let token = py_strip (doc_text lib form ''token'') in
      if token = '''' then (Gives (), [], s)
      else (case revoke_access_token lib cfg asks puts now token s of
          (Gives True, s1) \<Rightarrow> (Gives (), [token_audit ''mcp_oauth.token_revoked'' None [(''token_fp'', JStr (tk_fingerprint lib token))]], s1)
        | (Gives False, s1) \<Rightarrow> (Gives (), [], s1) | (StoreDown, s1) \<Rightarrow> (StoreDown, [], s1) | (Raises, s1) \<Rightarrow> (Raises, [], s1)))"

section \<open>A minted token\<close>

lemma split_first_at: "c \<notin> set a \<Longrightarrow> split_first c (a @ c # r) = Some (a, r)"
  by (subst split_first_Some) simp

lemma split_sealed:
  "split_token (b64url_encode x @ ''.'' @ b64url_encode y @ ''.'' @ b64url_encode z) = Some (b64url_encode x, b64url_encode y, b64url_encode z)"
proof -
  have n: "CHR ''.'' \<notin> set (b64url_encode u)" for u using encoded_chars by blast
  show ?thesis by (simp add: split_token_def split_first_at n)
qed

lemma encoded_ascii: "is_ascii (b64url_encode s)"
  using encoded_chars by (simp add: is_ascii_def)

definition mcp_doc :: "(pystr \<times> json) list \<Rightarrow> bool" where
  "mcp_doc doc = (obj_get doc ''iss'' = JStr MCP_OAUTH_ISS \<and> obj_get doc ''typ'' = JStr TOKEN_TYP \<and> obj_get doc ''aud'' = JStr ''mcp'')"

lemma decode_sealed:
  assumes "tk_loads lib (utf8 (tk_dumps lib (JObj doc))) = Some (JObj doc)" and "signing_secret_for lib cfg = signing_secret_for lib cfg'" and "mcp_doc doc"
  shows "decode_token_claims lib cfg (sealed lib cfg' (JObj doc)) = Gives (Some doc)"
  using assms
  by (simp add: decode_token_claims_def sealed_def Let_def split_sealed [simplified] encoded_ascii b64url_round_trip signature_of_def mcp_doc_def)

lemma payload_fields:
  assumes "token_payload c scope now ttl jti = JObj doc"
  shows "mcp_doc doc" "doc_exp doc = Some (now + ttl)" "obj_get doc ''kind'' = JStr (ac_kind c)" "obj_get doc ''jti'' = JStr jti"
    "obj_get doc ''scope'' = JStr (if scope = '''' then ''mcp'' else scope)"
    "ac_kind c = ''virtual'' \<Longrightarrow> truthy_str (ac_key_id c) \<Longrightarrow> obj_get doc ''key_id'' = JStr (the (ac_key_id c))"
  using assms by (auto simp: token_payload_def mcp_doc_def doc_exp_def int_of_json_def obj_get_def obj_get_or_def)

text \<open>C18. A token that was minted is accepted until it ends, on every install that signs with the same secret: for a master key
  it gives the claims of the master, for a virtual key the claims of that key as the store has it now, provided the scope
  holds \<open>mcp\<close> and the token id is not on the denylist. The life of a token is between a minute and a day.\<close>

theorem minted_token_is_accepted:
  assumes "token_payload c scope now (token_ttl cfg) jti = JObj doc" and "tk_loads lib (utf8 (tk_dumps lib (JObj doc))) = Some (JObj doc)"
    and "\<And>x. tk_str lib (JStr x) = x" and "py_strip jti \<noteq> ''''" and "token_has_required_scope (if scope = '''' then ''mcp'' else scope)"
    and "later \<le> now + token_ttl cfg" and "asks (py_strip jti) s = (False, s1)"
  shows "verify_access_token lib cfg env store asks later (fst (mint_access_token lib cfg c scope now jti)) s
      = (Gives (if ac_kind c = ''master'' then Some (claims_of_kind ''master'') else claims_of_doc lib env store doc), s1)
    \<and> (ac_kind c = ''virtual'' \<longrightarrow> ac_key_id c = Some kid \<longrightarrow> store = Some st \<longrightarrow> get_key (ae_lib env) kid st = Some k \<longrightarrow>
        \<not> key_is_expired (ae_lib env) (ae_now env) k \<longrightarrow> claims_of_doc lib env store doc = Some (key_claims env st k))
    \<and> 60 \<le> token_ttl cfg \<and> token_ttl cfg \<le> 86400"
proof -
  have d: "mcp_doc doc" "doc_exp doc = Some (now + token_ttl cfg)" "obj_get doc ''kind'' = JStr (ac_kind c)" "obj_get doc ''jti'' = JStr jti"
    "obj_get doc ''scope'' = JStr (if scope = '''' then ''mcp'' else scope)" by (rule payload_fields [OF assms(1)])+
  have dec: "decode_token_claims lib cfg (sealed lib cfg (JObj doc)) = Gives (Some doc)" by (rule decode_sealed [OF assms(2) refl d(1)])
  have jne: "jti \<noteq> ''''" using assms(4) by auto
  have jti: "doc_jti lib doc = py_strip jti" using jne by (simp add: doc_jti_def doc_text_def d(4) assms(3))
  have scope: "token_has_required_scope (doc_text lib doc ''scope'')" using assms(5) by (simp add: doc_text_def d(5) assms(3))
  have master: "claims_of_doc lib env store doc = Some (claims_of_kind ''master'')" if "ac_kind c = ''master''"
    using scope that by (simp add: claims_of_doc_def d(3))
  have "claims_of_doc lib env store doc = Some (key_claims env st k)"
    if v: "ac_kind c = ''virtual''" "ac_key_id c = Some kid" "store = Some st" "get_key (ae_lib env) kid st = Some k"
      "\<not> key_is_expired (ae_lib env) (ae_now env) k"
  proof -
    have "kid \<noteq> ''''" "ks_enabled st" using v(4) by (auto simp: get_key_def list_keys_def split: if_splits)
    moreover have "obj_get doc ''key_id'' = JStr kid" using payload_fields(6) [OF assms(1) v(1)] v(2) \<open>kid \<noteq> ''''\<close> by (simp add: truthy_str_def)
    ultimately show ?thesis using scope v by (simp add: claims_of_doc_def d(3))
  qed
  moreover have "verify_access_token lib cfg env store asks later (fst (mint_access_token lib cfg c scope now jti)) s
      = (Gives (if ac_kind c = ''master'' then Some (claims_of_kind ''master'') else claims_of_doc lib env store doc), s1)"
    using assms(4,6,7) master by (simp add: mint_access_token_def assms(1) verify_access_token_def dec d(2) jti)
  ultimately show ?thesis by (simp add: token_ttl_def)
qed

section \<open>Only signed tokens\<close>

lemma decode_inv:
  assumes "decode_token_claims lib cfg token = Gives (Some doc)"
  shows "\<exists>a b c. split_token token = Some (a, b, c) \<and> b64url_decode c = Some (signature_of lib cfg (a @ ''.'' @ b))
    \<and> Option.bind (b64url_decode b) (tk_loads lib) = Some (JObj doc) \<and> mcp_doc doc"
proof -
  obtain a b c where t: "split_token token = Some (a, b, c)" using assms by (auto simp: decode_token_claims_def split: option.splits)
  obtain actual where c: "b64url_decode c = Some actual" using assms t by (auto simp: decode_token_claims_def split: option.splits if_splits)
  have sg: "signature_of lib cfg (a @ ''.'' @ b) = actual" using assms t c by (auto simp: decode_token_claims_def split: if_splits)
  have "Option.bind (b64url_decode b) (tk_loads lib) = Some (JObj doc) \<and> mcp_doc doc"
    using assms t c sg by (auto simp: decode_token_claims_def mcp_doc_def split: if_splits option.splits json.splits)
  then show ?thesis using t c sg by blast
qed

lemma verified_token:
  assumes "verify_access_token lib cfg env store asks now token s = (Gives (Some c), s1)"
  shows "\<exists>doc e. decode_token_claims lib cfg token = Gives (Some doc) \<and> doc_exp doc = Some e \<and> now \<le> e
    \<and> claims_of_doc lib env store doc = Some c \<and> (doc_jti lib doc \<noteq> '''' \<longrightarrow> asks (doc_jti lib doc) s = (False, s1))"
  using assms
  by (auto simp: verify_access_token_def split: store_reply.splits option.splits if_splits prod.splits)

lemma doc_claims_kind:
  assumes "claims_of_doc lib env store doc = Some c"
  shows "ac_kind c \<in> {''insufficient_scope'', ''master'', ''virtual'', ''expired''}
    \<and> (ac_kind c = ''master'' \<longrightarrow> obj_get doc ''kind'' = JStr ''master'')
    \<and> (ac_kind c = ''virtual'' \<longrightarrow> (\<exists>kid s k. obj_get doc ''key_id'' = JStr kid \<and> store = Some s \<and> get_key (ae_lib env) kid s = Some k \<and> c = key_claims env s k
        \<and> \<not> key_is_expired (ae_lib env) (ae_now env) k))"
proof -
  have kinds: "ac_kind (claims_of_kind x) = x" "ac_kind (virtual_claims k) = ''virtual''" "ac_kind (expired_claims k) = ''expired''"
    "ac_kind (key_claims env s k) = ''virtual''" for x k s
    by (simp_all add: claims_of_kind_def virtual_claims_def expired_claims_def key_claims_def split: option.split)
  show ?thesis using assms
    by (auto simp: claims_of_doc_def kinds split: if_splits json.splits option.splits)
qed

text \<open>C9. Whatever token is accepted was signed with the secret of this install: its last part decodes to the signature of the
  first two, its body is a document of this issuer that has not ended, its id is not on the denylist, and master claims
  come from a document that says so, claims of a virtual key from the key the store has.\<close>

theorem accepted_tokens_are_signed:
  assumes "verify_access_token lib cfg env store asks now token s = (Gives (Some c), s1)"
  shows "\<exists>a b sg doc e. split_token token = Some (a, b, sg) \<and> b64url_decode sg = Some (signature_of lib cfg (a @ ''.'' @ b))
    \<and> Option.bind (b64url_decode b) (tk_loads lib) = Some (JObj doc) \<and> mcp_doc doc \<and> doc_exp doc = Some e \<and> now \<le> e
    \<and> (doc_jti lib doc \<noteq> '''' \<longrightarrow> asks (doc_jti lib doc) s = (False, s1))
    \<and> (ac_kind c = ''master'' \<longrightarrow> obj_get doc ''kind'' = JStr ''master'')
    \<and> (ac_kind c = ''virtual'' \<longrightarrow> (\<exists>kid st k. obj_get doc ''key_id'' = JStr kid \<and> store = Some st \<and> get_key (ae_lib env) kid st = Some k \<and> c = key_claims env st k))"
proof -
  obtain doc e where d: "decode_token_claims lib cfg token = Gives (Some doc)" "doc_exp doc = Some e" "now \<le> e"
    "claims_of_doc lib env store doc = Some c" "doc_jti lib doc \<noteq> '''' \<longrightarrow> asks (doc_jti lib doc) s = (False, s1)"
    using verified_token [OF assms] by blast
  show ?thesis using decode_inv [OF d(1)] doc_claims_kind [OF d(4)] d by blast
qed

section \<open>Revoking a token\<close>

text \<open>C10. A revoked token stays out: once \<open>revoke_access_token\<close> has answered yes with the denylist of the process, the token is
  refused whatever is asked and revoked after it, until it ends and after it has ended. (Token ids are unique: the
  denylist holds the id with the end of this token, if it holds it.)\<close>

theorem revoked_token_stays_out:
  assumes "revoke_access_token lib cfg (\<lambda>j. is_jti_revoked j now) (\<lambda>j e. revoke_jti j e now) now token xs = (Gives True, ys)"
    and "distinct (map fst xs)" and "decode_token_claims lib cfg token = Gives (Some doc)" and "doc_exp doc = Some e"
    and "map_of xs (doc_jti lib doc) = None \<or> map_of xs (doc_jti lib doc) = Some e"
    and "\<And>t i d. (t, i, d) \<in> set us \<Longrightarrow> t \<le> later" and "\<And>t d. (t, doc_jti lib doc, Some d) \<in> set us \<Longrightarrow> d = e"
  shows "fst (verify_access_token lib cfg env store (\<lambda>j. is_jti_revoked j later) later token (local_denylist.use_denylist us ys)) = Gives None"
proof -
  let ?j = "doc_jti lib doc"
  have j: "?j \<noteq> ''''" and e: "now \<le> e"
    and ys: "ys = (let (r, s1) = is_jti_revoked ?j now xs in if r then s1 else revoke_jti ?j e now s1)"
    using assms(1,3,4) by (auto simp: revoke_access_token_def Let_def split: if_splits prod.splits)
  have known: "distinct (map fst ys) \<and> map_of ys ?j = Some e"
    using assms(2,5) j e ys
    by (auto simp: is_jti_revoked_def revoke_jti_def map_of_prune distinct_prune distinct_update Let_def simp del: map_of_eq_Some_iff split: if_splits)
  show ?thesis
  proof (cases "later \<le> e")
    case True
    have "distinct (map fst (local_denylist.use_denylist us ys)) \<and> map_of (local_denylist.use_denylist us ys) ?j = Some e"
      using known assms(6,7) True j by (intro local_denylist.known_stays_known) (auto simp del: map_of_eq_Some_iff intro: order_trans)
    then have "fst (is_jti_revoked ?j later (local_denylist.use_denylist us ys))" using local_denylist.asked True j by blast
    then show ?thesis using assms(3,4) True j by (auto simp: verify_access_token_def split: prod.split)
  next
    case False
    then show ?thesis using assms(3,4) by (simp add: verify_access_token_def)
  qed
qed

text \<open>With Redis as the denylist the revocation ends one second before the token: the key of a revoked id disappears when the
  clock reaches the end of the token, and in that second the token is still accepted. The denylist of the process keeps it.\<close>

theorem redis_forgets_a_second_early:
  assumes "decode_token_claims lib cfg token = Gives (Some doc)" and "doc_exp doc = Some e" and "doc_jti lib doc \<noteq> ''''" and "now \<le> e"
    and "claims_of_doc lib env store doc = Some c" and "distinct (map fst xs)" and "map_of xs (doc_jti lib doc) = None"
  shows "fst (verify_access_token lib cfg env store (\<lambda>j. redis_is_jti_revoked True j e) e token
          (snd (revoke_access_token lib cfg (\<lambda>j. redis_is_jti_revoked True j now) (\<lambda>j e. redis_revoke True j e now) now token xs))) = Gives (Some c)
    \<and> fst (verify_access_token lib cfg env store (\<lambda>j. is_jti_revoked j e) e token
          (snd (revoke_access_token lib cfg (\<lambda>j. is_jti_revoked j now) (\<lambda>j e. revoke_jti j e now) now token xs))) = Gives None"
proof -
  let ?j = "doc_jti lib doc"
  have redis: "snd (revoke_access_token lib cfg (\<lambda>j. redis_is_jti_revoked True j now) (\<lambda>j e. redis_revoke True j e now) now token xs) = AList.update ?j e xs"
    using assms by (simp add: revoke_access_token_def redis_is_jti_revoked_def redis_revoke_def)
  have "map_of (prune_jtis now xs) ?j = None" using assms(6,7) by (simp add: map_of_prune)
  then have here: "snd (revoke_access_token lib cfg (\<lambda>j. is_jti_revoked j now) (\<lambda>j e. revoke_jti j e now) now token xs)
      = prune_jtis now (AList.update ?j e (prune_jtis now xs))"
    using assms by (simp add: revoke_access_token_def is_jti_revoked_def revoke_jti_def)
  have "distinct (map fst (AList.update ?j e (prune_jtis now xs)))" using assms(6) by (simp add: distinct_prune distinct_update)
  then have "map_of (prune_jtis e (prune_jtis now (AList.update ?j e (prune_jtis now xs)))) ?j = Some e"
    using assms(4) by (simp add: map_of_prune distinct_prune del: map_of_eq_Some_iff)
  then show ?thesis
    using assms unfolding redis here by (simp add: verify_access_token_def redis_is_jti_revoked_def is_jti_revoked_def)
qed

section \<open>Revoking a key\<close>

lemma get_key_after_revoke:
  assumes "get_key lib kid s = Some k" and "revoke_key lib now kid s = (ok, s1)"
  shows "get_key lib kid s1 = Some (k\<lparr>vk_revoked := True\<rparr>)"
proof -
  have en: "ks_enabled s" and ne: "kid \<noteq> ''''" using assms(1) by (auto simp: get_key_def list_keys_def split: if_splits)
  let ?f = "\<lambda>r. if active_row kid r then r\<lparr>kr_revoked := Some (kl_iso lib now)\<rparr> else r"
  have s1: "s1 = s\<lparr>ks_keys := map ?f (ks_keys s)\<rparr>" using assms(2) en by (simp add: revoke_key_def update_active_def)
  have row: "key_of_row lib s1 (?f r) = (key_of_row lib s r)\<lparr>vk_revoked := True\<rparr>" if "kr_id r = kid" for r
    using that by (auto simp: s1 key_of_row_def active_row_def Let_def cong: eager)
  have ids: "vk_id (key_of_row lib x r) = kr_id r" for x r by (simp add: key_of_row_def Let_def)
  have same: "(\<lambda>r. kr_id (?f r) = kid) = (\<lambda>r. kr_id r = kid)" by (rule ext) simp
  have "find (\<lambda>r. kr_id r = kid) (rev (ks_keys s)) \<noteq> None" using assms(1) en ne by (auto simp: get_key_def list_keys_def find_map_to ids)
  then obtain r where r: "find (\<lambda>r. kr_id r = kid) (rev (ks_keys s)) = Some r" by blast
  then have k: "k = key_of_row lib s r" using assms(1) en ne by (simp add: get_key_def list_keys_def find_map_to ids)
  have "list_keys lib s1 = map (\<lambda>r. key_of_row lib s1 (?f r)) (rev (ks_keys s))" using en by (simp add: list_keys_def s1 rev_map comp_def)
  then have "get_key lib kid s1 = map_option (\<lambda>r. key_of_row lib s1 (?f r)) (find (\<lambda>r. kr_id r = kid) (rev (ks_keys s)))"
    using ne by (simp add: get_key_def find_map_to ids same)
  then show ?thesis using r row [of r] found [OF r] by (simp add: k)
qed

text \<open>C32. Revoking a virtual key does not revoke its tokens: \<open>get_key\<close> hands out revoked keys and nothing in the verification reads
  the mark, so a token that gave the claims of the key before gives them after the revocation, with the revoked key in
  them, until it ends (up to a day later).\<close>

theorem tokens_outlive_their_key:
  assumes "verify_access_token lib cfg env (Some st) asks now token s = (Gives (Some c), s1)" and "ac_kind c = ''virtual''"
    and "ac_key_id c = Some kid" and "revoke_key (ae_lib env) at_time kid st = (ok, st')"
  shows "\<exists>c'. verify_access_token lib cfg env (Some st') asks now token s = (Gives (Some c'), s1) \<and> ac_kind c' = ''virtual''
    \<and> ac_key_id c' = Some kid \<and> (\<exists>k. ac_key c' = Some k \<and> vk_revoked k)"
proof -
  obtain doc e where d: "decode_token_claims lib cfg token = Gives (Some doc)" "doc_exp doc = Some e" "now \<le> e"
    "claims_of_doc lib env (Some st) doc = Some c" "doc_jti lib doc \<noteq> '''' \<longrightarrow> asks (doc_jti lib doc) s = (False, s1)"
    using verified_token [OF assms(1)] by blast
  have s1: "doc_jti lib doc = '''' \<longrightarrow> s1 = s" using assms(1) d(1-4) by (auto simp: verify_access_token_def)
  obtain i k where k: "obj_get doc ''key_id'' = JStr i" "get_key (ae_lib env) i st = Some k" "c = key_claims env st k"
    "\<not> key_is_expired (ae_lib env) (ae_now env) k"
    using doc_claims_kind [OF d(4)] assms(2) by blast
  have claims: "ac_kind (key_claims env x y) = ''virtual''" "ac_key_id (key_claims env x y) = Some (vk_id y)" "ac_key (key_claims env x y) = Some y" for x y
    by (simp_all add: key_claims_def virtual_claims_def claims_of_kind_def split: option.split)
  have "vk_id k = i" using k(2) found [of _ "list_keys (ae_lib env) st" k] by (auto simp: get_key_def split: if_splits)
  then have i: "i = kid" using assms(3) by (simp add: k(3) claims)
  let ?k = "k\<lparr>vk_revoked := True\<rparr>"
  have k1: "get_key (ae_lib env) kid st' = Some ?k" using get_key_after_revoke [OF k(2) [unfolded i] assms(4)] .
  then have en: "ks_enabled st'" "kid \<noteq> ''''" by (auto simp: get_key_def list_keys_def split: if_splits)
  have scope: "token_has_required_scope (doc_text lib doc ''scope'')" and kind: "obj_get doc ''kind'' = JStr ''virtual''"
    using d(4) assms(2) by (auto simp: claims_of_doc_def claims_of_kind_def expired_claims_def split: if_splits)
  have "claims_of_doc lib env (Some st') doc = Some (key_claims env st' ?k)"
    using k(4) k1 en scope kind by (simp add: claims_of_doc_def k(1) i key_is_expired_def)
  then have "verify_access_token lib cfg env (Some st') asks now token s = (Gives (Some (key_claims env st' ?k)), s1)"
    using d(1-3,5) s1 by (simp add: verify_access_token_def)
  then show ?thesis using \<open>vk_id k = i\<close> i by (intro exI [of _ "key_claims env st' ?k"]) (simp add: claims)
qed

section \<open>An install without a master key\<close>

lemma public_secret:
  assumes "py_strip (oc_signing cfg) = ''''" and "normalize_master_keys (oc_master cfg) = []"
  shows "signing_secret_for lib cfg = hex_text (tk_hmac lib ''daari-mcp-oauth-v1'' ''local-as'')"
  using assms by (simp add: signing_secret_for_def)

text \<open>C31. Where there is no master key and no signing secret, but virtual keys, anybody can be the master. Every such install signs
  with the same constant, so a token made anywhere with a document that says \<open>master\<close> is accepted, and the request that
  carries it reaches the handler with the claims of the master, past the keys the store enforces.\<close>

theorem anybody_is_master_without_a_master_key:
  assumes "py_strip (oc_signing cfg) = ''''" and "normalize_master_keys (oc_master cfg) = []"
    and "py_strip (oc_signing elsewhere) = ''''" and "normalize_master_keys (oc_master elsewhere) = []"
    and "token_payload (claims_of_kind ''master'') ''mcp'' now (token_ttl elsewhere) jti = JObj doc"
    and "tk_loads lib (utf8 (tk_dumps lib (JObj doc))) = Some (JObj doc)" and "\<And>x. tk_str lib (JStr x) = x" and "py_strip jti \<noteq> ''''"
    and "token = fst (mint_access_token lib elsewhere (claims_of_kind ''master'') ''mcp'' now jti)"
    and "fst (asks (py_strip jti) s) = False" and "later \<le> now + token_ttl elsewhere"
    and "fx_master app = oc_master cfg"
    and "fx_oauth app token = (case verify_access_token lib cfg (fx_auth app) (Some (sh_store h)) asks later token s of (Gives x, s') \<Rightarrow> x | _ \<Rightarrow> None)"
    and "extract_api_key (hr_headers rq) = token" and "hr_path rq \<notin> open_paths NoMaster" and "\<not> is_preflight (fx_cors app) rq"
    and "fw_store w = Some h" and "\<not> sh_unreachable h" and "\<not> sh_down h" and "ks_enabled (sh_store h)" and "list_keys (ae_lib (fx_auth app)) (sh_store h) \<noteq> []"
    and "resolve_key (ae_lib (fx_auth app)) (ae_digest (fx_auth app)) token (sh_store h) = None"
  shows "require_api_key app mark rq next w = next (Some (claims_of_kind ''master'')) (stamp_use app (claims_of_kind ''master'') w)"
proof -
  have d: "mcp_doc doc" "doc_exp doc = Some (now + token_ttl elsewhere)" "obj_get doc ''kind'' = JStr ''master''" "obj_get doc ''jti'' = JStr jti"
    "obj_get doc ''scope'' = JStr ''mcp''" using payload_fields [OF assms(5)] by (simp_all add: claims_of_kind_def)
  have tok: "token = sealed lib elsewhere (JObj doc)" using assms(9) by (simp add: mint_access_token_def assms(5))
  have dec: "decode_token_claims lib cfg token = Gives (Some doc)"
    unfolding tok by (rule decode_sealed [OF assms(6) _ d(1)]) (simp add: public_secret assms(1-4))
  have jti: "doc_jti lib doc = py_strip jti" using assms(8) by (cases "jti = ''''") (simp_all add: doc_jti_def doc_text_def d(4) assms(7))
  have "token_has_required_scope (doc_text lib doc ''scope'')"
    by (simp add: doc_text_def d(5) assms(7)) code_simp
  then have c: "claims_of_doc lib env st doc = Some (claims_of_kind ''master'')" for env st by (simp add: claims_of_doc_def d(3))
  have oauth: "fx_oauth app token = Some (claims_of_kind ''master'')"
    using assms(8,10,11) by (cases "asks (py_strip jti) s") (simp add: assms(13) verify_access_token_def dec d(2) jti c)
  have ne: "token \<noteq> ''''" by (simp add: tok sealed_def Let_def)
  have nm: "\<not> master_key_matches token (oc_master cfg)" using assms(2) by (simp add: master_match_iff)
  have "store_enforces_auth (ae_lib (fx_auth app)) (Some h)" using assms(18-21) by (simp add: store_enforces_auth_def)
  then have "resolve_auth (fx_auth app) (oc_master cfg) (Some h) token = Gives None" "\<not> open_install (ae_lib (fx_auth app)) (oc_master cfg) (Some h)"
    using assms(19,20,22) nm ne by (simp_all add: resolve_auth_def ask_store_def open_install_def)
  moreover have "hr_path rq \<notin> open_paths (oc_master cfg)" using assms(2,15) by (simp add: open_paths_def normalize_master_keys_def [of NoMaster])
  moreover have "admit_claims app mark rq next (claims_of_kind ''master'') w
      = next (Some (claims_of_kind ''master'')) (stamp_use app (claims_of_kind ''master'') w)"
    by (simp add: admit_claims_def claims_of_kind_def)
  moreover have "ac_kind (claims_of_kind ''master'') = ''master''" by (simp add: claims_of_kind_def)
  ultimately show ?thesis
    using assms(12,14,16,17,18) ne oauth by (simp add: require_api_key_def Let_def auth_outcome_def)
qed

section \<open>Concrete tokens\<close>

definition demo_holder :: "pystr \<Rightarrow> auth_claims" where
  "demo_holder kind = (claims_of_kind kind)\<lparr>ac_key_id := (if kind = ''virtual'' then Some ''k1'' else None)\<rparr>"

definition demo_doc :: "pystr \<Rightarrow> (pystr \<times> json) list" where
  "demo_doc kind = (case token_payload (demo_holder kind) ''mcp'' 0 900 ''j1'' of JObj doc \<Rightarrow> doc | _ \<Rightarrow> [])"

definition demo_tokens :: "pystr \<Rightarrow> token_lib" where
  "demo_tokens kind = \<lparr>tk_hmac = (\<lambda>k m. take 3 k), tk_dumps = (\<lambda>j. ''x''), tk_loads = (\<lambda>t. Some (JObj (demo_doc kind))),
     tk_str = (\<lambda>j. case j of JStr t \<Rightarrow> t | _ \<Rightarrow> ''''), tk_basic = (\<lambda>t. None), tk_fingerprint = (\<lambda>t. '''')\<rparr>"

definition demo_oauth :: oauth_cfg where
  "demo_oauth = \<lparr>oc_local_as = True, oc_scopes = [], oc_signing = '''', oc_ttl = 0, oc_master = NoMaster\<rparr>"

definition demo_token :: "pystr \<Rightarrow> pystr" where
  "demo_token kind = fst (mint_access_token (demo_tokens kind) demo_oauth (demo_holder kind) ''mcp'' 0 ''j1'')"

lemma demo_payload: "token_payload (demo_holder kind) ''mcp'' 0 (token_ttl demo_oauth) ''j1'' = JObj (demo_doc kind)"
  by (simp add: demo_doc_def token_payload_def token_ttl_def demo_oauth_def)

lemma demo_fields: "mcp_doc (demo_doc kind)" "doc_exp (demo_doc kind) = Some 900" "doc_jti (demo_tokens kind) (demo_doc kind) = ''j1''"
  "obj_get (demo_doc kind) ''kind'' = JStr kind" "obj_get (demo_doc ''virtual'') ''key_id'' = JStr ''k1''"
  "token_has_required_scope (doc_text (demo_tokens kind) (demo_doc kind) ''scope'')"
proof -
  have ttl: "token_ttl demo_oauth = 900" by (simp add: token_ttl_def demo_oauth_def)
  have str: "tk_str (demo_tokens kind) (JStr x) = x" for x by (simp add: demo_tokens_def)
  show "mcp_doc (demo_doc kind)" "doc_exp (demo_doc kind) = Some 900" using payload_fields(1,2) [OF demo_payload [of kind]] by (simp_all add: ttl)
  have j: "obj_get (demo_doc kind) ''jti'' = JStr ''j1''" "obj_get (demo_doc kind) ''scope'' = JStr ''mcp''"
    using payload_fields(4,5) [OF demo_payload [of kind]] by simp_all
  have "py_strip ''j1'' = ''j1''" by code_simp
  then show "doc_jti (demo_tokens kind) (demo_doc kind) = ''j1''" by (simp add: doc_jti_def doc_text_def j str)
  show "obj_get (demo_doc kind) ''kind'' = JStr kind"
    using payload_fields(3) [OF demo_payload [of kind]] by (simp add: demo_holder_def claims_of_kind_def)
  show "obj_get (demo_doc ''virtual'') ''key_id'' = JStr ''k1''"
    using payload_fields(6) [OF demo_payload [of "''virtual''"]] by (simp add: demo_holder_def claims_of_kind_def truthy_str_def)
  show "token_has_required_scope (doc_text (demo_tokens kind) (demo_doc kind) ''scope'')" by (simp add: doc_text_def j str) code_simp
qed

lemma demo_loads: "tk_loads (demo_tokens kind) (utf8 (tk_dumps (demo_tokens kind) (JObj (demo_doc kind)))) = Some (JObj (demo_doc kind))"
  by (simp add: demo_tokens_def)

lemma demo_decodes: "decode_token_claims (demo_tokens kind) demo_oauth (demo_token kind) = Gives (Some (demo_doc kind))"
  using decode_sealed [OF demo_loads refl demo_fields(1)] by (simp add: demo_token_def mint_access_token_def demo_payload)

lemma demo_master_doc: "claims_of_doc (demo_tokens ''master'') env store (demo_doc ''master'') = Some (claims_of_kind ''master'')"
  using demo_fields(4,6) [of "''master''"] by (simp add: claims_of_doc_def)

lemma demo_master_verifies:
  "verify_access_token (demo_tokens ''master'') demo_oauth demo_auth None (\<lambda>j. is_jti_revoked j 10) 10 (demo_token ''master'') [] = (Gives (Some (claims_of_kind ''master'')), [])"
  by (simp add: verify_access_token_def demo_decodes demo_fields) (simp add: is_jti_revoked_def prune_jtis_def demo_master_doc)

theorem minted_token_is_accepted_witness:
  "verify_access_token (demo_tokens ''master'') demo_oauth demo_auth None (\<lambda>j. is_jti_revoked j 10) 10
     (fst (mint_access_token (demo_tokens ''master'') demo_oauth (demo_holder ''master'') ''mcp'' 0 ''j1'')) [] = (Gives (Some (claims_of_kind ''master'')), [])"
proof -
  have "py_strip ''j1'' \<noteq> ''''" "py_strip ''j1'' = ''j1''" by code_simp+
  moreover have "token_has_required_scope (if ''mcp'' = '''' then ''mcp'' else ''mcp'')" by code_simp
  moreover have "tk_str (demo_tokens ''master'') (JStr x) = x" for x by (simp add: demo_tokens_def)
  moreover have "is_jti_revoked ''j1'' 10 [] = (False, [])" by (simp add: is_jti_revoked_def prune_jtis_def)
  moreover have "10 \<le> 0 + token_ttl demo_oauth" by (simp add: token_ttl_def demo_oauth_def)
  moreover have "ac_kind (demo_holder ''master'') = ''master''" by (simp add: demo_holder_def claims_of_kind_def)
  ultimately show ?thesis
    using minted_token_is_accepted [OF demo_payload demo_loads, of _ 10 "\<lambda>j. is_jti_revoked j 10" "[]" "[]" demo_auth None] demo_master_doc [of demo_auth None] by simp
qed

theorem accepted_tokens_are_signed_witness:
  "\<exists>a b sg. split_token (demo_token ''master'') = Some (a, b, sg)
     \<and> b64url_decode sg = Some (signature_of (demo_tokens ''master'') demo_oauth (a @ ''.'' @ b))"
  using accepted_tokens_are_signed [OF demo_master_verifies] by blast

theorem revoked_token_stays_out_witness:
  "fst (verify_access_token (demo_tokens ''master'') demo_oauth demo_auth None (\<lambda>j. is_jti_revoked j 7) 7 (demo_token ''master'')
      (local_denylist.use_denylist [(6, ''other'', Some 800)]
        (snd (revoke_access_token (demo_tokens ''master'') demo_oauth (\<lambda>j. is_jti_revoked j 5) (\<lambda>j e. revoke_jti j e 5) 5 (demo_token ''master'') [])))) = Gives None"
proof -
  obtain ys where ys: "revoke_access_token (demo_tokens ''master'') demo_oauth (\<lambda>j. is_jti_revoked j 5) (\<lambda>j e. revoke_jti j e 5) 5 (demo_token ''master'') [] = (Gives True, ys)"
    by (simp add: revoke_access_token_def demo_decodes demo_fields is_jti_revoked_def prune_jtis_def)
  show ?thesis
    using revoked_token_stays_out [OF ys _ demo_decodes demo_fields(2), of "[(6, ''other'', Some 800)]" 7 demo_auth None] demo_fields(3) [of "''master''"]
    by (simp add: ys)
qed

theorem redis_forgets_a_second_early_witness:
  "fst (verify_access_token (demo_tokens ''master'') demo_oauth demo_auth None (\<lambda>j. redis_is_jti_revoked True j 900) 900 (demo_token ''master'')
      (snd (revoke_access_token (demo_tokens ''master'') demo_oauth (\<lambda>j. redis_is_jti_revoked True j 5) (\<lambda>j e. redis_revoke True j e 5) 5
        (demo_token ''master'') []))) = Gives (Some (claims_of_kind ''master''))"
  using redis_forgets_a_second_early [OF demo_decodes demo_fields(2) _ _ demo_master_doc, of 5 "[]" demo_auth None] demo_fields(3) [of "''master''"]
  by simp

lemma demo_virtual_verifies:
  "\<exists>c. verify_access_token (demo_tokens ''virtual'') demo_oauth demo_auth (Some (demo_store None)) (\<lambda>j. is_jti_revoked j 10) 10 (demo_token ''virtual'') []
     = (Gives (Some c), []) \<and> ac_kind c = ''virtual'' \<and> ac_key_id c = Some ''k1''"
proof -
  obtain k where k: "get_key demo_keys_lib ''k1'' (demo_store None) = Some k" "vk_id k = ''k1''" "vk_expires k = None"
    by (auto simp: get_key_def list_keys_def demo_store_def empty_store_def key_of_row_def demo_row_fields Let_def)
  have "ks_enabled (demo_store None)" by (simp add: demo_store_def empty_store_def)
  then have "claims_of_doc (demo_tokens ''virtual'') demo_auth (Some (demo_store None)) (demo_doc ''virtual'') = Some (key_claims demo_auth (demo_store None) k)"
    using k demo_fields(4,6) [of "''virtual''"] demo_fields(5)
    by (simp add: claims_of_doc_def demo_auth_def key_is_expired_def is_past_def)
  then have "verify_access_token (demo_tokens ''virtual'') demo_oauth demo_auth (Some (demo_store None)) (\<lambda>j. is_jti_revoked j 10) 10 (demo_token ''virtual'') []
      = (Gives (Some (key_claims demo_auth (demo_store None) k)), [])"
    by (simp add: verify_access_token_def demo_decodes demo_fields) (simp add: is_jti_revoked_def prune_jtis_def)
  moreover have "ac_kind (key_claims e st k) = ''virtual''" "ac_key_id (key_claims e st k) = Some (vk_id k)" for e st
    by (simp_all add: key_claims_def virtual_claims_def claims_of_kind_def split: option.split)
  ultimately show ?thesis using k(2) by simp
qed

theorem tokens_outlive_their_key_witness:
  "\<exists>st c. revoke_key demo_keys_lib 1 ''k1'' (demo_store None) = (True, st)
     \<and> verify_access_token (demo_tokens ''virtual'') demo_oauth demo_auth (Some st) (\<lambda>j. is_jti_revoked j 10) 10 (demo_token ''virtual'') [] = (Gives (Some c), [])
     \<and> ac_kind c = ''virtual'' \<and> ac_key_id c = Some ''k1''"
proof -
  obtain c where c: "verify_access_token (demo_tokens ''virtual'') demo_oauth demo_auth (Some (demo_store None)) (\<lambda>j. is_jti_revoked j 10) 10
      (demo_token ''virtual'') [] = (Gives (Some c), [])" "ac_kind c = ''virtual''" "ac_key_id c = Some ''k1''" using demo_virtual_verifies by blast
  obtain st where r: "revoke_key (ae_lib demo_auth) 1 ''k1'' (demo_store None) = (True, st)"
    by (simp add: demo_auth_def revoke_key_def update_active_def active_row_def demo_store_def empty_store_def demo_row_fields)
  have "ae_lib demo_auth = demo_keys_lib" by (simp add: demo_auth_def)
  then show ?thesis using tokens_outlive_their_key [OF c r] r by auto
qed

definition demo_install :: "(unit, sqlite_counters) front_cfg" where
  "demo_install = demo_app\<lparr>fx_master := NoMaster, fx_oauth := (\<lambda>t. case verify_access_token (demo_tokens ''master'') demo_oauth demo_auth
     (Some (demo_store None)) (\<lambda>j. is_jti_revoked j 10) 10 t [] of (Gives x, s) \<Rightarrow> x | _ \<Rightarrow> None)\<rparr>"

lemma demo_token_text: "\<exists>r. demo_token ''master'' = CHR ''e'' # r"
proof -
  have "b64url_encode JWT_HEADER = CHR ''e'' # tl (b64url_encode JWT_HEADER)" by code_simp
  then show ?thesis by (metis append_Cons demo_token_def fst_conv mint_access_token_def sealed_def)
qed

theorem anybody_is_master_without_a_master_key_witness:
  "\<exists>w'. require_api_key demo_install 0 (demo_http [(''x-api-key'', demo_token ''master'')]) ok_handler (demo_world (demo_store None))
     = ok_handler (Some (claims_of_kind ''master'')) w'"
proof -
  have strip: "py_strip (oc_signing demo_oauth) = ''''" "normalize_master_keys (oc_master demo_oauth) = []" "py_strip ''j1'' \<noteq> ''''" "py_strip ''j1'' = ''j1''"
    by (simp_all add: demo_oauth_def normalize_master_keys_def) code_simp+
  have payload: "token_payload (claims_of_kind ''master'') ''mcp'' 0 (token_ttl demo_oauth) ''j1'' = JObj (demo_doc ''master'')"
    using demo_payload [of "''master''"] by (simp add: demo_holder_def token_payload_def claims_of_kind_def)
  have str: "tk_str (demo_tokens ''master'') (JStr x) = x" for x by (simp add: demo_tokens_def)
  have tok: "demo_token ''master'' = fst (mint_access_token (demo_tokens ''master'') demo_oauth (claims_of_kind ''master'') ''mcp'' 0 ''j1'')"
    by (simp add: demo_token_def mint_access_token_def payload demo_payload)
  have free: "fst (is_jti_revoked (py_strip ''j1'') 10 []) = False" by (simp add: is_jti_revoked_def prune_jtis_def)
  have ttl: "10 \<le> 0 + token_ttl demo_oauth" by (simp add: token_ttl_def demo_oauth_def)
  obtain r where r: "demo_token ''master'' = CHR ''e'' # r" using demo_token_text by blast
  have app: "fx_master demo_install = oc_master demo_oauth" "fx_auth demo_install = demo_auth" "fx_cors demo_install = {}"
    by (simp_all add: demo_install_def demo_app_def demo_oauth_def)
  have verified: "fx_oauth demo_install (demo_token ''master'') = (case verify_access_token (demo_tokens ''master'') demo_oauth (fx_auth demo_install)
     (Some (sh_store demo_handle)) (\<lambda>j. is_jti_revoked j 10) 10 (demo_token ''master'') [] of (Gives x, s) \<Rightarrow> x | _ \<Rightarrow> None)"
    by (simp add: demo_install_def demo_app_def demo_handle_def)
  have request: "extract_api_key (hr_headers (demo_http [(''x-api-key'', demo_token ''master'')])) = demo_token ''master''"
    "hr_path (demo_http [(''x-api-key'', demo_token ''master'')]) \<notin> open_paths NoMaster"
    "\<not> is_preflight (fx_cors demo_install) (demo_http [(''x-api-key'', demo_token ''master'')])"
    by (simp_all add: demo_http_def extract_api_key_def open_paths_def normalize_master_keys_def is_preflight_def app str_or_def r)
  have store: "fw_store (demo_world (demo_store None)) = Some demo_handle" "\<not> sh_unreachable demo_handle" "\<not> sh_down demo_handle"
    "ks_enabled (sh_store demo_handle)" "list_keys (ae_lib (fx_auth demo_install)) (sh_store demo_handle) \<noteq> []"
    by (simp_all add: demo_world_def demo_handle_def demo_store_def empty_store_def list_keys_def)
  have no_key: "resolve_key (ae_lib (fx_auth demo_install)) (ae_digest (fx_auth demo_install)) (demo_token ''master'') (sh_store demo_handle) = None"
    by (simp add: resolve_key_def demo_handle_def demo_store_def empty_store_def owns_hash_def demo_row_fields app demo_auth_def r Let_def)
  show ?thesis
    using anybody_is_master_without_a_master_key [OF strip(1,2) strip(1,2) payload demo_loads str strip(3) tok free ttl app(1) verified
        request store no_key, of 0 ok_handler] by (rule exI)
qed

end
